(* ===== verification/Mqtt_Prelude.thy ===== *)
theory Mqtt_Prelude
  imports Main "HOL-Library.Word" "HOL-Library.List_Lexorder" "HOL-Library.Char_ord" "HOL-Library.Multiset"
begin

text \<open>
  The prelude of the development: what the components of the MQTT v5 client share.
  It holds the C and C++ vocabulary of the code (unsigned decrement, the bounded
  \<^verbatim>\<open>ObjListType\<close> containers, \<^verbatim>\<open>std::find_if\<close>, \<^verbatim>\<open>std::lower_bound\<close> on a sorted vector,
  insertion and erasure at an iterator), the lemmas about them, and three interfaces:
  a pool of reusable resources (timers, packet identifiers), an ordered store searched by
  \<^verbatim>\<open>std::lower_bound\<close> (subscription filters, topic aliases), and an invariant kept by
  every step of a machine.
\<close>

named_theorems store_simps \<open>membership facts of the ordered stores\<close>
named_theorems timer_simps \<open>effect of the timer operations on the timer table\<close>

section \<open>C and C++ vocabulary\<close>

text \<open>A C string: the characters before the terminating NUL.\<close>

type_synonym cstr = string

text \<open>\<^verbatim>\<open>--x\<close> on an \<^verbatim>\<open>unsigned\<close> of 32 bits.\<close>

definition dec_u32 :: "nat \<Rightarrow> nat" where
  "dec_u32 n = (if n = 0 then 4294967295 else n - 1)"

lemma dec_u32_pos [simp]: "0 < n \<Longrightarrow> dec_u32 n = n - 1"
  by (simp add: dec_u32_def)

lemma dec_u32_Suc [simp]: "dec_u32 (Suc n) = n"
  by (simp add: dec_u32_def)

text \<open>
  \<^verbatim>\<open>ObjListType<TObj, TLimit, THasFeature>\<close> is a \<^verbatim>\<open>std::vector\<close> when there is no limit and
  the feature is present, and a \<^verbatim>\<open>StaticVector\<close> of \<^verbatim>\<open>TLimit\<close> elements otherwise; this is
  the test \<^verbatim>\<open>xs.max_size() <= xs.size()\<close> (a \<^verbatim>\<open>std::vector\<close> never reaches its
  \<^verbatim>\<open>max_size()\<close>).
\<close>

definition obj_list_full :: "nat \<Rightarrow> bool \<Rightarrow> 'a list \<Rightarrow> bool" where
  "obj_list_full limit feature xs = (if limit = 0 \<and> feature then False else limit \<le> length xs)"

text \<open>\<^verbatim>\<open>std::find_if\<close>, as the distance from \<^verbatim>\<open>begin()\<close>; the length stands for \<^verbatim>\<open>end()\<close>.\<close>

definition find_idx :: "('a \<Rightarrow> bool) \<Rightarrow> 'a list \<Rightarrow> nat" where
  "find_idx P xs = length (takeWhile (\<lambda>x. \<not> P x) xs)"

lemma find_idx_Nil [simp]: "find_idx P [] = 0"
  by (simp add: find_idx_def)

lemma find_idx_Cons [simp]: "find_idx P (x # xs) = (if P x then 0 else Suc (find_idx P xs))"
  by (simp add: find_idx_def)

lemma find_idx_le: "find_idx P xs \<le> length xs"
  by (simp add: find_idx_def length_takeWhile_le)

lemma find_idx_less_iff: "find_idx P xs < length xs \<longleftrightarrow> (\<exists>x\<in>set xs. P x)"
  by (induction xs) auto

lemma find_idx_nth: "find_idx P xs < length xs \<Longrightarrow> P (xs ! find_idx P xs)"
  by (induction xs) (auto split: if_splits)

lemma find_idx_before: "i < find_idx P xs \<Longrightarrow> \<not> P (xs ! i)"
  by (induction xs arbitrary: i) (auto simp: less_Suc_eq_0_disj split: if_splits)

text \<open>\<^verbatim>\<open>v.insert(iter, x)\<close> and \<^verbatim>\<open>v.erase(iter)\<close> at the iterator \<^verbatim>\<open>begin() + i\<close>.\<close>

definition insert_at :: "nat \<Rightarrow> 'a \<Rightarrow> 'a list \<Rightarrow> 'a list" where
  "insert_at i x xs = take i xs @ x # drop i xs"

definition erase_at :: "nat \<Rightarrow> 'a list \<Rightarrow> 'a list" where
  "erase_at i xs = take i xs @ drop (Suc i) xs"

lemma set_insert_at [simp]: "set (insert_at i x xs) = insert x (set xs)"
proof -
  have "set xs = set (take i xs) \<union> set (drop i xs)"
    by (metis append_take_drop_id set_append)
  then show ?thesis by (auto simp: insert_at_def)
qed

lemma length_insert_at [simp]: "length (insert_at i x xs) = Suc (length xs)"
  by (simp add: insert_at_def)

lemma length_erase_at: "i < length xs \<Longrightarrow> length (erase_at i xs) = length xs - 1"
  by (simp add: erase_at_def)

lemma erase_at_beyond [simp]: "length xs \<le> i \<Longrightarrow> erase_at i xs = xs"
  by (simp add: erase_at_def)

lemma set_erase_at_subset: "set (erase_at i xs) \<subseteq> set xs"
  by (auto simp: erase_at_def dest: in_set_takeD in_set_dropD)

lemma erase_at_append: "erase_at (length xs) (xs @ y # ys) = xs @ ys"
  by (simp add: erase_at_def)

lemma insert_at_append: "insert_at (length xs) y (xs @ ys) = xs @ y # ys"
  by (simp add: insert_at_def)

lemma split_at_nth: "i < length xs \<Longrightarrow> xs = take i xs @ xs ! i # drop (Suc i) xs"
  by (simp add: id_take_nth_drop)

lemma length_filter_update:
  "i < length xs \<Longrightarrow>
     length (filter P (xs[i := y])) + (if P (xs ! i) then 1 else 0) =
     length (filter P xs) + (if P y then 1 else 0)"
proof -
  assume i: "i < length xs"
  have "filter P xs = filter P (take i xs) @ filter P [xs ! i] @ filter P (drop (Suc i) xs)"
    by (metis append.simps(1,2) filter_append i split_at_nth)
  then show ?thesis by (simp add: upd_conv_take_nth_drop i)
qed

lemma in_set_update_cases:
  "x \<in> set (xs[i := y]) \<Longrightarrow> x = y \<or> x \<in> set xs"
  using set_update_subset_insert by fastforce

section \<open>Sorted vectors searched by std::lower_bound\<close>

text \<open>
  The vector is sorted by a key without duplicates; \<^verbatim>\<open>std::lower_bound\<close> returns the
  partition point, the first element whose key is not below the searched one.
\<close>

definition key_sorted :: "('a \<Rightarrow> 'k::linorder) \<Rightarrow> 'a list \<Rightarrow> bool" where
  "key_sorted key xs = sorted_wrt (\<lambda>x y. key x < key y) xs"

definition lower_bound :: "('a \<Rightarrow> 'k::linorder) \<Rightarrow> 'k \<Rightarrow> 'a list \<Rightarrow> nat" where
  "lower_bound key k xs = length (takeWhile (\<lambda>x. key x < k) xs)"

text \<open>The test \<^verbatim>\<open>(iter != end()) && (key(*iter) == k)\<close> that follows every search.\<close>

definition lb_found :: "('a \<Rightarrow> 'k::linorder) \<Rightarrow> 'k \<Rightarrow> 'a list \<Rightarrow> bool" where
  "lb_found key k xs =
     (lower_bound key k xs < length xs \<and> key (xs ! lower_bound key k xs) = k)"

lemma key_sorted_Nil [simp]: "key_sorted key []"
  by (simp add: key_sorted_def)

lemma key_sorted_Cons:
  "key_sorted key (x # xs) \<longleftrightarrow> (\<forall>y\<in>set xs. key x < key y) \<and> key_sorted key xs"
  by (simp add: key_sorted_def)

lemma key_sorted_append:
  "key_sorted key (xs @ ys) \<longleftrightarrow>
     key_sorted key xs \<and> key_sorted key ys \<and> (\<forall>x\<in>set xs. \<forall>y\<in>set ys. key x < key y)"
  by (simp add: key_sorted_def sorted_wrt_append)

lemma key_sorted_distinct: "key_sorted key xs \<Longrightarrow> distinct (map key xs)"
  by (induction xs) (auto simp: key_sorted_Cons)

lemma key_sorted_inj:
  "key_sorted key xs \<Longrightarrow> x \<in> set xs \<Longrightarrow> y \<in> set xs \<Longrightarrow> key x = key y \<Longrightarrow> x = y"
  by (meson distinct_map inj_onD key_sorted_distinct)

lemma lower_bound_Nil [simp]: "lower_bound key k [] = 0"
  by (simp add: lower_bound_def)

lemma lower_bound_Cons [simp]:
  "lower_bound key k (x # xs) = (if key x < k then Suc (lower_bound key k xs) else 0)"
  by (simp add: lower_bound_def)

lemma lower_bound_le: "lower_bound key k xs \<le> length xs"
  by (simp add: lower_bound_def length_takeWhile_le)

lemma lb_found_Nil [simp]: "\<not> lb_found key k []"
  by (simp add: lb_found_def)

lemma lb_found_Cons [simp]:
  "lb_found key k (x # xs) = (if key x < k then lb_found key k xs else key x = k)"
  by (simp add: lb_found_def)

text \<open>On a sorted vector the search decides membership of the key.\<close>

lemma lb_found_iff: "key_sorted key xs \<Longrightarrow> lb_found key k xs \<longleftrightarrow> k \<in> key ` set xs"
  by (induction xs) (auto simp: key_sorted_Cons)

lemma lb_split:
  assumes "key_sorted key xs"
  obtains ys zs where "xs = ys @ zs" and "lower_bound key k xs = length ys"
    and "\<forall>y\<in>set ys. key y < k" and "\<forall>z\<in>set zs. k \<le> key z"
    and "lb_found key k xs \<longleftrightarrow> zs \<noteq> [] \<and> key (hd zs) = k"
proof -
  let ?ys = "takeWhile (\<lambda>x. key x < k) xs" and ?zs = "dropWhile (\<lambda>x. key x < k) xs"
  have 1: "xs = ?ys @ ?zs" by simp
  have 2: "\<forall>y\<in>set ?ys. key y < k" by (auto dest: set_takeWhileD)
  have 3: "\<forall>z\<in>set ?zs. k \<le> key z"
    using assms by (induction xs) (auto simp: key_sorted_Cons intro: order_less_imp_le order_trans)
  have 4: "lb_found key k xs \<longleftrightarrow> ?zs \<noteq> [] \<and> key (hd ?zs) = k"
    by (induction xs) auto
  show thesis by (rule that [OF 1 _ 2 3 4]) (simp add: lower_bound_def)
qed

lemma key_sorted_insert_at:
  assumes "key_sorted key xs" and "key x \<notin> key ` set xs"
  shows "key_sorted key (insert_at (lower_bound key (key x) xs) x xs)"
proof -
  obtain ys zs where xs: "xs = ys @ zs" and lb: "lower_bound key (key x) xs = length ys"
    and lo: "\<forall>y\<in>set ys. key y < key x" and hi: "\<forall>z\<in>set zs. key x \<le> key z"
    by (rule lb_split [OF assms(1)])
  from hi assms(2) have "\<forall>z\<in>set zs. key x < key z"
    by (auto simp: xs order_less_le)
  with lo assms(1) show ?thesis
    by (auto simp: xs lb [unfolded xs] insert_at_append key_sorted_append key_sorted_Cons)
qed

lemma erase_at_found:
  assumes "key_sorted key xs" and "lb_found key k xs"
  shows "set (erase_at (lower_bound key k xs) xs) = {x \<in> set xs. key x \<noteq> k}"
    and "key_sorted key (erase_at (lower_bound key k xs) xs)"
    and "length (erase_at (lower_bound key k xs) xs) = length xs - 1"
proof -
  obtain ys zs where xs: "xs = ys @ zs" and lb: "lower_bound key k xs = length ys"
    and lo: "\<forall>y\<in>set ys. key y < k" and "zs \<noteq> [] \<and> key (hd zs) = k"
    using lb_split [OF assms(1), of k] assms(2) by metis
  then obtain z zs' where zs: "zs = z # zs'" and z: "key z = k" by (cases zs) auto
  from assms(1) have ks: "key_sorted key ys" "key_sorted key zs'" "\<forall>w\<in>set zs'. k < key w"
      "\<forall>y\<in>set ys. \<forall>w\<in>set zs'. key y < key w"
    by (auto simp: xs zs z key_sorted_append key_sorted_Cons)
  have e: "erase_at (lower_bound key k xs) xs = ys @ zs'"
    by (simp add: xs zs lb [unfolded xs zs] erase_at_append)
  show "set (erase_at (lower_bound key k xs) xs) = {x \<in> set xs. key x \<noteq> k}"
    unfolding e using lo ks z by (auto simp: xs zs)
  show "key_sorted key (erase_at (lower_bound key k xs) xs)"
    unfolding e using ks by (auto simp: key_sorted_append)
  show "length (erase_at (lower_bound key k xs) xs) = length xs - 1"
    unfolding e by (simp add: xs zs)
qed

lemma lb_found_nth_in:
  "lb_found key k xs \<Longrightarrow>
     xs ! lower_bound key k xs \<in> set xs \<and> key (xs ! lower_bound key k xs) = k"
  by (simp add: lb_found_def)

section \<open>Interfaces\<close>

text \<open>
  A pool of reusable resources named by numbers: the timers of \<^verbatim>\<open>TimerMgr\<close> (indices of
  the table) and the MQTT packet identifiers. The provider promises that an allocated
  name was free, and that releasing it frees exactly that name.
\<close>

fun alloc_seq :: "('s \<Rightarrow> (nat \<times> 's) option) \<Rightarrow> nat \<Rightarrow> 's \<Rightarrow> (nat list \<times> 's) option" where
  "alloc_seq al 0 s = Some ([], s)"
| "alloc_seq al (Suc n) s =
     (case al s of
        None \<Rightarrow> None
      | Some (r, s1) \<Rightarrow>
          (case alloc_seq al n s1 of None \<Rightarrow> None | Some (rs, s2) \<Rightarrow> Some (r # rs, s2)))"

locale resource_pool =
  fixes used :: "'s \<Rightarrow> nat set"
    and alloc :: "'s \<Rightarrow> (nat \<times> 's) option"
    and release :: "nat \<Rightarrow> 's \<Rightarrow> 's"
    and releasable :: "nat \<Rightarrow> bool"
    and inv :: "'s \<Rightarrow> bool"
  assumes alloc_fresh:
      "inv s \<Longrightarrow> alloc s = Some (r, s') \<Longrightarrow> r \<notin> used s \<and> used s' = insert r (used s) \<and> inv s'"
    and release_frees:
      "inv s \<Longrightarrow> r \<in> used s \<Longrightarrow> releasable r \<Longrightarrow>
         used (release r s) = used s - {r} \<and> inv (release r s)"
begin

lemma alloc_then_release:
  assumes "inv s" and "alloc s = Some (r, s')" and "releasable r"
  shows "used (release r s') = used s \<and> inv (release r s')"
proof -
  from alloc_fresh [OF assms(1,2)] have a: "r \<notin> used s" "used s' = insert r (used s)" "inv s'"
    by auto
  with release_frees [OF a(3) _ assms(3)] show ?thesis by auto
qed

lemma alloc_seq_fresh:
  "inv s \<Longrightarrow> alloc_seq alloc n s = Some (rs, s') \<Longrightarrow>
     length rs = n \<and> distinct rs \<and> set rs \<inter> used s = {} \<and> used s' = used s \<union> set rs \<and> inv s'"
proof (induction n arbitrary: s rs)
  case 0
  then show ?case by simp
next
  case (Suc n)
  from Suc.prems(2) obtain r s1 rs1 where a: "alloc s = Some (r, s1)"
    and b: "alloc_seq alloc n s1 = Some (rs1, s')" and rs: "rs = r # rs1"
    by (auto split: option.splits)
  from alloc_fresh [OF Suc.prems(1) a] Suc.IH [OF _ b] show ?case
    by (auto simp: rs)
qed

end

text \<open>
  An ordered store without duplicate keys: the subscription filters recorded for the
  verification of incoming messages, and the topic aliases registered for publishing.
\<close>

locale ordered_store =
  fixes keys :: "'s \<Rightarrow> 'k set"
    and has_key :: "'k \<Rightarrow> 's \<Rightarrow> bool"
    and add_key :: "'k \<Rightarrow> 's \<Rightarrow> 's"
    and del_key :: "'k \<Rightarrow> 's \<Rightarrow> 's"
    and inv :: "'s \<Rightarrow> bool"
  assumes has_key_iff: "inv s \<Longrightarrow> has_key k s \<longleftrightarrow> k \<in> keys s"
    and add_keys: "inv s \<Longrightarrow> keys (add_key k s) = insert k (keys s) \<and> inv (add_key k s)"
    and del_keys: "inv s \<Longrightarrow> keys (del_key k s) = keys s - {k} \<and> inv (del_key k s)"
begin

lemma has_after_add: "inv s \<Longrightarrow> has_key k' (add_key k s) \<longleftrightarrow> k' = k \<or> has_key k' s"
  using add_keys has_key_iff by auto

lemma has_after_del: "inv s \<Longrightarrow> has_key k' (del_key k s) \<longleftrightarrow> k' \<noteq> k \<and> has_key k' s"
  using del_keys has_key_iff by auto

lemma del_after_add: "inv s \<Longrightarrow> \<not> has_key k s \<Longrightarrow> keys (del_key k (add_key k s)) = keys s"
  using add_keys del_keys has_key_iff by auto

lemma keys_fold_add:
  "inv s \<Longrightarrow> keys (fold add_key ks s) = keys s \<union> set ks \<and> inv (fold add_key ks s)"
  by (induction ks arbitrary: s) (auto simp: add_keys)

lemma keys_fold_del:
  "inv s \<Longrightarrow> keys (fold del_key ks s) = keys s - set ks \<and> inv (fold del_key ks s)"
  by (induction ks arbitrary: s) (auto simp: del_keys)

end

text \<open>A deterministic machine and a predicate that every step keeps.\<close>

locale step_invariant =
  fixes step :: "'s \<Rightarrow> 'e \<Rightarrow> 's" and inv :: "'s \<Rightarrow> bool"
  assumes step_inv: "inv s \<Longrightarrow> inv (step s e)"
begin

lemma run_inv: "inv s \<Longrightarrow> inv (foldl step s es)"
  by (induction es arbitrary: s) (auto simp: step_inv)

end

end
