(* ===== verification/Mqtt_Config.thy ===== *)
theory Mqtt_Config
  imports Mqtt_Prelude
begin

text \<open>
  The compile-time configuration (\<^verbatim>\<open>client/lib/templ/Config.h.templ\<close>, filled in by the
  build, so a parameter of every definition that reads it), the limits derived from it
  (\<^verbatim>\<open>client/lib/src/ExtConfig.h\<close>), the run-time configuration
  (\<^verbatim>\<open>client/lib/src/ConfigState.h\<close>) and the enumerations of
  \<^verbatim>\<open>client/lib/include/cc_mqtt5_client/common.h\<close>.
  Reason codes and QoS values are compared by their numbers in the code and stay numbers.
\<close>

section \<open>Enumerations\<close>

datatype error_code =
    EC_Success | EC_InternalError | EC_NotIntitialized | EC_Busy | EC_NotConnected
  | EC_AlreadyConnected | EC_BadParam | EC_InsufficientConfig | EC_OutOfMemory
  | EC_BufferOverflow | EC_NotSupported | EC_RetryLater | EC_Disconnecting
  | EC_NetworkDisconnected | EC_NotAuthenticated | EC_PreparationLocked

datatype async_status =
    St_Complete | St_InternalError | St_Timeout | St_ProtocolError | St_Aborted
  | St_BrokerDisconnected | St_OutOfMemory | St_BadParam

datatype broker_disconnect_reason =
    BDR_DisconnectMsg | BDR_InternalError | BDR_NoBrokerResponse | BDR_ProtocolError
  | BDR_ValuesLimit

datatype publish_ordering = Ordering_SameQos | Ordering_Full

datatype topic_alias_pref =
    Pref_UseAliasIfAvailable | Pref_ForceAliasOnly | Pref_ForceTopicOnly
  | Pref_ForceTopicWithAlias

type_synonym reason_code = nat

definition RC_Success :: reason_code where "RC_Success = 0"
definition RC_ContinueAuth :: reason_code where "RC_ContinueAuth = 24"
definition RC_ReAuth :: reason_code where "RC_ReAuth = 25"
definition RC_UnspecifiedError :: reason_code where "RC_UnspecifiedError = 128"
definition RC_MalformedPacket :: reason_code where "RC_MalformedPacket = 129"
definition RC_ProtocolError :: reason_code where "RC_ProtocolError = 130"
definition RC_ImplSpecificError :: reason_code where "RC_ImplSpecificError = 131"
definition RC_NotAuthorized :: reason_code where "RC_NotAuthorized = 135"
definition RC_KeepAliveTimeout :: reason_code where "RC_KeepAliveTimeout = 141"
definition RC_PacketIdInUse :: reason_code where "RC_PacketIdInUse = 145"
definition RC_PacketIdNotFound :: reason_code where "RC_PacketIdNotFound = 146"
definition RC_ReceiveMaxExceeded :: reason_code where "RC_ReceiveMaxExceeded = 147"
definition RC_TopicAliasInvalid :: reason_code where "RC_TopicAliasInvalid = 148"
definition RC_PacketTooLarge :: reason_code where "RC_PacketTooLarge = 149"
definition RC_QosNotSupported :: reason_code where "RC_QosNotSupported = 155"

lemmas reason_code_defs =
  RC_Success_def RC_ContinueAuth_def RC_ReAuth_def RC_UnspecifiedError_def
  RC_MalformedPacket_def RC_ProtocolError_def RC_ImplSpecificError_def
  RC_NotAuthorized_def RC_KeepAliveTimeout_def RC_PacketIdInUse_def RC_PacketIdNotFound_def
  RC_ReceiveMaxExceeded_def RC_TopicAliasInvalid_def RC_PacketTooLarge_def
  RC_QosNotSupported_def

type_synonym qos = nat

abbreviation (input) AtMostOnce :: qos where "AtMostOnce \<equiv> 0"
abbreviation (input) AtLeastOnce :: qos where "AtLeastOnce \<equiv> 1"
abbreviation (input) ExactlyOnce :: qos where "ExactlyOnce \<equiv> 2"

section \<open>Compile-time configuration\<close>

record config =
  HasDynMemAlloc :: bool
  ClientAllocLimit :: nat
  StringFieldFixedLen :: nat
  MaxOutputPacketSize :: nat
  HasUserProps :: bool
  UserPropsLimit :: nat
  ReceiveMaxLimit :: nat
  SendMaxLimit :: nat
  HasTopicAliases :: bool
  TopicAliasesLimit :: nat
  HasSubIds :: bool
  SubIdsLimit :: nat
  SubscribeOpsLimit :: nat
  UnsubscribeOpsLimit :: nat
  HasErrorLog :: bool
  HasTopicFormatVerification :: bool
  HasSubTopicVerification :: bool
  SubFiltersLimit :: nat
  MaxQos :: nat

text \<open>The \<^verbatim>\<open>static_assert\<close>s of \<^verbatim>\<open>Config.h.templ\<close>: what the build accepts.\<close>

definition config_asserts :: "config \<Rightarrow> bool" where
  "config_asserts c \<longleftrightarrow>
     (HasDynMemAlloc c \<or> 0 < ClientAllocLimit c) \<and>
     (HasDynMemAlloc c \<or> 0 < StringFieldFixedLen c) \<and>
     (HasDynMemAlloc c \<or> 0 < MaxOutputPacketSize c) \<and>
     (HasDynMemAlloc c \<or> \<not> HasUserProps c \<or> 0 < UserPropsLimit c) \<and>
     (HasDynMemAlloc c \<or> 0 < ReceiveMaxLimit c \<or> MaxQos c < 2) \<and>
     (HasDynMemAlloc c \<or> 0 < SendMaxLimit c) \<and>
     (HasDynMemAlloc c \<or> \<not> HasTopicAliases c \<or> 0 < TopicAliasesLimit c) \<and>
     (HasDynMemAlloc c \<or> \<not> HasSubIds c \<or> 0 < SubIdsLimit c) \<and>
     (HasDynMemAlloc c \<or> 0 < SubscribeOpsLimit c) \<and>
     (HasDynMemAlloc c \<or> 0 < UnsubscribeOpsLimit c) \<and>
     (HasDynMemAlloc c \<or> \<not> HasSubTopicVerification c \<or> 0 < SubFiltersLimit c) \<and>
     (HasUserProps c \<or> UserPropsLimit c = 0) \<and>
     MaxQos c \<le> 2"

text \<open>The limits of \<^verbatim>\<open>ExtConfig\<close>.\<close>

definition ConnectOpsLimit :: "config \<Rightarrow> nat" where
  "ConnectOpsLimit c = (if HasDynMemAlloc c then 0 else 1)"
definition KeepAliveOpsLimit :: "config \<Rightarrow> nat" where
  "KeepAliveOpsLimit c = (if HasDynMemAlloc c then 0 else 1)"
definition ClientTimersLimit :: "config \<Rightarrow> nat" where
  "ClientTimersLimit c = (if HasDynMemAlloc c then 0 else 1)"
definition DisconnectOpsLimit :: "config \<Rightarrow> nat" where
  "DisconnectOpsLimit c = (if HasDynMemAlloc c then 0 else 1)"
definition RecvOpsLimit :: "config \<Rightarrow> nat" where
  "RecvOpsLimit c = (if ReceiveMaxLimit c = 0 then 0 else ReceiveMaxLimit c + 1)"
definition SendOpsLimit :: "config \<Rightarrow> nat" where
  "SendOpsLimit c = (if SendMaxLimit c = 0 then 0 else SendMaxLimit c + 1)"
definition ReauthOpsLimit :: "config \<Rightarrow> nat" where
  "ReauthOpsLimit c = (if HasDynMemAlloc c then 0 else 1)"

definition HasOpsLimit :: "config \<Rightarrow> bool" where
  "HasOpsLimit c \<longleftrightarrow>
     0 < ConnectOpsLimit c \<and> 0 < KeepAliveOpsLimit c \<and> 0 < DisconnectOpsLimit c \<and>
     0 < SubscribeOpsLimit c \<and> 0 < UnsubscribeOpsLimit c \<and> 0 < RecvOpsLimit c \<and>
     0 < SendOpsLimit c \<and> 0 < ReauthOpsLimit c"

definition MaxTimersLimit :: "config \<Rightarrow> nat" where
  "MaxTimersLimit c =
     ClientTimersLimit c * 1 + ConnectOpsLimit c * 1 + KeepAliveOpsLimit c * 3 +
     DisconnectOpsLimit c * 0 + SubscribeOpsLimit c * 1 + UnsubscribeOpsLimit c * 1 +
     RecvOpsLimit c * 1 + SendOpsLimit c * 1 + ReauthOpsLimit c * 1"

definition TimersLimit :: "config \<Rightarrow> nat" where
  "TimersLimit c = (if HasOpsLimit c then MaxTimersLimit c else 0)"

definition MaxOpsLimit :: "config \<Rightarrow> nat" where
  "MaxOpsLimit c =
     ConnectOpsLimit c + KeepAliveOpsLimit c + DisconnectOpsLimit c + SubscribeOpsLimit c +
     UnsubscribeOpsLimit c + RecvOpsLimit c + SendOpsLimit c + ReauthOpsLimit c"

definition OpsLimit :: "config \<Rightarrow> nat" where
  "OpsLimit c = (if HasOpsLimit c then MaxOpsLimit c else 0)"

definition PacketIdsLimit :: "config \<Rightarrow> nat" where
  "PacketIdsLimit c =
     (if HasDynMemAlloc c then 0
      else SubscribeOpsLimit c + UnsubscribeOpsLimit c + SendOpsLimit c)"

lemmas ext_config_defs =
  ConnectOpsLimit_def KeepAliveOpsLimit_def ClientTimersLimit_def DisconnectOpsLimit_def
  RecvOpsLimit_def SendOpsLimit_def ReauthOpsLimit_def HasOpsLimit_def MaxTimersLimit_def
  TimersLimit_def MaxOpsLimit_def OpsLimit_def PacketIdsLimit_def

section \<open>Run-time configuration\<close>

record config_state =
  m_responseTimeoutMs :: nat
  m_publishOrdering :: publish_ordering
  m_verifyOutgoingTopic :: bool
  m_verifyIncomingTopic :: bool
  m_verifySubFilter :: bool

definition ConfigState_init :: "config \<Rightarrow> config_state" where
  "ConfigState_init c =
     \<lparr>m_responseTimeoutMs = 2000, m_publishOrdering = Ordering_SameQos,
      m_verifyOutgoingTopic = HasTopicFormatVerification c,
      m_verifyIncomingTopic = HasTopicFormatVerification c,
      m_verifySubFilter = HasSubTopicVerification c\<rparr>"

section \<open>Two builds of the repository\<close>

text \<open>
  The default build (\<^verbatim>\<open>DefineDefaultConfigVars.cmake\<close>): heap, every feature, no limits.
\<close>

definition default_config :: config where
  "default_config =
     \<lparr>HasDynMemAlloc = True, ClientAllocLimit = 0, StringFieldFixedLen = 0,
      MaxOutputPacketSize = 0, HasUserProps = True, UserPropsLimit = 0, ReceiveMaxLimit = 0,
      SendMaxLimit = 0, HasTopicAliases = True, TopicAliasesLimit = 0, HasSubIds = True,
      SubIdsLimit = 0, SubscribeOpsLimit = 0, UnsubscribeOpsLimit = 0, HasErrorLog = True,
      HasTopicFormatVerification = True, HasSubTopicVerification = True, SubFiltersLimit = 0,
      MaxQos = 2\<rparr>"

text \<open>The bare-metal build (\<^verbatim>\<open>BareMetalTestConfig.cmake\<close>): no heap, fixed limits.\<close>

definition bare_metal_config :: config where
  "bare_metal_config =
     \<lparr>HasDynMemAlloc = False, ClientAllocLimit = 1, StringFieldFixedLen = 256,
      MaxOutputPacketSize = 1024, HasUserProps = False, UserPropsLimit = 0, ReceiveMaxLimit = 4,
      SendMaxLimit = 6, HasTopicAliases = False, TopicAliasesLimit = 0, HasSubIds = False,
      SubIdsLimit = 0, SubscribeOpsLimit = 3, UnsubscribeOpsLimit = 1, HasErrorLog = False,
      HasTopicFormatVerification = False, HasSubTopicVerification = False, SubFiltersLimit = 0,
      MaxQos = 1\<rparr>"

lemma builds_accepted: "config_asserts default_config" "config_asserts bare_metal_config"
  by (simp_all add: config_asserts_def default_config_def bare_metal_config_def)

end
