(* ===== verification/Timer_Mgr.thy ===== *)
theory Timer_Mgr
  imports Mqtt_Config
begin

text \<open>
  \<^verbatim>\<open>TimerMgr\<close> (\<^verbatim>\<open>client/lib/src/TimerMgr.h\<close>, \<^verbatim>\<open>TimerMgr.cpp\<close>): a table of timers, each
  free, inactive, counting down or suspended, and the \<^verbatim>\<open>Timer\<close> handles that index it.
  A timer's callback and its data pointer are always written together, so they are one
  field: the callback with its data.
  The lemmas show the bookkeeping of the table, what a tick fires and how it ages the
  other timers, that ticks add up, what \<^verbatim>\<open>getMinWait\<close> promises, and that a suspension
  outlives the cancellation and the restart of a timer.
\<close>

section \<open>State\<close>

record 'cb timer_info =
  m_timeoutMs :: "64 word"
  m_timeoutCb :: "'cb option"
  m_allocated :: bool
  m_suspended :: bool

definition TimerInfo_init :: "'cb timer_info" where
  "TimerInfo_init =
     \<lparr>m_timeoutMs = 0, m_timeoutCb = None, m_allocated = False, m_suspended = False\<rparr>"

record 'cb timer_mgr =
  m_timers :: "'cb timer_info list"
  m_allocatedTimers :: nat

definition TimerMgr_init :: "'cb timer_mgr" where
  "TimerMgr_init = \<lparr>m_timers = [], m_allocatedTimers = 0\<rparr>"

text \<open>The index of an invalid handle, \<^verbatim>\<open>std::numeric_limits<unsigned>::max()\<close>.\<close>

definition InvalidIdx :: nat where
  "InvalidIdx = 4294967295"

definition timer_isValid :: "nat \<Rightarrow> bool" where
  "timer_isValid idx \<longleftrightarrow> idx < InvalidIdx"

section \<open>Operations\<close>

definition create_timer :: "nat \<Rightarrow> 'cb timer_mgr \<Rightarrow> nat \<times> 'cb timer_mgr" where
  "create_timer idx m =
     (idx,
      m\<lparr>m_timers := (m_timers m)[idx := (m_timers m ! idx)\<lparr>m_allocated := True\<rparr>],
        m_allocatedTimers := Suc (m_allocatedTimers m)\<rparr>)"

definition allocTimer :: "config \<Rightarrow> 'cb timer_mgr \<Rightarrow> nat \<times> 'cb timer_mgr" where
  "allocTimer c m =
     (let idx = find_idx (\<lambda>info. \<not> m_allocated info) (m_timers m) in
      if m_allocatedTimers m < length (m_timers m) \<and> idx < length (m_timers m)
      then create_timer idx m
      else if obj_list_full (TimersLimit c) True (m_timers m) then (InvalidIdx, m)
      else create_timer (length (m_timers m)) (m\<lparr>m_timers := m_timers m @ [TimerInfo_init]\<rparr>))"

definition freeTimer :: "nat \<Rightarrow> 'cb timer_mgr \<Rightarrow> 'cb timer_mgr" where
  "freeTimer idx m =
     (if length (m_timers m) \<le> idx then m
      else m\<lparr>m_timers := (m_timers m)[idx := TimerInfo_init],
             m_allocatedTimers := dec_u32 (m_allocatedTimers m)\<rparr>)"

definition timerWait :: "nat \<Rightarrow> 64 word \<Rightarrow> 'cb \<Rightarrow> 'cb timer_mgr \<Rightarrow> 'cb timer_mgr" where
  "timerWait idx timeoutMs cb m =
     (if length (m_timers m) \<le> idx then m
      else m\<lparr>m_timers := (m_timers m)[idx :=
              (m_timers m ! idx)\<lparr>m_timeoutMs := timeoutMs, m_timeoutCb := Some cb\<rparr>]\<rparr>)"

definition cancel_info :: "'cb timer_info \<Rightarrow> 'cb timer_info" where
  "cancel_info info = info\<lparr>m_timeoutMs := 0, m_timeoutCb := None\<rparr>"

definition timerCancel :: "nat \<Rightarrow> 'cb timer_mgr \<Rightarrow> 'cb timer_mgr" where
  "timerCancel idx m =
     (if length (m_timers m) \<le> idx then m
      else m\<lparr>m_timers := (m_timers m)[idx := cancel_info (m_timers m ! idx)]\<rparr>)"

definition timerIsActive :: "nat \<Rightarrow> 'cb timer_mgr \<Rightarrow> bool" where
  "timerIsActive idx m =
     (if length (m_timers m) \<le> idx then False else m_timeoutCb (m_timers m ! idx) \<noteq> None)"

definition timerSetSuspended :: "nat \<Rightarrow> bool \<Rightarrow> 'cb timer_mgr \<Rightarrow> 'cb timer_mgr" where
  "timerSetSuspended idx suspended m =
     (if length (m_timers m) \<le> idx then m
      else m\<lparr>m_timers := (m_timers m)[idx := (m_timers m ! idx)\<lparr>m_suspended := suspended\<rparr>]\<rparr>)"

definition timerIsSuspended :: "nat \<Rightarrow> 'cb timer_mgr \<Rightarrow> bool" where
  "timerIsSuspended idx m =
     (if length (m_timers m) \<le> idx then False else m_suspended (m_timers m ! idx))"

text \<open>The members of the handle class \<^verbatim>\<open>TimerMgr::Timer\<close> that add a test of their own.\<close>

definition Timer_destroy :: "nat \<Rightarrow> 'cb timer_mgr \<Rightarrow> 'cb timer_mgr" where
  "Timer_destroy idx m = (if timer_isValid idx then freeTimer idx m else m)"

definition Timer_setSuspended :: "nat \<Rightarrow> bool \<Rightarrow> 'cb timer_mgr \<Rightarrow> 'cb timer_mgr" where
  "Timer_setSuspended idx suspended m =
     (if \<not> timerIsActive idx m then m else timerSetSuspended idx suspended m)"

definition Timer_isSuspended :: "nat \<Rightarrow> 'cb timer_mgr \<Rightarrow> bool" where
  "Timer_isSuspended idx m = (if \<not> timerIsActive idx m then False else timerIsSuspended idx m)"

text \<open>One entry of the table in \<^verbatim>\<open>tick\<close>: the callback it fires, and what becomes of it.\<close>

definition timer_running :: "'cb timer_info \<Rightarrow> bool" where
  "timer_running info \<longleftrightarrow> m_allocated info \<and> m_timeoutCb info \<noteq> None \<and> \<not> m_suspended info"

definition tick_info :: "32 word \<Rightarrow> 'cb timer_info \<Rightarrow> 'cb option \<times> 'cb timer_info" where
  "tick_info ms info =
     (if \<not> m_allocated info \<or> m_timeoutCb info = None \<or> m_suspended info then (None, info)
      else if m_timeoutMs info \<le> ucast ms then (m_timeoutCb info, cancel_info info)
      else (None, info\<lparr>m_timeoutMs := m_timeoutMs info - ucast ms\<rparr>))"

text \<open>The loop over the table: the callbacks collected in order, and the new table.\<close>

fun tick_loop :: "32 word \<Rightarrow> 'cb timer_info list \<Rightarrow> 'cb list \<times> 'cb timer_info list" where
  "tick_loop ms [] = ([], [])"
| "tick_loop ms (info # infos) =
     (let (fired, info') = tick_info ms info; (cbList, infos') = tick_loop ms infos
      in ((case fired of None \<Rightarrow> cbList | Some cb \<Rightarrow> cb # cbList), info' # infos'))"

text \<open>The callbacks are returned in the order in which \<^verbatim>\<open>tick\<close> then calls them.\<close>

definition timer_tick :: "32 word \<Rightarrow> 'cb timer_mgr \<Rightarrow> 'cb list \<times> 'cb timer_mgr" where
  "timer_tick ms m =
     (let (cbList, infos) = tick_loop ms (m_timers m) in (cbList, m\<lparr>m_timers := infos\<rparr>))"

definition getMinWait :: "'cb timer_mgr \<Rightarrow> 32 word" where
  "getMinWait m =
     (if m_allocatedTimers m = 0 then 0
      else
        let result = fold (\<lambda>info r. if \<not> m_allocated info \<or> m_timeoutCb info = None \<or> m_suspended info
                                    then r else min r (m_timeoutMs info))
                          (m_timers m) (- 1)
        in if result = - 1 then 0 else ucast (min result 4294967295))"

definition allocCount :: "'cb timer_mgr \<Rightarrow> nat" where
  "allocCount m = length (filter m_allocated (m_timers m))"

section \<open>The table\<close>

definition timer_used :: "'cb timer_mgr \<Rightarrow> nat set" where
  "timer_used m = {i. i < length (m_timers m) \<and> m_allocated (m_timers m ! i)}"

text \<open>
  The counter counts the allocated entries, and a free entry is a pristine
  \<^verbatim>\<open>TimerInfo()\<close>.
\<close>

definition timers_ok :: "'cb timer_mgr \<Rightarrow> bool" where
  "timers_ok m \<longleftrightarrow>
     m_allocatedTimers m = allocCount m \<and>
     (\<forall>info\<in>set (m_timers m). \<not> m_allocated info \<longrightarrow> info = TimerInfo_init)"

lemma free_pristine_update:
  "\<forall>info\<in>set xs. \<not> m_allocated info \<longrightarrow> info = TimerInfo_init \<Longrightarrow>
   m_allocated y \<or> y = TimerInfo_init \<Longrightarrow>
   \<forall>info\<in>set (xs[i := y]). \<not> m_allocated info \<longrightarrow> info = TimerInfo_init"
  by (metis in_set_update_cases)

lemma timers_ok_init: "timers_ok TimerMgr_init"
  by (simp add: timers_ok_def TimerMgr_init_def allocCount_def)

lemma TimerInfo_init_simps [simp]:
  "m_timeoutMs TimerInfo_init = 0" "m_timeoutCb TimerInfo_init = None"
  "\<not> m_allocated TimerInfo_init" "\<not> m_suspended TimerInfo_init"
  by (simp_all add: TimerInfo_init_def)

lemma allocCount_less_ex:
  "allocCount m < length (m_timers m) \<Longrightarrow> \<exists>info\<in>set (m_timers m). \<not> m_allocated info"
  unfolding allocCount_def by (metis length_filter_less filter_True less_irrefl)

lemma create_timer_ok:
  assumes "timers_ok m" and i: "i < length (m_timers m)" and free: "\<not> m_allocated (m_timers m ! i)"
  shows "timers_ok (snd (create_timer i m))"
    and "timer_used (snd (create_timer i m)) = insert i (timer_used m)"
    and "i \<notin> timer_used m"
    and "m_timers (snd (create_timer i m)) ! i = TimerInfo_init\<lparr>m_allocated := True\<rparr>"
proof -
  let ?t = "(m_timers m)[i := (m_timers m ! i)\<lparr>m_allocated := True\<rparr>]"
  have "length (filter m_allocated ?t) = Suc (length (filter m_allocated (m_timers m)))"
    using length_filter_update [OF i, of m_allocated "(m_timers m ! i)\<lparr>m_allocated := True\<rparr>"] free
    by simp
  moreover have "\<forall>info\<in>set ?t. \<not> m_allocated info \<longrightarrow> info = TimerInfo_init"
    by (rule free_pristine_update) (use assms(1) in \<open>simp_all add: timers_ok_def\<close>)
  ultimately show "timers_ok (snd (create_timer i m))"
    using assms(1) by (simp add: timers_ok_def create_timer_def allocCount_def)
  show "timer_used (snd (create_timer i m)) = insert i (timer_used m)"
    using i by (auto simp: timer_used_def create_timer_def nth_list_update)
  show "i \<notin> timer_used m" using free by (simp add: timer_used_def)
  have "m_timers m ! i = TimerInfo_init"
    using assms(1) i free nth_mem by (fastforce simp: timers_ok_def)
  then show "m_timers (snd (create_timer i m)) ! i = TimerInfo_init\<lparr>m_allocated := True\<rparr>"
    using i by (simp add: create_timer_def)
qed

lemma timers_ok_grow: "timers_ok m \<Longrightarrow> timers_ok (m\<lparr>m_timers := m_timers m @ [TimerInfo_init]\<rparr>)"
  by (auto simp: timers_ok_def allocCount_def)

lemma timer_used_grow:
  "timer_used (m\<lparr>m_timers := m_timers m @ [TimerInfo_init]\<rparr>) = timer_used m"
  by (auto simp: timer_used_def nth_append less_Suc_eq)

text \<open>
  What \<^verbatim>\<open>allocTimer\<close> returns: the first free entry, or a new last one, or an invalid
  handle when a bounded table is full.
\<close>

lemma allocTimer_cases:
  assumes ok: "timers_ok m" and al: "allocTimer c m = (idx, m')"
  shows "(idx = InvalidIdx \<and> m' = m \<and> allocCount m = length (m_timers m) \<and>
            obj_list_full (TimersLimit c) True (m_timers m)) \<or>
         (timers_ok m' \<and> idx \<notin> timer_used m \<and> timer_used m' = insert idx (timer_used m) \<and>
            m_timers m' ! idx = TimerInfo_init\<lparr>m_allocated := True\<rparr>)"
proof -
  let ?P = "\<lambda>info. \<not> m_allocated (info :: 'a timer_info)"
  let ?i = "find_idx ?P (m_timers m)"
  have cnt: "m_allocatedTimers m = allocCount m" using ok by (simp add: timers_ok_def)
  have le: "allocCount m \<le> length (m_timers m)" by (simp add: allocCount_def)
  show ?thesis
  proof (cases "allocCount m < length (m_timers m)")
    case True
    then have i: "?i < length (m_timers m)" using allocCount_less_ex find_idx_less_iff by blast
    note reuse = create_timer_ok [OF ok i find_idx_nth [OF i]]
    have "allocTimer c m = create_timer ?i m"
      using True i cnt by (simp add: allocTimer_def Let_def)
    then have "idx = ?i" "m' = snd (create_timer ?i m)"
      using al by (simp_all add: create_timer_def)
    then show ?thesis using reuse by simp
  next
    case False
    let ?m = "m\<lparr>m_timers := m_timers m @ [TimerInfo_init]\<rparr>" and ?n = "length (m_timers m)"
    have "?n < length (m_timers ?m)" "\<not> m_allocated (m_timers ?m ! ?n)" by auto
    note new = create_timer_ok [OF timers_ok_grow [OF ok] this]
    show ?thesis
    proof (cases "obj_list_full (TimersLimit c) True (m_timers m)")
      case True
      then show ?thesis using al False cnt le by (auto simp: allocTimer_def Let_def)
    next
      case full: False
      have "allocTimer c m = create_timer ?n ?m"
        using False full cnt by (simp add: allocTimer_def Let_def)
      then have "idx = ?n" "m' = snd (create_timer ?n ?m)"
        using al by (simp_all add: create_timer_def)
      then show ?thesis using new by (simp add: timer_used_grow)
    qed
  qed
qed

lemma freeTimer_ok:
  assumes ok: "timers_ok m" and i: "i \<in> timer_used m"
  shows "timers_ok (freeTimer i m) \<and> timer_used (freeTimer i m) = timer_used m - {i}"
proof -
  from i have l: "i < length (m_timers m)" and a: "m_allocated (m_timers m ! i)"
    by (auto simp: timer_used_def)
  let ?t = "(m_timers m)[i := TimerInfo_init]"
  have "Suc (length (filter m_allocated ?t)) = length (filter m_allocated (m_timers m))"
    using length_filter_update [OF l, of m_allocated TimerInfo_init] a by simp
  then have "m_allocatedTimers m = Suc (length (filter m_allocated ?t))"
    using ok by (simp add: timers_ok_def allocCount_def)
  then have "dec_u32 (m_allocatedTimers m) = length (filter m_allocated ?t)"
    by (simp only: dec_u32_Suc)
  moreover have "\<forall>info\<in>set ?t. \<not> m_allocated info \<longrightarrow> info = TimerInfo_init"
    by (rule free_pristine_update) (use ok in \<open>simp_all add: timers_ok_def\<close>)
  ultimately have "timers_ok (freeTimer i m)"
    using l by (simp add: timers_ok_def freeTimer_def allocCount_def)
  moreover have "timer_used (freeTimer i m) = timer_used m - {i}"
    using l by (auto simp: timer_used_def freeTimer_def nth_list_update split: if_splits)
  ultimately show ?thesis ..
qed

text \<open>The table is a pool of timers: its laws, and what follows from them.\<close>

definition alloc_timer_opt :: "config \<Rightarrow> 'cb timer_mgr \<Rightarrow> (nat \<times> 'cb timer_mgr) option" where
  "alloc_timer_opt c m =
     (let (idx, m') = allocTimer c m in if timer_isValid idx then Some (idx, m') else None)"

interpretation timer_pool: resource_pool
  timer_used "alloc_timer_opt c" freeTimer "\<lambda>_. True" timers_ok for c :: config
proof
  fix m m' :: "'a timer_mgr" and r
  assume "timers_ok m" "alloc_timer_opt c m = Some (r, m')"
  then show "r \<notin> timer_used m \<and> timer_used m' = insert r (timer_used m) \<and> timers_ok m'"
    using allocTimer_cases [of m c r m']
    by (auto simp: alloc_timer_opt_def timer_isValid_def split: prod.splits if_splits)
qed (use freeTimer_ok in blast)

section \<open>Reachable tables\<close>

text \<open>
  The calls the library makes: a handle is obtained from \<^verbatim>\<open>allocTimer\<close>, and every other
  call goes through a handle of an allocated timer.
\<close>

inductive timer_trans :: "config \<Rightarrow> 'cb timer_mgr \<Rightarrow> 'cb timer_mgr \<Rightarrow> bool" for c where
  trans_alloc: "allocTimer c m = (i, m') \<Longrightarrow> timer_trans c m m'"
| trans_destroy: "i \<in> timer_used m \<Longrightarrow> timer_trans c m (Timer_destroy i m)"
| trans_wait: "i \<in> timer_used m \<Longrightarrow> timer_trans c m (timerWait i t cb m)"
| trans_cancel: "i \<in> timer_used m \<Longrightarrow> timer_trans c m (timerCancel i m)"
| trans_suspend: "i \<in> timer_used m \<Longrightarrow> timer_trans c m (Timer_setSuspended i b m)"
| trans_tick: "timer_tick ms m = (cbs, m') \<Longrightarrow> timer_trans c m m'"

inductive timer_reachable :: "config \<Rightarrow> 'cb timer_mgr \<Rightarrow> bool" for c where
  reach_init: "timer_reachable c TimerMgr_init"
| reach_step: "timer_reachable c m \<Longrightarrow> timer_trans c m m' \<Longrightarrow> timer_reachable c m'"

lemma timers_ok_update:
  assumes ok: "timers_ok m" and i: "i \<in> timer_used m" and y: "m_allocated y"
  shows "timers_ok (m\<lparr>m_timers := (m_timers m)[i := y]\<rparr>)"
proof -
  from i have l: "i < length (m_timers m)" and a: "m_allocated (m_timers m ! i)"
    by (auto simp: timer_used_def)
  have "length (filter m_allocated ((m_timers m)[i := y])) = length (filter m_allocated (m_timers m))"
    using length_filter_update [OF l, of m_allocated y] a y by simp
  moreover have "\<forall>info\<in>set ((m_timers m)[i := y]). \<not> m_allocated info \<longrightarrow> info = TimerInfo_init"
    by (rule free_pristine_update) (use ok y in \<open>simp_all add: timers_ok_def\<close>)
  ultimately show ?thesis using ok by (simp add: timers_ok_def allocCount_def)
qed

lemma timer_update_ok:
  assumes "timers_ok m" and "i \<in> timer_used m"
  shows "timers_ok (timerWait i t cb m)" "timers_ok (timerCancel i m)"
    "timers_ok (timerSetSuspended i b m)" "timers_ok (Timer_setSuspended i b m)"
  using timers_ok_update [OF assms] assms
  by (auto simp: timerWait_def timerCancel_def timerSetSuspended_def Timer_setSuspended_def
      cancel_info_def timer_used_def)

lemma tick_info_allocated [simp]: "m_allocated (snd (tick_info ms info)) = m_allocated info"
  by (simp add: tick_info_def cancel_info_def)

lemma tick_info_suspended [simp]: "m_suspended (snd (tick_info ms info)) = m_suspended info"
  by (simp add: tick_info_def cancel_info_def)

lemma snd_tick_loop: "snd (tick_loop ms infos) = map (\<lambda>info. snd (tick_info ms info)) infos"
  by (induction infos) (auto split: prod.splits)

lemma fst_tick_loop:
  "fst (tick_loop ms infos) =
     map (\<lambda>info. the (m_timeoutCb info))
       (filter (\<lambda>info. timer_running info \<and> m_timeoutMs info \<le> ucast ms) infos)"
  by (induction infos) (auto simp: tick_info_def timer_running_def split: prod.splits option.splits)

lemma timer_tick_fst:
  "fst (timer_tick ms m) =
     map (\<lambda>info. the (m_timeoutCb info))
       (filter (\<lambda>info. timer_running info \<and> m_timeoutMs info \<le> ucast ms) (m_timers m))"
  by (simp add: timer_tick_def fst_tick_loop [symmetric] split: prod.splits)

lemma timer_tick_snd:
  "snd (timer_tick ms m) = m\<lparr>m_timers := map (\<lambda>info. snd (tick_info ms info)) (m_timers m)\<rparr>"
  by (simp add: timer_tick_def snd_tick_loop [symmetric] split: prod.splits)

lemma tick_info_free: "\<not> timer_running info \<Longrightarrow> tick_info ms info = (None, info)"
  by (auto simp: tick_info_def timer_running_def)

lemma timer_tick_ok: "timers_ok m \<Longrightarrow> timers_ok (snd (timer_tick ms m))"
  by (auto simp: timers_ok_def timer_tick_snd allocCount_def filter_map comp_def tick_info_free
      timer_running_def)

lemma timer_trans_ok: "timer_trans c m m' \<Longrightarrow> timers_ok m \<Longrightarrow> timers_ok m'"
proof (induction rule: timer_trans.induct)
  case (trans_alloc m i m')
  then show ?case using allocTimer_cases by fastforce
next
  case (trans_destroy i m)
  then show ?case using freeTimer_ok by (auto simp: Timer_destroy_def)
next
  case (trans_tick ms m cbs m')
  then show ?case by (metis snd_conv timer_tick_ok)
qed (simp_all add: timer_update_ok)

lemma reachable_timers_ok: "timer_reachable c m \<Longrightarrow> timers_ok m"
  by (induction rule: timer_reachable.induct) (auto intro: timers_ok_init timer_trans_ok)

lemma timer_trans_used_tick: "timer_used (snd (timer_tick ms m)) = timer_used m"
  by (auto simp: timer_used_def timer_tick_snd)

section \<open>Ticks\<close>

text \<open>Ticks add up, as long as the sum of the milliseconds fits its 32 bits.\<close>

lemma unat_ucast_32_64: "unat (ucast (a :: 32 word) :: 64 word) = unat a"
proof -
  have "unat a < 2 ^ LENGTH(32)" by (rule unsigned_less)
  then have "unat a < 2 ^ 64" by simp
  then show ?thesis by (simp add: unsigned_ucast_eq take_bit_nat_eq_self del: unsigned_less)
qed

lemma ucast_add_32_64:
  fixes a b :: "32 word"
  assumes "unat a + unat b < 2 ^ 32"
  shows "(ucast (a + b) :: 64 word) = ucast a + ucast b"
    and "unat (ucast a :: 64 word) + unat (ucast b :: 64 word) < 2 ^ 64"
proof -
  have u: "unat (ucast a :: 64 word) = unat a" "unat (ucast b :: 64 word) = unat b"
    by (rule unat_ucast_32_64)+
  show "unat (ucast a :: 64 word) + unat (ucast b :: 64 word) < 2 ^ 64"
    using assms by (simp add: u)
  have "unat (ucast (a + b) :: 64 word) = unat a + unat b"
    using assms by (simp add: unat_ucast_32_64 unat_word_ariths)
  moreover have "unat (ucast a + ucast b :: 64 word) = unat a + unat b"
    using assms by (simp add: unat_word_ariths u)
  ultimately show "(ucast (a + b) :: 64 word) = ucast a + ucast b"
    by (simp add: word_unat_eq_iff)
qed

lemma word_diff_le_iff:
  fixes t A B :: "64 word"
  assumes "unat A + unat B < 2 ^ 64" and "\<not> t \<le> A"
  shows "t - A \<le> B \<longleftrightarrow> t \<le> A + B"
proof -
  have "unat (A + B) = unat A + unat B" using assms(1) by (simp add: unat_word_ariths)
  moreover have "unat (t - A) = unat t - unat A" "unat A < unat t"
    using assms(2) by (simp_all add: unat_sub word_le_nat_alt)
  ultimately show ?thesis by (auto simp: word_le_nat_alt)
qed

lemma tick_info_add:
  fixes a b :: "32 word"
  assumes "unat a + unat b < 2 ^ 32"
  shows "snd (tick_info b (snd (tick_info a info))) = snd (tick_info (a + b) info)"
    and "(case fst (tick_info a info) of None \<Rightarrow> {#} | Some cb \<Rightarrow> {#cb#}) +
         (case fst (tick_info b (snd (tick_info a info))) of None \<Rightarrow> {#} | Some cb \<Rightarrow> {#cb#}) =
         (case fst (tick_info (a + b) info) of None \<Rightarrow> {#} | Some cb \<Rightarrow> {#cb#})"
proof -
  let ?A = "ucast a :: 64 word" and ?B = "ucast b :: 64 word"
  note sum = ucast_add_32_64 [OF assms]
  have le: "m_timeoutMs info \<le> ?A \<Longrightarrow> m_timeoutMs info \<le> ?A + ?B"
    using sum(2) by (auto simp: word_le_nat_alt unat_word_ariths)
  have gt: "\<not> m_timeoutMs info \<le> ?A \<Longrightarrow>
      m_timeoutMs info - ?A \<le> ?B \<longleftrightarrow> m_timeoutMs info \<le> ?A + ?B"
    using word_diff_le_iff [OF sum(2)] by blast
  show "snd (tick_info b (snd (tick_info a info))) = snd (tick_info (a + b) info)"
    using le gt by (auto simp: tick_info_def cancel_info_def sum(1) diff_diff_eq)
  show "(case fst (tick_info a info) of None \<Rightarrow> {#} | Some cb \<Rightarrow> {#cb#}) +
         (case fst (tick_info b (snd (tick_info a info))) of None \<Rightarrow> {#} | Some cb \<Rightarrow> {#cb#}) =
         (case fst (tick_info (a + b) info) of None \<Rightarrow> {#} | Some cb \<Rightarrow> {#cb#})"
    using le gt by (auto simp: tick_info_def cancel_info_def sum(1) split: option.splits)
qed

lemma tick_loop_Cons_mset:
  "mset (fst (tick_loop ms (info # infos))) =
     (case fst (tick_info ms info) of None \<Rightarrow> {#} | Some cb \<Rightarrow> {#cb#}) +
     mset (fst (tick_loop ms infos))"
  by (auto split: prod.splits option.splits)

lemma tick_loop_add:
  fixes a b :: "32 word"
  assumes "unat a + unat b < 2 ^ 32"
  shows "mset (fst (tick_loop a infos)) +
         mset (fst (tick_loop b (map (\<lambda>info. snd (tick_info a info)) infos))) =
         mset (fst (tick_loop (a + b) infos))"
proof (induction infos)
  case Nil
  then show ?case by simp
next
  case (Cons info infos)
  show ?case
    unfolding list.map tick_loop_Cons_mset tick_info_add(2) [OF assms, of info, symmetric]
      Cons.IH [symmetric]
    by (simp only: ac_simps)
qed

section \<open>The shortest wait\<close>

lemma min_wait_fold:
  fixes infos :: "'cb timer_info list"
  defines "f \<equiv> \<lambda>info r. if \<not> m_allocated info \<or> m_timeoutCb info = None \<or> m_suspended info
                        then r else min r (m_timeoutMs (info :: 'cb timer_info))"
  shows "fold f infos r \<le> r \<and>
         (\<forall>info\<in>set infos. timer_running info \<longrightarrow> fold f infos r \<le> m_timeoutMs info) \<and>
         (fold f infos r = r \<or> (\<exists>info\<in>set infos. timer_running info \<and> fold f infos r = m_timeoutMs info))"
proof (induction infos arbitrary: r)
  case Nil
  then show ?case by simp
next
  case (Cons info infos)
  have f: "f info r = (if timer_running info then min r (m_timeoutMs info) else r)"
    by (auto simp: f_def timer_running_def)
  show ?case using Cons.IH [of "f info r"] by (auto simp: f min_def split: if_splits)
qed

lemma ucast_32_min:
  fixes r :: "64 word"
  shows "(ucast (ucast (min r 4294967295) :: 32 word) :: 64 word) = min r 4294967295"
proof -
  have "unat (min r 4294967295) \<le> 4294967295"
    by (simp add: min_def word_le_nat_alt)
  then have "unat (ucast (min r 4294967295) :: 32 word) = unat (min r 4294967295)"
    by (simp add: unsigned_ucast_eq unsigned_take_bit_eq take_bit_nat_eq_self)
  then show ?thesis by (simp add: word_unat_eq_iff unat_ucast_32_64)
qed

lemma getMinWait_spec:
  assumes pos: "0 < getMinWait m"
  shows "(\<forall>info\<in>set (m_timers m). timer_running info \<longrightarrow> ucast (getMinWait m) \<le> m_timeoutMs info) \<and>
         (getMinWait m < 4294967295 \<longrightarrow>
           (\<exists>info\<in>set (m_timers m). timer_running info \<and> m_timeoutMs info = ucast (getMinWait m)))"
proof -
  let ?f = "\<lambda>info r. if \<not> m_allocated info \<or> m_timeoutCb info = None \<or> m_suspended info
                     then r else min r (m_timeoutMs (info :: 'a timer_info))"
  let ?r = "fold ?f (m_timers m) (- 1)"
  note spec = min_wait_fold [of "m_timers m" "- 1"]
  from pos have r: "?r \<noteq> - 1" and w: "getMinWait m = ucast (min ?r 4294967295)"
    by (auto simp: getMinWait_def Let_def split: if_splits)
  have u: "(ucast (getMinWait m) :: 64 word) = min ?r 4294967295"
    unfolding w by (rule ucast_32_min)
  have "?r = ucast (getMinWait m)" if "getMinWait m < 4294967295"
  proof -
    have "unat (getMinWait m) < 4294967295" using that by (simp add: word_less_nat_alt)
    then have "unat (ucast (getMinWait m) :: 64 word) < unat (4294967295 :: 64 word)"
      by (simp add: unat_ucast_32_64)
    then show ?thesis unfolding u by (auto simp: min_def word_less_nat_alt split: if_splits)
  qed
  with spec r show ?thesis unfolding u
    by (metis (no_types, lifting) min.coboundedI1)
qed

text \<open>When the value is 0, and what a tick fires at all.\<close>

lemma getMinWait_zero:
  assumes "timers_ok m" and "getMinWait m = 0"
  shows "(\<forall>info\<in>set (m_timers m). timer_running info \<longrightarrow> m_timeoutMs info = - 1) \<or>
         (\<exists>info\<in>set (m_timers m). timer_running info \<and> m_timeoutMs info = 0)"
proof (cases "m_allocatedTimers m = 0")
  case True
  then show ?thesis using assms(1) by (auto simp: timers_ok_def timer_running_def filter_empty_conv allocCount_def)
next
  case False
  let ?f = "\<lambda>info r. if \<not> m_allocated info \<or> m_timeoutCb info = None \<or> m_suspended info
                     then r else min r (m_timeoutMs (info :: 'a timer_info))"
  let ?r = "fold ?f (m_timers m) (- 1)"
  note spec = min_wait_fold [of "m_timers m" "- 1"]
  show ?thesis
  proof (cases "?r = - 1")
    case True
    then show ?thesis using spec by (auto simp: word_order.extremum_unique)
  next
    case r: False
    then have "getMinWait m = ucast (min ?r 4294967295)"
      using False by (simp only: getMinWait_def Let_def if_False)
    then have "min ?r 4294967295 = 0" using assms(2) ucast_32_min [of ?r] by simp
    then have "?r = 0" by (simp add: min_def split: if_splits)
    then show ?thesis using spec r by auto
  qed
qed

lemma tick_fires:
  "fst (timer_tick ms m) \<noteq> [] \<longleftrightarrow>
     (\<exists>info\<in>set (m_timers m). timer_running info \<and> m_timeoutMs info \<le> ucast ms)"
  by (auto simp: timer_tick_fst filter_empty_conv)

section \<open>Properties\<close>

text \<open>
  C27: In every table the library can build, the counter \<^verbatim>\<open>m_allocatedTimers\<close> is the number of
  allocated timers (so its decrement never wraps), and \<^verbatim>\<open>allocTimer\<close> either reports a full
  bounded table or hands out a timer that nobody holds, inactive and not suspended,
  whatever the previous holder of the entry did.
\<close>

theorem reachable_alloc_fresh:
  assumes "timer_reachable c m" and "allocTimer c m = (idx, m')" and "timer_isValid idx"
  shows "m_allocatedTimers m = allocCount m \<and> idx \<notin> timer_used m \<and>
         timer_used m' = insert idx (timer_used m) \<and> m_allocatedTimers m' = allocCount m' \<and>
         \<not> timerIsActive idx m' \<and> \<not> timerIsSuspended idx m'"
proof -
  from assms(1) have ok: "timers_ok m" by (rule reachable_timers_ok)
  from allocTimer_cases [OF ok assms(2)] assms(3)
  have "timers_ok m'" "idx \<notin> timer_used m" "timer_used m' = insert idx (timer_used m)"
    "m_timers m' ! idx = TimerInfo_init\<lparr>m_allocated := True\<rparr>"
    by (auto simp: timer_isValid_def)
  with ok show ?thesis by (simp add: timers_ok_def timerIsActive_def timerIsSuspended_def)
qed

theorem reachable_alloc_fresh_witness:
  "let m0 = TimerMgr_init :: nat timer_mgr;
       m1 = timerWait 0 5 7 (snd (allocTimer default_config m0));
       m2 = Timer_destroy 0 (Timer_setSuspended 0 True m1)
   in fst (allocTimer default_config m2) = 0 \<and>
      \<not> timerIsSuspended 0 (snd (allocTimer default_config m2))"
proof -
  let ?c = "default_config" and ?m0 = "TimerMgr_init :: nat timer_mgr"
  let ?a = "snd (allocTimer ?c ?m0)"
  let ?m1 = "timerWait 0 5 7 ?a"
  let ?m2 = "Timer_destroy 0 (Timer_setSuspended 0 True ?m1)"
  have u: "0 \<in> timer_used ?a" "0 \<in> timer_used ?m1" "0 \<in> timer_used (Timer_setSuspended 0 True ?m1)"
    by (simp_all add: timer_used_def allocTimer_def create_timer_def TimerMgr_init_def
        obj_list_full_def default_config_def timerWait_def Timer_setSuspended_def
        timerIsActive_def timerSetSuspended_def TimersLimit_def HasOpsLimit_def)
  have "timer_reachable ?c ?a"
    by (rule reach_step [OF reach_init trans_alloc]) (rule prod.collapse [symmetric])
  then have "timer_reachable ?c ?m2"
    by (intro reach_step [OF _ trans_destroy] reach_step [OF _ trans_suspend]
        reach_step [OF _ trans_wait] u)
  moreover have "allocTimer ?c ?m2 = (0, snd (allocTimer ?c ?m2))"
    by (simp add: allocTimer_def create_timer_def TimerMgr_init_def
        obj_list_full_def default_config_def timerWait_def Timer_setSuspended_def dec_u32_def
        timerIsActive_def timerSetSuspended_def TimersLimit_def HasOpsLimit_def Let_def
        Timer_destroy_def freeTimer_def timer_isValid_def InvalidIdx_def)
  moreover have "timer_isValid 0" by (simp add: timer_isValid_def InvalidIdx_def)
  ultimately show ?thesis
    using reachable_alloc_fresh [of ?c ?m2 0 "snd (allocTimer ?c ?m2)"]
    by (metis fst_conv)
qed

text \<open>
  C28: What one tick does, entry by entry. It calls, in the order of the table, exactly the
  callbacks of the timers that run and whose remaining time is at most the elapsed one;
  those timers become inactive before any callback runs; every other running timer loses
  exactly the elapsed time, and free, inactive and suspended timers do not change.
\<close>

theorem timer_tick_exact:
  "fst (timer_tick ms m) =
     map (\<lambda>info. the (m_timeoutCb info))
       (filter (\<lambda>info. timer_running info \<and> m_timeoutMs info \<le> ucast ms) (m_timers m)) \<and>
   m_timers (snd (timer_tick ms m)) =
     map (\<lambda>info. if \<not> timer_running info then info
                else if m_timeoutMs info \<le> ucast ms
                then info\<lparr>m_timeoutMs := 0, m_timeoutCb := None\<rparr>
                else info\<lparr>m_timeoutMs := m_timeoutMs info - ucast ms\<rparr>) (m_timers m) \<and>
   m_allocatedTimers (snd (timer_tick ms m)) = m_allocatedTimers m"
  by (auto simp: timer_tick_fst timer_tick_snd tick_info_def timer_running_def cancel_info_def)

text \<open>
  C29: Ticks add up: reporting the elapsed time in two portions fires the same timers (as a
  multiset) and leaves the same table as reporting it at once, provided the sum does not
  overflow its 32 bits. The application may call tick as often as it likes.
\<close>

theorem timer_ticks_add_up:
  fixes a b :: "32 word"
  assumes "unat a + unat b < 2 ^ 32"
  shows "mset (fst (timer_tick a m)) + mset (fst (timer_tick b (snd (timer_tick a m)))) =
           mset (fst (timer_tick (a + b) m)) \<and>
         snd (timer_tick b (snd (timer_tick a m))) = snd (timer_tick (a + b) m)"
proof -
  have fst_eq: "fst (timer_tick ms n) = fst (tick_loop ms (m_timers n))" for ms and n :: "'a timer_mgr"
    by (simp add: timer_tick_def split: prod.splits)
  show ?thesis
    using tick_loop_add [OF assms, of "m_timers m"]
    by (simp add: fst_eq timer_tick_snd comp_def tick_info_add(1) [OF assms])
qed

theorem timer_ticks_add_up_witness:
  "let m = timerWait 0 5 7 (snd (allocTimer default_config (TimerMgr_init :: nat timer_mgr)))
   in mset (fst (timer_tick 2 m)) + mset (fst (timer_tick 3 (snd (timer_tick 2 m)))) = {#7#}"
proof -
  let ?m = "timerWait 0 5 7 (snd (allocTimer default_config (TimerMgr_init :: nat timer_mgr)))"
  have "unat (2 :: 32 word) + unat (3 :: 32 word) < 2 ^ 32" by simp
  from timer_ticks_add_up [OF this, of ?m]
  have "mset (fst (timer_tick 2 ?m)) + mset (fst (timer_tick 3 (snd (timer_tick 2 ?m)))) =
      mset (fst (timer_tick (2 + 3) ?m))" ..
  also have "fst (timer_tick (2 + 3) ?m) = [7]"
    by (simp add: timer_tick_def allocTimer_def create_timer_def TimerMgr_init_def Let_def
        obj_list_full_def default_config_def timerWait_def TimersLimit_def HasOpsLimit_def
        tick_info_def TimerInfo_init_def)
  finally show ?thesis by (simp add: Let_def)
qed

text \<open>
  C30: What \<^verbatim>\<open>getMinWait\<close>, the value the application is asked to wait for, promises in every
  reachable table. A positive value is never too long: no tick shorter than it fires anything.
  A positive value below the 32-bit cap is exact: a tick fires a timer if and only if at least
  that much time has elapsed (at the cap the timeouts are longer and the tick may fire nothing).
  The value 0 means that no tick fires anything, unless a running timer has a timeout of 0,
  which every tick fires.
\<close>

theorem getMinWait_exact:
  assumes "timer_reachable c m"
  shows "if getMinWait m = 0
         then fst (timer_tick ms m) \<noteq> [] \<longleftrightarrow>
                (\<exists>info\<in>set (m_timers m). timer_running info \<and> m_timeoutMs info = 0)
         else (ms < getMinWait m \<longrightarrow> fst (timer_tick ms m) = []) \<and>
              (getMinWait m < 4294967295 \<longrightarrow> (fst (timer_tick ms m) \<noteq> [] \<longleftrightarrow> getMinWait m \<le> ms))"
proof (cases "getMinWait m = 0")
  case True
  have big: "\<not> (- 1 :: 64 word) \<le> ucast ms"
  proof -
    have "unat ms < 2 ^ LENGTH(32)" by (rule unsigned_less)
    moreover have "unat (- 1 :: 64 word) = 18446744073709551615" by (simp add: unsigned_minus_1_eq_mask mask_eq_exp_minus_1)
    ultimately show ?thesis by (simp add: word_le_nat_alt unat_ucast_32_64)
  qed
  have "fst (timer_tick ms m) \<noteq> [] \<longleftrightarrow> (\<exists>info\<in>set (m_timers m). timer_running info \<and> m_timeoutMs info = 0)"
    using getMinWait_zero [OF reachable_timers_ok [OF assms] True]
  proof
    assume "\<forall>info\<in>set (m_timers m). timer_running info \<longrightarrow> m_timeoutMs info = - 1"
    then show ?thesis using big by (metis tick_fires word_zero_le)
  next
    assume "\<exists>info\<in>set (m_timers m). timer_running info \<and> m_timeoutMs info = 0"
    then show ?thesis by (metis tick_fires word_zero_le)
  qed
  then show ?thesis using True by simp
next
  case False
  then have pos: "0 < getMinWait m" by (simp add: word_gt_0)
  have mono: "(ucast a :: 64 word) \<le> ucast b \<longleftrightarrow> a \<le> b" for a b :: "32 word"
    by (simp add: word_le_nat_alt unat_ucast_32_64)
  note spec = getMinWait_spec [OF pos]
  have early: "getMinWait m \<le> ms" if "fst (timer_tick ms m) \<noteq> []"
  proof -
    from that obtain i where "i \<in> set (m_timers m)" "timer_running i" "m_timeoutMs i \<le> ucast ms"
      unfolding tick_fires by blast
    with spec have "(ucast (getMinWait m) :: 64 word) \<le> ucast ms" by (meson order_trans)
    then show ?thesis by (simp only: mono)
  qed
  have late: "fst (timer_tick ms m) \<noteq> []" if l: "getMinWait m < 4294967295" "getMinWait m \<le> ms"
  proof -
    obtain i where i: "i \<in> set (m_timers m)" "timer_running i" "m_timeoutMs i = ucast (getMinWait m)"
      using spec l(1) by blast
    moreover have "m_timeoutMs i \<le> ucast ms" using l(2) by (simp only: i(3) mono)
    ultimately show ?thesis unfolding tick_fires by blast
  qed
  have "ms < getMinWait m \<longrightarrow> fst (timer_tick ms m) = []" using early not_le by blast
  moreover have "getMinWait m < 4294967295 \<longrightarrow> (fst (timer_tick ms m) \<noteq> [] \<longleftrightarrow> getMinWait m \<le> ms)"
    using early late by blast
  ultimately show ?thesis using False by simp
qed

theorem getMinWait_exact_witness:
  "let m = timerWait 0 5 7 (snd (allocTimer default_config (TimerMgr_init :: nat timer_mgr)))
   in getMinWait m = 5 \<and> fst (timer_tick 4 m) = [] \<and> fst (timer_tick 5 m) \<noteq> []"
proof -
  let ?a = "snd (allocTimer default_config (TimerMgr_init :: nat timer_mgr))"
  let ?m = "timerWait 0 5 7 ?a"
  have w: "getMinWait ?m = 5"
    by (simp add: getMinWait_def allocTimer_def create_timer_def TimerMgr_init_def Let_def
        obj_list_full_def default_config_def timerWait_def TimersLimit_def HasOpsLimit_def
        TimerInfo_init_def)
  have "0 \<in> timer_used ?a"
    by (simp add: timer_used_def allocTimer_def create_timer_def TimerMgr_init_def
        obj_list_full_def default_config_def TimersLimit_def HasOpsLimit_def)
  then have r: "timer_reachable default_config ?m"
    by (intro reach_step [OF reach_step [OF reach_init trans_alloc] trans_wait]) (rule prod.collapse [symmetric])
  from getMinWait_exact [OF r, of 4] getMinWait_exact [OF r, of 5] w show ?thesis by (simp add: Let_def)
qed

text \<open>
  C35: A suspension outlives the timer's cancellation and restart: \<^verbatim>\<open>timerCancel\<close> and
  \<^verbatim>\<open>timerWait\<close> leave \<^verbatim>\<open>m_suspended\<close> alone, so a timer that was suspended when the
  connection was lost and is restarted after a reconnection without an explicit resume
  keeps its full timeout through every later tick and never fires.
\<close>

theorem suspended_timer_never_fires:
  fixes m :: "'cb timer_mgr" and t :: "64 word" and cb :: 'cb
  assumes "idx < length (m_timers m)" and "m_suspended (m_timers m ! idx)"
  defines "m' \<equiv> timerWait idx t cb (timerCancel idx m)"
  shows "m_timers (foldl (\<lambda>n ms. snd (timer_tick ms n)) m' mss) ! idx =
           (m_timers m ! idx)\<lparr>m_timeoutMs := t, m_timeoutCb := Some cb\<rparr>"
proof -
  let ?info = "(m_timers m ! idx)\<lparr>m_timeoutMs := t, m_timeoutCb := Some cb\<rparr>"
  have "idx < length (m_timers m') \<and> m_timers m' ! idx = ?info"
    using assms by (simp add: m'_def timerWait_def timerCancel_def cancel_info_def)
  moreover have "idx < length (m_timers n) \<and> m_timers n ! idx = ?info \<Longrightarrow>
      m_timers (foldl (\<lambda>n ms. snd (timer_tick ms n)) n mss) ! idx = ?info" for n
    by (induction mss arbitrary: n)
       (auto simp: timer_tick_snd tick_info_def assms(2))
  ultimately show ?thesis by blast
qed

theorem suspended_timer_never_fires_witness:
  "let m = Timer_setSuspended 0 True
             (timerWait 0 5 7 (snd (allocTimer default_config (TimerMgr_init :: nat timer_mgr))))
   in fst (timer_tick 4294967295 (timerWait 0 10 7 (timerCancel 0 m))) = [] \<and>
      m_timeoutMs (m_timers (snd (timer_tick 4294967295 (timerWait 0 10 7 (timerCancel 0 m)))) ! 0) = 10"
proof -
  let ?m = "Timer_setSuspended 0 True
             (timerWait 0 5 7 (snd (allocTimer default_config (TimerMgr_init :: nat timer_mgr))))"
  note ev = allocTimer_def create_timer_def TimerMgr_init_def Let_def obj_list_full_def
    default_config_def timerWait_def TimersLimit_def HasOpsLimit_def TimerInfo_init_def
    Timer_setSuspended_def timerIsActive_def timerSetSuspended_def timerCancel_def cancel_info_def
  have "0 < length (m_timers ?m)" "m_suspended (m_timers ?m ! 0)" by (simp_all add: ev)
  from suspended_timer_never_fires [OF this, of 10 7 "[4294967295]"] show ?thesis
    by (simp add: ev timer_tick_def tick_info_def)
qed

end
