(* ===== verification/Packet_Ids.thy ===== *)
theory Packet_Ids
  imports Mqtt_Config
begin

text \<open>
  The packet identifiers of outgoing PUBLISH, SUBSCRIBE and UNSUBSCRIBE messages:
  \<^verbatim>\<open>Op::allocPacketId\<close> and \<^verbatim>\<open>Op::releasePacketId\<close> (\<^verbatim>\<open>client/lib/src/op/Op.cpp\<close>) on the two
  fields of \<^verbatim>\<open>ClientState\<close> they own. The search loop has no bound in the source; it is a
  partial function here, and the lemmas show that it returns, what it returns, and
  exactly when the identifier 0, which MQTT forbids, is handed out.
\<close>

section \<open>State and operations\<close>

record packet_id_state =
  m_allocatedPacketIds :: "16 word list"
  m_lastPacketId :: "16 word"

definition packet_ids_init :: packet_id_state where
  "packet_ids_init = \<lparr>m_allocatedPacketIds = [], m_lastPacketId = 0\<rparr>"

text \<open>The \<^verbatim>\<open>while (true)\<close> of \<^verbatim>\<open>allocPacketId\<close>: the identifier found and the new vector.\<close>

partial_function (option) packet_id_loop ::
  "16 word \<Rightarrow> 16 word list \<Rightarrow> (16 word \<times> 16 word list) option" where
  "packet_id_loop nextPacketId ids =
     (if ids = [] \<or> last ids < nextPacketId then Some (nextPacketId, ids @ [nextPacketId])
      else if \<not> lb_found (\<lambda>x. x) nextPacketId ids
      then Some (nextPacketId,
                 insert_at (lower_bound (\<lambda>x. x) nextPacketId ids) nextPacketId ids)
      else packet_id_loop (nextPacketId + 1) ids)"

definition packet_ids_exhausted :: "config \<Rightarrow> 16 word list \<Rightarrow> bool" where
  "packet_ids_exhausted c ids \<longleftrightarrow>
     obj_list_full (PacketIdsLimit c) True ids \<or> 65535 \<le> length ids"

definition next_packet_id :: "16 word \<Rightarrow> 16 word" where
  "next_packet_id lastId = (if lastId + 1 = 0 then 1 else lastId + 1)"

definition allocPacketId ::
  "config \<Rightarrow> 'a packet_id_state_scheme \<Rightarrow> (16 word \<times> 'a packet_id_state_scheme) option" where
  "allocPacketId c st =
     (if packet_ids_exhausted c (m_allocatedPacketIds st) then Some (0, st)
      else case packet_id_loop (next_packet_id (m_lastPacketId st)) (m_allocatedPacketIds st) of
             None \<Rightarrow> None
           | Some (r, ids) \<Rightarrow> Some (r, st\<lparr>m_allocatedPacketIds := ids, m_lastPacketId := r\<rparr>))"

definition releasePacketId ::
  "16 word \<Rightarrow> 'a packet_id_state_scheme \<Rightarrow> 'a packet_id_state_scheme" where
  "releasePacketId i st =
     (let ids = m_allocatedPacketIds st in
      if i = 0 then st
      else if \<not> lb_found (\<lambda>x. x) i ids then st
      else st\<lparr>m_allocatedPacketIds := erase_at (lower_bound (\<lambda>x. x) i ids) ids\<rparr>)"

section \<open>The search loop\<close>

abbreviation ids_sorted :: "16 word list \<Rightarrow> bool" where
  "ids_sorted ids \<equiv> key_sorted (\<lambda>x. x) ids"

lemma lower_bound_above:
  assumes "ids = [] \<or> last ids < n" and "ids_sorted ids"
  shows "lower_bound (\<lambda>x. x) n ids = length ids" and "n \<notin> set ids"
proof -
  have all: "\<forall>x\<in>set ids. x < n"
    using assms by (cases ids rule: rev_cases) (auto simp: key_sorted_append intro: less_trans)
  then show "lower_bound (\<lambda>x. x) n ids = length ids"
    by (simp add: lower_bound_def takeWhile_eq_all_conv [THEN iffD2])
  from all show "n \<notin> set ids" by auto
qed

text \<open>The loop stops at the first free identifier, which it puts in its place.\<close>

lemma packet_id_loop_first_free:
  assumes "ids_sorted ids" and "\<forall>j<d. n + of_nat j \<in> set ids" and "n + of_nat d \<notin> set ids"
  shows "packet_id_loop n ids =
           Some (n + of_nat d,
                 insert_at (lower_bound (\<lambda>x. x) (n + of_nat d) ids) (n + of_nat d) ids)"
  using assms(2,3)
proof (induction d arbitrary: n)
  case 0
  then have "n \<notin> set ids" by simp
  then have nf: "\<not> lb_found (\<lambda>x. x) n ids" by (simp add: lb_found_iff [OF assms(1)])
  show ?case
  proof (cases "ids = [] \<or> last ids < n")
    case True
    with lower_bound_above(1) [OF True assms(1)] show ?thesis
      by (simp add: packet_id_loop.simps [of n] insert_at_def)
  next
    case False
    with nf show ?thesis by (simp add: packet_id_loop.simps [of n])
  qed
next
  case (Suc d)
  from Suc.prems(1) have "n + of_nat 0 \<in> set ids" by blast
  then have n: "n \<in> set ids" by simp
  then have f: "lb_found (\<lambda>x. x) n ids" by (simp add: lb_found_iff [OF assms(1)])
  from n lower_bound_above(2) [OF _ assms(1), of n] have l: "\<not> (ids = [] \<or> last ids < n)" by blast
  have shift: "n + 1 + of_nat j = n + of_nat (Suc j)" for j by simp
  have "packet_id_loop (n + 1) ids =
      Some (n + 1 + of_nat d,
            insert_at (lower_bound (\<lambda>x. x) (n + 1 + of_nat d) ids) (n + 1 + of_nat d) ids)"
    by (rule Suc.IH) (use Suc.prems in \<open>auto simp only: shift Suc_less_eq\<close>)
  then show ?case
    using l f by (simp add: packet_id_loop.simps [of n] add.assoc)
qed

lemma free_distance:
  fixes ids :: "16 word list"
  assumes "length ids < 65536"
  obtains d where "\<forall>j<d. n + of_nat j \<in> set ids" and "n + of_nat d \<notin> set ids" and "d < 65536"
proof -
  have "card (set ids) < 65536" using assms card_length order_le_less_trans by blast
  then have "set ids \<noteq> (UNIV :: 16 word set)" by (auto simp: card_word)
  then obtain x where "x \<notin> set ids" by blast
  then have ex: "n + of_nat (unat (x - n)) \<notin> set ids" by simp
  let ?d = "LEAST d. n + of_nat d \<notin> set ids"
  have le: "?d \<le> unat (x - n)" by (rule Least_le) (rule ex)
  have "unat (x - n) < 2 ^ LENGTH(16)" by (rule unsigned_less)
  with le have "?d < 65536" by simp
  moreover have "n + of_nat ?d \<notin> set ids" using ex by (rule LeastI)
  moreover have "\<forall>j<?d. n + of_nat j \<in> set ids" using not_less_Least by blast
  ultimately show thesis using that by blast
qed

definition packet_ids_ok :: "'a packet_id_state_scheme \<Rightarrow> bool" where
  "packet_ids_ok st \<longleftrightarrow> ids_sorted (m_allocatedPacketIds st)"

lemma allocPacketId_first_free:
  assumes "packet_ids_ok st" and "\<not> packet_ids_exhausted c (m_allocatedPacketIds st)"
  obtains d where "d < 65536"
    and "\<forall>j<d. next_packet_id (m_lastPacketId st) + of_nat j \<in> set (m_allocatedPacketIds st)"
    and "next_packet_id (m_lastPacketId st) + of_nat d \<notin> set (m_allocatedPacketIds st)"
    and "allocPacketId c st =
           (let r = next_packet_id (m_lastPacketId st) + of_nat d;
                ids = m_allocatedPacketIds st
            in Some (r, st\<lparr>m_allocatedPacketIds := insert_at (lower_bound (\<lambda>x. x) r ids) r ids,
                          m_lastPacketId := r\<rparr>))"
proof -
  let ?n = "next_packet_id (m_lastPacketId st)" and ?ids = "m_allocatedPacketIds st"
  have s: "ids_sorted ?ids" using assms(1) by (simp add: packet_ids_ok_def)
  have "length ?ids < 65536" using assms(2) by (simp add: packet_ids_exhausted_def)
  then obtain d where d: "\<forall>j<d. ?n + of_nat j \<in> set ?ids" "?n + of_nat d \<notin> set ?ids" "d < 65536"
    by (rule free_distance)
  show thesis
    by (rule that [OF d(3,1,2)])
      (simp add: allocPacketId_def assms(2) packet_id_loop_first_free [OF s d(1,2)] Let_def)
qed

lemma releasePacketId_ids:
  assumes "packet_ids_ok st" and "i \<noteq> 0"
  shows "set (m_allocatedPacketIds (releasePacketId i st)) = set (m_allocatedPacketIds st) - {i}"
    and "packet_ids_ok (releasePacketId i st)"
proof -
  have s: "ids_sorted (m_allocatedPacketIds st)" using assms(1) by (simp add: packet_ids_ok_def)
  note found = lb_found_iff [OF s, of i]
  show "set (m_allocatedPacketIds (releasePacketId i st)) = set (m_allocatedPacketIds st) - {i}"
    using assms(2) found erase_at_found(1) [OF s, of i]
    by (auto simp: releasePacketId_def Let_def)
  show "packet_ids_ok (releasePacketId i st)"
    using assms erase_at_found(2) [OF s, of i]
    by (simp add: releasePacketId_def packet_ids_ok_def Let_def)
qed

section \<open>The identifiers as a pool\<close>

definition packet_ids_used :: "'a packet_id_state_scheme \<Rightarrow> nat set" where
  "packet_ids_used st = unat ` set (m_allocatedPacketIds st)"

definition alloc_packet_id_opt ::
  "config \<Rightarrow> 'a packet_id_state_scheme \<Rightarrow> (nat \<times> 'a packet_id_state_scheme) option" where
  "alloc_packet_id_opt c st =
     (if packet_ids_exhausted c (m_allocatedPacketIds st) then None
      else map_option (\<lambda>(r, st'). (unat r, st')) (allocPacketId c st))"

lemma allocPacketId_fresh:
  assumes "packet_ids_ok st" and "\<not> packet_ids_exhausted c (m_allocatedPacketIds st)"
  obtains r st' where "allocPacketId c st = Some (r, st')"
    and "r \<notin> set (m_allocatedPacketIds st)"
    and "set (m_allocatedPacketIds st') = insert r (set (m_allocatedPacketIds st))"
    and "packet_ids_ok st'" and "m_lastPacketId st' = r"
proof -
  have s: "ids_sorted (m_allocatedPacketIds st)" using assms(1) by (simp add: packet_ids_ok_def)
  obtain d where d: "next_packet_id (m_lastPacketId st) + of_nat d \<notin> set (m_allocatedPacketIds st)"
    and al: "allocPacketId c st =
           (let r = next_packet_id (m_lastPacketId st) + of_nat d;
                ids = m_allocatedPacketIds st
            in Some (r, st\<lparr>m_allocatedPacketIds := insert_at (lower_bound (\<lambda>x. x) r ids) r ids,
                          m_lastPacketId := r\<rparr>))"
    by (rule allocPacketId_first_free [OF assms])
  then show thesis
    using key_sorted_insert_at [OF s, of "next_packet_id (m_lastPacketId st) + of_nat d"]
    by (intro that [OF al [unfolded Let_def]]) (simp_all add: packet_ids_ok_def)
qed

interpretation packet_id_pool: resource_pool
  packet_ids_used "alloc_packet_id_opt c" "\<lambda>r. releasePacketId (of_nat r)"
  "\<lambda>r. 0 < r \<and> r < 65536" packet_ids_ok for c :: config
proof
  fix st st' :: "'a packet_id_state_scheme" and r
  assume ok: "packet_ids_ok st" and al: "alloc_packet_id_opt c st = Some (r, st')"
  then have ne: "\<not> packet_ids_exhausted c (m_allocatedPacketIds st)"
    by (auto simp: alloc_packet_id_opt_def split: if_splits)
  obtain w st'' where "allocPacketId c st = Some (w, st'')" "w \<notin> set (m_allocatedPacketIds st)"
    "set (m_allocatedPacketIds st'') = insert w (set (m_allocatedPacketIds st))" "packet_ids_ok st''"
    by (rule allocPacketId_fresh [OF ok ne])
  with al ne show "r \<notin> packet_ids_used st \<and> packet_ids_used st' = insert r (packet_ids_used st) \<and>
      packet_ids_ok st'"
    by (auto simp: alloc_packet_id_opt_def packet_ids_used_def word_unat_eq_iff [symmetric])
next
  fix st :: "'a packet_id_state_scheme" and r
  assume ok: "packet_ids_ok st" and "r \<in> packet_ids_used st" and r: "0 < r \<and> r < 65536"
  have "unat (of_nat r :: 16 word) = r" using r by (simp add: unat_of_nat)
  then have "(of_nat r :: 16 word) \<noteq> 0" using r by auto
  note rel = releasePacketId_ids [OF ok this]
  have "unat ` (set (m_allocatedPacketIds st) - {of_nat r}) = unat ` set (m_allocatedPacketIds st) - {r}"
    using \<open>unat (of_nat r :: 16 word) = r\<close> by (auto simp: image_iff)
  with rel show "packet_ids_used (releasePacketId (of_nat r) st) = packet_ids_used st - {r} \<and>
      packet_ids_ok (releasePacketId (of_nat r) st)"
    by (simp add: packet_ids_used_def)
qed

section \<open>The wrap\<close>

text \<open>
  Exactly when a pool that is not exhausted hands out the identifier 0: when 0 is not
  recorded and every identifier from the next one up to 65535 is in use. The loop then
  increments past 65535 and takes 0, which MQTT does not allow in a packet; the guard
  against 0 before the loop is not repeated inside it.
\<close>

theorem allocPacketId_zero_iff:
  assumes "packet_ids_ok st" and "\<not> packet_ids_exhausted c (m_allocatedPacketIds st)"
  shows "map_option fst (allocPacketId c st) = Some 0 \<longleftrightarrow>
           0 \<notin> set (m_allocatedPacketIds st) \<and>
           (\<forall>i. next_packet_id (m_lastPacketId st) \<le> i \<longrightarrow> i \<in> set (m_allocatedPacketIds st))"
proof -
  let ?n = "next_packet_id (m_lastPacketId st)" and ?ids = "m_allocatedPacketIds st"
  obtain d where dl: "d < 65536" and d: "\<forall>j<d. ?n + of_nat j \<in> set ?ids"
    and nd: "?n + of_nat d \<notin> set ?ids"
    and al: "allocPacketId c st =
           (let r = ?n + of_nat d; ids = ?ids in
            Some (r, st\<lparr>m_allocatedPacketIds := insert_at (lower_bound (\<lambda>x. x) r ids) r ids,
                          m_lastPacketId := r\<rparr>))"
    by (rule allocPacketId_first_free [OF assms])
  have n: "?n \<noteq> 0" by (simp add: next_packet_id_def)
  then have npos: "0 < unat ?n" by (simp add: unat_gt_0)
  have fst_al: "map_option fst (allocPacketId c st) = Some (?n + of_nat d)"
    by (simp add: al Let_def)
  have wrap: "?n + of_nat j = 0 \<longleftrightarrow> unat ?n + j = 65536" if "j < 65536" for j
  proof -
    have b: "unat ?n < 2 ^ LENGTH(16)" by (rule unsigned_less)
    have "unat (?n + of_nat j) = (unat ?n + j) mod 65536"
      using that by (simp add: unat_word_ariths unat_of_nat)
    moreover have "(unat ?n + j) mod 65536 = 0 \<longleftrightarrow> unat ?n + j = 65536"
      using b that npos by (auto simp: mod_if)
    ultimately show ?thesis by (metis unat_eq_zero)
  qed
  have below: "?n \<le> i \<Longrightarrow> i = ?n + of_nat (unat i - unat ?n) \<and> unat i < 65536" for i :: "16 word"
  proof -
    assume "?n \<le> i"
    then have "unat ?n \<le> unat i" by (simp add: word_le_nat_alt)
    moreover have "unat i < 2 ^ LENGTH(16)" by (rule unsigned_less)
    ultimately show ?thesis by (simp add: of_nat_diff)
  qed
  show ?thesis
  proof
    assume "map_option fst (allocPacketId c st) = Some 0"
    then have z: "?n + of_nat d = 0" by (simp add: fst_al)
    with wrap [OF dl] have e: "unat ?n + d = 65536" by simp
    have "i \<in> set ?ids" if "?n \<le> i" for i
    proof -
      have "unat ?n \<le> unat i" "unat i < 65536"
        using that below [OF that] by (simp_all add: word_le_nat_alt)
      with e have "unat i - unat ?n < d" by linarith
      with d below [OF that] show ?thesis by metis
    qed
    with z nd show "0 \<notin> set ?ids \<and> (\<forall>i. ?n \<le> i \<longrightarrow> i \<in> set ?ids)" by simp
  next
    assume h: "0 \<notin> set ?ids \<and> (\<forall>i. ?n \<le> i \<longrightarrow> i \<in> set ?ids)"
    let ?e = "65536 - unat ?n"
    have b: "unat ?n < 2 ^ LENGTH(16)" by (rule unsigned_less)
    have ze: "?n + of_nat ?e = 0" using wrap [of ?e] b npos by simp
    have "\<not> d < ?e"
    proof
      assume "d < ?e"
      then have "unat (?n + of_nat d) = unat ?n + d"
        by (simp add: unat_word_ariths unat_of_nat)
      then have "?n \<le> ?n + of_nat d" by (simp add: word_le_nat_alt)
      with h nd show False by blast
    qed
    moreover have "\<not> ?e < d" using d ze h by metis
    ultimately have "d = ?e" by simp
    with ze show "map_option fst (allocPacketId c st) = Some 0" by (simp add: fst_al)
  qed
qed

lemma top_packet_id: "(65535 :: 16 word) \<le> i \<longleftrightarrow> i = 65535"
proof
  assume "65535 \<le> i"
  moreover have "unat i < 2 ^ LENGTH(16)" by (rule unsigned_less)
  ultimately have "unat i = 65535" by (simp add: word_le_nat_alt)
  then show "i = 65535" by (simp add: word_unat_eq_iff)
qed simp

section \<open>Properties\<close>

text \<open>
  C24: The unbounded search of \<^verbatim>\<open>allocPacketId\<close> always returns. When the pool is
  exhausted it returns 0 and changes nothing. Otherwise it returns the first identifier not in
  use, counting up modulo 2^16 from the one after the last allocation, records it in sorted
  order and remembers it as the last one. Contrary to \<^verbatim>\<open>spec_compliance.md\<close> the count does not
  skip 0 when it wraps: a pool that is not exhausted hands out, and records, the identifier 0
  exactly when 0 is not recorded yet and every identifier from the next one up to 65535 is in use.
\<close>

theorem allocPacketId_returns_first_free:
  assumes "packet_ids_ok st"
  shows "if packet_ids_exhausted c (m_allocatedPacketIds st) then allocPacketId c st = Some (0, st)
         else (\<exists>d st'. allocPacketId c st = Some (next_packet_id (m_lastPacketId st) + of_nat d, st') \<and>
                next_packet_id (m_lastPacketId st) + of_nat d \<notin> set (m_allocatedPacketIds st) \<and>
                (\<forall>j<d. next_packet_id (m_lastPacketId st) + of_nat j \<in> set (m_allocatedPacketIds st)) \<and>
                set (m_allocatedPacketIds st') =
                  insert (next_packet_id (m_lastPacketId st) + of_nat d) (set (m_allocatedPacketIds st)) \<and>
                packet_ids_ok st' \<and>
                m_lastPacketId st' = next_packet_id (m_lastPacketId st) + of_nat d) \<and>
              (map_option fst (allocPacketId c st) = Some 0 \<longleftrightarrow>
                 0 \<notin> set (m_allocatedPacketIds st) \<and>
                 (\<forall>i. next_packet_id (m_lastPacketId st) \<le> i \<longrightarrow> i \<in> set (m_allocatedPacketIds st)))"
proof (cases "packet_ids_exhausted c (m_allocatedPacketIds st)")
  case True
  then show ?thesis by (simp add: allocPacketId_def)
next
  case False
  obtain d where d: "\<forall>j<d. next_packet_id (m_lastPacketId st) + of_nat j \<in> set (m_allocatedPacketIds st)"
    and al: "allocPacketId c st =
           (let r = next_packet_id (m_lastPacketId st) + of_nat d; ids = m_allocatedPacketIds st
            in Some (r, st\<lparr>m_allocatedPacketIds := insert_at (lower_bound (\<lambda>x. x) r ids) r ids,
                          m_lastPacketId := r\<rparr>))"
    by (rule allocPacketId_first_free [OF assms False])
  obtain r st' where "allocPacketId c st = Some (r, st')"
    "r \<notin> set (m_allocatedPacketIds st)"
    "set (m_allocatedPacketIds st') = insert r (set (m_allocatedPacketIds st))"
    "packet_ids_ok st'" "m_lastPacketId st' = r"
    by (rule allocPacketId_fresh [OF assms False])
  with d al have "\<exists>d st'. allocPacketId c st = Some (next_packet_id (m_lastPacketId st) + of_nat d, st') \<and>
      next_packet_id (m_lastPacketId st) + of_nat d \<notin> set (m_allocatedPacketIds st) \<and>
      (\<forall>j<d. next_packet_id (m_lastPacketId st) + of_nat j \<in> set (m_allocatedPacketIds st)) \<and>
      set (m_allocatedPacketIds st') =
        insert (next_packet_id (m_lastPacketId st) + of_nat d) (set (m_allocatedPacketIds st)) \<and>
      packet_ids_ok st' \<and> m_lastPacketId st' = next_packet_id (m_lastPacketId st) + of_nat d"
    by (fastforce simp: Let_def)
  then show ?thesis using False allocPacketId_zero_iff [OF assms False] by simp
qed

theorem allocPacketId_returns_first_free_witness:
  "(\<exists>d. allocPacketId default_config \<lparr>m_allocatedPacketIds = [1, 2, 5], m_lastPacketId = 0\<rparr> =
      Some (1 + of_nat d, \<lparr>m_allocatedPacketIds = [1, 2, 3, 5], m_lastPacketId = 3\<rparr>)) \<and>
   map_option fst (allocPacketId default_config \<lparr>m_allocatedPacketIds = [65535], m_lastPacketId = 65534\<rparr>) = Some 0"
proof -
  let ?st = "\<lparr>m_allocatedPacketIds = [1, 2, 5], m_lastPacketId = 0\<rparr>"
  let ?wr = "\<lparr>m_allocatedPacketIds = [65535], m_lastPacketId = 65534\<rparr>"
  have ok: "packet_ids_ok ?st" "packet_ids_ok ?wr" by (simp_all add: packet_ids_ok_def key_sorted_def)
  have ne: "\<not> packet_ids_exhausted default_config [1, 2, 5]" "\<not> packet_ids_exhausted default_config [65535]"
    by (simp_all add: packet_ids_exhausted_def obj_list_full_def PacketIdsLimit_def default_config_def)
  from allocPacketId_returns_first_free [OF ok(1), of default_config] ne(1)
  obtain d st' where "allocPacketId default_config ?st = Some (1 + of_nat d, st')"
    by (auto simp: next_packet_id_def)
  moreover have "allocPacketId default_config ?st =
      Some (3, \<lparr>m_allocatedPacketIds = [1, 2, 3, 5], m_lastPacketId = 3\<rparr>)"
    by (simp add: allocPacketId_def packet_ids_exhausted_def obj_list_full_def PacketIdsLimit_def
        default_config_def next_packet_id_def packet_id_loop.simps insert_at_def)
  moreover have "map_option fst (allocPacketId default_config ?wr) = Some 0"
    using allocPacketId_returns_first_free [OF ok(2), of default_config] ne(2) top_packet_id
    by (auto simp: next_packet_id_def)
  ultimately show ?thesis by auto
qed

text \<open>
  The consequence: an identifier 0 that was handed out is never given back. After the
  wrap the vector holds 0, the last identifier is 0, and \<^verbatim>\<open>releasePacketId(0)\<close> returns
  without touching the vector, so one slot of the pool is lost for good.
\<close>

theorem packet_id_zero_leaks:
  "allocPacketId default_config \<lparr>m_allocatedPacketIds = [65535], m_lastPacketId = 65534\<rparr> =
     Some (0, \<lparr>m_allocatedPacketIds = [0, 65535], m_lastPacketId = 0\<rparr>) \<and>
   (\<forall>st. releasePacketId 0 st = (st :: packet_id_state))"
  by (simp add: allocPacketId_def packet_ids_exhausted_def obj_list_full_def PacketIdsLimit_def
      default_config_def next_packet_id_def packet_id_loop.simps insert_at_def releasePacketId_def)

text \<open>
  Any number of successive allocations that all succeed hands out pairwise different
  identifiers, none of which was in use, and records exactly these; releasing a non-zero
  identifier right after its allocation restores the set of used ones.
\<close>

theorem packet_ids_sequence_distinct:
  assumes "packet_ids_ok st" and "alloc_seq (alloc_packet_id_opt c) n st = Some (rs, st')"
  shows "length rs = n \<and> distinct rs \<and> set rs \<inter> packet_ids_used st = {} \<and>
         packet_ids_used st' = packet_ids_used st \<union> set rs \<and>
         (\<forall>r st''. alloc_packet_id_opt c st' = Some (r, st'') \<and> 0 < r \<and> r < 65536 \<longrightarrow>
            packet_ids_used (releasePacketId (of_nat r) st'') = packet_ids_used st')"
  using packet_id_pool.alloc_seq_fresh [OF assms] packet_id_pool.alloc_then_release by blast

theorem packet_ids_sequence_distinct_witness:
  "let (rs, st) = the (alloc_seq (alloc_packet_id_opt default_config) (Suc (Suc (Suc 0))) packet_ids_init)
   in rs = [1, 2, 3] \<and> distinct rs \<and> packet_ids_used st = packet_ids_used packet_ids_init \<union> set rs"
proof -
  have ok: "packet_ids_ok packet_ids_init" by (simp add: packet_ids_ok_def packet_ids_init_def)
  have run: "alloc_seq (alloc_packet_id_opt default_config) (Suc (Suc (Suc 0))) packet_ids_init =
      Some ([1, 2, 3], \<lparr>m_allocatedPacketIds = [1, 2, 3], m_lastPacketId = 3\<rparr>)"
    by (simp add: alloc_packet_id_opt_def allocPacketId_def packet_ids_exhausted_def
        obj_list_full_def PacketIdsLimit_def default_config_def next_packet_id_def
        packet_id_loop.simps packet_ids_init_def)
  from packet_ids_sequence_distinct [OF ok run] show ?thesis unfolding run by auto
qed

end
