(* ===== verification/Props_Handler.thy ===== *)
theory Props_Handler
  imports Mqtt_Config
begin

text \<open>
  The properties of a received message: \<^verbatim>\<open>PropsHandler\<close> of
  \<^verbatim>\<open>client/lib/src/PropsHandler.h\<close>, which visits the decoded properties one by one and
  remembers them, and the property helpers of \<^verbatim>\<open>client/lib/src/op/Op.h\<close> and
  \<^verbatim>\<open>Op.cpp\<close> (\<^verbatim>\<open>fillUserProps\<close>, \<^verbatim>\<open>canAddProp\<close>, \<^verbatim>\<open>addUserPropToList\<close>). The decoding itself belongs to
  the generated \<^verbatim>\<open>cc_mqtt5\<close> library; a property arrives here as the value of its field.
  The handler stores pointers into the message, here the values themselves.
\<close>

section \<open>Decoded properties\<close>

type_synonym bytes = "8 word list"

text \<open>A one-byte flag field: its value and what the field's \<^verbatim>\<open>valid()\<close> reports.\<close>

record flag_field =
  ff_value :: nat
  ff_valid :: bool

datatype property =
    PayloadFormatIndicator nat
  | MessageExpiryInterval nat
  | ContentType cstr
  | ResponseTopic cstr
  | CorrelationData bytes
  | SessionExpiryInterval nat
  | AssignedClientId cstr
  | ServerKeepAlive nat
  | AuthMethod cstr
  | AuthData bytes
  | RequestProblemInfo nat
  | WillDelayInterval nat
  | RequestResponseInfo nat
  | ResponseInfo cstr
  | ServerRef cstr
  | ReasonStr cstr
  | ReceiveMax nat
  | TopicAliasMax nat
  | TopicAlias nat
  | MaximumQos nat
  | RetainAvailable flag_field
  | MaxPacketSize nat
  | WildcardSubAvail flag_field
  | SubIdAvail flag_field
  | SharedSubAvail flag_field
  | SubscriptionId nat
  | UserProperty cstr cstr

text \<open>The members of \<^verbatim>\<open>PropsHandler\<close>: a null pointer is \<^term>\<open>None\<close>.\<close>

record props_handler =
  ph_payloadFormatIndicator :: "nat option"
  ph_messageExpiryInterval :: "nat option"
  ph_contentType :: "cstr option"
  ph_responseTopic :: "cstr option"
  ph_correlationData :: "bytes option"
  ph_sessionExpiryInterval :: "nat option"
  ph_assignedClientId :: "cstr option"
  ph_serverKeepAlive :: "nat option"
  ph_authMethod :: "cstr option"
  ph_authData :: "bytes option"
  ph_requestProblemInfo :: "nat option"
  ph_willDelayInterval :: "nat option"
  ph_requestResponseInfo :: "nat option"
  ph_responseInfo :: "cstr option"
  ph_serverRef :: "cstr option"
  ph_reasonStr :: "cstr option"
  ph_receiveMax :: "nat option"
  ph_topicAliasMax :: "nat option"
  ph_topicAlias :: "nat option"
  ph_maxQos :: "nat option"
  ph_retainAvailable :: "flag_field option"
  ph_maxPacketSize :: "nat option"
  ph_wildcardSubAvail :: "flag_field option"
  ph_subIdAvail :: "flag_field option"
  ph_sharedSubAvail :: "flag_field option"
  ph_subscriptionIds :: "nat list"
  ph_userProps :: "(cstr \<times> cstr) list"
  ph_protocolError :: bool

definition PropsHandler_init :: props_handler where
  "PropsHandler_init =
     \<lparr>ph_payloadFormatIndicator = None,
      ph_messageExpiryInterval = None,
      ph_contentType = None,
      ph_responseTopic = None,
      ph_correlationData = None,
      ph_sessionExpiryInterval = None,
      ph_assignedClientId = None,
      ph_serverKeepAlive = None,
      ph_authMethod = None,
      ph_authData = None,
      ph_requestProblemInfo = None,
      ph_willDelayInterval = None,
      ph_requestResponseInfo = None,
      ph_responseInfo = None,
      ph_serverRef = None,
      ph_reasonStr = None,
      ph_receiveMax = None,
      ph_topicAliasMax = None,
      ph_topicAlias = None,
      ph_maxQos = None,
      ph_retainAvailable = None,
      ph_maxPacketSize = None,
      ph_wildcardSubAvail = None,
      ph_subIdAvail = None,
      ph_sharedSubAvail = None,
      ph_subscriptionIds = [], ph_userProps = [], ph_protocolError = False\<rparr>"

text \<open>
  \<^verbatim>\<open>storeProp\<close>: the second pointer of a kind is a protocol error, and replaces the first.
\<close>

definition storeProp ::
  "(props_handler \<Rightarrow> 'v option) \<Rightarrow> (('v option \<Rightarrow> 'v option) \<Rightarrow> props_handler \<Rightarrow> props_handler) \<Rightarrow>
   'v \<Rightarrow> props_handler \<Rightarrow> props_handler" where
  "storeProp ptr upd v h =
     (let h1 = (if ptr h \<noteq> None then h\<lparr>ph_protocolError := True\<rparr> else h)
      in upd (\<lambda>_. Some v) h1)"

definition flag_error :: "bool \<Rightarrow> props_handler \<Rightarrow> props_handler" where
  "flag_error b h = (if b then h\<lparr>ph_protocolError := True\<rparr> else h)"

text \<open>The overloads of \<^verbatim>\<open>operator()\<close>, one per property.\<close>

fun handle_prop :: "config \<Rightarrow> property \<Rightarrow> props_handler \<Rightarrow> props_handler" where
  "handle_prop c (PayloadFormatIndicator v) h = storeProp ph_payloadFormatIndicator ph_payloadFormatIndicator_update v h"
| "handle_prop c (MessageExpiryInterval v) h = storeProp ph_messageExpiryInterval ph_messageExpiryInterval_update v h"
| "handle_prop c (ContentType v) h = storeProp ph_contentType ph_contentType_update v h"
| "handle_prop c (ResponseTopic v) h = storeProp ph_responseTopic ph_responseTopic_update v h"
| "handle_prop c (CorrelationData v) h = storeProp ph_correlationData ph_correlationData_update v h"
| "handle_prop c (SessionExpiryInterval v) h = storeProp ph_sessionExpiryInterval ph_sessionExpiryInterval_update v h"
| "handle_prop c (AssignedClientId v) h = storeProp ph_assignedClientId ph_assignedClientId_update v h"
| "handle_prop c (ServerKeepAlive v) h = storeProp ph_serverKeepAlive ph_serverKeepAlive_update v h"
| "handle_prop c (AuthMethod v) h = storeProp ph_authMethod ph_authMethod_update v h"
| "handle_prop c (AuthData v) h = storeProp ph_authData ph_authData_update v h"
| "handle_prop c (RequestProblemInfo v) h = storeProp ph_requestProblemInfo ph_requestProblemInfo_update v h"
| "handle_prop c (WillDelayInterval v) h = storeProp ph_willDelayInterval ph_willDelayInterval_update v h"
| "handle_prop c (RequestResponseInfo v) h = storeProp ph_requestResponseInfo ph_requestResponseInfo_update v h"
| "handle_prop c (ResponseInfo v) h = storeProp ph_responseInfo ph_responseInfo_update v h"
| "handle_prop c (ServerRef v) h = storeProp ph_serverRef ph_serverRef_update v h"
| "handle_prop c (ReasonStr v) h = storeProp ph_reasonStr ph_reasonStr_update v h"
| "handle_prop c (ReceiveMax v) h = flag_error (v = 0) (storeProp ph_receiveMax ph_receiveMax_update v h)"
| "handle_prop c (TopicAliasMax v) h = storeProp ph_topicAliasMax ph_topicAliasMax_update v h"
| "handle_prop c (TopicAlias v) h = storeProp ph_topicAlias ph_topicAlias_update v h"
| "handle_prop c (MaximumQos v) h = flag_error (2 \<le> v) (storeProp ph_maxQos ph_maxQos_update v h)"
| "handle_prop c (RetainAvailable v) h = flag_error (\<not> ff_valid v) (storeProp ph_retainAvailable ph_retainAvailable_update v h)"
| "handle_prop c (MaxPacketSize v) h = flag_error (v = 0) (storeProp ph_maxPacketSize ph_maxPacketSize_update v h)"
| "handle_prop c (WildcardSubAvail v) h = flag_error (\<not> ff_valid v) (storeProp ph_wildcardSubAvail ph_wildcardSubAvail_update v h)"
| "handle_prop c (SubIdAvail v) h = flag_error (\<not> ff_valid v) (storeProp ph_subIdAvail ph_subIdAvail_update v h)"
| "handle_prop c (SharedSubAvail v) h = flag_error (\<not> ff_valid v) (storeProp ph_sharedSubAvail ph_sharedSubAvail_update v h)"
| "handle_prop c (SubscriptionId v) h =
     (if HasSubIds c then
        if obj_list_full (SubIdsLimit c) (HasSubIds c) (ph_subscriptionIds h) then h
        else flag_error (v = 0) (h\<lparr>ph_subscriptionIds := ph_subscriptionIds h @ [v]\<rparr>)
      else h)"
| "handle_prop c (UserProperty k v) h =
     (if HasUserProps c then
        if obj_list_full (UserPropsLimit c) (HasUserProps c) (ph_userProps h) then h
        else h\<lparr>ph_userProps := ph_userProps h @ [(k, v)]\<rparr>
      else h)"

text \<open>The loop \<^verbatim>\<open>for (auto& p : props) p.currentFieldExec(propsHandler)\<close>.\<close>

definition handle_props :: "config \<Rightarrow> property list \<Rightarrow> props_handler" where
  "handle_props c ps = fold (handle_prop c) ps PropsHandler_init"

definition isProtocolError :: "props_handler \<Rightarrow> bool" where
  "isProtocolError h = ph_protocolError h"

text \<open>\<^verbatim>\<open>fillUserProps\<close>, on the initially empty list the callers pass.\<close>

definition fillUserProps :: "config \<Rightarrow> props_handler \<Rightarrow> (cstr \<times> cstr) list" where
  "fillUserProps c h =
     (if HasUserProps c then
        if 0 < UserPropsLimit c
        then take (min (length (ph_userProps h)) (UserPropsLimit c)) (ph_userProps h)
        else ph_userProps h
      else [])"

section \<open>Properties of messages being built\<close>

text \<open>
  \<^verbatim>\<open>canAddProp\<close>: the property list of an outgoing message; its capacity (\<^term>\<open>None\<close> when it
  is a \<^verbatim>\<open>std::vector\<close>) is fixed by the protocol options of the \<^verbatim>\<open>cc_mqtt5\<close> library, a
  parameter.
\<close>

type_synonym props_capacity = "nat option"

definition canAddProp :: "props_capacity \<Rightarrow> property list \<Rightarrow> bool" where
  "canAddProp cap ps = (case cap of None \<Rightarrow> True | Some n \<Rightarrow> length ps < n)"

definition maxStringLen :: nat where
  "maxStringLen = 65535"

text \<open>\<^verbatim>\<open>addUserPropToList\<close>; a null pointer of the C structure is \<^term>\<open>None\<close>.\<close>

definition addUserPropToList ::
  "config \<Rightarrow> props_capacity \<Rightarrow> cstr option \<Rightarrow> cstr option \<Rightarrow> property list \<Rightarrow>
   error_code \<times> property list" where
  "addUserPropToList c cap key val ps =
     (if HasUserProps c then
        (case key of
           None \<Rightarrow> (EC_BadParam, ps)
         | Some k \<Rightarrow>
             if \<not> canAddProp cap ps then (EC_OutOfMemory, ps)
             else if maxStringLen < length k then (EC_BadParam, ps)
             else
               let v = (case val of None \<Rightarrow> [] | Some v \<Rightarrow> v) in
               if maxStringLen < length v then (EC_BadParam, ps)
               else (EC_Success, ps @ [UserProperty k v]))
      else (EC_NotSupported, ps))"

text \<open>
  One step of a configuration function: a property is added if its parameter is given, there
  is room for it and its value is not \<^term>\<open>bad\<close>, too long; the first error stops the chain.
\<close>

definition add_prop_step ::
  "props_capacity \<Rightarrow> bool \<Rightarrow> bool \<Rightarrow> property \<Rightarrow> error_code \<times> property list \<Rightarrow>
   error_code \<times> property list" where
  "add_prop_step cap given bad p r =
     (if fst r \<noteq> EC_Success \<or> \<not> given then r
      else if \<not> canAddProp cap (snd r) then (EC_OutOfMemory, snd r)
      else if bad then (EC_BadParam, snd r)
      else (EC_Success, snd r @ [p]))"

definition fail_step :: "bool \<Rightarrow> error_code \<times> 'a \<Rightarrow> error_code \<times> 'a" where
  "fail_step bad r = (if fst r = EC_Success \<and> bad then (EC_BadParam, snd r) else r)"

section \<open>What makes a property list a protocol error\<close>

text \<open>The pointer a property is stored in, and whether its value is forbidden.\<close>

datatype prop_kind =
    Kind_payloadFormatIndicator
  | Kind_messageExpiryInterval
  | Kind_contentType
  | Kind_responseTopic
  | Kind_correlationData
  | Kind_sessionExpiryInterval
  | Kind_assignedClientId
  | Kind_serverKeepAlive
  | Kind_authMethod
  | Kind_authData
  | Kind_requestProblemInfo
  | Kind_willDelayInterval
  | Kind_requestResponseInfo
  | Kind_responseInfo
  | Kind_serverRef
  | Kind_reasonStr
  | Kind_receiveMax
  | Kind_topicAliasMax
  | Kind_topicAlias
  | Kind_maxQos
  | Kind_retainAvailable
  | Kind_maxPacketSize
  | Kind_wildcardSubAvail
  | Kind_subIdAvail
  | Kind_sharedSubAvail

fun kind_of :: "property \<Rightarrow> prop_kind option" where
  "kind_of (PayloadFormatIndicator v) = Some Kind_payloadFormatIndicator"
| "kind_of (MessageExpiryInterval v) = Some Kind_messageExpiryInterval"
| "kind_of (ContentType v) = Some Kind_contentType"
| "kind_of (ResponseTopic v) = Some Kind_responseTopic"
| "kind_of (CorrelationData v) = Some Kind_correlationData"
| "kind_of (SessionExpiryInterval v) = Some Kind_sessionExpiryInterval"
| "kind_of (AssignedClientId v) = Some Kind_assignedClientId"
| "kind_of (ServerKeepAlive v) = Some Kind_serverKeepAlive"
| "kind_of (AuthMethod v) = Some Kind_authMethod"
| "kind_of (AuthData v) = Some Kind_authData"
| "kind_of (RequestProblemInfo v) = Some Kind_requestProblemInfo"
| "kind_of (WillDelayInterval v) = Some Kind_willDelayInterval"
| "kind_of (RequestResponseInfo v) = Some Kind_requestResponseInfo"
| "kind_of (ResponseInfo v) = Some Kind_responseInfo"
| "kind_of (ServerRef v) = Some Kind_serverRef"
| "kind_of (ReasonStr v) = Some Kind_reasonStr"
| "kind_of (ReceiveMax v) = Some Kind_receiveMax"
| "kind_of (TopicAliasMax v) = Some Kind_topicAliasMax"
| "kind_of (TopicAlias v) = Some Kind_topicAlias"
| "kind_of (MaximumQos v) = Some Kind_maxQos"
| "kind_of (RetainAvailable v) = Some Kind_retainAvailable"
| "kind_of (MaxPacketSize v) = Some Kind_maxPacketSize"
| "kind_of (WildcardSubAvail v) = Some Kind_wildcardSubAvail"
| "kind_of (SubIdAvail v) = Some Kind_subIdAvail"
| "kind_of (SharedSubAvail v) = Some Kind_sharedSubAvail"
| "kind_of (SubscriptionId v) = None"
| "kind_of (UserProperty k v) = None"

fun bad_value :: "property \<Rightarrow> bool" where
  "bad_value (ReceiveMax v) = (v = 0)"
| "bad_value (MaximumQos v) = (2 \<le> v)"
| "bad_value (RetainAvailable v) = (\<not> ff_valid v)"
| "bad_value (MaxPacketSize v) = (v = 0)"
| "bad_value (WildcardSubAvail v) = (\<not> ff_valid v)"
| "bad_value (SubIdAvail v) = (\<not> ff_valid v)"
| "bad_value (SharedSubAvail v) = (\<not> ff_valid v)"
| "bad_value _ = False"

text \<open>What the handler remembers of a kind, as the property it was read from.\<close>

fun ptr_value :: "props_handler \<Rightarrow> prop_kind \<Rightarrow> property option" where
  "ptr_value h Kind_payloadFormatIndicator = map_option PayloadFormatIndicator (ph_payloadFormatIndicator h)"
| "ptr_value h Kind_messageExpiryInterval = map_option MessageExpiryInterval (ph_messageExpiryInterval h)"
| "ptr_value h Kind_contentType = map_option ContentType (ph_contentType h)"
| "ptr_value h Kind_responseTopic = map_option ResponseTopic (ph_responseTopic h)"
| "ptr_value h Kind_correlationData = map_option CorrelationData (ph_correlationData h)"
| "ptr_value h Kind_sessionExpiryInterval = map_option SessionExpiryInterval (ph_sessionExpiryInterval h)"
| "ptr_value h Kind_assignedClientId = map_option AssignedClientId (ph_assignedClientId h)"
| "ptr_value h Kind_serverKeepAlive = map_option ServerKeepAlive (ph_serverKeepAlive h)"
| "ptr_value h Kind_authMethod = map_option AuthMethod (ph_authMethod h)"
| "ptr_value h Kind_authData = map_option AuthData (ph_authData h)"
| "ptr_value h Kind_requestProblemInfo = map_option RequestProblemInfo (ph_requestProblemInfo h)"
| "ptr_value h Kind_willDelayInterval = map_option WillDelayInterval (ph_willDelayInterval h)"
| "ptr_value h Kind_requestResponseInfo = map_option RequestResponseInfo (ph_requestResponseInfo h)"
| "ptr_value h Kind_responseInfo = map_option ResponseInfo (ph_responseInfo h)"
| "ptr_value h Kind_serverRef = map_option ServerRef (ph_serverRef h)"
| "ptr_value h Kind_reasonStr = map_option ReasonStr (ph_reasonStr h)"
| "ptr_value h Kind_receiveMax = map_option ReceiveMax (ph_receiveMax h)"
| "ptr_value h Kind_topicAliasMax = map_option TopicAliasMax (ph_topicAliasMax h)"
| "ptr_value h Kind_topicAlias = map_option TopicAlias (ph_topicAlias h)"
| "ptr_value h Kind_maxQos = map_option MaximumQos (ph_maxQos h)"
| "ptr_value h Kind_retainAvailable = map_option RetainAvailable (ph_retainAvailable h)"
| "ptr_value h Kind_maxPacketSize = map_option MaxPacketSize (ph_maxPacketSize h)"
| "ptr_value h Kind_wildcardSubAvail = map_option WildcardSubAvail (ph_wildcardSubAvail h)"
| "ptr_value h Kind_subIdAvail = map_option SubIdAvail (ph_subIdAvail h)"
| "ptr_value h Kind_sharedSubAvail = map_option SharedSubAvail (ph_sharedSubAvail h)"

definition single_kinds :: "property list \<Rightarrow> prop_kind list" where
  "single_kinds ps = List.map_filter kind_of ps"

fun sub_id_of :: "property \<Rightarrow> nat option" where
  "sub_id_of (SubscriptionId v) = Some v"
| "sub_id_of _ = None"

fun user_prop_of :: "property \<Rightarrow> (cstr \<times> cstr) option" where
  "user_prop_of (UserProperty k v) = Some (k, v)"
| "user_prop_of _ = None"

text \<open>What a bounded list keeps of a sequence of values.\<close>

definition kept :: "nat \<Rightarrow> bool \<Rightarrow> 'a list \<Rightarrow> 'a list" where
  "kept limit feature xs =
     (if \<not> feature then [] else if limit = 0 then xs else take limit xs)"

lemma kept_snoc:
  "kept limit True (xs @ [x]) =
     (if obj_list_full limit True (kept limit True xs) then kept limit True xs
      else kept limit True xs @ [x])"
  by (auto simp: kept_def obj_list_full_def)

lemma kept_no_feature [simp]: "kept limit False xs = []"
  by (simp add: kept_def)

lemma map_filter_snoc:
  "List.map_filter f (xs @ [x]) = List.map_filter f xs @ (case f x of None \<Rightarrow> [] | Some y \<Rightarrow> [y])"
  by (simp add: List.map_filter_def split: option.split)


lemma ptr_value_handle_prop:
  "ptr_value (handle_prop c p h) k = (if kind_of p = Some k then Some p else ptr_value h k)"
  by (cases p; cases k; simp add: storeProp_def flag_error_def)

lemma sub_ids_handle_prop:
  "ph_subscriptionIds (handle_prop c p h) =
     (case sub_id_of p of
        None \<Rightarrow> ph_subscriptionIds h
      | Some v \<Rightarrow> if HasSubIds c \<and> \<not> obj_list_full (SubIdsLimit c) True (ph_subscriptionIds h)
                  then ph_subscriptionIds h @ [v] else ph_subscriptionIds h)"
  by (cases p) (simp_all add: storeProp_def flag_error_def)

lemma user_props_handle_prop:
  "ph_userProps (handle_prop c p h) =
     (case user_prop_of p of
        None \<Rightarrow> ph_userProps h
      | Some v \<Rightarrow> if HasUserProps c \<and> \<not> obj_list_full (UserPropsLimit c) True (ph_userProps h)
                  then ph_userProps h @ [v] else ph_userProps h)"
  by (cases p) (simp_all add: storeProp_def flag_error_def)

lemma protocolError_handle_prop:
  "ph_protocolError (handle_prop c p h) \<longleftrightarrow>
     ph_protocolError h \<or> bad_value p \<or>
     (\<exists>k. kind_of p = Some k \<and> ptr_value h k \<noteq> None) \<or>
     sub_id_of p = Some 0 \<and> HasSubIds c \<and>
       \<not> obj_list_full (SubIdsLimit c) True (ph_subscriptionIds h)"
  by (cases p) (auto simp: storeProp_def flag_error_def Let_def)

text \<open>The state of the handler after a list of properties.\<close>

lemma handle_props_snoc:
  "handle_props c (ps @ [p]) = handle_prop c p (handle_props c ps)"
  by (simp add: handle_props_def)

lemma handle_props_Nil: "handle_props c [] = PropsHandler_init"
  by (simp add: handle_props_def)

lemma ptr_value_init: "ptr_value PropsHandler_init k = None"
  by (cases k) (simp_all add: PropsHandler_init_def)

lemma ptr_value_last:
  "ptr_value (handle_props c ps) k = List.find (\<lambda>p. kind_of p = Some k) (rev ps)"
  by (induction ps rule: rev_induct)
     (simp_all add: handle_props_snoc handle_props_Nil ptr_value_handle_prop ptr_value_init)

lemma sub_ids_kept:
  "ph_subscriptionIds (handle_props c ps) =
     kept (SubIdsLimit c) (HasSubIds c) (List.map_filter sub_id_of ps)"
proof (induction ps rule: rev_induct)
  case Nil
  then show ?case by (simp add: handle_props_Nil PropsHandler_init_def kept_def List.map_filter_def)
next
  case (snoc p ps)
  then show ?case
    by (cases "HasSubIds c")
       (simp_all add: handle_props_snoc sub_ids_handle_prop map_filter_snoc kept_snoc split: option.split)
qed

lemma user_props_kept:
  "ph_userProps (handle_props c ps) =
     kept (UserPropsLimit c) (HasUserProps c) (List.map_filter user_prop_of ps)"
proof (induction ps rule: rev_induct)
  case Nil
  then show ?case by (simp add: handle_props_Nil PropsHandler_init_def kept_def List.map_filter_def)
next
  case (snoc p ps)
  then show ?case
    by (cases "HasUserProps c")
       (simp_all add: handle_props_snoc user_props_handle_prop map_filter_snoc kept_snoc split: option.split)
qed

lemma ptr_value_None_iff:
  "ptr_value (handle_props c ps) k \<noteq> None \<longleftrightarrow> k \<in> set (single_kinds ps)"
  by (induction ps rule: rev_induct)
     (auto simp: handle_props_snoc handle_props_Nil ptr_value_handle_prop ptr_value_init
       single_kinds_def map_filter_snoc List.map_filter_def split: option.split)

lemma kept_snoc_set:
  "0 \<in> set (kept limit feature (xs @ [x])) \<longleftrightarrow>
     0 \<in> set (kept limit feature xs) \<or>
     x = (0::nat) \<and> feature \<and> \<not> obj_list_full limit True (kept limit feature xs)"
  by (cases feature) (auto simp: kept_snoc)

lemma protocol_error_iff:
  "ph_protocolError (handle_props c ps) \<longleftrightarrow>
     \<not> distinct (single_kinds ps) \<or> (\<exists>p\<in>set ps. bad_value p) \<or>
     0 \<in> set (kept (SubIdsLimit c) (HasSubIds c) (List.map_filter sub_id_of ps))"
proof (induction ps rule: rev_induct)
  case Nil
  then show ?case
    by (simp add: handle_props_Nil PropsHandler_init_def kept_def List.map_filter_def single_kinds_def)
next
  case (snoc p ps)
  have d: "distinct (single_kinds (ps @ [p])) \<longleftrightarrow>
      distinct (single_kinds ps) \<and> (\<forall>k. kind_of p = Some k \<longrightarrow> k \<notin> set (single_kinds ps))"
    by (auto simp: single_kinds_def map_filter_snoc split: option.split)
  have k: "0 \<in> set (kept (SubIdsLimit c) (HasSubIds c) (List.map_filter sub_id_of (ps @ [p]))) \<longleftrightarrow>
      0 \<in> set (kept (SubIdsLimit c) (HasSubIds c) (List.map_filter sub_id_of ps)) \<or>
      sub_id_of p = Some 0 \<and> HasSubIds c \<and>
        \<not> obj_list_full (SubIdsLimit c) True
            (kept (SubIdsLimit c) (HasSubIds c) (List.map_filter sub_id_of ps))"
    by (auto simp: map_filter_snoc kept_snoc_set split: option.split)
  show ?case
    unfolding handle_props_snoc protocolError_handle_prop snoc.IH d k ptr_value_None_iff sub_ids_kept
    by auto
qed

lemma find_rev_unique:
  "distinct (single_kinds ps) \<Longrightarrow> kind_of p = Some k \<Longrightarrow>
     List.find (\<lambda>q. kind_of q = Some k) (rev ps) = Some p \<longleftrightarrow> p \<in> set ps"
proof (induction ps rule: rev_induct)
  case Nil
  then show ?case by simp
next
  case (snoc q ps)
  have notin: "p \<notin> set ps" if "kind_of q = Some k" "q \<noteq> p"
  proof
    assume "p \<in> set ps"
    then have "k \<in> set (single_kinds ps)"
      using snoc.prems(2) by (force simp: single_kinds_def List.map_filter_def)
    with that snoc.prems(1) show False by (simp add: single_kinds_def map_filter_snoc)
  qed
  from snoc.prems(1) have "distinct (single_kinds ps)"
    by (simp add: single_kinds_def map_filter_snoc)
  with snoc.IH snoc.prems(2) notin show ?case by auto
qed

section \<open>Properties\<close>

text \<open>
  C31: The property visitor reports a protocol error exactly when a property that MQTT
  allows once appears twice, a value is out of its range (a zero Receive Maximum or Maximum Packet Size,
  a Maximum QoS above 1, a flag other than 0 and 1), or one of the subscription identifiers
  it could store (a fixed-size list keeps the first \<^verbatim>\<open>SubIdsLimit\<close>) is zero.
\<close>

theorem props_protocol_error_iff:
  "isProtocolError (handle_props c ps) \<longleftrightarrow>
     \<not> distinct (single_kinds ps) \<or> (\<exists>p\<in>set ps. bad_value p) \<or>
     0 \<in> set (kept (SubIdsLimit c) (HasSubIds c) (List.map_filter sub_id_of ps))"
  by (simp add: isProtocolError_def protocol_error_iff)

theorem props_protocol_error_iff_witness:
  "isProtocolError (handle_props default_config [ReasonStr ''a'', TopicAlias 1, ReasonStr ''b''])"
  using props_protocol_error_iff [of default_config "[ReasonStr ''a'', TopicAlias 1, ReasonStr ''b'']"]
  by (simp add: single_kinds_def List.map_filter_simps)

text \<open>
  C32: Without a protocol error the pointer of every kind of property leads to the one
  property of that kind in the message, and is null exactly when there is none; the user
  properties handed to the application are those of the message in their order, cut at the
  limit of a fixed-size build.
\<close>

theorem props_pointers_exact:
  assumes "\<not> isProtocolError (handle_props c ps)" and "kind_of p = Some k"
  shows "(ptr_value (handle_props c ps) k = Some p) = (p \<in> set ps) \<and>
    fillUserProps c (handle_props c ps) =
      kept (UserPropsLimit c) (HasUserProps c) (List.map_filter user_prop_of ps)"
proof
  from assms(1) have "distinct (single_kinds ps)"
    by (simp add: isProtocolError_def protocol_error_iff)
  then show "(ptr_value (handle_props c ps) k = Some p) = (p \<in> set ps)"
    by (simp add: ptr_value_last find_rev_unique assms(2))
  have t: "take (min (length xs) n) xs = take n xs" for n and xs :: "'b list"
    by (simp add: min_def)
  show "fillUserProps c (handle_props c ps) =
      kept (UserPropsLimit c) (HasUserProps c) (List.map_filter user_prop_of ps)"
    by (auto simp: fillUserProps_def user_props_kept kept_def t)
qed

theorem props_pointers_exact_witness:
  "ptr_value (handle_props default_config [UserProperty ''a'' ''b'', TopicAlias 3]) Kind_topicAlias
     = Some (TopicAlias 3)"
  by (subst props_pointers_exact [THEN conjunct1])
     (simp_all add: handle_props_def isProtocolError_def storeProp_def PropsHandler_init_def
       default_config_def obj_list_full_def)


end
