(* ===== verification/Client_State.thy ===== *)
theory Client_State
  imports Timer_Mgr Packet_Ids Props_Handler
begin

text \<open>
  The data of the client: the messages it exchanges, the operation objects
  (\<^verbatim>\<open>client/lib/src/op/*.h\<close>), \<^verbatim>\<open>ClientState\<close>, \<^verbatim>\<open>SessionState\<close>, \<^verbatim>\<open>ReuseState\<close> and
  the members of \<^verbatim>\<open>ClientImpl\<close> (\<^verbatim>\<open>client/lib/src/ClientImpl.h\<close>).
  An operation object is named by a number that is never used again, its address in the
  code; the owning lists hold the objects, \<^verbatim>\<open>m_ops\<close> the pointers to them, where
  \<^term>\<open>None\<close> is a nullified pointer.
  What the client does to the outside (bytes handed to the network, callbacks of the
  application) is recorded as a list of events; the callbacks themselves do not call back
  into the client. An access the language leaves undefined sets \<^verbatim>\<open>cl_fault\<close>.
\<close>

section \<open>Messages\<close>

text \<open>
  The fields of \<^verbatim>\<open>PublishMsg\<close> that the library reads and writes. The packet identifier
  is an optional field whose value the code reads also when it does not exist.
\<close>

record publish_msg =
  pm_dup :: bool
  pm_qos :: qos
  pm_retain :: bool
  pm_topic :: cstr
  pm_packetId :: "16 word"
  pm_packetIdExists :: bool
  pm_props :: "property list"
  pm_payload :: bytes

text \<open>
  The acknowledgements PUBACK, PUBREC, PUBREL and PUBCOMP: optional reason code and
  properties, and what \<^verbatim>\<open>doValid()\<close> reports of the fixed header.
\<close>

record ack_msg =
  am_packetId :: "16 word"
  am_reasonCode :: "reason_code option"
  am_props :: "property list option"
  am_valid :: bool

record disconnect_msg =
  dm_reasonCode :: "reason_code option"
  dm_props :: "property list option"
  dm_valid :: bool

record suback_msg =
  sa_packetId :: "16 word"
  sa_props :: "property list"
  sa_list :: "reason_code list"

record sub_element =
  se_topic :: cstr
  se_qos :: qos
  se_noLocal :: bool
  se_retainAsPublished :: bool
  se_retainHandling :: nat

record subscribe_msg =
  sm_packetId :: "16 word"
  sm_props :: "property list"
  sm_list :: "sub_element list"

record unsubscribe_msg =
  um_packetId :: "16 word"
  um_props :: "property list"
  um_list :: "cstr list"

text \<open>CONNECT, with the values of the fields that its flags make optional, CONNACK and AUTH.\<close>

record connect_msg =
  cm_cleanStart :: bool
  cm_clientId :: cstr
  cm_userNameFlag :: bool
  cm_userName :: cstr
  cm_passwordFlag :: bool
  cm_password :: bytes
  cm_keepAlive :: nat
  cm_willFlag :: bool
  cm_willQos :: qos
  cm_willRetain :: bool
  cm_willTopic :: cstr
  cm_willMessage :: bytes
  cm_willProps :: "property list"
  cm_props :: "property list"

record connack_msg =
  ca_reasonCode :: reason_code
  ca_sessionPresent :: bool
  ca_props :: "property list"

record auth_msg =
  au_reasonCode :: "reason_code option"
  au_props :: "property list option"
  au_valid :: bool

datatype out_msg =
    Publish_Out publish_msg
  | Connect_Out connect_msg
  | Auth_Out reason_code "property list"
  | Puback_Out "16 word" "reason_code option"
  | Pubrec_Out "16 word" "reason_code option"
  | Pubrel_Out "16 word" "reason_code option"
  | Pubcomp_Out "16 word" "reason_code option"
  | Pingreq_Out
  | Disconnect_Out "reason_code option" "property list option"
  | Subscribe_Out subscribe_msg
  | Unsubscribe_Out unsubscribe_msg

datatype in_msg =
    Publish_In publish_msg
  | Puback_In ack_msg
  | Pubrec_In ack_msg
  | Pubrel_In ack_msg
  | Pubcomp_In ack_msg
  | Pingresp_In
  | Disconnect_In disconnect_msg
  | Suback_In suback_msg
  | Unsuback_In suback_msg
  | Connack_In connack_msg
  | Auth_In auth_msg

section \<open>The build\<close>

text \<open>
  \<^verbatim>\<open>CC_Mqtt5AuthInfo\<close>, passed to the authentication callback and, with pointers that may be
  null, filled by it; and \<^verbatim>\<open>CC_Mqtt5AuthErrorCode\<close>.
\<close>

record auth_info =
  ai_authData :: bytes
  ai_reasonStr :: "cstr option"
  ai_userProps :: "(cstr \<times> cstr) list"

record auth_reply =
  ar_authData :: "bytes option"
  ar_authDataLen :: nat
  ar_reasonStr :: "cstr option"
  ar_userProps :: "(cstr option \<times> cstr option) list option"
  ar_userPropsCount :: nat

datatype auth_error = AuthErrorCode_Continue | AuthErrorCode_Disconnect

text \<open>
  What the code takes from outside the repository: the compile-time configuration, and of
  the generated \<^verbatim>\<open>cc_mqtt5\<close> library the serialised length of a message, whether writing it
  succeeds, the value of a default-constructed packet identifier field, the greatest length of
  a fixed header (\<^verbatim>\<open>Layer_idAndFlags\<close> and \<^verbatim>\<open>Layer_size\<close>), and the capacity
  of the lists inside outgoing messages; and of the application its authentication callback.
\<close>

record build =
  b_config :: config
  frame_length :: "out_msg \<Rightarrow> nat"
  frame_write_ok :: "out_msg \<Rightarrow> bool"
  default_packet_id :: "16 word"
  publish_props_cap :: props_capacity
  disconnect_props_cap :: props_capacity
  subscribe_props_cap :: props_capacity
  unsubscribe_props_cap :: props_capacity
  subscribe_list_cap :: props_capacity
  unsubscribe_list_cap :: props_capacity
  suback_codes_cap :: props_capacity
  unsuback_codes_cap :: props_capacity
  connect_props_cap :: props_capacity
  will_props_cap :: props_capacity
  auth_props_cap :: props_capacity
  max_prefix_length :: nat
  auth_cb :: "auth_info \<Rightarrow> auth_error \<times> auth_reply"

section \<open>What the application sees\<close>

record publish_response =
  pr_reasonCode :: reason_code
  pr_reasonStr :: "cstr option"
  pr_userProps :: "(cstr \<times> cstr) list"

record sub_response =
  sr_reasonCodes :: "reason_code list"
  sr_reasonStr :: "cstr option"
  sr_userProps :: "(cstr \<times> cstr) list"

record disconnect_info =
  di_reasonCode :: reason_code
  di_reasonStr :: "cstr option"
  di_serverRef :: "cstr option"
  di_userProps :: "(cstr \<times> cstr) list"

record connect_response =
  cr_reasonCode :: reason_code
  cr_assignedClientId :: "cstr option"
  cr_responseInfo :: "cstr option"
  cr_reasonStr :: "cstr option"
  cr_serverRef :: "cstr option"
  cr_authData :: bytes
  cr_userProps :: "(cstr \<times> cstr) list"
  cr_sessionExpiryInterval :: nat
  cr_highQosSendLimit :: nat
  cr_maxPacketSize :: nat
  cr_topicAliasMax :: nat
  cr_maxQos :: qos
  cr_sessionPresent :: bool
  cr_retainAvailable :: bool
  cr_wildcardSubAvailable :: bool
  cr_subIdsAvailable :: bool
  cr_sharedSubsAvailable :: bool

record message_info =
  mi_topic :: cstr
  mi_data :: bytes
  mi_responseTopic :: "cstr option"
  mi_correlationData :: bytes
  mi_userProps :: "(cstr \<times> cstr) list"
  mi_contentType :: "cstr option"
  mi_subIds :: "nat list"
  mi_messageExpiryInterval :: nat
  mi_qos :: qos
  mi_format :: nat
  mi_retained :: bool

type_synonym op_id = nat

datatype event =
    Ev_Output out_msg
  | Ev_PublishComplete op_id async_status "publish_response option"
  | Ev_SubscribeComplete op_id async_status "sub_response option"
  | Ev_UnsubscribeComplete op_id async_status "sub_response option"
  | Ev_ConnectComplete async_status "connect_response option"
  | Ev_ReauthComplete async_status "auth_info option"
  | Ev_BrokerDisconnected broker_disconnect_reason "disconnect_info option"
  | Ev_MessageReceived message_info
  | Ev_AuthCallback auth_info
  | Ev_CancelNextTickWait
  | Ev_NextTickProgram "32 word"

datatype fault =
    Null_Deref | Use_After_Free | Iterator_Invalidated | Out_Of_Range | No_Return | Fuel_Exhausted

section \<open>Operation objects\<close>

datatype op_type =
    Type_Connect | Type_KeepAlive | Type_Disconnect | Type_Subscribe | Type_Unsubscribe
  | Type_Recv | Type_Send | Type_Reauth

type_synonym op_ref = "op_type \<times> op_id"

text \<open>Callbacks registered with timers, with the object they are called on.\<close>

datatype timer_cb =
    Cb_SessionExpiry
  | Cb_SendPing op_id
  | Cb_KeepAliveRecv op_id
  | Cb_PingTimeout op_id
  | Cb_SendResponse op_id
  | Cb_RecvResponse op_id
  | Cb_OpTimeout op_type op_id

type_synonym timer_idx = nat

record send_op =
  so_id :: op_id
  so_responseTimer :: timer_idx
  so_responseTimeoutMs :: nat
  so_pubMsg :: publish_msg
  so_cb :: bool
  so_totalSendAttempts :: nat
  so_sendAttempts :: nat
  so_reasonCode :: reason_code
  so_published :: bool
  so_acked :: bool
  so_registeredAlias :: bool
  so_topicConfigured :: bool
  so_paused :: bool

record recv_op =
  ro_id :: op_id
  ro_responseTimer :: timer_idx
  ro_packetId :: "16 word"

record keep_alive_op =
  ko_id :: op_id
  ko_pingTimer :: timer_idx
  ko_recvTimer :: timer_idx
  ko_respTimer :: timer_idx

record disconnect_op =
  do_id :: op_id
  do_reasonCode :: reason_code
  do_propsExist :: bool
  do_props :: "property list"

record subscribe_op =
  sub_id :: op_id
  sub_timer :: timer_idx
  sub_responseTimeoutMs :: nat
  sub_msg :: subscribe_msg
  sub_cb :: bool

record unsubscribe_op =
  uns_id :: op_id
  uns_timer :: timer_idx
  uns_responseTimeoutMs :: nat
  uns_msg :: unsubscribe_msg
  uns_cb :: bool

text \<open>\<^verbatim>\<open>ConnectOp\<close> and \<^verbatim>\<open>ReauthOp\<close>, with the members they have in common first.\<close>

record handshake_op =
  hs_id :: op_id
  hs_timer :: timer_idx
  hs_responseTimeoutMs :: nat
  hs_cb :: bool
  hs_authCb :: bool

record connect_op = handshake_op +
  co_msg :: connect_msg
  co_authMethod :: cstr
  co_sessionExpiryInterval :: nat
  co_maxRecvPacketSize :: nat
  co_highQosRecvLimit :: nat
  co_requestProblemInfo :: bool

record reauth_op = handshake_op +
  re_reasonCode :: "reason_code option"
  re_props :: "property list"

section \<open>The state of the client\<close>

record topic_alias_info =
  ta_topic :: cstr
  ta_alias :: nat
  ta_lowQosRegRemCount :: nat

record client_state = packet_id_state +
  m_sendTopicAliases :: "topic_alias_info list"
  m_inFlightSends :: nat
  m_initialized :: bool
  m_firstConnect :: bool
  m_networkDisconnected :: bool

record session_state =
  m_recvTopicAliases :: "cstr list"
  m_sendTopicFreeAliases :: "nat list"
  m_authMethod :: cstr
  m_sessionExpiryIntervalMs :: "64 word"
  m_connectSessionExpiryInterval :: nat
  m_keepAliveMs :: "32 word"
  m_highQosSendLimit :: nat
  m_highQosRecvLimit :: nat
  m_maxRecvTopicAlias :: nat
  m_maxSendTopicAlias :: nat
  m_maxRecvPacketSize :: nat
  m_maxSendPacketSize :: nat
  m_pubMaxQos :: qos
  m_problemInfoAllowed :: bool
  m_connected :: bool
  m_disconnecting :: bool
  m_wildcardSubAvailable :: bool
  m_subIdsAvailable :: bool
  m_retainAvailable :: bool
  m_sharedSubsAvailable :: bool

definition ClientState_init :: client_state where
  "ClientState_init =
     \<lparr>m_allocatedPacketIds = [], m_lastPacketId = 0, m_sendTopicAliases = [],
      m_inFlightSends = 0, m_initialized = False, m_firstConnect = True,
      m_networkDisconnected = False\<rparr>"

definition SessionState_init :: session_state where
  "SessionState_init =
     \<lparr>m_recvTopicAliases = [], m_sendTopicFreeAliases = [], m_authMethod = [],
      m_sessionExpiryIntervalMs = 0, m_connectSessionExpiryInterval = 0, m_keepAliveMs = 0,
      m_highQosSendLimit = 0, m_highQosRecvLimit = 0, m_maxRecvTopicAlias = 0,
      m_maxSendTopicAlias = 0, m_maxRecvPacketSize = 0, m_maxSendPacketSize = 0,
      m_pubMaxQos = ExactlyOnce, m_problemInfoAllowed = False, m_connected = False,
      m_disconnecting = False, m_wildcardSubAvailable = False, m_subIdsAvailable = False,
      m_retainAvailable = False, m_sharedSubsAvailable = False\<rparr>"

record client =
  m_nextTickProgramCb :: bool
  m_cancelNextTickWaitCb :: bool
  m_sendOutputDataCb :: bool
  m_brokerDisconnectReportCb :: bool
  m_messageReceivedReportCb :: bool
  m_configState :: config_state
  m_clientState :: client_state
  m_sessionState :: session_state
  m_subFilters :: "cstr list"
  m_timerMgr :: "timer_cb timer_mgr"
  m_apiEnterCount :: nat
  m_connectOps :: "connect_op list"
  m_keepAliveOps :: "keep_alive_op list"
  m_disconnectOps :: "disconnect_op list"
  m_subscribeOps :: "subscribe_op list"
  m_unsubscribeOps :: "unsubscribe_op list"
  m_recvOps :: "recv_op list"
  m_sendOps :: "send_op list"
  m_reauthOps :: "reauth_op list"
  m_ops :: "op_ref option list"
  m_sessionExpiryTimer :: timer_idx
  m_opsDeleted :: bool
  m_preparationLocked :: bool
  cl_nextId :: op_id
  cl_events :: "event list"
  cl_fault :: "fault option"

text \<open>The constructor \<^verbatim>\<open>ClientImpl()\<close>, before the application has set its callbacks.\<close>

definition ClientImpl_init :: "build \<Rightarrow> client" where
  "ClientImpl_init b =
     (let (idx, tm) = allocTimer (b_config b) TimerMgr_init in
      \<lparr>m_nextTickProgramCb = False, m_cancelNextTickWaitCb = False,
       m_sendOutputDataCb = False, m_brokerDisconnectReportCb = False,
       m_messageReceivedReportCb = False, m_configState = ConfigState_init (b_config b),
       m_clientState = ClientState_init, m_sessionState = SessionState_init,
       m_subFilters = [], m_timerMgr = tm, m_apiEnterCount = 0, m_connectOps = [],
       m_keepAliveOps = [], m_disconnectOps = [], m_subscribeOps = [], m_unsubscribeOps = [],
       m_recvOps = [], m_sendOps = [], m_reauthOps = [], m_ops = [],
       m_sessionExpiryTimer = idx, m_opsDeleted = False, m_preparationLocked = False,
       cl_nextId = 0, cl_events = [], cl_fault = None\<rparr>)"

text \<open>The functions \<^verbatim>\<open>setSendOutputDataCallback\<close> and so on, all callbacks set at once.\<close>

definition with_callbacks :: "bool \<Rightarrow> client \<Rightarrow> client" where
  "with_callbacks timers cl =
     cl\<lparr>m_nextTickProgramCb := timers, m_cancelNextTickWaitCb := timers,
        m_sendOutputDataCb := True, m_brokerDisconnectReportCb := True,
        m_messageReceivedReportCb := True\<rparr>"

section \<open>Elementary effects\<close>

definition emit :: "event \<Rightarrow> client \<Rightarrow> client" where
  "emit ev cl = cl\<lparr>cl_events := cl_events cl @ [ev]\<rparr>"

definition fault :: "fault \<Rightarrow> client \<Rightarrow> client" where
  "fault f cl = (if cl_fault cl = None then cl\<lparr>cl_fault := Some f\<rparr> else cl)"

definition on_timers ::
  "(timer_cb timer_mgr \<Rightarrow> timer_cb timer_mgr) \<Rightarrow> client \<Rightarrow> client" where
  "on_timers f cl = cl\<lparr>m_timerMgr := f (m_timerMgr cl)\<rparr>"

definition on_client_state :: "(client_state \<Rightarrow> client_state) \<Rightarrow> client \<Rightarrow> client" where
  "on_client_state f cl = cl\<lparr>m_clientState := f (m_clientState cl)\<rparr>"

definition on_session_state :: "(session_state \<Rightarrow> session_state) \<Rightarrow> client \<Rightarrow> client" where
  "on_session_state f cl = cl\<lparr>m_sessionState := f (m_sessionState cl)\<rparr>"

text \<open>The object of a pointer in a list of owned objects, and writing to it.\<close>

definition op_at :: "('o \<Rightarrow> op_id) \<Rightarrow> op_id \<Rightarrow> 'o list \<Rightarrow> 'o option" where
  "op_at oid i xs = List.find (\<lambda>x. oid x = i) xs"

definition upd_op :: "('o \<Rightarrow> op_id) \<Rightarrow> op_id \<Rightarrow> ('o \<Rightarrow> 'o) \<Rightarrow> 'o list \<Rightarrow> 'o list" where
  "upd_op oid i f xs = map (\<lambda>x. if oid x = i then f x else x) xs"

definition send_op_at :: "op_id \<Rightarrow> client \<Rightarrow> send_op option" where
  "send_op_at i cl = op_at so_id i (m_sendOps cl)"

definition upd_send :: "op_id \<Rightarrow> (send_op \<Rightarrow> send_op) \<Rightarrow> client \<Rightarrow> client" where
  "upd_send i f cl = cl\<lparr>m_sendOps := upd_op so_id i f (m_sendOps cl)\<rparr>"

definition recv_op_at :: "op_id \<Rightarrow> client \<Rightarrow> recv_op option" where
  "recv_op_at i cl = op_at ro_id i (m_recvOps cl)"

definition upd_recv :: "op_id \<Rightarrow> (recv_op \<Rightarrow> recv_op) \<Rightarrow> client \<Rightarrow> client" where
  "upd_recv i f cl = cl\<lparr>m_recvOps := upd_op ro_id i f (m_recvOps cl)\<rparr>"

definition keep_alive_op_at :: "op_id \<Rightarrow> client \<Rightarrow> keep_alive_op option" where
  "keep_alive_op_at i cl = op_at ko_id i (m_keepAliveOps cl)"

end
