(* ===== verification/Client_Core.thy ===== *)
theory Client_Core
  imports Client_State "HOL-Library.Sublist"
begin

text \<open>
  The centre of \<^verbatim>\<open>ClientImpl\<close> (\<^verbatim>\<open>client/lib/src/ClientImpl.cpp\<close>) and the part of
  \<^verbatim>\<open>SendOp\<close> (\<^verbatim>\<open>client/lib/src/op/SendOp.cpp\<close>) it calls back: sending a message, completing an
  operation, resuming the paused publishes, terminating the operations and losing the
  connection.
  Completing a publish resumes the paused ones, a resumed QoS 0 publish completes at once, and its
  completion resumes again: the functions on the way are written over the resumption
  they call, and \<^verbatim>\<open>resumeSendOpsSince\<close> ties the knot with fuel.
\<close>

section \<open>Sending a message\<close>

definition restartPingTimer :: "keep_alive_op \<Rightarrow> client \<Rightarrow> client" where
  "restartPingTimer op cl =
     (let ms = m_keepAliveMs (m_sessionState cl) in
      if ms = 0 then cl
      else on_timers (timerWait (ko_pingTimer op) (ucast ms) (Cb_SendPing (ko_id op))) cl)"

definition messageSent :: "keep_alive_op \<Rightarrow> client \<Rightarrow> client" where
  "messageSent op cl = restartPingTimer op cl"

definition sendMessage :: "build \<Rightarrow> out_msg \<Rightarrow> client \<Rightarrow> error_code \<times> client" where
  "sendMessage b msg cl =
     (let len = frame_length b msg; limit = m_maxSendPacketSize (m_sessionState cl);
          maxSize = MaxOutputPacketSize (b_config b) in
      if 0 < limit \<and> limit < len then (EC_BadParam, cl)
      else if 0 < maxSize \<and> maxSize < len then (EC_BufferOverflow, cl)
      else if \<not> frame_write_ok b msg then (EC_InternalError, cl)
      else (EC_Success, fold messageSent (m_keepAliveOps cl) (emit (Ev_Output msg) cl)))"

definition sendDisconnectMsg :: "build \<Rightarrow> reason_code \<Rightarrow> client \<Rightarrow> client" where
  "sendDisconnectMsg b reason cl =
     snd (sendMessage b (Disconnect_Out (Some reason) (Some [])) cl)"

definition sendDisconnectWithReason :: "build \<Rightarrow> reason_code \<Rightarrow> client \<Rightarrow> client" where
  "sendDisconnectWithReason b reason cl =
     snd (sendMessage b (Disconnect_Out (Some reason) (Some [])) cl)"

section \<open>Completing an operation\<close>

definition destroy_timer :: "timer_idx \<Rightarrow> client \<Rightarrow> client" where
  "destroy_timer idx cl = on_timers (Timer_destroy idx) cl"

definition release_id :: "16 word \<Rightarrow> client \<Rightarrow> client" where
  "release_id i cl = on_client_state (releasePacketId i) cl"

text \<open>
  \<^verbatim>\<open>eraseFromList\<close>: the position of the object, and the list without it; the destructor of
  the erased object runs, releasing its packet identifier and its timers.
\<close>

definition eraseFromList :: "('o \<Rightarrow> op_id) \<Rightarrow> op_id \<Rightarrow> 'o list \<Rightarrow> nat \<times> 'o list" where
  "eraseFromList oid i xs = (let idx = find_idx (\<lambda>x. oid x = i) xs in (idx, erase_at idx xs))"

definition destroy_SendOp :: "send_op \<Rightarrow> client \<Rightarrow> client" where
  "destroy_SendOp op cl =
     destroy_timer (so_responseTimer op) (release_id (pm_packetId (so_pubMsg op)) cl)"

definition opComplete_Connect :: "op_id \<Rightarrow> client \<Rightarrow> client" where
  "opComplete_Connect i cl =
     (case op_at hs_id i (m_connectOps cl) of
        None \<Rightarrow> cl
      | Some op \<Rightarrow>
          destroy_timer (hs_timer op)
            (cl\<lparr>m_connectOps := snd (eraseFromList hs_id i (m_connectOps cl))\<rparr>))"

definition opComplete_KeepAlive :: "op_id \<Rightarrow> client \<Rightarrow> client" where
  "opComplete_KeepAlive i cl =
     (case op_at ko_id i (m_keepAliveOps cl) of
        None \<Rightarrow> cl
      | Some op \<Rightarrow>
          destroy_timer (ko_pingTimer op) (destroy_timer (ko_recvTimer op) (destroy_timer (ko_respTimer op)
            (cl\<lparr>m_keepAliveOps := snd (eraseFromList ko_id i (m_keepAliveOps cl))\<rparr>))))"

definition opComplete_Disconnect :: "op_id \<Rightarrow> client \<Rightarrow> client" where
  "opComplete_Disconnect i cl =
     cl\<lparr>m_disconnectOps := snd (eraseFromList do_id i (m_disconnectOps cl))\<rparr>"

definition opComplete_Subscribe :: "op_id \<Rightarrow> client \<Rightarrow> client" where
  "opComplete_Subscribe i cl =
     (case op_at sub_id i (m_subscribeOps cl) of
        None \<Rightarrow> cl
      | Some op \<Rightarrow>
          destroy_timer (sub_timer op) (release_id (sm_packetId (sub_msg op))
            (cl\<lparr>m_subscribeOps := snd (eraseFromList sub_id i (m_subscribeOps cl))\<rparr>)))"

definition opComplete_Unsubscribe :: "op_id \<Rightarrow> client \<Rightarrow> client" where
  "opComplete_Unsubscribe i cl =
     (case op_at uns_id i (m_unsubscribeOps cl) of
        None \<Rightarrow> cl
      | Some op \<Rightarrow>
          destroy_timer (uns_timer op) (release_id (um_packetId (uns_msg op))
            (cl\<lparr>m_unsubscribeOps := snd (eraseFromList uns_id i (m_unsubscribeOps cl))\<rparr>)))"

definition opComplete_Recv :: "op_id \<Rightarrow> client \<Rightarrow> client" where
  "opComplete_Recv i cl =
     (case op_at ro_id i (m_recvOps cl) of
        None \<Rightarrow> cl
      | Some op \<Rightarrow>
          destroy_timer (ro_responseTimer op)
            (cl\<lparr>m_recvOps := snd (eraseFromList ro_id i (m_recvOps cl))\<rparr>))"

definition opComplete_Reauth :: "op_id \<Rightarrow> client \<Rightarrow> client" where
  "opComplete_Reauth i cl =
     (case op_at hs_id i (m_reauthOps cl) of
        None \<Rightarrow> cl
      | Some op \<Rightarrow>
          destroy_timer (hs_timer op)
            (cl\<lparr>m_reauthOps := snd (eraseFromList hs_id i (m_reauthOps cl))\<rparr>))"

text \<open>
  From here on \<^term>\<open>rs\<close> is the resumption of the paused publishes from an index on.
\<close>

type_synonym resumption = "nat \<Rightarrow> client \<Rightarrow> client"

definition opComplete_Send :: "resumption \<Rightarrow> op_id \<Rightarrow> client \<Rightarrow> client" where
  "opComplete_Send rs i cl =
     (case send_op_at i cl of
        None \<Rightarrow> cl
      | Some op \<Rightarrow>
          let (idx, sends) = eraseFromList so_id i (m_sendOps cl);
              cl1 = destroy_SendOp op (cl\<lparr>m_sendOps := sends\<rparr>)
          in if m_disconnecting (m_sessionState cl1) then cl1 else rs idx cl1)"

definition opComplete_with :: "resumption \<Rightarrow> op_ref \<Rightarrow> client \<Rightarrow> client" where
  "opComplete_with rs ref cl =
     (let k = find_idx (\<lambda>p. p = Some ref) (m_ops cl) in
      if length (m_ops cl) \<le> k then cl
      else
        let cl1 = cl\<lparr>m_ops := (m_ops cl)[k := None], m_opsDeleted := True\<rparr>; i = snd ref in
        case fst ref of
          Type_Connect \<Rightarrow> opComplete_Connect i cl1
        | Type_KeepAlive \<Rightarrow> opComplete_KeepAlive i cl1
        | Type_Disconnect \<Rightarrow> opComplete_Disconnect i cl1
        | Type_Subscribe \<Rightarrow> opComplete_Subscribe i cl1
        | Type_Unsubscribe \<Rightarrow> opComplete_Unsubscribe i cl1
        | Type_Recv \<Rightarrow> opComplete_Recv i cl1
        | Type_Send \<Rightarrow> opComplete_Send rs i cl1
        | Type_Reauth \<Rightarrow> opComplete_Reauth i cl1)"

section \<open>Publishing: completion, sending, resuming\<close>

definition SendOp_opCompleteInternal :: "resumption \<Rightarrow> op_id \<Rightarrow> client \<Rightarrow> client" where
  "SendOp_opCompleteInternal rs i cl =
     (case send_op_at i cl of
        None \<Rightarrow> fault Use_After_Free cl
      | Some op \<Rightarrow>
          let cl1 = (if so_published op
                     then on_client_state (\<lambda>s. s\<lparr>m_inFlightSends := dec_u32 (m_inFlightSends s)\<rparr>) cl
                     else cl)
          in opComplete_with rs (Type_Send, i) cl1)"

definition SendOp_completeWithCb ::
  "resumption \<Rightarrow> op_id \<Rightarrow> async_status \<Rightarrow> publish_response option \<Rightarrow> client \<Rightarrow> client" where
  "SendOp_completeWithCb rs i status response cl =
     (case send_op_at i cl of
        None \<Rightarrow> fault Use_After_Free cl
      | Some op \<Rightarrow>
          let cl1 = SendOp_opCompleteInternal rs i cl in
          if \<not> so_cb op then cl1 else emit (Ev_PublishComplete i status response) cl1)"

definition SendOp_restartResponseTimer :: "op_id \<Rightarrow> client \<Rightarrow> client" where
  "SendOp_restartResponseTimer i cl =
     (case send_op_at i cl of
        None \<Rightarrow> fault Use_After_Free cl
      | Some op \<Rightarrow>
          on_timers (timerWait (so_responseTimer op)
            (of_nat (m_responseTimeoutMs (m_configState cl))) (Cb_SendResponse i)) cl)"

definition doSendInternal :: "resumption \<Rightarrow> build \<Rightarrow> op_id \<Rightarrow> client \<Rightarrow> error_code \<times> client" where
  "doSendInternal rs b i cl =
     (case send_op_at i cl of
        None \<Rightarrow> (EC_InternalError, fault Use_After_Free cl)
      | Some op \<Rightarrow>
          let cl1 = upd_send i (\<lambda>p. p\<lparr>so_sendAttempts := 0\<rparr>) cl;
              (result, cl2) = sendMessage b (Publish_Out (so_pubMsg op)) cl1
          in if result \<noteq> EC_Success then (result, cl2)
             else
               let cl3 = (if \<not> so_published op
                          then on_client_state (\<lambda>s. s\<lparr>m_inFlightSends := Suc (m_inFlightSends s)\<rparr>)
                                 (upd_send i (\<lambda>p. p\<lparr>so_published := True\<rparr>) cl2)
                          else cl2);
                   cl4 = upd_send i (\<lambda>p. p\<lparr>so_sendAttempts := Suc (so_sendAttempts p)\<rparr>) cl3
               in if pm_qos (so_pubMsg op) = AtMostOnce
                  then (EC_Success, SendOp_completeWithCb rs i St_Complete None cl4)
                  else (EC_Success, SendOp_restartResponseTimer i cl4))"

text \<open>
  \<^verbatim>\<open>hasPausedSendsBefore\<close> looks at the operation right before this one;
  \<^verbatim>\<open>hasHigherQosSendsBefore\<close> at all before it.
\<close>

definition hasPausedSendsBefore :: "op_id \<Rightarrow> send_op list \<Rightarrow> bool" where
  "hasPausedSendsBefore i sends =
     (let ridx = find_idx (\<lambda>op. so_id op = i) (rev sends) in
      if length sends \<le> ridx then False
      else
        let idx = length sends - 1 - ridx in
        if idx = 0 then False else so_paused (sends ! (idx - 1)))"

fun hasHigherQosSendsBefore :: "op_id \<Rightarrow> qos \<Rightarrow> send_op list \<Rightarrow> bool" where
  "hasHigherQosSendsBefore i q [] = False"
| "hasHigherQosSendsBefore i q (op # ops) =
     (if so_id op = i then False
      else if q < pm_qos (so_pubMsg op) then True
      else hasHigherQosSendsBefore i q ops)"

definition canSend :: "send_op \<Rightarrow> client \<Rightarrow> bool" where
  "canSend op cl =
     (let reachedLimit = m_highQosSendLimit (m_sessionState cl) \<le> m_inFlightSends (m_clientState cl);
          q = pm_qos (so_pubMsg op); ordering = m_publishOrdering (m_configState cl) in
      if reachedLimit then q = AtMostOnce \<and> ordering = Ordering_SameQos
      else if ordering = Ordering_SameQos then True
      else \<not> (hasPausedSendsBefore (so_id op) (m_sendOps cl) \<or>
               hasHigherQosSendsBefore (so_id op) q (m_sendOps cl)))"

definition SendOp_resume :: "resumption \<Rightarrow> build \<Rightarrow> op_id \<Rightarrow> client \<Rightarrow> bool \<times> client" where
  "SendOp_resume rs b i cl =
     (case send_op_at i cl of
        None \<Rightarrow> (False, fault Use_After_Free cl)
      | Some op \<Rightarrow>
          if \<not> so_paused op then (False, cl)
          else if \<not> canSend op cl then (False, cl)
          else
            let (ec, cl1) = doSendInternal rs b i (upd_send i (\<lambda>p. p\<lparr>so_paused := False\<rparr>) cl) in
            if ec = EC_Success then (True, cl1)
            else
              let cbStatus = (if ec = EC_BadParam then St_BadParam
                              else if ec = EC_BufferOverflow then St_OutOfMemory
                              else St_InternalError)
              in (True, SendOp_completeWithCb rs i cbStatus None cl1))"

text \<open>
  The loop of \<^verbatim>\<open>resumeSendOpsSince\<close>, with the resumption nested in the completion of an
  operation running on the rest of the fuel.
\<close>

fun resumeSendOpsSince :: "nat \<Rightarrow> build \<Rightarrow> nat \<Rightarrow> client \<Rightarrow> client" where
  "resumeSendOpsSince 0 b idx cl = fault Fuel_Exhausted cl"
| "resumeSendOpsSince (Suc n) b idx cl =
     (if idx < length (m_sendOps cl) then
        let op = m_sendOps cl ! idx in
        if \<not> so_paused op then resumeSendOpsSince n b (idx + 1) cl
        else
          let (resumed, cl1) = SendOp_resume (resumeSendOpsSince n b) b (so_id op) cl in
          if \<not> resumed then cl1 else resumeSendOpsSince n b idx cl1
      else cl)"

text \<open>
  Enough fuel: every turn either passes an operation or leaves fewer paused operations.
\<close>

definition paused_count :: "client \<Rightarrow> nat" where
  "paused_count cl = length (filter so_paused (m_sendOps cl))"

definition resume_fuel :: "client \<Rightarrow> nat" where
  "resume_fuel cl =
     (paused_count cl + 1) * (length (m_sendOps cl) + 1) + 1"

definition resumeSends :: "build \<Rightarrow> resumption" where
  "resumeSends b idx cl = resumeSendOpsSince (resume_fuel cl) b idx cl"

definition opComplete :: "build \<Rightarrow> op_ref \<Rightarrow> client \<Rightarrow> client" where
  "opComplete b = opComplete_with (resumeSends b)"


section \<open>Frames\<close>

text \<open>
  Sending touches the timers and the events only; so do the timer calls. The facts below
  say which members a helper leaves alone.
\<close>

lemma fold_messageSent:
  "\<exists>tm. fold messageSent ops cl = cl\<lparr>m_timerMgr := tm\<rparr>"
proof (induction ops arbitrary: cl)
  case Nil
  have "fold messageSent [] cl = cl\<lparr>m_timerMgr := m_timerMgr cl\<rparr>" by simp
  then show ?case by blast
next
  case (Cons op ops)
  have "\<exists>tm. messageSent op cl = cl\<lparr>m_timerMgr := tm\<rparr>"
  proof (cases "m_keepAliveMs (m_sessionState cl) = 0")
    case True
    then have "messageSent op cl = cl\<lparr>m_timerMgr := m_timerMgr cl\<rparr>"
      by (simp add: messageSent_def restartPingTimer_def)
    then show ?thesis by blast
  next
    case False
    then show ?thesis by (auto simp: messageSent_def restartPingTimer_def on_timers_def Let_def)
  qed
  then obtain tm where "messageSent op cl = cl\<lparr>m_timerMgr := tm\<rparr>" ..
  with Cons.IH [of "cl\<lparr>m_timerMgr := tm\<rparr>"] show ?case by auto
qed

lemma sendMessage_frame:
  obtains tm where
    "snd (sendMessage b msg cl) =
       cl\<lparr>cl_events := cl_events cl @ (if fst (sendMessage b msg cl) = EC_Success then [Ev_Output msg] else []),
          m_timerMgr := tm\<rparr>"
proof -
  have same: "cl = cl\<lparr>cl_events := cl_events cl, m_timerMgr := m_timerMgr cl\<rparr>" by simp
  show thesis
  proof (cases "fst (sendMessage b msg cl) = EC_Success")
    case False
    then have "snd (sendMessage b msg cl) = cl"
      by (auto simp: sendMessage_def Let_def split: if_splits)
    with False same that [of "m_timerMgr cl"] show thesis by simp
  next
    case True
    then have "snd (sendMessage b msg cl) = fold messageSent (m_keepAliveOps cl) (emit (Ev_Output msg) cl)"
      by (auto simp: sendMessage_def Let_def split: if_splits)
    with True fold_messageSent [of "m_keepAliveOps cl" "emit (Ev_Output msg) cl"] that
    show thesis by (auto simp: emit_def)
  qed
qed

lemma sendMessage_same [simp]:
  "m_sendOps (snd (sendMessage b msg cl)) = m_sendOps cl"
  "m_recvOps (snd (sendMessage b msg cl)) = m_recvOps cl"
  "m_keepAliveOps (snd (sendMessage b msg cl)) = m_keepAliveOps cl"
  "m_connectOps (snd (sendMessage b msg cl)) = m_connectOps cl"
  "m_disconnectOps (snd (sendMessage b msg cl)) = m_disconnectOps cl"
  "m_subscribeOps (snd (sendMessage b msg cl)) = m_subscribeOps cl"
  "m_unsubscribeOps (snd (sendMessage b msg cl)) = m_unsubscribeOps cl"
  "m_reauthOps (snd (sendMessage b msg cl)) = m_reauthOps cl"
  "m_ops (snd (sendMessage b msg cl)) = m_ops cl"
  "m_clientState (snd (sendMessage b msg cl)) = m_clientState cl"
  "m_sessionState (snd (sendMessage b msg cl)) = m_sessionState cl"
  "m_configState (snd (sendMessage b msg cl)) = m_configState cl"
  "m_subFilters (snd (sendMessage b msg cl)) = m_subFilters cl"
  "cl_nextId (snd (sendMessage b msg cl)) = cl_nextId cl"
  "cl_fault (snd (sendMessage b msg cl)) = cl_fault cl"
  "m_preparationLocked (snd (sendMessage b msg cl)) = m_preparationLocked cl"
  "m_apiEnterCount (snd (sendMessage b msg cl)) = m_apiEnterCount cl"
  "m_opsDeleted (snd (sendMessage b msg cl)) = m_opsDeleted cl"
  by (rule sendMessage_frame [of b msg cl]; simp)+

lemma sendMessage_events:
  "cl_events (snd (sendMessage b msg cl)) =
     cl_events cl @ (if fst (sendMessage b msg cl) = EC_Success then [Ev_Output msg] else [])"
  by (rule sendMessage_frame [of b msg cl]) simp

lemma upd_op_length [simp]: "length (upd_op oid i f xs) = length xs"
  by (simp add: upd_op_def)

lemma op_at_in: "op_at oid i xs = Some x \<Longrightarrow> x \<in> set xs \<and> oid x = i"
  by (auto simp: op_at_def find_Some_iff)

lemma op_at_None: "op_at oid i xs = None \<longleftrightarrow> i \<notin> oid ` set xs"
  by (auto simp: op_at_def find_None_iff)

lemma op_at_upd_op:
  "(\<And>x. oid (f x) = oid x) \<Longrightarrow>
     op_at oid j (upd_op oid i f xs) = (if i = j then map_option f (op_at oid j xs) else op_at oid j xs)"
  by (induction xs) (auto simp: op_at_def upd_op_def)

lemma find_idx_op: "op_at oid i xs = Some x \<Longrightarrow>
   find_idx (\<lambda>x. oid x = i) xs < length xs \<and> xs ! find_idx (\<lambda>x. oid x = i) xs = x"
  by (induction xs) (auto simp: op_at_def split: if_splits)

lemma eraseFromList_found:
  assumes "op_at oid i xs = Some x"
  shows "\<exists>ys zs. xs = ys @ x # zs \<and> i \<notin> oid ` set ys \<and> eraseFromList oid i xs = (length ys, ys @ zs)"
proof -
  let ?k = "find_idx (\<lambda>x. oid x = i) xs"
  from find_idx_op [OF assms] have k: "?k < length xs" "xs ! ?k = x" by auto
  have "xs = take ?k xs @ x # drop (Suc ?k) xs" using split_at_nth [OF k(1)] k(2) by simp
  moreover have "i \<notin> oid ` set (take ?k xs)"
  proof
    assume "i \<in> oid ` set (take ?k xs)"
    then obtain j where "j < ?k" "j < length xs" "oid (xs ! j) = i" by (auto simp: in_set_conv_nth)
    with find_idx_before [of j "\<lambda>x. oid x = i" xs] show False by simp
  qed
  moreover have "eraseFromList oid i xs = (length (take ?k xs), take ?k xs @ drop (Suc ?k) xs)"
    using k(1) by (simp add: eraseFromList_def Let_def erase_at_def)
  ultimately show ?thesis by blast
qed

section \<open>The resumption returns\<close>

definition shrinks :: "client \<Rightarrow> client \<Rightarrow> bool" where
  "shrinks cl' cl \<longleftrightarrow>
     paused_count cl' \<le> paused_count cl \<and>
     subseq (map so_id (m_sendOps cl')) (map so_id (m_sendOps cl))"

definition fuel_left :: "client \<Rightarrow> bool" where
  "fuel_left cl \<longleftrightarrow> cl_fault cl \<noteq> Some Fuel_Exhausted"

lemma shrinks_refl [simp]: "shrinks cl cl"
  by (simp add: shrinks_def)

lemma shrinks_trans: "shrinks a b \<Longrightarrow> shrinks b c \<Longrightarrow> shrinks a c"
  unfolding shrinks_def using subseq_order.order_trans le_trans by blast

lemma shrinks_length: "shrinks a b \<Longrightarrow> length (m_sendOps a) \<le> length (m_sendOps b)"
  unfolding shrinks_def using list_emb_length by fastforce

lemma shrinks_counts:
  "shrinks a b \<Longrightarrow> paused_count a \<le> paused_count b \<and> length (m_sendOps a) \<le> length (m_sendOps b)"
  using shrinks_length by (simp add: shrinks_def)

lemma shrinks_same_sends: "m_sendOps a = m_sendOps b \<Longrightarrow> shrinks a b"
  by (simp add: shrinks_def paused_count_def)

lemma shrinks_cong: "m_sendOps a = m_sendOps a' \<Longrightarrow> shrinks a b \<longleftrightarrow> shrinks a' b"
  by (simp add: shrinks_def paused_count_def)

lemma fuel_left_fault [simp]: "fuel_left (fault f cl) \<longleftrightarrow> fuel_left cl \<and> (f = Fuel_Exhausted \<longrightarrow> cl_fault cl \<noteq> None)"
  by (auto simp: fuel_left_def fault_def)

lemma elementary_sends [simp]:
  "m_sendOps (emit ev cl) = m_sendOps cl" "m_sendOps (fault f cl) = m_sendOps cl"
  "m_sendOps (on_timers g cl) = m_sendOps cl" "m_sendOps (on_client_state h cl) = m_sendOps cl"
  "m_sendOps (on_session_state k cl) = m_sendOps cl"
  "m_sendOps (destroy_timer t cl) = m_sendOps cl" "m_sendOps (release_id j cl) = m_sendOps cl"
  by (simp_all add: emit_def fault_def on_timers_def on_client_state_def on_session_state_def
      destroy_timer_def release_id_def)

lemma elementary_fault [simp]:
  "cl_fault (emit ev cl) = cl_fault cl" "cl_fault (on_timers g cl) = cl_fault cl"
  "cl_fault (on_client_state h cl) = cl_fault cl" "cl_fault (on_session_state k cl) = cl_fault cl"
  "cl_fault (destroy_timer t cl) = cl_fault cl" "cl_fault (release_id j cl) = cl_fault cl"
  "cl_fault (upd_send i f cl) = cl_fault cl" "cl_fault (upd_recv i g' cl) = cl_fault cl"
  by (simp_all add: emit_def on_timers_def on_client_state_def on_session_state_def
      destroy_timer_def release_id_def upd_send_def upd_recv_def)

lemma upd_send_sends: "m_sendOps (upd_send i f cl) = upd_op so_id i f (m_sendOps cl)"
  by (simp add: upd_send_def)

lemma upd_send_shrinks:
  "(\<And>p. so_paused (f p) \<longrightarrow> so_paused p) \<Longrightarrow> (\<And>p. so_id (f p) = so_id p) \<Longrightarrow>
     shrinks (upd_send i f cl) cl"
proof -
  assume f: "\<And>p. so_paused (f p) \<longrightarrow> so_paused p" and g: "\<And>p. so_id (f p) = so_id p"
  have "map so_id (upd_op so_id i f xs) = map so_id xs" for xs
    using g by (simp add: upd_op_def)
  moreover  have "length (filter so_paused (upd_op so_id i f xs)) \<le> length (filter so_paused xs)" for xs
    using f by (induction xs) (auto simp: upd_op_def)
  ultimately show ?thesis by (simp add: shrinks_def paused_count_def upd_send_sends)
qed

lemma unpause_decreases:
  assumes "send_op_at i cl = Some op" and "so_paused op"
  shows "paused_count (upd_send i (\<lambda>p. p\<lparr>so_paused := False\<rparr>) cl) < paused_count cl"
proof -
  let ?f = "\<lambda>p :: send_op. p\<lparr>so_paused := False\<rparr>"
  have le: "length (filter so_paused (upd_op so_id i ?f xs)) \<le> length (filter so_paused xs)" for xs
    by (induction xs) (auto simp: upd_op_def)
  have "op_at so_id i xs = Some op \<Longrightarrow>
      length (filter so_paused (upd_op so_id i ?f xs)) < length (filter so_paused xs)" for xs
  proof (induction xs)
    case (Cons x xs)
    show ?case
    proof (cases "so_id x = i")
      case True
      with Cons.prems have "x = op" by (simp add: op_at_def)
      with True le [of xs] assms(2) show ?thesis by (simp add: upd_op_def less_Suc_eq_le)
    next
      case False
      with Cons show ?thesis by (simp add: op_at_def upd_op_def)
    qed
  qed (simp add: op_at_def)
  then show ?thesis
    using assms(1) by (simp add: paused_count_def upd_send_sends send_op_at_def)
qed

text \<open>The two statements about a resumption: it shrinks the state, and it has the fuel for a size.\<close>

definition rs_shrinks :: "resumption \<Rightarrow> bool" where
  "rs_shrinks rs \<longleftrightarrow> (\<forall>idx cl. shrinks (rs idx cl) cl)"

definition rs_fuel :: "nat \<Rightarrow> nat \<Rightarrow> resumption \<Rightarrow> bool" where
  "rs_fuel p n rs \<longleftrightarrow>
     (\<forall>idx cl. paused_count cl \<le> p \<longrightarrow> length (m_sendOps cl) \<le> n \<longrightarrow> fuel_left cl \<longrightarrow> fuel_left (rs idx cl))"

text \<open>
  Completing a publish either leaves the publishes alone, or erases one and resumes.
\<close>

lemma opComplete_Send_cases:
  assumes "send_op_at i cl = Some op"
  shows "\<exists>cl1 idx. shrinks cl1 cl \<and> length (m_sendOps cl1) < length (m_sendOps cl) \<and>
    cl_fault cl1 = cl_fault cl \<and>
    (opComplete_Send rs i cl = cl1 \<or> opComplete_Send rs i cl = rs idx cl1)"
proof -
  obtain ys zs where xs: "m_sendOps cl = ys @ op # zs"
    and e: "eraseFromList so_id i (m_sendOps cl) = (length ys, ys @ zs)"
    using eraseFromList_found [OF assms [unfolded send_op_at_def]] by metis
  let ?cl1 = "destroy_SendOp op (cl\<lparr>m_sendOps := ys @ zs\<rparr>)"
  have s: "m_sendOps ?cl1 = ys @ zs" "cl_fault ?cl1 = cl_fault cl" by (simp_all add: destroy_SendOp_def)
  moreover have "subseq (map so_id ys @ map so_id zs) (map so_id ys @ so_id op # map so_id zs)"
    by (intro list_emb_append_mono) auto
  ultimately have "shrinks ?cl1 cl" "length (m_sendOps ?cl1) < length (m_sendOps cl)"
    by (auto simp: shrinks_def paused_count_def xs)
  moreover have "opComplete_Send rs i cl = ?cl1 \<or> opComplete_Send rs i cl = rs (length ys) ?cl1"
    using assms e by (simp add: opComplete_Send_def Let_def)
  ultimately show ?thesis using s(2) by blast
qed

lemma opComplete_with_Send_cases:
  assumes "send_op_at i cl = Some op"
  shows "\<exists>cl1 idx. shrinks cl1 cl \<and> cl_fault cl1 = cl_fault cl \<and>
    (opComplete_with rs (Type_Send, i) cl = cl1 \<or> opComplete_with rs (Type_Send, i) cl = rs idx cl1)"
proof -
  let ?k = "find_idx (\<lambda>p. p = Some (Type_Send, i)) (m_ops cl)"
  let ?cl0 = "cl\<lparr>m_ops := (m_ops cl)[?k := None], m_opsDeleted := True\<rparr>"
  have "send_op_at i ?cl0 = Some op" using assms by (simp add: send_op_at_def)
  from opComplete_Send_cases [OF this, of rs]
  obtain cl1 idx where c: "shrinks cl1 ?cl0" "cl_fault cl1 = cl_fault ?cl0"
      "opComplete_Send rs i ?cl0 = cl1 \<or> opComplete_Send rs i ?cl0 = rs idx cl1"
    by blast
  have s: "shrinks ?cl0 cl" by (rule shrinks_same_sends) simp
  show ?thesis
  proof (cases "length (m_ops cl) \<le> ?k")
    case True
    then have "opComplete_with rs (Type_Send, i) cl = cl" by (simp add: opComplete_with_def Let_def)
    then show ?thesis using shrinks_refl by blast
  next
    case False
    then have "opComplete_with rs (Type_Send, i) cl = opComplete_Send rs i ?cl0"
      by (simp add: opComplete_with_def Let_def)
    then show ?thesis using c shrinks_trans [OF c(1) s] by auto
  qed
qed

lemma completeWithCb_cases:
  assumes "send_op_at i cl = Some op"
  shows "\<exists>cl1 idx. shrinks cl1 cl \<and> cl_fault cl1 = cl_fault cl \<and>
    (\<exists>cl2. (cl2 = cl1 \<or> cl2 = rs idx cl1) \<and>
      (SendOp_completeWithCb rs i status response cl = cl2 \<or>
       SendOp_completeWithCb rs i status response cl = emit (Ev_PublishComplete i status response) cl2))"
proof -
  let ?cl0 = "if so_published op
    then on_client_state (\<lambda>s. s\<lparr>m_inFlightSends := dec_u32 (m_inFlightSends s)\<rparr>) cl else cl"
  have o: "send_op_at i ?cl0 = Some op" using assms by (simp add: send_op_at_def)
  have s: "shrinks ?cl0 cl" by (rule shrinks_same_sends) simp
  from opComplete_with_Send_cases [OF o, of rs]
  obtain cl1 idx where c: "shrinks cl1 ?cl0" "cl_fault cl1 = cl_fault ?cl0"
      "opComplete_with rs (Type_Send, i) ?cl0 = cl1 \<or> opComplete_with rs (Type_Send, i) ?cl0 = rs idx cl1"
    by blast
  have "SendOp_opCompleteInternal rs i cl = opComplete_with rs (Type_Send, i) ?cl0"
    using assms by (simp add: SendOp_opCompleteInternal_def Let_def)
  then have r: "SendOp_completeWithCb rs i status response cl =
      (if so_cb op then emit (Ev_PublishComplete i status response) (opComplete_with rs (Type_Send, i) ?cl0)
       else opComplete_with rs (Type_Send, i) ?cl0)"
    using assms by (simp add: SendOp_completeWithCb_def Let_def)
  have f: "cl_fault cl1 = cl_fault cl" using c(2) by simp
  let ?cl2 = "opComplete_with rs (Type_Send, i) ?cl0"
  have "(?cl2 = cl1 \<or> ?cl2 = rs idx cl1) \<and>
      (SendOp_completeWithCb rs i status response cl = ?cl2 \<or>
       SendOp_completeWithCb rs i status response cl = emit (Ev_PublishComplete i status response) ?cl2)"
    using c(3) r by (cases "so_cb op") simp_all
  then show ?thesis using shrinks_trans [OF c(1) s] f by blast
qed

lemma completeWithCb_shrinks:
  assumes "rs_shrinks rs"
  shows "shrinks (SendOp_completeWithCb rs i status response cl) cl"
proof (cases "send_op_at i cl")
  case None
  then show ?thesis by (simp add: SendOp_completeWithCb_def shrinks_same_sends)
next
  case (Some op)
  obtain cl1 idx cl2 where c: "shrinks cl1 cl" "cl2 = cl1 \<or> cl2 = rs idx cl1"
      "SendOp_completeWithCb rs i status response cl = cl2 \<or>
       SendOp_completeWithCb rs i status response cl = emit (Ev_PublishComplete i status response) cl2"
    using completeWithCb_cases [OF Some, of rs status response] by blast
  have "shrinks cl2 cl1" using c(2) assms by (auto simp: rs_shrinks_def)
  then have "shrinks cl2 cl" using c(1) shrinks_trans by blast
  then show ?thesis using c(3) by (auto simp: shrinks_cong [of "emit _ cl2" cl2])
qed

lemma completeWithCb_fuel:
  assumes "rs_fuel p n rs" and "paused_count cl \<le> p" and "length (m_sendOps cl) \<le> n" and "fuel_left cl"
  shows "fuel_left (SendOp_completeWithCb rs i status response cl)"
proof (cases "send_op_at i cl")
  case None
  then show ?thesis using assms(4) by (simp add: SendOp_completeWithCb_def)
next
  case (Some op)
  obtain cl1 idx cl2 where c: "shrinks cl1 cl" "cl_fault cl1 = cl_fault cl" "cl2 = cl1 \<or> cl2 = rs idx cl1"
      "SendOp_completeWithCb rs i status response cl = cl2 \<or>
       SendOp_completeWithCb rs i status response cl = emit (Ev_PublishComplete i status response) cl2"
    using completeWithCb_cases [OF Some, of rs status response] by blast
  have "fuel_left cl2" using c(1-3) assms by (auto simp: rs_fuel_def fuel_left_def dest!: shrinks_counts)
  then show ?thesis using c(4) by (auto simp: fuel_left_def)
qed

lemma shrinks_fuel:
  assumes "rs_fuel p n rs" and "paused_count cl \<le> p" and "length (m_sendOps cl) \<le> n"
    and "shrinks cl' cl"
  shows "paused_count cl' \<le> p" and "length (m_sendOps cl') \<le> n"
  using assms by (auto dest: shrinks_counts)

text \<open>
  \<^verbatim>\<open>doSendInternal\<close> in its three outcomes: the message was not sent, a QoS 0 message was
  sent and completed, another one was sent and waits for its acknowledgement.
\<close>

lemma doSendInternal_cases:
  obtains (unknown) "doSendInternal rs b i cl = (EC_InternalError, fault Use_After_Free cl)"
    "send_op_at i cl = None"
  | (failed) op ec cl1 where "send_op_at i cl = Some op" "doSendInternal rs b i cl = (ec, cl1)"
      "ec \<noteq> EC_Success" "shrinks cl1 cl" "cl_fault cl1 = cl_fault cl"
  | (qos0) op cl1 where "send_op_at i cl = Some op" "pm_qos (so_pubMsg op) = AtMostOnce"
      "doSendInternal rs b i cl = (EC_Success, SendOp_completeWithCb rs i St_Complete None cl1)"
      "shrinks cl1 cl" "cl_fault cl1 = cl_fault cl"
  | (waits) op cl1 where "send_op_at i cl = Some op" "pm_qos (so_pubMsg op) \<noteq> AtMostOnce"
      "doSendInternal rs b i cl = (EC_Success, SendOp_restartResponseTimer i cl1)"
      "shrinks cl1 cl" "cl_fault cl1 = cl_fault cl"
proof (cases "send_op_at i cl")
  case None
  then show thesis using unknown by (simp add: doSendInternal_def)
next
  case (Some op)
  let ?cl1 = "upd_send i (\<lambda>p. p\<lparr>so_sendAttempts := 0\<rparr>) cl"
  let ?r = "sendMessage b (Publish_Out (so_pubMsg op)) ?cl1"
  let ?cl3 = "if \<not> so_published op
      then on_client_state (\<lambda>s. s\<lparr>m_inFlightSends := Suc (m_inFlightSends s)\<rparr>)
             (upd_send i (\<lambda>p. p\<lparr>so_published := True\<rparr>) (snd ?r))
      else snd ?r"
  let ?cl4 = "upd_send i (\<lambda>p. p\<lparr>so_sendAttempts := Suc (so_sendAttempts p)\<rparr>) ?cl3"
  have s1: "shrinks ?cl1 cl" by (rule upd_send_shrinks) simp_all
  have s2: "shrinks (snd ?r) cl" using s1 by (simp add: shrinks_cong [of "snd ?r" ?cl1])
  have "shrinks ?cl3 (snd ?r)"
    by (simp add: shrinks_cong [of "on_client_state _ _"] upd_send_shrinks)
  then have s3: "shrinks ?cl3 cl" using s2 shrinks_trans by blast
  have "shrinks ?cl4 ?cl3" by (rule upd_send_shrinks) simp_all
  then have s4: "shrinks ?cl4 cl" using s3 shrinks_trans by blast
  have f: "cl_fault (snd ?r) = cl_fault cl" "cl_fault ?cl4 = cl_fault cl" by simp_all
  show thesis
  proof (cases "fst ?r = EC_Success")
    case False
    have "doSendInternal rs b i cl = (fst ?r, snd ?r)"
      using Some False by (simp add: doSendInternal_def Let_def split_beta)
    then show thesis using failed [OF Some _ False s2 f(1)] by simp
  next
    case True
    have "doSendInternal rs b i cl =
        (EC_Success, if pm_qos (so_pubMsg op) = AtMostOnce
           then SendOp_completeWithCb rs i St_Complete None ?cl4 else SendOp_restartResponseTimer i ?cl4)"
      using Some True by (simp add: doSendInternal_def Let_def split_beta)
    then show thesis
      using qos0 [OF Some _ _ s4 f(2)] waits [OF Some _ _ s4 f(2)]
      by (cases "pm_qos (so_pubMsg op) = AtMostOnce") simp_all
  qed
qed

lemma restartResponseTimer_shrinks [simp]:
  "m_sendOps (SendOp_restartResponseTimer i cl) = m_sendOps cl"
  "fuel_left (SendOp_restartResponseTimer i cl) \<longleftrightarrow> fuel_left cl"
  by (auto simp: SendOp_restartResponseTimer_def fuel_left_def fault_def split: option.split)

lemma doSendInternal_shrinks:
  assumes "rs_shrinks rs"
  shows "shrinks (snd (doSendInternal rs b i cl)) cl"
proof (cases rule: doSendInternal_cases [of rs b i cl])
  case (qos0 op cl1)
  then show ?thesis using completeWithCb_shrinks [OF assms] shrinks_trans by fastforce
next
  case (waits op cl1)
  then show ?thesis by (simp add: shrinks_cong [of "SendOp_restartResponseTimer i cl1" cl1])
qed (simp_all add: shrinks_same_sends)

lemma doSendInternal_fuel:
  assumes "rs_fuel p n rs" and "paused_count cl \<le> p" and "length (m_sendOps cl) \<le> n" and "fuel_left cl"
  shows "fuel_left (snd (doSendInternal rs b i cl))"
proof (cases rule: doSendInternal_cases [of rs b i cl])
  case unknown
  then show ?thesis using assms(4) by simp
next
  case (failed op ec cl1)
  then show ?thesis using assms(4) by (simp add: fuel_left_def)
next
  case (qos0 op cl1)
  have "fuel_left cl1" using qos0(5) assms(4) by (simp add: fuel_left_def)
  then show ?thesis
    using qos0(3) completeWithCb_fuel [OF assms(1) shrinks_fuel [OF assms(1-3) qos0(4)]] by simp
next
  case (waits op cl1)
  then show ?thesis using assms(4) by (simp add: fuel_left_def [of cl1] fuel_left_def [of cl])
qed

text \<open>A resumption step that reports success has used up a paused operation.\<close>

lemma SendOp_resume_step:
  assumes "rs_shrinks rs"
  shows "shrinks (snd (SendOp_resume rs b i cl)) cl"
    and "fst (SendOp_resume rs b i cl) \<Longrightarrow> paused_count (snd (SendOp_resume rs b i cl)) < paused_count cl"
    and "rs_fuel (paused_count cl - 1) (length (m_sendOps cl)) rs \<Longrightarrow> fuel_left cl \<Longrightarrow>
           fuel_left (snd (SendOp_resume rs b i cl))"
proof -
  let ?R = "SendOp_resume rs b i cl"
  have "shrinks (snd ?R) cl \<and> (fst ?R \<longrightarrow> paused_count (snd ?R) < paused_count cl) \<and>
    (rs_fuel (paused_count cl - 1) (length (m_sendOps cl)) rs \<longrightarrow> fuel_left cl \<longrightarrow> fuel_left (snd ?R))"
  proof (cases "send_op_at i cl")
    case None
    then show ?thesis by (simp add: SendOp_resume_def shrinks_same_sends)
  next
    case (Some op)
    show ?thesis
    proof (cases "so_paused op \<and> canSend op cl")
      case False
      then show ?thesis using Some by (auto simp: SendOp_resume_def)
    next
      case True
      let ?cl0 = "upd_send i (\<lambda>p. p\<lparr>so_paused := False\<rparr>) cl"
      let ?D = "doSendInternal rs b i ?cl0"
      have p: "paused_count ?cl0 < paused_count cl" using unpause_decreases Some True by blast
      have s0: "shrinks ?cl0 cl" by (rule upd_send_shrinks) simp_all
      have sd: "shrinks (snd ?D) ?cl0" by (rule doSendInternal_shrinks [OF assms])
      have R: "?R = (True, if fst ?D = EC_Success then snd ?D
          else SendOp_completeWithCb rs i
            (if fst ?D = EC_BadParam then St_BadParam
             else if fst ?D = EC_BufferOverflow then St_OutOfMemory else St_InternalError) None (snd ?D))"
        using Some True by (simp add: SendOp_resume_def Let_def split_beta)
      have "shrinks (SendOp_completeWithCb rs i st None (snd ?D)) ?cl0" for st
        by (rule shrinks_trans [OF completeWithCb_shrinks [OF assms] sd])
      then have sr: "shrinks (snd ?R) ?cl0" unfolding R using sd by simp
      then have 1: "shrinks (snd ?R) cl" using s0 shrinks_trans by blast
      have 2: "paused_count (snd ?R) < paused_count cl" using sr p by (simp add: shrinks_def)
      have 3: "fuel_left (snd ?R)"
        if fu: "rs_fuel (paused_count cl - 1) (length (m_sendOps cl)) rs" and l: "fuel_left cl"
      proof -
        have b0: "paused_count ?cl0 \<le> paused_count cl - 1" "length (m_sendOps ?cl0) \<le> length (m_sendOps cl)"
          using p s0 by (auto dest: shrinks_counts)
        have "fuel_left ?cl0" using l by (simp add: fuel_left_def)
        then have d: "fuel_left (snd ?D)" by (rule doSendInternal_fuel [OF fu b0])
        show ?thesis
          unfolding R using d completeWithCb_fuel [OF fu shrinks_fuel [OF fu b0 sd] d] by simp
      qed
      show ?thesis using 1 2 3 by blast
    qed
  qed
  then show "shrinks (snd ?R) cl" "fst ?R \<Longrightarrow> paused_count (snd ?R) < paused_count cl"
    "rs_fuel (paused_count cl - 1) (length (m_sendOps cl)) rs \<Longrightarrow> fuel_left cl \<Longrightarrow> fuel_left (snd ?R)"
    by blast+
qed

lemma resumeSendOpsSince_shrinks: "rs_shrinks (resumeSendOpsSince n b)"
proof (induction n)
  case 0
  then show ?case by (simp add: rs_shrinks_def shrinks_same_sends)
next
  case (Suc n)
  show ?case
    unfolding rs_shrinks_def
  proof (intro allI)
    fix idx cl
    let ?R = "SendOp_resume (resumeSendOpsSince n b) b (so_id (m_sendOps cl ! idx)) cl"
    have "shrinks (resumeSendOpsSince n b idx (snd ?R)) (snd ?R)" "shrinks (snd ?R) cl"
      "shrinks (resumeSendOpsSince n b (idx + 1) cl) cl"
      using Suc.IH SendOp_resume_step(1) [OF Suc.IH] by (simp_all add: rs_shrinks_def)
    moreover have "shrinks (resumeSendOpsSince n b idx (snd ?R)) cl"
      by (rule shrinks_trans) fact+
    ultimately show "shrinks (resumeSendOpsSince (Suc n) b idx cl) cl"
      by (simp add: Let_def split_beta)
  qed
qed

text \<open>What one more turn of the loop needs at most.\<close>

definition resume_measure :: "nat \<Rightarrow> client \<Rightarrow> nat" where
  "resume_measure idx cl =
     paused_count cl * (length (m_sendOps cl) + 1) + (length (m_sendOps cl) - idx)"

lemma resume_measure_decreases:
  assumes "paused_count cl' < paused_count cl" and "length (m_sendOps cl') \<le> length (m_sendOps cl)"
  shows "resume_measure idx' cl' < resume_measure idx cl"
proof -
  let ?N = "length (m_sendOps cl)" and ?p = "paused_count cl"
  have "paused_count cl' * (length (m_sendOps cl') + 1) \<le> (?p - 1) * (?N + 1)"
    using assms by (intro mult_le_mono) auto
  moreover have "(?p - 1) * (?N + 1) + (?N + 1) = ?p * (?N + 1)"
    using assms(1) by (cases ?p) auto
  ultimately show ?thesis using assms(2) by (simp add: resume_measure_def)
qed

lemma resumeSendOpsSince_fuel:
  "resume_measure idx cl < n \<Longrightarrow> fuel_left cl \<Longrightarrow> fuel_left (resumeSendOpsSince n b idx cl)"
proof (induction n arbitrary: idx cl)
  case 0
  then show ?case by simp
next
  case (Suc n)
  let ?rs = "resumeSendOpsSince n b"
  let ?R = "SendOp_resume ?rs b (so_id (m_sendOps cl ! idx)) cl"
  note step = SendOp_resume_step [OF resumeSendOpsSince_shrinks [of n b], where b = b and cl = cl]
  have fu: "rs_fuel (paused_count cl - 1) (length (m_sendOps cl)) ?rs" if "0 < paused_count cl"
    unfolding rs_fuel_def
  proof (intro allI impI)
    fix idx' cl'
    assume a: "paused_count cl' \<le> paused_count cl - 1" "length (m_sendOps cl') \<le> length (m_sendOps cl)" "fuel_left cl'"
    then have "paused_count cl' < paused_count cl" using that by linarith
    then have "resume_measure idx' cl' < resume_measure idx cl"
      using a(2) by (rule resume_measure_decreases)
    then show "fuel_left (?rs idx' cl')"
      using Suc.prems(1) a(3) by (intro Suc.IH) linarith+
  qed
  show ?case
  proof (cases "idx < length (m_sendOps cl)")
    case False
    then show ?thesis using Suc.prems by simp
  next
    case i: True
    show ?thesis
    proof (cases "so_paused (m_sendOps cl ! idx)")
      case False
      then show ?thesis using i Suc.prems by (simp add: Suc.IH resume_measure_def)
    next
      case True
      have "filter so_paused (m_sendOps cl) \<noteq> []"
        using True i by (metis filter_empty_conv nth_mem)
      then have "0 < paused_count cl" by (simp add: paused_count_def)
      then have f: "fuel_left (snd ?R)" using step(3) fu Suc.prems(2) by blast
      have "fuel_left (?rs idx (snd ?R))" if "fst ?R"
      proof -
        have "resume_measure idx (snd ?R) < resume_measure idx cl"
          using step(1,2) that by (intro resume_measure_decreases) (auto dest: shrinks_counts)
        then show ?thesis using Suc.prems(1) f by (intro Suc.IH) linarith+
      qed
      then show ?thesis using i True f by (simp add: Let_def split_beta)
    qed
  qed
qed

lemma resume_fuel_enough: "resume_measure idx cl < resume_fuel cl"
  by (simp add: resume_measure_def resume_fuel_def)

lemma resumeSends_fuel: "fuel_left cl \<Longrightarrow> fuel_left (resumeSends b idx cl)"
  unfolding resumeSends_def by (rule resumeSendOpsSince_fuel [OF resume_fuel_enough])

section \<open>Publishing leaves the other operations alone\<close>

definition beside_sends ::
  "client \<Rightarrow> (connect_op list \<times> keep_alive_op list \<times> disconnect_op list) \<times>
     (subscribe_op list \<times> unsubscribe_op list \<times> recv_op list \<times> reauth_op list) \<times> cstr list" where
  "beside_sends cl =
     ((m_connectOps cl, m_keepAliveOps cl, m_disconnectOps cl),
      (m_subscribeOps cl, m_unsubscribeOps cl, m_recvOps cl, m_reauthOps cl), m_subFilters cl)"

lemma beside_effects [simp]:
  "beside_sends (emit ev cl) = beside_sends cl" "beside_sends (fault f cl) = beside_sends cl"
  "beside_sends (on_timers g cl) = beside_sends cl" "beside_sends (on_client_state h cl) = beside_sends cl"
  "beside_sends (on_session_state k cl) = beside_sends cl"
  "beside_sends (destroy_timer t cl) = beside_sends cl" "beside_sends (release_id j cl) = beside_sends cl"
  "beside_sends (upd_send i u cl) = beside_sends cl"
  "beside_sends (cl\<lparr>m_ops := x, m_opsDeleted := y\<rparr>) = beside_sends cl"
  "beside_sends (cl\<lparr>m_sendOps := z\<rparr>) = beside_sends cl"
  by (simp_all add: beside_sends_def emit_def fault_def on_timers_def on_client_state_def
      on_session_state_def destroy_timer_def release_id_def upd_send_def)

lemma beside_sendMessage [simp]: "beside_sends (snd (sendMessage b msg cl)) = beside_sends cl"
  by (rule sendMessage_frame [of b msg cl]) (simp add: beside_sends_def)

definition rs_beside :: "resumption \<Rightarrow> bool" where
  "rs_beside rs \<longleftrightarrow> (\<forall>idx cl. beside_sends (rs idx cl) = beside_sends cl)"

lemma completeWithCb_beside:
  assumes "rs_beside rs"
  shows "beside_sends (SendOp_completeWithCb rs i status response cl) = beside_sends cl"
proof -
  have "beside_sends (opComplete_Send rs j c) = beside_sends c" for j c
    using assms by (simp add: opComplete_Send_def split_beta Let_def destroy_SendOp_def rs_beside_def split: option.split)
  then have "beside_sends (opComplete_with rs (Type_Send, j) c) = beside_sends c" for j c
    by (simp add: opComplete_with_def Let_def)
  then show ?thesis
    by (simp add: SendOp_completeWithCb_def SendOp_opCompleteInternal_def Let_def split: option.split)
qed

lemma restartResponseTimer_beside [simp]:
  "beside_sends (SendOp_restartResponseTimer i cl) = beside_sends cl"
  by (simp add: SendOp_restartResponseTimer_def split: option.split)

lemma SendOp_resume_beside:
  assumes rs: "rs_beside rs"
  shows "beside_sends (snd (SendOp_resume rs b i cl)) = beside_sends cl"
proof -
  have "beside_sends (snd (doSendInternal rs b i c)) = beside_sends c" for c
    by (simp add: doSendInternal_def completeWithCb_beside [OF rs] split_beta Let_def split: option.split)
  then show ?thesis
    by (simp add: SendOp_resume_def completeWithCb_beside [OF rs] split_beta Let_def split: option.split)
qed

lemma resumeSendOpsSince_beside: "rs_beside (resumeSendOpsSince n b)"
proof (induction n)
  case (Suc n)
  then show ?case
    using SendOp_resume_beside [OF Suc, of b]
    by (simp add: rs_beside_def Let_def split_beta)
qed (simp add: rs_beside_def)

lemma resumeSends_beside: "rs_beside (resumeSends b)"
  using resumeSendOpsSince_beside by (simp add: rs_beside_def resumeSends_def)

end
