(* ===== verification/Client_Session.thy ===== *)
theory Client_Session
  imports Client_Core
begin

text \<open>
  Connection and session: termination of the operations, \<^verbatim>\<open>brokerDisconnected\<close> and
  \<^verbatim>\<open>brokerConnected\<close> of \<^verbatim>\<open>client/lib/src/ClientImpl.cpp\<close> with the members of the operations they call
  (\<^verbatim>\<open>terminateOpImpl\<close>, \<^verbatim>\<open>connectivityChangedImpl\<close>, the resending of publishes after a
  reconnection), and the termination helpers of \<^verbatim>\<open>client/lib/src/op/Op.cpp\<close>.
\<close>

section \<open>Creating operations\<close>

definition alloc_timer :: "build \<Rightarrow> client \<Rightarrow> timer_idx \<times> client" where
  "alloc_timer b cl =
     (let (idx, tm) = allocTimer (b_config b) (m_timerMgr cl) in (idx, cl\<lparr>m_timerMgr := tm\<rparr>))"

text \<open>
  \<^verbatim>\<open>ObjAllocator::alloc\<close> fails when a fixed pool is used up; every allocated object is in
  its list.
\<close>

definition alloc_fails :: "nat \<Rightarrow> 'o list \<Rightarrow> bool" where
  "alloc_fails limit ops \<longleftrightarrow> 0 < limit \<and> limit \<le> length ops"

definition register_op :: "op_type \<Rightarrow> client \<Rightarrow> client" where
  "register_op t cl =
     cl\<lparr>m_ops := m_ops cl @ [Some (t, cl_nextId cl)], cl_nextId := Suc (cl_nextId cl)\<rparr>"

definition KeepAliveOp_construct :: "build \<Rightarrow> client \<Rightarrow> keep_alive_op \<times> client" where
  "KeepAliveOp_construct b cl =
     (let (ping, cl1) = alloc_timer b cl; (recv, cl2) = alloc_timer b cl1; (resp, cl3) = alloc_timer b cl2;
          op = \<lparr>ko_id = cl_nextId cl, ko_pingTimer = ping, ko_recvTimer = recv, ko_respTimer = resp\<rparr>
      in (op, restartPingTimer op cl3))"

definition createKeepAliveOpIfNeeded :: "build \<Rightarrow> client \<Rightarrow> client" where
  "createKeepAliveOpIfNeeded b cl =
     (if m_keepAliveOps cl \<noteq> [] then cl
      else if alloc_fails (KeepAliveOpsLimit (b_config b)) (m_keepAliveOps cl) then cl
      else
        let (op, cl1) = KeepAliveOp_construct b cl
        in register_op Type_KeepAlive (cl1\<lparr>m_keepAliveOps := m_keepAliveOps cl1 @ [op]\<rparr>))"

section \<open>Terminating operations\<close>

definition ConnectOp_completeOpInternal ::
  "build \<Rightarrow> op_id \<Rightarrow> async_status \<Rightarrow> connect_response option \<Rightarrow> client \<Rightarrow> client" where
  "ConnectOp_completeOpInternal b i status response cl =
     (case op_at hs_id i (m_connectOps cl) of
        None \<Rightarrow> fault Use_After_Free cl
      | Some op \<Rightarrow>
          let cl1 = opComplete b (Type_Connect, i) cl
          in if hs_cb op then emit (Ev_ConnectComplete status response) cl1 else cl1)"

definition ReauthOp_completeOpInternal ::
  "build \<Rightarrow> op_id \<Rightarrow> async_status \<Rightarrow> auth_info option \<Rightarrow> client \<Rightarrow> client" where
  "ReauthOp_completeOpInternal b i status response cl =
     (case op_at hs_id i (m_reauthOps cl) of
        None \<Rightarrow> fault Use_After_Free cl
      | Some op \<Rightarrow>
          let cl1 = opComplete b (Type_Reauth, i) cl
          in if hs_cb op then emit (Ev_ReauthComplete status response) cl1 else cl1)"

definition SubscribeOp_completeOpInternal ::
  "build \<Rightarrow> op_id \<Rightarrow> async_status \<Rightarrow> sub_response option \<Rightarrow> client \<Rightarrow> client" where
  "SubscribeOp_completeOpInternal b i status response cl =
     (case op_at sub_id i (m_subscribeOps cl) of
        None \<Rightarrow> fault Use_After_Free cl
      | Some op \<Rightarrow>
          let cl1 = opComplete b (Type_Subscribe, i) cl
          in if sub_cb op then emit (Ev_SubscribeComplete i status response) cl1 else cl1)"

definition UnsubscribeOp_completeOpInternal ::
  "build \<Rightarrow> op_id \<Rightarrow> async_status \<Rightarrow> sub_response option \<Rightarrow> client \<Rightarrow> client" where
  "UnsubscribeOp_completeOpInternal b i status response cl =
     (case op_at uns_id i (m_unsubscribeOps cl) of
        None \<Rightarrow> fault Use_After_Free cl
      | Some op \<Rightarrow>
          let cl1 = opComplete b (Type_Unsubscribe, i) cl
          in if uns_cb op then emit (Ev_UnsubscribeComplete i status response) cl1 else cl1)"

definition completeWithCb ::
  "build \<Rightarrow> op_id \<Rightarrow> async_status \<Rightarrow> publish_response option \<Rightarrow> client \<Rightarrow> client" where
  "completeWithCb b = SendOp_completeWithCb (resumeSends b)"

text \<open>\<^verbatim>\<open>terminateOp\<close>, by the type of the operation.\<close>

definition terminateOp :: "build \<Rightarrow> async_status \<Rightarrow> op_ref \<Rightarrow> client \<Rightarrow> client" where
  "terminateOp b status ref cl =
     (let i = snd ref in
      case fst ref of
        Type_Connect \<Rightarrow> ConnectOp_completeOpInternal b i status None cl
      | Type_KeepAlive \<Rightarrow> opComplete b ref cl
      | Type_Disconnect \<Rightarrow> opComplete b ref cl
      | Type_Subscribe \<Rightarrow> SubscribeOp_completeOpInternal b i status None cl
      | Type_Unsubscribe \<Rightarrow> UnsubscribeOp_completeOpInternal b i status None cl
      | Type_Recv \<Rightarrow> opComplete b ref cl
      | Type_Send \<Rightarrow> completeWithCb b i status None cl
      | Type_Reauth \<Rightarrow> ReauthOp_completeOpInternal b i status None cl)"

definition is_send_recv :: "op_ref \<Rightarrow> bool" where
  "is_send_recv ref \<longleftrightarrow> fst ref = Type_Recv \<or> fst ref = Type_Send"

text \<open>
  The range-based loops over \<^verbatim>\<open>m_ops\<close>: their bounds are fixed at the start, and the
  vector does not change its size before \<^verbatim>\<open>cleanOps\<close>, so they run over positions.
\<close>

datatype terminate_mode = KeepSendRecvOps | AbortSendRecvOps

definition terminate_at ::
  "build \<Rightarrow> async_status \<Rightarrow> terminate_mode \<Rightarrow> nat \<Rightarrow> client \<Rightarrow> client" where
  "terminate_at b status mode k cl =
     (case m_ops cl ! k of
        None \<Rightarrow> cl
      | Some ref \<Rightarrow>
          if mode = KeepSendRecvOps \<and> is_send_recv ref then cl else terminateOp b status ref cl)"

definition terminateOps :: "build \<Rightarrow> async_status \<Rightarrow> terminate_mode \<Rightarrow> client \<Rightarrow> client" where
  "terminateOps b status mode cl =
     fold (terminate_at b status mode) [0..<length (m_ops cl)] cl"

definition cleanOps :: "client \<Rightarrow> client" where
  "cleanOps cl =
     (if \<not> m_opsDeleted cl then cl
      else cl\<lparr>m_ops := filter (\<lambda>p. p \<noteq> None) (m_ops cl), m_opsDeleted := False\<rparr>)"

section \<open>Losing the connection\<close>

definition connection_lost :: "client \<Rightarrow> bool" where
  "connection_lost cl \<longleftrightarrow>
     \<not> m_connected (m_sessionState cl) \<or> m_networkDisconnected (m_clientState cl)"

definition SendOp_connectivityChanged :: "op_id \<Rightarrow> client \<Rightarrow> client" where
  "SendOp_connectivityChanged i cl =
     (case send_op_at i cl of
        None \<Rightarrow> fault Use_After_Free cl
      | Some op \<Rightarrow> on_timers (Timer_setSuspended (so_responseTimer op) (connection_lost cl)) cl)"

definition RecvOp_connectivityChanged :: "build \<Rightarrow> op_id \<Rightarrow> client \<Rightarrow> client" where
  "RecvOp_connectivityChanged b i cl =
     (case recv_op_at i cl of
        None \<Rightarrow> fault Use_After_Free cl
      | Some op \<Rightarrow>
          if 2 \<le> MaxQos (b_config b)
          then on_timers (Timer_setSuspended (ro_responseTimer op) (connection_lost cl)) cl
          else cl)"

definition connectivityChanged :: "build \<Rightarrow> op_ref \<Rightarrow> client \<Rightarrow> client" where
  "connectivityChanged b ref cl =
     (case fst ref of
        Type_Connect \<Rightarrow>
          (if m_networkDisconnected (m_clientState cl)
           then ConnectOp_completeOpInternal b (snd ref) St_BrokerDisconnected None cl else cl)
      | Type_Send \<Rightarrow> SendOp_connectivityChanged (snd ref) cl
      | Type_Recv \<Rightarrow> RecvOp_connectivityChanged b (snd ref) cl
      | _ \<Rightarrow> cl)"

definition connectivity_at :: "build \<Rightarrow> nat \<Rightarrow> client \<Rightarrow> client" where
  "connectivity_at b k cl =
     (case m_ops cl ! k of None \<Rightarrow> cl | Some ref \<Rightarrow> connectivityChanged b ref cl)"

text \<open>\<^verbatim>\<open>CC_MQTT5_SESSION_NEVER_EXPIRES\<close> in milliseconds, computed in 64 bits.\<close>

definition NeverExpiresMs :: "64 word" where
  "NeverExpiresMs = 4294967295 * 1000"

definition brokerDisconnected ::
  "build \<Rightarrow> broker_disconnect_reason \<Rightarrow> async_status \<Rightarrow> disconnect_info option \<Rightarrow> client \<Rightarrow> client" where
  "brokerDisconnected b reason status info cl =
     (let cl1 = on_session_state (\<lambda>s. s\<lparr>m_connected := False\<rparr>)
                  (on_client_state (\<lambda>s. s\<lparr>m_initialized := False\<rparr>) cl);
          preserveSendRecv = (0 < m_sessionExpiryIntervalMs (m_sessionState cl1) \<and>
                              (m_recvOps cl1 \<noteq> [] \<or> m_sendOps cl1 \<noteq> []));
          termMode = (if preserveSendRecv then KeepSendRecvOps else AbortSendRecvOps);
          cl2 = terminateOps b status termMode
                  (on_session_state (\<lambda>s. s\<lparr>m_disconnecting := True\<rparr>) cl1);
          cl3 = (if preserveSendRecv
                 then
                   let cl21 = fold (connectivity_at b) [0..<length (m_ops cl2)] cl2;
                       expiry = m_sessionExpiryIntervalMs (m_sessionState cl21)
                   in if expiry \<noteq> NeverExpiresMs
                      then on_timers (timerWait (m_sessionExpiryTimer cl21) expiry Cb_SessionExpiry) cl21
                      else cl21
                 else cl2)
      in if reason \<noteq> BDR_ValuesLimit then emit (Ev_BrokerDisconnected reason info) cl3 else cl3)"

definition terminationWithReason :: "build \<Rightarrow> reason_code \<Rightarrow> client \<Rightarrow> client" where
  "terminationWithReason b reason cl =
     brokerDisconnected b
       (if reason = RC_ImplSpecificError then BDR_InternalError else BDR_ProtocolError)
       St_BrokerDisconnected None (sendDisconnectWithReason b reason cl)"

definition protocolErrorTermination :: "build \<Rightarrow> client \<Rightarrow> client" where
  "protocolErrorTermination b cl = terminationWithReason b RC_ProtocolError cl"

text \<open>The session expires: what was kept of it is terminated.\<close>

definition expire_at :: "build \<Rightarrow> nat \<Rightarrow> client \<Rightarrow> client" where
  "expire_at b k cl =
     (case m_ops cl ! k of
        None \<Rightarrow> cl
      | Some ref \<Rightarrow> if \<not> is_send_recv ref then cl else terminateOp b St_BrokerDisconnected ref cl)"

definition sessionExpiryTimeoutInternal :: "build \<Rightarrow> client \<Rightarrow> client" where
  "sessionExpiryTimeoutInternal b cl = fold (expire_at b) [0..<length (m_ops cl)] cl"

section \<open>Resending a publish\<close>

definition resendDupMsg :: "build \<Rightarrow> op_id \<Rightarrow> client \<Rightarrow> client" where
  "resendDupMsg b i cl =
     (case send_op_at i cl of
        None \<Rightarrow> fault Use_After_Free cl
      | Some op \<Rightarrow>
          if so_totalSendAttempts op \<le> so_sendAttempts op then completeWithCb b i St_Timeout None cl
          else
            let cl1 = (if \<not> so_acked op
                       then upd_send i (\<lambda>p. p\<lparr>so_pubMsg := (so_pubMsg p)\<lparr>pm_dup := True\<rparr>\<rparr>) cl else cl);
                msg = (if \<not> so_acked op then Publish_Out ((so_pubMsg op)\<lparr>pm_dup := True\<rparr>)
                       else Pubrel_Out (pm_packetId (so_pubMsg op)) None);
                (result, cl2) = sendMessage b msg cl1
            in if result \<noteq> EC_Success then completeWithCb b i St_InternalError None cl2
               else SendOp_restartResponseTimer i
                      (upd_send i (\<lambda>p. p\<lparr>so_sendAttempts := Suc (so_sendAttempts p)\<rparr>) cl2))"

definition forceDupResend :: "build \<Rightarrow> op_id \<Rightarrow> client \<Rightarrow> client" where
  "forceDupResend b i cl =
     (case send_op_at i cl of
        None \<Rightarrow> fault Use_After_Free cl
      | Some op \<Rightarrow> if so_paused op then cl else resendDupMsg b i cl)"

definition responseTimeoutInternal :: "build \<Rightarrow> op_id \<Rightarrow> client \<Rightarrow> client" where
  "responseTimeoutInternal b i cl = resendDupMsg b i cl"

fun is_topic_alias :: "property \<Rightarrow> bool" where
  "is_topic_alias (TopicAlias a) = True"
| "is_topic_alias _ = False"

fun topic_alias_value :: "property \<Rightarrow> nat" where
  "topic_alias_value (TopicAlias a) = a"
| "topic_alias_value _ = 0"

text \<open>
  Before a publish is sent again in a new connection its topic alias, which the broker has
  forgotten, is replaced by the topic: the message to send, or \<^term>\<open>None\<close> when the topic is not known any more.
\<close>

definition drop_topic_alias :: "topic_alias_info list \<Rightarrow> bool \<Rightarrow> publish_msg \<Rightarrow> publish_msg option" where
  "drop_topic_alias aliases acked msg =
     (let k = find_idx is_topic_alias (pm_props msg);
          erased = msg\<lparr>pm_props := erase_at k (pm_props msg)\<rparr> in
      if length (pm_props msg) \<le> k then Some msg
      else if acked then Some erased
      else if pm_topic msg = [] then
        (case List.find (\<lambda>info. ta_alias info = topic_alias_value (pm_props msg ! k)) aliases of
           None \<Rightarrow> None
         | Some info \<Rightarrow> Some (erased\<lparr>pm_topic := ta_topic info\<rparr>))
      else Some erased)"

definition postReconnectionResend :: "build \<Rightarrow> op_id \<Rightarrow> client \<Rightarrow> client" where
  "postReconnectionResend b i cl =
     (case send_op_at i cl of
        None \<Rightarrow> fault Use_After_Free cl
      | Some op \<Rightarrow>
          if so_paused op then cl
          else
            (case (if HasTopicAliases (b_config b)
                   then drop_topic_alias (m_sendTopicAliases (m_clientState cl)) (so_acked op) (so_pubMsg op)
                   else Some (so_pubMsg op)) of
               None \<Rightarrow> completeWithCb b i St_InternalError None cl
             | Some msg \<Rightarrow>
                 let cl1 = upd_send i (\<lambda>p. p\<lparr>so_pubMsg := msg, so_sendAttempts := dec_u32 (so_sendAttempts p)\<rparr>) cl;
                     cl2 = on_timers (timerCancel (so_responseTimer op)) cl1
                 in resendDupMsg b i cl2))"

section \<open>Gaining the connection\<close>

definition RecvOp_restartResponseTimer :: "build \<Rightarrow> op_id \<Rightarrow> client \<Rightarrow> client" where
  "RecvOp_restartResponseTimer b i cl =
     (case recv_op_at i cl of
        None \<Rightarrow> fault Use_After_Free cl
      | Some op \<Rightarrow>
          if 2 \<le> MaxQos (b_config b)
          then on_timers (timerWait (ro_responseTimer op)
                 (of_nat (m_responseTimeoutMs (m_configState cl))) (Cb_RecvResponse i)) cl
          else cl)"

definition postReconnectionResume :: "build \<Rightarrow> op_id \<Rightarrow> client \<Rightarrow> client" where
  "postReconnectionResume b i cl =
     (if 2 \<le> MaxQos (b_config b)
      then RecvOp_restartResponseTimer b i (RecvOp_connectivityChanged b i cl) else cl)"

text \<open>
  \<^verbatim>\<open>for (auto& sendOpPtr : m_sendOps) sendOpPtr->postReconnectionResend()\<close>: when a
  resend completes its operation the vector shrinks under the loop, whose iterators are
  then invalid.
\<close>

fun resend_all :: "build \<Rightarrow> op_id list \<Rightarrow> client \<Rightarrow> client" where
  "resend_all b [] cl = cl"
| "resend_all b (i # is) cl =
     (let cl1 = postReconnectionResend b i cl in
      if map so_id (m_sendOps cl1) \<noteq> map so_id (m_sendOps cl) then fault Iterator_Invalidated cl1
      else resend_all b is cl1)"

text \<open>The search for the first of the paused operations that end at \<^verbatim>\<open>resumeUntilIdx\<close>.\<close>

fun resume_from_idx :: "send_op list \<Rightarrow> nat \<Rightarrow> nat" where
  "resume_from_idx sends 0 = 0"
| "resume_from_idx sends (Suc idx) =
     (if \<not> so_paused (sends ! idx) then Suc idx else resume_from_idx sends idx)"

text \<open>
  The loop that terminates the operations of an old session reads the type of every
  operation, also through the null pointers that completed operations leave behind.
\<close>

fun terminate_stored :: "build \<Rightarrow> nat list \<Rightarrow> client \<Rightarrow> client" where
  "terminate_stored b [] cl = cl"
| "terminate_stored b (k # ks) cl =
     (case m_ops cl ! k of
        None \<Rightarrow> fault Null_Deref cl
      | Some ref \<Rightarrow>
          terminate_stored b ks (if \<not> is_send_recv ref then cl else terminateOp b St_Aborted ref cl))"

definition brokerConnected :: "build \<Rightarrow> bool \<Rightarrow> client \<Rightarrow> client" where
  "brokerConnected b sessionPresent cl =
     (let cl1 = on_session_state (\<lambda>s. s\<lparr>m_connected := True\<rparr>)
                  (on_client_state (\<lambda>s. s\<lparr>m_firstConnect := False\<rparr>)
                    (on_timers (timerCancel (m_sessionExpiryTimer cl)) cl));
          cl2 = (if sessionPresent
                 then
                   let cl11 = resend_all b (map so_id (m_sendOps cl1)) cl1;
                       cl12 = fold (\<lambda>op. postReconnectionResume b (ro_id op)) (m_recvOps cl11) cl11;
                       resumeUntilIdx = min (m_highQosSendLimit (m_sessionState cl12)) (length (m_sendOps cl12));
                       resumeFromIdx = resume_from_idx (m_sendOps cl12) resumeUntilIdx
                   in if resumeFromIdx < resumeUntilIdx then resumeSends b resumeFromIdx cl12 else cl12
                 else terminate_stored b [0..<length (m_ops cl1)] cl1)
      in createKeepAliveOpIfNeeded b (on_client_state (\<lambda>s. s\<lparr>m_sendTopicAliases := []\<rparr>) cl2))"

end
