(* ===== verification/Client_Invariant.thy ===== *)
theory Client_Invariant
  imports Client_Session
begin

text \<open>
  The invariant of the client between its steps, and the proof that completing, sending,
  resuming and terminating operations keep it: the pointers in \<^verbatim>\<open>m_ops\<close> lead to exactly the
  operation objects that are alive, \<^verbatim>\<open>m_inFlightSends\<close> counts the published operations, a
  published operation is not paused, and no step accesses a destroyed operation.
\<close>

section \<open>The invariant\<close>

definition live_ids :: "op_type \<Rightarrow> client \<Rightarrow> op_id list" where
  "live_ids t cl =
     (case t of
        Type_Connect \<Rightarrow> map hs_id (m_connectOps cl)
      | Type_KeepAlive \<Rightarrow> map ko_id (m_keepAliveOps cl)
      | Type_Disconnect \<Rightarrow> map do_id (m_disconnectOps cl)
      | Type_Subscribe \<Rightarrow> map sub_id (m_subscribeOps cl)
      | Type_Unsubscribe \<Rightarrow> map uns_id (m_unsubscribeOps cl)
      | Type_Recv \<Rightarrow> map ro_id (m_recvOps cl)
      | Type_Send \<Rightarrow> map so_id (m_sendOps cl)
      | Type_Reauth \<Rightarrow> map hs_id (m_reauthOps cl))"

definition registry_ok :: "client \<Rightarrow> bool" where
  "registry_ok cl \<longleftrightarrow>
     (\<forall>t. distinct (live_ids t cl)) \<and>
     (\<forall>t i. i \<in> set (live_ids t cl) \<longleftrightarrow> Some (t, i) \<in> set (m_ops cl)) \<and>
     distinct (filter (\<lambda>p. p \<noteq> None) (m_ops cl)) \<and>
     (\<forall>t i. Some (t, i) \<in> set (m_ops cl) \<longrightarrow> i < cl_nextId cl)"

definition published_count :: "send_op list \<Rightarrow> nat" where
  "published_count sends = length (filter so_published sends)"

definition sends_ok :: "client \<Rightarrow> bool" where
  "sends_ok cl \<longleftrightarrow>
     m_inFlightSends (m_clientState cl) = published_count (m_sendOps cl) \<and>
     (\<forall>op\<in>set (m_sendOps cl). so_published op \<longrightarrow> \<not> so_paused op) \<and>
     packet_ids_ok (m_clientState cl)"

text \<open>The publishes that wait for their turn.\<close>

definition paused_ids :: "client \<Rightarrow> op_id set" where
  "paused_ids cl = so_id ` {op \<in> set (m_sendOps cl). so_paused op}"

definition client_ok :: "client \<Rightarrow> bool" where
  "client_ok cl \<longleftrightarrow> registry_ok cl \<and> sends_ok cl"

lemma client_ok_init: "client_ok (ClientImpl_init b)"
  by (simp add: client_ok_def registry_ok_def sends_ok_def ClientImpl_init_def live_ids_def
      published_count_def ClientState_init_def packet_ids_ok_def split_beta Let_def split: op_type.split)

text \<open>
  What an internal step may do besides: nullify pointers, emit events, change timers,
  packet identifiers and operations. It leaves the session and the API bookkeeping alone
  and raises no fault, out of fuel apart.
\<close>

definition within :: "client \<Rightarrow> client \<Rightarrow> bool" where
  "within cl' cl \<longleftrightarrow>
     client_ok cl' \<and>
     (cl_fault cl' = cl_fault cl \<or> cl_fault cl' = Some Fuel_Exhausted) \<and>
     length (m_ops cl') = length (m_ops cl) \<and>
     (\<forall>k < length (m_ops cl). m_ops cl' ! k = m_ops cl ! k \<or> m_ops cl' ! k = None) \<and>
     m_sessionState cl' = m_sessionState cl \<and> m_configState cl' = m_configState cl \<and>
     cl_nextId cl' = cl_nextId cl \<and> m_preparationLocked cl' = m_preparationLocked cl \<and>
     m_apiEnterCount cl' = m_apiEnterCount cl \<and> paused_ids cl' \<subseteq> paused_ids cl"

lemma within_refl: "client_ok cl \<Longrightarrow> within cl cl"
  by (simp add: within_def)

lemma within_ok: "within cl' cl \<Longrightarrow> client_ok cl'"
  by (simp add: within_def)

lemma within_trans: "within a b \<Longrightarrow> within b c \<Longrightarrow> within a c"
proof -
  assume ab: "within a b" and bc: "within b c"
  have "m_ops a ! k = m_ops c ! k \<or> m_ops a ! k = None" if "k < length (m_ops c)" for k
  proof -
    have "m_ops a ! k = m_ops b ! k \<or> m_ops a ! k = None" "m_ops b ! k = m_ops c ! k \<or> m_ops b ! k = None"
      using ab bc that by (simp_all add: within_def)
    then show ?thesis by auto
  qed
  moreover have "cl_fault a = cl_fault c \<or> cl_fault a = Some Fuel_Exhausted"
    using ab bc unfolding within_def by metis
  moreover have "paused_ids a \<subseteq> paused_ids c" using ab bc unfolding within_def by blast
  ultimately show ?thesis using ab bc by (simp add: within_def)
qed

text \<open>Two states that the invariant does not tell apart.\<close>

definition same_core :: "client \<Rightarrow> client \<Rightarrow> bool" where
  "same_core a b \<longleftrightarrow>
     (\<forall>t. live_ids t a = live_ids t b) \<and> m_ops a = m_ops b \<and> cl_nextId a = cl_nextId b \<and>
     m_inFlightSends (m_clientState a) = m_inFlightSends (m_clientState b) \<and>
     map (\<lambda>op. (so_published op, so_paused op)) (m_sendOps a) =
       map (\<lambda>op. (so_published op, so_paused op)) (m_sendOps b) \<and>
     (packet_ids_ok (m_clientState b) \<longrightarrow> packet_ids_ok (m_clientState a))"

lemma published_count_map:
  "published_count sends = length (filter fst (map (\<lambda>op. (so_published op, so_paused op)) sends))"
  by (simp add: published_count_def filter_map comp_def)

lemma published_paused_map:
  "(\<forall>op\<in>set sends. so_published op \<longrightarrow> \<not> so_paused op) \<longleftrightarrow>
   (\<forall>p\<in>set (map (\<lambda>op. (so_published op, so_paused op)) sends). fst p \<longrightarrow> \<not> snd p)"
  by simp

lemma same_core_ok: "same_core a b \<Longrightarrow> client_ok b \<Longrightarrow> client_ok a"
  unfolding client_ok_def registry_ok_def sends_ok_def same_core_def published_count_map
    published_paused_map
  by simp

lemma same_core_paused:
  assumes "same_core a b"
  shows "paused_ids a = paused_ids b"
proof -
  have z: "paused_ids c = fst ` {x \<in> set (zip (live_ids Type_Send c)
      (map (\<lambda>op. (so_published op, so_paused op)) (m_sendOps c))). snd (snd x)}" for c
    by (auto simp: paused_ids_def live_ids_def zip_map_map zip_same_conv_map image_iff) blast
  show ?thesis unfolding z using assms by (simp add: same_core_def)
qed

definition same_rest :: "client \<Rightarrow> client \<Rightarrow> bool" where
  "same_rest a b \<longleftrightarrow>
     cl_fault a = cl_fault b \<and> m_sessionState a = m_sessionState b \<and>
     m_configState a = m_configState b \<and> m_preparationLocked a = m_preparationLocked b \<and>
     m_apiEnterCount a = m_apiEnterCount b"

lemma within_effect: "within b c \<Longrightarrow> same_core a b \<Longrightarrow> same_rest a b \<Longrightarrow> within a c"
proof -
  assume w: "within b c" and a: "same_core a b" and r: "same_rest a b"
  have "m_ops a = m_ops b" "cl_nextId a = cl_nextId b" using a by (simp_all add: same_core_def)
  then show ?thesis using same_core_ok [OF a within_ok [OF w]] same_core_paused [OF a] w r
    by (simp add: within_def same_rest_def)
qed

lemma within_step: "client_ok b \<Longrightarrow> same_core a b \<Longrightarrow> same_rest a b \<Longrightarrow> within a b"
  by (rule within_effect [OF within_refl])

text \<open>The vector of packet identifiers stays sorted.\<close>

lemma packet_ids_ok_updates [simp]:
  "packet_ids_ok (s\<lparr>m_inFlightSends := n\<rparr>) = packet_ids_ok s"
  "packet_ids_ok (s\<lparr>m_initialized := p\<rparr>) = packet_ids_ok s"
  "packet_ids_ok (s\<lparr>m_firstConnect := p\<rparr>) = packet_ids_ok s"
  "packet_ids_ok (s\<lparr>m_networkDisconnected := p\<rparr>) = packet_ids_ok s"
  "packet_ids_ok (s\<lparr>m_sendTopicAliases := as\<rparr>) = packet_ids_ok s"
  by (simp_all add: packet_ids_ok_def)

lemma packet_ids_ok_release [simp]:
  "packet_ids_ok st \<Longrightarrow> packet_ids_ok (releasePacketId j st)"
  by (cases "j = 0") (simp add: releasePacketId_def, rule releasePacketId_ids(2))

lemma release_inFlight [simp]: "m_inFlightSends (releasePacketId j st) = m_inFlightSends st"
  by (simp add: releasePacketId_def Let_def)

lemma client_state_effects [simp]:
  "m_clientState (on_client_state h cl) = h (m_clientState cl)"
  "m_clientState (release_id j cl) = releasePacketId j (m_clientState cl)"
  by (simp_all add: on_client_state_def release_id_def)

text \<open>The elementary effects.\<close>

lemma live_ids_cong:
  "m_connectOps a = m_connectOps b \<Longrightarrow> m_keepAliveOps a = m_keepAliveOps b \<Longrightarrow>
   m_disconnectOps a = m_disconnectOps b \<Longrightarrow> m_subscribeOps a = m_subscribeOps b \<Longrightarrow>
   m_unsubscribeOps a = m_unsubscribeOps b \<Longrightarrow> m_recvOps a = m_recvOps b \<Longrightarrow>
   m_sendOps a = m_sendOps b \<Longrightarrow> m_reauthOps a = m_reauthOps b \<Longrightarrow> live_ids t a = live_ids t b"
  by (simp add: live_ids_def split: op_type.split)

lemma same_core_effects [simp]:
  "same_core (emit ev cl) cl" "same_core (fault f cl) cl" "same_core (on_timers g cl) cl"
  "same_core (on_session_state k cl) cl" "same_core (destroy_timer t cl) cl"
  "same_core (release_id j cl) cl" "same_core (snd (sendMessage b msg cl)) cl"
proof -
  show "same_core (snd (sendMessage b msg cl)) cl"
    unfolding same_core_def by (intro conjI allI live_ids_cong) simp_all
qed (simp_all add: same_core_def emit_def fault_def on_timers_def on_session_state_def
    destroy_timer_def release_id_def on_client_state_def live_ids_def split: op_type.split)

lemma same_rest_effects [simp]:
  "same_rest (emit ev cl) cl" "same_rest (on_timers g cl) cl" "same_rest (destroy_timer t cl) cl"
  "same_rest (release_id j cl) cl" "same_rest (snd (sendMessage b msg cl)) cl"
  "same_rest (on_client_state h cl) cl" "same_rest (upd_send i f cl) cl"
  by (simp_all add: same_rest_def emit_def on_timers_def destroy_timer_def release_id_def
      on_client_state_def upd_send_def)

lemma same_core_trans: "same_core a b \<Longrightarrow> same_core b c \<Longrightarrow> same_core a c"
  by (simp add: same_core_def)

lemma same_rest_trans: "same_rest a b \<Longrightarrow> same_rest b c \<Longrightarrow> same_rest a c"
  by (simp add: same_rest_def)

lemma same_core_upd_send:
  assumes "\<And>p. so_id (f p) = so_id p" "\<And>p. so_published (f p) = so_published p"
    "\<And>p. so_paused (f p) = so_paused p"
  shows "same_core (upd_send i f cl) cl"
proof -
  have "map so_id (upd_op so_id i f xs) = map so_id xs" for xs
    using assms(1) by (simp add: upd_op_def)
  then have "live_ids t (upd_send i f cl) = live_ids t cl" for t
    by (simp add: live_ids_def upd_send_def split: op_type.split)
  then show ?thesis
    using assms(2,3) by (simp add: same_core_def upd_send_def upd_op_def)
qed

section \<open>Removing an operation\<close>

lemma erase_at_Cons [simp]: "erase_at 0 (x # xs) = xs" "erase_at (Suc k) (x # xs) = x # erase_at k xs"
  by (simp_all add: erase_at_def)

lemma map_eraseFromList:
  "map oid (snd (eraseFromList oid i xs)) = remove1 i (map oid xs)"
  by (induction xs) (auto simp: eraseFromList_def Let_def erase_at_def)

definition removed :: "op_ref \<Rightarrow> client \<Rightarrow> client \<Rightarrow> bool" where
  "removed ref cl' cl \<longleftrightarrow>
     (\<exists>k < length (m_ops cl). m_ops cl ! k = Some ref \<and> m_ops cl' = (m_ops cl)[k := None]) \<and>
     (\<forall>t. live_ids t cl' = (if t = fst ref then remove1 (snd ref) (live_ids t cl) else live_ids t cl)) \<and>
     cl_nextId cl' = cl_nextId cl"

lemma distinct_nonnull_unique:
  assumes "distinct (filter (\<lambda>p. p \<noteq> None) xs)" and "k < length xs" and "xs ! k = Some r"
  shows "Some r \<notin> set (xs[k := None])"
    and "distinct (filter (\<lambda>p. p \<noteq> None) (xs[k := None]))"
    and "set (xs[k := None]) \<union> {Some r} = set xs \<union> {None}"
proof -
  have s: "xs = take k xs @ Some r # drop (Suc k) xs" using split_at_nth [OF assms(2)] assms(3) by simp
  have u: "xs[k := None] = take k xs @ None # drop (Suc k) xs" by (simp add: upd_conv_take_nth_drop assms(2))
  have d: "distinct (filter (\<lambda>p. p \<noteq> None) (take k xs) @ Some r # filter (\<lambda>p. p \<noteq> None) (drop (Suc k) xs))"
    using assms(1) by (subst (asm) s) simp
  show "Some r \<notin> set (xs[k := None])" unfolding u using d by auto
  show "distinct (filter (\<lambda>p. p \<noteq> None) (xs[k := None]))" unfolding u using d by auto
  show "set (xs[k := None]) \<union> {Some r} = set xs \<union> {None}" unfolding u by (subst (3) s) auto
qed

lemma registry_removed:
  assumes ok: "registry_ok cl" and rm: "removed ref cl' cl"
  shows "registry_ok cl'"
proof -
  obtain k where k: "k < length (m_ops cl)" "m_ops cl ! k = Some ref" "m_ops cl' = (m_ops cl)[k := None]"
    using rm by (auto simp: removed_def)
  have d: "distinct (filter (\<lambda>p. p \<noteq> None) (m_ops cl))" using ok by (simp add: registry_ok_def)
  note u = distinct_nonnull_unique [OF d k(1,2)]
  have mem: "Some r \<in> set (m_ops cl') \<longleftrightarrow> Some r \<in> set (m_ops cl) \<and> r \<noteq> ref" for r
    using u(1,3) k(3) by auto
  have ids: "live_ids t cl' = (if t = fst ref then remove1 (snd ref) (live_ids t cl) else live_ids t cl)" for t
    using rm by (simp add: removed_def)
  have "distinct (live_ids t cl')" for t using ok ids by (simp add: registry_ok_def)
  moreover have "i \<in> set (live_ids t cl') \<longleftrightarrow> Some (t, i) \<in> set (m_ops cl')" for t i
  proof -
    have "distinct (live_ids t cl)" using ok by (simp add: registry_ok_def)
    then have "i \<in> set (live_ids t cl') \<longleftrightarrow> i \<in> set (live_ids t cl) \<and> (t, i) \<noteq> ref"
      using ids by (cases ref) auto
    then show ?thesis using ok mem by (simp add: registry_ok_def)
  qed
  moreover have "distinct (filter (\<lambda>p. p \<noteq> None) (m_ops cl'))" using u(2) k(3) by simp
  moreover have "cl_nextId cl' = cl_nextId cl" using rm by (simp add: removed_def)
  ultimately show ?thesis using ok mem by (auto simp: registry_ok_def)
qed

text \<open>A live operation is found in \<^verbatim>\<open>m_ops\<close>, and an operation in \<^verbatim>\<open>m_ops\<close> is alive.\<close>

lemma find_ref:
  assumes "Some ref \<in> set (m_ops cl)"
  defines "k \<equiv> find_idx (\<lambda>p. p = Some ref) (m_ops cl)"
  shows "k < length (m_ops cl)" "m_ops cl ! k = Some ref"
proof -
  show "k < length (m_ops cl)" unfolding k_def find_idx_less_iff using assms(1) by blast
  then show "m_ops cl ! k = Some ref"
    unfolding k_def using find_idx_nth [of "\<lambda>p. p = Some ref" "m_ops cl"] by simp
qed

lemma op_at_live: "i \<in> set (map oid xs) \<Longrightarrow> \<exists>op. op_at oid i xs = Some op \<and> oid op = i"
  using op_at_None [of oid i xs] op_at_in [of oid i xs] by (cases "op_at oid i xs") auto

lemma live_found:
  assumes "client_ok cl" and "Some (t, i) \<in> set (m_ops cl)"
  shows "t = Type_Send \<Longrightarrow> \<exists>op. send_op_at i cl = Some op \<and> so_id op = i"
    and "t = Type_Recv \<Longrightarrow> \<exists>op. recv_op_at i cl = Some op \<and> ro_id op = i"
    and "t = Type_KeepAlive \<Longrightarrow> \<exists>op. op_at ko_id i (m_keepAliveOps cl) = Some op"
    and "t = Type_Connect \<Longrightarrow> \<exists>op. op_at hs_id i (m_connectOps cl) = Some op"
    and "t = Type_Subscribe \<Longrightarrow> \<exists>op. op_at sub_id i (m_subscribeOps cl) = Some op"
    and "t = Type_Unsubscribe \<Longrightarrow> \<exists>op. op_at uns_id i (m_unsubscribeOps cl) = Some op"
    and "t = Type_Reauth \<Longrightarrow> \<exists>op. op_at hs_id i (m_reauthOps cl) = Some op"
proof -
  have live: "i \<in> set (live_ids t cl)" using assms by (simp add: client_ok_def registry_ok_def)
  show "t = Type_Send \<Longrightarrow> \<exists>op. send_op_at i cl = Some op \<and> so_id op = i"
    "t = Type_Recv \<Longrightarrow> \<exists>op. recv_op_at i cl = Some op \<and> ro_id op = i"
    using live op_at_live by (simp_all add: live_ids_def send_op_at_def recv_op_at_def)
  show "t = Type_KeepAlive \<Longrightarrow> \<exists>op. op_at ko_id i (m_keepAliveOps cl) = Some op"
    "t = Type_Connect \<Longrightarrow> \<exists>op. op_at hs_id i (m_connectOps cl) = Some op"
    "t = Type_Subscribe \<Longrightarrow> \<exists>op. op_at sub_id i (m_subscribeOps cl) = Some op"
    "t = Type_Unsubscribe \<Longrightarrow> \<exists>op. op_at uns_id i (m_unsubscribeOps cl) = Some op"
    "t = Type_Reauth \<Longrightarrow> \<exists>op. op_at hs_id i (m_reauthOps cl) = Some op"
    using live by (auto simp: live_ids_def simp del: set_map dest: op_at_live)
qed

lemma send_found_live: "send_op_at i cl = Some op \<Longrightarrow> client_ok cl \<Longrightarrow> Some (Type_Send, i) \<in> set (m_ops cl)"
proof -
  assume "send_op_at i cl = Some op" and ok: "client_ok cl"
  then have "i \<in> set (live_ids Type_Send cl)"
    using op_at_in [of so_id i "m_sendOps cl" op] by (auto simp: send_op_at_def live_ids_def)
  with ok show ?thesis by (simp add: client_ok_def registry_ok_def)
qed

text \<open>Completing an operation that is not a publish removes exactly that operation.\<close>

lemma removed_within:
  assumes "client_ok cl" and "removed ref cl' cl" and "sends_ok cl'" and "same_rest cl' cl"
    and "set (m_sendOps cl') \<subseteq> set (m_sendOps cl)"
  shows "within cl' cl"
proof -
  have "client_ok cl'"
    using registry_removed [OF _ assms(2)] assms(1,3) by (simp add: client_ok_def)
  moreover have "m_ops cl' ! j = m_ops cl ! j \<or> m_ops cl' ! j = None" if "j < length (m_ops cl)" for j
  proof -
    obtain k where "m_ops cl' = (m_ops cl)[k := None]" using assms(2) by (auto simp: removed_def)
    then show ?thesis using that by (cases "k = j") simp_all
  qed
  moreover have "length (m_ops cl') = length (m_ops cl)" using assms(2) by (auto simp: removed_def)
  moreover have "paused_ids cl' \<subseteq> paused_ids cl" using assms(5) by (auto simp: paused_ids_def)
  ultimately show ?thesis using assms(2,4) by (simp add: within_def same_rest_def removed_def)
qed

lemma effects_same [simp]:
  "m_clientState (emit ev cl) = m_clientState cl" "m_clientState (on_timers g cl) = m_clientState cl"
  "m_clientState (destroy_timer t cl) = m_clientState cl"
  "m_inFlightSends (m_clientState (release_id j cl)) = m_inFlightSends (m_clientState cl)"
  "m_ops (destroy_timer t cl) = m_ops cl" "m_ops (release_id j cl) = m_ops cl"
  "cl_nextId (destroy_timer t cl) = cl_nextId cl" "cl_nextId (release_id j cl) = cl_nextId cl"
  "m_ops (on_client_state h cl) = m_ops cl" "cl_nextId (on_client_state h cl) = cl_nextId cl"
  by (simp_all add: emit_def on_timers_def destroy_timer_def release_id_def on_client_state_def
      releasePacketId_def Let_def)

lemma live_ids_effects [simp]:
  "live_ids t' (destroy_timer t cl) = live_ids t' cl" "live_ids t' (release_id j cl) = live_ids t' cl"
  "live_ids t' (on_client_state h cl) = live_ids t' cl"
  by (simp_all add: live_ids_def destroy_timer_def release_id_def on_client_state_def on_timers_def
      split: op_type.split)

lemma destroy_lists [simp]:
  "m_connectOps (destroy_timer t cl) = m_connectOps cl" "m_connectOps (release_id j cl) = m_connectOps cl"
  "m_keepAliveOps (destroy_timer t cl) = m_keepAliveOps cl" "m_keepAliveOps (release_id j cl) = m_keepAliveOps cl"
  "m_disconnectOps (destroy_timer t cl) = m_disconnectOps cl" "m_disconnectOps (release_id j cl) = m_disconnectOps cl"
  "m_subscribeOps (destroy_timer t cl) = m_subscribeOps cl" "m_subscribeOps (release_id j cl) = m_subscribeOps cl"
  "m_unsubscribeOps (destroy_timer t cl) = m_unsubscribeOps cl" "m_unsubscribeOps (release_id j cl) = m_unsubscribeOps cl"
  "m_recvOps (destroy_timer t cl) = m_recvOps cl" "m_recvOps (release_id j cl) = m_recvOps cl"
  "m_reauthOps (destroy_timer t cl) = m_reauthOps cl" "m_reauthOps (release_id j cl) = m_reauthOps cl"
  by (simp_all add: destroy_timer_def release_id_def on_client_state_def on_timers_def)

lemma same_rest_simps [simp]:
  "same_rest cl cl"
  "same_rest (cl\<lparr>m_ops := x, m_opsDeleted := y\<rparr>) c \<longleftrightarrow> same_rest cl c"
  "same_rest (cl\<lparr>m_connectOps := x1\<rparr>) c \<longleftrightarrow> same_rest cl c"
  "same_rest (cl\<lparr>m_keepAliveOps := x2\<rparr>) c \<longleftrightarrow> same_rest cl c"
  "same_rest (cl\<lparr>m_disconnectOps := x3\<rparr>) c \<longleftrightarrow> same_rest cl c"
  "same_rest (cl\<lparr>m_subscribeOps := x4\<rparr>) c \<longleftrightarrow> same_rest cl c"
  "same_rest (cl\<lparr>m_unsubscribeOps := x5\<rparr>) c \<longleftrightarrow> same_rest cl c"
  "same_rest (cl\<lparr>m_recvOps := x6\<rparr>) c \<longleftrightarrow> same_rest cl c"
  "same_rest (cl\<lparr>m_sendOps := x7\<rparr>) c \<longleftrightarrow> same_rest cl c"
  "same_rest (cl\<lparr>m_reauthOps := x8\<rparr>) c \<longleftrightarrow> same_rest cl c"
  "same_rest (on_client_state h cl) c \<longleftrightarrow> same_rest cl c"
  "same_rest (destroy_timer t cl) c \<longleftrightarrow> same_rest cl c"
  "same_rest (release_id j cl) c \<longleftrightarrow> same_rest cl c"
  by (simp_all add: same_rest_def destroy_timer_def release_id_def on_client_state_def on_timers_def)

lemma opComplete_other:
  assumes ok: "client_ok cl" and live: "Some (t, i) \<in> set (m_ops cl)" and t: "t \<noteq> Type_Send"
  shows "removed (t, i) (opComplete_with rs (t, i) cl) cl"
    and "within (opComplete_with rs (t, i) cl) cl"
proof -
  let ?k = "find_idx (\<lambda>p. p = Some (t, i)) (m_ops cl)"
  let ?cl1 = "cl\<lparr>m_ops := (m_ops cl)[?k := None], m_opsDeleted := True\<rparr>"
  let ?cl' = "opComplete_with rs (t, i) cl"
  note k = find_ref [OF live]
  have k': "\<not> length (m_ops cl) \<le> ?k" using k(1) by simp
  note found = live_found [OF ok live]
  have ops: "m_ops ?cl' = (m_ops cl)[?k := None] \<and> cl_nextId ?cl' = cl_nextId cl \<and>
      m_sendOps ?cl' = m_sendOps cl \<and>
      m_inFlightSends (m_clientState ?cl') = m_inFlightSends (m_clientState cl) \<and> same_rest ?cl' cl \<and>
      (packet_ids_ok (m_clientState cl) \<longrightarrow> packet_ids_ok (m_clientState ?cl')) \<and>
      (\<forall>t'. live_ids t' ?cl' = (if t' = t then remove1 i (live_ids t' cl) else live_ids t' cl))"
    using t k' found
    by (cases t; simp add: opComplete_with_def Let_def opComplete_Connect_def opComplete_KeepAlive_def
        opComplete_Disconnect_def opComplete_Subscribe_def opComplete_Unsubscribe_def
        opComplete_Recv_def opComplete_Reauth_def recv_op_at_def)
      (auto simp: live_ids_def map_eraseFromList split: op_type.split)
  then show rm: "removed (t, i) ?cl' cl" using k by (auto simp: removed_def)
  have "sends_ok ?cl'" using ok ops by (simp add: client_ok_def sends_ok_def)
  then show "within ?cl' cl" using removed_within [OF ok rm] ops by simp
qed

section \<open>Publishing keeps the invariant\<close>

lemma upd_op_split:
  assumes "distinct (map oid xs)" and "op_at oid i xs = Some x"
  obtains ys zs where "xs = ys @ x # zs" and "\<And>f. upd_op oid i f xs = ys @ f x # zs"
    and "eraseFromList oid i xs = (length ys, ys @ zs)"
proof -
  obtain ys zs where xs: "xs = ys @ x # zs" and ys: "i \<notin> oid ` set ys"
    and e: "eraseFromList oid i xs = (length ys, ys @ zs)"
    using eraseFromList_found [OF assms(2)] by blast
  have x: "oid x = i" using op_at_in [OF assms(2)] by simp
  have zs: "i \<notin> oid ` set zs" using assms(1) x by (auto simp: xs)
  have keep: "map (\<lambda>x. if oid x = i then f x else x) us = us" if "i \<notin> oid ` set us" for f us
    using that by (induction us) auto
  have "upd_op oid i f xs = ys @ f x # zs" for f
    unfolding upd_op_def xs using x ys zs keep by simp
  with that xs e show thesis by blast
qed

lemma registry_cong:
  "(\<And>t. live_ids t a = live_ids t b) \<Longrightarrow> m_ops a = m_ops b \<Longrightarrow> cl_nextId a = cl_nextId b \<Longrightarrow>
   registry_ok a \<longleftrightarrow> registry_ok b"
  by (simp add: registry_ok_def)

lemma live_ids_upd_send:
  "(\<And>p. so_id (f p) = so_id p) \<Longrightarrow> live_ids t (upd_send i f cl) = live_ids t cl"
  by (simp add: live_ids_def upd_send_def upd_op_def split: op_type.split)

lemma client_ok_distinct_sends: "client_ok cl \<Longrightarrow> distinct (map so_id (m_sendOps cl))"
proof -
  assume "client_ok cl"
  then have "distinct (live_ids Type_Send cl)" by (simp add: client_ok_def registry_ok_def)
  then show ?thesis by (simp add: live_ids_def)
qed

text \<open>Completion removes the publish, gives its place in flight back, and resumes.\<close>

lemma opCompleteInternal_removes:
  assumes ok: "client_ok cl" and op: "send_op_at i cl = Some op"
  obtains cl1 idx where "within cl1 cl" "removed (Type_Send, i) cl1 cl" "m_sendOps cl1 = snd (eraseFromList so_id i (m_sendOps cl))"
    "idx = fst (eraseFromList so_id i (m_sendOps cl))"
    "\<And>rs. SendOp_opCompleteInternal rs i cl =
        (if m_disconnecting (m_sessionState cl) then cl1 else rs idx cl1)"
proof -
  let ?k = "find_idx (\<lambda>p. p = Some (Type_Send, i)) (m_ops cl)"
  let ?cl0 = "if so_published op
    then on_client_state (\<lambda>s. s\<lparr>m_inFlightSends := dec_u32 (m_inFlightSends s)\<rparr>) cl else cl"
  obtain ys zs where xs: "m_sendOps cl = ys @ op # zs"
    and e: "eraseFromList so_id i (m_sendOps cl) = (length ys, ys @ zs)"
    using eraseFromList_found [OF op [unfolded send_op_at_def]] by blast
  let ?cl1 = "destroy_SendOp op (?cl0\<lparr>m_ops := (m_ops cl)[?k := None], m_opsDeleted := True, m_sendOps := ys @ zs\<rparr>)"
  note k = find_ref [OF send_found_live [OF op ok]]
  have ids: "live_ids t ?cl1 = (if t = Type_Send then remove1 i (live_ids t cl) else live_ids t cl)" for t
    using map_eraseFromList [of so_id i "m_sendOps cl"] e
    by (simp add: destroy_SendOp_def) (auto simp: live_ids_def on_client_state_def split: op_type.split)
  have "m_ops ?cl1 = (m_ops cl)[?k := None]" "cl_nextId ?cl1 = cl_nextId cl"
    by (simp_all add: destroy_SendOp_def)
  with k ids have rm: "removed (Type_Send, i) ?cl1 cl" by (auto simp: removed_def)
  have inflight: "m_inFlightSends (m_clientState ?cl1) =
      (if so_published op then dec_u32 (m_inFlightSends (m_clientState cl)) else m_inFlightSends (m_clientState cl))"
    by (simp add: destroy_SendOp_def on_client_state_def)
  have "sends_ok cl" using ok by (simp add: client_ok_def)
  then have "sends_ok ?cl1"
    unfolding sends_ok_def inflight by (auto simp: destroy_SendOp_def published_count_def xs)
  moreover have "set (m_sendOps ?cl1) \<subseteq> set (m_sendOps cl)" by (auto simp: destroy_SendOp_def xs)
  ultimately have w: "within ?cl1 cl"
    using removed_within [OF ok rm] by (simp add: destroy_SendOp_def)
  have "SendOp_opCompleteInternal rs i cl =
      (if m_disconnecting (m_sessionState cl) then ?cl1 else rs (length ys) ?cl1)" for rs
  proof -
    have "m_disconnecting (m_sessionState ?cl1) = m_disconnecting (m_sessionState cl)"
      using w by (simp add: within_def)
    moreover have "SendOp_opCompleteInternal rs i cl = opComplete_Send rs i
        (?cl0\<lparr>m_ops := (m_ops cl)[?k := None], m_opsDeleted := True\<rparr>)"
      using op k by (simp add: SendOp_opCompleteInternal_def opComplete_with_def Let_def)
    moreover have "send_op_at i (?cl0\<lparr>m_ops := (m_ops cl)[?k := None], m_opsDeleted := True\<rparr>) = Some op"
      using op by (simp add: send_op_at_def)
    moreover have "m_sendOps ?cl0 = m_sendOps cl" by simp
    ultimately show ?thesis by (simp add: opComplete_Send_def e Let_def)
  qed
  then show thesis using that [OF w rm] e by (simp add: destroy_SendOp_def)
qed

definition rs_within :: "resumption \<Rightarrow> bool" where
  "rs_within rs \<longleftrightarrow> (\<forall>idx cl. client_ok cl \<longrightarrow> within (rs idx cl) cl)"

lemma opCompleteInternal_within:
  assumes "rs_within rs" and ok: "client_ok cl" and op: "send_op_at i cl = Some op"
  shows "within (SendOp_opCompleteInternal rs i cl) cl"
proof -
  obtain cl1 idx where w: "within cl1 cl" and e: "SendOp_opCompleteInternal rs i cl =
        (if m_disconnecting (m_sessionState cl) then cl1 else rs idx cl1)"
    using opCompleteInternal_removes [OF ok op] by blast
  have "within (rs idx cl1) cl1" using assms(1) within_ok [OF w] by (simp add: rs_within_def)
  then show ?thesis using e w within_trans by auto
qed

lemma completeWithCb_within:
  assumes rs: "rs_within rs" and ok: "client_ok cl" and op: "send_op_at i cl = Some op"
  shows "within (SendOp_completeWithCb rs i status response cl) cl"
proof -
  have w: "within (SendOp_opCompleteInternal rs i cl) cl" by (rule opCompleteInternal_within) fact+
  then have "within (emit (Ev_PublishComplete i status response) (SendOp_opCompleteInternal rs i cl)) cl"
    by (rule within_effect) simp_all
  with w show ?thesis using op by (simp add: SendOp_completeWithCb_def Let_def)
qed

lemma restartResponseTimer_within:
  "client_ok cl \<Longrightarrow> send_op_at i cl = Some op \<Longrightarrow> within (SendOp_restartResponseTimer i cl) cl"
  by (simp add: SendOp_restartResponseTimer_def within_step)

text \<open>Publishing for the first time takes a place in flight.\<close>

definition publish_now :: "op_id \<Rightarrow> client \<Rightarrow> client" where
  "publish_now i cl =
     on_client_state (\<lambda>s. s\<lparr>m_inFlightSends := Suc (m_inFlightSends s)\<rparr>)
       (upd_send i (\<lambda>p. p\<lparr>so_published := True\<rparr>) cl)"

lemma publish_now_within:
  assumes ok: "client_ok cl" and op: "send_op_at i cl = Some op"
    and new: "\<not> so_published op" and run: "\<not> so_paused op"
  shows "within (publish_now i cl) cl"
proof -
  let ?cl' = "publish_now i cl"
  obtain ys zs where xs: "m_sendOps cl = ys @ op # zs"
    and u: "\<And>f. upd_op so_id i f (m_sendOps cl) = ys @ f op # zs"
    using upd_op_split [OF client_ok_distinct_sends [OF ok] op [unfolded send_op_at_def]] by metis
  have s: "m_sendOps ?cl' = ys @ op\<lparr>so_published := True\<rparr> # zs"
    by (simp add: publish_now_def upd_send_sends u)
  have "live_ids t ?cl' = live_ids t cl" for t by (simp add: publish_now_def live_ids_upd_send)
  moreover have "m_ops ?cl' = m_ops cl" "cl_nextId ?cl' = cl_nextId cl"
    by (simp_all add: publish_now_def upd_send_def)
  moreover have "m_clientState ?cl' =
      (m_clientState cl)\<lparr>m_inFlightSends := Suc (m_inFlightSends (m_clientState cl))\<rparr>"
    by (simp add: publish_now_def upd_send_def)
  ultimately have "client_ok ?cl'"
    using ok new run registry_cong [of ?cl' cl]
    by (auto simp: client_ok_def sends_ok_def s xs published_count_def)
  moreover have "same_rest ?cl' cl" by (simp add: publish_now_def)
  moreover have "paused_ids ?cl' \<subseteq> paused_ids cl" using run by (auto simp: paused_ids_def s xs)
  ultimately show ?thesis
    using \<open>m_ops ?cl' = m_ops cl\<close> \<open>cl_nextId ?cl' = cl_nextId cl\<close>
    by (simp add: within_def same_rest_def)
qed

lemma send_op_at_upd:
  "(\<And>p. so_id (f p) = so_id p) \<Longrightarrow>
     send_op_at i (upd_send i f cl) = map_option f (send_op_at i cl)"
  by (simp add: send_op_at_def upd_send_sends op_at_upd_op)

lemma send_op_at_effects [simp]:
  "send_op_at i (snd (sendMessage b msg cl)) = send_op_at i cl"
  "send_op_at i (on_client_state h cl) = send_op_at i cl"
  "send_op_at i (on_timers g cl) = send_op_at i cl"
  "send_op_at i (emit ev cl) = send_op_at i cl"
  by (simp_all add: send_op_at_def)

text \<open>\<^verbatim>\<open>doSendInternal\<close> up to the point where the message is out.\<close>

lemma doSendInternal_within:
  assumes rs: "rs_within rs" and ok: "client_ok cl" and op: "send_op_at i cl = Some op"
    and run: "\<not> so_paused op"
  shows "within (snd (doSendInternal rs b i cl)) cl"
    and "fst (doSendInternal rs b i cl) \<noteq> EC_Success \<Longrightarrow>
           \<exists>op'. send_op_at i (snd (doSendInternal rs b i cl)) = Some op'"
proof -
  let ?cl1 = "upd_send i (\<lambda>p. p\<lparr>so_sendAttempts := 0\<rparr>) cl"
  let ?r = "sendMessage b (Publish_Out (so_pubMsg op)) ?cl1"
  let ?cl3 = "if \<not> so_published op then publish_now i (snd ?r) else snd ?r"
  let ?cl4 = "upd_send i (\<lambda>p. p\<lparr>so_sendAttempts := Suc (so_sendAttempts p)\<rparr>) ?cl3"
  have w1: "within ?cl1 cl" by (rule within_step) (simp_all add: ok same_core_upd_send)
  have w2: "within (snd ?r) cl" by (rule within_effect [OF w1]) simp_all
  have o2: "send_op_at i (snd ?r) = Some (op\<lparr>so_sendAttempts := 0\<rparr>)"
    using op by (simp add: send_op_at_upd)
  have w3: "within ?cl3 cl"
  proof (cases "so_published op")
    case False
    have "within (publish_now i (snd ?r)) (snd ?r)"
      by (rule publish_now_within [OF within_ok [OF w2] o2]) (use False run in simp_all)
    then show ?thesis using False w2 within_trans by simp
  qed (simp add: w2)
  have w4: "within ?cl4 cl"
    by (rule within_effect [OF w3]) (simp_all add: same_core_upd_send)
  have "\<exists>op3. send_op_at i ?cl3 = Some op3"
    using op by (simp add: publish_now_def send_op_at_upd)
  then obtain op4 where o4: "send_op_at i ?cl4 = Some op4" by (auto simp: send_op_at_upd)
  have fin: "within (SendOp_completeWithCb rs i St_Complete None ?cl4) cl"
      "within (SendOp_restartResponseTimer i ?cl4) cl"
    using within_trans [OF completeWithCb_within [OF rs within_ok [OF w4] o4] w4]
      within_trans [OF restartResponseTimer_within [OF within_ok [OF w4] o4] w4] by simp_all
  have D: "doSendInternal rs b i cl =
      (if fst ?r \<noteq> EC_Success then ?r
       else (EC_Success, if pm_qos (so_pubMsg op) = AtMostOnce
          then SendOp_completeWithCb rs i St_Complete None ?cl4 else SendOp_restartResponseTimer i ?cl4))"
    using op by (simp add: doSendInternal_def Let_def split_beta publish_now_def prod_eq_iff)
  show "within (snd (doSendInternal rs b i cl)) cl"
    unfolding D using w2 fin by simp
  show "\<exists>op'. send_op_at i (snd (doSendInternal rs b i cl)) = Some op'"
    if "fst (doSendInternal rs b i cl) \<noteq> EC_Success"
    using that o2 unfolding D by (simp split: if_splits)
qed

lemma unpause_within:
  assumes ok: "client_ok cl" and op: "send_op_at i cl = Some op"
  shows "within (upd_send i (\<lambda>p. p\<lparr>so_paused := False\<rparr>) cl) cl"
proof -
  let ?cl0 = "upd_send i (\<lambda>p. p\<lparr>so_paused := False\<rparr>) cl"
  obtain ys zs where xs: "m_sendOps cl = ys @ op # zs"
    and u: "\<And>f. upd_op so_id i f (m_sendOps cl) = ys @ f op # zs"
    using upd_op_split [OF client_ok_distinct_sends [OF ok] op [unfolded send_op_at_def]] by metis
  have "live_ids t ?cl0 = live_ids t cl" for t by (simp add: live_ids_upd_send)
  moreover have ops: "m_ops ?cl0 = m_ops cl" "cl_nextId ?cl0 = cl_nextId cl" "m_clientState ?cl0 = m_clientState cl"
    by (simp_all add: upd_send_def)
  ultimately have "client_ok ?cl0"
    using ok registry_cong [of ?cl0 cl]
    by (auto simp: client_ok_def sends_ok_def upd_send_sends published_count_def u [unfolded xs] xs)
  moreover have "paused_ids ?cl0 \<subseteq> paused_ids cl"
    by (auto simp: paused_ids_def upd_send_sends u [unfolded xs] xs)
  ultimately show ?thesis using ops by (simp add: within_def upd_send_def)
qed

lemma SendOp_resume_within:
  assumes rs: "rs_within rs" and ok: "client_ok cl" and op: "send_op_at i cl = Some op"
  shows "within (snd (SendOp_resume rs b i cl)) cl"
proof (cases "so_paused op \<and> canSend op cl")
  case False
  then show ?thesis using op within_refl [OF ok] by (auto simp: SendOp_resume_def)
next
  case True
  let ?cl0 = "upd_send i (\<lambda>p. p\<lparr>so_paused := False\<rparr>) cl"
  let ?D = "doSendInternal rs b i ?cl0"
  have w0: "within ?cl0 cl" by (rule unpause_within [OF ok op])
  have o0: "send_op_at i ?cl0 = Some (op\<lparr>so_paused := False\<rparr>)" using op by (simp add: send_op_at_upd)
  note d = doSendInternal_within [OF rs within_ok [OF w0] o0, of b]
  have wd: "within (snd ?D) cl" using within_trans [OF d(1) w0] by simp
  have "within (SendOp_completeWithCb rs i st None (snd ?D)) cl" if e: "fst ?D \<noteq> EC_Success" for st
  proof -
    obtain op' where "send_op_at i (snd ?D) = Some op'" using d(2) [OF _ e] by auto
    then show ?thesis using completeWithCb_within [OF rs within_ok [OF wd]] within_trans wd by blast
  qed
  then show ?thesis
    using op True wd by (simp add: SendOp_resume_def Let_def split_beta)
qed

lemma resumeSendOpsSince_within: "rs_within (resumeSendOpsSince n b)"
proof (induction n)
  case 0
  have "within (fault Fuel_Exhausted cl) cl" if "client_ok cl" for cl
  proof -
    have "client_ok (fault Fuel_Exhausted cl)"
      using same_core_ok [of "fault Fuel_Exhausted cl" cl] that by simp
    then show ?thesis by (simp add: within_def) (simp add: fault_def paused_ids_def)
  qed
  then show ?case by (simp add: rs_within_def)
next
  case (Suc n)
  show ?case
    unfolding rs_within_def
  proof (intro allI impI)
    fix idx cl
    assume ok: "client_ok cl"
    let ?op = "m_sendOps cl ! idx"
    let ?R = "SendOp_resume (resumeSendOpsSince n b) b (so_id ?op) cl"
    have next_idx: "within (resumeSendOpsSince n b (idx + 1) cl) cl"
      using Suc.IH ok by (simp add: rs_within_def)
    have "within (snd ?R) cl" if "idx < length (m_sendOps cl)"
    proof -
      have "so_id ?op \<in> set (map so_id (m_sendOps cl))" using that by simp
      then obtain op where "send_op_at (so_id ?op) cl = Some op"
        using op_at_live unfolding send_op_at_def by blast
      then show ?thesis by (rule SendOp_resume_within [OF Suc.IH ok])
    qed
    moreover have "within (resumeSendOpsSince n b idx (snd ?R)) (snd ?R)" if "client_ok (snd ?R)"
      using Suc.IH that by (simp add: rs_within_def)
    ultimately have "within (snd ?R) cl \<and> within (resumeSendOpsSince n b idx (snd ?R)) cl"
      if "idx < length (m_sendOps cl)"
      using that within_ok within_trans by blast
    then show "within (resumeSendOpsSince (Suc n) b idx cl) cl"
      using next_idx within_refl [OF ok] by (simp add: Let_def split_beta)
  qed
qed

lemma resumeSends_within: "client_ok cl \<Longrightarrow> within (resumeSends b idx cl) cl"
  using resumeSendOpsSince_within by (simp add: resumeSends_def rs_within_def)

lemma rs_within_resumeSends: "rs_within (resumeSends b)"
  by (simp add: rs_within_def resumeSends_within)

section \<open>Steps between which the session may change\<close>

definition step_ok :: "client \<Rightarrow> client \<Rightarrow> bool" where
  "step_ok cl' cl \<longleftrightarrow>
     client_ok cl' \<and> cl_fault cl' = cl_fault cl \<and> length (m_ops cl') = length (m_ops cl) \<and>
     (\<forall>k < length (m_ops cl). m_ops cl' ! k = m_ops cl ! k \<or> m_ops cl' ! k = None) \<and>
     cl_nextId cl' = cl_nextId cl \<and> m_configState cl' = m_configState cl \<and>
     m_preparationLocked cl' = m_preparationLocked cl \<and> m_apiEnterCount cl' = m_apiEnterCount cl \<and>
     paused_ids cl' \<subseteq> paused_ids cl"

lemma step_ok_refl: "client_ok cl \<Longrightarrow> step_ok cl cl"
  by (simp add: step_ok_def)

lemma step_ok_ok: "step_ok cl' cl \<Longrightarrow> client_ok cl'"
  by (simp add: step_ok_def)

lemma step_ok_trans: "step_ok a b \<Longrightarrow> step_ok b c \<Longrightarrow> step_ok a c"
proof -
  assume ab: "step_ok a b" and bc: "step_ok b c"
  have "m_ops a ! k = m_ops c ! k \<or> m_ops a ! k = None" if "k < length (m_ops c)" for k
  proof -
    have "m_ops a ! k = m_ops b ! k \<or> m_ops a ! k = None" "m_ops b ! k = m_ops c ! k \<or> m_ops b ! k = None"
      using ab bc that by (simp_all add: step_ok_def)
    then show ?thesis by auto
  qed
  moreover have "paused_ids a \<subseteq> paused_ids c" using ab bc unfolding step_ok_def by blast
  ultimately show ?thesis using ab bc by (simp add: step_ok_def)
qed

lemma step_ok_within: "within cl' cl \<Longrightarrow> (fuel_left cl \<Longrightarrow> fuel_left cl') \<Longrightarrow> step_ok cl' cl"
proof -
  assume w: "within cl' cl" and f: "fuel_left cl \<Longrightarrow> fuel_left cl'"
  have "cl_fault cl' = cl_fault cl"
    using w f unfolding within_def fuel_left_def by metis
  then show ?thesis using w by (simp add: within_def step_ok_def)
qed

definition same_outer :: "client \<Rightarrow> client \<Rightarrow> bool" where
  "same_outer a b \<longleftrightarrow>
     cl_fault a = cl_fault b \<and> m_configState a = m_configState b \<and>
     m_preparationLocked a = m_preparationLocked b \<and> m_apiEnterCount a = m_apiEnterCount b"

lemma same_rest_outer: "same_rest a b \<Longrightarrow> same_outer a b"
  by (simp add: same_rest_def same_outer_def)

lemma step_ok_effect:
  assumes "step_ok b c" and a: "same_core a b" and "same_outer a b"
  shows "step_ok a c"
proof -
  have "m_ops a = m_ops b" "cl_nextId a = cl_nextId b" using a by (simp_all add: same_core_def)
  then show ?thesis using same_core_ok [OF a] same_core_paused [OF a] assms by (simp add: step_ok_def same_outer_def)
qed

lemma same_outer_effects [simp]:
  "same_outer (emit ev cl) cl" "same_outer (on_timers g cl) cl" "same_outer (destroy_timer t cl) cl"
  "same_outer (on_session_state k cl) cl" "same_outer (on_client_state h cl) cl"
  "same_outer (snd (sendMessage b msg cl)) cl" "same_outer (upd_send i f cl) cl"
  by (simp_all add: same_rest_outer) (simp add: same_outer_def on_session_state_def)

lemma same_core_client_state:
  "(\<And>s. m_inFlightSends (h s) = m_inFlightSends s) \<Longrightarrow> (\<And>s. packet_ids_ok s \<Longrightarrow> packet_ids_ok (h s)) \<Longrightarrow>
     same_core (on_client_state h cl) cl"
  by (simp add: same_core_def)

lemma nullified_kept:
  assumes "length xs = length ys" and "\<forall>k < length ys. xs ! k = ys ! k \<or> xs ! k = None"
    and "Some r \<in> set xs"
  shows "Some r \<in> set ys"
proof -
  obtain k where "k < length xs" "xs ! k = Some r" using assms(3) by (metis in_set_conv_nth)
  then have "k < length ys" "ys ! k = Some r" using assms(1,2) by (simp, force)
  then show ?thesis by (metis nth_mem)
qed

lemma step_ok_nth:
  "step_ok cl' cl \<Longrightarrow> k < length (m_ops cl) \<Longrightarrow> m_ops cl' ! k = m_ops cl ! k \<or> m_ops cl' ! k = None"
  by (simp add: step_ok_def)

lemma step_ok_kept:
  "step_ok cl' cl \<Longrightarrow> Some ref \<in> set (m_ops cl') \<Longrightarrow> Some ref \<in> set (m_ops cl)"
  by (rule nullified_kept [of "m_ops cl'" "m_ops cl"]) (simp_all add: step_ok_def)

text \<open>The top-level functions never run out of fuel.\<close>

lemma rs_fuel_resumeSends: "rs_fuel p n (resumeSends b)"
  by (simp add: rs_fuel_def resumeSends_fuel)

lemma resumeSends_ok: "client_ok cl \<Longrightarrow> step_ok (resumeSends b idx cl) cl"
  by (rule step_ok_within [OF resumeSends_within resumeSends_fuel])

lemma completeWithCb_ok:
  assumes "client_ok cl" and "Some (Type_Send, i) \<in> set (m_ops cl)"
  shows "step_ok (completeWithCb b i status response cl) cl"
proof -
  obtain op where op: "send_op_at i cl = Some op" using live_found(1) [OF assms] by auto
  show ?thesis
    unfolding completeWithCb_def
    by (rule step_ok_within [OF completeWithCb_within [OF rs_within_resumeSends assms(1) op]
          completeWithCb_fuel [OF rs_fuel_resumeSends order_refl order_refl]])
qed

lemma opComplete_ok:
  assumes "client_ok cl" and "Some (t, i) \<in> set (m_ops cl)" and "t \<noteq> Type_Send"
  shows "step_ok (opComplete b (t, i) cl) cl" and "removed (t, i) (opComplete b (t, i) cl) cl"
proof -
  note o = opComplete_other [OF assms, of "resumeSends b"]
  show "removed (t, i) (opComplete b (t, i) cl) cl" unfolding opComplete_def by (rule o(1))
  have "cl_fault (opComplete b (t, i) cl) = cl_fault cl"
    using assms(3) live_found [OF assms(1,2)]
    by (cases t; auto simp: opComplete_def opComplete_with_def Let_def opComplete_Connect_def
        opComplete_KeepAlive_def opComplete_Disconnect_def opComplete_Subscribe_def
        opComplete_Unsubscribe_def opComplete_Recv_def opComplete_Reauth_def recv_op_at_def)
  then show "step_ok (opComplete b (t, i) cl) cl"
    using o(2) by (intro step_ok_within) (simp_all add: opComplete_def fuel_left_def)
qed

text \<open>What is completed is gone from \<^verbatim>\<open>m_ops\<close> for good.\<close>

lemma within_kept: "within cl' cl \<Longrightarrow> Some ref \<in> set (m_ops cl') \<Longrightarrow> Some ref \<in> set (m_ops cl)"
  by (rule nullified_kept [of "m_ops cl'" "m_ops cl"]) (simp_all add: within_def)

lemma removed_gone:
  assumes "client_ok cl" and "removed ref cl' cl"
  shows "Some ref \<notin> set (m_ops cl')"
proof -
  have "distinct (filter (\<lambda>p. p \<noteq> None) (m_ops cl))"
    using assms(1) by (simp add: client_ok_def registry_ok_def)
  moreover obtain k where "k < length (m_ops cl)" "m_ops cl ! k = Some ref" "m_ops cl' = (m_ops cl)[k := None]"
    using assms(2) by (auto simp: removed_def)
  ultimately show ?thesis using distinct_nonnull_unique(1) [of "m_ops cl" k ref] by simp
qed

lemma completeWithCb_gone:
  assumes ok: "client_ok cl" and live: "Some (Type_Send, i) \<in> set (m_ops cl)"
  shows "Some (Type_Send, i) \<notin> set (m_ops (completeWithCb b i status response cl))"
proof -
  obtain op where op: "send_op_at i cl = Some op" using live_found(1) [OF assms] by auto
  obtain cl1 idx where c: "within cl1 cl" "removed (Type_Send, i) cl1 cl"
    and e: "SendOp_opCompleteInternal (resumeSends b) i cl =
        (if m_disconnecting (m_sessionState cl) then cl1 else resumeSends b idx cl1)"
    using opCompleteInternal_removes [OF ok op] by metis
  have "Some (Type_Send, i) \<notin> set (m_ops cl1)" by (rule removed_gone [OF ok c(2)])
  moreover have "within (resumeSends b idx cl1) cl1" using c(1) by (intro resumeSends_within within_ok)
  ultimately have "Some (Type_Send, i) \<notin> set (m_ops (SendOp_opCompleteInternal (resumeSends b) i cl))"
    unfolding e using within_kept by auto
  moreover have "m_ops (emit ev c) = m_ops c" for ev c by (simp add: emit_def)
  ultimately show ?thesis using op by (simp add: completeWithCb_def SendOp_completeWithCb_def Let_def)
qed

section \<open>Terminating operations keeps the invariant\<close>

lemma m_ops_emit [simp]: "m_ops (emit ev c) = m_ops c"
  by (simp add: emit_def)

lemma terminateOp_ok:
  assumes ok: "client_ok cl" and live: "Some ref \<in> set (m_ops cl)"
  shows "step_ok (terminateOp b status ref cl) cl"
    and "Some ref \<notin> set (m_ops (terminateOp b status ref cl))"
proof -
  obtain t i where r: "ref = (t, i)" by (cases ref)
  note found = live_found [OF ok live [unfolded r]]
  have "step_ok (terminateOp b status ref cl) cl \<and> Some ref \<notin> set (m_ops (terminateOp b status ref cl))"
  proof (cases "t = Type_Send")
    case True
    then show ?thesis
      using completeWithCb_ok completeWithCb_gone ok live by (simp add: terminateOp_def r)
  next
    case False
    note o = opComplete_ok [OF ok live [unfolded r] False, of b]
    have g: "Some ref \<notin> set (m_ops (opComplete b (t, i) cl))"
      unfolding r by (rule removed_gone [OF ok o(2)])
    have "step_ok (emit ev (opComplete b (t, i) cl)) cl" for ev
      by (rule step_ok_effect [OF o(1)]) simp_all
    then show ?thesis
      using o(1) g False found
      by (cases t) (auto simp: terminateOp_def r Let_def ConnectOp_completeOpInternal_def
          SubscribeOp_completeOpInternal_def UnsubscribeOp_completeOpInternal_def
          ReauthOp_completeOpInternal_def split: if_splits)
  qed
  then show "step_ok (terminateOp b status ref cl) cl"
    "Some ref \<notin> set (m_ops (terminateOp b status ref cl))" by auto
qed

text \<open>A loop over the positions of \<^verbatim>\<open>m_ops\<close> that handles the pointer at each of them.\<close>

lemma fold_ops_ok:
  assumes "\<And>k cl'. k < length (m_ops cl') \<Longrightarrow> client_ok cl' \<Longrightarrow> step_ok (f k cl') cl'"
    and "client_ok cl" and "n \<le> length (m_ops cl)"
  shows "step_ok (fold f [0..<n] cl) cl"
  using assms(3)
proof (induction n)
  case 0
  then show ?case using step_ok_refl assms(2) by simp
next
  case (Suc n)
  let ?c = "fold f [0..<n] cl"
  have s: "step_ok ?c cl" using Suc by simp
  then have "n < length (m_ops ?c)" using Suc.prems by (simp add: step_ok_def)
  then have "step_ok (f n ?c) ?c" using assms(1) step_ok_ok [OF s] by blast
  then show ?case using s step_ok_trans by simp
qed

lemma terminate_at_ok:
  assumes "k < length (m_ops cl)" and "client_ok cl"
  shows "step_ok (terminate_at b status mode k cl) cl"
    and "m_ops (terminate_at b status mode k cl) ! k = None \<or>
         mode = KeepSendRecvOps \<and> (\<exists>ref. m_ops (terminate_at b status mode k cl) ! k = Some ref \<and> is_send_recv ref)"
proof -
  have "step_ok (terminate_at b status mode k cl) cl \<and>
    (m_ops (terminate_at b status mode k cl) ! k = None \<or>
         mode = KeepSendRecvOps \<and> (\<exists>ref. m_ops (terminate_at b status mode k cl) ! k = Some ref \<and> is_send_recv ref))"
  proof (cases "m_ops cl ! k")
    case None
    then show ?thesis using step_ok_refl assms by (simp add: terminate_at_def)
  next
    case (Some ref)
    then have live: "Some ref \<in> set (m_ops cl)" using assms(1) by (metis nth_mem)
    note t = terminateOp_ok [OF assms(2) live, of b status]
    have "m_ops (terminateOp b status ref cl) ! k = None"
    proof -
      have "m_ops (terminateOp b status ref cl) ! k \<in> set (m_ops (terminateOp b status ref cl))"
        using t(1) assms(1) by (intro nth_mem) (simp add: step_ok_def)
      then have "m_ops (terminateOp b status ref cl) ! k \<noteq> Some ref" using t(2) by auto
      then show ?thesis using t(1) assms(1) Some by (auto simp: step_ok_def)
    qed
    then show ?thesis using Some t(1) step_ok_refl [OF assms(2)] by (cases ref) (simp add: terminate_at_def)
  qed
  then show "step_ok (terminate_at b status mode k cl) cl"
    "m_ops (terminate_at b status mode k cl) ! k = None \<or>
         mode = KeepSendRecvOps \<and> (\<exists>ref. m_ops (terminate_at b status mode k cl) ! k = Some ref \<and> is_send_recv ref)"
    by auto
qed

lemma terminateOps_ok:
  assumes "client_ok cl"
  shows "step_ok (terminateOps b status mode cl) cl"
    and "\<forall>ref. Some ref \<in> set (m_ops (terminateOps b status mode cl)) \<longrightarrow>
           mode = KeepSendRecvOps \<and> is_send_recv ref"
proof -
  let ?f = "terminate_at b status mode"
  have ok: "step_ok (fold ?f [0..<n] cl) cl" if "n \<le> length (m_ops cl)" for n
    by (rule fold_ops_ok [OF _ assms that]) (rule terminate_at_ok(1))
  show "step_ok (terminateOps b status mode cl) cl" unfolding terminateOps_def by (rule ok) simp
  have handled: "\<forall>k<n. \<forall>ref. m_ops (fold ?f [0..<n] cl) ! k = Some ref \<longrightarrow> mode = KeepSendRecvOps \<and> is_send_recv ref"
    if "n \<le> length (m_ops cl)" for n
    using that
  proof (induction n)
    case (Suc n)
    let ?c = "fold ?f [0..<n] cl"
    have s: "step_ok ?c cl" using ok Suc.prems by simp
    then have n: "n < length (m_ops ?c)" using Suc.prems by (simp add: step_ok_def)
    note t = terminate_at_ok [OF n step_ok_ok [OF s], of b status mode]
    show ?case
    proof (intro allI impI)
      fix k ref
      assume k: "k < Suc n" and some: "m_ops (fold ?f [0..<Suc n] cl) ! k = Some ref"
      then have some': "m_ops (?f n ?c) ! k = Some ref" by simp
      show "mode = KeepSendRecvOps \<and> is_send_recv ref"
      proof (cases "k = n")
        case True
        then show ?thesis using t(2) some' by auto
      next
        case False
        have kl: "k < length (m_ops ?c)" using k n by simp
        have "m_ops (?f n ?c) ! k = m_ops ?c ! k \<or> m_ops (?f n ?c) ! k = None"
          by (rule step_ok_nth [OF t(1) kl])
        then have "m_ops ?c ! k = Some ref" using some' by (metis option.distinct(1))
        moreover have "\<forall>k<n. \<forall>ref. m_ops ?c ! k = Some ref \<longrightarrow> mode = KeepSendRecvOps \<and> is_send_recv ref"
          using Suc by simp
        moreover have "k < n" using k False by simp
        ultimately show ?thesis by blast
      qed
    qed
  qed simp
  show "\<forall>ref. Some ref \<in> set (m_ops (terminateOps b status mode cl)) \<longrightarrow>
      mode = KeepSendRecvOps \<and> is_send_recv ref"
  proof (intro allI impI)
    fix ref
    assume "Some ref \<in> set (m_ops (terminateOps b status mode cl))"
    then obtain k where k: "k < length (m_ops (terminateOps b status mode cl))"
        "m_ops (terminateOps b status mode cl) ! k = Some ref" by (auto simp: in_set_conv_nth)
    then have "k < length (m_ops cl)" using ok [of "length (m_ops cl)"] by (simp add: terminateOps_def step_ok_def)
    then show "mode = KeepSendRecvOps \<and> is_send_recv ref"
      using handled [OF order_refl, rule_format, of k ref] k(2) unfolding terminateOps_def by blast
  qed
qed

lemma step_ok_if: "step_ok a c \<Longrightarrow> step_ok b c \<Longrightarrow> step_ok (if p then a else b) c"
  by simp

lemma step_ok_effect_refl: "client_ok cl \<Longrightarrow> same_core a cl \<Longrightarrow> same_outer a cl \<Longrightarrow> step_ok a cl"
  by (rule step_ok_effect [OF step_ok_refl])

lemma connectivity_ok:
  assumes k: "k < length (m_ops cl)" and ok: "client_ok cl"
  shows "step_ok (connectivity_at b k cl) cl"
proof (cases "m_ops cl ! k")
  case None
  then show ?thesis using step_ok_refl [OF ok] by (simp add: connectivity_at_def)
next
  case (Some ref)
  obtain t i where r: "ref = (t, i)" by (cases ref)
  have live: "Some (t, i) \<in> set (m_ops cl)" using Some k r by (metis nth_mem)
  note found = live_found [OF ok live]
  have eff: "step_ok (on_timers g cl) cl" for g by (rule step_ok_effect_refl [OF ok]) simp_all
  have done_connect: "step_ok (ConnectOp_completeOpInternal b i status None cl) cl" if "t = Type_Connect" for status
    using terminateOp_ok(1) [OF ok live, of b status] that by (simp add: terminateOp_def)
  show ?thesis
    using Some r eff done_connect found step_ok_refl [OF ok]
    by (cases t) (auto simp: connectivity_at_def connectivityChanged_def
        SendOp_connectivityChanged_def RecvOp_connectivityChanged_def)
qed

lemma ops_of_branches:
  "m_ops (if r then emit e (if p then if x then on_timers g c1 else c1 else c2)
          else (if p then if x then on_timers g c1 else c1 else c2)) = m_ops (if p then c1 else c2)"
  by (simp add: on_timers_def)

text \<open>Losing the connection: the session is over, and only its publishes may survive.\<close>

lemma brokerDisconnected_ok:
  assumes ok: "client_ok cl"
  shows "step_ok (brokerDisconnected b reason status info cl) cl"
    and "\<forall>ref. Some ref \<in> set (m_ops (brokerDisconnected b reason status info cl)) \<longrightarrow>
           0 < m_sessionExpiryIntervalMs (m_sessionState cl) \<and> is_send_recv ref"
proof -
  let ?cl1 = "on_session_state (\<lambda>s. s\<lparr>m_connected := False\<rparr>)
                  (on_client_state (\<lambda>s. s\<lparr>m_initialized := False\<rparr>) cl)"
  let ?p = "0 < m_sessionExpiryIntervalMs (m_sessionState ?cl1) \<and> (m_recvOps ?cl1 \<noteq> [] \<or> m_sendOps ?cl1 \<noteq> [])"
  let ?mode = "if ?p then KeepSendRecvOps else AbortSendRecvOps"
  let ?cl11 = "on_session_state (\<lambda>s. s\<lparr>m_disconnecting := True\<rparr>) ?cl1"
  let ?cl2 = "terminateOps b status ?mode ?cl11"
  let ?cl21 = "fold (connectivity_at b) [0..<length (m_ops ?cl2)] ?cl2"
  let ?expiry = "m_sessionExpiryIntervalMs (m_sessionState ?cl21)"
  let ?cl3 = "if ?p then if ?expiry \<noteq> NeverExpiresMs
      then on_timers (timerWait (m_sessionExpiryTimer ?cl21) ?expiry Cb_SessionExpiry) ?cl21 else ?cl21
    else ?cl2"
  have "same_core (on_client_state (\<lambda>s. s\<lparr>m_initialized := False\<rparr>) cl) cl"
    by (rule same_core_client_state) simp_all
  then have "step_ok (on_client_state (\<lambda>s. s\<lparr>m_initialized := False\<rparr>) cl) cl"
    using step_ok_effect_refl [OF ok] by simp
  then have "step_ok ?cl1 cl" by (rule step_ok_effect) simp_all
  then have s11: "step_ok ?cl11 cl" by (rule step_ok_effect) simp_all
  note t = terminateOps_ok [OF step_ok_ok [OF s11], of b status ?mode]
  have s2: "step_ok ?cl2 cl" by (rule step_ok_trans [OF t(1) s11])
  have s21': "step_ok ?cl21 ?cl2"
    by (rule fold_ops_ok [OF connectivity_ok step_ok_ok [OF s2] order_refl])
  have s21: "step_ok ?cl21 cl" by (rule step_ok_trans [OF s21' s2])
  have s3: "step_ok ?cl3 cl"
  proof -
    have "step_ok (on_timers (timerWait (m_sessionExpiryTimer ?cl21) ?expiry Cb_SessionExpiry) ?cl21) cl"
      by (rule step_ok_effect [OF s21]) simp_all
    then show ?thesis using s2 s21 by (intro step_ok_if)
  qed
  have D: "brokerDisconnected b reason status info cl =
      (if reason \<noteq> BDR_ValuesLimit then emit (Ev_BrokerDisconnected reason info) ?cl3 else ?cl3)"
    by (simp only: brokerDisconnected_def Let_def)
  have "step_ok (emit (Ev_BrokerDisconnected reason info) ?cl3) cl"
    by (rule step_ok_effect [OF s3]) simp_all
  then show "step_ok (brokerDisconnected b reason status info cl) cl"
    unfolding D using s3 by (rule step_ok_if)
  have ops: "m_ops (brokerDisconnected b reason status info cl) = m_ops (if ?p then ?cl21 else ?cl2)"
    unfolding D by (rule ops_of_branches)
  show "\<forall>ref. Some ref \<in> set (m_ops (brokerDisconnected b reason status info cl)) \<longrightarrow>
      0 < m_sessionExpiryIntervalMs (m_sessionState cl) \<and> is_send_recv ref"
  proof (intro allI impI)
    fix ref
    assume "Some ref \<in> set (m_ops (brokerDisconnected b reason status info cl))"
    then have "Some ref \<in> set (m_ops ?cl2)"
      unfolding ops by (rule step_ok_kept [OF step_ok_if [OF s21' step_ok_refl [OF step_ok_ok [OF s2]]]])
    then have "?mode = KeepSendRecvOps \<and> is_send_recv ref" using t(2) by blast
    then show "0 < m_sessionExpiryIntervalMs (m_sessionState cl) \<and> is_send_recv ref"
      by (simp add: on_session_state_def on_client_state_def split: if_splits)
  qed
qed

lemma terminationWithReason_ok:
  assumes ok: "client_ok cl"
  shows "step_ok (terminationWithReason b reason cl) cl"
proof -
  have s: "step_ok (sendDisconnectWithReason b reason cl) cl"
    unfolding sendDisconnectWithReason_def by (rule step_ok_effect_refl [OF ok]) simp_all
  show ?thesis
    unfolding terminationWithReason_def
    by (rule step_ok_trans [OF brokerDisconnected_ok(1) [OF step_ok_ok [OF s]] s])
qed

lemma expire_at_ok:
  assumes k: "k < length (m_ops cl)" and ok: "client_ok cl"
  shows "step_ok (expire_at b k cl) cl"
proof (cases "m_ops cl ! k")
  case (Some ref)
  then have "Some ref \<in> set (m_ops cl)" using k by (metis nth_mem)
  then show ?thesis
    using Some terminateOp_ok(1) [OF ok] step_ok_refl [OF ok] by (simp add: expire_at_def)
qed (simp add: expire_at_def step_ok_refl [OF ok])

lemma sessionExpiryTimeoutInternal_ok:
  "client_ok cl \<Longrightarrow> step_ok (sessionExpiryTimeoutInternal b cl) cl"
  unfolding sessionExpiryTimeoutInternal_def by (rule fold_ops_ok [OF expire_at_ok _ order_refl])

section \<open>Resending keeps the invariant\<close>

lemma send_live:
  assumes "client_ok cl" and "send_op_at i cl = Some op"
  shows "Some (Type_Send, i) \<in> set (m_ops cl)"
  using send_found_live assms by blast

lemma resendDupMsg_ok:
  assumes ok: "client_ok cl" and op: "send_op_at i cl = Some op"
  shows "step_ok (resendDupMsg b i cl) cl"
proof -
  let ?cl1 = "if \<not> so_acked op
    then upd_send i (\<lambda>p. p\<lparr>so_pubMsg := (so_pubMsg p)\<lparr>pm_dup := True\<rparr>\<rparr>) cl else cl"
  let ?msg = "if \<not> so_acked op then Publish_Out ((so_pubMsg op)\<lparr>pm_dup := True\<rparr>)
    else Pubrel_Out (pm_packetId (so_pubMsg op)) None"
  let ?r = "sendMessage b ?msg ?cl1"
  let ?cl3 = "upd_send i (\<lambda>p. p\<lparr>so_sendAttempts := Suc (so_sendAttempts p)\<rparr>) (snd ?r)"
  have "step_ok (upd_send i (\<lambda>p. p\<lparr>so_pubMsg := (so_pubMsg p)\<lparr>pm_dup := True\<rparr>\<rparr>) cl) cl"
    by (rule step_ok_effect_refl [OF ok]) (simp_all add: same_core_upd_send)
  then have s1: "step_ok ?cl1 cl" using step_ok_refl [OF ok] by (rule step_ok_if)
  have s2: "step_ok (snd ?r) cl" by (rule step_ok_effect [OF s1]) simp_all
  have s3: "step_ok ?cl3 cl" by (rule step_ok_effect [OF s2]) (simp_all add: same_core_upd_send)
  have "\<exists>op1. send_op_at i ?cl1 = Some op1" using op by (simp add: send_op_at_upd)
  then obtain op2 where o2: "send_op_at i (snd ?r) = Some op2" by auto
  then have o3: "\<exists>op3. send_op_at i ?cl3 = Some op3" by (simp add: send_op_at_upd)
  have c: "step_ok (completeWithCb b i St_InternalError None (snd ?r)) cl"
    using completeWithCb_ok [OF step_ok_ok [OF s2] send_live [OF step_ok_ok [OF s2] o2]] s2
    by (rule step_ok_trans)
  have "step_ok (SendOp_restartResponseTimer i ?cl3) cl"
    using o3 step_ok_effect [OF s3] by (auto simp: SendOp_restartResponseTimer_def)
  then show ?thesis
    using op c completeWithCb_ok [OF ok send_live [OF ok op]]
    by (simp add: resendDupMsg_def Let_def split_beta)
qed

lemma forceDupResend_ok:
  "client_ok cl \<Longrightarrow> send_op_at i cl = Some op \<Longrightarrow> step_ok (forceDupResend b i cl) cl"
  by (simp add: forceDupResend_def resendDupMsg_ok step_ok_refl)

lemma postReconnectionResend_ok:
  assumes ok: "client_ok cl" and op: "send_op_at i cl = Some op"
  shows "step_ok (postReconnectionResend b i cl) cl"
proof -
  have c: "step_ok (completeWithCb b i St_InternalError None cl) cl"
    by (rule completeWithCb_ok [OF ok send_live [OF ok op]])
  have r: "step_ok (resendDupMsg b i (on_timers g (upd_send i
      (\<lambda>p. p\<lparr>so_pubMsg := msg, so_sendAttempts := dec_u32 (so_sendAttempts p)\<rparr>) cl))) cl" (is "step_ok (resendDupMsg b i ?c) cl") for g msg
  proof -
    have "step_ok (upd_send i (\<lambda>p. p\<lparr>so_pubMsg := msg, so_sendAttempts := dec_u32 (so_sendAttempts p)\<rparr>) cl) cl"
      by (rule step_ok_effect_refl [OF ok]) (simp_all add: same_core_upd_send)
    then have s: "step_ok ?c cl" by (rule step_ok_effect) simp_all
    obtain op' where "send_op_at i ?c = Some op'" using op by (auto simp: send_op_at_upd)
    then show ?thesis using resendDupMsg_ok step_ok_ok [OF s] s step_ok_trans by blast
  qed
  show ?thesis
    using op c r step_ok_refl [OF ok]
    by (simp add: postReconnectionResend_def Let_def split: option.split)
qed

section \<open>Steps that may fault\<close>

text \<open>
  The invariant is kept, and the only new faults are the listed ones; a step that also leaves
  the preparation lock alone and pauses no publish stays within.
\<close>

definition keeps_ok :: "fault set \<Rightarrow> client \<Rightarrow> client \<Rightarrow> bool" where
  "keeps_ok F cl' cl \<longleftrightarrow>
     client_ok cl' \<and> (cl_fault cl' = cl_fault cl \<or> (\<exists>f\<in>F. cl_fault cl' = Some f))"

text \<open>
  The operations the client starts by itself are those that receive a message and the one that
  keeps the connection alive. Every other operation was there before.
\<close>

definition grown_from :: "client \<Rightarrow> client \<Rightarrow> bool" where
  "grown_from cl' cl \<longleftrightarrow> cl_nextId cl \<le> cl_nextId cl' \<and>
     (\<forall>t i. Some (t, i) \<in> set (m_ops cl') \<longrightarrow> Some (t, i) \<in> set (m_ops cl) \<or> t \<in> {Type_KeepAlive, Type_Recv})"

lemma grown_from_trans: "grown_from a b \<Longrightarrow> grown_from b c \<Longrightarrow> grown_from a c"
  unfolding grown_from_def by (meson order_trans)

lemma grown_from_same: "m_ops a = m_ops b \<Longrightarrow> cl_nextId a = cl_nextId b \<Longrightarrow> grown_from a b"
  by (simp add: grown_from_def)

lemma grown_from_register:
  "m_ops a = m_ops b \<Longrightarrow> cl_nextId a = cl_nextId b \<Longrightarrow> t \<in> {Type_KeepAlive, Type_Recv} \<Longrightarrow>
     grown_from (register_op t a) b"
  by (auto simp: grown_from_def register_op_def)

lemma grown_from_step: "step_ok cl' cl \<Longrightarrow> grown_from cl' cl"
  by (auto simp: grown_from_def step_ok_def in_set_conv_nth)

definition stays_ok :: "fault set \<Rightarrow> client \<Rightarrow> client \<Rightarrow> bool" where
  "stays_ok F cl' cl \<longleftrightarrow>
     client_ok cl' \<and> (cl_fault cl' = cl_fault cl \<or> (\<exists>f\<in>F. cl_fault cl' = Some f)) \<and>
     m_preparationLocked cl' = m_preparationLocked cl \<and> paused_ids cl' \<subseteq> paused_ids cl \<and> grown_from cl' cl"

lemma locked_effects [simp]:
  "m_preparationLocked (emit ev cl) = m_preparationLocked cl"
  "m_preparationLocked (fault f cl) = m_preparationLocked cl"
  "m_preparationLocked (on_timers g cl) = m_preparationLocked cl"
  "m_preparationLocked (on_client_state h cl) = m_preparationLocked cl"
  "m_preparationLocked (on_session_state k cl) = m_preparationLocked cl"
  "m_preparationLocked (upd_send i u cl) = m_preparationLocked cl"
  "m_preparationLocked (snd (sendMessage b msg cl)) = m_preparationLocked cl"
  by (simp_all add: emit_def fault_def on_timers_def on_client_state_def on_session_state_def upd_send_def)

lemma stays_ok_step: "step_ok cl' cl \<Longrightarrow> stays_ok F cl' cl"
  using grown_from_step [of cl' cl] by (simp add: stays_ok_def step_ok_def)

lemma stays_ok_refl: "client_ok cl \<Longrightarrow> stays_ok F cl cl"
  by (simp add: stays_ok_def grown_from_same)

lemma stays_ok_ok: "stays_ok F cl' cl \<Longrightarrow> client_ok cl'"
  by (simp add: stays_ok_def)

lemma stays_ok_trans: "stays_ok F a b \<Longrightarrow> stays_ok F b c \<Longrightarrow> stays_ok F a c"
  using grown_from_trans [of a b c] unfolding stays_ok_def by (metis subset_trans)

lemma stays_ok_if: "stays_ok F a c \<Longrightarrow> stays_ok F b c \<Longrightarrow> stays_ok F (if p then a else b) c"
  by simp

lemma stays_ok_mono: "stays_ok F cl' cl \<Longrightarrow> F \<subseteq> G \<Longrightarrow> stays_ok G cl' cl"
  by (auto simp: stays_ok_def)

lemma stays_ok_fault: "client_ok cl \<Longrightarrow> f \<in> F \<Longrightarrow> stays_ok F (fault f cl) cl"
proof -
  assume ok: "client_ok cl" and f: "f \<in> F"
  have "client_ok (fault f cl)" using same_core_ok [of "fault f cl" cl] ok by simp
  moreover have "cl_fault (fault f cl) = cl_fault cl \<or> cl_fault (fault f cl) = Some f"
    by (simp add: fault_def)
  moreover have "paused_ids (fault f cl) = paused_ids cl" by (rule same_core_paused) simp
  moreover have "grown_from (fault f cl) cl" by (rule grown_from_same) (simp_all add: fault_def)
  ultimately show ?thesis using f by (auto simp: stays_ok_def)
qed

lemma stays_ok_effect:
  "stays_ok F b c \<Longrightarrow> same_core a b \<Longrightarrow> cl_fault a = cl_fault b \<Longrightarrow>
   m_preparationLocked a = m_preparationLocked b \<Longrightarrow> stays_ok F a c"
  using grown_from_trans [of a b c] grown_from_same [of a b] same_core_ok [of a b] same_core_paused [of a b]
  by (simp add: stays_ok_def) (simp add: same_core_def)

lemma stays_ok_no_fault: "stays_ok {} cl' cl \<Longrightarrow> cl_fault cl' = cl_fault cl"
  by (simp add: stays_ok_def)

lemma stays_ok_keeps: "stays_ok F cl' cl \<Longrightarrow> keeps_ok F cl' cl"
  by (simp add: stays_ok_def keeps_ok_def)

lemma keeps_ok_ok: "keeps_ok F cl' cl \<Longrightarrow> client_ok cl'"
  by (simp add: keeps_ok_def)

lemma keeps_ok_trans: "keeps_ok F a b \<Longrightarrow> keeps_ok F b c \<Longrightarrow> keeps_ok F a c"
  unfolding keeps_ok_def by metis

lemma keeps_ok_mono: "keeps_ok F cl' cl \<Longrightarrow> F \<subseteq> G \<Longrightarrow> keeps_ok G cl' cl"
  by (auto simp: keeps_ok_def)

lemma keeps_ok_effect:
  "keeps_ok F b c \<Longrightarrow> same_core a b \<Longrightarrow> cl_fault a = cl_fault b \<Longrightarrow> keeps_ok F a c"
  by (simp add: keeps_ok_def same_core_ok)

text \<open>An effect that leaves the invariant alone, followed by a step.\<close>

lemma step_after_effect:
  assumes "client_ok cl" and "same_core c cl" and "same_outer c cl" and "client_ok c \<Longrightarrow> step_ok c' c"
  shows "step_ok c' cl"
proof -
  have "step_ok c cl" by (rule step_ok_effect_refl) fact+
  then show ?thesis using assms(4) step_ok_ok step_ok_trans by blast
qed

lemma stays_after_step:
  assumes "step_ok c cl" and "client_ok c \<Longrightarrow> stays_ok F c' c"
  shows "stays_ok F c' cl"
  using assms stays_ok_step step_ok_ok stays_ok_trans by blast

section \<open>New operations keep the invariant\<close>

lemma register_ok:
  assumes ok: "client_ok cl" and new: "live_ids t cl' = live_ids t cl @ [cl_nextId cl]"
    and rest: "\<And>t'. t' \<noteq> t \<Longrightarrow> live_ids t' cl' = live_ids t' cl"
    and same: "m_ops cl' = m_ops cl" "cl_nextId cl' = cl_nextId cl" and s: "sends_ok cl'"
  shows "client_ok (register_op t cl')"
proof -
  let ?r = "register_op t cl'"
  have "live_ids t' ?r = live_ids t' cl'" for t'
    by (simp add: register_op_def live_ids_def split: op_type.split)
  then have l: "live_ids t' ?r = (if t' = t then live_ids t cl @ [cl_nextId cl] else live_ids t' cl)" for t'
    using new rest by simp
  have o: "m_ops ?r = m_ops cl @ [Some (t, cl_nextId cl)]" "cl_nextId ?r = Suc (cl_nextId cl)"
    using same by (simp_all add: register_op_def)
  have reg: "distinct (live_ids t' cl)" "(i \<in> set (live_ids t' cl)) = (Some (t', i) \<in> set (m_ops cl))"
    "distinct (filter (\<lambda>p. p \<noteq> None) (m_ops cl))" "Some (t', i) \<in> set (m_ops cl) \<Longrightarrow> i < cl_nextId cl" for t' i
    using ok by (simp_all add: client_ok_def registry_ok_def)
  have fresh: "cl_nextId cl \<notin> set (live_ids t' cl)" "Some (t', cl_nextId cl) \<notin> set (m_ops cl)" for t'
    using reg(2,4) by blast+
  have "registry_ok ?r"
    unfolding registry_ok_def
  proof (intro conjI allI impI)
    show "distinct (live_ids t' ?r)" for t' unfolding l using reg(1) fresh by simp
    show "i \<in> set (live_ids t' ?r) \<longleftrightarrow> Some (t', i) \<in> set (m_ops ?r)" for t' i
      unfolding l o using reg(2) by auto
    show "distinct (filter (\<lambda>p. p \<noteq> None) (m_ops ?r))" unfolding o using reg(3) fresh by simp
    show "i < cl_nextId ?r" if "Some (t', i) \<in> set (m_ops ?r)" for t' i
      using that reg(4) unfolding o by (auto simp: less_Suc_eq)
  qed
  moreover have "sends_ok ?r" using s by (simp add: sends_ok_def register_op_def)
  ultimately show ?thesis by (simp add: client_ok_def)
qed

lemma alloc_timer_frame: "\<exists>tm. snd (alloc_timer b cl) = cl\<lparr>m_timerMgr := tm\<rparr>"
  by (auto simp: alloc_timer_def split_beta Let_def)

lemma lost_ok: "step_ok c cl \<Longrightarrow> step_ok (brokerDisconnected b reason status info c) cl"
  by (rule step_ok_trans [OF brokerDisconnected_ok(1) [OF step_ok_ok]])

lemma sent_ok: "step_ok c cl \<Longrightarrow> step_ok (snd (sendMessage b msg c)) cl"
  by (rule step_ok_effect [of c]) simp_all

text \<open>What is not part of the invariant, nor of the faults.\<close>

lemma client_ok_cong:
  assumes "\<And>t. live_ids t a = live_ids t b" and "m_ops a = m_ops b" and "cl_nextId a = cl_nextId b"
    and "m_clientState a = m_clientState b" and "m_sendOps a = m_sendOps b" and "cl_fault a = cl_fault b"
    and "m_preparationLocked a = m_preparationLocked b" and "client_ok b"
  shows "stays_ok F a b"
proof -
  have "same_core a b" using assms by (simp add: same_core_def)
  then show ?thesis using same_core_ok same_core_paused [OF \<open>same_core a b\<close>] assms(2,3,6,7,8)
    by (simp add: stays_ok_def grown_from_same)
qed

end
