(* ===== verification/Keep_Alive_Op.thy ===== *)
theory Keep_Alive_Op
  imports Client_Invariant
begin

text \<open>
  \<^verbatim>\<open>KeepAliveOp\<close> (\<^verbatim>\<open>client/lib/src/op/KeepAliveOp.cpp\<close>): the ping timer restarts with every
  message sent, the receive timer with every message received; when either runs out a PINGREQ is sent,
  and when no PINGRESP follows in time the broker is considered gone. It also handles the
  DISCONNECT of the broker.
\<close>

section \<open>Operations\<close>

definition restartRecvTimer :: "keep_alive_op \<Rightarrow> client \<Rightarrow> client" where
  "restartRecvTimer op cl =
     (let ms = m_keepAliveMs (m_sessionState cl) in
      if ms = 0 then cl
      else on_timers (timerWait (ko_recvTimer op) (ucast ms) (Cb_KeepAliveRecv (ko_id op))) cl)"

definition KeepAliveOp_handle_Pingresp :: "keep_alive_op \<Rightarrow> client \<Rightarrow> client" where
  "KeepAliveOp_handle_Pingresp op cl =
     restartRecvTimer op (on_timers (timerCancel (ko_respTimer op)) cl)"

definition disconnect_info_of :: "build \<Rightarrow> disconnect_msg \<Rightarrow> disconnect_info" where
  "disconnect_info_of b msg =
     (let rc = (case dm_reasonCode msg of None \<Rightarrow> RC_Success | Some r \<Rightarrow> r) in
      case dm_props msg of
        None \<Rightarrow> \<lparr>di_reasonCode = rc, di_reasonStr = None, di_serverRef = None, di_userProps = []\<rparr>
      | Some ps \<Rightarrow>
          let h = handle_props (b_config b) ps
          in \<lparr>di_reasonCode = rc, di_reasonStr = ph_reasonStr h, di_serverRef = ph_serverRef h,
              di_userProps = fillUserProps (b_config b) h\<rparr>)"

definition KeepAliveOp_handle_Disconnect ::
  "build \<Rightarrow> disconnect_msg \<Rightarrow> keep_alive_op \<Rightarrow> client \<Rightarrow> client" where
  "KeepAliveOp_handle_Disconnect b msg op cl =
     (let cl1 = on_timers (timerCancel (ko_pingTimer op)) cl;
          cl2 = on_timers (timerCancel (ko_recvTimer op)) cl1;
          cl3 = on_timers (timerCancel (ko_respTimer op)) cl2 in
      if \<not> dm_valid msg
      then brokerDisconnected b BDR_ProtocolError St_BrokerDisconnected None
             (sendDisconnectWithReason b RC_MalformedPacket cl3)
      else brokerDisconnected b BDR_DisconnectMsg St_BrokerDisconnected
             (Some (disconnect_info_of b msg)) cl3)"

text \<open>\<^verbatim>\<open>handle(ProtMessage&)\<close>: any other message.\<close>

definition KeepAliveOp_handle_other :: "keep_alive_op \<Rightarrow> client \<Rightarrow> client" where
  "KeepAliveOp_handle_other op cl = restartRecvTimer op cl"

definition sendPing :: "build \<Rightarrow> op_id \<Rightarrow> client \<Rightarrow> client" where
  "sendPing b i cl =
     (case keep_alive_op_at i cl of
        None \<Rightarrow> fault Use_After_Free cl
      | Some op \<Rightarrow>
          if timerIsActive (ko_respTimer op) (m_timerMgr cl) then cl
          else
            let cl1 = snd (sendMessage b Pingreq_Out cl)
            in on_timers (timerWait (ko_respTimer op)
                 (of_nat (m_responseTimeoutMs (m_configState cl1))) (Cb_PingTimeout i)) cl1)"

definition pingTimeoutInternal :: "build \<Rightarrow> op_id \<Rightarrow> client \<Rightarrow> client" where
  "pingTimeoutInternal b i cl =
     (case keep_alive_op_at i cl of
        None \<Rightarrow> fault Use_After_Free cl
      | Some op \<Rightarrow>
          brokerDisconnected b BDR_NoBrokerResponse St_BrokerDisconnected None
            (sendDisconnectWithReason b RC_KeepAliveTimeout cl))"

text \<open>The loop \<^verbatim>\<open>for (auto& opPtr : m_keepAliveOps) msg.dispatch(*opPtr)\<close> for an ordinary message.\<close>

definition keep_alive_received :: "client \<Rightarrow> client" where
  "keep_alive_received cl = fold KeepAliveOp_handle_other (m_keepAliveOps cl) cl"

section \<open>The invariant\<close>

lemma restart_timer_ok:
  assumes "client_ok cl"
  shows "step_ok (restartRecvTimer op cl) cl" "step_ok (restartPingTimer op cl) cl"
    "step_ok (KeepAliveOp_handle_Pingresp op cl) cl"
proof -
  have t: "step_ok (on_timers g c) c" if "client_ok c" for g c
    by (rule step_ok_effect_refl [OF that]) simp_all
  show r: "step_ok (restartRecvTimer op cl) cl" "step_ok (restartPingTimer op cl) cl"
    using t [OF assms] step_ok_refl [OF assms] by (simp_all add: restartRecvTimer_def restartPingTimer_def Let_def)
  let ?c = "on_timers (timerCancel (ko_respTimer op)) cl"
  have "step_ok (restartRecvTimer op ?c) ?c"
    using t [OF step_ok_ok [OF t [OF assms]]] step_ok_refl [OF step_ok_ok [OF t [OF assms]]]
    by (simp add: restartRecvTimer_def Let_def)
  then show "step_ok (KeepAliveOp_handle_Pingresp op cl) cl"
    unfolding KeepAliveOp_handle_Pingresp_def using t [OF assms] by (rule step_ok_trans)
qed

lemma keep_alive_received_ok: "client_ok cl \<Longrightarrow> step_ok (keep_alive_received cl) cl"
proof -
  have "client_ok c \<Longrightarrow> step_ok (fold KeepAliveOp_handle_other ops c) c" for ops c
  proof (induction ops arbitrary: c)
    case (Cons op ops)
    have s: "step_ok (KeepAliveOp_handle_other op c) c"
      using restart_timer_ok(1) [OF Cons.prems] by (simp add: KeepAliveOp_handle_other_def)
    show ?case using step_ok_trans [OF Cons.IH [OF step_ok_ok [OF s]] s] by simp
  qed (simp add: step_ok_refl)
  then show "client_ok cl \<Longrightarrow> ?thesis" by (simp add: keep_alive_received_def)
qed

lemma sent_then_lost_ok:
  assumes "client_ok cl"
  shows "step_ok (brokerDisconnected b reason status info (sendDisconnectWithReason b rc cl)) cl"
proof -
  have s: "step_ok (sendDisconnectWithReason b rc cl) cl"
    unfolding sendDisconnectWithReason_def by (rule step_ok_effect_refl [OF assms]) simp_all
  show ?thesis by (rule step_ok_trans [OF brokerDisconnected_ok(1) [OF step_ok_ok [OF s]] s])
qed

lemma KeepAliveOp_handle_Disconnect_ok:
  assumes "client_ok cl"
  shows "step_ok (KeepAliveOp_handle_Disconnect b msg op cl) cl"
proof -
  let ?cl3 = "on_timers (timerCancel (ko_respTimer op)) (on_timers (timerCancel (ko_recvTimer op))
    (on_timers (timerCancel (ko_pingTimer op)) cl))"
  have "step_ok (on_timers (timerCancel (ko_pingTimer op)) cl) cl"
    by (rule step_ok_effect_refl [OF assms]) simp_all
  then have "step_ok (on_timers (timerCancel (ko_recvTimer op)) (on_timers (timerCancel (ko_pingTimer op)) cl)) cl"
    by (rule step_ok_effect) simp_all
  then have s: "step_ok ?cl3 cl" by (rule step_ok_effect) simp_all
  show ?thesis
    unfolding KeepAliveOp_handle_Disconnect_def Let_def
    using step_ok_trans [OF sent_then_lost_ok [OF step_ok_ok [OF s]] s]
      step_ok_trans [OF brokerDisconnected_ok(1) [OF step_ok_ok [OF s]] s]
    by (intro step_ok_if)
qed

lemma keep_alive_found: "client_ok cl \<Longrightarrow> Some (Type_KeepAlive, i) \<in> set (m_ops cl) \<Longrightarrow>
  \<exists>op. keep_alive_op_at i cl = Some op"
  using live_found(3) by (simp add: keep_alive_op_at_def)

lemma sendPing_ok:
  assumes ok: "client_ok cl" and op: "keep_alive_op_at i cl = Some op"
  shows "step_ok (sendPing b i cl) cl"
proof -
  let ?c = "snd (sendMessage b Pingreq_Out cl)"
  have "step_ok ?c cl" by (rule step_ok_effect_refl [OF ok]) simp_all
  then have "step_ok (on_timers g ?c) cl" for g by (rule step_ok_effect) simp_all
  then show ?thesis using op step_ok_refl [OF ok] by (simp add: sendPing_def Let_def)
qed

lemma pingTimeoutInternal_ok:
  "client_ok cl \<Longrightarrow> keep_alive_op_at i cl = Some op \<Longrightarrow> step_ok (pingTimeoutInternal b i cl) cl"
  by (simp add: pingTimeoutInternal_def sent_then_lost_ok)

end
