(* ===== verification/Topic_Names.thy ===== *)
theory Topic_Names
  imports Mqtt_Config
begin

text \<open>
  Topic names and topic filters. \<^verbatim>\<open>Op::isSharedTopicFilter\<close>, \<^verbatim>\<open>Op::verifySubFilter\<close> and
  \<^verbatim>\<open>Op::verifyPubTopic\<close> (\<^verbatim>\<open>client/lib/src/op/Op.cpp\<close>, \<^verbatim>\<open>Op.h\<close>) check what the application
  asks to subscribe to and publish on and what the broker delivers; the two
  \<^verbatim>\<open>isTopicMatch\<close> functions of \<^verbatim>\<open>client/lib/src/op/RecvOp.cpp\<close> decide whether a delivered
  message matches a recorded subscription.
  The reference is the level structure of MQTT: a name is a list of levels separated by
  \<^verbatim>\<open>/\<close>, \<^verbatim>\<open>+\<close> stands for one level and a final \<^verbatim>\<open>#\<close> for any number of them. The lemmas
  show that the character loops accept exactly the well-formed filters, and for which
  topics the matcher agrees with the reference.
\<close>

section \<open>Verification of filters and topics\<close>

definition SharePrefix :: cstr where
  "SharePrefix = ''$share/''"

fun share_prefix_loop :: "cstr \<Rightarrow> cstr \<Rightarrow> bool" where
  "share_prefix_loop [] flt = True"
| "share_prefix_loop (p # ps) [] = False"
| "share_prefix_loop (p # ps) (c # cs) = (if p \<noteq> c then False else share_prefix_loop ps cs)"

definition isSharedTopicFilter :: "cstr \<Rightarrow> bool" where
  "isSharedTopicFilter flt = share_prefix_loop SharePrefix flt"

text \<open>
  The \<^verbatim>\<open>while (filter[nextIdx] != '/')\<close> over the share name: the characters after the
  closing separator, or \<^term>\<open>None\<close> when the loop rejects the filter.
\<close>

fun share_name_loop :: "cstr \<Rightarrow> cstr option" where
  "share_name_loop [] = None"
| "share_name_loop (c # cs) =
     (if c = CHR ''/'' then Some cs
      else if c = CHR ''#'' \<or> c = CHR ''+'' then None
      else share_name_loop cs)"

definition share_part_ok :: "bool \<Rightarrow> cstr \<Rightarrow> bool" where
  "share_part_ok sharedSubsAvailable flt =
     (let rest = drop (length SharePrefix) flt in
      if \<not> isSharedTopicFilter flt then True
      else if \<not> sharedSubsAvailable then False
      else if rest = [] \<or> hd rest = CHR ''/'' then False
      else case share_name_loop rest of None \<Rightarrow> False | Some t \<Rightarrow> t \<noteq> [])"

text \<open>The main loop over the filter, with its position and the last separator.\<close>

fun sub_filter_loop :: "bool \<Rightarrow> nat \<Rightarrow> int \<Rightarrow> cstr \<Rightarrow> bool" where
  "sub_filter_loop wildcardSubAvailable pos lastSep [] = True"
| "sub_filter_loop wildcardSubAvailable pos lastSep (ch # cs) =
     (if ch = CHR ''/'' then sub_filter_loop wildcardSubAvailable (pos + 1) (int pos) cs
      else if ch = CHR ''#'' then
        (if \<not> wildcardSubAvailable then False
         else if cs \<noteq> [] then False
         else if pos = 0 then True
         else if lastSep < 0 \<or> int pos - 1 \<noteq> lastSep then False
         else True)
      else if ch \<noteq> CHR ''+'' then sub_filter_loop wildcardSubAvailable (pos + 1) lastSep cs
      else if \<not> wildcardSubAvailable then False
      else if cs \<noteq> [] \<and> hd cs \<noteq> CHR ''/'' then False
      else if pos = 0 then sub_filter_loop wildcardSubAvailable (pos + 1) lastSep cs
      else if lastSep < 0 \<or> int pos - 1 \<noteq> lastSep then False
      else sub_filter_loop wildcardSubAvailable (pos + 1) lastSep cs)"

definition verifySubFilterInternal :: "config_state \<Rightarrow> bool \<Rightarrow> bool \<Rightarrow> cstr \<Rightarrow> bool" where
  "verifySubFilterInternal cs wildcardSubAvailable sharedSubsAvailable flt =
     (if \<not> m_verifyOutgoingTopic cs then True
      else if flt = [] then False
      else if \<not> share_part_ok sharedSubsAvailable flt then False
      else sub_filter_loop wildcardSubAvailable 0 (- 1) flt)"

definition verifySubFilter :: "config \<Rightarrow> config_state \<Rightarrow> bool \<Rightarrow> bool \<Rightarrow> cstr \<Rightarrow> bool" where
  "verifySubFilter c cs wildcardSubAvailable sharedSubsAvailable flt =
     (if HasTopicFormatVerification c
      then verifySubFilterInternal cs wildcardSubAvailable sharedSubsAvailable flt
      else True)"

fun pub_topic_loop :: "cstr \<Rightarrow> bool" where
  "pub_topic_loop [] = True"
| "pub_topic_loop (ch # cs) = (if ch = CHR ''#'' \<or> ch = CHR ''+'' then False else pub_topic_loop cs)"

definition verifyPubTopicInternal :: "config_state \<Rightarrow> cstr \<Rightarrow> bool \<Rightarrow> bool" where
  "verifyPubTopicInternal cs topic outgoing =
     (if outgoing \<and> \<not> m_verifyOutgoingTopic cs then True
      else if \<not> outgoing \<and> \<not> m_verifyIncomingTopic cs then True
      else if topic = [] then False
      else if outgoing \<and> hd topic = CHR ''$'' then False
      else pub_topic_loop topic)"

definition verifyPubTopic :: "config \<Rightarrow> config_state \<Rightarrow> cstr \<Rightarrow> bool \<Rightarrow> bool" where
  "verifyPubTopic c cs topic outgoing =
     (if HasTopicFormatVerification c then verifyPubTopicInternal cs topic outgoing else True)"

section \<open>Matching a topic against a flt\<close>

text \<open>
  \<^verbatim>\<open>isTopicMatch\<close> on \<^verbatim>\<open>std::string_view\<close>s. Its last branch reads \<^verbatim>\<open>filter[0]\<close> without
  checking that the view has a character; on an empty view that read is undefined
  behaviour, the result \<^term>\<open>None\<close> here.
\<close>

definition find_sep :: "cstr \<Rightarrow> nat option" where
  "find_sep s = (let i = find_idx (\<lambda>c. c = CHR ''/'') s in if i < length s then Some i else None)"

function isTopicMatch :: "cstr \<Rightarrow> cstr \<Rightarrow> bool option" where
  "isTopicMatch flt topic =
     (if length flt = 1 \<and> hd flt = CHR ''#'' then Some True
      else if topic = [] then Some (flt = [])
      else case (find_sep flt, find_sep topic) of
        (None, Some topicSepPos) \<Rightarrow> Some False
      | (Some filterSepPos, Some topicSepPos) \<Rightarrow>
          (if hd flt = CHR ''+'' \<and> filterSepPos = 1 \<or>
              take filterSepPos flt = take topicSepPos topic
           then isTopicMatch (drop (filterSepPos + 1) flt) (drop (topicSepPos + 1) topic)
           else Some False)
      | (Some filterSepPos, None) \<Rightarrow>
          (if length flt \<le> filterSepPos + 1 then Some False
           else if hd flt = CHR ''+'' \<and> filterSepPos = 1 \<or> take filterSepPos flt = topic
           then isTopicMatch (drop (filterSepPos + 1) flt) []
           else Some False)
      | (None, None) \<Rightarrow>
          (if flt = [] then None
           else Some (hd flt = CHR ''+'' \<and> length flt = 1 \<or> flt = topic)))"
  by pat_completeness auto
termination
  by (relation "measure (\<lambda>(flt, topic). length flt)")
     (auto simp: find_sep_def Let_def split: if_splits)

declare isTopicMatch.simps [simp del]

section \<open>The level structure\<close>

fun levels :: "cstr \<Rightarrow> cstr list" where
  "levels [] = [[]]"
| "levels (c # cs) =
     (if c = CHR ''/'' then [] # levels cs
      else case levels cs of [] \<Rightarrow> [[c]] | l # ls \<Rightarrow> (c # l) # ls)"

text \<open>
  A level may hold \<^verbatim>\<open>+\<close> only alone and only if the broker accepts wildcards, \<^verbatim>\<open>#\<close> only
  alone in the last level.
\<close>

definition level_ok :: "bool \<Rightarrow> cstr \<Rightarrow> bool" where
  "level_ok wild l \<longleftrightarrow> CHR ''#'' \<notin> set l \<and> (CHR ''+'' \<in> set l \<longrightarrow> wild \<and> l = ''+'')"

fun filter_levels_ok :: "bool \<Rightarrow> cstr list \<Rightarrow> bool" where
  "filter_levels_ok wild [] = True"
| "filter_levels_ok wild [l] = (level_ok wild l \<or> wild \<and> l = ''#'')"
| "filter_levels_ok wild (l # l' # ls) = (level_ok wild l \<and> filter_levels_ok wild (l' # ls))"

text \<open>Which topics a filter stands for.\<close>

fun levels_match :: "cstr list \<Rightarrow> cstr list \<Rightarrow> bool" where
  "levels_match [] ts = (ts = [])"
| "levels_match (f # fs) [] = (f = ''#'' \<and> fs = [])"
| "levels_match (f # fs) (t # ts) =
     (f = ''#'' \<and> fs = [] \<or> (f = ''+'' \<or> f = t) \<and> levels_match fs ts)"

lemma levels_not_Nil [simp]: "levels s \<noteq> []"
  by (cases s) (auto split: list.splits)

lemma levels_Cons_plain:
  "c \<noteq> CHR ''/'' \<Longrightarrow> levels (c # cs) = (c # hd (levels cs)) # tl (levels cs)"
  by (cases "levels cs") auto

lemma levels_no_sep: "CHR ''/'' \<notin> set s \<Longrightarrow> levels s = [s]"
  by (induction s) auto

lemma levels_append_sep:
  "CHR ''/'' \<notin> set s \<Longrightarrow> levels (s @ CHR ''/'' # r) = s # levels r"
  by (induction s) auto

lemma find_sep_None: "find_sep s = None \<Longrightarrow> levels s = [s]"
  by (rule levels_no_sep) (auto simp: find_sep_def Let_def find_idx_less_iff split: if_splits)

lemma find_sep_Some:
  assumes "find_sep s = Some n"
  shows "levels s = take n s # levels (drop (n + 1) s)" and "n < length s"
    and "s = take n s @ CHR ''/'' # drop (n + 1) s" and "CHR ''/'' \<notin> set (take n s)"
proof -
  let ?P = "\<lambda>c. c = CHR ''/''"
  from assms have n: "n = find_idx ?P s" and l: "n < length s"
    by (auto simp: find_sep_def Let_def split: if_splits)
  show "n < length s" by (rule l)
  have "s ! n = CHR ''/''" using find_idx_nth [of ?P s] l n by simp
  with split_at_nth [OF l] show s: "s = take n s @ CHR ''/'' # drop (n + 1) s" by simp
  show ns: "CHR ''/'' \<notin> set (take n s)"
    using find_idx_before [of _ ?P s] n by (auto simp: in_set_conv_nth)
  have "levels (take n s @ CHR ''/'' # drop (n + 1) s) = take n s # levels (drop (n + 1) s)"
    by (rule levels_append_sep [OF ns])
  then show "levels s = take n s # levels (drop (n + 1) s)"
    using s by metis
qed

section \<open>The loops decide the level structure\<close>

lemma hd_levels_Nil: "levels cs = h # t \<Longrightarrow> h = [] \<longleftrightarrow> cs = [] \<or> hd cs = CHR ''/''"
  by (cases cs) (auto split: list.splits if_splits)

lemma filter_levels_ok_Cons:
  "filter_levels_ok w (l # ls) =
     (if ls = [] then level_ok w l \<or> w \<and> l = ''#'' else level_ok w l \<and> filter_levels_ok w ls)"
  by (cases ls) auto

text \<open>
  The loop invariant: at the start of a level the rest of the filter must be well formed;
  inside a level the rest of this level must be free of wildcards.
\<close>

definition rest_of_level_ok :: "bool \<Rightarrow> cstr list \<Rightarrow> bool" where
  "rest_of_level_ok w ls \<longleftrightarrow>
     CHR ''#'' \<notin> set (hd ls) \<and> CHR ''+'' \<notin> set (hd ls) \<and> (tl ls = [] \<or> filter_levels_ok w (tl ls))"

lemma sub_filter_loop_levels:
  "lastSep < int pos \<Longrightarrow>
     sub_filter_loop w pos lastSep cs =
       (if pos = 0 \<or> lastSep = int pos - 1 then filter_levels_ok w (levels cs)
        else rest_of_level_ok w (levels cs))"
proof (induction cs arbitrary: pos lastSep)
  case Nil
  then show ?case by (simp add: level_ok_def rest_of_level_ok_def)
next
  case (Cons ch cs)
  obtain h t where lv: "levels cs = h # t" by (cases "levels cs") auto
  note hnil = hd_levels_Nil [OF lv]
  let ?start = "pos = 0 \<or> lastSep = int pos - 1"
  have mid: "sub_filter_loop w (pos + 1) lastSep cs = rest_of_level_ok w (h # t)"
    using Cons.IH [of lastSep "pos + 1"] Cons.prems by (simp add: lv)
  show ?case
  proof (cases "ch = CHR ''/''")
    case True
    then show ?thesis
      using Cons.IH [of "int pos" "pos + 1"]
      by (simp add: lv filter_levels_ok_Cons [of w "[]"] level_ok_def rest_of_level_ok_def)
  next
    case ns: False
    then have lvc: "levels (ch # cs) = (ch # h) # t" by (simp add: lv)
    consider (hash) "ch = CHR ''#''" | (plus) "ch = CHR ''+''" | (plain) "ch \<noteq> CHR ''#''" "ch \<noteq> CHR ''+''"
      by blast
    then show ?thesis
    proof cases
      case hash
      show ?thesis
      proof (cases "cs = []")
        case True
        then have "h = []" "t = []" using lv by auto
        then show ?thesis
          using True hash Cons.prems
          by (auto simp: level_ok_def rest_of_level_ok_def)
      next
        case False
        have "\<not> filter_levels_ok w ((ch # h) # t)"
          using False hash hnil lv by (cases cs) (auto simp: filter_levels_ok_Cons level_ok_def)
        then show ?thesis
          unfolding lvc using False hash by (simp add: rest_of_level_ok_def)
      qed
    next
      case plus
      have "filter_levels_ok w ((ch # h) # t) \<longleftrightarrow> w \<and> h = [] \<and> rest_of_level_ok w (h # t)"
        using plus by (auto simp: filter_levels_ok_Cons level_ok_def rest_of_level_ok_def)
      then show ?thesis
        unfolding lvc using plus Cons.prems hnil mid by (auto simp: rest_of_level_ok_def)
    next
      case plain
      have "filter_levels_ok w ((ch # h) # t) \<longleftrightarrow> rest_of_level_ok w (h # t)"
        "rest_of_level_ok w ((ch # h) # t) \<longleftrightarrow> rest_of_level_ok w (h # t)"
        using plain by (auto simp: filter_levels_ok_Cons level_ok_def rest_of_level_ok_def)
      then show ?thesis
        unfolding lvc using plain ns mid by simp
    qed
  qed
qed

lemma share_prefix_loop_iff: "share_prefix_loop ps flt \<longleftrightarrow> (\<exists>r. flt = ps @ r)"
  by (induction ps flt rule: share_prefix_loop.induct) auto

lemma share_name_loop_Some:
  "share_name_loop r = Some t \<longleftrightarrow>
     (\<exists>name. r = name @ CHR ''/'' # t \<and> set name \<inter> {CHR ''/'', CHR ''#'', CHR ''+''} = {})"
  (is "_ \<longleftrightarrow> (\<exists>name. ?P r name)")
proof (induction r)
  case Nil
  then show ?case by simp
next
  case (Cons c cs)
  have "(\<exists>name. ?P (c # cs) name) \<longleftrightarrow>
      c = CHR ''/'' \<and> cs = t \<or>
      c \<noteq> CHR ''/'' \<and> c \<noteq> CHR ''#'' \<and> c \<noteq> CHR ''+'' \<and> (\<exists>name. ?P cs name)"
    by (auto simp: Cons_eq_append_conv)
  then show ?case using Cons.IH by auto
qed

definition share_group_ok :: "cstr \<Rightarrow> bool" where
  "share_group_ok r \<longleftrightarrow>
     (\<exists>name t. r = name @ CHR ''/'' # t \<and> name \<noteq> [] \<and> t \<noteq> [] \<and>
        set name \<inter> {CHR ''/'', CHR ''#'', CHR ''+''} = {})"

lemma share_part_ok_iff:
  "share_part_ok sh flt \<longleftrightarrow> (\<forall>r. flt = SharePrefix @ r \<longrightarrow> sh \<and> share_group_ok r)"
proof (cases "\<exists>r. flt = SharePrefix @ r")
  case False
  then show ?thesis
    by (auto simp: share_part_ok_def isSharedTopicFilter_def share_prefix_loop_iff Let_def)
next
  case True
  then obtain r where r: "flt = SharePrefix @ r" by blast
  have "(\<not> (r = [] \<or> hd r = CHR ''/'') \<and>
         (case share_name_loop r of None \<Rightarrow> False | Some t \<Rightarrow> t \<noteq> [])) \<longleftrightarrow> share_group_ok r"
    (is "?L \<longleftrightarrow> _")
  proof
    assume L: ?L
    then obtain t where t: "share_name_loop r = Some t" "t \<noteq> []"
      by (cases "share_name_loop r") auto
    from t(1) obtain name where n: "r = name @ CHR ''/'' # t"
      "set name \<inter> {CHR ''/'', CHR ''#'', CHR ''+''} = {}"
      unfolding share_name_loop_Some by blast
    moreover have "name \<noteq> []" using L n(1) by (cases name) simp_all
    ultimately show "share_group_ok r" unfolding share_group_ok_def using t(2) by metis
  next
    assume "share_group_ok r"
    then obtain name t where n: "r = name @ CHR ''/'' # t" "name \<noteq> []" "t \<noteq> []"
      "set name \<inter> {CHR ''/'', CHR ''#'', CHR ''+''} = {}"
      unfolding share_group_ok_def by metis
    then have "share_name_loop r = Some t" unfolding share_name_loop_Some by metis
    moreover have "hd r \<noteq> CHR ''/''" "r \<noteq> []" using n by (cases name; auto)+
    ultimately show ?L using n(3) by simp
  qed
  moreover have "isSharedTopicFilter (SharePrefix @ r)"
    by (simp add: isSharedTopicFilter_def share_prefix_loop_iff)
  ultimately have "share_part_ok sh flt \<longleftrightarrow> sh \<and> share_group_ok r"
    by (auto simp: r share_part_ok_def Let_def)
  then show ?thesis by (simp add: r)
qed

lemma pub_topic_loop_iff: "pub_topic_loop s \<longleftrightarrow> CHR ''#'' \<notin> set s \<and> CHR ''+'' \<notin> set s"
  by (induction s) auto

section \<open>The matcher against the reference\<close>

lemma hd_plus_level:
  "find_sep f = Some n \<Longrightarrow> hd f = CHR ''+'' \<and> n = 1 \<longleftrightarrow> take n f = ''+''"
  using find_sep_Some(2) [of f n] by (cases f) (auto simp: take_Cons' split: if_splits)

lemma len1_hash: "length f = Suc 0 \<and> hd f = CHR ''#'' \<longleftrightarrow> f = ''#''"
  by (cases f) auto

lemma len1_plus: "hd f = CHR ''+'' \<and> length f = Suc 0 \<longleftrightarrow> f = ''+''"
  by (cases f) auto

lemma levels_hash: "levels ''#'' = [''#'']"
  by simp

lemma levels_match_hash: "levels_match [''#''] ts"
  by (cases ts) auto

lemma isTopicMatch_ended:
  "isTopicMatch f [] = Some (f = ''#'' \<or> f = [])"
  by (subst isTopicMatch.simps) (simp add: len1_hash)

lemma find_sep_hash: "find_sep f = Some n \<Longrightarrow> f \<noteq> ''#''"
  by (auto simp: find_sep_def Let_def)

text \<open>An ended topic matches what is left of the filter only if that is a final \<^verbatim>\<open>#\<close>.\<close>

lemma levels_match_ended:
  "levels_match (levels f) [] \<longleftrightarrow> f = ''#''"
proof (cases "find_sep f")
  case None
  then show ?thesis by (simp add: find_sep_None)
next
  case (Some n)
  then show ?thesis using find_sep_hash [OF Some] by (simp add: find_sep_Some(1) [OF Some])
qed

lemma topic_rest:
  assumes "find_sep t = Some n"
  shows "t \<noteq> []" and "last t \<noteq> CHR ''/'' \<Longrightarrow> drop (n + 1) t \<noteq> [] \<and> last (drop (n + 1) t) \<noteq> CHR ''/''"
proof -
  note s = find_sep_Some(3) [OF assms]
  from s show "t \<noteq> []" by auto
  have "last t = (if drop (n + 1) t = [] then CHR ''/'' else last (drop (n + 1) t))"
    by (subst s) simp
  then show "last t \<noteq> CHR ''/'' \<Longrightarrow> drop (n + 1) t \<noteq> [] \<and> last (drop (n + 1) t) \<noteq> CHR ''/''"
    by (auto split: if_splits)
qed

text \<open>The branches of the matcher, in terms of the first level of filter and topic.\<close>

lemma isTopicMatch_hash: "isTopicMatch ''#'' t = Some True"
  by (subst isTopicMatch.simps) simp

lemma isTopicMatch_one_level:
  assumes "f \<noteq> ''#''" and "t \<noteq> []" and "find_sep f = None"
  shows "isTopicMatch f t =
    (if find_sep t \<noteq> None then Some False
     else if f = [] then None else Some (f = ''+'' \<or> f = t))"
  using assms(1,2) by (subst isTopicMatch.simps) (auto simp: assms(3) len1_hash len1_plus split: option.split)

lemma isTopicMatch_last_level:
  assumes "f \<noteq> ''#''" and "t \<noteq> []" and f: "find_sep f = Some i" and t: "find_sep t = None"
  shows "isTopicMatch f t = Some ((take i f = ''+'' \<or> take i f = t) \<and> drop (i + 1) f = ''#'')"
proof -
  have l: "length f \<le> i + 1 \<longleftrightarrow> drop (i + 1) f = []" by auto
  show ?thesis
    using assms(1,2) hd_plus_level [OF f]
    by (subst isTopicMatch.simps, simp only: f t l option.case prod.case isTopicMatch_ended)
       (auto simp: len1_hash)
qed

lemma isTopicMatch_inner_level:
  assumes "f \<noteq> ''#''" and "t \<noteq> []" and f: "find_sep f = Some i" and t: "find_sep t = Some j"
  shows "isTopicMatch f t =
    (if take i f = ''+'' \<or> take i f = take j t
     then isTopicMatch (drop (i + 1) f) (drop (j + 1) t) else Some False)"
  using assms(1,2) hd_plus_level [OF f]
  by (subst isTopicMatch.simps, simp only: f t option.case prod.case) (auto simp: len1_hash)

lemma isTopicMatch_levels:
  "t \<noteq> [] \<Longrightarrow> last t \<noteq> CHR ''/'' \<Longrightarrow>
     isTopicMatch f t = Some True \<longleftrightarrow> levels_match (levels f) (levels t)"
proof (induction "length f" arbitrary: f t rule: less_induct)
  case less
  show ?case
  proof (cases "f = ''#''")
    case True
    then show ?thesis by (simp add: isTopicMatch_hash levels_match_hash del: levels_match.simps)
  next
    case nh: False
    show ?thesis
    proof (cases "find_sep f")
      case None
      note lf = find_sep_None [OF None]
      note branch = isTopicMatch_one_level [OF nh less.prems(1) None]
      show ?thesis
      proof (cases "find_sep t")
        case None
        then show ?thesis using nh less.prems(1) by (auto simp: branch lf find_sep_None)
      next
        case (Some j)
        then show ?thesis using nh by (simp add: branch lf find_sep_Some(1) [OF Some])
      qed
    next
      case (Some i)
      note lf = find_sep_Some(1,2) [OF Some] and fi = Some
      show ?thesis
      proof (cases "find_sep t")
        case None
        show ?thesis
          by (simp add: isTopicMatch_last_level [OF nh less.prems(1) fi None] lf find_sep_None [OF None]
              levels_match_ended)
      next
        case (Some j)
        note lt = find_sep_Some(1) [OF Some] and rest = topic_rest(2) [OF Some less.prems(2)]
        have "isTopicMatch (drop (i + 1) f) (drop (j + 1) t) = Some True \<longleftrightarrow>
            levels_match (levels (drop (i + 1) f)) (levels (drop (j + 1) t))"
          using rest lf(2) by (intro less.hyps) auto
        then show ?thesis
          by (simp add: isTopicMatch_inner_level [OF nh less.prems(1) fi Some] lf(1) lt)
      qed
    qed
  qed
qed

text \<open>
  Soundness for every topic that is not empty, the ones ending with a separator included:
  what the matcher accepts, the reference accepts.
\<close>

lemma isTopicMatch_sound:
  "t \<noteq> [] \<Longrightarrow> isTopicMatch f t = Some True \<Longrightarrow> levels_match (levels f) (levels t)"
proof (induction "length f" arbitrary: f t rule: less_induct)
  case less
  show ?case
  proof (cases "f = ''#''")
    case True
    then show ?thesis by (simp add: levels_match_hash del: levels_match.simps)
  next
    case nh: False
    note m = less.prems(2)
    show ?thesis
    proof (cases "find_sep f")
      case None
      with m show ?thesis
        by (auto simp: isTopicMatch_one_level [OF nh less.prems(1) None] find_sep_None
            split: if_splits)
    next
      case (Some i)
      note lf = find_sep_Some(1,2) [OF Some] and fi = Some
      show ?thesis
      proof (cases "find_sep t")
        case None
        with m show ?thesis
          by (simp add: isTopicMatch_last_level [OF nh less.prems(1) fi None] lf find_sep_None
              levels_match_ended)
      next
        case (Some j)
        let ?f = "drop (i + 1) f" and ?t = "drop (j + 1) t"
        from m have hd: "take i f = ''+'' \<or> take i f = take j t"
          and rest: "isTopicMatch ?f ?t = Some True"
          by (auto simp: isTopicMatch_inner_level [OF nh less.prems(1) fi Some] split: if_splits)
        have "levels_match (levels ?f) (levels ?t)"
        proof (cases "?t = []")
          case False
          then show ?thesis using rest lf(2) by (intro less.hyps) auto
        next
          case True
          with rest have "?f = ''#'' \<or> ?f = []" by (simp add: isTopicMatch_ended)
          with True show ?thesis by auto
        qed
        with hd show ?thesis by (simp add: lf(1) find_sep_Some(1) [OF Some])
      qed
    qed
  qed
qed

text \<open>The matcher stays within the views it is given when the filter has no final separator.\<close>

lemma isTopicMatch_defined:
  "f \<noteq> [] \<Longrightarrow> last f \<noteq> CHR ''/'' \<Longrightarrow> isTopicMatch f t \<noteq> None"
proof (induction "length f" arbitrary: f t rule: less_induct)
  case less
  consider "f = ''#''" | "t = []" | "f \<noteq> ''#''" "t \<noteq> []" by blast
  then show ?case
  proof cases
    case 3
    show ?thesis
    proof (cases "find_sep f")
      case None
      then show ?thesis using less.prems(1) by (auto simp: isTopicMatch_one_level [OF 3 None])
    next
      case (Some i)
      note rest = topic_rest(2) [OF Some less.prems(2)] and lt = find_sep_Some(2) [OF Some]
      have ih: "isTopicMatch (drop (i + 1) f) t' \<noteq> None" for t'
        using rest lt by (intro less.hyps) auto
      show ?thesis
      proof (cases "find_sep t")
        case None
        then show ?thesis by (simp add: isTopicMatch_last_level [OF 3 Some None])
      next
        case (Some j)
        from ih [of "drop (j + 1) t"] show ?thesis
          by (auto simp: isTopicMatch_inner_level [OF 3 \<open>find_sep f = Some i\<close> Some])
      qed
    qed
  qed (simp_all add: isTopicMatch_hash isTopicMatch_ended)
qed

section \<open>Properties\<close>

text \<open>
  C25: With topic verification on, the character loops of
  \<^verbatim>\<open>Op::verifySubFilterInternal\<close> accept a filter exactly when it is not empty, each of its
  levels is well formed (wildcards only alone in a level, \<^verbatim>\<open>#\<close> only in the last one, and
  only if the broker allows wildcards), and, for a \<^verbatim>\<open>$share/\<close> filter, the broker allows
  shared subscriptions and the share name and the filter after it are not empty and the
  share name has no wildcard; with verification off they accept everything.
\<close>

theorem verifySubFilter_decides_levels:
  "verifySubFilterInternal cs w sh flt \<longleftrightarrow>
     \<not> m_verifyOutgoingTopic cs \<or>
     flt \<noteq> [] \<and> filter_levels_ok w (levels flt) \<and>
     (\<forall>r. flt = SharePrefix @ r \<longrightarrow> sh \<and> share_group_ok r)"
  by (auto simp: verifySubFilterInternal_def share_part_ok_iff sub_filter_loop_levels)

theorem verifySubFilter_decides_levels_witness:
  "\<not> verifySubFilterInternal (ConfigState_init default_config) True True ''$share/g/''"
  unfolding verifySubFilter_decides_levels
  by (auto simp: ConfigState_init_def default_config_def SharePrefix_def share_group_ok_def
      Cons_eq_append_conv append_eq_Cons_conv)

text \<open>
  A topic the application publishes on is accepted exactly when outgoing verification
  is off or it is not empty, has no wildcard character and does not start with \<^verbatim>\<open>$\<close>; a
  topic the broker delivers likewise, but it may start with \<^verbatim>\<open>$\<close>.
\<close>

theorem verifyPubTopic_decides:
  "verifyPubTopicInternal cs topic outgoing \<longleftrightarrow>
     \<not> (if outgoing then m_verifyOutgoingTopic cs else m_verifyIncomingTopic cs) \<or>
     topic \<noteq> [] \<and> CHR ''#'' \<notin> set topic \<and> CHR ''+'' \<notin> set topic \<and>
     \<not> (outgoing \<and> hd topic = CHR ''$'')"
  by (auto simp: verifyPubTopicInternal_def pub_topic_loop_iff)

theorem verifyPubTopic_decides_witness:
  "\<not> verifyPubTopicInternal (ConfigState_init default_config) ''$SYS'' True"
  unfolding verifyPubTopic_decides by (simp add: ConfigState_init_def default_config_def)

text \<open>
  C26: For every topic that is not empty and does not end with a separator, the recursive
  matcher \<^verbatim>\<open>isTopicMatch\<close> accepts the topic exactly when the filter's levels match the
  topic's levels in the sense of MQTT (\<^verbatim>\<open>+\<close> one level, a final \<^verbatim>\<open>#\<close> any number of them,
  the parent level included).
\<close>

theorem isTopicMatch_is_level_match:
  "t \<noteq> [] \<Longrightarrow> last t \<noteq> CHR ''/'' \<Longrightarrow>
     isTopicMatch f t = Some True \<longleftrightarrow> levels_match (levels f) (levels t)"
  by (rule isTopicMatch_levels)

theorem isTopicMatch_is_level_match_witness:
  "isTopicMatch ''a/+/#'' ''a/b'' = Some True"
  by (subst isTopicMatch_is_level_match) simp_all

text \<open>
  Whatever the matcher accepts is a match in the sense of MQTT, for every topic that is
  not empty, so a message outside the recorded subscriptions is never taken for one inside.
\<close>

theorem isTopicMatch_never_too_wide:
  "t \<noteq> [] \<Longrightarrow> isTopicMatch f t = Some True \<Longrightarrow> levels_match (levels f) (levels t)"
  by (rule isTopicMatch_sound)

theorem isTopicMatch_never_too_wide_witness:
  "levels_match (levels ''+/'') (levels ''a/'')"
  by (rule isTopicMatch_never_too_wide) (simp_all add: isTopicMatch.simps find_sep_def)

text \<open>
  The converse of the previous property fails for topics that end with a separator: the filter
  \<^verbatim>\<open>sport/+\<close> matches the topic \<^verbatim>\<open>sport/\<close> in MQTT, where \<^verbatim>\<open>+\<close> stands for the empty level,
  and \<^verbatim>\<open>isTopicMatch\<close> rejects it, so such a message is dropped as not subscribed. A filter
  that ends with a separator makes the matcher read the first character of an empty view.
\<close>

theorem isTopicMatch_misses_empty_level:
  "isTopicMatch ''sport/+'' ''sport/'' = Some False \<and>
   levels_match (levels ''sport/+'') (levels ''sport/'') \<and>
   isTopicMatch ''a/'' ''a/b'' = None"
  by (simp add: isTopicMatch.simps find_sep_def)

text \<open>
  A filter that is not empty and does not end with a separator is matched without
  reading outside the two views, whatever the topic.
\<close>

theorem isTopicMatch_in_bounds:
  "f \<noteq> [] \<Longrightarrow> last f \<noteq> CHR ''/'' \<Longrightarrow> isTopicMatch f t \<noteq> None"
  by (rule isTopicMatch_defined)

theorem isTopicMatch_in_bounds_witness: "isTopicMatch ''a/b'' ''a'' \<noteq> None"
  by (rule isTopicMatch_in_bounds) simp_all

text \<open>
  C34: A shared subscription \<^verbatim>\<open>$share/<name>/<filter>\<close> is recorded with its prefix, and the
  matcher does not strip it: the recorded filter matches only topics whose first level is
  \<^verbatim>\<open>$share\<close>. A message that the broker delivers for the shared subscription, on a
  topic matching \<^verbatim>\<open><filter>\<close>, is not recognised.
\<close>

theorem shared_filter_matches_only_share_topics:
  assumes "isTopicMatch (SharePrefix @ r) t = Some True" and "t \<noteq> []"
  shows "\<exists>r'. levels t = ''$share'' # r'"
proof -
  have "levels (SharePrefix @ r) = ''$share'' # levels r"
    using levels_append_sep [of "''$share''" r] by (simp add: SharePrefix_def)
  moreover have "levels_match (levels (SharePrefix @ r)) (levels t)"
    using assms by (intro isTopicMatch_sound)
  ultimately show ?thesis by (cases "levels t") auto
qed

theorem shared_filter_matches_only_share_topics_witness:
  "isTopicMatch ''$share/g/a'' ''a'' \<noteq> Some True \<and> isTopicMatch ''$share/g/a'' ''$share/g/a'' = Some True"
proof
  show "isTopicMatch ''$share/g/a'' ''a'' \<noteq> Some True"
    using shared_filter_matches_only_share_topics [of "''g/a''" "''a''"] by (auto simp: SharePrefix_def)
qed (simp add: isTopicMatch.simps find_sep_def)

end
