(* ===== verification/Recv_Op.thy ===== *)
theory Recv_Op
  imports Client_Invariant Topic_Names
begin

text \<open>
  \<^verbatim>\<open>RecvOp\<close> (\<^verbatim>\<open>client/lib/src/op/RecvOp.cpp\<close>): the reception of one PUBLISH. It checks
  the message, resolves the topic alias, checks the topic against the recorded subscriptions,
  reports the message to the application and acknowledges it; for QoS 2 it then waits for
  PUBREL.
\<close>

section \<open>Operations\<close>

definition RecvOp_construct :: "build \<Rightarrow> client \<Rightarrow> recv_op \<times> client" where
  "RecvOp_construct b cl =
     (let (idx, cl1) = alloc_timer b cl
      in (\<lparr>ro_id = cl_nextId cl, ro_responseTimer = idx, ro_packetId = 0\<rparr>, cl1))"

text \<open>The search for a recorded filter that matches; \<^term>\<open>None\<close> when the matcher leaves its views.\<close>

fun find_filter :: "cstr list \<Rightarrow> cstr \<Rightarrow> bool option" where
  "find_filter [] topic = Some False"
| "find_filter (flt # flts) topic =
     (case isTopicMatch flt topic of
        None \<Rightarrow> None
      | Some True \<Rightarrow> Some True
      | Some False \<Rightarrow> find_filter flts topic)"

text \<open>What becomes of the topic alias of a message.\<close>

datatype alias_result = Alias_Topic cstr | Alias_Invalid | Alias_Unknown | Alias_Overflow

text \<open>
  The table is indexed by the alias and grown to hold it; a static build cannot grow it
  beyond \<^verbatim>\<open>TopicAliasesLimit\<close> elements.
\<close>

definition resolve_alias ::
  "config \<Rightarrow> nat \<Rightarrow> cstr list \<Rightarrow> cstr \<Rightarrow> nat option \<Rightarrow> alias_result \<times> cstr list" where
  "resolve_alias c maxAlias aliases topic topicAlias =
     (case topicAlias of
        None \<Rightarrow> (Alias_Topic topic, aliases)
      | Some a \<Rightarrow>
          if a = 0 \<or> maxAlias < a then (Alias_Invalid, aliases)
          else if topic \<noteq> [] then
            let n = max (length aliases) (a + 1);
                resized = aliases @ replicate (n - length aliases) []
            in if TopicAliasesLimit c \<noteq> 0 \<and> TopicAliasesLimit c < n then (Alias_Overflow, aliases)
               else (Alias_Topic topic, resized[a := topic])
          else if length aliases \<le> a \<or> aliases ! a = [] then (Alias_Unknown, aliases)
          else (Alias_Topic (aliases ! a), aliases))"

definition message_info_of :: "build \<Rightarrow> publish_msg \<Rightarrow> props_handler \<Rightarrow> cstr \<Rightarrow> message_info" where
  "message_info_of b msg h topic =
     \<lparr>mi_topic = topic, mi_data = pm_payload msg, mi_responseTopic = ph_responseTopic h,
      mi_correlationData = (case ph_correlationData h of None \<Rightarrow> [] | Some d \<Rightarrow> d),
      mi_userProps = fillUserProps (b_config b) h,
      mi_contentType = (case ph_contentType h of None \<Rightarrow> None | Some t \<Rightarrow> if t = [] then None else Some t),
      mi_subIds = ph_subscriptionIds h,
      mi_messageExpiryInterval = (case ph_messageExpiryInterval h of None \<Rightarrow> 0 | Some v \<Rightarrow> v),
      mi_qos = pm_qos msg,
      mi_format = (case ph_payloadFormatIndicator h of None \<Rightarrow> 0 | Some v \<Rightarrow> v),
      mi_retained = pm_retain msg\<rparr>"

definition completeNotAuthorized :: "build \<Rightarrow> publish_msg \<Rightarrow> op_id \<Rightarrow> client \<Rightarrow> client" where
  "completeNotAuthorized b msg i cl =
     (let c = b_config b;
          cl1 = (if pm_qos msg = AtMostOnce then cl
                 else if 1 \<le> MaxQos c \<and> pm_qos msg = AtLeastOnce
                 then snd (sendMessage b (Puback_Out (pm_packetId msg) (Some RC_NotAuthorized)) cl)
                 else if 2 \<le> MaxQos c
                 then snd (sendMessage b (Pubrec_Out (pm_packetId msg) (Some RC_NotAuthorized)) cl)
                 else cl)
      in opComplete b (Type_Recv, i) cl1)"

text \<open>The end of the handler: the message is reported and acknowledged.\<close>

definition report_message :: "build \<Rightarrow> publish_msg \<Rightarrow> op_id \<Rightarrow> message_info \<Rightarrow> client \<Rightarrow> client" where
  "report_message b msg i info cl =
     (let c = b_config b; ev = Ev_MessageReceived info in
      if pm_qos msg = AtMostOnce then opComplete b (Type_Recv, i) (emit ev cl)
      else if 1 \<le> MaxQos c \<and> \<not> pm_packetIdExists msg then terminationWithReason b RC_UnspecifiedError cl
      else
        let cl1 = (if 1 \<le> MaxQos c then emit ev cl else cl) in
        if 1 \<le> MaxQos c \<and> pm_qos msg = AtLeastOnce
        then opComplete b (Type_Recv, i) (snd (sendMessage b (Puback_Out (pm_packetId msg) None) cl1))
        else if 2 \<le> MaxQos c
        then
          let cl2 = upd_recv i (\<lambda>p. p\<lparr>ro_packetId := pm_packetId msg\<rparr>) cl1;
              cl3 = snd (sendMessage b (Pubrec_Out (pm_packetId msg) None) cl2)
          in RecvOp_restartResponseTimer b i cl3
        else cl1)"

text \<open>The middle: properties, topic alias and subscription.\<close>

definition accept_message :: "build \<Rightarrow> publish_msg \<Rightarrow> op_id \<Rightarrow> client \<Rightarrow> client" where
  "accept_message b msg i cl =
     (let c = b_config b; ss = m_sessionState cl; h = handle_props c (pm_props msg) in
      if pm_topic msg \<noteq> [] \<and> \<not> verifyPubTopic c (m_configState cl) (pm_topic msg) False
      then protocolErrorTermination b cl
      else if isProtocolError h then protocolErrorTermination b cl
      else if pm_topic msg = [] \<and> ph_topicAlias h = None then protocolErrorTermination b cl
      else
        let (res, aliases) =
              resolve_alias c (m_maxRecvTopicAlias ss) (m_recvTopicAliases ss) (pm_topic msg) (ph_topicAlias h);
            cl1 = on_session_state (\<lambda>s. s\<lparr>m_recvTopicAliases := aliases\<rparr>) cl
        in case res of
             Alias_Invalid \<Rightarrow> terminationWithReason b RC_TopicAliasInvalid cl1
           | Alias_Unknown \<Rightarrow> protocolErrorTermination b cl1
           | Alias_Overflow \<Rightarrow> fault Out_Of_Range cl1
           | Alias_Topic topic \<Rightarrow>
               (case (if HasSubTopicVerification c \<and> m_verifySubFilter (m_configState cl1)
                      then find_filter (m_subFilters cl1) topic else Some True) of
                  None \<Rightarrow> fault Out_Of_Range cl1
                | Some False \<Rightarrow> completeNotAuthorized b msg i cl1
                | Some True \<Rightarrow> report_message b msg i (message_info_of b msg h topic) cl1))"

definition RecvOp_handle_Publish :: "build \<Rightarrow> publish_msg \<Rightarrow> op_id \<Rightarrow> client \<Rightarrow> client" where
  "RecvOp_handle_Publish b msg i cl =
     (case recv_op_at i cl of
        None \<Rightarrow> fault Use_After_Free cl
      | Some op \<Rightarrow>
          let c = b_config b; q = pm_qos msg; ss = m_sessionState cl in
          if ExactlyOnce < q then protocolErrorTermination b cl
          else if MaxQos c < q then terminationWithReason b RC_QosNotSupported cl
          else if 2 \<le> MaxQos c \<and> q = ExactlyOnce \<and> ro_packetId op \<noteq> 0 \<and> pm_packetIdExists msg
          then
            if pm_packetId msg \<noteq> ro_packetId op then cl
            else RecvOp_restartResponseTimer b i (snd (sendMessage b (Pubrec_Out (ro_packetId op) None) cl))
          else if 1 \<le> MaxQos c \<and> AtMostOnce < q \<and> 0 < m_highQosRecvLimit ss \<and>
                  m_highQosRecvLimit ss < length (m_recvOps cl)
          then terminationWithReason b RC_ReceiveMaxExceeded cl
          else if \<not> m_connected ss then completeNotAuthorized b msg i cl
          else accept_message b msg i cl)"

definition RecvOp_handle_Pubrel :: "build \<Rightarrow> ack_msg \<Rightarrow> op_id \<Rightarrow> client \<Rightarrow> client" where
  "RecvOp_handle_Pubrel b msg i cl =
     (case recv_op_at i cl of
        None \<Rightarrow> fault Use_After_Free cl
      | Some op \<Rightarrow>
          if am_packetId msg \<noteq> ro_packetId op then cl
          else
            let c = b_config b; cl1 = on_timers (timerCancel (ro_responseTimer op)) cl;
                h = (case am_props msg of None \<Rightarrow> PropsHandler_init | Some ps \<Rightarrow> handle_props c ps);
                problemInfoAllowed = m_problemInfoAllowed (m_sessionState cl1) in
            if \<not> am_valid msg then terminationWithReason b RC_MalformedPacket cl1
            else if ph_reasonStr h \<noteq> None \<and> \<not> problemInfoAllowed then protocolErrorTermination b cl1
            else if HasUserProps c \<and> ph_userProps h \<noteq> [] \<and> \<not> problemInfoAllowed
            then protocolErrorTermination b cl1
            else
              (case am_reasonCode msg of
                 Some rc \<Rightarrow>
                   if rc \<noteq> RC_Success then opComplete b (Type_Recv, i) cl1
                   else opComplete b (Type_Recv, i)
                          (snd (sendMessage b (Pubcomp_Out (ro_packetId op) None) cl1))
               | None \<Rightarrow>
                   opComplete b (Type_Recv, i)
                     (snd (sendMessage b (Pubcomp_Out (ro_packetId op) None) cl1))))"

definition resetTimer :: "build \<Rightarrow> recv_op \<Rightarrow> client \<Rightarrow> client" where
  "resetTimer b op cl =
     (if 2 \<le> MaxQos (b_config b) then on_timers (timerCancel (ro_responseTimer op)) cl else cl)"

definition RecvOp_responseTimeoutInternal :: "build \<Rightarrow> op_id \<Rightarrow> client \<Rightarrow> client" where
  "RecvOp_responseTimeoutInternal b i cl =
     (if 2 \<le> MaxQos (b_config b)
      then
        (case recv_op_at i cl of
           None \<Rightarrow> fault Use_After_Free cl
         | Some op \<Rightarrow> opComplete b (Type_Recv, i) cl)
      else cl)"

section \<open>The invariant\<close>

lemma recv_live:
  "client_ok cl \<Longrightarrow> recv_op_at i cl = Some op \<Longrightarrow> Some (Type_Recv, i) \<in> set (m_ops cl)"
proof -
  assume ok: "client_ok cl" and "recv_op_at i cl = Some op"
  then have "i \<in> set (live_ids Type_Recv cl)"
    using op_at_in [of ro_id i "m_recvOps cl" op] by (auto simp: recv_op_at_def live_ids_def)
  with ok show ?thesis by (simp add: client_ok_def registry_ok_def)
qed

lemma recv_op_at_effects [simp]:
  "recv_op_at i (snd (sendMessage b msg cl)) = recv_op_at i cl"
  "recv_op_at i (emit ev cl) = recv_op_at i cl" "recv_op_at i (on_timers g cl) = recv_op_at i cl"
  "recv_op_at i (on_session_state k cl) = recv_op_at i cl"
  by (simp_all add: recv_op_at_def emit_def on_timers_def on_session_state_def)

lemma same_core_upd_recv:
  "(\<And>p. ro_id (f p) = ro_id p) \<Longrightarrow> same_core (upd_recv i f cl) cl"
  by (simp add: same_core_def upd_recv_def live_ids_def upd_op_def split: op_type.split)

lemma complete_recv_ok:
  "client_ok cl \<Longrightarrow> recv_op_at i cl = Some op \<Longrightarrow> step_ok (opComplete b (Type_Recv, i) cl) cl"
  by (rule opComplete_ok(1)) (simp_all add: recv_live)

lemma recv_restart_ok:
  "client_ok cl \<Longrightarrow> recv_op_at i cl = Some op \<Longrightarrow> step_ok (RecvOp_restartResponseTimer b i cl) cl"
  by (simp add: RecvOp_restartResponseTimer_def step_ok_refl step_ok_effect_refl)

lemma sent_complete_recv_ok:
  "client_ok cl \<Longrightarrow> recv_op_at i cl = Some op \<Longrightarrow>
     step_ok (opComplete b (Type_Recv, i) (snd (sendMessage b msg cl))) cl"
  by (rule step_after_effect [where c = "snd (sendMessage b msg cl)"])
     (simp_all add: complete_recv_ok)

lemma completeNotAuthorized_ok:
  "client_ok cl \<Longrightarrow> recv_op_at i cl = Some op \<Longrightarrow> step_ok (completeNotAuthorized b msg i cl) cl"
  by (simp add: completeNotAuthorized_def Let_def complete_recv_ok sent_complete_recv_ok)

lemma report_message_ok:
  assumes ok: "client_ok cl" and op: "recv_op_at i cl = Some op"
  shows "step_ok (report_message b msg i info cl) cl"
proof -
  let ?e = "emit (Ev_MessageReceived info) cl"
  have e: "step_ok ?e cl" by (rule step_ok_effect_refl [OF ok]) simp_all
  have oke: "client_ok ?e" "recv_op_at i ?e = Some op" using step_ok_ok [OF e] op by simp_all
  have w: "step_ok (RecvOp_restartResponseTimer b i
      (snd (sendMessage b m (upd_recv i (\<lambda>p. p\<lparr>ro_packetId := pm_packetId msg\<rparr>) c)))) c"
    (is "step_ok (RecvOp_restartResponseTimer b i ?s) c") if c: "client_ok c" "recv_op_at i c = Some op" for m c
  proof -
    let ?u = "upd_recv i (\<lambda>p. p\<lparr>ro_packetId := pm_packetId msg\<rparr>) c"
    have "step_ok ?u c"
      by (rule step_ok_effect_refl [OF c(1)]) (simp_all add: same_core_upd_recv, simp add: same_outer_def upd_recv_def)
    then have s: "step_ok ?s c" by (rule step_ok_effect) simp_all
    have "\<exists>op'. recv_op_at i ?s = Some op'"
      using c(2) by (simp add: recv_op_at_def upd_recv_def op_at_upd_op)
    then show ?thesis using recv_restart_ok step_ok_ok [OF s] s step_ok_trans by blast
  qed
  show ?thesis
    unfolding report_message_def Let_def
    using ok op oke e step_ok_trans [OF complete_recv_ok [OF oke] e]
      step_ok_trans [OF sent_complete_recv_ok [OF oke] e] sent_complete_recv_ok [OF ok op]
      terminationWithReason_ok [OF ok] w [OF ok op] step_ok_trans [OF w [OF oke] e] step_ok_refl [OF ok]
    by (simp split del: if_split) (intro step_ok_if; simp)
qed

definition recv_faults :: "build \<Rightarrow> client \<Rightarrow> fault set" where
  "recv_faults b cl =
     (if (\<forall>flt\<in>set (m_subFilters cl). flt \<noteq> [] \<and> last flt \<noteq> CHR ''/'') \<and>
         (TopicAliasesLimit (b_config b) = 0 \<or>
            length (m_recvTopicAliases (m_sessionState cl)) \<le> TopicAliasesLimit (b_config b) \<and>
            m_maxRecvTopicAlias (m_sessionState cl) < TopicAliasesLimit (b_config b))
      then {} else {Out_Of_Range})"

lemma find_filter_defined:
  "\<forall>flt\<in>set flts. flt \<noteq> [] \<and> last flt \<noteq> CHR ''/'' \<Longrightarrow> find_filter flts t \<noteq> None"
  by (induction flts) (auto simp: isTopicMatch_defined split: option.splits bool.splits)

lemma resolve_alias_overflow:
  "resolve_alias c maxAlias aliases topic topicAlias = (Alias_Overflow, al) \<Longrightarrow>
     TopicAliasesLimit c \<noteq> 0 \<and>
     (TopicAliasesLimit c < length aliases \<or> TopicAliasesLimit c \<le> maxAlias)"
  by (auto simp: resolve_alias_def Let_def split: option.splits if_splits)

lemma accept_message_ok:
  assumes ok: "client_ok cl" and op: "recv_op_at i cl = Some op"
  shows "stays_ok (recv_faults b cl) (accept_message b msg i cl) cl"
proof -
  let ?F = "recv_faults b cl" and ?c = "b_config b" and ?ss = "m_sessionState cl"
  let ?h = "handle_props ?c (pm_props msg)"
  obtain res aliases where ra: "resolve_alias ?c (m_maxRecvTopicAlias ?ss) (m_recvTopicAliases ?ss)
      (pm_topic msg) (ph_topicAlias ?h) = (res, aliases)" by (cases "resolve_alias ?c (m_maxRecvTopicAlias ?ss)
      (m_recvTopicAliases ?ss) (pm_topic msg) (ph_topicAlias ?h)")
  let ?cl1 = "on_session_state (\<lambda>s. s\<lparr>m_recvTopicAliases := aliases\<rparr>) cl"
  have s1: "step_ok ?cl1 cl" by (rule step_ok_effect_refl [OF ok]) simp_all
  have ok1: "client_ok ?cl1" by (rule step_ok_ok [OF s1])
  have op1: "recv_op_at i ?cl1 = Some op" using op by simp
  have sub1: "m_subFilters ?cl1 = m_subFilters cl" by (simp add: on_session_state_def)
  have perr: "stays_ok ?F (protocolErrorTermination b cl) cl" "stays_ok ?F (protocolErrorTermination b ?cl1) cl"
    "stays_ok ?F (terminationWithReason b RC_TopicAliasInvalid ?cl1) cl"
    using terminationWithReason_ok [OF ok, of b] step_ok_trans [OF terminationWithReason_ok [OF ok1, of b] s1]
    by (auto simp: protocolErrorTermination_def intro: stays_ok_step)
  have done1: "stays_ok ?F (completeNotAuthorized b msg i ?cl1) cl"
    "stays_ok ?F (report_message b msg i info ?cl1) cl" for info
    using step_ok_trans [OF completeNotAuthorized_ok [OF ok1 op1] s1]
      step_ok_trans [OF report_message_ok [OF ok1 op1] s1] by (auto intro: stays_ok_step)
  have bad: "stays_ok ?F (fault Out_Of_Range ?cl1) cl" if "?F \<noteq> {}"
  proof -
    have "Out_Of_Range \<in> ?F" using that by (auto simp: recv_faults_def split: if_splits)
    then show ?thesis by (intro stays_after_step [OF s1] stays_ok_fault)
  qed
  have over: "?F \<noteq> {}" if "res = Alias_Overflow"
    using resolve_alias_overflow ra that by (fastforce simp: recv_faults_def)
  have undef: "?F \<noteq> {}" if "find_filter (m_subFilters cl) topic = None" for topic
    using find_filter_defined [of "m_subFilters cl" topic] that by (auto simp: recv_faults_def)
  have final: "stays_ok ?F (case res of
             Alias_Invalid \<Rightarrow> terminationWithReason b RC_TopicAliasInvalid ?cl1
           | Alias_Unknown \<Rightarrow> protocolErrorTermination b ?cl1
           | Alias_Overflow \<Rightarrow> fault Out_Of_Range ?cl1
           | Alias_Topic topic \<Rightarrow>
               (case (if HasSubTopicVerification ?c \<and> m_verifySubFilter (m_configState ?cl1)
                      then find_filter (m_subFilters ?cl1) topic else Some True) of
                  None \<Rightarrow> fault Out_Of_Range ?cl1
                | Some False \<Rightarrow> completeNotAuthorized b msg i ?cl1
                | Some True \<Rightarrow> report_message b msg i (message_info_of b msg ?h topic) ?cl1)) cl"
    using perr done1 bad over undef unfolding sub1
    by (auto split: alias_result.split option.split bool.split if_splits)
  show ?thesis
    unfolding accept_message_def Let_def ra prod.case
    using perr(1) final by (intro stays_ok_if)
qed

lemma RecvOp_handle_Publish_ok:
  assumes ok: "client_ok cl" and op: "recv_op_at i cl = Some op"
  shows "stays_ok (recv_faults b cl) (RecvOp_handle_Publish b msg i cl) cl"
proof -
  have s: "step_ok (RecvOp_restartResponseTimer b i (snd (sendMessage b m cl))) cl" for m
    by (rule step_after_effect [OF ok, of "snd (sendMessage b m cl)"]) (simp_all add: recv_restart_ok op)
  show ?thesis
    unfolding RecvOp_handle_Publish_def op option.case Let_def protocolErrorTermination_def
    by (intro stays_ok_if accept_message_ok [OF ok op])
       (simp_all add: stays_ok_step terminationWithReason_ok completeNotAuthorized_ok s ok op stays_ok_refl)
qed

lemma RecvOp_handle_Pubrel_ok:
  assumes ok: "client_ok cl" and op: "recv_op_at i cl = Some op"
  shows "step_ok (RecvOp_handle_Pubrel b msg i cl) cl"
proof -
  let ?cl1 = "on_timers (timerCancel (ro_responseTimer op)) cl"
  have s1: "step_ok ?cl1 cl" by (rule step_ok_effect_refl [OF ok]) simp_all
  have ok1: "client_ok ?cl1" and op1: "recv_op_at i ?cl1 = Some op"
    using step_ok_ok [OF s1] op by simp_all
  have t: "step_ok (terminationWithReason b r ?cl1) cl" "step_ok (opComplete b (Type_Recv, i) ?cl1) cl"
    "step_ok (opComplete b (Type_Recv, i) (snd (sendMessage b m ?cl1))) cl" for r m
    using step_ok_trans [OF terminationWithReason_ok [OF ok1] s1] step_ok_trans [OF complete_recv_ok [OF ok1 op1] s1]
      step_ok_trans [OF sent_complete_recv_ok [OF ok1 op1] s1] by simp_all
  show ?thesis
    unfolding RecvOp_handle_Pubrel_def op option.case Let_def protocolErrorTermination_def
    by (intro step_ok_if) (simp_all add: t step_ok_refl ok split: option.split)
qed

lemma RecvOp_responseTimeoutInternal_ok:
  "client_ok cl \<Longrightarrow> recv_op_at i cl = Some op \<Longrightarrow> step_ok (RecvOp_responseTimeoutInternal b i cl) cl"
  by (simp add: RecvOp_responseTimeoutInternal_def complete_recv_ok step_ok_refl)

lemma resetTimer_ok: "client_ok cl \<Longrightarrow> step_ok (resetTimer b op cl) cl"
  by (simp add: resetTimer_def step_ok_refl step_ok_effect_refl)

end
