(* ===== verification/Send_Op.thy ===== *)
theory Send_Op
  imports Client_Invariant Topic_Names
begin

text \<open>
  \<^verbatim>\<open>SendOp\<close> (\<^verbatim>\<open>client/lib/src/op/SendOp.cpp\<close>): the configuration of a PUBLISH and the
  handling of its acknowledgements. Sending, resuming and resending are in the theories
  of the client, which they call and are called by.
\<close>

section \<open>Construction and configuration\<close>

definition PublishMsg_init :: "build \<Rightarrow> publish_msg" where
  "PublishMsg_init b =
     \<lparr>pm_dup = False, pm_qos = AtMostOnce, pm_retain = False, pm_topic = [],
      pm_packetId = default_packet_id b, pm_packetIdExists = False, pm_props = [], pm_payload = []\<rparr>"

definition SendOp_construct :: "build \<Rightarrow> client \<Rightarrow> send_op \<times> client" where
  "SendOp_construct b cl =
     (let (idx, cl1) = alloc_timer b cl
      in (\<lparr>so_id = cl_nextId cl, so_responseTimer = idx,
           so_responseTimeoutMs = m_responseTimeoutMs (m_configState cl),
           so_pubMsg = PublishMsg_init b, so_cb = False,
           so_totalSendAttempts = 2, so_sendAttempts = 0, so_reasonCode = RC_Success,
           so_published = False, so_acked = False, so_registeredAlias = False,
           so_topicConfigured = False, so_paused = False\<rparr>, cl1))"

text \<open>\<^verbatim>\<open>CC_Mqtt5PublishBasicConfig\<close>; a null pointer is \<^term>\<open>None\<close>.\<close>

record publish_basic_config =
  pb_topic :: "cstr option"
  pb_data :: bytes
  pb_qos :: qos
  pb_topicAliasPref :: topic_alias_pref
  pb_retain :: bool

text \<open>
  The choice of a topic alias: an error, or the alias to use (0 for none), whether the topic is
  sent too, and the alias table in which a registration may have been counted.
\<close>

definition select_alias ::
  "build \<Rightarrow> topic_alias_pref \<Rightarrow> cstr \<Rightarrow> topic_alias_info list \<Rightarrow>
   error_code + nat \<times> bool \<times> topic_alias_info list" where
  "select_alias b pref topic aliases =
     (if HasTopicAliases (b_config b) then
        if pref = Pref_ForceTopicOnly then Inr (0, True, aliases)
        else if \<not> lb_found ta_topic topic aliases then
          if pref = Pref_ForceTopicWithAlias \<or> pref = Pref_ForceAliasOnly then Inl EC_BadParam
          else Inr (0, True, aliases)
        else
          let k = lower_bound ta_topic topic aliases; info = aliases ! k in
          if pref = Pref_ForceTopicWithAlias then Inr (ta_alias info, True, aliases)
          else if pref = Pref_ForceAliasOnly then Inr (ta_alias info, False, aliases)
          else if ta_lowQosRegRemCount info = 0 then Inr (ta_alias info, False, aliases)
          else Inr (ta_alias info, True,
                    aliases[k := info\<lparr>ta_lowQosRegRemCount := ta_lowQosRegRemCount info - 1\<rparr>])
      else
        if pref \<noteq> Pref_UseAliasIfAvailable \<and> pref \<noteq> Pref_ForceTopicOnly then Inl EC_NotSupported
        else Inr (0, True, aliases))"

definition configBasic :: "build \<Rightarrow> publish_basic_config \<Rightarrow> op_id \<Rightarrow> client \<Rightarrow> error_code \<times> client" where
  "configBasic b cfg i cl =
     (let c = b_config b; ss = m_sessionState cl in
      case pb_topic cfg of
        None \<Rightarrow> (EC_BadParam, cl)
      | Some topic \<Rightarrow>
          if topic = [] then (EC_BadParam, cl)
          else if \<not> verifyPubTopic c (m_configState cl) topic True then (EC_BadParam, cl)
          else if m_pubMaxQos ss < pb_qos cfg \<or> MaxQos c < pb_qos cfg then (EC_BadParam, cl)
          else if pb_retain cfg \<and> \<not> m_retainAvailable ss then (EC_BadParam, cl)
          else
            (case select_alias b (pb_topicAliasPref cfg) topic (m_sendTopicAliases (m_clientState cl)) of
               Inl ec \<Rightarrow> (ec, cl)
             | Inr (alias, mustAssignTopic, aliases) \<Rightarrow>
                 let cl1 = on_client_state (\<lambda>s. s\<lparr>m_sendTopicAliases := aliases\<rparr>) cl;
                     cl2 = upd_send i (\<lambda>p. p\<lparr>so_pubMsg := (so_pubMsg p)\<lparr>pm_retain := pb_retain cfg, pm_qos := pb_qos cfg\<rparr>\<rparr>) cl1;
                     cl3 = (if mustAssignTopic
                            then upd_send i (\<lambda>p. p\<lparr>so_pubMsg := (so_pubMsg p)\<lparr>pm_topic := topic\<rparr>, so_topicConfigured := True\<rparr>) cl2
                            else cl2)
                 in if mustAssignTopic \<and> maxStringLen < length topic then (EC_BadParam, cl3)
                    else
                      case send_op_at i cl3 of
                        None \<Rightarrow> (EC_InternalError, fault Use_After_Free cl3)
                      | Some op \<Rightarrow>
                          if 0 < alias \<and> \<not> canAddProp (publish_props_cap b) (pm_props (so_pubMsg op))
                          then (EC_OutOfMemory, cl3)
                          else
                            let cl4 = (if 0 < alias
                                       then upd_send i (\<lambda>p. p\<lparr>so_pubMsg := (so_pubMsg p)\<lparr>pm_props := pm_props (so_pubMsg p) @ [TopicAlias alias]\<rparr>,
                                                              so_topicConfigured := True\<rparr>) cl3
                                       else cl3);
                                cl5 = (if pb_data cfg \<noteq> []
                                       then upd_send i (\<lambda>p. p\<lparr>so_pubMsg := (so_pubMsg p)\<lparr>pm_payload := pb_data cfg\<rparr>\<rparr>) cl4
                                       else cl4);
                                data = (if pb_data cfg \<noteq> [] then pb_data cfg else pm_payload (so_pubMsg op))
                            in if maxStringLen < length data then (EC_BadParam, cl5)
                               else (EC_Success,
                                     upd_send i (\<lambda>p. p\<lparr>so_registeredAlias := 0 < alias \<and> mustAssignTopic\<rparr>) cl5)))"

text \<open>\<^verbatim>\<open>CC_Mqtt5PublishExtraConfig\<close>; the interval is an \<^verbatim>\<open>unsigned\<close>.\<close>

record publish_extra_config =
  px_contentType :: "cstr option"
  px_responseTopic :: "cstr option"
  px_correlationData :: "bytes option"
  px_correlationDataLen :: nat
  px_messageExpiryInterval :: nat
  px_format :: nat

definition configExtra_props ::
  "build \<Rightarrow> config_state \<Rightarrow> publish_extra_config \<Rightarrow> property list \<Rightarrow> error_code \<times> property list" where
  "configExtra_props b cs cfg ps =
     (let contentType = (case px_contentType cfg of None \<Rightarrow> [] | Some t \<Rightarrow> t);
          responseTopic = (case px_responseTopic cfg of None \<Rightarrow> [] | Some t \<Rightarrow> t);
          correlation = (case px_correlationData cfg of None \<Rightarrow> [] | Some d \<Rightarrow> take (px_correlationDataLen cfg) d);
          r0 = (EC_Success, ps);
          r1 = add_prop_step (publish_props_cap b) (px_contentType cfg \<noteq> None) (maxStringLen < length contentType) (ContentType contentType) r0;
          r2 = fail_step (px_responseTopic cfg \<noteq> None \<and> \<not> verifyPubTopic (b_config b) cs responseTopic True) r1;
          r3 = add_prop_step (publish_props_cap b) (px_responseTopic cfg \<noteq> None) (maxStringLen < length responseTopic) (ResponseTopic responseTopic) r2;
          r4 = fail_step (0 < px_correlationDataLen cfg \<and> px_correlationData cfg = None) r3;
          r5 = add_prop_step (publish_props_cap b) (px_correlationData cfg \<noteq> None) (maxStringLen < length correlation) (CorrelationData correlation) r4;
          r6 = add_prop_step (publish_props_cap b) (0 < px_messageExpiryInterval cfg) False (MessageExpiryInterval (px_messageExpiryInterval cfg)) r5;
          r7 = add_prop_step (publish_props_cap b) (px_format cfg \<noteq> 0) False (PayloadFormatIndicator (px_format cfg)) r6
      in r7)"

definition set_pub_props :: "op_id \<Rightarrow> property list \<Rightarrow> client \<Rightarrow> client" where
  "set_pub_props i ps = upd_send i (\<lambda>p. p\<lparr>so_pubMsg := (so_pubMsg p)\<lparr>pm_props := ps\<rparr>\<rparr>)"

definition configExtra :: "build \<Rightarrow> publish_extra_config \<Rightarrow> op_id \<Rightarrow> client \<Rightarrow> error_code \<times> client" where
  "configExtra b cfg i cl =
     (case send_op_at i cl of
        None \<Rightarrow> (EC_InternalError, fault Use_After_Free cl)
      | Some op \<Rightarrow>
          let (ec, ps) = configExtra_props b (m_configState cl) cfg (pm_props (so_pubMsg op))
          in (ec, set_pub_props i ps cl))"

definition SendOp_addUserProp ::
  "build \<Rightarrow> cstr option \<Rightarrow> cstr option \<Rightarrow> op_id \<Rightarrow> client \<Rightarrow> error_code \<times> client" where
  "SendOp_addUserProp b key val i cl =
     (case send_op_at i cl of
        None \<Rightarrow> (EC_InternalError, fault Use_After_Free cl)
      | Some op \<Rightarrow>
          let (ec, ps) = addUserPropToList (b_config b) (publish_props_cap b) key val (pm_props (so_pubMsg op))
          in (ec, set_pub_props i ps cl))"

definition setResendAttempts :: "nat \<Rightarrow> op_id \<Rightarrow> client \<Rightarrow> error_code \<times> client" where
  "setResendAttempts attempts i cl =
     (if attempts = 0 then (EC_BadParam, cl)
      else (EC_Success, upd_send i (\<lambda>p. p\<lparr>so_totalSendAttempts := attempts\<rparr>) cl))"

section \<open>Acknowledgements\<close>

text \<open>
  The registration of a topic alias is confirmed: the element that the search ends at, which
  is not compared with the topic, needs no more registrations.
\<close>

definition confirmRegisteredAlias :: "send_op \<Rightarrow> client \<Rightarrow> client" where
  "confirmRegisteredAlias op cl =
     (let aliases = m_sendTopicAliases (m_clientState cl);
          k = lower_bound ta_topic (pm_topic (so_pubMsg op)) aliases in
      if length aliases \<le> k then cl
      else on_client_state (\<lambda>s. s\<lparr>m_sendTopicAliases := aliases[k := (aliases ! k)\<lparr>ta_lowQosRegRemCount := 0\<rparr>]\<rparr>) cl)"

text \<open>
  The properties of an acknowledgement: \<^term>\<open>None\<close> for a protocol error, otherwise
  the reason string and the user properties to report.
\<close>

definition ack_props ::
  "build \<Rightarrow> session_state \<Rightarrow> property list option \<Rightarrow> (cstr option \<times> (cstr \<times> cstr) list) option" where
  "ack_props b ss props =
     (case props of
        None \<Rightarrow> Some (None, [])
      | Some ps \<Rightarrow>
          let h = handle_props (b_config b) ps in
          if isProtocolError h then None
          else if ph_reasonStr h \<noteq> None \<and> \<not> m_problemInfoAllowed ss then None
          else if HasUserProps (b_config b) \<and> ph_userProps h \<noteq> [] \<and> \<not> m_problemInfoAllowed ss then None
          else Some (ph_reasonStr h, fillUserProps (b_config b) h))"

text \<open>
  Both scope guards of the handlers run: the operation completes with a protocol error,
  then the connection is terminated.
\<close>

definition ack_failed :: "build \<Rightarrow> op_id \<Rightarrow> client \<Rightarrow> client" where
  "ack_failed b i cl =
     terminationWithReason b RC_ProtocolError (completeWithCb b i St_ProtocolError None cl)"

definition SendOp_handle_Puback :: "build \<Rightarrow> ack_msg \<Rightarrow> op_id \<Rightarrow> client \<Rightarrow> client" where
  "SendOp_handle_Puback b msg i cl =
     (case send_op_at i cl of
        None \<Rightarrow> fault Use_After_Free cl
      | Some op \<Rightarrow>
          let cl1 = on_timers (timerCancel (so_responseTimer op)) cl in
          if pm_qos (so_pubMsg op) \<noteq> AtLeastOnce then ack_failed b i cl1
          else
            let rc = (case am_reasonCode msg of None \<Rightarrow> RC_Success | Some r \<Rightarrow> r);
                cl2 = (if so_registeredAlias op \<and> rc < RC_UnspecifiedError
                       then confirmRegisteredAlias op cl1 else cl1)
            in case ack_props b (m_sessionState cl2) (am_props msg) of
                 None \<Rightarrow> ack_failed b i cl2
               | Some (reasonStr, userProps) \<Rightarrow>
                   completeWithCb b i St_Complete
                     (Some \<lparr>pr_reasonCode = rc, pr_reasonStr = reasonStr, pr_userProps = userProps\<rparr>) cl2)"

definition SendOp_handle_Pubrec :: "build \<Rightarrow> ack_msg \<Rightarrow> op_id \<Rightarrow> client \<Rightarrow> client" where
  "SendOp_handle_Pubrec b msg i cl =
     (case send_op_at i cl of
        None \<Rightarrow> fault Use_After_Free cl
      | Some op \<Rightarrow>
          if pm_packetId (so_pubMsg op) \<noteq> am_packetId msg then cl
          else
            let cl1 = on_timers (timerCancel (so_responseTimer op)) cl in
            if pm_qos (so_pubMsg op) \<noteq> ExactlyOnce then ack_failed b i cl1
            else if so_acked op then ack_failed b i cl1
            else
              case ack_props b (m_sessionState cl1) (am_props msg) of
                None \<Rightarrow> ack_failed b i cl1
              | Some (reasonStr, userProps) \<Rightarrow>
                  let response = (\<lambda>rc. \<lparr>pr_reasonCode = rc, pr_reasonStr = reasonStr, pr_userProps = userProps\<rparr>);
                      rejected = (case am_reasonCode msg of None \<Rightarrow> None
                                  | Some r \<Rightarrow> if RC_UnspecifiedError \<le> r then Some r else None)
                  in case rejected of
                       Some r \<Rightarrow> completeWithCb b i St_Complete (Some (response r)) cl1
                     | None \<Rightarrow>
                         let cl2 = (if so_registeredAlias op then confirmRegisteredAlias op cl1 else cl1);
                             cl3 = upd_send i (\<lambda>p. p\<lparr>so_acked := True, so_sendAttempts := 0\<rparr>) cl2;
                             (result, cl4) = sendMessage b (Pubrel_Out (pm_packetId (so_pubMsg op)) None) cl3
                         in if result \<noteq> EC_Success then completeWithCb b i St_InternalError None cl4
                            else
                              SendOp_restartResponseTimer i
                                (upd_send i (\<lambda>p. p\<lparr>so_reasonCode := pr_reasonCode (response RC_Success),
                                                   so_sendAttempts := Suc (so_sendAttempts p)\<rparr>) cl4))"

definition SendOp_handle_Pubcomp :: "build \<Rightarrow> ack_msg \<Rightarrow> op_id \<Rightarrow> client \<Rightarrow> client" where
  "SendOp_handle_Pubcomp b msg i cl =
     (case send_op_at i cl of
        None \<Rightarrow> fault Use_After_Free cl
      | Some op \<Rightarrow>
          if pm_packetId (so_pubMsg op) \<noteq> am_packetId msg then cl
          else
            let cl1 = on_timers (timerCancel (so_responseTimer op)) cl in
            if pm_qos (so_pubMsg op) \<noteq> ExactlyOnce then ack_failed b i cl1
            else if \<not> so_acked op then ack_failed b i cl1
            else
              let rc = (case am_reasonCode msg of None \<Rightarrow> so_reasonCode op
                        | Some r \<Rightarrow> if r \<noteq> RC_Success then r else so_reasonCode op)
              in case ack_props b (m_sessionState cl1) (am_props msg) of
                   None \<Rightarrow> ack_failed b i cl1
                 | Some (reasonStr, userProps) \<Rightarrow>
                     completeWithCb b i St_Complete
                       (Some \<lparr>pr_reasonCode = rc, pr_reasonStr = reasonStr, pr_userProps = userProps\<rparr>) cl1)"

section \<open>The invariant\<close>

lemma send_op_at_effects2 [simp]:
  "send_op_at i (on_session_state k cl) = send_op_at i cl"
  by (simp add: send_op_at_def)

lemma ack_failed_ok:
  assumes ok: "client_ok cl" and op: "send_op_at i cl = Some op"
  shows "step_ok (ack_failed b i cl) cl"
proof -
  have s: "step_ok (completeWithCb b i St_ProtocolError None cl) cl"
    by (rule completeWithCb_ok [OF ok send_live [OF ok op]])
  show ?thesis
    unfolding ack_failed_def by (rule step_ok_trans [OF terminationWithReason_ok [OF step_ok_ok [OF s]] s])
qed

lemma confirm_same [simp]:
  "same_core (confirmRegisteredAlias op cl) cl" "same_outer (confirmRegisteredAlias op cl) cl"
  "send_op_at i (confirmRegisteredAlias op cl) = send_op_at i cl"
proof -
  show "same_core (confirmRegisteredAlias op cl) cl"
    by (simp add: confirmRegisteredAlias_def Let_def same_core_client_state) (simp add: same_core_def)
qed (simp_all add: confirmRegisteredAlias_def Let_def same_outer_def on_client_state_def send_op_at_def)

lemma complete_send_ok:
  "client_ok cl \<Longrightarrow> send_op_at i cl = Some op \<Longrightarrow> step_ok (completeWithCb b i status response cl) cl"
  by (rule completeWithCb_ok) (simp_all add: send_live)

lemma ack_cancel:
  assumes "client_ok cl" and "send_op_at i cl = Some op"
  shows "step_ok (on_timers g cl) cl" "client_ok (on_timers g cl)" "send_op_at i (on_timers g cl) = Some op"
proof -
  show s: "step_ok (on_timers g cl) cl" by (rule step_ok_effect_refl [OF assms(1)]) simp_all
  show "client_ok (on_timers g cl)" by (rule step_ok_ok [OF s])
qed (simp add: assms(2))

lemma SendOp_handle_Puback_ok:
  assumes ok: "client_ok cl" and op: "send_op_at i cl = Some op"
  shows "step_ok (SendOp_handle_Puback b msg i cl) cl"
proof -
  note c1 = ack_cancel [OF ok op, of "timerCancel (so_responseTimer op)"]
  let ?cl1 = "on_timers (timerCancel (so_responseTimer op)) cl"
  let ?cl2 = "if so_registeredAlias op \<and> (case am_reasonCode msg of None \<Rightarrow> RC_Success | Some r \<Rightarrow> r) < RC_UnspecifiedError
    then confirmRegisteredAlias op ?cl1 else ?cl1"
  have "step_ok (confirmRegisteredAlias op ?cl1) cl" by (rule step_ok_effect [OF c1(1)]) simp_all
  then have s2: "step_ok ?cl2 cl" using c1(1) by (rule step_ok_if)
  have o2: "send_op_at i ?cl2 = Some op" using c1(3) by simp
  have f: "step_ok (ack_failed b i ?cl1) cl" "step_ok (ack_failed b i ?cl2) cl"
    "step_ok (completeWithCb b i St_Complete r ?cl2) cl" for r
    using step_ok_trans [OF ack_failed_ok [OF c1(2,3)] c1(1)]
      step_ok_trans [OF ack_failed_ok [OF step_ok_ok [OF s2] o2] s2]
      step_ok_trans [OF complete_send_ok [OF step_ok_ok [OF s2] o2] s2] by simp_all
  show ?thesis
    unfolding SendOp_handle_Puback_def op option.case Let_def
    by (intro step_ok_if f(1)) (use f in \<open>auto split: option.split prod.split\<close>)
qed

lemma SendOp_handle_Pubcomp_ok:
  assumes ok: "client_ok cl" and op: "send_op_at i cl = Some op"
  shows "step_ok (SendOp_handle_Pubcomp b msg i cl) cl"
proof -
  note c1 = ack_cancel [OF ok op, of "timerCancel (so_responseTimer op)"]
  have f: "step_ok (ack_failed b i (on_timers (timerCancel (so_responseTimer op)) cl)) cl"
    "step_ok (completeWithCb b i St_Complete r (on_timers (timerCancel (so_responseTimer op)) cl)) cl" for r
    using step_ok_trans [OF ack_failed_ok [OF c1(2,3)] c1(1)]
      step_ok_trans [OF complete_send_ok [OF c1(2,3)] c1(1)] by simp_all
  show ?thesis
    unfolding SendOp_handle_Pubcomp_def op option.case Let_def
    by (intro step_ok_if f(1) step_ok_refl ok) (use f in \<open>auto split: option.split prod.split\<close>)
qed

lemma SendOp_handle_Pubrec_ok:
  assumes ok: "client_ok cl" and op: "send_op_at i cl = Some op"
  shows "step_ok (SendOp_handle_Pubrec b msg i cl) cl"
proof -
  note c1 = ack_cancel [OF ok op, of "timerCancel (so_responseTimer op)"]
  let ?cl1 = "on_timers (timerCancel (so_responseTimer op)) cl"
  let ?cl2 = "if so_registeredAlias op then confirmRegisteredAlias op ?cl1 else ?cl1"
  let ?cl3 = "upd_send i (\<lambda>p. p\<lparr>so_acked := True, so_sendAttempts := 0\<rparr>) ?cl2"
  let ?r = "sendMessage b (Pubrel_Out (pm_packetId (so_pubMsg op)) None) ?cl3"
  let ?cl5 = "upd_send i (\<lambda>p. p\<lparr>so_reasonCode := RC_Success, so_sendAttempts := Suc (so_sendAttempts p)\<rparr>) (snd ?r)"
  have "step_ok (confirmRegisteredAlias op ?cl1) cl" by (rule step_ok_effect [OF c1(1)]) simp_all
  then have "step_ok ?cl2 cl" using c1(1) by (rule step_ok_if)
  then have "step_ok ?cl3 cl" by (rule step_ok_effect) (simp_all add: same_core_upd_send)
  then have s4: "step_ok (snd ?r) cl" by (rule step_ok_effect) simp_all
  then have s5: "step_ok ?cl5 cl" by (rule step_ok_effect) (simp_all add: same_core_upd_send)
  have o4: "send_op_at i (snd ?r) = Some (op\<lparr>so_acked := True, so_sendAttempts := 0\<rparr>)"
    using op by (simp add: send_op_at_upd)
  have "\<exists>op5. send_op_at i ?cl5 = Some op5" using op by (simp add: send_op_at_upd)
  then obtain op5 where o5: "send_op_at i ?cl5 = Some op5" ..
  have e: "step_ok (completeWithCb b i St_InternalError None (snd ?r)) cl"
    by (rule step_ok_trans [OF complete_send_ok [OF step_ok_ok [OF s4] o4] s4])
  have w: "step_ok (SendOp_restartResponseTimer i ?cl5) cl"
    unfolding SendOp_restartResponseTimer_def o5 option.case by (rule step_ok_effect [OF s5]) simp_all
  have f: "step_ok (ack_failed b i ?cl1) cl" "step_ok (completeWithCb b i St_Complete r ?cl1) cl" for r
    using step_ok_trans [OF ack_failed_ok [OF c1(2,3)] c1(1)]
      step_ok_trans [OF complete_send_ok [OF c1(2,3)] c1(1)] by simp_all
  show ?thesis
    unfolding SendOp_handle_Pubrec_def op option.case Let_def
    by (intro step_ok_if f(1) step_ok_refl ok)
       (use f e w in \<open>auto simp: split_beta split: option.split\<close>)
qed

end
