(* ===== verification/Subscribe_Op.thy ===== *)
theory Subscribe_Op
  imports Client_Invariant Topic_Names
begin

text \<open>
  \<^verbatim>\<open>SubscribeOp\<close> and \<^verbatim>\<open>UnsubscribeOp\<close> (\<^verbatim>\<open>client/lib/src/op/SubscribeOp.cpp\<close>,
  \<^verbatim>\<open>UnsubscribeOp.cpp\<close>) and the sorted vector of subscription filters they maintain
  (\<^verbatim>\<open>ReuseState::m_subFilters\<close>), against which incoming messages are checked.
\<close>

section \<open>The recorded filters\<close>

abbreviation (input) self :: "cstr \<Rightarrow> cstr" where "self \<equiv> \<lambda>s. s"

text \<open>Recording a granted filter; \<^term>\<open>None\<close> when a fixed-size vector is full.\<close>

definition record_filter :: "config \<Rightarrow> cstr \<Rightarrow> cstr list \<Rightarrow> cstr list option" where
  "record_filter c flt flts =
     (if lb_found self flt flts then Some flts
      else if obj_list_full (SubFiltersLimit c) (HasSubTopicVerification c) flts then None
      else Some (insert_at (lower_bound self flt flts) flt flts))"

definition remove_filter :: "cstr \<Rightarrow> cstr list \<Rightarrow> cstr list" where
  "remove_filter flt flts =
     (if \<not> lb_found self flt flts then flts else erase_at (lower_bound self flt flts) flts)"

abbreviation (input) filters_ok :: "cstr list \<Rightarrow> bool" where
  "filters_ok flts \<equiv> key_sorted self flts"

lemma record_filter_Some:
  assumes "filters_ok flts" and "record_filter c flt flts = Some flts'"
  shows "filters_ok flts'" and "set flts' = insert flt (set flts)"
  using assms key_sorted_insert_at [OF assms(1), of flt] lb_found_iff [OF assms(1), of flt]
  by (auto simp: record_filter_def split: if_splits)

lemma remove_filter_set:
  assumes "filters_ok flts"
  shows "filters_ok (remove_filter flt flts)" and "set (remove_filter flt flts) = set flts - {flt}"
  using assms erase_at_found [OF assms, of flt] lb_found_iff [OF assms, of flt]
  by (auto simp: remove_filter_def)

text \<open>Without a limit the filters are an ordered store.\<close>

definition add_filter :: "config \<Rightarrow> cstr \<Rightarrow> cstr list \<Rightarrow> cstr list" where
  "add_filter c flt flts = (case record_filter c flt flts of None \<Rightarrow> flts | Some flts' \<Rightarrow> flts')"

interpretation sub_filters: ordered_store
  set "\<lambda>flt. lb_found self flt" "add_filter c" remove_filter
  "\<lambda>flts. filters_ok flts \<and> SubFiltersLimit c = 0 \<and> HasSubTopicVerification c" for c :: config
proof
  fix flts :: "cstr list" and flt
  assume a: "filters_ok flts \<and> SubFiltersLimit c = 0 \<and> HasSubTopicVerification c"
  show "lb_found self flt flts \<longleftrightarrow> flt \<in> set flts" using a lb_found_iff [of self flts flt] by simp
  have "record_filter c flt flts \<noteq> None" using a by (simp add: record_filter_def obj_list_full_def)
  then obtain flts' where r: "record_filter c flt flts = Some flts'" by blast
  then show "set (add_filter c flt flts) = insert flt (set flts) \<and>
      filters_ok (add_filter c flt flts) \<and> SubFiltersLimit c = 0 \<and> HasSubTopicVerification c"
    using a record_filter_Some [OF _ r] by (simp add: add_filter_def)
  show "set (remove_filter flt flts) = set flts - {flt} \<and>
      filters_ok (remove_filter flt flts) \<and> SubFiltersLimit c = 0 \<and> HasSubTopicVerification c"
    using a remove_filter_set by simp
qed

section \<open>Configuration\<close>

definition SubscribeOp_construct :: "build \<Rightarrow> client \<Rightarrow> subscribe_op \<times> client" where
  "SubscribeOp_construct b cl =
     (let (idx, cl1) = alloc_timer b cl
      in (\<lparr>sub_id = cl_nextId cl, sub_timer = idx,
           sub_responseTimeoutMs = m_responseTimeoutMs (m_configState cl),
           sub_msg = \<lparr>sm_packetId = default_packet_id b, sm_props = [], sm_list = []\<rparr>, sub_cb = False\<rparr>, cl1))"

definition UnsubscribeOp_construct :: "build \<Rightarrow> client \<Rightarrow> unsubscribe_op \<times> client" where
  "UnsubscribeOp_construct b cl =
     (let (idx, cl1) = alloc_timer b cl
      in (\<lparr>uns_id = cl_nextId cl, uns_timer = idx,
           uns_responseTimeoutMs = m_responseTimeoutMs (m_configState cl),
           uns_msg = \<lparr>um_packetId = default_packet_id b, um_props = [], um_list = []\<rparr>, uns_cb = False\<rparr>, cl1))"

record subscribe_topic_config =
  st_topic :: "cstr option"
  st_maxQos :: qos
  st_retainHandling :: nat
  st_noLocal :: bool
  st_retainAsPublished :: bool

definition cap_reached :: "props_capacity \<Rightarrow> 'a list \<Rightarrow> bool" where
  "cap_reached cap xs = (case cap of None \<Rightarrow> False | Some n \<Rightarrow> n \<le> length xs)"

definition SubscribeOp_configTopic ::
  "build \<Rightarrow> config_state \<Rightarrow> session_state \<Rightarrow> subscribe_topic_config \<Rightarrow> sub_element list \<Rightarrow>
   error_code \<times> sub_element list" where
  "SubscribeOp_configTopic b cs ss cfg topicVec =
     (let c = b_config b in
      case st_topic cfg of
        None \<Rightarrow> (EC_BadParam, topicVec)
      | Some topic \<Rightarrow>
          if topic = [] then (EC_BadParam, topicVec)
          else if \<not> verifySubFilter c cs (m_wildcardSubAvailable ss) (m_sharedSubsAvailable ss) topic
          then (EC_BadParam, topicVec)
          else if st_noLocal cfg \<and> isSharedTopicFilter topic then (EC_BadParam, topicVec)
          else if MaxQos c < st_maxQos cfg then (EC_BadParam, topicVec)
          else if cap_reached (subscribe_list_cap b) topicVec then (EC_OutOfMemory, topicVec)
          else if maxStringLen < length topic then (EC_BadParam, topicVec)
          else (EC_Success,
                topicVec @ [\<lparr>se_topic = topic, se_qos = st_maxQos cfg, se_noLocal = st_noLocal cfg,
                             se_retainAsPublished = st_retainAsPublished cfg,
                             se_retainHandling = st_retainHandling cfg\<rparr>]))"

definition SubscribeOp_configExtra ::
  "build \<Rightarrow> session_state \<Rightarrow> nat \<Rightarrow> property list \<Rightarrow> error_code \<times> property list" where
  "SubscribeOp_configExtra b ss subId ps =
     (if 0 < subId then
        if 268435455 \<le> subId then (EC_BadParam, ps)
        else if \<not> m_subIdsAvailable ss then (EC_BadParam, ps)
        else if \<not> canAddProp (subscribe_props_cap b) ps then (EC_OutOfMemory, ps)
        else (EC_Success, ps @ [SubscriptionId subId])
      else (EC_Success, ps))"

definition UnsubscribeOp_configTopic ::
  "build \<Rightarrow> config_state \<Rightarrow> session_state \<Rightarrow> cstr list \<Rightarrow> cstr option \<Rightarrow> cstr list \<Rightarrow>
   error_code \<times> cstr list" where
  "UnsubscribeOp_configTopic b cs ss subFilters cfgTopic topicVec =
     (let c = b_config b in
      case cfgTopic of
        None \<Rightarrow> (EC_BadParam, topicVec)
      | Some topic \<Rightarrow>
          if topic = [] then (EC_BadParam, topicVec)
          else if \<not> verifySubFilter c cs (m_wildcardSubAvailable ss) (m_sharedSubsAvailable ss) topic
          then (EC_BadParam, topicVec)
          else if HasSubTopicVerification c \<and> m_verifySubFilter cs \<and> \<not> lb_found self topic subFilters
          then (EC_BadParam, topicVec)
          else if cap_reached (unsubscribe_list_cap b) topicVec then (EC_OutOfMemory, topicVec)
          else if maxStringLen < length topic then (EC_BadParam, topicVec)
          else (EC_Success, topicVec @ [topic]))"

section \<open>Acknowledgements\<close>

text \<open>
  The loop over the reason codes: the codes to report and the filters, or the kind of
  failure, with the filters recorded up to it.
\<close>

datatype codes_result =
    Codes_Done "reason_code list" "cstr list"
  | Codes_ProtocolError "cstr list"
  | Codes_InternalError "cstr list"

fun suback_loop ::
  "build \<Rightarrow> bool \<Rightarrow> reason_code list \<Rightarrow> cstr list \<Rightarrow> (sub_element \<times> reason_code) list \<Rightarrow> codes_result" where
  "suback_loop b verify codes flts [] = Codes_Done codes flts"
| "suback_loop b verify codes flts ((el, rc) # rest) =
     (if cap_reached (suback_codes_cap b) codes then Codes_InternalError flts
      else if rc \<le> 2 \<and> se_qos el < rc then Codes_ProtocolError flts
      else if \<not> (HasSubTopicVerification (b_config b) \<and> verify) then suback_loop b verify (codes @ [rc]) flts rest
      else if RC_UnspecifiedError \<le> rc then suback_loop b verify (codes @ [rc]) flts rest
      else
        case record_filter (b_config b) (se_topic el) flts of
          None \<Rightarrow> Codes_InternalError flts
        | Some flts' \<Rightarrow> suback_loop b verify (codes @ [rc]) flts' rest)"

fun unsuback_loop ::
  "build \<Rightarrow> reason_code list \<Rightarrow> cstr list \<Rightarrow> (cstr \<times> reason_code) list \<Rightarrow> codes_result" where
  "unsuback_loop b codes flts [] = Codes_Done codes flts"
| "unsuback_loop b codes flts ((topic, rc) # rest) =
     (if cap_reached (unsuback_codes_cap b) codes then Codes_InternalError flts
      else if \<not> HasSubTopicVerification (b_config b) then unsuback_loop b (codes @ [rc]) flts rest
      else if RC_UnspecifiedError \<le> rc then unsuback_loop b (codes @ [rc]) flts rest
      else unsuback_loop b (codes @ [rc]) (remove_filter topic flts) rest)"

text \<open>The checks after the loop: \<^term>\<open>None\<close> for a protocol error.\<close>

definition sub_props ::
  "build \<Rightarrow> session_state \<Rightarrow> props_handler \<Rightarrow> (cstr option \<times> (cstr \<times> cstr) list) option" where
  "sub_props b ss h =
     (if ph_reasonStr h \<noteq> None \<and> \<not> m_problemInfoAllowed ss then None
      else if HasUserProps (b_config b) \<and> ph_userProps h \<noteq> [] \<and> \<not> m_problemInfoAllowed ss then None
      else Some (ph_reasonStr h, fillUserProps (b_config b) h))"

definition set_filters :: "cstr list \<Rightarrow> client \<Rightarrow> client" where
  "set_filters flts cl = cl\<lparr>m_subFilters := flts\<rparr>"

definition subscribe_failed :: "build \<Rightarrow> async_status \<Rightarrow> reason_code \<Rightarrow> op_id \<Rightarrow> client \<Rightarrow> client" where
  "subscribe_failed b status reason i cl =
     terminationWithReason b reason (SubscribeOp_completeOpInternal b i status None cl)"

definition unsubscribe_failed :: "build \<Rightarrow> async_status \<Rightarrow> reason_code \<Rightarrow> op_id \<Rightarrow> client \<Rightarrow> client" where
  "unsubscribe_failed b status reason i cl =
     terminationWithReason b reason (UnsubscribeOp_completeOpInternal b i status None cl)"

definition SubscribeOp_handle_Suback :: "build \<Rightarrow> suback_msg \<Rightarrow> op_id \<Rightarrow> client \<Rightarrow> client" where
  "SubscribeOp_handle_Suback b msg i cl =
     (case op_at sub_id i (m_subscribeOps cl) of
        None \<Rightarrow> fault Use_After_Free cl
      | Some op \<Rightarrow>
          if sa_packetId msg \<noteq> sm_packetId (sub_msg op) then cl
          else
            let cl1 = on_timers (timerCancel (sub_timer op)) cl;
                h = handle_props (b_config b) (sa_props msg); topics = sm_list (sub_msg op) in
            if isProtocolError h then subscribe_failed b St_ProtocolError RC_ProtocolError i cl1
            else if length topics \<noteq> length (sa_list msg)
            then subscribe_failed b St_ProtocolError RC_ProtocolError i cl1
            else
              case suback_loop b (m_verifySubFilter (m_configState cl1)) [] (m_subFilters cl1)
                     (zip topics (sa_list msg)) of
                Codes_ProtocolError flts \<Rightarrow>
                  subscribe_failed b St_ProtocolError RC_ProtocolError i (set_filters flts cl1)
              | Codes_InternalError flts \<Rightarrow>
                  subscribe_failed b St_InternalError RC_ImplSpecificError i (set_filters flts cl1)
              | Codes_Done codes flts \<Rightarrow>
                  (case sub_props b (m_sessionState cl1) h of
                     None \<Rightarrow> subscribe_failed b St_ProtocolError RC_ProtocolError i (set_filters flts cl1)
                   | Some (reasonStr, userProps) \<Rightarrow>
                       SubscribeOp_completeOpInternal b i St_Complete
                         (Some \<lparr>sr_reasonCodes = codes, sr_reasonStr = reasonStr, sr_userProps = userProps\<rparr>)
                         (set_filters flts cl1)))"

definition UnsubscribeOp_handle_Unsuback :: "build \<Rightarrow> suback_msg \<Rightarrow> op_id \<Rightarrow> client \<Rightarrow> client" where
  "UnsubscribeOp_handle_Unsuback b msg i cl =
     (case op_at uns_id i (m_unsubscribeOps cl) of
        None \<Rightarrow> fault Use_After_Free cl
      | Some op \<Rightarrow>
          if sa_packetId msg \<noteq> um_packetId (uns_msg op) then cl
          else
            let cl1 = on_timers (timerCancel (uns_timer op)) cl;
                h = handle_props (b_config b) (sa_props msg); topics = um_list (uns_msg op) in
            if length topics \<noteq> length (sa_list msg)
            then unsubscribe_failed b St_ProtocolError RC_ProtocolError i cl1
            else if isProtocolError h then unsubscribe_failed b St_ProtocolError RC_ProtocolError i cl1
            else
              case unsuback_loop b [] (m_subFilters cl1) (zip topics (sa_list msg)) of
                Codes_ProtocolError flts \<Rightarrow>
                  unsubscribe_failed b St_ProtocolError RC_ProtocolError i (set_filters flts cl1)
              | Codes_InternalError flts \<Rightarrow>
                  unsubscribe_failed b St_InternalError RC_ImplSpecificError i (set_filters flts cl1)
              | Codes_Done codes flts \<Rightarrow>
                  (case sub_props b (m_sessionState cl1) h of
                     None \<Rightarrow> unsubscribe_failed b St_ProtocolError RC_ProtocolError i (set_filters flts cl1)
                   | Some (reasonStr, userProps) \<Rightarrow>
                       if length codes \<noteq> length topics
                       then unsubscribe_failed b St_ProtocolError RC_ProtocolError i (set_filters flts cl1)
                       else
                         UnsubscribeOp_completeOpInternal b i St_Complete
                           (Some \<lparr>sr_reasonCodes = codes, sr_reasonStr = reasonStr, sr_userProps = userProps\<rparr>)
                           (set_filters flts cl1)))"

text \<open>The time-outs.\<close>

definition SubscribeOp_opTimeoutInternal :: "build \<Rightarrow> op_id \<Rightarrow> client \<Rightarrow> client" where
  "SubscribeOp_opTimeoutInternal b i cl = SubscribeOp_completeOpInternal b i St_Timeout None cl"

definition UnsubscribeOp_opTimeoutInternal :: "build \<Rightarrow> op_id \<Rightarrow> client \<Rightarrow> client" where
  "UnsubscribeOp_opTimeoutInternal b i cl = UnsubscribeOp_completeOpInternal b i St_Timeout None cl"

section \<open>What the loops record\<close>

definition granted_filters :: "(sub_element \<times> reason_code) list \<Rightarrow> cstr list" where
  "granted_filters xs = map (\<lambda>(el, rc). se_topic el) (filter (\<lambda>(el, rc). rc < RC_UnspecifiedError) xs)"

definition confirmed_filters :: "(cstr \<times> reason_code) list \<Rightarrow> cstr list" where
  "confirmed_filters xs = map fst (filter (\<lambda>(topic, rc). rc < RC_UnspecifiedError) xs)"

lemma granted_Cons [simp]:
  "granted_filters [] = []"
  "granted_filters ((el, rc) # xs) =
     (if rc < RC_UnspecifiedError then se_topic el # granted_filters xs else granted_filters xs)"
  "confirmed_filters [] = []"
  "confirmed_filters ((topic, rc) # ys) =
     (if rc < RC_UnspecifiedError then topic # confirmed_filters ys else confirmed_filters ys)"
  by (simp_all add: granted_filters_def confirmed_filters_def)

lemma suback_loop_sorted:
  "filters_ok flts \<Longrightarrow>
   (case suback_loop b verify codes flts xs of
      Codes_Done cs fs \<Rightarrow> filters_ok fs | Codes_ProtocolError fs \<Rightarrow> filters_ok fs
    | Codes_InternalError fs \<Rightarrow> filters_ok fs)"
  by (induction b verify codes flts xs rule: suback_loop.induct)
     (auto dest: record_filter_Some(1) split: option.split)

lemma suback_loop_done:
  "filters_ok flts \<Longrightarrow> suback_loop b verify codes flts xs = Codes_Done cs fs \<Longrightarrow>
     cs = codes @ map snd xs \<and>
     set fs = set flts \<union> (if HasSubTopicVerification (b_config b) \<and> verify
                          then set (granted_filters xs) else {}) \<and>
     (\<forall>(el, rc) \<in> set xs. rc \<le> 2 \<longrightarrow> rc \<le> se_qos el)"
proof (induction b verify codes flts xs rule: suback_loop.induct)
  case (2 b verify codes flts el rc rest)
  let ?V = "HasSubTopicVerification (b_config b) \<and> verify"
  from "2.prems"(2) have nc: "\<not> cap_reached (suback_codes_cap b) codes" "\<not> (rc \<le> 2 \<and> se_qos el < rc)"
    by (auto split: if_splits)
  consider "\<not> ?V" | "?V" "RC_UnspecifiedError \<le> rc" | "?V" "\<not> RC_UnspecifiedError \<le> rc" by blast
  then show ?case
  proof cases
    case 1
    then show ?thesis using "2.IH"(1) [OF nc 1 "2.prems"(1)] "2.prems"(2) nc by auto
  next
    case 2
    then have "\<not> \<not> ?V" by simp
    note ih = "2.IH"(2) [OF nc this 2(2) "2.prems"(1)]
    have "suback_loop b verify (codes @ [rc]) flts rest = Codes_Done cs fs" using "2.prems"(2) nc 2 by simp
    from ih [OF this] show ?thesis using nc 2 by auto
  next
    case 3
    then have v: "\<not> \<not> ?V" by simp
    obtain flts' where r: "record_filter (b_config b) (se_topic el) flts = Some flts'"
      using "2.prems"(2) nc 3 by (auto split: option.splits)
    note rf = record_filter_Some [OF "2.prems"(1) r]
    have "suback_loop b verify (codes @ [rc]) flts' rest = Codes_Done cs fs"
      using "2.prems"(2) nc 3 r by simp
    from "2.IH"(3) [OF nc v 3(2) r rf(1) this] show ?thesis using nc 3 rf(2) by auto
  qed
qed simp

lemma unsuback_loop_done:
  "filters_ok flts \<Longrightarrow> unsuback_loop b codes flts xs = Codes_Done cs fs \<Longrightarrow>
     cs = codes @ map snd xs \<and> filters_ok fs \<and>
     set fs = set flts - (if HasSubTopicVerification (b_config b) then set (confirmed_filters xs) else {})"
proof (induction b codes flts xs rule: unsuback_loop.induct)
  case (2 b codes flts topic rc rest)
  have nc: "\<not> cap_reached (unsuback_codes_cap b) codes" using "2.prems"(2) by (auto split: if_splits)
  consider "\<not> HasSubTopicVerification (b_config b)"
    | "HasSubTopicVerification (b_config b)" "RC_UnspecifiedError \<le> rc"
    | "HasSubTopicVerification (b_config b)" "\<not> RC_UnspecifiedError \<le> rc" by blast
  then show ?case
  proof cases
    case 1
    then show ?thesis using "2.IH"(1) [OF nc 1 "2.prems"(1)] "2.prems"(2) nc by auto
  next
    case 2
    then have "\<not> \<not> HasSubTopicVerification (b_config b)" by simp
    note ih = "2.IH"(2) [OF nc this 2(2) "2.prems"(1)]
    have "unsuback_loop b (codes @ [rc]) flts rest = Codes_Done cs fs" using "2.prems"(2) nc 2 by simp
    from ih [OF this] show ?thesis using 2 by auto
  next
    case 3
    then have nn: "\<not> \<not> HasSubTopicVerification (b_config b)" by simp
    note rm = remove_filter_set [OF "2.prems"(1), of topic]
    note ih = "2.IH"(3) [OF nc nn 3(2) rm(1)]
    have "unsuback_loop b (codes @ [rc]) (remove_filter topic flts) rest = Codes_Done cs fs"
      using "2.prems"(2) nc 3 by simp
    from ih [OF this] show ?thesis using 3 rm(2) by auto
  qed
qed simp

section \<open>The invariant\<close>

lemma same_set_filters [simp]:
  "same_core (set_filters flts cl) cl" "same_outer (set_filters flts cl) cl"
  by (simp_all add: set_filters_def same_core_def same_outer_def live_ids_def split: op_type.split)

lemma complete_sub_ok:
  assumes ok: "client_ok cl" and op: "op_at sub_id i (m_subscribeOps cl) = Some op"
  shows "step_ok (SubscribeOp_completeOpInternal b i status response cl) cl"
proof -
  have "i \<in> set (live_ids Type_Subscribe cl)"
    using op_at_in [OF op] by (auto simp: live_ids_def)
  then have live: "Some (Type_Subscribe, i) \<in> set (m_ops cl)"
    using ok by (simp add: client_ok_def registry_ok_def)
  have s: "step_ok (opComplete b (Type_Subscribe, i) cl) cl" by (rule opComplete_ok(1) [OF ok live]) simp
  then have "step_ok (emit ev (opComplete b (Type_Subscribe, i) cl)) cl" for ev
    by (rule step_ok_effect) simp_all
  with s op show ?thesis by (simp add: SubscribeOp_completeOpInternal_def Let_def)
qed

lemma complete_unsub_ok:
  assumes ok: "client_ok cl" and op: "op_at uns_id i (m_unsubscribeOps cl) = Some op"
  shows "step_ok (UnsubscribeOp_completeOpInternal b i status response cl) cl"
proof -
  have "i \<in> set (live_ids Type_Unsubscribe cl)"
    using op_at_in [OF op] by (auto simp: live_ids_def)
  then have live: "Some (Type_Unsubscribe, i) \<in> set (m_ops cl)"
    using ok by (simp add: client_ok_def registry_ok_def)
  have s: "step_ok (opComplete b (Type_Unsubscribe, i) cl) cl" by (rule opComplete_ok(1) [OF ok live]) simp
  then have "step_ok (emit ev (opComplete b (Type_Unsubscribe, i) cl)) cl" for ev
    by (rule step_ok_effect) simp_all
  with s op show ?thesis by (simp add: UnsubscribeOp_completeOpInternal_def Let_def)
qed

lemma SubscribeOp_handle_Suback_ok:
  assumes ok: "client_ok cl" and op: "op_at sub_id i (m_subscribeOps cl) = Some op"
  shows "step_ok (SubscribeOp_handle_Suback b msg i cl) cl"
proof -
  let ?t = "on_timers (timerCancel (sub_timer op)) cl"
  have s1: "step_ok ?t cl" by (rule step_ok_effect_refl [OF ok]) simp_all
  have s2: "step_ok (set_filters flts ?t) cl" for flts by (rule step_ok_effect [OF s1]) simp_all
  have o: "op_at sub_id i (m_subscribeOps ?t) = Some op"
    "op_at sub_id i (m_subscribeOps (set_filters flts ?t)) = Some op" for flts
    using op by (simp_all add: on_timers_def set_filters_def)
  have f: "step_ok (subscribe_failed b status r i c) cl" "step_ok (SubscribeOp_completeOpInternal b i status resp c) cl"
    if c: "step_ok c cl" "op_at sub_id i (m_subscribeOps c) = Some op" for status r resp c
  proof -
    have s: "step_ok (SubscribeOp_completeOpInternal b i st re c) cl" for st re
      by (rule step_ok_trans [OF complete_sub_ok [OF step_ok_ok [OF c(1)] c(2)] c(1)])
    show "step_ok (subscribe_failed b status r i c) cl" "step_ok (SubscribeOp_completeOpInternal b i status resp c) cl"
      unfolding subscribe_failed_def
      using step_ok_trans [OF terminationWithReason_ok [OF step_ok_ok [OF s]] s] s by blast+
  qed
  show ?thesis
    unfolding SubscribeOp_handle_Suback_def op option.case Let_def
    by (intro step_ok_if f(1) step_ok_refl ok s1 o)
       (auto intro!: f s2 o split: codes_result.split option.split)
qed

lemma UnsubscribeOp_handle_Unsuback_ok:
  assumes ok: "client_ok cl" and op: "op_at uns_id i (m_unsubscribeOps cl) = Some op"
  shows "step_ok (UnsubscribeOp_handle_Unsuback b msg i cl) cl"
proof -
  let ?t = "on_timers (timerCancel (uns_timer op)) cl"
  have s1: "step_ok ?t cl" by (rule step_ok_effect_refl [OF ok]) simp_all
  have s2: "step_ok (set_filters flts ?t) cl" for flts by (rule step_ok_effect [OF s1]) simp_all
  have o: "op_at uns_id i (m_unsubscribeOps ?t) = Some op"
    "op_at uns_id i (m_unsubscribeOps (set_filters flts ?t)) = Some op" for flts
    using op by (simp_all add: on_timers_def set_filters_def)
  have f: "step_ok (unsubscribe_failed b status r i c) cl" "step_ok (UnsubscribeOp_completeOpInternal b i status resp c) cl"
    if c: "step_ok c cl" "op_at uns_id i (m_unsubscribeOps c) = Some op" for status r resp c
  proof -
    have s: "step_ok (UnsubscribeOp_completeOpInternal b i st re c) cl" for st re
      by (rule step_ok_trans [OF complete_unsub_ok [OF step_ok_ok [OF c(1)] c(2)] c(1)])
    show "step_ok (unsubscribe_failed b status r i c) cl" "step_ok (UnsubscribeOp_completeOpInternal b i status resp c) cl"
      unfolding unsubscribe_failed_def
      using step_ok_trans [OF terminationWithReason_ok [OF step_ok_ok [OF s]] s] s by blast+
  qed
  show ?thesis
    unfolding UnsubscribeOp_handle_Unsuback_def op option.case Let_def
    by (intro step_ok_if f(1) step_ok_refl ok s1 o)
       (auto intro!: f s2 o split: codes_result.split option.split)
qed

end
