(* ===== verification/Connect_Op.thy ===== *)
theory Connect_Op
  imports Keep_Alive_Op Topic_Names
begin

text \<open>
  \<^verbatim>\<open>ConnectOp\<close> (\<^verbatim>\<open>client/lib/src/op/ConnectOp.cpp\<close>): the configuration of CONNECT, and the
  handling of CONNACK, AUTH and DISCONNECT while the connection is being made.
\<close>

section \<open>Gaining the connection keeps the invariant\<close>

text \<open>
  A step that may add operations, keeps the connect operations and may fault.
\<close>

definition grows_ok :: "fault set \<Rightarrow> client \<Rightarrow> client \<Rightarrow> bool" where
  "grows_ok F cl' cl \<longleftrightarrow>
     stays_ok F cl' cl \<and> live_ids Type_Connect cl' = live_ids Type_Connect cl \<and>
     length (m_ops cl) \<le> length (m_ops cl')"

lemma grows_ok_trans: "grows_ok F a b \<Longrightarrow> grows_ok F b c \<Longrightarrow> grows_ok F a c"
  using stays_ok_trans by (auto simp: grows_ok_def)

lemma grows_ok_ok: "grows_ok F cl' cl \<Longrightarrow> client_ok cl'"
  by (auto simp: grows_ok_def dest: stays_ok_ok)

lemma grows_ok_step:
  "step_ok cl' cl \<Longrightarrow> live_ids Type_Connect cl' = live_ids Type_Connect cl \<Longrightarrow> grows_ok F cl' cl"
  using stays_ok_step by (simp add: grows_ok_def step_ok_def)

lemma grows_ok_refl: "client_ok cl \<Longrightarrow> grows_ok F cl cl"
  by (rule grows_ok_step [OF step_ok_refl]) simp_all

lemma grows_ok_effect:
  "same_core cl' cl \<Longrightarrow> same_outer cl' cl \<Longrightarrow> client_ok cl \<Longrightarrow> grows_ok F cl' cl"
  by (rule grows_ok_step [OF step_ok_effect_refl]) (simp_all add: same_core_def)

lemma grows_ok_fault: "client_ok cl \<Longrightarrow> f \<in> F \<Longrightarrow> grows_ok F (fault f cl) cl"
  using stays_ok_fault same_core_effects(2) [of f cl] by (simp add: grows_ok_def same_core_def)

lemma grows_ok_mono: "grows_ok F cl' cl \<Longrightarrow> F \<subseteq> G \<Longrightarrow> grows_ok G cl' cl"
  using stays_ok_mono by (auto simp: grows_ok_def)

lemma grows_ok_if: "grows_ok F a c \<Longrightarrow> grows_ok F b c \<Longrightarrow> grows_ok F (if p then a else b) c"
  by simp

lemma connect_ids_beside:
  "beside_sends a = beside_sends b \<Longrightarrow> live_ids Type_Connect a = live_ids Type_Connect b"
  by (simp add: beside_sends_def live_ids_def)

lemma completeWithCb_beside_client [simp]:
  "beside_sends (completeWithCb b i status response cl) = beside_sends cl"
  unfolding completeWithCb_def by (rule completeWithCb_beside [OF resumeSends_beside])

lemma resumeSends_beside_client [simp]: "beside_sends (resumeSends b idx cl) = beside_sends cl"
  using resumeSends_beside by (simp add: rs_beside_def)

lemma postReconnectionResend_beside [simp]:
  "beside_sends (postReconnectionResend b i cl) = beside_sends cl"
proof -
  have "beside_sends (resendDupMsg b i c) = beside_sends c" for c
    by (simp add: resendDupMsg_def split_beta Let_def split: option.split)
  then show ?thesis by (simp add: postReconnectionResend_def Let_def split: option.split)
qed

lemma resend_all_ok:
  "client_ok cl \<Longrightarrow> set is \<subseteq> set (map so_id (m_sendOps cl)) \<Longrightarrow>
     grows_ok {Null_Deref, Iterator_Invalidated} (resend_all b is cl) cl"
proof (induction "is" arbitrary: cl)
  case (Cons i "is")
  let ?F = "{Null_Deref, Iterator_Invalidated}"
  let ?c = "postReconnectionResend b i cl"
  obtain op where "send_op_at i cl = Some op"
    using Cons.prems(2) op_at_live [of i so_id "m_sendOps cl"] by (auto simp: send_op_at_def)
  then have s: "step_ok ?c cl" by (rule postReconnectionResend_ok [OF Cons.prems(1)])
  have g: "grows_ok ?F ?c cl" by (rule grows_ok_step [OF s connect_ids_beside]) simp
  show ?case
  proof (cases "map so_id (m_sendOps ?c) = map so_id (m_sendOps cl)")
    case True
    then have "grows_ok ?F (resend_all b is ?c) ?c" using Cons.prems(2) by (intro Cons.IH step_ok_ok [OF s]) simp
    then show ?thesis using True grows_ok_trans [OF _ g] by (simp add: Let_def)
  next
    case False
    have "grows_ok ?F (fault Iterator_Invalidated ?c) ?c" by (rule grows_ok_fault [OF step_ok_ok [OF s]]) simp
    then show ?thesis using False grows_ok_trans [OF _ g] by (simp add: Let_def)
  qed
qed (simp add: grows_ok_refl)

lemma recv_at_timers [simp]: "recv_op_at i (on_timers g cl) = recv_op_at i cl"
  by (simp add: recv_op_at_def on_timers_def)

lemma on_timers_twice: "on_timers g (on_timers h cl) = on_timers (g \<circ> h) cl"
  by (simp add: on_timers_def)

lemma on_timers_id: "on_timers (\<lambda>t. t) cl = cl"
  by (simp add: on_timers_def)

lemma postReconnectionResume_timers:
  "recv_op_at i cl = Some op \<Longrightarrow> \<exists>g. postReconnectionResume b i cl = on_timers g cl"
  using on_timers_id [of cl]
  by (auto simp: postReconnectionResume_def RecvOp_restartResponseTimer_def
      RecvOp_connectivityChanged_def on_timers_twice) metis

lemma resume_all_timers:
  "\<forall>op\<in>set ops. recv_op_at (ro_id op) cl \<noteq> None \<Longrightarrow>
   \<exists>g. fold (\<lambda>op. postReconnectionResume b (ro_id op)) ops cl = on_timers g cl"
proof (induction ops arbitrary: cl)
  case Nil
  have "fold (\<lambda>op. postReconnectionResume b (ro_id op)) [] cl = on_timers (\<lambda>t. t) cl"
    by (simp add: on_timers_id)
  then show ?case by blast
next
  case (Cons op ops)
  then obtain op' where "recv_op_at (ro_id op) cl = Some op'" by auto
  then obtain g where g: "postReconnectionResume b (ro_id op) cl = on_timers g cl"
    using postReconnectionResume_timers by blast
  have "\<forall>op\<in>set ops. recv_op_at (ro_id op) (on_timers g cl) \<noteq> None" using Cons.prems by simp
  from Cons.IH [OF this] show ?case using g by (auto simp: on_timers_twice)
qed

lemma terminate_keeps_connect:
  assumes ok: "client_ok cl" and live: "Some ref \<in> set (m_ops cl)" and sr: "is_send_recv ref"
  shows "live_ids Type_Connect (terminateOp b status ref cl) = live_ids Type_Connect cl"
proof -
  obtain t i where r: "ref = (t, i)" by (cases ref)
  show ?thesis
  proof (cases "t = Type_Recv")
    case True
    have "removed (Type_Recv, i) (opComplete b (Type_Recv, i) cl) cl"
      by (rule opComplete_ok(2) [OF ok]) (use live r True in simp_all)
    then show ?thesis using r True by (simp add: terminateOp_def removed_def)
  next
    case False
    then have "t = Type_Send" using sr r by (simp add: is_send_recv_def)
    then have "beside_sends (terminateOp b status ref cl) = beside_sends cl" using r by (simp add: terminateOp_def)
    then show ?thesis by (rule connect_ids_beside)
  qed
qed

lemma terminate_stored_ok:
  "client_ok cl \<Longrightarrow> \<forall>k\<in>set ks. k < length (m_ops cl) \<Longrightarrow>
     grows_ok {Null_Deref, Iterator_Invalidated} (terminate_stored b ks cl) cl"
proof (induction ks arbitrary: cl)
  case (Cons k ks)
  let ?F = "{Null_Deref, Iterator_Invalidated}"
  show ?case
  proof (cases "m_ops cl ! k")
    case None
    then show ?thesis using grows_ok_fault [OF Cons.prems(1), of Null_Deref ?F] by simp
  next
    case (Some ref)
    let ?c = "if \<not> is_send_recv ref then cl else terminateOp b St_Aborted ref cl"
    have live: "Some ref \<in> set (m_ops cl)" using Some Cons.prems(2) by (metis list.set_intros(1) nth_mem)
    have t: "step_ok (terminateOp b St_Aborted ref cl) cl" by (rule terminateOp_ok(1) [OF Cons.prems(1) live])
    have "grows_ok ?F (terminateOp b St_Aborted ref cl) cl" if "is_send_recv ref"
      by (rule grows_ok_step [OF t terminate_keeps_connect [OF Cons.prems(1) live that]])
    then have g: "grows_ok ?F ?c cl" using grows_ok_refl [OF Cons.prems(1)] by simp
    then have "\<forall>k\<in>set ks. k < length (m_ops ?c)" using Cons.prems(2) by (auto simp: grows_ok_def)
    from grows_ok_trans [OF Cons.IH [OF grows_ok_ok [OF g] this] g] show ?thesis using Some by simp
  qed
qed (simp add: grows_ok_refl)

lemma KeepAliveOp_construct_frame:
  obtains op tm where "KeepAliveOp_construct b cl = (op, cl\<lparr>m_timerMgr := tm\<rparr>)" "ko_id op = cl_nextId cl"
proof -
  obtain p c1 where 1: "alloc_timer b cl = (p, c1)" by (cases "alloc_timer b cl")
  obtain q c2 where 2: "alloc_timer b c1 = (q, c2)" by (cases "alloc_timer b c1")
  obtain r c3 where 3: "alloc_timer b c2 = (r, c3)" by (cases "alloc_timer b c2")
  let ?op = "\<lparr>ko_id = cl_nextId cl, ko_pingTimer = p, ko_recvTimer = q, ko_respTimer = r\<rparr>"
  have c: "KeepAliveOp_construct b cl = (?op, restartPingTimer ?op c3)"
    using 1 2 3 by (simp add: KeepAliveOp_construct_def Let_def)
  obtain tm where "c3 = cl\<lparr>m_timerMgr := tm\<rparr>"
    using 1 2 3 alloc_timer_frame [of b cl] alloc_timer_frame [of b c1] alloc_timer_frame [of b c2] by auto
  then have "\<exists>tm. restartPingTimer ?op c3 = cl\<lparr>m_timerMgr := tm\<rparr>"
    by (auto simp: restartPingTimer_def on_timers_def Let_def)
  then obtain tm where "restartPingTimer ?op c3 = cl\<lparr>m_timerMgr := tm\<rparr>" ..
  with c that [of ?op tm] show thesis by simp
qed

lemma createKeepAliveOp_ok:
  assumes ok: "client_ok cl"
  shows "grows_ok F (createKeepAliveOpIfNeeded b cl) cl"
proof -
  obtain op tm where c: "KeepAliveOp_construct b cl = (op, cl\<lparr>m_timerMgr := tm\<rparr>)" "ko_id op = cl_nextId cl"
    by (rule KeepAliveOp_construct_frame)
  let ?c = "cl\<lparr>m_timerMgr := tm, m_keepAliveOps := m_keepAliveOps cl @ [op]\<rparr>"
  have "client_ok (register_op Type_KeepAlive ?c)"
  proof (rule register_ok [OF ok])
    show "live_ids Type_KeepAlive ?c = live_ids Type_KeepAlive cl @ [cl_nextId cl]" using c(2) by (simp add: live_ids_def)
    show "t' \<noteq> Type_KeepAlive \<Longrightarrow> live_ids t' ?c = live_ids t' cl" for t' by (simp add: live_ids_def split: op_type.split)
    show "sends_ok ?c" using ok by (simp add: client_ok_def sends_ok_def)
  qed simp_all
  then have "grows_ok F (register_op Type_KeepAlive ?c) cl"
    using grown_from_register [of ?c cl Type_KeepAlive]
    by (simp add: grows_ok_def stays_ok_def) (simp add: register_op_def live_ids_def paused_ids_def)
  then show ?thesis
    using grows_ok_refl [OF ok] c
    by (cases "m_keepAliveOps cl = []") (simp_all add: createKeepAliveOpIfNeeded_def Let_def)
qed

lemma brokerConnected_ok:
  assumes ok: "client_ok cl"
  shows "grows_ok {Null_Deref, Iterator_Invalidated} (brokerConnected b sessionPresent cl) cl"
proof -
  let ?F = "{Null_Deref, Iterator_Invalidated}"
  let ?cl1 = "on_session_state (\<lambda>s. s\<lparr>m_connected := True\<rparr>)
                  (on_client_state (\<lambda>s. s\<lparr>m_firstConnect := False\<rparr>)
                    (on_timers (timerCancel (m_sessionExpiryTimer cl)) cl))"
  have eff: "same_core (on_client_state (\<lambda>s. s\<lparr>m_firstConnect := False\<rparr>) c) c"
    "same_core (on_client_state (\<lambda>s. s\<lparr>m_sendTopicAliases := []\<rparr>) c) c" for c
    by (rule same_core_client_state; simp)+
  have "step_ok (on_timers (timerCancel (m_sessionExpiryTimer cl)) cl) cl"
    by (rule step_ok_effect_refl [OF ok]) simp_all
  then have "step_ok (on_client_state (\<lambda>s. s\<lparr>m_firstConnect := False\<rparr>)
                    (on_timers (timerCancel (m_sessionExpiryTimer cl)) cl)) cl"
    by (rule step_ok_effect [OF _ eff(1)]) simp
  then have s1: "step_ok ?cl1 cl" by (rule step_ok_effect) simp_all
  have g1: "grows_ok ?F ?cl1 cl"
    by (rule grows_ok_step [OF s1]) (simp add: live_ids_def on_session_state_def on_client_state_def on_timers_def)
  let ?cl11 = "resend_all b (map so_id (m_sendOps ?cl1)) ?cl1"
  have g11: "grows_ok ?F ?cl11 cl"
    by (rule grows_ok_trans [OF resend_all_ok [OF grows_ok_ok [OF g1] order_refl] g1])
  let ?cl12 = "fold (\<lambda>op. postReconnectionResume b (ro_id op)) (m_recvOps ?cl11) ?cl11"
  have "recv_op_at (ro_id op) ?cl11 \<noteq> None" if "op \<in> set (m_recvOps ?cl11)" for op
    using that op_at_live [of "ro_id op" ro_id "m_recvOps ?cl11"] by (auto simp: recv_op_at_def)
  then obtain g where e12: "?cl12 = on_timers g ?cl11" using resume_all_timers [of "m_recvOps ?cl11" ?cl11 b] by blast
  have "grows_ok ?F (on_timers g ?cl11) ?cl11"
    by (rule grows_ok_effect [OF _ _ grows_ok_ok [OF g11]]) simp_all
  then have g12: "grows_ok ?F ?cl12 cl" unfolding e12 by (rule grows_ok_trans [OF _ g11])
  have "grows_ok ?F (resumeSends b k ?cl12) ?cl12" for k
    by (rule grows_ok_step [OF resumeSends_ok [OF grows_ok_ok [OF g12]] connect_ids_beside]) simp
  then have gr: "grows_ok ?F (resumeSends b k ?cl12) cl" for k by (rule grows_ok_trans [OF _ g12])
  have gt: "grows_ok ?F (terminate_stored b [0..<length (m_ops ?cl1)] ?cl1) cl"
    by (rule grows_ok_trans [OF terminate_stored_ok [OF grows_ok_ok [OF g1]] g1]) simp
  have last: "grows_ok ?F (createKeepAliveOpIfNeeded b (on_client_state (\<lambda>s. s\<lparr>m_sendTopicAliases := []\<rparr>) c)) cl"
    if c: "grows_ok ?F c cl" for c
  proof -
    have e: "grows_ok ?F (on_client_state (\<lambda>s. s\<lparr>m_sendTopicAliases := []\<rparr>) c) c"
      by (rule grows_ok_effect [OF eff(2) _ grows_ok_ok [OF c]]) simp
    show ?thesis by (rule grows_ok_trans [OF createKeepAliveOp_ok [OF grows_ok_ok [OF e]] grows_ok_trans [OF e c]])
  qed
  show ?thesis
    unfolding brokerConnected_def Let_def by (intro last grows_ok_if gr g12 gt)
qed

section \<open>Configuration\<close>

definition ConnectMsg_init :: connect_msg where
  "ConnectMsg_init =
     \<lparr>cm_cleanStart = False, cm_clientId = [], cm_userNameFlag = False, cm_userName = [],
      cm_passwordFlag = False, cm_password = [], cm_keepAlive = 0, cm_willFlag = False, cm_willQos = 0,
      cm_willRetain = False, cm_willTopic = [], cm_willMessage = [], cm_willProps = [], cm_props = []\<rparr>"

definition ConnectOp_construct :: "build \<Rightarrow> client \<Rightarrow> connect_op \<times> client" where
  "ConnectOp_construct b cl =
     (let (idx, cl1) = alloc_timer b cl
      in (\<lparr>hs_id = cl_nextId cl, hs_timer = idx,
           hs_responseTimeoutMs = m_responseTimeoutMs (m_configState cl), hs_cb = False, hs_authCb = False,
           co_msg = ConnectMsg_init, co_authMethod = [], co_sessionExpiryInterval = 0,
           co_maxRecvPacketSize = 0, co_highQosRecvLimit = 0, co_requestProblemInfo = False\<rparr>, cl1))"

text \<open>\<^verbatim>\<open>CC_Mqtt5ConnectBasicConfig\<close>: null pointers are \<^term>\<open>None\<close>.\<close>

record connect_basic_config =
  cb_clientId :: "cstr option"
  cb_username :: "cstr option"
  cb_password :: "bytes option"
  cb_passwordLen :: nat
  cb_keepAlive :: nat
  cb_cleanStart :: bool

text \<open>
  An error leaves behind what was configured before it.
\<close>

definition ConnectOp_configBasic ::
  "config_state \<Rightarrow> bool \<Rightarrow> connect_basic_config \<Rightarrow> connect_msg \<Rightarrow> error_code \<times> connect_msg" where
  "ConnectOp_configBasic cs firstConnect cfg msg =
     (if 0 < cb_passwordLen cfg \<and> cb_password cfg = None then (EC_BadParam, msg)
      else if \<not> cb_cleanStart cfg \<and> firstConnect \<and> m_verifySubFilter cs then (EC_BadParam, msg)
      else
        let m1 = msg\<lparr>cm_clientId := (case cb_clientId cfg of None \<Rightarrow> [] | Some s \<Rightarrow> s)\<rparr> in
        if maxStringLen < length (cm_clientId m1) then (EC_BadParam, m1\<lparr>cm_clientId := []\<rparr>)
        else if cm_clientId m1 = [] \<and> \<not> cb_cleanStart cfg then (EC_BadParam, m1)
        else
          let m2 = m1\<lparr>cm_userNameFlag := cb_username cfg \<noteq> None,
                      cm_userName := (case cb_username cfg of None \<Rightarrow> cm_userName m1 | Some s \<Rightarrow> s)\<rparr> in
          if maxStringLen < length (cm_userName m2) then (EC_BadParam, m2\<lparr>cm_userName := []\<rparr>)
          else
            let hasPassword = 0 < cb_passwordLen cfg;
                pw = (case cb_password cfg of None \<Rightarrow> [] | Some d \<Rightarrow> take (cb_passwordLen cfg) d);
                m3 = m2\<lparr>cm_passwordFlag := hasPassword,
                        cm_password := (if hasPassword then pw else cm_password m2)\<rparr> in
            if maxStringLen < length (cm_password m3) then (EC_BadParam, m3\<lparr>cm_password := []\<rparr>)
            else
              let m4 = m3\<lparr>cm_cleanStart := cb_cleanStart cfg\<rparr> in
              if 65535 < cb_keepAlive cfg then (EC_BadParam, m4)
              else (EC_Success, m4\<lparr>cm_keepAlive := cb_keepAlive cfg\<rparr>))"

record connect_will_config =
  cw_topic :: "cstr option"
  cw_data :: "bytes option"
  cw_dataLen :: nat
  cw_contentType :: "cstr option"
  cw_responseTopic :: "cstr option"
  cw_correlationData :: "bytes option"
  cw_correlationDataLen :: nat
  cw_delayInterval :: nat
  cw_messageExpiryInterval :: nat
  cw_qos :: qos
  cw_format :: nat
  cw_retain :: bool

text \<open>The properties of the will; the intervals are 32-bit in the configuration and in the field.\<close>

definition will_props ::
  "build \<Rightarrow> config_state \<Rightarrow> connect_will_config \<Rightarrow> property list \<Rightarrow> error_code \<times> property list" where
  "will_props b cs cfg ps =
     (let add = add_prop_step (will_props_cap b);
          contentType = (case cw_contentType cfg of None \<Rightarrow> [] | Some t \<Rightarrow> t);
          responseTopic = (case cw_responseTopic cfg of None \<Rightarrow> [] | Some t \<Rightarrow> t);
          correlation = (case cw_correlationData cfg of None \<Rightarrow> [] | Some d \<Rightarrow> take (cw_correlationDataLen cfg) d);
          delay = cw_delayInterval cfg; expiry = cw_messageExpiryInterval cfg;
          r1 = add (cw_format cfg \<noteq> 0) False (PayloadFormatIndicator (cw_format cfg)) (EC_Success, ps);
          r2 = add (0 < delay) (4294967295 < delay) (WillDelayInterval delay) r1;
          r3 = add (0 < expiry) (4294967295 < expiry) (MessageExpiryInterval expiry) r2;
          r4 = add (cw_contentType cfg \<noteq> None) (maxStringLen < length contentType) (ContentType contentType) r3;
          r5 = fail_step (cw_responseTopic cfg \<noteq> None \<and> \<not> verifyPubTopic (b_config b) cs responseTopic True) r4;
          r6 = add (cw_responseTopic cfg \<noteq> None) (maxStringLen < length responseTopic) (ResponseTopic responseTopic) r5;
          r7 = fail_step (0 < cw_correlationDataLen cfg \<and> cw_correlationData cfg = None) r6
      in add (cw_correlationData cfg \<noteq> None) (maxStringLen < length correlation) (CorrelationData correlation) r7)"

definition ConnectOp_configWill ::
  "build \<Rightarrow> config_state \<Rightarrow> connect_will_config \<Rightarrow> connect_msg \<Rightarrow> error_code \<times> connect_msg" where
  "ConnectOp_configWill b cs cfg msg =
     (if 0 < cw_dataLen cfg \<and> cw_data cfg = None then (EC_BadParam, msg)
      else
        case cw_topic cfg of
          None \<Rightarrow> (EC_BadParam, msg)
        | Some topic \<Rightarrow>
            if topic = [] then (EC_BadParam, msg)
            else if MaxQos (b_config b) < cw_qos cfg then (EC_BadParam, msg)
            else if maxStringLen < length topic then (EC_BadParam, msg\<lparr>cm_willTopic := []\<rparr>)
            else
              let data = (case cw_data cfg of None \<Rightarrow> [] | Some d \<Rightarrow> take (cw_dataLen cfg) d);
                  m1 = msg\<lparr>cm_willTopic := topic,
                           cm_willMessage := (if 0 < cw_dataLen cfg then data else cm_willMessage msg)\<rparr> in
              if maxStringLen < length (cm_willMessage m1) then (EC_BadParam, m1\<lparr>cm_willMessage := []\<rparr>)
              else
                let m2 = m1\<lparr>cm_willQos := cw_qos cfg, cm_willRetain := cw_retain cfg, cm_willFlag := True\<rparr>;
                    (ec, ps) = will_props b cs cfg (cm_willProps m2)
                in (ec, m2\<lparr>cm_willProps := ps\<rparr>))"

record connect_extra_config =
  cx_sessionExpiryInterval :: nat
  cx_receiveMaximum :: nat
  cx_maxPacketSize :: nat
  cx_topicAliasMaximum :: nat
  cx_requestResponseInfo :: bool
  cx_requestProblemInfo :: bool

definition connect_prop :: "property \<Rightarrow> connect_op \<Rightarrow> connect_op" where
  "connect_prop p op = op\<lparr>co_msg := (co_msg op)\<lparr>cm_props := cm_props (co_msg op) @ [p]\<rparr>\<rparr>"

text \<open>
  One parameter of \<^verbatim>\<open>configExtra\<close>: its property, and the member that remembers it.
\<close>

definition connect_step ::
  "build \<Rightarrow> bool \<Rightarrow> property \<Rightarrow> (connect_op \<Rightarrow> connect_op) \<Rightarrow> error_code \<times> connect_op \<Rightarrow>
   error_code \<times> connect_op" where
  "connect_step b given p remember r =
     (if fst r \<noteq> EC_Success \<or> \<not> given then r
      else if \<not> canAddProp (connect_props_cap b) (cm_props (co_msg (snd r))) then (EC_OutOfMemory, snd r)
      else (EC_Success, remember (connect_prop p (snd r))))"

definition configExtra_limits ::
  "build \<Rightarrow> connect_extra_config \<Rightarrow> connect_op \<Rightarrow> error_code \<times> connect_op" where
  "configExtra_limits b cfg op =
     (let r1 = connect_step b (0 < cx_sessionExpiryInterval cfg)
                 (SessionExpiryInterval (cx_sessionExpiryInterval cfg))
                 (\<lambda>p. p\<lparr>co_sessionExpiryInterval := cx_sessionExpiryInterval cfg\<rparr>) (EC_Success, op);
          r2 = connect_step b (0 < cx_receiveMaximum cfg) (ReceiveMax (cx_receiveMaximum cfg mod 65536))
                 (\<lambda>p. p\<lparr>co_highQosRecvLimit := cx_receiveMaximum cfg\<rparr>) r1;
          r3 = fail_step (0 < cx_maxPacketSize cfg \<and> cx_maxPacketSize cfg < max_prefix_length b) r2;
          r4 = connect_step b (0 < cx_maxPacketSize cfg) (MaxPacketSize (cx_maxPacketSize cfg))
                 (\<lambda>p. p\<lparr>co_maxRecvPacketSize := cx_maxPacketSize cfg\<rparr>) r3;
          r5 = fail_step (0 < cx_topicAliasMaximum cfg \<and>
                 (\<not> HasTopicAliases (b_config b) \<or> 65535 < cx_topicAliasMaximum cfg)) r4
      in connect_step b (0 < cx_topicAliasMaximum cfg) (TopicAliasMax (cx_topicAliasMaximum cfg)) (\<lambda>p. p) r5)"

definition configExtra_requests ::
  "build \<Rightarrow> connect_extra_config \<Rightarrow> error_code \<times> connect_op \<Rightarrow> error_code \<times> connect_op" where
  "configExtra_requests b cfg r =
     connect_step b (cx_requestProblemInfo cfg) (RequestProblemInfo 1)
       (\<lambda>p. p\<lparr>co_requestProblemInfo := True\<rparr>)
       (connect_step b (cx_requestResponseInfo cfg) (RequestResponseInfo 1) (\<lambda>p. p) r)"

definition connect_op_at :: "op_id \<Rightarrow> client \<Rightarrow> connect_op option" where
  "connect_op_at i cl = op_at hs_id i (m_connectOps cl)"

definition upd_connect :: "op_id \<Rightarrow> (connect_op \<Rightarrow> connect_op) \<Rightarrow> client \<Rightarrow> client" where
  "upd_connect i f cl = cl\<lparr>m_connectOps := upd_op hs_id i f (m_connectOps cl)\<rparr>"

text \<open>
  The alias maximum goes to the session at once, even if a later parameter fails.
\<close>

definition ConnectOp_configExtra ::
  "build \<Rightarrow> connect_extra_config \<Rightarrow> op_id \<Rightarrow> client \<Rightarrow> error_code \<times> client" where
  "ConnectOp_configExtra b cfg i cl =
     (case connect_op_at i cl of
        None \<Rightarrow> (EC_InternalError, fault Use_After_Free cl)
      | Some op \<Rightarrow>
          let r = configExtra_limits b cfg op;
              cl1 = (if fst r = EC_Success \<and> 0 < cx_topicAliasMaximum cfg
                     then on_session_state (\<lambda>s. s\<lparr>m_maxRecvTopicAlias := cx_topicAliasMaximum cfg\<rparr>) cl
                     else cl);
              (ec, op') = configExtra_requests b cfg r
          in (ec, upd_connect i (\<lambda>_. op') cl1))"

record auth_config =
  ac_authCb :: bool
  ac_authMethod :: "cstr option"
  ac_authData :: "bytes option"
  ac_authDataLen :: nat

definition ConnectOp_configAuth ::
  "build \<Rightarrow> auth_config \<Rightarrow> connect_op \<Rightarrow> error_code \<times> connect_op" where
  "ConnectOp_configAuth b cfg op =
     (if \<not> ac_authCb cfg then (EC_BadParam, op)
      else
        case ac_authMethod cfg of
          None \<Rightarrow> (EC_BadParam, op)
        | Some authMethod \<Rightarrow>
            let op1 = op\<lparr>hs_authCb := True\<rparr>; cap = connect_props_cap b;
                authData = (case ac_authData cfg of None \<Rightarrow> [] | Some d \<Rightarrow> take (ac_authDataLen cfg) d);
                (ec2, ps2) = add_prop_step cap True (maxStringLen < length authMethod) (AuthMethod authMethod)
                               (EC_Success, cm_props (co_msg op1));
                op2 = op1\<lparr>co_msg := (co_msg op1)\<lparr>cm_props := ps2\<rparr>,
                          co_authMethod := (if ec2 = EC_Success then authMethod else co_authMethod op1)\<rparr>;
                r3 = fail_step (0 < ac_authDataLen cfg \<and> ac_authData cfg = None) (ec2, ps2);
                (ec4, ps4) = add_prop_step cap (0 < ac_authDataLen cfg) (maxStringLen < length authData) (AuthData authData) r3
            in (ec4, op2\<lparr>co_msg := (co_msg op2)\<lparr>cm_props := ps4\<rparr>\<rparr>))"

definition ConnectOp_addUserProp ::
  "build \<Rightarrow> cstr option \<Rightarrow> cstr option \<Rightarrow> connect_msg \<Rightarrow> error_code \<times> connect_msg" where
  "ConnectOp_addUserProp b key val msg =
     (let (ec, ps) = addUserPropToList (b_config b) (connect_props_cap b) key val (cm_props msg)
      in (ec, msg\<lparr>cm_props := ps\<rparr>))"

definition ConnectOp_addWillUserProp ::
  "build \<Rightarrow> cstr option \<Rightarrow> cstr option \<Rightarrow> connect_msg \<Rightarrow> error_code \<times> connect_msg" where
  "ConnectOp_addWillUserProp b key val msg =
     (if \<not> cm_willFlag msg then (EC_BadParam, msg)
      else
        let (ec, ps) = addUserPropToList (b_config b) (will_props_cap b) key val (cm_willProps msg)
        in (ec, msg\<lparr>cm_willProps := ps\<rparr>))"

section \<open>Sending\<close>

definition ConnectOp_restartTimer :: "op_id \<Rightarrow> client \<Rightarrow> client" where
  "ConnectOp_restartTimer i cl =
     (case connect_op_at i cl of
        None \<Rightarrow> fault Use_After_Free cl
      | Some op \<Rightarrow>
          on_timers (timerWait (hs_timer op) (of_nat (hs_responseTimeoutMs op)) (Cb_OpTimeout Type_Connect i)) cl)"

section \<open>CONNACK\<close>

text \<open>The error exit: DISCONNECT is sent and the operation completes.\<close>

definition connect_failed :: "build \<Rightarrow> reason_code \<Rightarrow> async_status \<Rightarrow> op_id \<Rightarrow> client \<Rightarrow> client" where
  "connect_failed b reason status i cl =
     ConnectOp_completeOpInternal b i status None (sendDisconnectWithReason b reason cl)"

text \<open>What is a protocol error in CONNACK.\<close>

definition connack_error :: "connect_op \<Rightarrow> connack_msg \<Rightarrow> props_handler \<Rightarrow> bool" where
  "connack_error op msg h \<longleftrightarrow>
     (ca_sessionPresent msg \<and> cm_cleanStart (co_msg op)) \<or>
     isProtocolError h \<or>
     (case ph_authMethod h of None \<Rightarrow> co_authMethod op \<noteq> [] | Some m \<Rightarrow> co_authMethod op \<noteq> m) \<or>
     (ph_assignedClientId h = None \<and> ca_reasonCode msg < RC_UnspecifiedError \<and> cm_clientId (co_msg op) = [])"

text \<open>A static limit of 0 means none.\<close>

definition cap_limit :: "nat \<Rightarrow> nat \<Rightarrow> nat" where
  "cap_limit limit n = (if 0 < limit then min n limit else n)"

definition flag_enabled :: "flag_field option \<Rightarrow> bool" where
  "flag_enabled f = (case f of None \<Rightarrow> True | Some v \<Rightarrow> ff_value v = 1)"

definition connect_response_of ::
  "build \<Rightarrow> connect_op \<Rightarrow> connack_msg \<Rightarrow> props_handler \<Rightarrow> connect_response" where
  "connect_response_of b op msg h =
     (let c = b_config b in
      \<lparr>cr_reasonCode = ca_reasonCode msg, cr_assignedClientId = ph_assignedClientId h,
       cr_responseInfo = ph_responseInfo h, cr_reasonStr = ph_reasonStr h, cr_serverRef = ph_serverRef h,
       cr_authData = (case ph_authData h of None \<Rightarrow> [] | Some d \<Rightarrow> d),
       cr_userProps = fillUserProps c h,
       cr_sessionExpiryInterval =
         (case ph_sessionExpiryInterval h of None \<Rightarrow> co_sessionExpiryInterval op | Some n \<Rightarrow> n),
       cr_highQosSendLimit =
         cap_limit (SendMaxLimit c) (case ph_receiveMax h of None \<Rightarrow> 65535 | Some n \<Rightarrow> n),
       cr_maxPacketSize =
         (case ph_maxPacketSize h of None \<Rightarrow> MaxOutputPacketSize c
          | Some n \<Rightarrow> cap_limit (MaxOutputPacketSize c) n),
       cr_topicAliasMax =
         (case ph_topicAliasMax h of None \<Rightarrow> 0
          | Some n \<Rightarrow> if HasTopicAliases c then cap_limit (TopicAliasesLimit c) n else 0),
       cr_maxQos = (case ph_maxQos h of None \<Rightarrow> ExactlyOnce | Some q \<Rightarrow> q),
       cr_sessionPresent = ca_sessionPresent msg,
       cr_retainAvailable = flag_enabled (ph_retainAvailable h),
       cr_wildcardSubAvailable = flag_enabled (ph_wildcardSubAvail h),
       cr_subIdsAvailable = flag_enabled (ph_subIdAvail h),
       cr_sharedSubsAvailable = flag_enabled (ph_sharedSubAvail h)\<rparr>)"

text \<open>
  The session after a successful handshake. The expiry interval is multiplied in 32 bits
  before it is stored in 64.
\<close>

definition session_of_connack ::
  "build \<Rightarrow> connect_op \<Rightarrow> props_handler \<Rightarrow> connect_response \<Rightarrow> session_state \<Rightarrow> session_state" where
  "session_of_connack b op h response s =
     (let keepAlive = (case ph_serverKeepAlive h of None \<Rightarrow> cm_keepAlive (co_msg op) | Some n \<Rightarrow> n);
          expiry = of_nat (cr_sessionExpiryInterval response) * 1000 :: 32 word
      in s\<lparr>m_keepAliveMs := of_nat keepAlive * 1000,
           m_highQosSendLimit := cap_limit (SendMaxLimit (b_config b)) (cr_highQosSendLimit response),
           m_highQosRecvLimit := co_highQosRecvLimit op,
           m_authMethod := co_authMethod op,
           m_sessionExpiryIntervalMs := ucast expiry,
           m_connectSessionExpiryInterval := co_sessionExpiryInterval op,
           m_maxRecvPacketSize := co_maxRecvPacketSize op,
           m_maxSendPacketSize := cr_maxPacketSize response,
           m_pubMaxQos := cr_maxQos response,
           m_wildcardSubAvailable := cr_wildcardSubAvailable response,
           m_subIdsAvailable := cr_subIdsAvailable response,
           m_retainAvailable := cr_retainAvailable response,
           m_sharedSubsAvailable := cr_sharedSubsAvailable response,
           m_problemInfoAllowed := co_requestProblemInfo op\<rparr>)"

definition connection_accepted ::
  "build \<Rightarrow> connect_op \<Rightarrow> props_handler \<Rightarrow> connect_response \<Rightarrow> client \<Rightarrow> client" where
  "connection_accepted b op h response cl =
     (let cl1 = (if \<not> cr_sessionPresent response then cl\<lparr>m_subFilters := []\<rparr> else cl);
          cl2 = on_client_state
                  (\<lambda>s. s\<lparr>m_sendTopicAliases := take (cr_topicAliasMax response) (m_sendTopicAliases s)\<rparr>) cl1;
          cl3 = on_session_state (session_of_connack b op h response) cl2
      in brokerConnected b (cr_sessionPresent response) cl3)"

definition ConnectOp_handle_Connack :: "build \<Rightarrow> connack_msg \<Rightarrow> op_id \<Rightarrow> client \<Rightarrow> client" where
  "ConnectOp_handle_Connack b msg i cl =
     (case connect_op_at i cl of
        None \<Rightarrow> fault Use_After_Free cl
      | Some op \<Rightarrow>
          let cl1 = on_timers (timerCancel (hs_timer op)) cl;
              h = handle_props (b_config b) (ca_props msg) in
          if connack_error op msg h then connect_failed b RC_ProtocolError St_ProtocolError i cl1
          else
            let response = connect_response_of b op msg h;
                cl2 = (if ph_topicAliasMax h \<noteq> None \<and> HasTopicAliases (b_config b)
                       then on_session_state (\<lambda>s. s\<lparr>m_maxSendTopicAlias := cr_topicAliasMax response\<rparr>) cl1
                       else cl1);
                cl3 = (if cr_reasonCode response \<noteq> RC_Success
                       then on_session_state (\<lambda>_. SessionState_init) cl2
                       else connection_accepted b op h response cl2)
            in ConnectOp_completeOpInternal b i St_Complete (Some response) cl3)"

section \<open>DISCONNECT and AUTH\<close>

text \<open>
  DISCONNECT during the handshake: the operation completes, then the connection
  is reported lost.
\<close>

definition ConnectOp_handle_Disconnect :: "build \<Rightarrow> disconnect_msg \<Rightarrow> op_id \<Rightarrow> client \<Rightarrow> client" where
  "ConnectOp_handle_Disconnect b msg i cl =
     brokerDisconnected b BDR_DisconnectMsg St_BrokerDisconnected (Some (disconnect_info_of b msg))
       (ConnectOp_completeOpInternal b i St_BrokerDisconnected None cl)"

text \<open>
  What AUTH tells the callback; \<^term>\<open>None\<close> for a protocol error in its properties. \<^verbatim>\<open>ConnectOp\<close>
  passes its own method and its request for problem information, \<^verbatim>\<open>ReauthOp\<close> those of the session.
\<close>

definition auth_info_of ::
  "build \<Rightarrow> cstr \<Rightarrow> bool \<Rightarrow> property list option \<Rightarrow> auth_info option" where
  "auth_info_of b authMethod problemInfo props =
     (case props of
        None \<Rightarrow> Some \<lparr>ai_authData = [], ai_reasonStr = None, ai_userProps = []\<rparr>
      | Some ps \<Rightarrow>
          let h = handle_props (b_config b) ps in
          if isProtocolError h then None
          else if ph_authMethod h \<noteq> Some authMethod then None
          else if ph_reasonStr h \<noteq> None \<and> \<not> problemInfo then None
          else if HasUserProps (b_config b) \<and> ph_userProps h \<noteq> [] \<and> \<not> problemInfo then None
          else Some \<lparr>ai_authData = (case ph_authData h of None \<Rightarrow> [] | Some d \<Rightarrow> d),
                     ai_reasonStr = ph_reasonStr h, ai_userProps = fillUserProps (b_config b) h\<rparr>)"

text \<open>The properties of the AUTH sent back: those of the callback's answer, or the status of the failure.\<close>

definition auth_error_status :: "error_code \<Rightarrow> async_status" where
  "auth_error_status ec = (if ec = EC_OutOfMemory then St_OutOfMemory else St_BadParam)"

definition auth_reply_props :: "build \<Rightarrow> cstr \<Rightarrow> auth_reply \<Rightarrow> async_status + property list" where
  "auth_reply_props b authMethod out =
     (let add = add_prop_step (auth_props_cap b);
          authData = (case ar_authData out of None \<Rightarrow> [] | Some d \<Rightarrow> take (ar_authDataLen out) d);
          reasonStr = (case ar_reasonStr out of None \<Rightarrow> [] | Some s \<Rightarrow> s);
          userProps = (case ar_userProps out of None \<Rightarrow> [] | Some us \<Rightarrow> take (ar_userPropsCount out) us);
          r1 = add True False (AuthMethod authMethod) (EC_Success, []);
          r2 = fail_step (0 < ar_authDataLen out \<and> ar_authData out = None) r1;
          r3 = add (0 < ar_authDataLen out) (maxStringLen < length authData) (AuthData authData) r2;
          r4 = add (ar_reasonStr out \<noteq> None) (maxStringLen < length reasonStr) (ReasonStr reasonStr) r3;
          r5 = fail_step (0 < ar_userPropsCount out \<and> ar_userProps out = None) r4;
          r6 = foldl (\<lambda>r (key, val). if fst r \<noteq> EC_Success then r
                        else addUserPropToList (b_config b) (auth_props_cap b) key val (snd r)) r5 userProps
      in if fst r6 = EC_Success then Inr (snd r6) else Inl (auth_error_status (fst r6)))"

text \<open>
  The guard that disconnects and completes is released before the callback is called: after that
  an error returns with the operation left as it is, its timer stopped.
\<close>

definition ConnectOp_handle_Auth :: "build \<Rightarrow> auth_msg \<Rightarrow> op_id \<Rightarrow> client \<Rightarrow> client" where
  "ConnectOp_handle_Auth b msg i cl =
     (case connect_op_at i cl of
        None \<Rightarrow> fault Use_After_Free cl
      | Some op \<Rightarrow>
          let cl1 = on_timers (timerCancel (hs_timer op)) cl in
          if \<not> au_valid msg then connect_failed b RC_MalformedPacket St_ProtocolError i cl1
          else if co_authMethod op = [] then connect_failed b RC_ProtocolError St_ProtocolError i cl1
          else if au_reasonCode msg \<noteq> Some RC_ContinueAuth
          then connect_failed b RC_ProtocolError St_ProtocolError i cl1
          else
            (case auth_info_of b (co_authMethod op) (co_requestProblemInfo op) (au_props msg) of
               None \<Rightarrow> connect_failed b RC_ProtocolError St_ProtocolError i cl1
             | Some inInfo \<Rightarrow>
                 if \<not> hs_authCb op then fault Null_Deref cl1
                 else
                   let cl2 = emit (Ev_AuthCallback inInfo) cl1; (authEc, outInfo) = auth_cb b inInfo in
                   if authEc = AuthErrorCode_Disconnect then cl2
                   else
                     (case auth_reply_props b (co_authMethod op) outInfo of
                        Inl status \<Rightarrow> cl2
                      | Inr ps \<Rightarrow>
                          snd (sendMessage b (Auth_Out RC_ContinueAuth ps) (ConnectOp_restartTimer i cl2)))))"

section \<open>The handlers keep the invariant\<close>

lemma connect_live:
  "client_ok cl \<Longrightarrow> connect_op_at i cl = Some op \<Longrightarrow> Some (Type_Connect, i) \<in> set (m_ops cl)"
proof -
  assume ok: "client_ok cl" and "connect_op_at i cl = Some op"
  then have "i \<in> set (live_ids Type_Connect cl)"
    using op_at_in [of hs_id i "m_connectOps cl" op] by (auto simp: connect_op_at_def live_ids_def)
  with ok show ?thesis by (simp add: client_ok_def registry_ok_def)
qed

lemma connect_found: "i \<in> set (live_ids Type_Connect cl) \<Longrightarrow> \<exists>op. connect_op_at i cl = Some op"
  using op_at_live [of i hs_id "m_connectOps cl"] by (auto simp: connect_op_at_def live_ids_def)

lemma complete_connect_ok:
  assumes ok: "client_ok cl" and op: "connect_op_at i cl = Some op"
  shows "step_ok (ConnectOp_completeOpInternal b i status response cl) cl"
proof -
  have s: "step_ok (opComplete b (Type_Connect, i) cl) cl"
    by (rule opComplete_ok(1) [OF ok connect_live [OF ok op]]) simp
  then have "step_ok (emit ev (opComplete b (Type_Connect, i) cl)) cl" for ev
    by (rule step_ok_effect) simp_all
  with s op show ?thesis by (simp add: ConnectOp_completeOpInternal_def connect_op_at_def Let_def)
qed

lemma connect_op_at_effects [simp]:
  "connect_op_at i (on_timers g cl) = connect_op_at i cl" "connect_op_at i (emit ev cl) = connect_op_at i cl"
  "connect_op_at i (on_session_state k cl) = connect_op_at i cl"
  "connect_op_at i (snd (sendMessage b msg cl)) = connect_op_at i cl"
  by (simp_all add: connect_op_at_def) (simp_all add: on_timers_def emit_def on_session_state_def)

lemma connect_failed_ok:
  assumes ok: "client_ok cl" and op: "connect_op_at i cl = Some op"
  shows "step_ok (connect_failed b reason status i cl) cl"
  unfolding connect_failed_def sendDisconnectWithReason_def
  by (rule step_after_effect [OF ok, of "snd (sendMessage b (Disconnect_Out (Some reason) (Some [])) cl)"])
     (simp_all add: complete_connect_ok op)

lemma ConnectOp_handle_Disconnect_ok:
  assumes "client_ok cl" and "connect_op_at i cl = Some op"
  shows "step_ok (ConnectOp_handle_Disconnect b msg i cl) cl"
  unfolding ConnectOp_handle_Disconnect_def by (rule lost_ok [OF complete_connect_ok [OF assms]])

lemma connection_accepted_ok:
  assumes ok: "client_ok cl"
  shows "grows_ok {Null_Deref, Iterator_Invalidated} (connection_accepted b op h response cl) cl"
proof -
  let ?cl1 = "if \<not> cr_sessionPresent response then cl\<lparr>m_subFilters := []\<rparr> else cl"
  let ?cl2 = "on_client_state
    (\<lambda>s. s\<lparr>m_sendTopicAliases := take (cr_topicAliasMax response) (m_sendTopicAliases s)\<rparr>) ?cl1"
  let ?cl3 = "on_session_state (session_of_connack b op h response) ?cl2"
  have f: "same_core (cl\<lparr>m_subFilters := []\<rparr>) cl" "same_outer (cl\<lparr>m_subFilters := []\<rparr>) cl"
    by (simp_all add: same_core_def same_outer_def live_ids_def split: op_type.split)
  have "step_ok ?cl1 cl"
    using step_ok_effect_refl [OF ok f] step_ok_refl [OF ok] by simp
  then have "step_ok ?cl2 cl" by (rule step_ok_effect [OF _ same_core_client_state]) simp_all
  then have s3: "step_ok ?cl3 cl" by (rule step_ok_effect) simp_all
  have "live_ids Type_Connect ?cl3 = live_ids Type_Connect cl"
    by (simp add: live_ids_def on_session_state_def on_client_state_def)
  then have "grows_ok {Null_Deref, Iterator_Invalidated} ?cl3 cl" by (rule grows_ok_step [OF s3])
  then show ?thesis
    unfolding connection_accepted_def Let_def by (rule grows_ok_trans [OF brokerConnected_ok [OF step_ok_ok [OF s3]]])
qed

text \<open>The operation outlives the connection it makes, so its completion finds it.\<close>

definition handshake_ok :: "client \<Rightarrow> client \<Rightarrow> bool" where
  "handshake_ok cl' cl \<longleftrightarrow>
     stays_ok {Null_Deref, Iterator_Invalidated} cl' cl \<and> length (m_ops cl) \<le> length (m_ops cl')"

lemma handshake_ok_step: "step_ok cl' cl \<Longrightarrow> handshake_ok cl' cl"
  using stays_ok_step by (simp add: handshake_ok_def step_ok_def)

lemma handshake_ok_trans: "handshake_ok a b \<Longrightarrow> handshake_ok b c \<Longrightarrow> handshake_ok a c"
  using stays_ok_trans by (auto simp: handshake_ok_def)

lemma handshake_ok_grows: "grows_ok {Null_Deref, Iterator_Invalidated} cl' cl \<Longrightarrow> handshake_ok cl' cl"
  by (simp add: handshake_ok_def grows_ok_def)

lemma handshake_ok_if: "handshake_ok a c \<Longrightarrow> handshake_ok b c \<Longrightarrow> handshake_ok (if p then a else b) c"
  by simp

lemma ConnectOp_handle_Connack_ok:
  assumes ok: "client_ok cl" and op: "connect_op_at i cl = Some op"
  shows "handshake_ok (ConnectOp_handle_Connack b msg i cl) cl"
proof -
  let ?F = "{Null_Deref, Iterator_Invalidated}"
  let ?cl1 = "on_timers (timerCancel (hs_timer op)) cl"
  have s1: "step_ok ?cl1 cl" by (rule step_ok_effect_refl [OF ok]) simp_all
  have op1: "connect_op_at i ?cl1 = Some op" using op by simp
  have f: "handshake_ok (connect_failed b RC_ProtocolError St_ProtocolError i ?cl1) cl"
    by (rule handshake_ok_step [OF step_ok_trans [OF connect_failed_ok [OF step_ok_ok [OF s1] op1] s1]])
  have live1: "live_ids Type_Connect ?cl1 = live_ids Type_Connect cl"
    by (simp add: live_ids_def on_timers_def)
  have live: "i \<in> set (live_ids Type_Connect cl)"
    using op op_at_in [of hs_id i "m_connectOps cl" op] by (auto simp: connect_op_at_def live_ids_def)
  have fin: "handshake_ok (ConnectOp_completeOpInternal b i St_Complete r c) cl" if g: "grows_ok ?F c ?cl1" for c r
  proof -
    have "i \<in> set (live_ids Type_Connect c)" using g live live1 by (simp add: grows_ok_def)
    then obtain op' where "connect_op_at i c = Some op'" using connect_found by blast
    then have "step_ok (ConnectOp_completeOpInternal b i St_Complete r c) c"
      by (rule complete_connect_ok [OF grows_ok_ok [OF g]])
    then show ?thesis
      using handshake_ok_trans [OF handshake_ok_step handshake_ok_trans [OF handshake_ok_grows [OF g] handshake_ok_step [OF s1]]]
      by blast
  qed
  have ss: "grows_ok ?F (on_session_state k c) c" if "client_ok c" for k c
    by (rule grows_ok_effect [OF _ _ that]) simp_all
  have ss2: "grows_ok ?F (if p then on_session_state k ?cl1 else ?cl1) ?cl1" for p k
    using ss [OF step_ok_ok [OF s1]] grows_ok_refl [OF step_ok_ok [OF s1]] by simp
  have g: "grows_ok ?F (if q then on_session_state k' (if p then on_session_state k ?cl1 else ?cl1)
      else connection_accepted b op h r (if p then on_session_state k ?cl1 else ?cl1)) ?cl1" for p q k k' h r
    by (intro grows_ok_if grows_ok_trans [OF ss [OF grows_ok_ok [OF ss2]] ss2]
        grows_ok_trans [OF connection_accepted_ok [OF grows_ok_ok [OF ss2]] ss2])
  show ?thesis
    unfolding ConnectOp_handle_Connack_def op option.case Let_def by (intro handshake_ok_if f fin g)
qed

lemma ConnectOp_restartTimer_ok:
  "client_ok cl \<Longrightarrow> connect_op_at i cl = Some op \<Longrightarrow> step_ok (ConnectOp_restartTimer i cl) cl"
  by (simp add: ConnectOp_restartTimer_def step_ok_effect_refl)

lemma ConnectOp_handle_Auth_ok:
  assumes ok: "client_ok cl" and op: "connect_op_at i cl = Some op"
  shows "handshake_ok (ConnectOp_handle_Auth b msg i cl) cl"
proof -
  let ?cl1 = "on_timers (timerCancel (hs_timer op)) cl"
  have s1: "step_ok ?cl1 cl" by (rule step_ok_effect_refl [OF ok]) simp_all
  have op1: "connect_op_at i ?cl1 = Some op" using op by simp
  have f: "handshake_ok (connect_failed b r st i ?cl1) cl" for r st
    by (rule handshake_ok_step [OF step_ok_trans [OF connect_failed_ok [OF step_ok_ok [OF s1] op1] s1]])
  have n: "handshake_ok (fault Null_Deref ?cl1) cl"
    using stays_after_step [OF s1 stays_ok_fault] s1 by (simp add: handshake_ok_def step_ok_def fault_def)
  have s2: "step_ok (emit ev ?cl1) cl" for ev by (rule step_ok_effect [OF s1]) simp_all
  have op2: "connect_op_at i (emit ev ?cl1) = Some op" for ev using op by simp
  have s3: "step_ok (snd (sendMessage b m (ConnectOp_restartTimer i (emit ev ?cl1)))) cl" for m ev
    by (rule sent_ok [OF step_ok_trans [OF ConnectOp_restartTimer_ok [OF step_ok_ok [OF s2] op2] s2]])
  show ?thesis
    unfolding ConnectOp_handle_Auth_def op option.case Let_def
    by (intro handshake_ok_if f)
       (use f n handshake_ok_step [OF s2] handshake_ok_step [OF s3]
        in \<open>auto simp: split_beta split: option.split sum.split\<close>)
qed

end
