(* ===== verification/Reauth_Op.thy ===== *)
theory Reauth_Op
  imports Connect_Op
begin

text \<open>
  \<^verbatim>\<open>ReauthOp\<close> (\<^verbatim>\<open>client/lib/src/op/ReauthOp.cpp\<close>): re-authentication of a connected client by an
  exchange of AUTH messages with the method of the connection.
\<close>

section \<open>Operations\<close>

definition ReauthOp_construct :: "build \<Rightarrow> client \<Rightarrow> reauth_op \<times> client" where
  "ReauthOp_construct b cl =
     (let (idx, cl1) = alloc_timer b cl
      in (\<lparr>hs_id = cl_nextId cl, hs_timer = idx,
           hs_responseTimeoutMs = m_responseTimeoutMs (m_configState cl), hs_cb = False, hs_authCb = False,
           re_reasonCode = None, re_props = []\<rparr>, cl1))"

definition reauth_op_at :: "op_id \<Rightarrow> client \<Rightarrow> reauth_op option" where
  "reauth_op_at i cl = op_at hs_id i (m_reauthOps cl)"

definition upd_reauth :: "op_id \<Rightarrow> (reauth_op \<Rightarrow> reauth_op) \<Rightarrow> client \<Rightarrow> client" where
  "upd_reauth i f cl = cl\<lparr>m_reauthOps := upd_op hs_id i f (m_reauthOps cl)\<rparr>"

definition ReauthOp_configAuth ::
  "build \<Rightarrow> session_state \<Rightarrow> auth_config \<Rightarrow> reauth_op \<Rightarrow> error_code \<times> reauth_op" where
  "ReauthOp_configAuth b ss cfg op =
     (if \<not> ac_authCb cfg then (EC_BadParam, op)
      else if ac_authMethod cfg \<noteq> None \<and> ac_authMethod cfg \<noteq> Some (m_authMethod ss) then (EC_BadParam, op)
      else
        let cap = auth_props_cap b;
            authData = (case ac_authData cfg of None \<Rightarrow> [] | Some d \<Rightarrow> take (ac_authDataLen cfg) d);
            r1 = add_prop_step cap True False (AuthMethod (m_authMethod ss)) (EC_Success, re_props op);
            r2 = fail_step (0 < ac_authDataLen cfg \<and> ac_authData cfg = None) r1;
            (ec, ps) = add_prop_step cap (0 < ac_authDataLen cfg) (maxStringLen < length authData) (AuthData authData) r2
        in (ec, op\<lparr>hs_authCb := True, re_reasonCode := Some RC_ReAuth, re_props := ps\<rparr>))"

definition ReauthOp_addUserProp ::
  "build \<Rightarrow> cstr option \<Rightarrow> cstr option \<Rightarrow> reauth_op \<Rightarrow> error_code \<times> reauth_op" where
  "ReauthOp_addUserProp b key val op =
     (let (ec, ps) = addUserPropToList (b_config b) (auth_props_cap b) key val (re_props op)
      in (ec, op\<lparr>re_props := ps\<rparr>))"

definition ReauthOp_restartTimer :: "op_id \<Rightarrow> client \<Rightarrow> client" where
  "ReauthOp_restartTimer i cl =
     (case reauth_op_at i cl of
        None \<Rightarrow> fault Use_After_Free cl
      | Some op \<Rightarrow>
          on_timers (timerWait (hs_timer op) (of_nat (hs_responseTimeoutMs op)) (Cb_OpTimeout Type_Reauth i)) cl)"

text \<open>
  The error exit: the operation completes first, then the connection is terminated.
\<close>

definition reauth_failed :: "build \<Rightarrow> reason_code \<Rightarrow> async_status \<Rightarrow> op_id \<Rightarrow> client \<Rightarrow> client" where
  "reauth_failed b reason status i cl =
     terminationWithReason b reason (ReauthOp_completeOpInternal b i status None cl)"

text \<open>
  Continuing: the application answers through its callback, and its answer goes out as AUTH.
\<close>

definition reauth_continue :: "build \<Rightarrow> reauth_op \<Rightarrow> auth_info \<Rightarrow> op_id \<Rightarrow> client \<Rightarrow> client" where
  "reauth_continue b op info i cl =
     (if \<not> hs_authCb op then fault Null_Deref cl
      else
        let cl1 = emit (Ev_AuthCallback info) cl; (authEc, outInfo) = auth_cb b info in
        if authEc = AuthErrorCode_Disconnect then reauth_failed b RC_NotAuthorized St_Aborted i cl1
        else
          (case auth_reply_props b (m_authMethod (m_sessionState cl)) outInfo of
             Inl status \<Rightarrow> reauth_failed b RC_UnspecifiedError status i cl1
           | Inr ps \<Rightarrow>
               let (ec, cl2) = sendMessage b (Auth_Out RC_ContinueAuth ps) cl1 in
               if ec \<noteq> EC_Success then reauth_failed b RC_UnspecifiedError St_OutOfMemory i cl2
               else ReauthOp_restartTimer i cl2))"

definition ReauthOp_handle_Auth :: "build \<Rightarrow> auth_msg \<Rightarrow> op_id \<Rightarrow> client \<Rightarrow> client" where
  "ReauthOp_handle_Auth b msg i cl =
     (case reauth_op_at i cl of
        None \<Rightarrow> fault Use_After_Free cl
      | Some op \<Rightarrow>
          let cl1 = on_timers (timerCancel (hs_timer op)) cl; ss = m_sessionState cl1;
              continueAuth = (au_reasonCode msg = Some RC_ContinueAuth);
              complete = (au_reasonCode msg = None \<or> au_reasonCode msg = Some RC_Success) in
          if \<not> continueAuth \<and> \<not> complete then reauth_failed b RC_ProtocolError St_ProtocolError i cl1
          else
            (case auth_info_of b (m_authMethod ss) (m_problemInfoAllowed ss) (au_props msg) of
               None \<Rightarrow> reauth_failed b RC_ProtocolError St_ProtocolError i cl1
             | Some info \<Rightarrow>
                 if complete then ReauthOp_completeOpInternal b i St_Complete (Some info) cl1
                 else reauth_continue b op info i cl1))"

section \<open>The handler keeps the invariant\<close>

lemma complete_reauth_ok:
  assumes ok: "client_ok cl" and op: "reauth_op_at i cl = Some op"
  shows "step_ok (ReauthOp_completeOpInternal b i status response cl) cl"
proof -
  have "i \<in> set (live_ids Type_Reauth cl)"
    using op op_at_in [of hs_id i "m_reauthOps cl" op] by (auto simp: reauth_op_at_def live_ids_def)
  then have live: "Some (Type_Reauth, i) \<in> set (m_ops cl)"
    using ok by (simp add: client_ok_def registry_ok_def)
  have s: "step_ok (opComplete b (Type_Reauth, i) cl) cl" by (rule opComplete_ok(1) [OF ok live]) simp
  then have "step_ok (emit ev (opComplete b (Type_Reauth, i) cl)) cl" for ev
    by (rule step_ok_effect) simp_all
  with s op show ?thesis by (simp add: ReauthOp_completeOpInternal_def reauth_op_at_def Let_def)
qed

lemma reauth_failed_ok:
  assumes "client_ok cl" and "reauth_op_at i cl = Some op"
  shows "step_ok (reauth_failed b reason status i cl) cl"
proof -
  have s: "step_ok (ReauthOp_completeOpInternal b i status None cl) cl" by (rule complete_reauth_ok [OF assms])
  show ?thesis
    unfolding reauth_failed_def by (rule step_ok_trans [OF terminationWithReason_ok [OF step_ok_ok [OF s]] s])
qed

lemma reauth_op_at_effects [simp]:
  "reauth_op_at i (on_timers g cl) = reauth_op_at i cl" "reauth_op_at i (emit ev cl) = reauth_op_at i cl"
  "reauth_op_at i (snd (sendMessage b msg cl)) = reauth_op_at i cl"
  by (simp_all add: reauth_op_at_def) (simp_all add: on_timers_def emit_def)

lemma ReauthOp_handle_Auth_ok:
  assumes ok: "client_ok cl" and op: "reauth_op_at i cl = Some op"
  shows "handshake_ok (ReauthOp_handle_Auth b msg i cl) cl"
proof -
  let ?cl1 = "on_timers (timerCancel (hs_timer op)) cl"
  have s1: "step_ok ?cl1 cl" by (rule step_ok_effect_refl [OF ok]) simp_all
  have step: "handshake_ok (reauth_failed b r st i c) cl"
    "handshake_ok (ReauthOp_completeOpInternal b i st resp c) cl"
    "handshake_ok (ReauthOp_restartTimer i c) cl"
    if c: "step_ok c cl" "reauth_op_at i c = Some op" for c r st resp
  proof -
    have "step_ok (ReauthOp_restartTimer i c) c"
      using c step_ok_ok [OF c(1)] by (simp add: ReauthOp_restartTimer_def step_ok_effect_refl)
    then show "handshake_ok (reauth_failed b r st i c) cl"
      "handshake_ok (ReauthOp_completeOpInternal b i st resp c) cl"
      "handshake_ok (ReauthOp_restartTimer i c) cl"
      using reauth_failed_ok [OF step_ok_ok [OF c(1)] c(2)] complete_reauth_ok [OF step_ok_ok [OF c(1)] c(2)]
        step_ok_trans [OF _ c(1)] handshake_ok_step by blast+
  qed
  have n: "handshake_ok (fault Null_Deref ?cl1) cl"
    using stays_after_step [OF s1 stays_ok_fault] s1 by (simp add: handshake_ok_def step_ok_def fault_def)
  have s2: "step_ok (emit ev ?cl1) cl" for ev by (rule step_ok_effect [OF s1]) simp_all
  have s3: "step_ok (snd (sendMessage b m (emit ev ?cl1))) cl" for m ev by (rule sent_ok [OF s2])
  have o: "reauth_op_at i ?cl1 = Some op" "reauth_op_at i (emit ev ?cl1) = Some op"
    "reauth_op_at i (snd (sendMessage b m (emit ev ?cl1))) = Some op" for ev m
    using op by simp_all
  show ?thesis
    unfolding ReauthOp_handle_Auth_def reauth_continue_def op option.case Let_def
    by (intro handshake_ok_if step(1) [OF s1 o(1)])
       (use step [OF s1 o(1)] step [OF s2 o(2)] step [OF s3 o(3)] n in
        \<open>auto simp: split_beta split: option.split sum.split\<close>)
qed

end
