(* ===== verification/Client_Dispatch.thy ===== *)
theory Client_Dispatch
  imports Keep_Alive_Op Recv_Op Send_Op Subscribe_Op Connect_Op Reauth_Op
begin

text \<open>
  How \<^verbatim>\<open>ClientImpl\<close> (\<^verbatim>\<open>client/lib/src/ClientImpl.cpp\<close>) routes an incoming message to the
  operations, and what the passing of time does: the \<^verbatim>\<open>handle\<close> functions,
  \<^verbatim>\<open>findSendOp\<close>, \<^verbatim>\<open>isLegitSendAck\<close>, \<^verbatim>\<open>resendAllUntil\<close>, the timer callbacks, \<^verbatim>\<open>tick\<close>,
  \<^verbatim>\<open>doApiEnter\<close> and \<^verbatim>\<open>doApiExit\<close>. The theorems say that every pointer such a message is
  dispatched to is alive.
\<close>

section \<open>PUBLISH\<close>

text \<open>
  \<^verbatim>\<open>createRecvOp\<close>: the flag says that no operation could be allocated and DISCONNECT was sent.
\<close>

definition createRecvOp :: "build \<Rightarrow> publish_msg \<Rightarrow> client \<Rightarrow> bool \<times> client" where
  "createRecvOp b msg cl =
     (if alloc_fails (RecvOpsLimit (b_config b)) (m_recvOps cl)
      then (True, sendDisconnectMsg b RC_ReceiveMaxExceeded cl)
      else
        let (op, cl1) = RecvOp_construct b cl;
            cl2 = register_op Type_Recv (cl1\<lparr>m_recvOps := m_recvOps cl1 @ [op]\<rparr>)
        in (False, RecvOp_handle_Publish b msg (ro_id op) cl2))"

definition findRecvOp :: "16 word \<Rightarrow> client \<Rightarrow> recv_op option" where
  "findRecvOp packetId cl = List.find (\<lambda>op. ro_packetId op = packetId) (m_recvOps cl)"

definition handle_new_publish :: "build \<Rightarrow> publish_msg \<Rightarrow> client \<Rightarrow> client" where
  "handle_new_publish b msg cl =
     (let (disconnectSent, cl1) = createRecvOp b msg cl in
      if disconnectSent then brokerDisconnected b BDR_ProtocolError St_BrokerDisconnected None cl1 else cl1)"

definition handle_Publish :: "build \<Rightarrow> publish_msg \<Rightarrow> client \<Rightarrow> client" where
  "handle_Publish b msg cl =
     (if m_disconnecting (m_sessionState cl) then cl
      else
        let cl1 = keep_alive_received cl; q = pm_qos msg in
        if q = AtMostOnce \<or> q = AtLeastOnce then handle_new_publish b msg cl1
        else if 2 \<le> MaxQos (b_config b) then
          (case findRecvOp (pm_packetId msg) cl1 of
             None \<Rightarrow> handle_new_publish b msg cl1
           | Some op \<Rightarrow>
               if \<not> pm_dup msg
               then snd (sendMessage b (Pubrec_Out (pm_packetId msg) (Some RC_PacketIdInUse)) cl1)
               else snd (sendMessage b (Pubrec_Out (pm_packetId msg) None) (resetTimer b op cl1)))
        else handle_new_publish b msg cl1)"

section \<open>Acknowledgements of publishes\<close>

definition findSendOp :: "16 word \<Rightarrow> client \<Rightarrow> send_op option" where
  "findSendOp packetId cl =
     List.find (\<lambda>op. pm_packetId (so_pubMsg op) = packetId) (m_sendOps cl)"

text \<open>
  The loop of \<^verbatim>\<open>isLegitSendAck\<close>: an acknowledgement is in order if every operation before
  its own has had its PUBREC, and a PUBCOMP only if there is none before it.
\<close>

fun legit_loop :: "op_id \<Rightarrow> bool \<Rightarrow> op_id \<Rightarrow> send_op list \<Rightarrow> bool" where
  "legit_loop i pubcompAck front [] = False"
| "legit_loop i pubcompAck front (op # ops) =
     (if so_id op = i then True
      else if \<not> so_acked op then False
      else if pubcompAck \<and> i \<noteq> front then False
      else legit_loop i pubcompAck front ops)"

definition isLegitSendAck :: "send_op \<Rightarrow> bool \<Rightarrow> client \<Rightarrow> bool" where
  "isLegitSendAck sendOp pubcompAck cl =
     (if \<not> so_published sendOp then False
      else legit_loop (so_id sendOp) pubcompAck (so_id (hd (m_sendOps cl))) (m_sendOps cl))"

text \<open>
  The loop of \<^verbatim>\<open>resendAllUntil\<close>. It reads its reference into the vector again after the
  resend, which may have erased the last element; that is the fault \<^term>\<open>Out_Of_Range\<close>.
\<close>

fun resend_until :: "nat \<Rightarrow> build \<Rightarrow> op_id \<Rightarrow> nat \<Rightarrow> client \<Rightarrow> client" where
  "resend_until 0 b target idx cl = fault Fuel_Exhausted cl"
| "resend_until (Suc n) b target idx cl =
     (if idx < length (m_sendOps cl) then
        let i = so_id (m_sendOps cl ! idx); cl1 = forceDupResend b i cl in
        if i = target then cl1
        else if length (m_sendOps cl1) \<le> idx then fault Out_Of_Range cl1
        else if so_id (m_sendOps cl1 ! idx) \<noteq> i then resend_until n b target idx cl1
        else resend_until n b target (idx + 1) cl1
      else cl)"

text \<open>Every turn passes one more operation or leaves fewer of them.\<close>

definition resendAllUntil :: "build \<Rightarrow> op_id \<Rightarrow> client \<Rightarrow> client" where
  "resendAllUntil b target cl = resend_until (length (m_sendOps cl) + 1) b target 0 cl"

definition processPublishAckMsg ::
  "build \<Rightarrow> (op_id \<Rightarrow> client \<Rightarrow> client) \<Rightarrow> 16 word \<Rightarrow> bool \<Rightarrow> client \<Rightarrow> bool \<times> client" where
  "processPublishAckMsg b dispatch packetId pubcompAck cl =
     (let cl1 = keep_alive_received cl in
      case findSendOp packetId cl1 of
        None \<Rightarrow> (False, cl1)
      | Some sendOp \<Rightarrow>
          if isLegitSendAck sendOp pubcompAck cl1 then (True, dispatch (so_id sendOp) cl1)
          else (True, resendAllUntil b (so_id sendOp) cl1))"

definition handle_Puback :: "build \<Rightarrow> ack_msg \<Rightarrow> client \<Rightarrow> client" where
  "handle_Puback b msg cl =
     snd (processPublishAckMsg b (SendOp_handle_Puback b msg) (am_packetId msg) False cl)"

definition handle_Pubrec :: "build \<Rightarrow> ack_msg \<Rightarrow> client \<Rightarrow> client" where
  "handle_Pubrec b msg cl =
     (let (known, cl1) = processPublishAckMsg b (SendOp_handle_Pubrec b msg) (am_packetId msg) False cl in
      if known then cl1
      else snd (sendMessage b (Pubrel_Out (am_packetId msg) (Some RC_PacketIdNotFound)) cl1))"

definition handle_Pubcomp :: "build \<Rightarrow> ack_msg \<Rightarrow> client \<Rightarrow> client" where
  "handle_Pubcomp b msg cl =
     snd (processPublishAckMsg b (SendOp_handle_Pubcomp b msg) (am_packetId msg) True cl)"

definition handle_Pubrel :: "build \<Rightarrow> ack_msg \<Rightarrow> client \<Rightarrow> client" where
  "handle_Pubrel b msg cl =
     (let cl1 = keep_alive_received cl in
      case findRecvOp (am_packetId msg) cl1 of
        None \<Rightarrow> snd (sendMessage b (Pubcomp_Out (am_packetId msg) (Some RC_PacketIdNotFound)) cl1)
      | Some op \<Rightarrow> RecvOp_handle_Pubrel b msg (ro_id op) cl1)"

section \<open>Other messages\<close>

text \<open>
  \<^verbatim>\<open>msg.dispatch(*op)\<close>: the \<^verbatim>\<open>handle\<close> overload of the operation for the message; an
  operation that does not override it ignores the message, \<^verbatim>\<open>KeepAliveOp\<close> takes it
  as a sign of life.
\<close>

definition dispatch_KeepAlive :: "build \<Rightarrow> in_msg \<Rightarrow> op_id \<Rightarrow> client \<Rightarrow> client" where
  "dispatch_KeepAlive b msg i cl =
     (case keep_alive_op_at i cl of
        None \<Rightarrow> fault Use_After_Free cl
      | Some op \<Rightarrow>
          (case msg of
             Pingresp_In \<Rightarrow> KeepAliveOp_handle_Pingresp op cl
           | Disconnect_In m \<Rightarrow> KeepAliveOp_handle_Disconnect b m op cl
           | _ \<Rightarrow> KeepAliveOp_handle_other op cl))"

definition dispatch_op :: "build \<Rightarrow> in_msg \<Rightarrow> op_ref \<Rightarrow> client \<Rightarrow> client" where
  "dispatch_op b msg ref cl =
     (case fst ref of
        Type_KeepAlive \<Rightarrow> dispatch_KeepAlive b msg (snd ref) cl
      | Type_Connect \<Rightarrow>
          (case msg of
             Disconnect_In m \<Rightarrow> ConnectOp_handle_Disconnect b m (snd ref) cl
           | Connack_In m \<Rightarrow> ConnectOp_handle_Connack b m (snd ref) cl
           | Auth_In m \<Rightarrow> ConnectOp_handle_Auth b m (snd ref) cl
           | _ \<Rightarrow> cl)
      | Type_Reauth \<Rightarrow> (case msg of Auth_In m \<Rightarrow> ReauthOp_handle_Auth b m (snd ref) cl | _ \<Rightarrow> cl)
      | Type_Subscribe \<Rightarrow>
          (case msg of Suback_In m \<Rightarrow> SubscribeOp_handle_Suback b m (snd ref) cl | _ \<Rightarrow> cl)
      | Type_Unsubscribe \<Rightarrow>
          (case msg of Unsuback_In m \<Rightarrow> UnsubscribeOp_handle_Unsuback b m (snd ref) cl | _ \<Rightarrow> cl)
      | _ \<Rightarrow> cl)"

fun dispatch_loop :: "build \<Rightarrow> in_msg \<Rightarrow> nat list \<Rightarrow> client \<Rightarrow> client" where
  "dispatch_loop b msg [] cl = cl"
| "dispatch_loop b msg (k # ks) cl =
     (case m_ops cl ! k of
        None \<Rightarrow> dispatch_loop b msg ks cl
      | Some ref \<Rightarrow>
          let cl1 = dispatch_op b msg ref cl in
          if m_disconnecting (m_sessionState cl1) then cl1 else dispatch_loop b msg ks cl1)"

definition handle_other :: "build \<Rightarrow> in_msg \<Rightarrow> client \<Rightarrow> client" where
  "handle_other b msg cl =
     (if m_disconnecting (m_sessionState cl) then cl
      else dispatch_loop b msg [0..<length (m_ops cl)] cl)"

text \<open>The \<^verbatim>\<open>handle\<close> overload of the client that a message selects in a build.\<close>

definition handle_message :: "build \<Rightarrow> in_msg \<Rightarrow> client \<Rightarrow> client" where
  "handle_message b msg cl =
     (case msg of
        Publish_In m \<Rightarrow> handle_Publish b m cl
      | Puback_In m \<Rightarrow> if 1 \<le> MaxQos (b_config b) then handle_Puback b m cl else handle_other b msg cl
      | Pubrec_In m \<Rightarrow> if 2 \<le> MaxQos (b_config b) then handle_Pubrec b m cl else handle_other b msg cl
      | Pubrel_In m \<Rightarrow> if 2 \<le> MaxQos (b_config b) then handle_Pubrel b m cl else handle_other b msg cl
      | Pubcomp_In m \<Rightarrow> if 2 \<le> MaxQos (b_config b) then handle_Pubcomp b m cl else handle_other b msg cl
      | _ \<Rightarrow> handle_other b msg cl)"

section \<open>Time\<close>

definition handshake_timeout :: "build \<Rightarrow> op_type \<Rightarrow> op_id \<Rightarrow> client \<Rightarrow> client" where
  "handshake_timeout b t i cl =
     (case t of
        Type_Connect \<Rightarrow> ConnectOp_completeOpInternal b i St_Timeout None cl
      | Type_Reauth \<Rightarrow> ReauthOp_completeOpInternal b i St_Timeout None cl
      | Type_Subscribe \<Rightarrow> SubscribeOp_opTimeoutInternal b i cl
      | Type_Unsubscribe \<Rightarrow> UnsubscribeOp_opTimeoutInternal b i cl
      | _ \<Rightarrow> cl)"

text \<open>
  Calling back: the callback runs on the address it was registered with, which may be
  gone.
\<close>

definition fire :: "build \<Rightarrow> timer_cb \<Rightarrow> client \<Rightarrow> client" where
  "fire b cb cl =
     (case cb of
        Cb_SessionExpiry \<Rightarrow> sessionExpiryTimeoutInternal b cl
      | Cb_SendPing i \<Rightarrow> sendPing b i cl
      | Cb_KeepAliveRecv i \<Rightarrow> sendPing b i cl
      | Cb_PingTimeout i \<Rightarrow> pingTimeoutInternal b i cl
      | Cb_SendResponse i \<Rightarrow> responseTimeoutInternal b i cl
      | Cb_RecvResponse i \<Rightarrow> RecvOp_responseTimeoutInternal b i cl
      | Cb_OpTimeout t i \<Rightarrow> handshake_timeout b t i cl)"

definition timers_tick :: "build \<Rightarrow> 32 word \<Rightarrow> client \<Rightarrow> client" where
  "timers_tick b ms cl =
     (let (cbs, tm) = timer_tick ms (m_timerMgr cl) in fold (fire b) cbs (cl\<lparr>m_timerMgr := tm\<rparr>))"

text \<open>
  \<^verbatim>\<open>doApiEnter\<close>: \<^term>\<open>elapsed\<close> is what the callback that cancels the pending tick returns.
\<close>

definition doApiEnter :: "build \<Rightarrow> 32 word \<Rightarrow> client \<Rightarrow> client" where
  "doApiEnter b elapsed cl =
     (let cl1 = cl\<lparr>m_apiEnterCount := Suc (m_apiEnterCount cl)\<rparr> in
      if 1 < m_apiEnterCount cl1 \<or> \<not> m_cancelNextTickWaitCb cl1 then cl1
      else if getMinWait (m_timerMgr cl1) = 0 then cl1
      else timers_tick b elapsed (emit Ev_CancelNextTickWait cl1))"

definition doApiExit :: "client \<Rightarrow> client" where
  "doApiExit cl =
     (let cl1 = cl\<lparr>m_apiEnterCount := m_apiEnterCount cl - 1\<rparr> in
      if 0 < m_apiEnterCount cl1 then cl1
      else
        let cl2 = cleanOps cl1 in
        if \<not> m_nextTickProgramCb cl2 then cl2
        else if getMinWait (m_timerMgr cl2) = 0 then cl2
        else emit (Ev_NextTickProgram (getMinWait (m_timerMgr cl2))) cl2)"

definition ClientImpl_tick :: "build \<Rightarrow> 32 word \<Rightarrow> client \<Rightarrow> client" where
  "ClientImpl_tick b ms cl =
     doApiExit (timers_tick b ms (cl\<lparr>m_apiEnterCount := Suc (m_apiEnterCount cl)\<rparr>))"

section \<open>Incoming messages keep the invariant\<close>

lemma RecvOp_construct_frame:
  obtains op tm where "RecvOp_construct b cl = (op, cl\<lparr>m_timerMgr := tm\<rparr>)" "ro_id op = cl_nextId cl"
  using alloc_timer_frame [of b cl] by (auto simp: RecvOp_construct_def split_beta Let_def)

lemma createRecvOp_ok:
  assumes ok: "client_ok cl"
  shows "stays_ok {Out_Of_Range} (snd (createRecvOp b msg cl)) cl"
proof (cases "alloc_fails (RecvOpsLimit (b_config b)) (m_recvOps cl)")
  case True
  have "step_ok (sendDisconnectMsg b RC_ReceiveMaxExceeded cl) cl"
    unfolding sendDisconnectMsg_def by (rule step_ok_effect_refl [OF ok]) simp_all
  with True show ?thesis by (simp add: createRecvOp_def stays_ok_step)
next
  case False
  obtain op tm where c: "RecvOp_construct b cl = (op, cl\<lparr>m_timerMgr := tm\<rparr>)" "ro_id op = cl_nextId cl"
    by (rule RecvOp_construct_frame)
  let ?c = "cl\<lparr>m_timerMgr := tm, m_recvOps := m_recvOps cl @ [op]\<rparr>"
  let ?r = "register_op Type_Recv ?c"
  have okr: "client_ok ?r"
  proof (rule register_ok [OF ok])
    show "live_ids Type_Recv ?c = live_ids Type_Recv cl @ [cl_nextId cl]" using c(2) by (simp add: live_ids_def)
    show "t' \<noteq> Type_Recv \<Longrightarrow> live_ids t' ?c = live_ids t' cl" for t' by (simp add: live_ids_def split: op_type.split)
    show "sends_ok ?c" using ok by (simp add: client_ok_def sends_ok_def)
  qed simp_all
  have "ro_id op \<in> set (live_ids Type_Recv ?r)" by (simp add: live_ids_def register_op_def)
  then have "Some (Type_Recv, ro_id op) \<in> set (m_ops ?r)"
    using okr by (simp add: client_ok_def registry_ok_def)
  then obtain op' where op': "recv_op_at (ro_id op) ?r = Some op'" using live_found(2) [OF okr] by blast
  have "stays_ok {Out_Of_Range} (RecvOp_handle_Publish b msg (ro_id op) ?r) ?r"
    by (rule stays_ok_mono [OF RecvOp_handle_Publish_ok [OF okr op']]) (simp add: recv_faults_def)
  moreover have "stays_ok {Out_Of_Range} ?r cl" using okr grown_from_register [of ?c cl Type_Recv]
    by (simp add: stays_ok_def) (simp add: register_op_def paused_ids_def)
  ultimately have "stays_ok {Out_Of_Range} (RecvOp_handle_Publish b msg (ro_id op) ?r) cl" by (rule stays_ok_trans)
  then show ?thesis using False c(1) by (simp add: createRecvOp_def Let_def)
qed

lemma handle_new_publish_ok:
  assumes ok: "client_ok cl"
  shows "stays_ok {Out_Of_Range} (handle_new_publish b msg cl) cl"
proof -
  have s: "stays_ok {Out_Of_Range} (snd (createRecvOp b msg cl)) cl" by (rule createRecvOp_ok [OF ok])
  have "stays_ok {Out_Of_Range} (brokerDisconnected b BDR_ProtocolError St_BrokerDisconnected None
      (snd (createRecvOp b msg cl))) cl"
    by (rule stays_ok_trans [OF stays_ok_step [OF brokerDisconnected_ok(1) [OF stays_ok_ok [OF s]]] s])
  with s show ?thesis by (simp add: handle_new_publish_def split_beta)
qed

lemma handle_Publish_ok:
  assumes ok: "client_ok cl"
  shows "stays_ok {Out_Of_Range} (handle_Publish b msg cl) cl"
proof -
  let ?k = "keep_alive_received cl"
  have k: "step_ok ?k cl" by (rule keep_alive_received_ok [OF ok])
  have n: "stays_ok {Out_Of_Range} (handle_new_publish b msg ?k) cl"
    by (rule stays_after_step [OF k handle_new_publish_ok])
  have r: "step_ok (resetTimer b op ?k) cl" for op
    by (rule step_ok_trans [OF resetTimer_ok [OF step_ok_ok [OF k]] k])
  show ?thesis
    unfolding handle_Publish_def Let_def
    by (intro stays_ok_if n stays_ok_refl ok)
       (auto split: option.split intro: n stays_ok_step sent_ok k r)
qed

section \<open>Acknowledgements keep the invariant\<close>

lemma find_send_id:
  assumes "client_ok cl" and "op \<in> set (m_sendOps cl)"
  shows "send_op_at (so_id op) cl = Some op"
proof -
  have d: "distinct (map so_id (m_sendOps cl))" by (rule client_ok_distinct_sends [OF assms(1)])
  have "so_id op \<in> set (map so_id (m_sendOps cl))" using assms(2) by simp
  from op_at_live [OF this] obtain op' where o: "op_at so_id (so_id op) (m_sendOps cl) = Some op'" by blast
  from op_at_in [OF this] have "op' = op" using d assms(2) by (auto simp: distinct_map inj_on_def)
  with o show ?thesis by (simp add: send_op_at_def)
qed

lemma findSendOp_Some: "findSendOp j cl = Some op \<Longrightarrow> op \<in> set (m_sendOps cl) \<and> pm_packetId (so_pubMsg op) = j"
  by (auto simp: findSendOp_def find_Some_iff)

lemma findRecvOp_Some: "findRecvOp j cl = Some op \<Longrightarrow> op \<in> set (m_recvOps cl) \<and> ro_packetId op = j"
  by (auto simp: findRecvOp_def find_Some_iff)

lemma shrinks_if: "shrinks a c \<Longrightarrow> shrinks b c \<Longrightarrow> shrinks (if p then a else b) c"
  by simp

lemma forceDupResend_shrinks: "shrinks (forceDupResend b i cl) cl"
proof (cases "send_op_at i cl")
  case None
  then show ?thesis by (simp add: forceDupResend_def shrinks_same_sends)
next
  case (Some op)
  have rs: "rs_shrinks (resumeSends b)" 
    using resumeSendOpsSince_shrinks by (simp add: rs_shrinks_def resumeSends_def)
  have c: "shrinks (completeWithCb b i status None c) c" for status c
    unfolding completeWithCb_def by (rule completeWithCb_shrinks [OF rs])
  let ?cl1 = "if \<not> so_acked op
    then upd_send i (\<lambda>p. p\<lparr>so_pubMsg := (so_pubMsg p)\<lparr>pm_dup := True\<rparr>\<rparr>) cl else cl"
  have s1: "shrinks ?cl1 cl" by (simp add: upd_send_shrinks)
  have s2: "shrinks (snd (sendMessage b msg ?cl1)) cl" for msg
    using s1 by (simp add: shrinks_cong [of "snd (sendMessage b msg ?cl1)" ?cl1])
  have s3: "shrinks (completeWithCb b i status None (snd (sendMessage b msg ?cl1))) cl" for msg status
    by (rule shrinks_trans [OF c s2])
  have u: "shrinks (upd_send i (\<lambda>p. p\<lparr>so_sendAttempts := Suc (so_sendAttempts p)\<rparr>)
      (snd (sendMessage b msg ?cl1))) (snd (sendMessage b msg ?cl1))" for msg
    by (rule upd_send_shrinks) simp_all
  have s4: "shrinks (SendOp_restartResponseTimer i (upd_send i (\<lambda>p. p\<lparr>so_sendAttempts := Suc (so_sendAttempts p)\<rparr>)
      (snd (sendMessage b msg ?cl1)))) cl" for msg
    unfolding shrinks_cong [OF restartResponseTimer_shrinks(1)] by (rule shrinks_trans [OF u s2])
  show ?thesis
    unfolding forceDupResend_def resendDupMsg_def Some option.case Let_def split_beta
    by (intro shrinks_if c s3 s4 shrinks_refl)
qed

text \<open>When the operation at the position is another one, there are fewer of them.\<close>

lemma shrinks_changed:
  assumes "shrinks cl' cl" and "idx < length (m_sendOps cl')" and "so_id (m_sendOps cl' ! idx) \<noteq> so_id (m_sendOps cl ! idx)"
  shows "length (m_sendOps cl') < length (m_sendOps cl)"
proof (rule ccontr)
  let ?a = "map so_id (m_sendOps cl')" and ?b = "map so_id (m_sendOps cl)"
  assume "\<not> ?thesis"
  then have l: "length ?a = length ?b" using shrinks_length [OF assms(1)] by simp
  have "subseq ?a ?b" using assms(1) by (simp add: shrinks_def)
  from subseq_same_length [OF this l] have "?a ! idx = ?b ! idx" by simp
  moreover have "idx < length (m_sendOps cl)" using assms(2) l by simp
  ultimately show False using assms(2,3) by simp
qed

lemma resend_until_ok:
  "client_ok cl \<Longrightarrow> length (m_sendOps cl) - idx < n \<Longrightarrow>
     stays_ok {Out_Of_Range} (resend_until n b target idx cl) cl"
proof (induction n arbitrary: idx cl)
  case (Suc n)
  show ?case
  proof (cases "idx < length (m_sendOps cl)")
    case False
    then show ?thesis using Suc.prems by (simp add: stays_ok_refl)
  next
    case True
    let ?i = "so_id (m_sendOps cl ! idx)"
    let ?c = "forceDupResend b ?i cl"
    have "send_op_at ?i cl = Some (m_sendOps cl ! idx)" by (rule find_send_id [OF Suc.prems(1)]) (simp add: True)
    then have s: "step_ok ?c cl" by (rule forceDupResend_ok [OF Suc.prems(1)])
    have len: "length (m_sendOps ?c) \<le> length (m_sendOps cl)" by (rule shrinks_length [OF forceDupResend_shrinks])
    have next_turn: "stays_ok {Out_Of_Range} (resend_until n b target (idx + 1) ?c) cl"
      by (rule stays_after_step [OF s Suc.IH]) (use Suc.prems(2) True len in simp_all)
    have again: "stays_ok {Out_Of_Range} (resend_until n b target idx ?c) cl"
      if "idx < length (m_sendOps ?c)" "so_id (m_sendOps ?c ! idx) \<noteq> ?i"
      using shrinks_changed [OF forceDupResend_shrinks that] Suc.prems(2) that(1)
      by (intro stays_after_step [OF s Suc.IH]) simp_all
    have f: "stays_ok {Out_Of_Range} (fault Out_Of_Range ?c) cl"
      by (rule stays_after_step [OF s]) (simp add: stays_ok_fault)
    show ?thesis
      using next_turn again f stays_ok_step [OF s] True
      by (cases "?i = target"; cases "length (m_sendOps ?c) \<le> idx"; cases "so_id (m_sendOps ?c ! idx) = ?i")
         (simp_all add: Let_def del: One_nat_def add_Suc_right)
  qed
qed simp

lemma resendAllUntil_ok: "client_ok cl \<Longrightarrow> stays_ok {Out_Of_Range} (resendAllUntil b target cl) cl"
  unfolding resendAllUntil_def by (rule resend_until_ok) simp_all

lemma processPublishAckMsg_ok:
  assumes ok: "client_ok cl"
    and d: "\<And>c op. client_ok c \<Longrightarrow> send_op_at (so_id op) c = Some op \<Longrightarrow> step_ok (dispatch (so_id op) c) c"
  shows "stays_ok {Out_Of_Range} (snd (processPublishAckMsg b dispatch packetId pubcompAck cl)) cl"
proof -
  let ?k = "keep_alive_received cl"
  have k: "step_ok ?k cl" by (rule keep_alive_received_ok [OF ok])
  show ?thesis
  proof (cases "findSendOp packetId ?k")
    case None
    then show ?thesis using k by (simp add: processPublishAckMsg_def stays_ok_step)
  next
    case (Some op)
    then have "send_op_at (so_id op) ?k = Some op"
      using find_send_id [OF step_ok_ok [OF k]] findSendOp_Some by blast
    then have "step_ok (dispatch (so_id op) ?k) cl"
      using d [OF step_ok_ok [OF k]] step_ok_trans [OF _ k] by blast
    moreover have "stays_ok {Out_Of_Range} (resendAllUntil b (so_id op) ?k) cl"
      by (rule stays_after_step [OF k resendAllUntil_ok])
    ultimately show ?thesis using Some by (simp add: processPublishAckMsg_def Let_def stays_ok_step)
  qed
qed

lemma handle_acks_ok:
  assumes ok: "client_ok cl"
  shows "stays_ok {Out_Of_Range} (handle_Puback b msg cl) cl"
    and "stays_ok {Out_Of_Range} (handle_Pubcomp b msg cl) cl"
    and "stays_ok {Out_Of_Range} (handle_Pubrec b msg cl) cl"
proof -
  show "stays_ok {Out_Of_Range} (handle_Puback b msg cl) cl"
    unfolding handle_Puback_def by (intro processPublishAckMsg_ok ok SendOp_handle_Puback_ok)
  show "stays_ok {Out_Of_Range} (handle_Pubcomp b msg cl) cl"
    unfolding handle_Pubcomp_def by (intro processPublishAckMsg_ok ok SendOp_handle_Pubcomp_ok)
  let ?p = "snd (processPublishAckMsg b (SendOp_handle_Pubrec b msg) (am_packetId msg) False cl)"
  have p: "stays_ok {Out_Of_Range} ?p cl"
    by (intro processPublishAckMsg_ok ok SendOp_handle_Pubrec_ok)
  have "stays_ok {Out_Of_Range} (snd (sendMessage b m ?p)) cl" for m
    by (rule stays_ok_effect [OF p]) simp_all
  with p show "stays_ok {Out_Of_Range} (handle_Pubrec b msg cl) cl"
    by (simp add: handle_Pubrec_def split_beta)
qed

lemma find_recv_id:
  assumes "client_ok cl" and "op \<in> set (m_recvOps cl)"
  shows "\<exists>op'. recv_op_at (ro_id op) cl = Some op'"
proof -
  have "ro_id op \<in> set (map ro_id (m_recvOps cl))" using assms(2) by simp
  from op_at_live [OF this] show ?thesis by (auto simp: recv_op_at_def)
qed

lemma handle_Pubrel_ok:
  assumes ok: "client_ok cl"
  shows "step_ok (handle_Pubrel b msg cl) cl"
proof -
  let ?k = "keep_alive_received cl"
  have k: "step_ok ?k cl" by (rule keep_alive_received_ok [OF ok])
  have "step_ok (RecvOp_handle_Pubrel b msg (ro_id op) ?k) cl" if "findRecvOp (am_packetId msg) ?k = Some op" for op
  proof -
    note f = that
    obtain op' where "recv_op_at (ro_id op) ?k = Some op'"
      using find_recv_id [OF step_ok_ok [OF k]] findRecvOp_Some [OF f] by blast
    then show ?thesis using step_ok_trans [OF RecvOp_handle_Pubrel_ok [OF step_ok_ok [OF k]] k] by blast
  qed
  then show ?thesis using sent_ok [OF k] by (auto simp: handle_Pubrel_def Let_def split: option.split)
qed

lemma dispatch_op_ok:
  assumes ok: "client_ok cl" and live: "Some ref \<in> set (m_ops cl)"
  shows "handshake_ok (dispatch_op b msg ref cl) cl"
proof (cases ref)
  case (Pair t i)
  note live' = live [unfolded Pair]
  note found = live_found [OF ok live']
  note r = handshake_ok_step [OF step_ok_refl [OF ok]]
  show ?thesis
  proof (cases t)
    case Type_KeepAlive
    then obtain op where "keep_alive_op_at i cl = Some op" using keep_alive_found [OF ok] live' by blast
    then have "step_ok (dispatch_op b msg ref cl) cl"
      using Pair Type_KeepAlive restart_timer_ok [OF ok] KeepAliveOp_handle_Disconnect_ok [OF ok]
      by (auto simp: dispatch_op_def dispatch_KeepAlive_def KeepAliveOp_handle_other_def split: in_msg.split)
    then show ?thesis by (rule handshake_ok_step)
  next
    case Type_Connect
    then obtain op where "connect_op_at i cl = Some op" using found(4) by (auto simp: connect_op_at_def)
    then show ?thesis
      using Pair Type_Connect r handshake_ok_step [OF ConnectOp_handle_Disconnect_ok [OF ok]]
        ConnectOp_handle_Connack_ok [OF ok] ConnectOp_handle_Auth_ok [OF ok]
      by (auto simp: dispatch_op_def split: in_msg.split)
  next
    case Type_Reauth
    then obtain op where "reauth_op_at i cl = Some op" using found(7) by (auto simp: reauth_op_at_def)
    then show ?thesis
      using Pair Type_Reauth r ReauthOp_handle_Auth_ok [OF ok]
      by (auto simp: dispatch_op_def split: in_msg.split)
  next
    case Type_Subscribe
    then show ?thesis
      using Pair found(5) r handshake_ok_step [OF SubscribeOp_handle_Suback_ok [OF ok]]
      by (auto simp: dispatch_op_def split: in_msg.split)
  next
    case Type_Unsubscribe
    then show ?thesis
      using Pair found(6) r handshake_ok_step [OF UnsubscribeOp_handle_Unsuback_ok [OF ok]]
      by (auto simp: dispatch_op_def split: in_msg.split)
  qed (simp_all add: Pair dispatch_op_def r)
qed

lemma dispatch_loop_ok:
  "client_ok cl \<Longrightarrow> \<forall>k\<in>set ks. k < length (m_ops cl) \<Longrightarrow> handshake_ok (dispatch_loop b msg ks cl) cl"
proof (induction ks arbitrary: cl)
  case (Cons k ks)
  show ?case
  proof (cases "m_ops cl ! k")
    case None
    then show ?thesis using Cons by simp
  next
    case (Some ref)
    then have "Some ref \<in> set (m_ops cl)" using Cons.prems(2) by (metis list.set_intros(1) nth_mem)
    then have s: "handshake_ok (dispatch_op b msg ref cl) cl" by (rule dispatch_op_ok [OF Cons.prems(1)])
    then have l: "client_ok (dispatch_op b msg ref cl)" "length (m_ops cl) \<le> length (m_ops (dispatch_op b msg ref cl))"
      by (auto simp: handshake_ok_def dest: stays_ok_ok)
    then have "\<forall>k\<in>set ks. k < length (m_ops (dispatch_op b msg ref cl))" using Cons.prems(2) by auto
    from Cons.IH [OF l(1) this] show ?thesis using Some s handshake_ok_trans [OF _ s] by (simp add: Let_def)
  qed
qed (simp add: handshake_ok_step step_ok_refl)

lemma handle_other_ok:
  "client_ok cl \<Longrightarrow> stays_ok {Out_Of_Range, Null_Deref, Iterator_Invalidated} (handle_other b msg cl) cl"
proof -
  assume ok: "client_ok cl"
  have "stays_ok {Null_Deref, Iterator_Invalidated} (handle_other b msg cl) cl"
    using dispatch_loop_ok [OF ok, of "[0..<length (m_ops cl)]"]
    by (simp add: handle_other_def stays_ok_refl [OF ok] handshake_ok_def)
  then show ?thesis by (rule stays_ok_mono) simp
qed

text \<open>
  Whatever message arrives: the registry stays consistent, no dead operation is
  called, no loop runs out of fuel.
\<close>

lemma handle_message_ok:
  assumes ok: "client_ok cl"
  shows "stays_ok {Out_Of_Range, Null_Deref, Iterator_Invalidated} (handle_message b msg cl) cl"
proof -
  have m: "stays_ok {Out_Of_Range} c cl \<Longrightarrow> stays_ok {Out_Of_Range, Null_Deref, Iterator_Invalidated} c cl" for c
    by (erule stays_ok_mono) simp
  show ?thesis
    using m [OF handle_Publish_ok [OF ok]] m [OF handle_acks_ok(1) [OF ok]] m [OF handle_acks_ok(2) [OF ok]]
      m [OF handle_acks_ok(3) [OF ok]] stays_ok_step [OF handle_Pubrel_ok [OF ok]] handle_other_ok [OF ok]
    by (cases msg) (simp_all add: handle_message_def)
qed

section \<open>Time keeps the invariant\<close>

lemma complete_or_freed:
  assumes ok: "client_ok cl"
  shows "stays_ok {Use_After_Free} (ConnectOp_completeOpInternal b i status None cl) cl"
    and "stays_ok {Use_After_Free} (ReauthOp_completeOpInternal b i status None cl) cl"
    and "stays_ok {Use_After_Free} (SubscribeOp_completeOpInternal b i status None cl) cl"
    and "stays_ok {Use_After_Free} (UnsubscribeOp_completeOpInternal b i status None cl) cl"
proof -
  have live: "Some (t, i) \<in> set (m_ops cl)" if "i \<in> set (live_ids t cl)" for t
    using that ok by (simp add: client_ok_def registry_ok_def)
  have t: "stays_ok {Use_After_Free} (terminateOp b status (t, i) cl) cl" if "i \<in> set (live_ids t cl)" for t
    by (rule stays_ok_step [OF terminateOp_ok(1) [OF ok live [OF that]]])
  have f: "stays_ok {Use_After_Free} (fault Use_After_Free cl) cl" by (simp add: stays_ok_fault ok)
  show "stays_ok {Use_After_Free} (ConnectOp_completeOpInternal b i status None cl) cl"
    using t [of Type_Connect] f op_at_None [of hs_id i "m_connectOps cl"]
    by (cases "i \<in> set (live_ids Type_Connect cl)")
       (simp_all add: terminateOp_def live_ids_def ConnectOp_completeOpInternal_def)
  show "stays_ok {Use_After_Free} (ReauthOp_completeOpInternal b i status None cl) cl"
    using t [of Type_Reauth] f op_at_None [of hs_id i "m_reauthOps cl"]
    by (cases "i \<in> set (live_ids Type_Reauth cl)")
       (simp_all add: terminateOp_def live_ids_def ReauthOp_completeOpInternal_def)
  show "stays_ok {Use_After_Free} (SubscribeOp_completeOpInternal b i status None cl) cl"
    using t [of Type_Subscribe] f op_at_None [of sub_id i "m_subscribeOps cl"]
    by (cases "i \<in> set (live_ids Type_Subscribe cl)")
       (simp_all add: terminateOp_def live_ids_def SubscribeOp_completeOpInternal_def)
  show "stays_ok {Use_After_Free} (UnsubscribeOp_completeOpInternal b i status None cl) cl"
    using t [of Type_Unsubscribe] f op_at_None [of uns_id i "m_unsubscribeOps cl"]
    by (cases "i \<in> set (live_ids Type_Unsubscribe cl)")
       (simp_all add: terminateOp_def live_ids_def UnsubscribeOp_completeOpInternal_def)
qed

text \<open>
  A callback finds its operation, or it runs on a deleted one: the only fault.
\<close>

lemma fire_ok:
  assumes ok: "client_ok cl"
  shows "stays_ok {Use_After_Free} (fire b cb cl) cl"
proof -
  have f: "stays_ok {Use_After_Free} (fault Use_After_Free cl) cl" by (simp add: stays_ok_fault ok)
  note r = stays_ok_refl [OF ok] and c = complete_or_freed [OF ok]
  show ?thesis
  proof (cases cb)
    case Cb_SessionExpiry
    then show ?thesis using stays_ok_step [OF sessionExpiryTimeoutInternal_ok [OF ok]] by (simp add: fire_def)
  next
    case (Cb_SendPing i)
    then show ?thesis
      using f stays_ok_step [OF sendPing_ok [OF ok]]
      by (cases "keep_alive_op_at i cl") (simp_all add: fire_def, simp add: sendPing_def)
  next
    case (Cb_KeepAliveRecv i)
    then show ?thesis
      using f stays_ok_step [OF sendPing_ok [OF ok]]
      by (cases "keep_alive_op_at i cl") (simp_all add: fire_def, simp add: sendPing_def)
  next
    case (Cb_PingTimeout i)
    then show ?thesis
      using f stays_ok_step [OF pingTimeoutInternal_ok [OF ok]]
      by (cases "keep_alive_op_at i cl") (simp_all add: fire_def, simp add: pingTimeoutInternal_def)
  next
    case (Cb_SendResponse i)
    then show ?thesis
      using f stays_ok_step [OF resendDupMsg_ok [OF ok]]
      by (cases "send_op_at i cl") (simp_all add: fire_def responseTimeoutInternal_def, simp add: resendDupMsg_def)
  next
    case (Cb_RecvResponse i)
    then show ?thesis
      using f r stays_ok_step [OF RecvOp_responseTimeoutInternal_ok [OF ok]]
      by (cases "recv_op_at i cl") (simp_all add: fire_def, simp add: RecvOp_responseTimeoutInternal_def)
  next
    case (Cb_OpTimeout t i)
    then show ?thesis
      using c r by (cases t) (simp_all add: fire_def handshake_timeout_def SubscribeOp_opTimeoutInternal_def
          UnsubscribeOp_opTimeoutInternal_def)
  qed
qed

lemma fires_ok: "client_ok cl \<Longrightarrow> stays_ok {Use_After_Free} (fold (fire b) cbs cl) cl"
proof (induction cbs arbitrary: cl)
  case (Cons cb cbs)
  have s: "stays_ok {Use_After_Free} (fire b cb cl) cl" by (rule fire_ok [OF Cons.prems])
  show ?case using stays_ok_trans [OF Cons.IH [OF stays_ok_ok [OF s]] s] by simp
qed (simp add: stays_ok_refl)

lemma timers_tick_ok:
  assumes "client_ok cl"
  shows "stays_ok {Use_After_Free} (timers_tick b ms cl) cl"
proof -
  have s: "stays_ok {Use_After_Free} (cl\<lparr>m_timerMgr := tm\<rparr>) cl" for tm
    by (rule client_ok_cong) (simp_all add: assms live_ids_def split: op_type.split)
  have "stays_ok {Use_After_Free} (fold (fire b) cbs (cl\<lparr>m_timerMgr := tm\<rparr>)) cl" for cbs tm
    by (rule stays_ok_trans [OF fires_ok [OF stays_ok_ok [OF s]] s])
  then show ?thesis by (simp add: timers_tick_def split_beta)
qed

lemma entered_ok: "client_ok cl \<Longrightarrow> stays_ok F (cl\<lparr>m_apiEnterCount := n\<rparr>) cl"
  by (rule client_ok_cong) (simp_all add: live_ids_def split: op_type.split)

lemma doApiEnter_ok:
  assumes "client_ok cl"
  shows "stays_ok {Use_After_Free} (doApiEnter b elapsed cl) cl"
proof -
  let ?c = "cl\<lparr>m_apiEnterCount := Suc (m_apiEnterCount cl)\<rparr>"
  have s: "stays_ok {Use_After_Free} ?c cl" by (rule entered_ok [OF assms])
  have e: "stays_ok {Use_After_Free} (emit Ev_CancelNextTickWait ?c) cl"
    by (rule stays_ok_effect [OF s]) simp_all
  show ?thesis
    unfolding doApiEnter_def Let_def
    by (intro stays_ok_if s stays_ok_trans [OF timers_tick_ok [OF stays_ok_ok [OF e]] e])
qed

lemma cleanOps_ok: "client_ok cl \<Longrightarrow> stays_ok F (cleanOps cl) cl"
proof -
  assume ok: "client_ok cl"
  have "registry_ok (cl\<lparr>m_ops := filter (\<lambda>p. p \<noteq> None) (m_ops cl), m_opsDeleted := False\<rparr>)" (is "registry_ok ?c")
  proof -
    have "live_ids t ?c = live_ids t cl" for t by (simp add: live_ids_def split: op_type.split)
    then show ?thesis using ok by (simp add: client_ok_def registry_ok_def)
  qed
  then have "client_ok ?c" using ok by (simp add: client_ok_def sends_ok_def)
  moreover have "grown_from ?c cl" by (simp add: grown_from_def)
  ultimately show ?thesis using ok by (simp add: cleanOps_def stays_ok_def paused_ids_def grown_from_same)
qed

lemma doApiExit_ok:
  assumes "client_ok cl"
  shows "stays_ok F (doApiExit cl) cl"
proof -
  let ?c = "cl\<lparr>m_apiEnterCount := m_apiEnterCount cl - 1\<rparr>"
  have s: "stays_ok F ?c cl" by (rule entered_ok [OF assms])
  have t: "stays_ok F (cleanOps ?c) cl" by (rule stays_ok_trans [OF cleanOps_ok [OF stays_ok_ok [OF s]] s])
  have e: "stays_ok F (emit ev (cleanOps ?c)) cl" for ev
    by (rule stays_ok_effect [OF t]) simp_all
  show ?thesis unfolding doApiExit_def Let_def by (intro stays_ok_if s t e)
qed

lemma ClientImpl_tick_ok:
  assumes "client_ok cl"
  shows "stays_ok {Use_After_Free} (ClientImpl_tick b ms cl) cl"
proof -
  let ?c = "cl\<lparr>m_apiEnterCount := Suc (m_apiEnterCount cl)\<rparr>"
  have s: "stays_ok {Use_After_Free} ?c cl" by (rule entered_ok [OF assms])
  have t: "stays_ok {Use_After_Free} (timers_tick b ms ?c) cl"
    by (rule stays_ok_trans [OF timers_tick_ok [OF stays_ok_ok [OF s]] s])
  show ?thesis unfolding ClientImpl_tick_def by (rule stays_ok_trans [OF doApiExit_ok [OF stays_ok_ok [OF t]] t])
qed

end
