(* ===== verification/Client_Prepare.thy ===== *)
theory Client_Prepare
  imports Client_Dispatch
begin

text \<open>
  The application starts an activity by preparing its operation: \<^verbatim>\<open>initInternal\<close>, the
  \<^verbatim>\<open>Prepare\<close> functions and \<^verbatim>\<open>allowNextPrepare\<close> of \<^verbatim>\<open>client/lib/src/ClientImpl.cpp\<close>. A prepared
  operation locks the preparation of others until it is sent or cancelled. The lemmas say
  that a preparation either returns the first error of its guards and changes nothing, or
  registers one new operation, and that it keeps the invariant.
\<close>

section \<open>Guards\<close>

text \<open>The chain of tests in a \<^verbatim>\<open>do ... while (false)\<close>: the error of the first test that holds.\<close>

fun first_error :: "(bool \<times> error_code) list \<Rightarrow> error_code option" where
  "first_error [] = None"
| "first_error ((bad, ec) # guards) = (if bad then Some ec else first_error guards)"

lemma first_error_None: "first_error guards = None \<longleftrightarrow> (\<forall>g\<in>set guards. \<not> fst g)"
  by (induction guards rule: first_error.induct) auto

lemma first_error_split:
  "first_error (gs @ (bad, ec) # hs) = Some e \<Longrightarrow> \<forall>g\<in>set gs. \<not> fst g \<Longrightarrow> bad \<Longrightarrow> e = ec"
  by (induction gs rule: first_error.induct) auto

text \<open>The tests that most of the functions share, in the order of the code.\<close>

definition ops_full :: "build \<Rightarrow> client \<Rightarrow> bool" where
  "ops_full b cl \<longleftrightarrow> obj_list_full (OpsLimit (b_config b)) True (m_ops cl)"

definition not_connected :: "client \<Rightarrow> bool" where
  "not_connected cl \<longleftrightarrow> \<not> m_connected (m_sessionState cl)"

section \<open>Initialisation\<close>

definition allowNextPrepare :: "client \<Rightarrow> client" where
  "allowNextPrepare cl = cl\<lparr>m_preparationLocked := False\<rparr>"

definition initInternal :: "build \<Rightarrow> 32 word \<Rightarrow> client \<Rightarrow> error_code \<times> client" where
  "initInternal b elapsed cl =
     (let cl1 = doApiEnter b elapsed cl;
          hasTimerCallbacks = (m_nextTickProgramCb cl1 \<or> m_cancelNextTickWaitCb cl1);
          hasAllTimerCallbacks = (m_nextTickProgramCb cl1 \<and> m_cancelNextTickWaitCb cl1) in
      if \<not> m_sendOutputDataCb cl1 \<or> \<not> m_brokerDisconnectReportCb cl1 \<or> \<not> m_messageReceivedReportCb cl1
      then (EC_NotIntitialized, doApiExit cl1)
      else if hasTimerCallbacks \<and> \<not> hasAllTimerCallbacks then (EC_NotIntitialized, doApiExit cl1)
      else
        let cl2 = terminateOps b St_Aborted KeepSendRecvOps cl1;
            cl3 = on_session_state (\<lambda>_. SessionState_init) cl2;
            cl4 = on_client_state (\<lambda>s. s\<lparr>m_initialized := True\<rparr>) cl3
        in (EC_Success, doApiExit cl4))"

section \<open>Preparing operations\<close>

text \<open>The lock, and the entry into \<^verbatim>\<open>m_ops\<close> and into the list that owns the object.\<close>

definition prepared :: "op_type \<Rightarrow> (client \<Rightarrow> client) \<Rightarrow> client \<Rightarrow> client" where
  "prepared t own cl = register_op t (own (cl\<lparr>m_preparationLocked := True\<rparr>))"

definition connect_guards :: "build \<Rightarrow> client \<Rightarrow> (bool \<times> error_code) list" where
  "connect_guards b cl =
     [(m_connectOps cl \<noteq> [], EC_Busy),
      (m_disconnecting (m_sessionState cl), EC_Disconnecting),
      (m_connected (m_sessionState cl), EC_AlreadyConnected),
      (ops_full b cl, EC_RetryLater),
      (m_preparationLocked cl, EC_PreparationLocked),
      (alloc_fails (ConnectOpsLimit (b_config b)) (m_connectOps cl), EC_OutOfMemory)]"

definition connect_init :: "build \<Rightarrow> 32 word \<Rightarrow> client \<Rightarrow> error_code \<times> client" where
  "connect_init b elapsed cl =
     (let cl1 = on_client_state (\<lambda>s. s\<lparr>m_networkDisconnected := False\<rparr>) cl in
      if m_initialized (m_clientState cl1) then (EC_Success, cl1)
      else if 0 < m_apiEnterCount cl1 then (EC_RetryLater, cl1)
      else initInternal b elapsed cl1)"

definition connectPrepare :: "build \<Rightarrow> 32 word \<Rightarrow> client \<Rightarrow> (error_code + op_id) \<times> client" where
  "connectPrepare b elapsed cl =
     (let (initEc, cl1) = connect_init b elapsed cl in
      if initEc \<noteq> EC_Success then (Inl initEc, cl1)
      else
        case first_error (connect_guards b cl1) of
          Some ec \<Rightarrow> (Inl ec, cl1)
        | None \<Rightarrow>
            let (op, cl2) = ConnectOp_construct b cl1
            in (Inr (hs_id op),
                prepared Type_Connect (\<lambda>c. c\<lparr>m_connectOps := m_connectOps c @ [op]\<rparr>) cl2))"

definition DisconnectOp_construct :: "client \<Rightarrow> disconnect_op \<times> client" where
  "DisconnectOp_construct cl =
     (\<lparr>do_id = cl_nextId cl, do_reasonCode = RC_Success, do_propsExist = False, do_props = []\<rparr>, cl)"

definition disconnect_guards :: "build \<Rightarrow> client \<Rightarrow> (bool \<times> error_code) list" where
  "disconnect_guards b cl =
     [(not_connected cl, EC_NotConnected),
      (m_disconnectOps cl \<noteq> [], EC_Busy),
      (m_disconnecting (m_sessionState cl), EC_Disconnecting),
      (m_networkDisconnected (m_clientState cl), EC_NetworkDisconnected),
      (ops_full b cl, EC_RetryLater),
      (m_preparationLocked cl, EC_PreparationLocked),
      (alloc_fails (DisconnectOpsLimit (b_config b)) (m_disconnectOps cl), EC_OutOfMemory)]"

definition disconnectPrepare :: "build \<Rightarrow> client \<Rightarrow> (error_code + op_id) \<times> client" where
  "disconnectPrepare b cl =
     (case first_error (disconnect_guards b cl) of
        Some ec \<Rightarrow> (Inl ec, cl)
      | None \<Rightarrow>
          let (op, cl1) = DisconnectOp_construct cl
          in (Inr (do_id op),
              prepared Type_Disconnect (\<lambda>c. c\<lparr>m_disconnectOps := m_disconnectOps c @ [op]\<rparr>) cl1))"

definition subscribe_guards :: "build \<Rightarrow> client \<Rightarrow> (bool \<times> error_code) list" where
  "subscribe_guards b cl =
     [(not_connected cl, EC_NotConnected),
      (m_disconnecting (m_sessionState cl), EC_Disconnecting),
      (m_networkDisconnected (m_clientState cl), EC_NetworkDisconnected),
      (ops_full b cl, EC_RetryLater),
      (m_preparationLocked cl, EC_PreparationLocked),
      (alloc_fails (SubscribeOpsLimit (b_config b)) (m_subscribeOps cl), EC_OutOfMemory)]"

definition subscribePrepare :: "build \<Rightarrow> client \<Rightarrow> (error_code + op_id) \<times> client" where
  "subscribePrepare b cl =
     (case first_error (subscribe_guards b cl) of
        Some ec \<Rightarrow> (Inl ec, cl)
      | None \<Rightarrow>
          let (op, cl1) = SubscribeOp_construct b cl
          in (Inr (sub_id op),
              prepared Type_Subscribe (\<lambda>c. c\<lparr>m_subscribeOps := m_subscribeOps c @ [op]\<rparr>) cl1))"

definition unsubscribe_guards :: "build \<Rightarrow> client \<Rightarrow> (bool \<times> error_code) list" where
  "unsubscribe_guards b cl =
     [(not_connected cl, EC_NotConnected),
      (m_disconnecting (m_sessionState cl), EC_Disconnecting),
      (m_networkDisconnected (m_clientState cl), EC_NetworkDisconnected),
      (ops_full b cl, EC_RetryLater),
      (m_preparationLocked cl, EC_PreparationLocked),
      (alloc_fails (UnsubscribeOpsLimit (b_config b)) (m_unsubscribeOps cl), EC_OutOfMemory)]"

definition unsubscribePrepare :: "build \<Rightarrow> client \<Rightarrow> (error_code + op_id) \<times> client" where
  "unsubscribePrepare b cl =
     (case first_error (unsubscribe_guards b cl) of
        Some ec \<Rightarrow> (Inl ec, cl)
      | None \<Rightarrow>
          let (op, cl1) = UnsubscribeOp_construct b cl
          in (Inr (uns_id op),
              prepared Type_Unsubscribe (\<lambda>c. c\<lparr>m_unsubscribeOps := m_unsubscribeOps c @ [op]\<rparr>) cl1))"

text \<open>
  A publish is allocated before the lock is tested: on that error the new object is
  destroyed again.
\<close>

definition publish_guards :: "build \<Rightarrow> client \<Rightarrow> (bool \<times> error_code) list" where
  "publish_guards b cl =
     [(not_connected cl, EC_NotConnected),
      (m_disconnecting (m_sessionState cl), EC_Disconnecting),
      (m_networkDisconnected (m_clientState cl), EC_NetworkDisconnected),
      (ops_full b cl, EC_RetryLater),
      (alloc_fails (SendOpsLimit (b_config b)) (m_sendOps cl), EC_OutOfMemory)]"

definition publishPrepare :: "build \<Rightarrow> client \<Rightarrow> (error_code + op_id) \<times> client" where
  "publishPrepare b cl =
     (case first_error (publish_guards b cl) of
        Some ec \<Rightarrow> (Inl ec, cl)
      | None \<Rightarrow>
          let (op, cl1) = SendOp_construct b cl in
          if m_preparationLocked cl1 then (Inl EC_PreparationLocked, destroy_SendOp op cl1)
          else (Inr (so_id op),
                prepared Type_Send (\<lambda>c. c\<lparr>m_sendOps := m_sendOps c @ [op]\<rparr>) cl1))"

definition reauth_guards :: "build \<Rightarrow> client \<Rightarrow> (bool \<times> error_code) list" where
  "reauth_guards b cl =
     [(m_reauthOps cl \<noteq> [], EC_Busy),
      (not_connected cl, EC_NotConnected),
      (m_disconnecting (m_sessionState cl), EC_Disconnecting),
      (m_networkDisconnected (m_clientState cl), EC_NetworkDisconnected),
      (m_authMethod (m_sessionState cl) = [], EC_NotAuthenticated),
      (ops_full b cl, EC_RetryLater),
      (m_preparationLocked cl, EC_PreparationLocked),
      (alloc_fails (ReauthOpsLimit (b_config b)) (m_reauthOps cl), EC_OutOfMemory)]"

definition reauthPrepare :: "build \<Rightarrow> client \<Rightarrow> (error_code + op_id) \<times> client" where
  "reauthPrepare b cl =
     (case first_error (reauth_guards b cl) of
        Some ec \<Rightarrow> (Inl ec, cl)
      | None \<Rightarrow>
          let (op, cl1) = ReauthOp_construct b cl
          in (Inr (hs_id op),
              prepared Type_Reauth (\<lambda>c. c\<lparr>m_reauthOps := m_reauthOps c @ [op]\<rparr>) cl1))"

section \<open>Preparing keeps the invariant\<close>

text \<open>A constructor takes a timer and the address of its object, nothing else.\<close>

lemma alloc_timer_pair: "\<exists>idx tm. alloc_timer b cl = (idx, cl\<lparr>m_timerMgr := tm\<rparr>)"
  using alloc_timer_frame [of b cl] by (metis prod.exhaust_sel)

lemma construct_frames:
  shows "\<exists>op tm. ConnectOp_construct b cl = (op, cl\<lparr>m_timerMgr := tm\<rparr>) \<and> hs_id op = cl_nextId cl"
    and "\<exists>op' tm. SubscribeOp_construct b cl = (op', cl\<lparr>m_timerMgr := tm\<rparr>) \<and> sub_id op' = cl_nextId cl"
    and "\<exists>op' tm. UnsubscribeOp_construct b cl = (op', cl\<lparr>m_timerMgr := tm\<rparr>) \<and> uns_id op' = cl_nextId cl"
    and "\<exists>op' tm. ReauthOp_construct b cl = (op', cl\<lparr>m_timerMgr := tm\<rparr>) \<and> hs_id op' = cl_nextId cl"
    and "\<exists>op' tm. SendOp_construct b cl = (op', cl\<lparr>m_timerMgr := tm\<rparr>) \<and> so_id op' = cl_nextId cl \<and>
           \<not> so_published op' \<and> \<not> so_paused op'"
  using alloc_timer_pair [of b cl]
  by (auto simp: ConnectOp_construct_def SubscribeOp_construct_def UnsubscribeOp_construct_def
      ReauthOp_construct_def SendOp_construct_def)

lemma same_core_locked [simp]: "same_core (cl\<lparr>m_preparationLocked := p\<rparr>) cl"
  by (simp add: same_core_def live_ids_def split: op_type.split)

lemma prepared_ok:
  assumes ok: "client_ok cl"
    and own: "live_ids t (own c) = live_ids t cl @ [cl_nextId cl]"
      "\<And>t'. t' \<noteq> t \<Longrightarrow> live_ids t' (own c) = live_ids t' cl"
      "m_ops (own c) = m_ops cl" "cl_nextId (own c) = cl_nextId cl" "cl_fault (own c) = cl_fault cl"
      "sends_ok (own c)"
    and c: "c = cl'\<lparr>m_preparationLocked := True\<rparr>"
  shows "keeps_ok F (prepared t own cl') cl"
proof -
  have "client_ok (register_op t (own c))" by (rule register_ok [OF ok own(1-4,6)])
  moreover have "cl_fault (register_op t (own c)) = cl_fault cl" using own(5) by (simp add: register_op_def)
  ultimately show ?thesis by (simp add: prepared_def c keeps_ok_def)
qed

lemma sends_ok_cong:
  "m_clientState a = m_clientState b \<Longrightarrow> m_sendOps a = m_sendOps b \<Longrightarrow> client_ok b \<Longrightarrow> sends_ok a"
  by (simp add: client_ok_def sends_ok_def)

text \<open>The five lists whose objects the publishes do not count.\<close>

lemma prepared_lists_ok:
  assumes ok: "client_ok cl"
  shows "hs_id c = cl_nextId cl \<Longrightarrow> keeps_ok F (prepared Type_Connect
           (\<lambda>x. x\<lparr>m_connectOps := m_connectOps x @ [c]\<rparr>) (cl\<lparr>m_timerMgr := tm\<rparr>)) cl"
    and "do_id d = cl_nextId cl \<Longrightarrow> keeps_ok F (prepared Type_Disconnect
           (\<lambda>x. x\<lparr>m_disconnectOps := m_disconnectOps x @ [d]\<rparr>) cl) cl"
    and "sub_id s = cl_nextId cl \<Longrightarrow> keeps_ok F (prepared Type_Subscribe
           (\<lambda>x. x\<lparr>m_subscribeOps := m_subscribeOps x @ [s]\<rparr>) (cl\<lparr>m_timerMgr := tm\<rparr>)) cl"
    and "uns_id u = cl_nextId cl \<Longrightarrow> keeps_ok F (prepared Type_Unsubscribe
           (\<lambda>x. x\<lparr>m_unsubscribeOps := m_unsubscribeOps x @ [u]\<rparr>) (cl\<lparr>m_timerMgr := tm\<rparr>)) cl"
    and "hs_id r = cl_nextId cl \<Longrightarrow> keeps_ok F (prepared Type_Reauth
           (\<lambda>x. x\<lparr>m_reauthOps := m_reauthOps x @ [r]\<rparr>) (cl\<lparr>m_timerMgr := tm\<rparr>)) cl"
  by (rule prepared_ok [OF ok _ _ _ _ _ _ refl];
      auto intro!: sends_ok_cong [OF _ _ ok] simp: live_ids_def split: op_type.splits)+

lemma prepared_send_ok:
  assumes ok: "client_ok cl" and op: "so_id p = cl_nextId cl" "\<not> so_published p" "\<not> so_paused p"
  shows "keeps_ok F (prepared Type_Send
           (\<lambda>x. x\<lparr>m_sendOps := m_sendOps x @ [p]\<rparr>) (cl\<lparr>m_timerMgr := tm\<rparr>)) cl"
proof -
  let ?c = "cl\<lparr>m_timerMgr := tm, m_preparationLocked := True\<rparr>"
  have "sends_ok (?c\<lparr>m_sendOps := m_sendOps ?c @ [p]\<rparr>)"
    using ok op by (simp add: client_ok_def sends_ok_def published_count_def)
  then show ?thesis
    by (intro prepared_ok [OF ok _ _ _ _ _ _ refl]) (auto simp: live_ids_def op split: op_type.splits)
qed

lemma prepares_ok:
  assumes ok: "client_ok cl"
  shows "keeps_ok F (snd (disconnectPrepare b cl)) cl"
    and "keeps_ok F (snd (subscribePrepare b cl)) cl"
    and "keeps_ok F (snd (unsubscribePrepare b cl)) cl"
    and "keeps_ok F (snd (publishPrepare b cl)) cl"
    and "keeps_ok F (snd (reauthPrepare b cl)) cl"
proof -
  note r = stays_ok_keeps [OF stays_ok_refl [OF ok]] and l = prepared_lists_ok [OF ok]
  show "keeps_ok F (snd (disconnectPrepare b cl)) cl"
    using r l(2) by (simp add: disconnectPrepare_def DisconnectOp_construct_def split: option.split)
  obtain s tm where s: "SubscribeOp_construct b cl = (s, cl\<lparr>m_timerMgr := tm\<rparr>)" "sub_id s = cl_nextId cl"
    using construct_frames(2) by blast
  show "keeps_ok F (snd (subscribePrepare b cl)) cl"
    using r l(3) [OF s(2)] by (simp add: subscribePrepare_def s split: option.split)
  obtain u tu where u: "UnsubscribeOp_construct b cl = (u, cl\<lparr>m_timerMgr := tu\<rparr>)" "uns_id u = cl_nextId cl"
    using construct_frames(3) by blast
  show "keeps_ok F (snd (unsubscribePrepare b cl)) cl"
    using r l(4) [OF u(2)] by (simp add: unsubscribePrepare_def u split: option.split)
  obtain x tx where x: "ReauthOp_construct b cl = (x, cl\<lparr>m_timerMgr := tx\<rparr>)" "hs_id x = cl_nextId cl"
    using construct_frames(4) by blast
  show "keeps_ok F (snd (reauthPrepare b cl)) cl"
    using r l(5) [OF x(2)] by (simp add: reauthPrepare_def x split: option.split)
  obtain p tp where p: "SendOp_construct b cl = (p, cl\<lparr>m_timerMgr := tp\<rparr>)" "so_id p = cl_nextId cl"
      "\<not> so_published p" "\<not> so_paused p"
    using construct_frames(5) by blast
  have "keeps_ok F (destroy_SendOp p (cl\<lparr>m_timerMgr := tp\<rparr>)) cl"
  proof -
    have "keeps_ok F (cl\<lparr>m_timerMgr := tp\<rparr>) cl"
      by (rule stays_ok_keeps [OF client_ok_cong]) (simp_all add: ok live_ids_def split: op_type.split)
    then have "keeps_ok F (release_id (pm_packetId (so_pubMsg p)) (cl\<lparr>m_timerMgr := tp\<rparr>)) cl"
      by (rule keeps_ok_effect) simp_all
    then show ?thesis unfolding destroy_SendOp_def by (rule keeps_ok_effect) simp_all
  qed
  then show "keeps_ok F (snd (publishPrepare b cl)) cl"
    using r prepared_send_ok [OF ok p(2-4)] by (simp add: publishPrepare_def p split: option.split)
qed

lemma initInternal_ok:
  assumes ok: "client_ok cl"
  shows "stays_ok {Use_After_Free} (snd (initInternal b elapsed cl)) cl"
proof -
  let ?e = "doApiEnter b elapsed cl"
  have e: "stays_ok {Use_After_Free} ?e cl" by (rule doApiEnter_ok [OF ok])
  have x: "stays_ok {Use_After_Free} (doApiExit c) cl" if "stays_ok {Use_After_Free} c cl" for c
    by (rule stays_ok_trans [OF doApiExit_ok [OF stays_ok_ok [OF that]] that])
  let ?t = "terminateOps b St_Aborted KeepSendRecvOps ?e"
  have "stays_ok {Use_After_Free} ?t cl"
    by (rule stays_ok_trans [OF stays_ok_step [OF terminateOps_ok(1) [OF stays_ok_ok [OF e]]] e])
  then have "stays_ok {Use_After_Free} (on_session_state (\<lambda>_. SessionState_init) ?t) cl"
    by (rule stays_ok_effect) simp_all
  then have "stays_ok {Use_After_Free} (on_client_state (\<lambda>s. s\<lparr>m_initialized := True\<rparr>)
      (on_session_state (\<lambda>_. SessionState_init) ?t)) cl"
    by (rule stays_ok_effect) (simp_all add: same_core_client_state)
  then show ?thesis using x e by (simp add: initInternal_def Let_def)
qed

lemma connectPrepare_ok:
  assumes ok: "client_ok cl"
  shows "keeps_ok {Use_After_Free} (snd (connectPrepare b elapsed cl)) cl"
proof -
  let ?c = "on_client_state (\<lambda>s. s\<lparr>m_networkDisconnected := False\<rparr>) cl"
  have c: "stays_ok {Use_After_Free} ?c cl"
    by (rule stays_ok_effect [OF stays_ok_refl [OF ok]]) (simp_all add: same_core_client_state)
  obtain ec c1 where i: "connect_init b elapsed cl = (ec, c1)" by (cases "connect_init b elapsed cl")
  have "stays_ok {Use_After_Free} (snd (connect_init b elapsed cl)) cl"
    using c stays_ok_trans [OF initInternal_ok [OF stays_ok_ok [OF c]] c]
    by (simp add: connect_init_def Let_def)
  then have k: "keeps_ok {Use_After_Free} c1 cl" and ok1: "client_ok c1"
    unfolding i by (auto dest: stays_ok_keeps stays_ok_ok)
  obtain op tm where o: "ConnectOp_construct b c1 = (op, c1\<lparr>m_timerMgr := tm\<rparr>)" "hs_id op = cl_nextId c1"
    using construct_frames(1) by blast
  show ?thesis
    using k keeps_ok_trans [OF prepared_lists_ok(1) [OF ok1 o(2)] k]
    by (simp add: connectPrepare_def i o split: option.split)
qed

section \<open>The preparation lock\<close>

datatype prepare_call =
    Prepare_Connect | Prepare_Disconnect | Prepare_Subscribe | Prepare_Unsubscribe
  | Prepare_Publish | Prepare_Reauth

fun prepare :: "build \<Rightarrow> 32 word \<Rightarrow> prepare_call \<Rightarrow> client \<Rightarrow> (error_code + op_id) \<times> client" where
  "prepare b elapsed Prepare_Connect cl = connectPrepare b elapsed cl"
| "prepare b elapsed Prepare_Disconnect cl = disconnectPrepare b cl"
| "prepare b elapsed Prepare_Subscribe cl = subscribePrepare b cl"
| "prepare b elapsed Prepare_Unsubscribe cl = unsubscribePrepare b cl"
| "prepare b elapsed Prepare_Publish cl = publishPrepare b cl"
| "prepare b elapsed Prepare_Reauth cl = reauthPrepare b cl"

fun prepared_type :: "prepare_call \<Rightarrow> op_type" where
  "prepared_type Prepare_Connect = Type_Connect"
| "prepared_type Prepare_Disconnect = Type_Disconnect"
| "prepared_type Prepare_Subscribe = Type_Subscribe"
| "prepared_type Prepare_Unsubscribe = Type_Unsubscribe"
| "prepared_type Prepare_Publish = Type_Send"
| "prepared_type Prepare_Reauth = Type_Reauth"

lemma prepare_ok:
  "client_ok cl \<Longrightarrow> keeps_ok {Use_After_Free} (snd (prepare b elapsed p cl)) cl"
  by (cases p) (simp_all add: prepares_ok connectPrepare_ok)

lemma connect_init_ok:
  assumes ok: "client_ok cl"
  shows "stays_ok {Use_After_Free} (snd (connect_init b elapsed cl)) cl"
proof -
  let ?c = "on_client_state (\<lambda>s. s\<lparr>m_networkDisconnected := False\<rparr>) cl"
  have c: "stays_ok {Use_After_Free} ?c cl"
    by (rule stays_ok_effect [OF stays_ok_refl [OF ok]]) (simp_all add: same_core_client_state)
  then show ?thesis
    using stays_ok_trans [OF initInternal_ok [OF stays_ok_ok [OF c]] c]
    by (simp add: connect_init_def Let_def)
qed

lemma first_error_member: "(True, ec) \<in> set guards \<Longrightarrow> \<exists>e. first_error guards = Some e"
  using first_error_None by fastforce

text \<open>While the lock is held no operation can be prepared.\<close>

lemma locked_prepare_fails:
  assumes ok: "client_ok cl" and l: "m_preparationLocked cl"
  shows "\<exists>ec. fst (prepare b elapsed p cl) = Inl ec"
proof (cases p)
  case Prepare_Connect
  have "m_preparationLocked (snd (connect_init b elapsed cl))"
    using connect_init_ok [OF ok, of b elapsed] l by (simp add: stays_ok_def)
  then have "\<exists>e. first_error (connect_guards b (snd (connect_init b elapsed cl))) = Some e"
    by (intro first_error_member [of EC_PreparationLocked]) (simp add: connect_guards_def)
  then show ?thesis using Prepare_Connect by (auto simp: connectPrepare_def split_beta)
next
  case Prepare_Publish
  obtain op tm where "SendOp_construct b cl = (op, cl\<lparr>m_timerMgr := tm\<rparr>)" using construct_frames(5) by blast
  then show ?thesis using Prepare_Publish l by (simp add: publishPrepare_def split: option.split)
next
  case Prepare_Disconnect
  have "\<exists>e. first_error (disconnect_guards b cl) = Some e"
    by (rule first_error_member [of EC_PreparationLocked]) (simp add: disconnect_guards_def l)
  then show ?thesis using Prepare_Disconnect by (auto simp: disconnectPrepare_def)
next
  case Prepare_Subscribe
  have "\<exists>e. first_error (subscribe_guards b cl) = Some e"
    by (rule first_error_member [of EC_PreparationLocked]) (simp add: subscribe_guards_def l)
  then show ?thesis using Prepare_Subscribe by (auto simp: subscribePrepare_def)
next
  case Prepare_Unsubscribe
  have "\<exists>e. first_error (unsubscribe_guards b cl) = Some e"
    by (rule first_error_member [of EC_PreparationLocked]) (simp add: unsubscribe_guards_def l)
  then show ?thesis using Prepare_Unsubscribe by (auto simp: unsubscribePrepare_def)
next
  case Prepare_Reauth
  have "\<exists>e. first_error (reauth_guards b cl) = Some e"
    by (rule first_error_member [of EC_PreparationLocked]) (simp add: reauth_guards_def l)
  then show ?thesis using Prepare_Reauth by (auto simp: reauthPrepare_def)
qed

text \<open>A preparation that succeeds registers its operation and takes the lock.\<close>

lemma prepared_registered:
  assumes "prepare b elapsed p cl = (Inr i, cl')"
  shows "m_preparationLocked cl' \<and> Some (prepared_type p, i) \<in> set (m_ops cl')"
proof (cases p)
  case Prepare_Connect
  then show ?thesis
    using assms construct_frames(1) [of b "snd (connect_init b elapsed cl)"]
    by (auto simp: connectPrepare_def split_beta prepared_def register_op_def Let_def
        split: option.splits if_splits)
next
  case Prepare_Publish
  then show ?thesis
    using assms construct_frames(5) [of b cl]
    by (auto simp: publishPrepare_def split_beta prepared_def register_op_def Let_def
        split: option.splits if_splits)
next
  case Prepare_Disconnect
  then show ?thesis
    using assms by (auto simp: disconnectPrepare_def DisconnectOp_construct_def prepared_def register_op_def
        split: option.splits)
next
  case Prepare_Subscribe
  then show ?thesis
    using assms construct_frames(2) [of b cl]
    by (auto simp: subscribePrepare_def prepared_def register_op_def split: option.splits)
next
  case Prepare_Unsubscribe
  then show ?thesis
    using assms construct_frames(3) [of b cl]
    by (auto simp: unsubscribePrepare_def prepared_def register_op_def split: option.splits)
next
  case Prepare_Reauth
  then show ?thesis
    using assms construct_frames(4) [of b cl]
    by (auto simp: reauthPrepare_def prepared_def register_op_def split: option.splits)
qed

text \<open>Its object is a new one: no registered operation had its address.\<close>

lemma prepared_new:
  assumes ok: "client_ok cl" and p: "prepare b elapsed p cl = (Inr i, cl')"
  shows "Some (t, i) \<notin> set (m_ops cl)"
proof -
  have "cl_nextId cl \<le> i"
  proof (cases p)
    case Prepare_Connect
    have "cl_nextId cl \<le> cl_nextId (snd (connect_init b elapsed cl))"
      using connect_init_ok [OF ok, of b elapsed] by (simp add: stays_ok_def grown_from_def)
    then show ?thesis
      using p Prepare_Connect construct_frames(1) [of b "snd (connect_init b elapsed cl)"]
      by (auto simp: connectPrepare_def split_beta Let_def split: option.splits if_splits)
  next
    case Prepare_Publish
    then show ?thesis
      using p construct_frames(5) [of b cl]
      by (auto simp: publishPrepare_def split_beta Let_def split: option.splits if_splits)
  next
    case Prepare_Disconnect
    then show ?thesis
      using p by (auto simp: disconnectPrepare_def DisconnectOp_construct_def split: option.splits)
  next
    case Prepare_Subscribe
    then show ?thesis using p construct_frames(2) [of b cl] by (auto simp: subscribePrepare_def split: option.splits)
  next
    case Prepare_Unsubscribe
    then show ?thesis using p construct_frames(3) [of b cl] by (auto simp: unsubscribePrepare_def split: option.splits)
  next
    case Prepare_Reauth
    then show ?thesis using p construct_frames(4) [of b cl] by (auto simp: reauthPrepare_def split: option.splits)
  qed
  then show ?thesis using ok by (force simp: client_ok_def registry_ok_def)
qed

text \<open>A preparation that fails registers nothing and leaves the lock as it was.\<close>

lemma prepare_refused:
  assumes ok: "client_ok cl" and p: "prepare b elapsed p cl = (Inl ec, cl')"
  shows "stays_ok {Use_After_Free} cl' cl"
proof (cases p)
  case Prepare_Connect
  then show ?thesis
    using p connect_init_ok [OF ok, of b elapsed]
    by (auto simp: connectPrepare_def split_beta Let_def split: option.splits if_splits)
next
  case Prepare_Publish
  obtain c tm where c: "SendOp_construct b cl = (c, cl\<lparr>m_timerMgr := tm\<rparr>)" using construct_frames(5) by blast
  have "stays_ok F (cl\<lparr>m_timerMgr := tm\<rparr>) cl" for F
    by (rule client_ok_cong) (simp_all add: ok live_ids_def split: op_type.split)
  then have r: "stays_ok F (release_id k (cl\<lparr>m_timerMgr := tm\<rparr>)) cl" for F k
    by (rule stays_ok_effect; simp) (simp add: release_id_def)
  have "stays_ok F (destroy_SendOp c (cl\<lparr>m_timerMgr := tm\<rparr>)) cl" for F
    unfolding destroy_SendOp_def by (rule stays_ok_effect [OF r [where k = "pm_packetId (so_pubMsg c)"]]) (simp_all add: destroy_timer_def)
  then show ?thesis
    using p Prepare_Publish stays_ok_refl [OF ok]
    by (auto simp: publishPrepare_def c split: option.splits if_splits)
qed (use p stays_ok_refl [OF ok] in \<open>auto simp: disconnectPrepare_def subscribePrepare_def unsubscribePrepare_def
    reauthPrepare_def split_beta split: option.splits\<close>)

section \<open>A sample client\<close>

text \<open>A build and a client for the examples: everything on the heap, and no broker yet.\<close>

definition sample_build :: build where
  "sample_build =
     \<lparr>b_config = default_config, frame_length = (\<lambda>_. 2), frame_write_ok = (\<lambda>_. True),
      default_packet_id = 0, publish_props_cap = None, disconnect_props_cap = None,
      subscribe_props_cap = None, unsubscribe_props_cap = None, subscribe_list_cap = None,
      unsubscribe_list_cap = None, suback_codes_cap = None, unsuback_codes_cap = None,
      connect_props_cap = None, will_props_cap = None, auth_props_cap = None,
      max_prefix_length = 5,
      auth_cb = (\<lambda>_. (AuthErrorCode_Continue, \<lparr>ar_authData = None, ar_authDataLen = 0, ar_reasonStr = None,
                    ar_userProps = None, ar_userPropsCount = 0\<rparr>))\<rparr>"

definition connected_client :: "build \<Rightarrow> client" where
  "connected_client b =
     on_session_state (\<lambda>s. s\<lparr>m_connected := True\<rparr>)
       (on_client_state (\<lambda>s. s\<lparr>m_initialized := True, m_firstConnect := False\<rparr>)
         (with_callbacks False (ClientImpl_init b)))"

lemma connected_client_ok: "client_ok (connected_client b)"
proof -
  have "same_core (with_callbacks False (ClientImpl_init b)) (ClientImpl_init b)"
    by (simp add: same_core_def with_callbacks_def live_ids_def split: op_type.split)
  moreover have "same_core (connected_client b) (with_callbacks False (ClientImpl_init b))"
    by (simp add: connected_client_def same_core_def on_session_state_def on_client_state_def live_ids_def
        packet_ids_ok_def split: op_type.split)
  ultimately show ?thesis using same_core_trans same_core_ok client_ok_init by blast
qed

lemmas sample_defs =
  sample_build_def connected_client_def with_callbacks_def ClientImpl_init_def SessionState_init_def
  ClientState_init_def on_session_state_def on_client_state_def default_config_def ops_full_def
  not_connected_def obj_list_full_def ext_config_defs alloc_fails_def TimerMgr_init_def

lemma sample_subscribe_prepared:
  "fst (subscribePrepare sample_build (connected_client sample_build)) = Inr 0"
  by (simp add: subscribePrepare_def subscribe_guards_def SubscribeOp_construct_def split_beta Let_def sample_defs
      prepared_def register_op_def)

end
