(* ===== verification/Client_Send.thy ===== *)
theory Client_Send
  imports Client_Prepare
begin

text \<open>
  What the application does with a prepared operation: \<^verbatim>\<open>send\<close> and \<^verbatim>\<open>cancel\<close> of
  \<^verbatim>\<open>SubscribeOp\<close>, \<^verbatim>\<open>UnsubscribeOp\<close>, \<^verbatim>\<open>ConnectOp\<close>, \<^verbatim>\<open>ReauthOp\<close>, \<^verbatim>\<open>SendOp\<close> and \<^verbatim>\<open>DisconnectOp\<close>
  (\<^verbatim>\<open>client/lib/src/op\<close>), and the configuration of \<^verbatim>\<open>DisconnectOp\<close>.
  A \<^verbatim>\<open>send\<close> that fails completes its operation on the way out; one that succeeds enters the
  API, which lets the time pass, and starts the response timer. The operation is named by its
  handle; a handle of a destroyed operation is the fault \<^term>\<open>Use_After_Free\<close>.
\<close>

section \<open>Packet identifiers\<close>

text \<open>\<^verbatim>\<open>Op::allocPacketId\<close> on the client; not returning is the fault \<^term>\<open>No_Return\<close>.\<close>

definition alloc_packet_id :: "build \<Rightarrow> client \<Rightarrow> 16 word \<times> client" where
  "alloc_packet_id b cl =
     (case allocPacketId (b_config b) (m_clientState cl) of
        None \<Rightarrow> (0, fault No_Return cl)
      | Some (packetId, state) \<Rightarrow> (packetId, cl\<lparr>m_clientState := state\<rparr>))"

section \<open>SubscribeOp and UnsubscribeOp\<close>

definition subscribe_op_at :: "op_id \<Rightarrow> client \<Rightarrow> subscribe_op option" where
  "subscribe_op_at i cl = op_at sub_id i (m_subscribeOps cl)"

definition upd_subscribe :: "op_id \<Rightarrow> (subscribe_op \<Rightarrow> subscribe_op) \<Rightarrow> client \<Rightarrow> client" where
  "upd_subscribe i f cl = cl\<lparr>m_subscribeOps := upd_op sub_id i f (m_subscribeOps cl)\<rparr>"

definition SubscribeOp_restartTimer :: "op_id \<Rightarrow> client \<Rightarrow> client" where
  "SubscribeOp_restartTimer i cl =
     (case subscribe_op_at i cl of
        None \<Rightarrow> fault Use_After_Free cl
      | Some op \<Rightarrow>
          on_timers (timerWait (sub_timer op) (of_nat (sub_responseTimeoutMs op)) (Cb_OpTimeout Type_Subscribe i)) cl)"

definition SubscribeOp_addUserProp ::
  "build \<Rightarrow> cstr option \<Rightarrow> cstr option \<Rightarrow> subscribe_op \<Rightarrow> error_code \<times> subscribe_op" where
  "SubscribeOp_addUserProp b key val op =
     (let (ec, ps) = addUserPropToList (b_config b) (subscribe_props_cap b) key val (sm_props (sub_msg op))
      in (ec, op\<lparr>sub_msg := (sub_msg op)\<lparr>sm_props := ps\<rparr>\<rparr>))"

definition SubscribeOp_send ::
  "build \<Rightarrow> 32 word \<Rightarrow> bool \<Rightarrow> op_id \<Rightarrow> client \<Rightarrow> error_code \<times> client" where
  "SubscribeOp_send b elapsed cb i cl =
     (case subscribe_op_at i cl of
        None \<Rightarrow> (EC_InternalError, fault Use_After_Free cl)
      | Some op \<Rightarrow>
          let cl1 = allowNextPrepare cl in
          if \<not> cb then (EC_BadParam, opComplete b (Type_Subscribe, i) cl1)
          else if sm_list (sub_msg op) = [] then (EC_InsufficientConfig, opComplete b (Type_Subscribe, i) cl1)
          else if \<not> timer_isValid (sub_timer op) then (EC_InternalError, opComplete b (Type_Subscribe, i) cl1)
          else
            let (packetId, cl2) = alloc_packet_id b cl1;
                msg = (sub_msg op)\<lparr>sm_packetId := packetId\<rparr>;
                cl3 = upd_subscribe i (\<lambda>p. p\<lparr>sub_cb := True, sub_msg := msg\<rparr>) cl2;
                (result, cl4) = sendMessage b (Subscribe_Out msg) cl3
            in if result \<noteq> EC_Success then (result, opComplete b (Type_Subscribe, i) cl4)
               else (EC_Success, doApiExit (SubscribeOp_restartTimer i (doApiEnter b elapsed cl4))))"

definition SubscribeOp_cancel :: "build \<Rightarrow> op_id \<Rightarrow> client \<Rightarrow> error_code \<times> client" where
  "SubscribeOp_cancel b i cl =
     (case subscribe_op_at i cl of
        None \<Rightarrow> (EC_InternalError, fault Use_After_Free cl)
      | Some op \<Rightarrow>
          (EC_Success, opComplete b (Type_Subscribe, i) (if \<not> sub_cb op then allowNextPrepare cl else cl)))"

definition unsubscribe_op_at :: "op_id \<Rightarrow> client \<Rightarrow> unsubscribe_op option" where
  "unsubscribe_op_at i cl = op_at uns_id i (m_unsubscribeOps cl)"

definition upd_unsubscribe :: "op_id \<Rightarrow> (unsubscribe_op \<Rightarrow> unsubscribe_op) \<Rightarrow> client \<Rightarrow> client" where
  "upd_unsubscribe i f cl = cl\<lparr>m_unsubscribeOps := upd_op uns_id i f (m_unsubscribeOps cl)\<rparr>"

definition UnsubscribeOp_restartTimer :: "op_id \<Rightarrow> client \<Rightarrow> client" where
  "UnsubscribeOp_restartTimer i cl =
     (case unsubscribe_op_at i cl of
        None \<Rightarrow> fault Use_After_Free cl
      | Some op \<Rightarrow>
          on_timers (timerWait (uns_timer op) (of_nat (uns_responseTimeoutMs op)) (Cb_OpTimeout Type_Unsubscribe i)) cl)"

definition UnsubscribeOp_addUserProp ::
  "build \<Rightarrow> cstr option \<Rightarrow> cstr option \<Rightarrow> unsubscribe_op \<Rightarrow> error_code \<times> unsubscribe_op" where
  "UnsubscribeOp_addUserProp b key val op =
     (let (ec, ps) = addUserPropToList (b_config b) (unsubscribe_props_cap b) key val (um_props (uns_msg op))
      in (ec, op\<lparr>uns_msg := (uns_msg op)\<lparr>um_props := ps\<rparr>\<rparr>))"

definition UnsubscribeOp_send ::
  "build \<Rightarrow> 32 word \<Rightarrow> bool \<Rightarrow> op_id \<Rightarrow> client \<Rightarrow> error_code \<times> client" where
  "UnsubscribeOp_send b elapsed cb i cl =
     (case unsubscribe_op_at i cl of
        None \<Rightarrow> (EC_InternalError, fault Use_After_Free cl)
      | Some op \<Rightarrow>
          let cl1 = allowNextPrepare cl in
          if \<not> cb then (EC_BadParam, opComplete b (Type_Unsubscribe, i) cl1)
          else if um_list (uns_msg op) = [] then (EC_InsufficientConfig, opComplete b (Type_Unsubscribe, i) cl1)
          else if \<not> timer_isValid (uns_timer op) then (EC_InternalError, opComplete b (Type_Unsubscribe, i) cl1)
          else
            let (packetId, cl2) = alloc_packet_id b cl1;
                msg = (uns_msg op)\<lparr>um_packetId := packetId\<rparr>;
                cl3 = upd_unsubscribe i (\<lambda>p. p\<lparr>uns_cb := True, uns_msg := msg\<rparr>) cl2;
                (result, cl4) = sendMessage b (Unsubscribe_Out msg) cl3
            in if result \<noteq> EC_Success then (result, opComplete b (Type_Unsubscribe, i) cl4)
               else (EC_Success, doApiExit (UnsubscribeOp_restartTimer i (doApiEnter b elapsed cl4))))"

definition UnsubscribeOp_cancel :: "build \<Rightarrow> op_id \<Rightarrow> client \<Rightarrow> error_code \<times> client" where
  "UnsubscribeOp_cancel b i cl =
     (case unsubscribe_op_at i cl of
        None \<Rightarrow> (EC_InternalError, fault Use_After_Free cl)
      | Some op \<Rightarrow>
          (EC_Success, opComplete b (Type_Unsubscribe, i) (if \<not> uns_cb op then allowNextPrepare cl else cl)))"

section \<open>ConnectOp and ReauthOp\<close>

definition ConnectOp_send ::
  "build \<Rightarrow> 32 word \<Rightarrow> bool \<Rightarrow> op_id \<Rightarrow> client \<Rightarrow> error_code \<times> client" where
  "ConnectOp_send b elapsed cb i cl =
     (case connect_op_at i cl of
        None \<Rightarrow> (EC_InternalError, fault Use_After_Free cl)
      | Some op \<Rightarrow>
          let cl1 = allowNextPrepare cl in
          if \<not> cb then (EC_BadParam, opComplete b (Type_Connect, i) cl1)
          else if \<not> timer_isValid (hs_timer op) then (EC_InternalError, opComplete b (Type_Connect, i) cl1)
          else if \<not> cm_cleanStart (co_msg op) \<and> m_firstConnect (m_clientState cl1) \<and> m_verifySubFilter (m_configState cl1)
          then (EC_InsufficientConfig, opComplete b (Type_Connect, i) cl1)
          else
            let cl2 = upd_connect i (\<lambda>p. p\<lparr>hs_cb := True\<rparr>) cl1;
                (result, cl3) = sendMessage b (Connect_Out (co_msg op)) cl2
            in if result \<noteq> EC_Success then (result, opComplete b (Type_Connect, i) cl3)
               else (EC_Success, doApiExit (ConnectOp_restartTimer i (doApiEnter b elapsed cl3))))"

definition ConnectOp_cancel :: "build \<Rightarrow> op_id \<Rightarrow> client \<Rightarrow> error_code \<times> client" where
  "ConnectOp_cancel b i cl =
     (case connect_op_at i cl of
        None \<Rightarrow> (EC_InternalError, fault Use_After_Free cl)
      | Some op \<Rightarrow>
          (EC_Success, opComplete b (Type_Connect, i) (if \<not> hs_cb op then allowNextPrepare cl else cl)))"

text \<open>
  The reason code of the AUTH message is its default, Success, when the operation was not configured.
\<close>

definition ReauthOp_send ::
  "build \<Rightarrow> 32 word \<Rightarrow> bool \<Rightarrow> op_id \<Rightarrow> client \<Rightarrow> error_code \<times> client" where
  "ReauthOp_send b elapsed cb i cl =
     (case reauth_op_at i cl of
        None \<Rightarrow> (EC_InternalError, fault Use_After_Free cl)
      | Some op \<Rightarrow>
          let cl1 = allowNextPrepare cl in
          if \<not> cb then (EC_BadParam, opComplete b (Type_Reauth, i) cl1)
          else if \<not> timer_isValid (hs_timer op) then (EC_InternalError, opComplete b (Type_Reauth, i) cl1)
          else if \<not> hs_authCb op then (EC_InsufficientConfig, opComplete b (Type_Reauth, i) cl1)
          else
            let cl2 = upd_reauth i (\<lambda>p. p\<lparr>hs_cb := True\<rparr>) cl1;
                reason = (case re_reasonCode op of None \<Rightarrow> RC_Success | Some r \<Rightarrow> r);
                (result, cl3) = sendMessage b (Auth_Out reason (re_props op)) cl2
            in if result \<noteq> EC_Success then (result, opComplete b (Type_Reauth, i) cl3)
               else (EC_Success, doApiExit (ReauthOp_restartTimer i (doApiEnter b elapsed cl3))))"

definition ReauthOp_cancel :: "build \<Rightarrow> op_id \<Rightarrow> client \<Rightarrow> error_code \<times> client" where
  "ReauthOp_cancel b i cl =
     (case reauth_op_at i cl of
        None \<Rightarrow> (EC_InternalError, fault Use_After_Free cl)
      | Some op \<Rightarrow>
          (EC_Success, opComplete b (Type_Reauth, i) (if \<not> hs_cb op then allowNextPrepare cl else cl)))"

section \<open>SendOp\<close>

text \<open>
  \<^verbatim>\<open>SendOp::send\<close>: the publish goes out, or is paused when the limit of the broker or the
  configured order does not let it. \<^verbatim>\<open>doRefresh()\<close> makes the packet identifier exist exactly for
  QoS above 0.
\<close>

definition SendOp_send ::
  "build \<Rightarrow> 32 word \<Rightarrow> bool \<Rightarrow> op_id \<Rightarrow> client \<Rightarrow> error_code \<times> client" where
  "SendOp_send b elapsed cb i cl =
     (case send_op_at i cl of
        None \<Rightarrow> (EC_InternalError, fault Use_After_Free cl)
      | Some op \<Rightarrow>
          let cl1 = allowNextPrepare cl in
          if \<not> timer_isValid (so_responseTimer op)
          then (EC_InternalError, SendOp_opCompleteInternal (resumeSends b) i cl1)
          else if \<not> so_topicConfigured op
          then (EC_InsufficientConfig, SendOp_opCompleteInternal (resumeSends b) i cl1)
          else
            let needsId = AtMostOnce < pm_qos (so_pubMsg op);
                (packetId, cl2) = (if needsId then alloc_packet_id b cl1 else (pm_packetId (so_pubMsg op), cl1));
                fill = (\<lambda>p. p\<lparr>so_cb := cb,
                               so_pubMsg := (so_pubMsg p)\<lparr>pm_packetId := packetId, pm_packetIdExists := needsId\<rparr>\<rparr>);
                cl3 = upd_send i fill cl2
            in if \<not> canSend (fill op) cl3 then (EC_Success, upd_send i (\<lambda>p. p\<lparr>so_paused := True\<rparr>) cl3)
               else
                 let (sendResult, cl4) = doSendInternal (resumeSends b) b i (doApiEnter b elapsed cl3);
                     cl5 = doApiExit cl4
                 in if sendResult \<noteq> EC_Success
                    then (sendResult, SendOp_opCompleteInternal (resumeSends b) i cl5)
                    else (EC_Success, cl5))"

definition SendOp_cancel :: "build \<Rightarrow> op_id \<Rightarrow> client \<Rightarrow> error_code \<times> client" where
  "SendOp_cancel b i cl =
     (case send_op_at i cl of
        None \<Rightarrow> (EC_InternalError, fault Use_After_Free cl)
      | Some op \<Rightarrow>
          (EC_Success, SendOp_opCompleteInternal (resumeSends b) i
             (if \<not> so_cb op then allowNextPrepare cl else cl)))"

section \<open>DisconnectOp\<close>

text \<open>\<^verbatim>\<open>CC_Mqtt5DisconnectConfig\<close>; null pointers are \<^term>\<open>None\<close>.\<close>

record disconnect_config =
  dc_reasonCode :: reason_code
  dc_reasonStr :: "cstr option"
  dc_sessionExpiryInterval :: "nat option"

definition DisconnectOp_configBasic ::
  "build \<Rightarrow> session_state \<Rightarrow> disconnect_config \<Rightarrow> disconnect_op \<Rightarrow> error_code \<times> disconnect_op" where
  "DisconnectOp_configBasic b ss cfg op =
     (let cap = disconnect_props_cap b;
          expiry = (case dc_sessionExpiryInterval cfg of None \<Rightarrow> 0 | Some n \<Rightarrow> n);
          str = (case dc_reasonStr cfg of None \<Rightarrow> [] | Some s \<Rightarrow> s);
          r1 = fail_step (0 < expiry \<and> m_connectSessionExpiryInterval ss = 0) (EC_Success, do_props op);
          r2 = add_prop_step cap (dc_sessionExpiryInterval cfg \<noteq> None) False (SessionExpiryInterval expiry) r1;
          (ec, ps) = add_prop_step cap (dc_reasonStr cfg \<noteq> None) (maxStringLen < length str) (ReasonStr str) r2
      in (ec, op\<lparr>do_reasonCode := dc_reasonCode cfg, do_props := ps\<rparr>))"

definition DisconnectOp_addUserProp ::
  "build \<Rightarrow> cstr option \<Rightarrow> cstr option \<Rightarrow> disconnect_op \<Rightarrow> error_code \<times> disconnect_op" where
  "DisconnectOp_addUserProp b key val op =
     (let (ec, ps) = addUserPropToList (b_config b) (disconnect_props_cap b) key val (do_props op)
      in (ec, op\<lparr>do_propsExist := True, do_props := ps\<rparr>))"

definition disconnect_op_at :: "op_id \<Rightarrow> client \<Rightarrow> disconnect_op option" where
  "disconnect_op_at i cl = op_at do_id i (m_disconnectOps cl)"

definition upd_disconnect :: "op_id \<Rightarrow> (disconnect_op \<Rightarrow> disconnect_op) \<Rightarrow> client \<Rightarrow> client" where
  "upd_disconnect i f cl = cl\<lparr>m_disconnectOps := upd_op do_id i f (m_disconnectOps cl)\<rparr>"

text \<open>The message as it is sent: which of its optional fields exist.\<close>

definition disconnect_out :: "disconnect_op \<Rightarrow> out_msg" where
  "disconnect_out op =
     (let given = (do_reasonCode op \<noteq> RC_Success \<or> do_props op \<noteq> []) in
      Disconnect_Out (if given then Some (do_reasonCode op) else None)
        (if given \<or> do_propsExist op then Some (do_props op) else None))"

text \<open>
  After the API is entered the operation may be gone: sending and completing it is then a use
  of a destroyed object, and the connection is given up all the same.
\<close>

definition DisconnectOp_send :: "build \<Rightarrow> 32 word \<Rightarrow> op_id \<Rightarrow> client \<Rightarrow> error_code \<times> client" where
  "DisconnectOp_send b elapsed i cl =
     (case disconnect_op_at i cl of
        None \<Rightarrow> (EC_InternalError, fault Use_After_Free cl)
      | Some op \<Rightarrow>
          let cl1 = doApiEnter b elapsed (allowNextPrepare cl);
              cl2 = (case disconnect_op_at i cl1 of
                       None \<Rightarrow> fault Use_After_Free cl1
                     | Some _ \<Rightarrow> opComplete b (Type_Disconnect, i) (snd (sendMessage b (disconnect_out op) cl1)))
          in (EC_Success,
              doApiExit (brokerDisconnected b BDR_ValuesLimit St_BrokerDisconnected None cl2)))"

definition DisconnectOp_cancel :: "build \<Rightarrow> op_id \<Rightarrow> client \<Rightarrow> error_code \<times> client" where
  "DisconnectOp_cancel b i cl =
     (case disconnect_op_at i cl of
        None \<Rightarrow> (EC_InternalError, fault Use_After_Free cl)
      | Some op \<Rightarrow> (EC_Success, opComplete b (Type_Disconnect, i) (allowNextPrepare cl)))"

section \<open>The invariant\<close>

lemma keeps_ok_refl: "client_ok cl \<Longrightarrow> keeps_ok F cl cl"
  by (simp add: keeps_ok_def)

lemma keeps_ok_if: "keeps_ok F a c \<Longrightarrow> keeps_ok F b c \<Longrightarrow> keeps_ok F (if p then a else b) c"
  by simp

lemma keeps_ok_fault: "client_ok cl \<Longrightarrow> f \<in> F \<Longrightarrow> keeps_ok F (fault f cl) cl"
  by (rule stays_ok_keeps [OF stays_ok_fault])

text \<open>A step from a state that is already kept.\<close>

lemma keeps_then_step: "keeps_ok F c cl \<Longrightarrow> (client_ok c \<Longrightarrow> step_ok c' c) \<Longrightarrow> keeps_ok F c' cl"
  using keeps_ok_ok keeps_ok_trans stays_ok_keeps stays_ok_step by blast

lemma keeps_then_stays: "keeps_ok F c cl \<Longrightarrow> (client_ok c \<Longrightarrow> stays_ok F c' c) \<Longrightarrow> keeps_ok F c' cl"
  using keeps_ok_ok keeps_ok_trans stays_ok_keeps by blast

lemma allowNextPrepare_ok: "client_ok cl \<Longrightarrow> keeps_ok F (allowNextPrepare cl) cl"
  unfolding allowNextPrepare_def by (rule keeps_ok_effect [OF keeps_ok_refl]) simp_all

lemma allowNext_lists [simp]:
  "subscribe_op_at i (allowNextPrepare cl) = subscribe_op_at i cl"
  "unsubscribe_op_at i (allowNextPrepare cl) = unsubscribe_op_at i cl"
  "connect_op_at i (allowNextPrepare cl) = connect_op_at i cl"
  "reauth_op_at i (allowNextPrepare cl) = reauth_op_at i cl"
  "send_op_at i (allowNextPrepare cl) = send_op_at i cl"
  "disconnect_op_at i (allowNextPrepare cl) = disconnect_op_at i cl"
  "m_ops (allowNextPrepare cl) = m_ops cl"
  by (simp_all add: allowNextPrepare_def subscribe_op_at_def unsubscribe_op_at_def connect_op_at_def
      reauth_op_at_def send_op_at_def disconnect_op_at_def)

text \<open>The search for a packet identifier returns, so it never faults.\<close>

lemma alloc_packet_id_ok:
  assumes ok: "client_ok cl"
  obtains packetId st where "alloc_packet_id b cl = (packetId, cl\<lparr>m_clientState := st\<rparr>)"
    and "step_ok (cl\<lparr>m_clientState := st\<rparr>) cl"
proof -
  have p: "packet_ids_ok (m_clientState cl)" using ok by (simp add: client_ok_def sends_ok_def)
  obtain r st where a: "allocPacketId (b_config b) (m_clientState cl) = Some (r, st)"
    and st: "packet_ids_ok st" "m_inFlightSends st = m_inFlightSends (m_clientState cl)"
  proof (cases "packet_ids_exhausted (b_config b) (m_allocatedPacketIds (m_clientState cl))")
    case True
    then show thesis using that [of 0 "m_clientState cl"] p by (simp add: allocPacketId_def)
  next
    case False
    obtain r st where st: "allocPacketId (b_config b) (m_clientState cl) = Some (r, st)" "packet_ids_ok st"
      by (rule allocPacketId_fresh [OF p False])
    then have "m_inFlightSends st = m_inFlightSends (m_clientState cl)"
      by (auto simp: allocPacketId_def split: if_splits option.splits)
    then show thesis using st that by blast
  qed
  have "same_core (cl\<lparr>m_clientState := st\<rparr>) cl"
    by (simp add: same_core_def st live_ids_def split: op_type.split)
  then have "step_ok (cl\<lparr>m_clientState := st\<rparr>) cl"
    by (rule step_ok_effect_refl [OF ok]) (simp add: same_outer_def)
  with a show thesis by (intro that [of r st]) (simp_all add: alloc_packet_id_def)
qed

lemma step_chain_live: "same_core c cl \<Longrightarrow> Some ref \<in> set (m_ops cl) \<Longrightarrow> Some ref \<in> set (m_ops c)"
  by (simp add: same_core_def)

lemma live_of:
  assumes ok: "client_ok cl"
  shows "subscribe_op_at i cl = Some s \<Longrightarrow> Some (Type_Subscribe, i) \<in> set (m_ops cl)"
    and "unsubscribe_op_at i cl = Some u \<Longrightarrow> Some (Type_Unsubscribe, i) \<in> set (m_ops cl)"
    and "connect_op_at i cl = Some c \<Longrightarrow> Some (Type_Connect, i) \<in> set (m_ops cl)"
    and "reauth_op_at i cl = Some r \<Longrightarrow> Some (Type_Reauth, i) \<in> set (m_ops cl)"
    and "disconnect_op_at i cl = Some d \<Longrightarrow> Some (Type_Disconnect, i) \<in> set (m_ops cl)"
proof -
  have l: "Some (t, i) \<in> set (m_ops cl) \<longleftrightarrow> i \<in> set (live_ids t cl)" for t
    using ok by (simp add: client_ok_def registry_ok_def)
  show "subscribe_op_at i cl = Some s \<Longrightarrow> Some (Type_Subscribe, i) \<in> set (m_ops cl)"
    "unsubscribe_op_at i cl = Some u \<Longrightarrow> Some (Type_Unsubscribe, i) \<in> set (m_ops cl)"
    "connect_op_at i cl = Some c \<Longrightarrow> Some (Type_Connect, i) \<in> set (m_ops cl)"
    "reauth_op_at i cl = Some r \<Longrightarrow> Some (Type_Reauth, i) \<in> set (m_ops cl)"
    "disconnect_op_at i cl = Some d \<Longrightarrow> Some (Type_Disconnect, i) \<in> set (m_ops cl)"
    unfolding l by (auto simp: live_ids_def subscribe_op_at_def unsubscribe_op_at_def connect_op_at_def
        reauth_op_at_def disconnect_op_at_def dest!: op_at_in)
qed

text \<open>Writing to an operation object keeps its address.\<close>

lemma upd_same_core:
  shows "(\<And>p. sub_id (f p) = sub_id p) \<Longrightarrow> same_core (upd_subscribe i f cl) cl"
    and "(\<And>p. uns_id (g p) = uns_id p) \<Longrightarrow> same_core (upd_unsubscribe i g cl) cl"
    and "(\<And>p. hs_id (h p) = hs_id p) \<Longrightarrow> same_core (upd_connect i h cl) cl"
    and "(\<And>p. hs_id (k p) = hs_id p) \<Longrightarrow> same_core (upd_reauth i k cl) cl"
    and "(\<And>p. do_id (d p) = do_id p) \<Longrightarrow> same_core (upd_disconnect i d cl) cl"
  by (simp_all add: same_core_def live_ids_def upd_subscribe_def upd_unsubscribe_def upd_connect_def
      upd_reauth_def upd_disconnect_def upd_op_def split: op_type.split)

lemma upd_same_outer [simp]:
  "same_outer (upd_subscribe i f cl) cl" "same_outer (upd_unsubscribe i g cl) cl"
  "same_outer (upd_connect i h cl) cl" "same_outer (upd_reauth i k cl) cl"
  "same_outer (upd_disconnect i d cl) cl"
  by (simp_all add: same_outer_def upd_subscribe_def upd_unsubscribe_def upd_connect_def upd_reauth_def
      upd_disconnect_def)

text \<open>
  A call that starts by releasing the preparation lock leaves it free: nothing that follows takes it.
\<close>

definition frees_ok :: "bool \<Rightarrow> fault set \<Rightarrow> client \<Rightarrow> client \<Rightarrow> bool" where
  "frees_ok free F cl' cl \<longleftrightarrow> keeps_ok F cl' cl \<and> (free \<longrightarrow> \<not> m_preparationLocked cl')"

lemma frees_ok_keeps: "frees_ok free F cl' cl \<Longrightarrow> keeps_ok F cl' cl"
  by (simp add: frees_ok_def)

lemma frees_ok_ok: "frees_ok free F cl' cl \<Longrightarrow> client_ok cl'"
  by (simp add: frees_ok_def keeps_ok_def)

lemma frees_then_step: "frees_ok free F c cl \<Longrightarrow> (client_ok c \<Longrightarrow> step_ok c' c) \<Longrightarrow> frees_ok free F c' cl"
  using keeps_then_step frees_ok_ok by (fastforce simp: frees_ok_def step_ok_def)

lemma frees_then_stays: "frees_ok free F c cl \<Longrightarrow> (client_ok c \<Longrightarrow> stays_ok F c' c) \<Longrightarrow> frees_ok free F c' cl"
  using keeps_then_stays frees_ok_ok by (fastforce simp: frees_ok_def stays_ok_def)

lemma allowNextPrepare_frees:
  assumes ok: "client_ok cl"
  shows "frees_ok free F (allowNextPrepare cl) cl" and "frees_ok q F (if q then allowNextPrepare cl else cl) cl"
  using allowNextPrepare_ok [OF ok] keeps_ok_refl [OF ok] by (auto simp: frees_ok_def allowNextPrepare_def)

text \<open>The ends of a \<^verbatim>\<open>send\<close>: the operation completes, or its timer starts in an API call.\<close>

lemma send_ends:
  assumes c: "frees_ok free {Use_After_Free} c cl"
  shows "Some (t, i) \<in> set (m_ops c) \<Longrightarrow> t \<noteq> Type_Send \<Longrightarrow>
           frees_ok free {Use_After_Free} (opComplete b (t, i) c) cl"
    and "(\<And>x. client_ok x \<Longrightarrow> stays_ok {Use_After_Free} (start x) x) \<Longrightarrow>
           frees_ok free {Use_After_Free} (doApiExit (start (doApiEnter b elapsed c))) cl"
proof -
  show "frees_ok free {Use_After_Free} (opComplete b (t, i) c) cl"
    if "Some (t, i) \<in> set (m_ops c)" "t \<noteq> Type_Send"
    by (rule frees_then_step [OF c opComplete_ok(1)]) (use that in auto)
  show "frees_ok free {Use_After_Free} (doApiExit (start (doApiEnter b elapsed c))) cl"
    if s: "\<And>x. client_ok x \<Longrightarrow> stays_ok {Use_After_Free} (start x) x"
  proof -
    have "frees_ok free {Use_After_Free} (doApiEnter b elapsed c) cl"
      by (rule frees_then_stays [OF c doApiEnter_ok])
    then have "frees_ok free {Use_After_Free} (start (doApiEnter b elapsed c)) cl"
      by (rule frees_then_stays [OF _ s])
    then show ?thesis by (rule frees_then_stays [OF _ doApiExit_ok])
  qed
qed

lemma opComplete_gone:
  assumes "client_ok x" and "Some (t, i) \<in> set (m_ops x)" and "t \<noteq> Type_Send"
  shows "Some (t, i) \<notin> set (m_ops (opComplete b (t, i) x))"
  by (rule removed_gone [OF assms(1) opComplete_ok(2) [OF assms(1,2)]]) (simp add: assms(3))

lemma restart_timers_ok:
  assumes ok: "client_ok x"
  shows "stays_ok {Use_After_Free} (SubscribeOp_restartTimer i x) x"
    and "stays_ok {Use_After_Free} (UnsubscribeOp_restartTimer i x) x"
    and "stays_ok {Use_After_Free} (ConnectOp_restartTimer i x) x"
    and "stays_ok {Use_After_Free} (ReauthOp_restartTimer i x) x"
proof -
  have t: "stays_ok {Use_After_Free} (on_timers g x) x" for g
    by (rule stays_ok_effect [OF stays_ok_refl [OF ok]]) simp_all
  have f: "stays_ok {Use_After_Free} (fault Use_After_Free x) x" by (simp add: stays_ok_fault ok)
  show "stays_ok {Use_After_Free} (SubscribeOp_restartTimer i x) x"
    "stays_ok {Use_After_Free} (UnsubscribeOp_restartTimer i x) x"
    "stays_ok {Use_After_Free} (ConnectOp_restartTimer i x) x"
    "stays_ok {Use_After_Free} (ReauthOp_restartTimer i x) x"
    using t f by (simp_all add: SubscribeOp_restartTimer_def UnsubscribeOp_restartTimer_def
        ConnectOp_restartTimer_def ReauthOp_restartTimer_def split: option.split)
qed

lemma SubscribeOp_send_ok:
  assumes ok: "client_ok cl" and op: "subscribe_op_at i cl = Some op"
  shows "frees_ok True {Use_After_Free} (snd (SubscribeOp_send b elapsed cb i cl)) cl"
proof -
  let ?c = "allowNextPrepare cl"
  have c: "frees_ok True {Use_After_Free} ?c cl" by (rule allowNextPrepare_frees(1) [OF ok])
  have l: "Some (Type_Subscribe, i) \<in> set (m_ops ?c)" using live_of(1) [OF ok op] by simp
  obtain pid st where a: "alloc_packet_id b ?c = (pid, ?c\<lparr>m_clientState := st\<rparr>)"
    and st: "step_ok (?c\<lparr>m_clientState := st\<rparr>) ?c"
    by (rule alloc_packet_id_ok [OF frees_ok_ok [OF c]])
  let ?m = "(sub_msg op)\<lparr>sm_packetId := pid\<rparr>"
  let ?u = "upd_subscribe i (\<lambda>p. p\<lparr>sub_cb := True, sub_msg := ?m\<rparr>) (?c\<lparr>m_clientState := st\<rparr>)"
  let ?s = "snd (sendMessage b (Subscribe_Out ?m) ?u)"
  have u: "step_ok ?u ?c" by (rule step_ok_effect [OF st]) (simp_all add: upd_same_core)
  have s: "frees_ok True {Use_After_Free} ?s cl"
    by (rule frees_then_step [OF c]) (rule sent_ok [OF u])
  have ls: "Some (Type_Subscribe, i) \<in> set (m_ops ?s)" using l by (simp add: upd_subscribe_def)
  show ?thesis
    using send_ends(1) [OF c l] send_ends(1) [OF s ls]
      send_ends(2) [OF s, of "SubscribeOp_restartTimer i", OF restart_timers_ok(1)]
    by (simp add: SubscribeOp_send_def op a Let_def split_beta)
qed

lemma UnsubscribeOp_send_ok:
  assumes ok: "client_ok cl" and op: "unsubscribe_op_at i cl = Some op"
  shows "frees_ok True {Use_After_Free} (snd (UnsubscribeOp_send b elapsed cb i cl)) cl"
proof -
  let ?c = "allowNextPrepare cl"
  have c: "frees_ok True {Use_After_Free} ?c cl" by (rule allowNextPrepare_frees(1) [OF ok])
  have l: "Some (Type_Unsubscribe, i) \<in> set (m_ops ?c)" using live_of(2) [OF ok op] by simp
  obtain pid st where a: "alloc_packet_id b ?c = (pid, ?c\<lparr>m_clientState := st\<rparr>)"
    and st: "step_ok (?c\<lparr>m_clientState := st\<rparr>) ?c"
    by (rule alloc_packet_id_ok [OF frees_ok_ok [OF c]])
  let ?m = "(uns_msg op)\<lparr>um_packetId := pid\<rparr>"
  let ?u = "upd_unsubscribe i (\<lambda>p. p\<lparr>uns_cb := True, uns_msg := ?m\<rparr>) (?c\<lparr>m_clientState := st\<rparr>)"
  let ?s = "snd (sendMessage b (Unsubscribe_Out ?m) ?u)"
  have u: "step_ok ?u ?c" by (rule step_ok_effect [OF st]) (simp_all add: upd_same_core)
  have s: "frees_ok True {Use_After_Free} ?s cl"
    by (rule frees_then_step [OF c]) (rule sent_ok [OF u])
  have ls: "Some (Type_Unsubscribe, i) \<in> set (m_ops ?s)" using l by (simp add: upd_unsubscribe_def)
  show ?thesis
    using send_ends(1) [OF c l] send_ends(1) [OF s ls]
      send_ends(2) [OF s, of "UnsubscribeOp_restartTimer i", OF restart_timers_ok(2)]
    by (simp add: UnsubscribeOp_send_def op a Let_def split_beta)
qed

lemma ConnectOp_send_ok:
  assumes ok: "client_ok cl" and op: "connect_op_at i cl = Some op"
  shows "frees_ok True {Use_After_Free} (snd (ConnectOp_send b elapsed cb i cl)) cl"
proof -
  let ?c = "allowNextPrepare cl"
  have c: "frees_ok True {Use_After_Free} ?c cl" by (rule allowNextPrepare_frees(1) [OF ok])
  have l: "Some (Type_Connect, i) \<in> set (m_ops ?c)" using live_of(3) [OF ok op] by simp
  let ?u = "upd_connect i (\<lambda>p. p\<lparr>hs_cb := True\<rparr>) ?c"
  let ?s = "snd (sendMessage b (Connect_Out (co_msg op)) ?u)"
  have u: "step_ok ?u ?c" by (rule step_ok_effect_refl [OF frees_ok_ok [OF c]]) (simp_all add: upd_same_core)
  have s: "frees_ok True {Use_After_Free} ?s cl"
    by (rule frees_then_step [OF c]) (rule sent_ok [OF u])
  have ls: "Some (Type_Connect, i) \<in> set (m_ops ?s)" using l by (simp add: upd_connect_def)
  show ?thesis
    using send_ends(1) [OF c l] send_ends(1) [OF s ls]
      send_ends(2) [OF s, of "ConnectOp_restartTimer i", OF restart_timers_ok(3)]
    by (simp add: ConnectOp_send_def op Let_def split_beta)
qed

lemma ReauthOp_send_ok:
  assumes ok: "client_ok cl" and op: "reauth_op_at i cl = Some op"
  shows "frees_ok True {Use_After_Free} (snd (ReauthOp_send b elapsed cb i cl)) cl"
proof -
  let ?c = "allowNextPrepare cl"
  have c: "frees_ok True {Use_After_Free} ?c cl" by (rule allowNextPrepare_frees(1) [OF ok])
  have l: "Some (Type_Reauth, i) \<in> set (m_ops ?c)" using live_of(4) [OF ok op] by simp
  let ?u = "upd_reauth i (\<lambda>p. p\<lparr>hs_cb := True\<rparr>) ?c"
  let ?s = "\<lambda>m. snd (sendMessage b m ?u)"
  have u: "step_ok ?u ?c" by (rule step_ok_effect_refl [OF frees_ok_ok [OF c]]) (simp_all add: upd_same_core)
  have s: "frees_ok True {Use_After_Free} (?s m) cl" for m
    by (rule frees_then_step [OF c]) (rule sent_ok [OF u])
  have ls: "Some (Type_Reauth, i) \<in> set (m_ops (?s m))" for m using l by (simp add: upd_reauth_def)
  show ?thesis
    using send_ends(1) [OF c l] send_ends(1) [OF s ls]
      send_ends(2) [OF s, of "ReauthOp_restartTimer i", OF restart_timers_ok(4)]
    by (simp add: ReauthOp_send_def op Let_def split_beta)
qed

lemma cancels_ok:
  assumes ok: "client_ok cl"
  shows "subscribe_op_at i cl = Some s \<Longrightarrow> frees_ok (\<not> sub_cb s) {Use_After_Free} (snd (SubscribeOp_cancel b i cl)) cl"
    and "unsubscribe_op_at i cl = Some u \<Longrightarrow> frees_ok (\<not> uns_cb u) {Use_After_Free} (snd (UnsubscribeOp_cancel b i cl)) cl"
    and "connect_op_at i cl = Some c \<Longrightarrow> frees_ok (\<not> hs_cb c) {Use_After_Free} (snd (ConnectOp_cancel b i cl)) cl"
    and "reauth_op_at i cl = Some r \<Longrightarrow> frees_ok (\<not> hs_cb r) {Use_After_Free} (snd (ReauthOp_cancel b i cl)) cl"
    and "disconnect_op_at i cl = Some d \<Longrightarrow> frees_ok True {Use_After_Free} (snd (DisconnectOp_cancel b i cl)) cl"
proof -
  have k: "frees_ok q {Use_After_Free} (if q then allowNextPrepare cl else cl) cl" for q
    by (rule allowNextPrepare_frees(2) [OF ok])
  have e: "frees_ok q {Use_After_Free} (opComplete b (t, i) (if q then allowNextPrepare cl else cl)) cl"
    if "Some (t, i) \<in> set (m_ops cl)" "t \<noteq> Type_Send" for t q
    by (rule send_ends(1) [OF k]) (use that in simp_all)
  note a = allowNextPrepare_ok [OF ok, of "{Use_After_Free}"] and l = live_of [OF ok]
  show "subscribe_op_at i cl = Some s \<Longrightarrow> frees_ok (\<not> sub_cb s) {Use_After_Free} (snd (SubscribeOp_cancel b i cl)) cl"
    using e [OF l(1)] by (simp add: SubscribeOp_cancel_def)
  show "unsubscribe_op_at i cl = Some u \<Longrightarrow> frees_ok (\<not> uns_cb u) {Use_After_Free} (snd (UnsubscribeOp_cancel b i cl)) cl"
    using e [OF l(2)] by (simp add: UnsubscribeOp_cancel_def)
  show "connect_op_at i cl = Some c \<Longrightarrow> frees_ok (\<not> hs_cb c) {Use_After_Free} (snd (ConnectOp_cancel b i cl)) cl"
    using e [OF l(3)] by (simp add: ConnectOp_cancel_def)
  show "reauth_op_at i cl = Some r \<Longrightarrow> frees_ok (\<not> hs_cb r) {Use_After_Free} (snd (ReauthOp_cancel b i cl)) cl"
    using e [OF l(4)] by (simp add: ReauthOp_cancel_def)
  show "disconnect_op_at i cl = Some d \<Longrightarrow> frees_ok True {Use_After_Free} (snd (DisconnectOp_cancel b i cl)) cl"
    using e [of Type_Disconnect True, OF l(5)] by (simp add: DisconnectOp_cancel_def)
qed

lemma opCompleteInternal_ok:
  assumes ok: "client_ok c"
  shows "send_op_at i c = Some op \<Longrightarrow> step_ok (SendOp_opCompleteInternal (resumeSends b) i c) c"
    and "stays_ok {Use_After_Free} (SendOp_opCompleteInternal (resumeSends b) i c) c"
proof -
  show s: "step_ok (SendOp_opCompleteInternal (resumeSends b) i c) c" if op: "send_op_at i c = Some op" for op
  proof (rule step_ok_within [OF opCompleteInternal_within [OF rs_within_resumeSends ok op]])
    assume "fuel_left c"
    then have "fuel_left (SendOp_completeWithCb (resumeSends b) i St_Complete None c)"
      by (rule completeWithCb_fuel [OF rs_fuel_resumeSends order_refl order_refl])
    then show "fuel_left (SendOp_opCompleteInternal (resumeSends b) i c)"
      using op by (simp add: SendOp_completeWithCb_def Let_def fuel_left_def split: if_splits)
  qed
  show "stays_ok {Use_After_Free} (SendOp_opCompleteInternal (resumeSends b) i c) c"
  proof (cases "send_op_at i c")
    case None
    then show ?thesis using stays_ok_fault [OF ok] by (simp add: SendOp_opCompleteInternal_def)
  qed (rule stays_ok_step [OF s])
qed

text \<open>Only \<^verbatim>\<open>send\<close> pauses a publish, one that was not published.\<close>

lemma pause_ok:
  assumes ok: "client_ok c" and op: "send_op_at i c = Some op" and new: "\<not> so_published op"
  shows "keeps_ok F (upd_send i (\<lambda>p. p\<lparr>so_paused := True\<rparr>) c) c"
proof -
  let ?c = "upd_send i (\<lambda>p. p\<lparr>so_paused := True\<rparr>) c"
  obtain ys zs where xs: "m_sendOps c = ys @ op # zs"
    and u: "\<And>f. upd_op so_id i f (m_sendOps c) = ys @ f op # zs"
    using upd_op_split [OF client_ok_distinct_sends [OF ok] op [unfolded send_op_at_def]] by metis
  have "live_ids t ?c = live_ids t c" for t by (simp add: live_ids_upd_send)
  moreover have "m_ops ?c = m_ops c" "cl_nextId ?c = cl_nextId c" "m_clientState ?c = m_clientState c"
      "cl_fault ?c = cl_fault c"
    by (simp_all add: upd_send_def)
  ultimately show ?thesis
    using ok new registry_cong [of ?c c]
    by (auto simp: keeps_ok_def client_ok_def sends_ok_def upd_send_sends published_count_def u [unfolded xs] xs)
qed

lemma paused_id:
  assumes ok: "client_ok c" and op: "send_op_at i c = Some op"
  shows "i \<in> paused_ids c \<longleftrightarrow> so_paused op"
proof -
  obtain ys zs where xs: "m_sendOps c = ys @ op # zs"
    using upd_op_split [OF client_ok_distinct_sends [OF ok] op [unfolded send_op_at_def]] by metis
  have "so_id op = i" using op_at_in [OF op [unfolded send_op_at_def]] by simp
  then show ?thesis using client_ok_distinct_sends [OF ok] by (auto simp: paused_ids_def xs)
qed

lemma doSend_ok:
  assumes ok: "client_ok c" and run: "i \<notin> paused_ids c"
  shows "stays_ok {Use_After_Free} (snd (doSendInternal (resumeSends b) b i c)) c"
proof (cases "send_op_at i c")
  case None
  then show ?thesis using stays_ok_fault [OF ok] by (simp add: doSendInternal_def)
next
  case (Some op)
  then have "\<not> so_paused op" using paused_id [OF ok Some] run by simp
  then have "within (snd (doSendInternal (resumeSends b) b i c)) c"
    using doSendInternal_within(1) [OF rs_within_resumeSends ok Some] by blast
  then show ?thesis
    by (intro stays_ok_step step_ok_within doSendInternal_fuel [OF rs_fuel_resumeSends order_refl order_refl])
qed

text \<open>\<^verbatim>\<open>SendOp::send\<close> up to the decision whether the publish may go out.\<close>

lemma SendOp_send_filled:
  assumes ok: "client_ok cl" and op: "send_op_at i cl = Some op"
  obtains u p where "frees_ok True {Use_After_Free} u cl" "send_op_at i u = Some p"
    "so_published p = so_published op" "so_paused p = so_paused op" "pm_qos (so_pubMsg p) = pm_qos (so_pubMsg op)"
    "cl_events u = cl_events cl" "m_sessionState u = m_sessionState cl"
    "m_cancelNextTickWaitCb u = m_cancelNextTickWaitCb cl"
    "map so_published (m_sendOps u) = map so_published (m_sendOps cl)"
    "SendOp_send b elapsed cb i cl =
       (if \<not> timer_isValid (so_responseTimer op)
        then (EC_InternalError, SendOp_opCompleteInternal (resumeSends b) i (allowNextPrepare cl))
        else if \<not> so_topicConfigured op
        then (EC_InsufficientConfig, SendOp_opCompleteInternal (resumeSends b) i (allowNextPrepare cl))
        else if \<not> canSend p u then (EC_Success, upd_send i (\<lambda>p. p\<lparr>so_paused := True\<rparr>) u)
        else
          let (sendResult, c) = doSendInternal (resumeSends b) b i (doApiEnter b elapsed u) in
          if sendResult \<noteq> EC_Success
          then (sendResult, SendOp_opCompleteInternal (resumeSends b) i (doApiExit c))
          else (EC_Success, doApiExit c))"
proof -
  let ?c = "allowNextPrepare cl"
  let ?needs = "0 < pm_qos (so_pubMsg op)"
  have c: "frees_ok True {Use_After_Free} ?c cl" by (rule allowNextPrepare_frees(1) [OF ok])
  note okc = frees_ok_ok [OF c]
  obtain pid st where a: "(if ?needs then alloc_packet_id b ?c else (pm_packetId (so_pubMsg op), ?c)) =
      (pid, ?c\<lparr>m_clientState := st\<rparr>)" and st: "step_ok (?c\<lparr>m_clientState := st\<rparr>) ?c"
  proof (cases ?needs)
    case True
    then show thesis using alloc_packet_id_ok [OF okc, of b] that by metis
  next
    case False
    then show thesis using that [of "pm_packetId (so_pubMsg op)" "m_clientState ?c"] step_ok_refl [OF okc] by simp
  qed
  let ?fill = "\<lambda>p. p\<lparr>so_cb := cb,
    so_pubMsg := (so_pubMsg p)\<lparr>pm_packetId := pid, pm_packetIdExists := ?needs\<rparr>\<rparr>"
  let ?u = "upd_send i ?fill (?c\<lparr>m_clientState := st\<rparr>)"
  have "step_ok ?u ?c" by (rule step_ok_effect [OF st]) (simp_all add: same_core_upd_send)
  then have u: "frees_ok True {Use_After_Free} ?u cl" by (rule frees_then_step [OF c])
  have "send_op_at i (?c\<lparr>m_clientState := st\<rparr>) = Some op" using op by (simp add: send_op_at_def allowNextPrepare_def)
  then have o: "send_op_at i ?u = Some (?fill op)" by (simp add: send_op_at_upd)
  have m: "map so_published (m_sendOps ?u) = map so_published (m_sendOps cl)"
    by (simp add: upd_send_def upd_op_def allowNextPrepare_def)
  have s: "SendOp_send b elapsed cb i cl =
       (if \<not> timer_isValid (so_responseTimer op)
        then (EC_InternalError, SendOp_opCompleteInternal (resumeSends b) i ?c)
        else if \<not> so_topicConfigured op
        then (EC_InsufficientConfig, SendOp_opCompleteInternal (resumeSends b) i ?c)
        else if \<not> canSend (?fill op) ?u then (EC_Success, upd_send i (\<lambda>p. p\<lparr>so_paused := True\<rparr>) ?u)
        else
          let (sendResult, c) = doSendInternal (resumeSends b) b i (doApiEnter b elapsed ?u) in
          if sendResult \<noteq> EC_Success
          then (sendResult, SendOp_opCompleteInternal (resumeSends b) i (doApiExit c))
          else (EC_Success, doApiExit c))"
    unfolding SendOp_send_def op option.case Let_def a by (simp add: split_beta a)
  show thesis
    by (rule that [OF u o _ _ _ _ _ _ m s]) (simp_all add: allowNextPrepare_def upd_send_def)
qed

lemma SendOp_send_ok:
  assumes ok: "client_ok cl" and op: "send_op_at i cl = Some op" and new: "\<not> so_published op" "\<not> so_paused op"
  shows "frees_ok True {Use_After_Free} (snd (SendOp_send b elapsed cb i cl)) cl"
proof -
  let ?c = "allowNextPrepare cl"
  have c: "frees_ok True {Use_After_Free} ?c cl" by (rule allowNextPrepare_frees(1) [OF ok])
  obtain u p where u: "frees_ok True {Use_After_Free} u cl" and o: "send_op_at i u = Some p"
    and same: "so_published p = so_published op" "so_paused p = so_paused op"
    and s: "SendOp_send b elapsed cb i cl =
       (if \<not> timer_isValid (so_responseTimer op)
        then (EC_InternalError, SendOp_opCompleteInternal (resumeSends b) i ?c)
        else if \<not> so_topicConfigured op
        then (EC_InsufficientConfig, SendOp_opCompleteInternal (resumeSends b) i ?c)
        else if \<not> canSend p u then (EC_Success, upd_send i (\<lambda>p. p\<lparr>so_paused := True\<rparr>) u)
        else
          let (sendResult, c) = doSendInternal (resumeSends b) b i (doApiEnter b elapsed u) in
          if sendResult \<noteq> EC_Success
          then (sendResult, SendOp_opCompleteInternal (resumeSends b) i (doApiExit c))
          else (EC_Success, doApiExit c))"
    by (rule SendOp_send_filled [OF ok op, of b elapsed cb])
  note oku = frees_ok_ok [OF u]
  have pz: "frees_ok True {Use_After_Free} (upd_send i (\<lambda>p. p\<lparr>so_paused := True\<rparr>) u) cl"
    using keeps_ok_trans [OF pause_ok [OF oku o] frees_ok_keeps [OF u]] u by (simp add: frees_ok_def new same)
  let ?e = "doApiEnter b elapsed u"
  have e: "stays_ok {Use_After_Free} ?e u" by (rule doApiEnter_ok [OF oku])
  have "i \<notin> paused_ids u" using paused_id [OF oku o] new same by simp
  then have "i \<notin> paused_ids ?e" using e by (auto simp: stays_ok_def)
  then have "stays_ok {Use_After_Free} (snd (doSendInternal (resumeSends b) b i ?e)) ?e"
    by (rule doSend_ok [OF stays_ok_ok [OF e]])
  then have "frees_ok True {Use_After_Free} (snd (doSendInternal (resumeSends b) b i ?e)) cl"
    by (rule frees_then_stays [OF frees_then_stays [OF u e]])
  then have x: "frees_ok True {Use_After_Free} (doApiExit (snd (doSendInternal (resumeSends b) b i ?e))) cl"
    by (rule frees_then_stays [OF _ doApiExit_ok])
  note f = frees_then_stays [OF c opCompleteInternal_ok(2)] frees_then_stays [OF x opCompleteInternal_ok(2)]
  show ?thesis using f pz x unfolding s by (simp add: split_beta)
qed

lemma SendOp_cancel_ok:
  assumes ok: "client_ok cl" and op: "send_op_at i cl = Some op"
  shows "frees_ok (\<not> so_cb op) {Use_After_Free} (snd (SendOp_cancel b i cl)) cl"
proof -
  have k: "frees_ok q {Use_After_Free} (if q then allowNextPrepare cl else cl) cl" for q
    by (rule allowNextPrepare_frees(2) [OF ok])
  show ?thesis
    using frees_then_stays [OF k opCompleteInternal_ok(2), of "\<not> so_cb op"] op by (simp add: SendOp_cancel_def)
qed

lemma DisconnectOp_send_ok:
  assumes ok: "client_ok cl" and op: "disconnect_op_at i cl = Some op"
  shows "frees_ok True {Use_After_Free} (snd (DisconnectOp_send b elapsed i cl)) cl"
proof -
  let ?e = "doApiEnter b elapsed (allowNextPrepare cl)"
  have e: "frees_ok True {Use_After_Free} ?e cl"
    by (rule frees_then_stays [OF allowNextPrepare_frees(1) [OF ok] doApiEnter_ok])
  note oke = frees_ok_ok [OF e]
  let ?s = "snd (sendMessage b (disconnect_out op) ?e)"
  have s: "frees_ok True {Use_After_Free} ?s cl"
    by (rule frees_then_step [OF e]) (rule sent_ok [OF step_ok_refl])
  have o: "frees_ok True {Use_After_Free} (opComplete b (Type_Disconnect, i) ?s) cl"
    if "disconnect_op_at i ?e = Some op'" for op'
    by (rule send_ends(1) [OF s]) (use live_of(5) [OF oke that] in simp_all)
  let ?c = "case disconnect_op_at i ?e of None \<Rightarrow> fault Use_After_Free ?e
    | Some _ \<Rightarrow> opComplete b (Type_Disconnect, i) ?s"
  have "frees_ok True {Use_After_Free} (fault Use_After_Free ?e) cl"
    by (rule frees_then_stays [OF e]) (simp add: stays_ok_fault)
  then have c: "frees_ok True {Use_After_Free} ?c cl" using o by (cases "disconnect_op_at i ?e") simp_all
  have "frees_ok True {Use_After_Free} (brokerDisconnected b BDR_ValuesLimit St_BrokerDisconnected None ?c) cl"
    by (rule frees_then_step [OF c]) (rule brokerDisconnected_ok(1))
  then have "frees_ok True {Use_After_Free} (doApiExit (brokerDisconnected b BDR_ValuesLimit St_BrokerDisconnected None ?c)) cl"
    by (rule frees_then_stays) (rule doApiExit_ok)
  then show ?thesis by (simp add: DisconnectOp_send_def op Let_def)
qed

section \<open>What a send does\<close>

text \<open>Without a timer callback of the application, entering the API lets no time pass.\<close>

lemma doApiEnter_quiet:
  "\<not> m_cancelNextTickWaitCb cl \<Longrightarrow> doApiEnter b elapsed cl = cl\<lparr>m_apiEnterCount := Suc (m_apiEnterCount cl)\<rparr>"
  by (simp add: doApiEnter_def)

lemma doApiExit_events: "\<exists>evs. cl_events (doApiExit cl) = cl_events cl @ evs"
  by (simp add: doApiExit_def Let_def cleanOps_def emit_def)

lemma doApiExit_client_state: "m_clientState (doApiExit cl) = m_clientState cl"
  by (simp add: doApiExit_def Let_def cleanOps_def emit_def)

lemma timer_calls [simp]:
  "cl_events (SubscribeOp_restartTimer i c) = cl_events c"
  "m_clientState (SubscribeOp_restartTimer i c) = m_clientState c"
  by (simp_all add: SubscribeOp_restartTimer_def on_timers_def fault_def split: option.split)

lemma sendMessage_tickCb [simp]: "m_cancelNextTickWaitCb (snd (sendMessage b msg cl)) = m_cancelNextTickWaitCb cl"
  by (rule sendMessage_frame [of b msg cl]) simp

lemma sendMessage_result_cong:
  "m_sessionState a = m_sessionState c \<Longrightarrow> fst (sendMessage b m a) = fst (sendMessage b m c)"
  by (simp add: sendMessage_def Let_def)

text \<open>A complete SUBSCRIBE is reported as sent exactly when the message can be written.\<close>

lemma SubscribeOp_send_result:
  assumes op: "subscribe_op_at i cl = Some op" and go: "sm_list (sub_msg op) \<noteq> []" "timer_isValid (sub_timer op)"
    and pid: "allocPacketId (b_config b) (m_clientState cl) = Some (pid, st)"
  shows "fst (SubscribeOp_send b elapsed True i cl) =
           fst (sendMessage b (Subscribe_Out ((sub_msg op)\<lparr>sm_packetId := pid\<rparr>)) cl)"
proof -
  let ?c = "allowNextPrepare cl" and ?m = "(sub_msg op)\<lparr>sm_packetId := pid\<rparr>"
  let ?u = "upd_subscribe i (\<lambda>p. p\<lparr>sub_cb := True, sub_msg := ?m\<rparr>) (?c\<lparr>m_clientState := st\<rparr>)"
  have a: "alloc_packet_id b ?c = (pid, ?c\<lparr>m_clientState := st\<rparr>)"
    using pid by (simp add: alloc_packet_id_def allowNextPrepare_def)
  have "fst (sendMessage b (Subscribe_Out ?m) ?u) = fst (sendMessage b (Subscribe_Out ?m) cl)"
    by (rule sendMessage_result_cong) (simp add: upd_subscribe_def allowNextPrepare_def)
  then show ?thesis using go by (simp add: SubscribeOp_send_def op a Let_def split_beta)
qed

lemma SubscribeOp_send_sent:
  assumes op: "subscribe_op_at i cl = Some op" and go: "sm_list (sub_msg op) \<noteq> []" "timer_isValid (sub_timer op)"
    and quiet: "\<not> m_cancelNextTickWaitCb cl"
    and pid: "allocPacketId (b_config b) (m_clientState cl) = Some (pid, st)"
    and sent: "fst (SubscribeOp_send b elapsed True i cl) = EC_Success"
  shows "\<exists>evs. cl_events (snd (SubscribeOp_send b elapsed True i cl)) =
           cl_events cl @ Ev_Output (Subscribe_Out ((sub_msg op)\<lparr>sm_packetId := pid\<rparr>)) # evs"
    and "m_clientState (snd (SubscribeOp_send b elapsed True i cl)) = st"
proof -
  let ?c = "allowNextPrepare cl"
  let ?m = "(sub_msg op)\<lparr>sm_packetId := pid\<rparr>"
  let ?u = "upd_subscribe i (\<lambda>p. p\<lparr>sub_cb := True, sub_msg := ?m\<rparr>) (?c\<lparr>m_clientState := st\<rparr>)"
  let ?s = "snd (sendMessage b (Subscribe_Out ?m) ?u)"
  have a: "alloc_packet_id b ?c = (pid, ?c\<lparr>m_clientState := st\<rparr>)"
    using pid by (simp add: alloc_packet_id_def allowNextPrepare_def)
  have D: "SubscribeOp_send b elapsed True i cl =
      (if fst (sendMessage b (Subscribe_Out ?m) ?u) \<noteq> EC_Success
       then (fst (sendMessage b (Subscribe_Out ?m) ?u), opComplete b (Type_Subscribe, i) ?s)
       else (EC_Success, doApiExit (SubscribeOp_restartTimer i (doApiEnter b elapsed ?s))))"
    using go by (simp add: SubscribeOp_send_def op a Let_def split_beta)
  have f: "fst (sendMessage b (Subscribe_Out ?m) ?u) = EC_Success"
    using sent unfolding D by (simp split: if_splits)
  have q: "\<not> m_cancelNextTickWaitCb ?s" using quiet by (simp add: upd_subscribe_def allowNextPrepare_def)
  have "cl_events ?s = cl_events cl @ [Ev_Output (Subscribe_Out ?m)]"
    using f by (simp add: sendMessage_events) (simp add: upd_subscribe_def allowNextPrepare_def)
  then show "\<exists>evs. cl_events (snd (SubscribeOp_send b elapsed True i cl)) =
      cl_events cl @ Ev_Output (Subscribe_Out ?m) # evs"
    using doApiExit_events [of "SubscribeOp_restartTimer i (doApiEnter b elapsed ?s)"] f
    by (auto simp: D doApiEnter_quiet [OF q])
  have "m_clientState ?s = st" by (simp add: upd_subscribe_def)
  then show "m_clientState (snd (SubscribeOp_send b elapsed True i cl)) = st"
    using f by (simp add: D doApiExit_client_state doApiEnter_quiet [OF q])
qed

text \<open>Cancelling a publish leaves the operations of the other types where they are.\<close>

lemma opCompleteInternal_beside:
  "beside_sends (SendOp_opCompleteInternal (resumeSends b) i cl) = beside_sends cl"
proof (cases "send_op_at i cl")
  case None
  then show ?thesis by (simp add: SendOp_opCompleteInternal_def)
next
  case (Some op)
  then show ?thesis
    using completeWithCb_beside [OF resumeSends_beside, of b i St_Complete None cl]
    by (simp add: SendOp_completeWithCb_def Let_def split: if_splits)
qed

section \<open>Sample clients\<close>

text \<open>A connected client with some publishes and subscriptions under way, for the examples.\<close>

definition sample_client :: "build \<Rightarrow> send_op list \<Rightarrow> subscribe_op list \<Rightarrow> 16 word list \<Rightarrow> client" where
  "sample_client b sends subs ids =
     (connected_client b)\<lparr>
       m_clientState := (m_clientState (connected_client b))
         \<lparr>m_allocatedPacketIds := ids, m_inFlightSends := published_count sends\<rparr>,
       m_subscribeOps := subs, m_sendOps := sends,
       m_ops := map (\<lambda>p. Some (Type_Send, so_id p)) sends @ map (\<lambda>p. Some (Type_Subscribe, sub_id p)) subs,
       cl_nextId := 100\<rparr>"

lemma connected_client_empty:
  "m_connectOps (connected_client b) = []" "m_keepAliveOps (connected_client b) = []"
  "m_disconnectOps (connected_client b) = []" "m_unsubscribeOps (connected_client b) = []"
  "m_recvOps (connected_client b) = []" "m_reauthOps (connected_client b) = []"
  by (simp_all add: connected_client_def on_session_state_def on_client_state_def with_callbacks_def
      ClientImpl_init_def split_beta Let_def)

lemma sample_client_ok:
  assumes "distinct (map so_id sends)" "distinct (map sub_id subs)"
    and "\<forall>p\<in>set sends. so_id p < 100 \<and> (so_published p \<longrightarrow> \<not> so_paused p)" "\<forall>p\<in>set subs. sub_id p < 100"
    and "ids_sorted ids"
  shows "client_ok (sample_client b sends subs ids)"
proof -
  let ?cl = "sample_client b sends subs ids"
  have l: "live_ids t ?cl = (if t = Type_Send then map so_id sends
      else if t = Type_Subscribe then map sub_id subs else [])" for t
    by (cases t) (simp_all add: live_ids_def sample_client_def connected_client_empty)
  have o: "m_ops ?cl = map (\<lambda>p. Some (Type_Send, so_id p)) sends @ map (\<lambda>p. Some (Type_Subscribe, sub_id p)) subs"
    by (simp add: sample_client_def)
  have f: "filter (\<lambda>p. p \<noteq> None) (m_ops ?cl) = m_ops ?cl" unfolding o by (simp add: filter_id_conv)
  have "distinct (m_ops ?cl)"
    using assms(1,2) unfolding o by (auto simp: distinct_map inj_on_def)
  then have "registry_ok ?cl"
    using assms(1-4) unfolding registry_ok_def f by (auto simp: l o) (simp_all add: sample_client_def)
  then show ?thesis
    using assms(3,5) by (simp add: client_ok_def sends_ok_def sample_client_def packet_ids_ok_def)
qed

definition sample_publish :: "op_id \<Rightarrow> 16 word \<Rightarrow> send_op" where
  "sample_publish i packetId =
     \<lparr>so_id = i, so_responseTimer = Suc i, so_responseTimeoutMs = 2000,
      so_pubMsg = \<lparr>pm_dup = False, pm_qos = AtLeastOnce, pm_retain = False, pm_topic = ''a'',
        pm_packetId = packetId, pm_packetIdExists = True, pm_props = [], pm_payload = []\<rparr>,
      so_cb = False, so_totalSendAttempts = 2, so_sendAttempts = 1, so_reasonCode = RC_Success,
      so_published = True, so_acked = False, so_registeredAlias = False,
      so_topicConfigured = True, so_paused = False\<rparr>"

definition sample_subscribe :: "op_id \<Rightarrow> subscribe_op" where
  "sample_subscribe i =
     \<lparr>sub_id = i, sub_timer = Suc i, sub_responseTimeoutMs = 2000,
      sub_msg = \<lparr>sm_packetId = 0, sm_props = [], sm_list = [\<lparr>se_topic = ''a'', se_qos = 1, se_noLocal = False,
        se_retainAsPublished = False, se_retainHandling = 0\<rparr>]\<rparr>, sub_cb = False\<rparr>"

lemma sample_subscribe_ok:
  "ids_sorted ids \<Longrightarrow> j < 100 \<Longrightarrow> client_ok (sample_client b [] [sample_subscribe j] ids)"
  by (auto intro!: sample_client_ok simp: sample_subscribe_def)

lemma sample_publish_ok:
  "ids_sorted ids \<Longrightarrow> i < 100 \<Longrightarrow> j < 100 \<Longrightarrow>
     client_ok (sample_client b [sample_publish i p] [sample_subscribe j] ids)"
  by (auto intro!: sample_client_ok simp: sample_publish_def sample_subscribe_def)

lemma sample_subscribe_ready:
  "sm_list (sub_msg (sample_subscribe 7)) \<noteq> []" "timer_isValid (sub_timer (sample_subscribe 7))"
  by (simp_all add: sample_subscribe_def timer_isValid_def InvalidIdx_def)

lemma sample_subscribe_at:
  "subscribe_op_at j (sample_client b sends [sample_subscribe j] ids) = Some (sample_subscribe j)"
  by (simp add: subscribe_op_at_def sample_client_def op_at_def sample_subscribe_def)

lemma sample_facts [simp]:
  "m_cancelNextTickWaitCb (sample_client b sends subs ids) = False"
  "m_keepAliveOps (sample_client b sends subs ids) = []"
  "m_allocatedPacketIds (m_clientState (sample_client b sends subs ids)) = ids"
  "m_sessionState (sample_client b sends subs ids) = SessionState_init\<lparr>m_connected := True\<rparr>"
  "m_preparationLocked (sample_client b sends subs ids) = False"
  by (simp_all add: sample_client_def connected_client_def on_session_state_def on_client_state_def
      with_callbacks_def ClientImpl_init_def split_beta Let_def)

lemma sample_send_goes:
  assumes "ids_sorted ids" and "j < 100" and b: "frame_write_ok b = (\<lambda>_. True)" "MaxOutputPacketSize (b_config b) = 0"
  shows "fst (SubscribeOp_send b 0 True j (sample_client b [] [sample_subscribe j] ids)) = EC_Success"
proof -
  let ?cl = "allowNextPrepare (sample_client b [] [sample_subscribe j] ids)"
  have ok: "client_ok ?cl" by (rule keeps_ok_ok [OF allowNextPrepare_ok [OF sample_subscribe_ok]]) (use assms in simp_all)
  obtain pid st where a: "alloc_packet_id b ?cl = (pid, ?cl\<lparr>m_clientState := st\<rparr>)"
    by (rule alloc_packet_id_ok [OF ok])
  have "m_sessionState ?cl = SessionState_init\<lparr>m_connected := True\<rparr>" by (simp add: allowNextPrepare_def)
  then show ?thesis
    using assms(2)
    by (simp add: SubscribeOp_send_def sample_subscribe_at a Let_def split_beta sendMessage_def b upd_subscribe_def
        SessionState_init_def) (simp add: sample_subscribe_def timer_isValid_def InvalidIdx_def)
qed

text \<open>The bare-metal build, where the identifiers run out after eleven.\<close>

definition small_build :: build where
  "small_build = sample_build\<lparr>b_config := bare_metal_config\<lparr>MaxOutputPacketSize := 0\<rparr>\<rparr>"

section \<open>Properties\<close>

text \<open>
  C16: While identifiers remain, a SUBSCRIBE that \<^verbatim>\<open>send\<close> reports as sent goes out at once with
  the configured topics, and its packet identifier is one that no operation held before; it is
  held from then on. It is not 0, except at the wrap: when every identifier from the next one up
  to 65535 is taken and 0 is not recorded, SUBSCRIBE goes out with the identifier 0, which MQTT
  forbids. (No time passes inside the call: the application has set no timer callbacks.)
\<close>

theorem subscribe_send_fresh_id:
  assumes "client_ok cl" and "subscribe_op_at i cl = Some op"
    and "sm_list (sub_msg op) \<noteq> []" and "timer_isValid (sub_timer op)" and "\<not> m_cancelNextTickWaitCb cl"
    and "\<not> packet_ids_exhausted (b_config b) (m_allocatedPacketIds (m_clientState cl))"
    and "fst (SubscribeOp_send b elapsed True i cl) = EC_Success"
  shows "\<exists>pid evs. cl_events (snd (SubscribeOp_send b elapsed True i cl)) =
           cl_events cl @ Ev_Output (Subscribe_Out ((sub_msg op)\<lparr>sm_packetId := pid\<rparr>)) # evs \<and>
           pid \<notin> set (m_allocatedPacketIds (m_clientState cl)) \<and>
           set (m_allocatedPacketIds (m_clientState (snd (SubscribeOp_send b elapsed True i cl)))) =
             insert pid (set (m_allocatedPacketIds (m_clientState cl))) \<and>
           (pid = 0 \<longleftrightarrow> 0 \<notin> set (m_allocatedPacketIds (m_clientState cl)) \<and>
             (\<forall>k. next_packet_id (m_lastPacketId (m_clientState cl)) \<le> k \<longrightarrow>
                k \<in> set (m_allocatedPacketIds (m_clientState cl))))"
proof -
  have p: "packet_ids_ok (m_clientState cl)" using assms(1) by (simp add: client_ok_def sends_ok_def)
  obtain pid st where a: "allocPacketId (b_config b) (m_clientState cl) = Some (pid, st)"
    "pid \<notin> set (m_allocatedPacketIds (m_clientState cl))"
    "set (m_allocatedPacketIds st) = insert pid (set (m_allocatedPacketIds (m_clientState cl)))"
    by (rule allocPacketId_fresh [OF p assms(6)])
  note z = allocPacketId_zero_iff [OF p assms(6), unfolded a(1), simplified]
  show ?thesis
    using SubscribeOp_send_sent [OF assms(2-5) a(1) assms(7)] a(2,3) z by blast
qed

theorem subscribe_send_fresh_id_witness:
  "\<exists>pid evs. cl_events (snd (SubscribeOp_send sample_build 0 True 7
      (sample_client sample_build [] [sample_subscribe 7] [1, 2]))) =
    cl_events (sample_client sample_build [] [sample_subscribe 7] [1, 2]) @
      Ev_Output (Subscribe_Out ((sub_msg (sample_subscribe 7))\<lparr>sm_packetId := pid\<rparr>)) # evs \<and> pid \<notin> {1, 2}"
proof -
  have s: "ids_sorted [1, 2]" by (simp add: key_sorted_def)
  have g: "fst (SubscribeOp_send sample_build 0 True 7
      (sample_client sample_build [] [sample_subscribe 7] [1, 2])) = EC_Success"
    by (rule sample_send_goes [OF s]) (simp_all add: sample_build_def default_config_def)
  let ?cl = "sample_client sample_build [] [sample_subscribe 7] [1, 2]"
  have ok: "client_ok ?cl" by (rule sample_subscribe_ok [OF s]) simp
  have "\<not> packet_ids_exhausted (b_config sample_build) (m_allocatedPacketIds (m_clientState ?cl))"
    by (simp add: packet_ids_exhausted_def obj_list_full_def PacketIdsLimit_def sample_build_def default_config_def)
  from subscribe_send_fresh_id [OF ok sample_subscribe_at sample_subscribe_ready _ this g]
  show ?thesis by auto
qed

text \<open>
  C39: When the identifiers are used up \<^verbatim>\<open>send\<close> does not notice: a complete SUBSCRIBE that can be
  written goes out with the packet identifier 0, which MQTT forbids, and \<^verbatim>\<open>send\<close> reports success.
  (No time passes inside the call: the application has set no timer callbacks.)
\<close>

theorem exhausted_subscribe_sends_zero:
  assumes "client_ok cl" and "subscribe_op_at i cl = Some op"
    and "sm_list (sub_msg op) \<noteq> []" and "timer_isValid (sub_timer op)" and "\<not> m_cancelNextTickWaitCb cl"
    and "packet_ids_exhausted (b_config b) (m_allocatedPacketIds (m_clientState cl))"
    and "fst (sendMessage b (Subscribe_Out ((sub_msg op)\<lparr>sm_packetId := 0\<rparr>)) cl) = EC_Success"
  shows "fst (SubscribeOp_send b elapsed True i cl) = EC_Success \<and>
         (\<exists>evs. cl_events (snd (SubscribeOp_send b elapsed True i cl)) =
           cl_events cl @ Ev_Output (Subscribe_Out ((sub_msg op)\<lparr>sm_packetId := 0\<rparr>)) # evs)"
proof -
  have a: "allocPacketId (b_config b) (m_clientState cl) = Some (0, m_clientState cl)"
    using assms(6) by (simp add: allocPacketId_def)
  have "fst (SubscribeOp_send b elapsed True i cl) = EC_Success"
    using SubscribeOp_send_result [OF assms(2-4) a] assms(7) by simp
  then show ?thesis using SubscribeOp_send_sent(1) [OF assms(2-5) a] by blast
qed

theorem exhausted_subscribe_sends_zero_witness:
  "fst (SubscribeOp_send small_build 0 True 7
      (sample_client small_build [] [sample_subscribe 7] [1, 2, 3, 4, 5, 6, 7, 8, 9, 10, 11])) = EC_Success \<and>
   (\<exists>evs. cl_events (snd (SubscribeOp_send small_build 0 True 7
      (sample_client small_build [] [sample_subscribe 7] [1, 2, 3, 4, 5, 6, 7, 8, 9, 10, 11]))) =
    cl_events (sample_client small_build [] [sample_subscribe 7] [1, 2, 3, 4, 5, 6, 7, 8, 9, 10, 11]) @
      Ev_Output (Subscribe_Out ((sub_msg (sample_subscribe 7))\<lparr>sm_packetId := 0\<rparr>)) # evs)"
proof -
  let ?ids = "[1, 2, 3, 4, 5, 6, 7, 8, 9, 10, 11] :: 16 word list"
  have s: "ids_sorted ?ids" by (simp add: key_sorted_def)
  let ?cl = "sample_client small_build [] [sample_subscribe 7] ?ids"
  have f: "fst (sendMessage small_build (Subscribe_Out ((sub_msg (sample_subscribe 7))\<lparr>sm_packetId := 0\<rparr>)) ?cl) = EC_Success"
    by (simp add: sendMessage_def SessionState_init_def) (simp add: small_build_def sample_build_def bare_metal_config_def)
  have ok: "client_ok ?cl" by (rule sample_subscribe_ok [OF s]) simp
  have "packet_ids_exhausted (b_config small_build) (m_allocatedPacketIds (m_clientState ?cl))"
    by (simp add: packet_ids_exhausted_def obj_list_full_def ext_config_defs small_build_def sample_build_def
        bare_metal_config_def)
  from exhausted_subscribe_sends_zero [OF ok sample_subscribe_at sample_subscribe_ready _ this f]
  show ?thesis by auto
qed

text \<open>
  C17: A \<^verbatim>\<open>send\<close> that returns an error has destroyed its operation and called no completion
  callback: the callback is invoked if and only if \<^verbatim>\<open>send\<close> returned success.
\<close>

theorem subscribe_send_error_is_silent:
  assumes "client_ok cl" and "subscribe_op_at i cl = Some op"
    and "fst (SubscribeOp_send b elapsed cb i cl) \<noteq> EC_Success"
  shows "Some (Type_Subscribe, i) \<notin> set (m_ops (snd (SubscribeOp_send b elapsed cb i cl))) \<and>
         cl_events (snd (SubscribeOp_send b elapsed cb i cl)) = cl_events cl"
proof -
  let ?c = "allowNextPrepare cl"
  have okc: "client_ok ?c" using allowNextPrepare_ok [OF assms(1)] by (rule keeps_ok_ok)
  obtain pid st where a: "alloc_packet_id b ?c = (pid, ?c\<lparr>m_clientState := st\<rparr>)"
    and st: "step_ok (?c\<lparr>m_clientState := st\<rparr>) ?c"
    by (rule alloc_packet_id_ok [OF okc])
  let ?m = "(sub_msg op)\<lparr>sm_packetId := pid\<rparr>"
  let ?u = "upd_subscribe i (\<lambda>p. p\<lparr>sub_cb := True, sub_msg := ?m\<rparr>) (?c\<lparr>m_clientState := st\<rparr>)"
  let ?s = "snd (sendMessage b (Subscribe_Out ?m) ?u)"
  have u: "step_ok ?u ?c" by (rule step_ok_effect [OF st]) (simp_all add: upd_same_core)
  have oks: "client_ok ?s" by (rule step_ok_ok [OF sent_ok [OF u]])
  have l: "Some (Type_Subscribe, i) \<in> set (m_ops ?c)" using live_of(1) [OF assms(1,2)] by simp
  then have ls: "Some (Type_Subscribe, i) \<in> set (m_ops ?s)" by (simp add: upd_subscribe_def)
  have quiet: "cl_events (opComplete b (Type_Subscribe, i) x) = cl_events x" for x
    by (simp add: opComplete_def opComplete_with_def opComplete_Subscribe_def destroy_timer_def release_id_def
        on_timers_def on_client_state_def Let_def split: option.split)
  have gone: "Some (Type_Subscribe, i) \<notin> set (m_ops (opComplete b (Type_Subscribe, i) x))"
    if "client_ok x" "Some (Type_Subscribe, i) \<in> set (m_ops x)" for x
    by (rule opComplete_gone [OF that]) simp
  have e: "cl_events ?c = cl_events cl" by (simp add: allowNextPrepare_def)
  have "cl_events ?s = cl_events cl" if "fst (sendMessage b (Subscribe_Out ?m) ?u) \<noteq> EC_Success"
    using that by (simp add: sendMessage_events) (simp add: upd_subscribe_def allowNextPrepare_def)
  then show ?thesis
    using assms(3) gone [OF okc l] gone [OF oks ls] e
    by (auto simp: SubscribeOp_send_def assms(2) a quiet Let_def split_beta split: if_splits)
qed

theorem subscribe_send_error_is_silent_witness:
  "cl_events (snd (SubscribeOp_send sample_build 0 False 7
      (sample_client sample_build [] [sample_subscribe 7] [1, 2]))) =
    cl_events (sample_client sample_build [] [sample_subscribe 7] [1, 2])"
proof -
  have s: "ids_sorted [1, 2]" by (simp add: key_sorted_def)
  have "client_ok (sample_client sample_build [] [sample_subscribe 7] [1, 2])"
    by (rule sample_subscribe_ok [OF s]) simp_all
  from subscribe_send_error_is_silent [OF this sample_subscribe_at, of sample_build 0 False]
  show ?thesis by (simp add: SubscribeOp_send_def sample_subscribe_at)
qed

text \<open>
  C38: \<^verbatim>\<open>SendOp::cancel\<close> takes a publish without completion callback, which the
  documentation allows, for one that has not been sent: cancelling it releases the
  preparation lock although another operation, here a SUBSCRIBE, is still being prepared.
\<close>

theorem cancel_without_callback_unlocks:
  assumes "client_ok cl" and "send_op_at i cl = Some op" and "so_published op" and "\<not> so_cb op"
    and "m_preparationLocked cl" and "Some (Type_Subscribe, j) \<in> set (m_ops cl)"
  shows "\<not> m_preparationLocked (snd (SendOp_cancel b i cl)) \<and>
         Some (Type_Subscribe, j) \<in> set (m_ops (snd (SendOp_cancel b i cl)))"
proof -
  let ?c = "allowNextPrepare cl"
  have okc: "client_ok ?c" using allowNextPrepare_ok [OF assms(1)] by (rule keeps_ok_ok)
  have D: "snd (SendOp_cancel b i cl) = SendOp_opCompleteInternal (resumeSends b) i ?c"
    using assms(2,4) by (simp add: SendOp_cancel_def)
  have s: "step_ok (snd (SendOp_cancel b i cl)) ?c"
    unfolding D by (rule opCompleteInternal_ok(1) [OF okc]) (simp add: assms(2))
  have "j \<in> set (live_ids Type_Subscribe cl)" using assms(1,6) by (simp add: client_ok_def registry_ok_def)
  moreover have "m_subscribeOps (snd (SendOp_cancel b i cl)) = m_subscribeOps cl"
    using opCompleteInternal_beside [of b i ?c] unfolding D by (simp add: beside_sends_def allowNextPrepare_def)
  ultimately have "j \<in> set (live_ids Type_Subscribe (snd (SendOp_cancel b i cl)))" by (simp add: live_ids_def)
  then show ?thesis
    using step_ok_ok [OF s] s by (simp add: client_ok_def registry_ok_def step_ok_def allowNextPrepare_def)
qed

theorem cancel_without_callback_unlocks_witness:
  "\<not> m_preparationLocked (snd (SendOp_cancel sample_build 3
      ((sample_client sample_build [sample_publish 3 1] [sample_subscribe 7] [1])\<lparr>m_preparationLocked := True\<rparr>)))"
proof -
  let ?cl = "(sample_client sample_build [sample_publish 3 1] [sample_subscribe 7] [1])\<lparr>m_preparationLocked := True\<rparr>"
  have "ids_sorted [1]" by (simp add: key_sorted_def)
  then have "client_ok (sample_client sample_build [sample_publish 3 1] [sample_subscribe 7] [1])"
    by (rule sample_publish_ok) simp_all
  then have ok: "client_ok ?cl" by (rule same_core_ok [OF same_core_locked])
  have at: "send_op_at 3 ?cl = Some (sample_publish 3 1)"
    by (simp add: send_op_at_def sample_client_def op_at_def sample_publish_def)
  have sub: "Some (Type_Subscribe, 7) \<in> set (m_ops ?cl)"
    by (simp add: sample_client_def sample_subscribe_def)
  show ?thesis
    using cancel_without_callback_unlocks [OF ok at _ _ _ sub] by (simp add: sample_publish_def)
qed

end
