(* ===== verification/Topic_Alias.thy ===== *)
theory Topic_Alias
  imports Client_Invariant
begin

text \<open>
  The topic aliases of the publishing direction: \<^verbatim>\<open>allocPubTopicAlias\<close>,
  \<^verbatim>\<open>freePubTopicAlias\<close>, \<^verbatim>\<open>pubTopicAliasCount\<close> and \<^verbatim>\<open>pubTopicAliasIsAllocated\<close> of
  \<^verbatim>\<open>client/lib/src/ClientImpl.cpp\<close>, over the vector \<^verbatim>\<open>m_sendTopicAliases\<close> sorted by topic and
  the list \<^verbatim>\<open>m_sendTopicFreeAliases\<close>.
\<close>

section \<open>The table\<close>

type_synonym alias_tables = "topic_alias_info list \<times> nat list"

text \<open>
  The alias of a new topic: the last freed one, or one more than the number of freed ones,
  which is then 1.
\<close>

definition take_alias :: "nat list \<Rightarrow> nat \<times> nat list" where
  "take_alias free =
     (let (alias, free') = (if free \<noteq> [] then (last free, butlast free) else (0, free))
      in if alias = 0 then (length free' + 1, free') else (alias, free'))"

definition put_alias :: "cstr \<Rightarrow> nat \<Rightarrow> alias_tables \<Rightarrow> alias_tables" where
  "put_alias topic regs tabs =
     (let aliases = fst tabs; k = lower_bound ta_topic topic aliases in
      if lb_found ta_topic topic aliases
      then (aliases[k := (aliases ! k)\<lparr>ta_lowQosRegRemCount := max regs 1\<rparr>], snd tabs)
      else
        let (alias, free) = take_alias (snd tabs)
        in (insert_at k \<lparr>ta_topic = topic, ta_alias = alias, ta_lowQosRegRemCount = max regs 1\<rparr> aliases, free))"

definition drop_alias :: "cstr \<Rightarrow> alias_tables \<Rightarrow> alias_tables" where
  "drop_alias topic tabs =
     (let aliases = fst tabs; k = lower_bound ta_topic topic aliases in
      if \<not> lb_found ta_topic topic aliases then tabs
      else (erase_at k aliases, snd tabs @ [ta_alias (aliases ! k)]))"

definition alias_tables_of :: "client \<Rightarrow> alias_tables" where
  "alias_tables_of cl = (m_sendTopicAliases (m_clientState cl), m_sendTopicFreeAliases (m_sessionState cl))"

definition set_alias_tables :: "alias_tables \<Rightarrow> client \<Rightarrow> client" where
  "set_alias_tables tabs cl =
     on_session_state (\<lambda>s. s\<lparr>m_sendTopicFreeAliases := snd tabs\<rparr>)
       (on_client_state (\<lambda>s. s\<lparr>m_sendTopicAliases := fst tabs\<rparr>) cl)"

section \<open>Operations\<close>

definition allocPubTopicAlias :: "build \<Rightarrow> cstr option \<Rightarrow> nat \<Rightarrow> client \<Rightarrow> error_code \<times> client" where
  "allocPubTopicAlias b topic qos0RegsCount cl =
     (let c = b_config b; ss = m_sessionState cl; aliases = m_sendTopicAliases (m_clientState cl) in
      if \<not> HasTopicAliases c then (EC_NotSupported, cl)
      else
        case topic of
          None \<Rightarrow> (EC_BadParam, cl)
        | Some t \<Rightarrow>
            if t = [] then (EC_BadParam, cl)
            else if \<not> m_connected ss then (EC_NotConnected, cl)
            else if m_disconnecting ss then (EC_Disconnecting, cl)
            else if m_maxSendTopicAlias ss \<le> length aliases then (EC_BadParam, cl)
            else if obj_list_full (TopicAliasesLimit c) (HasTopicAliases c) aliases then (EC_OutOfMemory, cl)
            else if 255 < qos0RegsCount then (EC_BadParam, cl)
            else (EC_Success, set_alias_tables (put_alias t qos0RegsCount (alias_tables_of cl)) cl))"

definition freePubTopicAlias :: "build \<Rightarrow> cstr option \<Rightarrow> client \<Rightarrow> error_code \<times> client" where
  "freePubTopicAlias b topic cl =
     (if \<not> HasTopicAliases (b_config b) then (EC_NotSupported, cl)
      else
        case topic of
          None \<Rightarrow> (EC_BadParam, cl)
        | Some t \<Rightarrow>
            if t = [] then (EC_BadParam, cl)
            else if \<not> lb_found ta_topic t (m_sendTopicAliases (m_clientState cl)) then (EC_BadParam, cl)
            else (EC_Success, set_alias_tables (drop_alias t (alias_tables_of cl)) cl))"

definition pubTopicAliasCount :: "build \<Rightarrow> client \<Rightarrow> nat" where
  "pubTopicAliasCount b cl =
     (if HasTopicAliases (b_config b) then length (m_sendTopicAliases (m_clientState cl)) else 0)"

definition pubTopicAliasIsAllocated :: "build \<Rightarrow> cstr option \<Rightarrow> client \<Rightarrow> bool" where
  "pubTopicAliasIsAllocated b topic cl =
     (if HasTopicAliases (b_config b)
      then (case topic of None \<Rightarrow> False | Some t \<Rightarrow> lb_found ta_topic t (m_sendTopicAliases (m_clientState cl)))
      else False)"

section \<open>The table is an ordered store of topics\<close>

lemma map_update_key:
  "k < length xs \<Longrightarrow> key y = key (xs ! k) \<Longrightarrow> map key (xs[k := y]) = map key xs"
  by (metis list_update_id map_update)

lemma key_sorted_map: "map key xs = map key ys \<Longrightarrow> key_sorted key xs \<longleftrightarrow> key_sorted key ys"
proof -
  have s: "key_sorted key zs \<longleftrightarrow> sorted_wrt (<) (map key zs)" for zs
    by (simp add: key_sorted_def sorted_wrt_map)
  show "map key xs = map key ys \<Longrightarrow> ?thesis" unfolding s by simp
qed

lemma put_alias_topics:
  assumes ok: "key_sorted ta_topic (fst tabs)"
  shows "ta_topic ` set (fst (put_alias t regs tabs)) = insert t (ta_topic ` set (fst tabs))"
    and "key_sorted ta_topic (fst (put_alias t regs tabs))"
proof -
  let ?as = "fst tabs"
  let ?k = "lower_bound ta_topic t ?as"
  have "ta_topic ` set (fst (put_alias t regs tabs)) = insert t (ta_topic ` set ?as) \<and>
    key_sorted ta_topic (fst (put_alias t regs tabs))"
  proof (cases "lb_found ta_topic t ?as")
    case True
    let ?y = "(?as ! ?k)\<lparr>ta_lowQosRegRemCount := max regs 1\<rparr>"
    have k: "?k < length ?as" "ta_topic (?as ! ?k) = t" using True by (simp_all add: lb_found_def)
    have m: "map ta_topic (?as[?k := ?y]) = map ta_topic ?as" by (rule map_update_key) (simp_all add: k)
    have "t \<in> ta_topic ` set ?as" by (rule image_eqI [of _ _ "?as ! ?k"]) (simp_all add: k)
    moreover have "ta_topic ` set (?as[?k := ?y]) = ta_topic ` set ?as"
      using arg_cong [OF m, of set] by (simp only: set_map)
    ultimately have "ta_topic ` set (?as[?k := ?y]) = insert t (ta_topic ` set ?as)"
      by (simp only: insert_absorb)
    moreover have "key_sorted ta_topic (?as[?k := ?y])" using key_sorted_map [OF m] ok by blast
    ultimately show ?thesis using True by (simp add: put_alias_def Let_def)
  next
    case False
    obtain a f where a: "take_alias (snd tabs) = (a, f)" by (cases "take_alias (snd tabs)")
    let ?x = "\<lparr>ta_topic = t, ta_alias = a, ta_lowQosRegRemCount = max regs 1\<rparr>"
    have "key_sorted ta_topic (insert_at ?k ?x ?as)"
      using key_sorted_insert_at [OF ok, of ?x] False lb_found_iff [OF ok, of t] by simp
    then show ?thesis using False a by (simp add: put_alias_def Let_def)
  qed
  then show "ta_topic ` set (fst (put_alias t regs tabs)) = insert t (ta_topic ` set ?as)"
    "key_sorted ta_topic (fst (put_alias t regs tabs))" by blast+
qed

lemma drop_alias_topics:
  assumes ok: "key_sorted ta_topic (fst tabs)"
  shows "ta_topic ` set (fst (drop_alias t tabs)) = ta_topic ` set (fst tabs) - {t}"
    and "key_sorted ta_topic (fst (drop_alias t tabs))"
  using erase_at_found [OF ok, of t] lb_found_iff [OF ok, of t] ok
  by (auto simp: drop_alias_def Let_def)

interpretation pub_aliases: ordered_store
  "\<lambda>tabs. ta_topic ` set (fst tabs)" "\<lambda>t tabs. lb_found ta_topic t (fst tabs)"
  "\<lambda>t. put_alias t regs" drop_alias "\<lambda>tabs. key_sorted ta_topic (fst tabs)" for regs :: nat
  using lb_found_iff put_alias_topics drop_alias_topics by unfold_locales auto

lemma alias_tables_set [simp]: "alias_tables_of (set_alias_tables tabs cl) = tabs"
  by (simp add: alias_tables_of_def set_alias_tables_def on_session_state_def on_client_state_def)

lemma aliases_set [simp]:
  "m_sendTopicAliases (m_clientState (set_alias_tables tabs cl)) = fst tabs"
  "m_sendTopicFreeAliases (m_sessionState (set_alias_tables tabs cl)) = snd tabs"
  by (simp_all add: set_alias_tables_def on_session_state_def on_client_state_def)

end
