(* ===== verification/Client_Api.thy ===== *)
theory Client_Api
  imports Client_Send Topic_Alias
begin

text \<open>
  The client as the application sees it: \<^verbatim>\<open>processData\<close>, which cuts the bytes of the broker
  into messages, \<^verbatim>\<open>notifyNetworkDisconnected\<close>, \<^verbatim>\<open>setPublishOrdering\<close>, the destructor
  (\<^verbatim>\<open>client/lib/src/ClientImpl.cpp\<close>), the configuration calls on handles, the setters of the
  client, and the calls together as one step function (all but the destructor and the setters of callbacks, which are
  chosen once, when the client is made). Its runs keep the invariant of the client and the preparation
  lock, and the faults they can end in are named.
\<close>

section \<open>Incoming bytes\<close>

text \<open>
  What the code takes of the frames of the \<^verbatim>\<open>cc_mqtt5\<close> library: the length of the first
  byte of a message, reading the remaining-length field (its value and its own length),
  and reading a whole frame (the message and the bytes it took).
\<close>

datatype size_result = Size_NotEnough | Size_Failed | Size_Value nat nat

datatype frame_result = Frame_NotEnough | Frame_Failed | Frame_Message in_msg nat

record framing =
  fr_idLen :: nat
  fr_size :: "bytes \<Rightarrow> size_result"
  fr_read :: "bytes \<Rightarrow> frame_result"

text \<open>A message takes at least one byte, and no more than there are.\<close>

definition frame_ok :: "framing \<Rightarrow> bool" where
  "frame_ok f \<longleftrightarrow> (\<forall>data msg used. fr_read f data = Frame_Message msg used \<longrightarrow> 0 < used \<and> used \<le> length data)"

text \<open>
  The test of the packet size: \<^verbatim>\<open>m_maxRecvPacketSize - prefixSize\<close> is computed in the
  64 bits of \<^verbatim>\<open>std::size_t\<close> and wraps when the prefix alone is longer.
\<close>

definition packet_too_large :: "nat \<Rightarrow> nat \<Rightarrow> nat \<Rightarrow> bool" where
  "packet_too_large maxRecv prefixSize remSize \<longleftrightarrow>
     0 < maxRecv \<and> (of_nat maxRecv - of_nat prefixSize :: 64 word) < of_nat remSize"

datatype process_result = Process_Consumed nat | Process_Broken reason_code

text \<open>
  The loop of \<^verbatim>\<open>processData\<close>: the rest of the data, the bytes consumed, and how it ends.
\<close>

fun process_loop ::
  "nat \<Rightarrow> build \<Rightarrow> framing \<Rightarrow> bytes \<Rightarrow> nat \<Rightarrow> client \<Rightarrow> process_result \<times> client" where
  "process_loop 0 b f data consumed cl = (Process_Consumed consumed, fault Fuel_Exhausted cl)"
| "process_loop (Suc n) b f data consumed cl =
     (if length data \<le> fr_idLen f then (Process_Consumed consumed, cl)
      else
        case fr_size f (drop (fr_idLen f) data) of
          Size_NotEnough \<Rightarrow> (Process_Consumed consumed, cl)
        | Size_Failed \<Rightarrow> (Process_Broken RC_ProtocolError, cl)
        | Size_Value remSize sizeLen \<Rightarrow>
            if packet_too_large (m_maxRecvPacketSize (m_sessionState cl)) (fr_idLen f + sizeLen) remSize
            then (Process_Broken RC_PacketTooLarge, cl)
            else
              (case fr_read f data of
                 Frame_NotEnough \<Rightarrow> (Process_Consumed consumed, cl)
               | Frame_Failed \<Rightarrow> (Process_Broken RC_ProtocolError, cl)
               | Frame_Message msg used \<Rightarrow>
                   process_loop n b f (drop used data) (consumed + used) (handle_message b msg cl)))"

text \<open>Every message takes a byte: one turn per byte is enough.\<close>

definition process_bytes :: "build \<Rightarrow> framing \<Rightarrow> bytes \<Rightarrow> client \<Rightarrow> process_result \<times> client" where
  "process_bytes b f data cl = process_loop (length data + 1) b f data 0 cl"

definition processData :: "build \<Rightarrow> framing \<Rightarrow> 32 word \<Rightarrow> bytes \<Rightarrow> client \<Rightarrow> nat \<times> client" where
  "processData b f elapsed data cl =
     (let cl1 = doApiEnter b elapsed cl in
      if m_networkDisconnected (m_clientState cl1) then (0, doApiExit cl1)
      else
        let (result, cl2) = process_bytes b f data cl1 in
        case result of
          Process_Consumed n \<Rightarrow> (n, doApiExit cl2)
        | Process_Broken reason \<Rightarrow>
            (length data,
             doApiExit (brokerDisconnected b BDR_ProtocolError St_ProtocolError None
               (sendDisconnectMsg b reason cl2))))"

section \<open>The other calls\<close>

definition notifyNetworkDisconnected :: "build \<Rightarrow> 32 word \<Rightarrow> client \<Rightarrow> client" where
  "notifyNetworkDisconnected b elapsed cl =
     (let cl1 = doApiEnter b elapsed cl;
          cl2 = on_client_state (\<lambda>s. s\<lparr>m_networkDisconnected := True\<rparr>) cl1 in
      if m_disconnecting (m_sessionState cl2) then doApiExit cl2
      else doApiExit (brokerDisconnected b BDR_ValuesLimit St_BrokerDisconnected None cl2))"

text \<open>The argument is \<^term>\<open>None\<close> for a value outside the enumeration.\<close>

definition setPublishOrdering :: "publish_ordering option \<Rightarrow> client \<Rightarrow> error_code \<times> client" where
  "setPublishOrdering value cl =
     (case value of
        None \<Rightarrow> (EC_BadParam, cl)
      | Some q \<Rightarrow> (EC_Success, cl\<lparr>m_configState := (m_configState cl)\<lparr>m_publishOrdering := q\<rparr>\<rparr>))"

text \<open>
  The setters of \<^verbatim>\<open>client/lib/templ/client.cpp.templ\<close> that change the configuration of the client.
  The timeout of all requests of a client cannot be set to 0, that of one request can.
\<close>

definition set_default_response_timeout :: "nat \<Rightarrow> client \<Rightarrow> error_code \<times> client" where
  "set_default_response_timeout ms cl =
     (if ms = 0 then (EC_BadParam, cl)
      else (EC_Success, cl\<lparr>m_configState := (m_configState cl)\<lparr>m_responseTimeoutMs := ms\<rparr>\<rparr>))"

definition set_verify_outgoing_topic_enabled :: "build \<Rightarrow> bool \<Rightarrow> client \<Rightarrow> error_code \<times> client" where
  "set_verify_outgoing_topic_enabled b enabled cl =
     (if HasTopicFormatVerification (b_config b)
      then (EC_Success, cl\<lparr>m_configState := (m_configState cl)\<lparr>m_verifyOutgoingTopic := enabled\<rparr>\<rparr>)
      else (EC_NotSupported, cl))"

definition set_verify_incoming_topic_enabled :: "build \<Rightarrow> bool \<Rightarrow> client \<Rightarrow> error_code \<times> client" where
  "set_verify_incoming_topic_enabled b enabled cl =
     (if HasTopicFormatVerification (b_config b)
      then (EC_Success, cl\<lparr>m_configState := (m_configState cl)\<lparr>m_verifyIncomingTopic := enabled\<rparr>\<rparr>)
      else (EC_NotSupported, cl))"

definition set_verify_incoming_msg_subscribed :: "build \<Rightarrow> bool \<Rightarrow> client \<Rightarrow> error_code \<times> client" where
  "set_verify_incoming_msg_subscribed b enabled cl =
     (if HasSubTopicVerification (b_config b)
      then (EC_Success, cl\<lparr>m_configState := (m_configState cl)\<lparr>m_verifySubFilter := enabled\<rparr>\<rparr>)
      else (EC_NotSupported, cl))"

datatype client_setting =
    Set_DefaultResponseTimeout nat | Set_VerifyOutgoingTopic bool | Set_VerifyIncomingTopic bool
  | Set_VerifyIncomingMsgSubscribed bool

fun change_setting :: "build \<Rightarrow> client_setting \<Rightarrow> client \<Rightarrow> error_code \<times> client" where
  "change_setting b (Set_DefaultResponseTimeout ms) cl = set_default_response_timeout ms cl"
| "change_setting b (Set_VerifyOutgoingTopic enabled) cl = set_verify_outgoing_topic_enabled b enabled cl"
| "change_setting b (Set_VerifyIncomingTopic enabled) cl = set_verify_incoming_topic_enabled b enabled cl"
| "change_setting b (Set_VerifyIncomingMsgSubscribed enabled) cl = set_verify_incoming_msg_subscribed b enabled cl"

lemmas setting_defs =
  set_default_response_timeout_def set_verify_outgoing_topic_enabled_def set_verify_incoming_topic_enabled_def
  set_verify_incoming_msg_subscribed_def

definition ClientImpl_destroy :: "build \<Rightarrow> client \<Rightarrow> client" where
  "ClientImpl_destroy b cl = terminateOps b St_Aborted AbortSendRecvOps cl"

text \<open>\<^verbatim>\<open>Op::setResponseTimeout\<close>, for the operations that have a response timer of their own.\<close>

fun setResponseTimeout :: "op_ref \<Rightarrow> nat \<Rightarrow> client \<Rightarrow> client" where
  "setResponseTimeout (Type_Connect, i) ms cl = upd_connect i (\<lambda>p. p\<lparr>hs_responseTimeoutMs := ms\<rparr>) cl"
| "setResponseTimeout (Type_Reauth, i) ms cl = upd_reauth i (\<lambda>p. p\<lparr>hs_responseTimeoutMs := ms\<rparr>) cl"
| "setResponseTimeout (Type_Subscribe, i) ms cl = upd_subscribe i (\<lambda>p. p\<lparr>sub_responseTimeoutMs := ms\<rparr>) cl"
| "setResponseTimeout (Type_Unsubscribe, i) ms cl = upd_unsubscribe i (\<lambda>p. p\<lparr>uns_responseTimeoutMs := ms\<rparr>) cl"
| "setResponseTimeout (Type_Send, i) ms cl = upd_send i (\<lambda>p. p\<lparr>so_responseTimeoutMs := ms\<rparr>) cl"
| "setResponseTimeout _ ms cl = cl"

section \<open>Configuring a prepared operation\<close>

datatype op_config =
    Connect_Basic connect_basic_config | Connect_Will connect_will_config
  | Connect_Extra connect_extra_config | Connect_Auth auth_config
  | Connect_UserProp "cstr option" "cstr option" | Connect_WillUserProp "cstr option" "cstr option"
  | Reauth_Auth auth_config | Reauth_UserProp "cstr option" "cstr option"
  | Subscribe_Topic subscribe_topic_config | Subscribe_SubId nat
  | Subscribe_UserProp "cstr option" "cstr option"
  | Unsubscribe_Topic "cstr option" | Unsubscribe_UserProp "cstr option" "cstr option"
  | Disconnect_Basic disconnect_config | Disconnect_UserProp "cstr option" "cstr option"
  | Publish_Basic publish_basic_config | Publish_Extra publish_extra_config
  | Publish_UserProp "cstr option" "cstr option" | Publish_ResendAttempts nat

text \<open>A call on the object behind a handle.\<close>

definition on_connect :: "op_id \<Rightarrow> (connect_op \<Rightarrow> error_code \<times> connect_op) \<Rightarrow> client \<Rightarrow> error_code \<times> client" where
  "on_connect i call cl =
     (case connect_op_at i cl of
        None \<Rightarrow> (EC_InternalError, fault Use_After_Free cl)
      | Some op \<Rightarrow> (fst (call op), upd_connect i (\<lambda>_. snd (call op)) cl))"

definition on_reauth :: "op_id \<Rightarrow> (reauth_op \<Rightarrow> error_code \<times> reauth_op) \<Rightarrow> client \<Rightarrow> error_code \<times> client" where
  "on_reauth i call cl =
     (case reauth_op_at i cl of
        None \<Rightarrow> (EC_InternalError, fault Use_After_Free cl)
      | Some op \<Rightarrow> (fst (call op), upd_reauth i (\<lambda>_. snd (call op)) cl))"

definition on_subscribe :: "op_id \<Rightarrow> (subscribe_op \<Rightarrow> error_code \<times> subscribe_op) \<Rightarrow> client \<Rightarrow> error_code \<times> client" where
  "on_subscribe i call cl =
     (case subscribe_op_at i cl of
        None \<Rightarrow> (EC_InternalError, fault Use_After_Free cl)
      | Some op \<Rightarrow> (fst (call op), upd_subscribe i (\<lambda>_. snd (call op)) cl))"

definition on_unsubscribe :: "op_id \<Rightarrow> (unsubscribe_op \<Rightarrow> error_code \<times> unsubscribe_op) \<Rightarrow> client \<Rightarrow> error_code \<times> client" where
  "on_unsubscribe i call cl =
     (case unsubscribe_op_at i cl of
        None \<Rightarrow> (EC_InternalError, fault Use_After_Free cl)
      | Some op \<Rightarrow> (fst (call op), upd_unsubscribe i (\<lambda>_. snd (call op)) cl))"

definition on_disconnect :: "op_id \<Rightarrow> (disconnect_op \<Rightarrow> error_code \<times> disconnect_op) \<Rightarrow> client \<Rightarrow> error_code \<times> client" where
  "on_disconnect i call cl =
     (case disconnect_op_at i cl of
        None \<Rightarrow> (EC_InternalError, fault Use_After_Free cl)
      | Some op \<Rightarrow> (fst (call op), upd_disconnect i (\<lambda>_. snd (call op)) cl))"

text \<open>The calls that work on the message alone.\<close>

definition connect_msg_call :: "(connect_msg \<Rightarrow> error_code \<times> connect_msg) \<Rightarrow> connect_op \<Rightarrow> error_code \<times> connect_op" where
  "connect_msg_call call op = (let (ec, m) = call (co_msg op) in (ec, op\<lparr>co_msg := m\<rparr>))"

definition subscribe_topic_call ::
  "build \<Rightarrow> client \<Rightarrow> subscribe_topic_config \<Rightarrow> subscribe_op \<Rightarrow> error_code \<times> subscribe_op" where
  "subscribe_topic_call b cl cfg op =
     (let (ec, v) = SubscribeOp_configTopic b (m_configState cl) (m_sessionState cl) cfg (sm_list (sub_msg op))
      in (ec, op\<lparr>sub_msg := (sub_msg op)\<lparr>sm_list := v\<rparr>\<rparr>))"

definition subscribe_extra_call :: "build \<Rightarrow> client \<Rightarrow> nat \<Rightarrow> subscribe_op \<Rightarrow> error_code \<times> subscribe_op" where
  "subscribe_extra_call b cl subId op =
     (let (ec, ps) = SubscribeOp_configExtra b (m_sessionState cl) subId (sm_props (sub_msg op))
      in (ec, op\<lparr>sub_msg := (sub_msg op)\<lparr>sm_props := ps\<rparr>\<rparr>))"

definition unsubscribe_topic_call ::
  "build \<Rightarrow> client \<Rightarrow> cstr option \<Rightarrow> unsubscribe_op \<Rightarrow> error_code \<times> unsubscribe_op" where
  "unsubscribe_topic_call b cl topic op =
     (let (ec, v) = UnsubscribeOp_configTopic b (m_configState cl) (m_sessionState cl) (m_subFilters cl) topic
                      (um_list (uns_msg op))
      in (ec, op\<lparr>uns_msg := (uns_msg op)\<lparr>um_list := v\<rparr>\<rparr>))"

fun configure :: "build \<Rightarrow> op_config \<Rightarrow> op_id \<Rightarrow> client \<Rightarrow> error_code \<times> client" where
  "configure b (Connect_Basic cfg) i cl =
     on_connect i (connect_msg_call
       (ConnectOp_configBasic (m_configState cl) (m_firstConnect (m_clientState cl)) cfg)) cl"
| "configure b (Connect_Will cfg) i cl =
     on_connect i (connect_msg_call (ConnectOp_configWill b (m_configState cl) cfg)) cl"
| "configure b (Connect_Extra cfg) i cl = ConnectOp_configExtra b cfg i cl"
| "configure b (Connect_Auth cfg) i cl = on_connect i (ConnectOp_configAuth b cfg) cl"
| "configure b (Connect_UserProp k v) i cl = on_connect i (connect_msg_call (ConnectOp_addUserProp b k v)) cl"
| "configure b (Connect_WillUserProp k v) i cl =
     on_connect i (connect_msg_call (ConnectOp_addWillUserProp b k v)) cl"
| "configure b (Reauth_Auth cfg) i cl = on_reauth i (ReauthOp_configAuth b (m_sessionState cl) cfg) cl"
| "configure b (Reauth_UserProp k v) i cl = on_reauth i (ReauthOp_addUserProp b k v) cl"
| "configure b (Subscribe_Topic cfg) i cl = on_subscribe i (subscribe_topic_call b cl cfg) cl"
| "configure b (Subscribe_SubId n) i cl = on_subscribe i (subscribe_extra_call b cl n) cl"
| "configure b (Subscribe_UserProp k v) i cl = on_subscribe i (SubscribeOp_addUserProp b k v) cl"
| "configure b (Unsubscribe_Topic topic) i cl = on_unsubscribe i (unsubscribe_topic_call b cl topic) cl"
| "configure b (Unsubscribe_UserProp k v) i cl = on_unsubscribe i (UnsubscribeOp_addUserProp b k v) cl"
| "configure b (Disconnect_Basic cfg) i cl = on_disconnect i (DisconnectOp_configBasic b (m_sessionState cl) cfg) cl"
| "configure b (Disconnect_UserProp k v) i cl = on_disconnect i (DisconnectOp_addUserProp b k v) cl"
| "configure b (Publish_Basic cfg) i cl = configBasic b cfg i cl"
| "configure b (Publish_Extra cfg) i cl = configExtra b cfg i cl"
| "configure b (Publish_UserProp k v) i cl = SendOp_addUserProp b k v i cl"
| "configure b (Publish_ResendAttempts n) i cl = setResendAttempts n i cl"

text \<open>The configuration calls change the object they are called on, and never its address.\<close>

lemma config_ids:
  "hs_id (snd (connect_msg_call call c)) = hs_id c" "hs_id (snd (ConnectOp_configAuth b ac c)) = hs_id c"
  "hs_id (snd (ReauthOp_configAuth b ss ac r)) = hs_id r" "hs_id (snd (ReauthOp_addUserProp b k v r)) = hs_id r"
  "sub_id (snd (subscribe_topic_call b cl stc s)) = sub_id s" "sub_id (snd (subscribe_extra_call b cl n s)) = sub_id s"
  "sub_id (snd (SubscribeOp_addUserProp b k v s)) = sub_id s"
  "uns_id (snd (unsubscribe_topic_call b cl t u)) = uns_id u" "uns_id (snd (UnsubscribeOp_addUserProp b k v u)) = uns_id u"
  "do_id (snd (DisconnectOp_configBasic b ss dc d)) = do_id d" "do_id (snd (DisconnectOp_addUserProp b k v d)) = do_id d"
  by (simp_all add: connect_msg_call_def ReauthOp_configAuth_def ReauthOp_addUserProp_def subscribe_topic_call_def
      subscribe_extra_call_def SubscribeOp_addUserProp_def unsubscribe_topic_call_def UnsubscribeOp_addUserProp_def
      DisconnectOp_configBasic_def DisconnectOp_addUserProp_def split_beta Let_def)
     (simp add: ConnectOp_configAuth_def split_beta Let_def split: option.split)

lemma on_calls_ok:
  assumes ok: "client_ok cl"
  shows "(\<And>p. hs_id (snd (c p)) = hs_id p) \<Longrightarrow> stays_ok {Use_After_Free} (snd (on_connect i c cl)) cl"
    and "(\<And>p. hs_id (snd (r p)) = hs_id p) \<Longrightarrow> stays_ok {Use_After_Free} (snd (on_reauth i r cl)) cl"
    and "(\<And>p. sub_id (snd (s p)) = sub_id p) \<Longrightarrow> stays_ok {Use_After_Free} (snd (on_subscribe i s cl)) cl"
    and "(\<And>p. uns_id (snd (u p)) = uns_id p) \<Longrightarrow> stays_ok {Use_After_Free} (snd (on_unsubscribe i u cl)) cl"
    and "(\<And>p. do_id (snd (d p)) = do_id p) \<Longrightarrow> stays_ok {Use_After_Free} (snd (on_disconnect i d cl)) cl"
proof -
  have f: "stays_ok {Use_After_Free} (fault Use_After_Free cl) cl" by (simp add: stays_ok_fault ok)
  have e: "stays_ok {Use_After_Free} x cl" if "same_core x cl" "same_outer x cl" for x
    by (rule stays_ok_step [OF step_ok_effect_refl [OF ok that]])
  show "(\<And>p. hs_id (snd (c p)) = hs_id p) \<Longrightarrow> stays_ok {Use_After_Free} (snd (on_connect i c cl)) cl"
    using f by (auto simp: on_connect_def connect_op_at_def split: option.split dest!: op_at_in
        intro!: e) (simp add: same_core_def live_ids_def upd_connect_def upd_op_def split: op_type.split)
  show "(\<And>p. hs_id (snd (r p)) = hs_id p) \<Longrightarrow> stays_ok {Use_After_Free} (snd (on_reauth i r cl)) cl"
    using f by (auto simp: on_reauth_def reauth_op_at_def split: option.split dest!: op_at_in
        intro!: e) (simp add: same_core_def live_ids_def upd_reauth_def upd_op_def split: op_type.split)
  show "(\<And>p. sub_id (snd (s p)) = sub_id p) \<Longrightarrow> stays_ok {Use_After_Free} (snd (on_subscribe i s cl)) cl"
    using f by (auto simp: on_subscribe_def subscribe_op_at_def split: option.split dest!: op_at_in
        intro!: e) (simp add: same_core_def live_ids_def upd_subscribe_def upd_op_def split: op_type.split)
  show "(\<And>p. uns_id (snd (u p)) = uns_id p) \<Longrightarrow> stays_ok {Use_After_Free} (snd (on_unsubscribe i u cl)) cl"
    using f by (auto simp: on_unsubscribe_def unsubscribe_op_at_def split: option.split dest!: op_at_in
        intro!: e) (simp add: same_core_def live_ids_def upd_unsubscribe_def upd_op_def split: op_type.split)
  show "(\<And>p. do_id (snd (d p)) = do_id p) \<Longrightarrow> stays_ok {Use_After_Free} (snd (on_disconnect i d cl)) cl"
    using f by (auto simp: on_disconnect_def disconnect_op_at_def split: option.split dest!: op_at_in
        intro!: e) (simp add: same_core_def live_ids_def upd_disconnect_def upd_op_def split: op_type.split)
qed

lemma stays_ok_snd_if:
  "stays_ok F (snd x) c \<Longrightarrow> stays_ok F (snd y) c \<Longrightarrow> stays_ok F (snd (if p then x else y)) c"
  by simp

lemma stays_ok_snd_case:
  "stays_ok F (snd x) c \<Longrightarrow> (\<And>v. stays_ok F (snd (y v)) c) \<Longrightarrow>
     stays_ok F (snd (case o' of None \<Rightarrow> x | Some v \<Rightarrow> y v)) c"
  by (cases o') simp_all

lemma upd_send_step:
  assumes "step_ok c cl" and "\<And>p. so_id (f p) = so_id p" "\<And>p. so_published (f p) = so_published p"
    "\<And>p. so_paused (f p) = so_paused p"
  shows "step_ok (upd_send i f c) cl"
  by (rule step_ok_effect [OF assms(1)]) (simp_all add: same_core_upd_send assms(2-4))

lemma publish_configs_ok:
  assumes ok: "client_ok cl"
  shows "stays_ok {Use_After_Free} (snd (configBasic b bc i cl)) cl"
    and "stays_ok {Use_After_Free} (snd (configExtra b xc i cl)) cl"
    and "stays_ok {Use_After_Free} (snd (SendOp_addUserProp b k v i cl)) cl"
    and "stays_ok {Use_After_Free} (snd (setResendAttempts n i cl)) cl"
proof -
  note r = step_ok_refl [OF ok]
  have s: "step_ok (set_pub_props i ps cl) cl" for ps
    unfolding set_pub_props_def by (rule upd_send_step [OF r]) simp_all
  have f: "stays_ok {Use_After_Free} (fault Use_After_Free cl) cl" by (simp add: stays_ok_fault ok)
  show "stays_ok {Use_After_Free} (snd (configExtra b xc i cl)) cl"
    "stays_ok {Use_After_Free} (snd (SendOp_addUserProp b k v i cl)) cl"
    using f stays_ok_step [OF s] by (simp_all add: configExtra_def SendOp_addUserProp_def split_beta split: option.split)
  have "step_ok (upd_send i (\<lambda>p. p\<lparr>so_totalSendAttempts := n\<rparr>) cl) cl" by (rule upd_send_step [OF r]) simp_all
  then show "stays_ok {Use_After_Free} (snd (setResendAttempts n i cl)) cl"
    using r by (simp add: setResendAttempts_def stays_ok_step)
  have "step_ok (on_client_state (\<lambda>s. s\<lparr>m_sendTopicAliases := aliases\<rparr>) cl) cl" for aliases
    by (rule step_ok_effect_refl [OF ok]) (simp_all add: same_core_client_state)
  then have a: "step_ok (upd_send i (\<lambda>p. p\<lparr>so_pubMsg := (so_pubMsg p)\<lparr>pm_retain := q, pm_qos := w\<rparr>\<rparr>)
      (on_client_state (\<lambda>s. s\<lparr>m_sendTopicAliases := aliases\<rparr>) cl)) cl" for aliases q w
    by (rule upd_send_step) simp_all
  have t: "step_ok (if m then upd_send i (\<lambda>p. p\<lparr>so_pubMsg := (so_pubMsg p)\<lparr>pm_topic := topic\<rparr>, so_topicConfigured := True\<rparr>) c
      else c) cl" if "step_ok c cl" for c m topic
    using that upd_send_step [OF that] by simp
  have al: "step_ok (if m then upd_send i (\<lambda>p. p\<lparr>so_pubMsg := (so_pubMsg p)\<lparr>pm_props := pm_props (so_pubMsg p) @ [x]\<rparr>,
      so_topicConfigured := True\<rparr>) c else c) cl" if "step_ok c cl" for c m x
    using that upd_send_step [OF that] by simp
  have pl: "step_ok (if m then upd_send i (\<lambda>p. p\<lparr>so_pubMsg := (so_pubMsg p)\<lparr>pm_payload := x\<rparr>\<rparr>) c else c) cl"
    if "step_ok c cl" for c m x
    using that upd_send_step [OF that] by simp
  have rg: "step_ok (upd_send i (\<lambda>p. p\<lparr>so_registeredAlias := x\<rparr>) c) cl" if "step_ok c cl" for c x
    using upd_send_step [OF that] by simp
  have fc: "stays_ok {Use_After_Free} (fault Use_After_Free c) cl" if "step_ok c cl" for c
    by (rule stays_after_step [OF that]) (simp add: stays_ok_fault)
  show "stays_ok {Use_After_Free} (snd (configBasic b bc i cl)) cl"
  proof (cases "pb_topic bc")
    case None
    then show ?thesis by (simp add: configBasic_def Let_def stays_ok_refl [OF ok])
  next
    case (Some topic)
    show ?thesis
    proof (cases "select_alias b (pb_topicAliasPref bc) topic (m_sendTopicAliases (m_clientState cl))")
      case (Inl ec)
      then show ?thesis using stays_ok_refl [OF ok] by (simp add: configBasic_def Let_def Some)
    next
      case (Inr x)
      obtain k must tab where x: "x = (k, must, tab)" by (metis prod_cases3)
      show ?thesis
        unfolding configBasic_def Let_def Some option.case Inr x sum.case prod.case
        by (intro stays_ok_snd_if stays_ok_snd_case; simp only: snd_conv;
            intro stays_ok_refl [OF ok] fc stays_ok_step rg pl al t a)
    qed
  qed
qed

section \<open>Processing the bytes of the broker\<close>

definition message_faults :: "fault set" where
  "message_faults = {Out_Of_Range, Null_Deref, Iterator_Invalidated}"

definition api_faults :: "fault set" where
  "api_faults = {Use_After_Free, Out_Of_Range, Null_Deref, Iterator_Invalidated}"

lemma faults_subset: "message_faults \<subseteq> api_faults" "{Use_After_Free} \<subseteq> api_faults" "{} \<subseteq> api_faults"
  by (auto simp: message_faults_def api_faults_def)

lemma process_loop_ok:
  assumes "frame_ok f" and "length data < n" and "client_ok cl"
  shows "stays_ok message_faults (snd (process_loop n b f data k cl)) cl"
    and "case fst (process_loop n b f data k cl) of
           Process_Consumed m \<Rightarrow> k \<le> m \<and> m \<le> k + length data | Process_Broken r \<Rightarrow> True"
proof -
  have "stays_ok message_faults (snd (process_loop n b f data k cl)) cl \<and>
    (case fst (process_loop n b f data k cl) of
       Process_Consumed m \<Rightarrow> k \<le> m \<and> m \<le> k + length data | Process_Broken r \<Rightarrow> True)"
    using assms
  proof (induction n arbitrary: data k cl)
    case (Suc n)
    note r = stays_ok_refl [OF Suc.prems(3), of message_faults]
    show ?case
    proof (cases "fr_read f data")
      case (Frame_Message msg used)
      have u: "0 < used" "used \<le> length data" using Suc.prems(1) Frame_Message by (auto simp: frame_ok_def)
      have h: "stays_ok message_faults (handle_message b msg cl) cl"
        unfolding message_faults_def by (rule handle_message_ok [OF Suc.prems(3)])
      have "length (drop used data) < n" using u Suc.prems(2) by simp
      from Suc.IH [OF Suc.prems(1) this stays_ok_ok [OF h], of "k + used"]
      show ?thesis
        using r h u Frame_Message
        by (auto intro: stays_ok_trans split: size_result.split process_result.split)
    qed (use r in \<open>auto split: size_result.split\<close>)
  qed simp
  then show "stays_ok message_faults (snd (process_loop n b f data k cl)) cl"
    "case fst (process_loop n b f data k cl) of
       Process_Consumed m \<Rightarrow> k \<le> m \<and> m \<le> k + length data | Process_Broken r \<Rightarrow> True"
    by blast+
qed

lemma process_bytes_ok:
  assumes "frame_ok f" and "client_ok cl"
  shows "stays_ok message_faults (snd (process_bytes b f data cl)) cl"
    and "fst (process_bytes b f data cl) = Process_Consumed m \<Longrightarrow> m \<le> length data"
  using process_loop_ok [OF assms(1) _ assms(2), where b = b and k = 0 and data = data and n = "length data + 1"]
  by (auto simp: process_bytes_def)

lemma sendDisconnectMsg_ok: "client_ok cl \<Longrightarrow> step_ok (sendDisconnectMsg b reason cl) cl"
  unfolding sendDisconnectMsg_def by (rule sent_ok [OF step_ok_refl])

lemma stays_mono_trans: "stays_ok F a b \<Longrightarrow> F \<subseteq> G \<Longrightarrow> stays_ok G b c \<Longrightarrow> stays_ok G a c"
  using stays_ok_mono stays_ok_trans by blast

lemma processData_ok:
  assumes f: "frame_ok f" and ok: "client_ok cl"
  shows "stays_ok api_faults (snd (processData b f elapsed data cl)) cl"
    and "fst (processData b f elapsed data cl) \<le> length data"
proof -
  let ?e = "doApiEnter b elapsed cl"
  have e: "stays_ok api_faults ?e cl" by (rule stays_ok_mono [OF doApiEnter_ok [OF ok]]) (rule faults_subset)
  let ?p = "snd (process_bytes b f data ?e)"
  have p: "stays_ok api_faults ?p cl"
    by (rule stays_mono_trans [OF process_bytes_ok(1) [OF f stays_ok_ok [OF e]] faults_subset(1) e])
  have x: "stays_ok api_faults (doApiExit c) cl" if "stays_ok api_faults c cl" for c
    by (rule stays_ok_trans [OF doApiExit_ok [OF stays_ok_ok [OF that]] that])
  have d: "stays_ok api_faults (sendDisconnectMsg b r ?p) cl" for r
    by (rule stays_ok_trans [OF stays_ok_step [OF sendDisconnectMsg_ok [OF stays_ok_ok [OF p]]] p])
  have "stays_ok api_faults (brokerDisconnected b BDR_ProtocolError St_ProtocolError None (sendDisconnectMsg b r ?p)) cl" for r
    by (rule stays_ok_trans [OF stays_ok_step [OF brokerDisconnected_ok(1) [OF stays_ok_ok [OF d]]] d])
  then show "stays_ok api_faults (snd (processData b f elapsed data cl)) cl"
    using x e p by (auto simp: processData_def Let_def split_beta split: process_result.split)
  show "fst (processData b f elapsed data cl) \<le> length data"
    using process_bytes_ok(2) [OF f stays_ok_ok [OF e]]
    by (auto simp: processData_def Let_def split_beta split: process_result.split)
qed

lemma notifyNetworkDisconnected_ok:
  assumes ok: "client_ok cl"
  shows "stays_ok api_faults (notifyNetworkDisconnected b elapsed cl) cl"
proof -
  let ?e = "doApiEnter b elapsed cl"
  let ?n = "on_client_state (\<lambda>s. s\<lparr>m_networkDisconnected := True\<rparr>) ?e"
  have e: "stays_ok api_faults ?e cl" by (rule stays_ok_mono [OF doApiEnter_ok [OF ok]]) (rule faults_subset)
  have n: "stays_ok api_faults ?n cl" by (rule stays_ok_effect [OF e]) (simp_all add: same_core_client_state)
  have x: "stays_ok api_faults (doApiExit c) cl" if "stays_ok api_faults c cl" for c
    by (rule stays_ok_trans [OF doApiExit_ok [OF stays_ok_ok [OF that]] that])
  have "stays_ok api_faults (brokerDisconnected b BDR_ValuesLimit St_BrokerDisconnected None ?n) cl"
    by (rule stays_ok_trans [OF stays_ok_step [OF brokerDisconnected_ok(1) [OF stays_ok_ok [OF n]]] n])
  then show ?thesis using x n by (simp add: notifyNetworkDisconnected_def Let_def)
qed

lemma setters_ok:
  assumes ok: "client_ok cl"
  shows "stays_ok F (snd (setPublishOrdering q cl)) cl"
    and "stays_ok F (snd (allocPubTopicAlias b topic n cl)) cl"
    and "stays_ok F (snd (freePubTopicAlias b topic cl)) cl"
    and "stays_ok F (setResponseTimeout ref ms cl) cl"
    and "stays_ok F (ClientImpl_destroy b cl) cl"
    and "stays_ok F (snd (change_setting b setting cl)) cl"
proof -
  note r = stays_ok_refl [OF ok]
  have "stays_ok F (cl\<lparr>m_configState := x\<rparr>) cl" for x
    by (rule client_ok_cong) (simp_all add: ok live_ids_def split: op_type.split)
  then show "stays_ok F (snd (setPublishOrdering q cl)) cl" "stays_ok F (snd (change_setting b setting cl)) cl"
    using r by (simp_all add: setPublishOrdering_def split: option.split) (cases setting; simp add: setting_defs)
  have a: "stays_ok F (on_client_state (\<lambda>s. s\<lparr>m_sendTopicAliases := x\<rparr>) cl) cl" for x
    by (rule stays_ok_effect [OF r]) (simp_all add: same_core_client_state)
  have "stays_ok F (set_alias_tables x cl) cl" for x
    unfolding set_alias_tables_def by (rule stays_ok_effect [OF a [of "fst x"]]) simp_all
  then show "stays_ok F (snd (allocPubTopicAlias b topic n cl)) cl"
    "stays_ok F (snd (freePubTopicAlias b topic cl)) cl"
    using r by (simp_all add: allocPubTopicAlias_def freePubTopicAlias_def Let_def split: option.split)
  have s: "step_ok (setResponseTimeout ref ms cl) cl"
    by (cases "(ref, ms, cl)" rule: setResponseTimeout.cases)
       (auto intro!: step_ok_effect_refl step_ok_refl ok upd_same_core same_core_upd_send)
  then show "stays_ok F (setResponseTimeout ref ms cl) cl" by (rule stays_ok_step)
  show "stays_ok F (ClientImpl_destroy b cl) cl"
    unfolding ClientImpl_destroy_def by (rule stays_ok_step [OF terminateOps_ok(1) [OF ok]])
qed

section \<open>The client as a machine\<close>

datatype api_call =
    Call_Tick "32 word" | Call_ProcessData bytes | Call_NetworkDisconnected
  | Call_Prepare prepare_call | Call_Configure op_type op_id op_config
  | Call_Send op_ref bool | Call_Cancel op_ref | Call_ResponseTimeout op_ref nat
  | Call_PublishOrdering "publish_ordering option"
  | Call_Setting client_setting
  | Call_AllocAlias "cstr option" nat | Call_FreeAlias "cstr option"

text \<open>The operation a configuration is for.\<close>

fun config_type :: "op_config \<Rightarrow> op_type" where
  "config_type (Connect_Basic _) = Type_Connect" | "config_type (Connect_Will _) = Type_Connect"
| "config_type (Connect_Extra _) = Type_Connect" | "config_type (Connect_Auth _) = Type_Connect"
| "config_type (Connect_UserProp _ _) = Type_Connect" | "config_type (Connect_WillUserProp _ _) = Type_Connect"
| "config_type (Reauth_Auth _) = Type_Reauth" | "config_type (Reauth_UserProp _ _) = Type_Reauth"
| "config_type (Subscribe_Topic _) = Type_Subscribe" | "config_type (Subscribe_SubId _) = Type_Subscribe"
| "config_type (Subscribe_UserProp _ _) = Type_Subscribe"
| "config_type (Unsubscribe_Topic _) = Type_Unsubscribe" | "config_type (Unsubscribe_UserProp _ _) = Type_Unsubscribe"
| "config_type (Disconnect_Basic _) = Type_Disconnect" | "config_type (Disconnect_UserProp _ _) = Type_Disconnect"
| "config_type (Publish_Basic _) = Type_Send" | "config_type (Publish_Extra _) = Type_Send"
| "config_type (Publish_UserProp _ _) = Type_Send" | "config_type (Publish_ResendAttempts _) = Type_Send"

text \<open>
  \<^verbatim>\<open>send\<close> and \<^verbatim>\<open>cancel\<close> of the operation behind a handle; there are no handles to the
  operations of the last cases.
\<close>

fun send_call :: "build \<Rightarrow> 32 word \<Rightarrow> bool \<Rightarrow> op_ref \<Rightarrow> client \<Rightarrow> error_code \<times> client" where
  "send_call b elapsed cb (Type_Connect, i) cl = ConnectOp_send b elapsed cb i cl"
| "send_call b elapsed cb (Type_Disconnect, i) cl = DisconnectOp_send b elapsed i cl"
| "send_call b elapsed cb (Type_Subscribe, i) cl = SubscribeOp_send b elapsed cb i cl"
| "send_call b elapsed cb (Type_Unsubscribe, i) cl = UnsubscribeOp_send b elapsed cb i cl"
| "send_call b elapsed cb (Type_Send, i) cl = SendOp_send b elapsed cb i cl"
| "send_call b elapsed cb (Type_Reauth, i) cl = ReauthOp_send b elapsed cb i cl"
| "send_call b elapsed cb _ cl = (EC_InternalError, cl)"

fun cancel_call :: "build \<Rightarrow> op_ref \<Rightarrow> client \<Rightarrow> error_code \<times> client" where
  "cancel_call b (Type_Connect, i) cl = ConnectOp_cancel b i cl"
| "cancel_call b (Type_Disconnect, i) cl = DisconnectOp_cancel b i cl"
| "cancel_call b (Type_Subscribe, i) cl = SubscribeOp_cancel b i cl"
| "cancel_call b (Type_Unsubscribe, i) cl = UnsubscribeOp_cancel b i cl"
| "cancel_call b (Type_Send, i) cl = SendOp_cancel b i cl"
| "cancel_call b (Type_Reauth, i) cl = ReauthOp_cancel b i cl"
| "cancel_call b _ cl = (EC_InternalError, cl)"

fun api_exec :: "build \<Rightarrow> framing \<Rightarrow> 32 word \<Rightarrow> api_call \<Rightarrow> client \<Rightarrow> client" where
  "api_exec b f elapsed (Call_Tick ms) cl = ClientImpl_tick b ms cl"
| "api_exec b f elapsed (Call_ProcessData data) cl = snd (processData b f elapsed data cl)"
| "api_exec b f elapsed Call_NetworkDisconnected cl = notifyNetworkDisconnected b elapsed cl"
| "api_exec b f elapsed (Call_Prepare p) cl = snd (prepare b elapsed p cl)"
| "api_exec b f elapsed (Call_Configure t i cfg) cl = snd (configure b cfg i cl)"
| "api_exec b f elapsed (Call_Send ref cb) cl = snd (send_call b elapsed cb ref cl)"
| "api_exec b f elapsed (Call_Cancel ref) cl = snd (cancel_call b ref cl)"
| "api_exec b f elapsed (Call_ResponseTimeout ref ms) cl = setResponseTimeout ref ms cl"
| "api_exec b f elapsed (Call_PublishOrdering q) cl = snd (setPublishOrdering q cl)"
| "api_exec b f elapsed (Call_Setting setting) cl = snd (change_setting b setting cl)"
| "api_exec b f elapsed (Call_AllocAlias topic n) cl = snd (allocPubTopicAlias b topic n cl)"
| "api_exec b f elapsed (Call_FreeAlias topic) cl = snd (freePubTopicAlias b topic cl)"

text \<open>
  The contract of the documentation: handles are valid, and a publish is sent once.
\<close>

fun call_allowed :: "api_call \<Rightarrow> client \<Rightarrow> bool" where
  "call_allowed (Call_Send (t, i) cb) cl \<longleftrightarrow>
     Some (t, i) \<in> set (m_ops cl) \<and>
     (t = Type_Send \<longrightarrow> (case send_op_at i cl of None \<Rightarrow> False | Some op \<Rightarrow> \<not> so_published op \<and> \<not> so_paused op))"
| "call_allowed (Call_Cancel ref) cl \<longleftrightarrow> Some ref \<in> set (m_ops cl)"
| "call_allowed (Call_Configure t i cfg) cl \<longleftrightarrow> Some (t, i) \<in> set (m_ops cl) \<and> t = config_type cfg"
| "call_allowed (Call_ResponseTimeout ref ms) cl \<longleftrightarrow> Some ref \<in> set (m_ops cl)"
| "call_allowed _ cl \<longleftrightarrow> True"

text \<open>A call against the contract is not made.\<close>

definition api_step :: "build \<Rightarrow> framing \<Rightarrow> client \<Rightarrow> 32 word \<times> api_call \<Rightarrow> client" where
  "api_step b f cl ev = (if call_allowed (snd ev) cl then api_exec b f (fst ev) (snd ev) cl else cl)"

section \<open>Every call keeps the invariant\<close>

lemma connect_step_id:
  "(\<And>p. hs_id (remember p) = hs_id p) \<Longrightarrow> hs_id (snd (connect_step b given p remember r)) = hs_id (snd r)"
  by (simp add: connect_step_def connect_prop_def)

lemma configExtra_keeps_id:
  "hs_id (snd (configExtra_requests b cfg (configExtra_limits b cfg op))) = hs_id op"
proof -
  have f: "snd (fail_step bad r) = snd r" for bad and r :: "error_code \<times> connect_op"
    by (simp add: fail_step_def)
  show ?thesis unfolding configExtra_requests_def configExtra_limits_def Let_def by (simp add: connect_step_id f)
qed

lemma ConnectOp_configExtra_ok:
  assumes ok: "client_ok cl"
  shows "stays_ok {Use_After_Free} (snd (ConnectOp_configExtra b cfg i cl)) cl"
proof (cases "connect_op_at i cl")
  case None
  then show ?thesis using stays_ok_fault [OF ok] by (simp add: ConnectOp_configExtra_def)
next
  case (Some op)
  have i: "hs_id op = i" using op_at_in [OF Some [unfolded connect_op_at_def]] by simp
  let ?op' = "snd (configExtra_requests b cfg (configExtra_limits b cfg op))"
  have u: "same_core (upd_connect i (\<lambda>_. ?op') c) c" for c
    using i configExtra_keeps_id [of b cfg op]
    by (simp add: same_core_def live_ids_def upd_connect_def upd_op_def split: op_type.split)
  have "step_ok (upd_connect i (\<lambda>_. ?op') c) cl" if "step_ok c cl" for c
    by (rule step_ok_effect [OF that u]) simp
  moreover have "step_ok (on_session_state k cl) cl" for k by (rule step_ok_effect_refl [OF ok]) simp_all
  ultimately show ?thesis
    using step_ok_refl [OF ok] by (simp add: ConnectOp_configExtra_def Some Let_def split_beta stays_ok_step)
qed

lemma configure_ok:
  assumes ok: "client_ok cl"
  shows "stays_ok {Use_After_Free} (snd (configure b cfg i cl)) cl"
  by (cases cfg; simp only: configure.simps;
      rule publish_configs_ok [OF ok] ConnectOp_configExtra_ok [OF ok]
        on_calls_ok(1) [OF ok config_ids(1)] on_calls_ok(1) [OF ok config_ids(2)]
        on_calls_ok(2) [OF ok config_ids(3)] on_calls_ok(2) [OF ok config_ids(4)]
        on_calls_ok(3) [OF ok config_ids(5)] on_calls_ok(3) [OF ok config_ids(6)]
        on_calls_ok(3) [OF ok config_ids(7)] on_calls_ok(4) [OF ok config_ids(8)]
        on_calls_ok(4) [OF ok config_ids(9)] on_calls_ok(5) [OF ok config_ids(10)]
        on_calls_ok(5) [OF ok config_ids(11)])

lemma handle_found:
  assumes ok: "client_ok cl" and live: "Some (t, i) \<in> set (m_ops cl)"
  shows "t = Type_Connect \<Longrightarrow> \<exists>op. connect_op_at i cl = Some op"
    and "t = Type_Disconnect \<Longrightarrow> \<exists>op. disconnect_op_at i cl = Some op"
    and "t = Type_Subscribe \<Longrightarrow> \<exists>op. subscribe_op_at i cl = Some op"
    and "t = Type_Unsubscribe \<Longrightarrow> \<exists>op. unsubscribe_op_at i cl = Some op"
    and "t = Type_Send \<Longrightarrow> \<exists>op. send_op_at i cl = Some op"
    and "t = Type_Reauth \<Longrightarrow> \<exists>op. reauth_op_at i cl = Some op"
proof -
  have i: "i \<in> set (live_ids t cl)" using ok live by (simp add: client_ok_def registry_ok_def)
  show "t = Type_Connect \<Longrightarrow> \<exists>op. connect_op_at i cl = Some op"
    "t = Type_Disconnect \<Longrightarrow> \<exists>op. disconnect_op_at i cl = Some op"
    "t = Type_Subscribe \<Longrightarrow> \<exists>op. subscribe_op_at i cl = Some op"
    "t = Type_Unsubscribe \<Longrightarrow> \<exists>op. unsubscribe_op_at i cl = Some op"
    "t = Type_Send \<Longrightarrow> \<exists>op. send_op_at i cl = Some op"
    "t = Type_Reauth \<Longrightarrow> \<exists>op. reauth_op_at i cl = Some op"
    using i op_at_live [of i hs_id "m_connectOps cl"] op_at_live [of i do_id "m_disconnectOps cl"]
      op_at_live [of i sub_id "m_subscribeOps cl"] op_at_live [of i uns_id "m_unsubscribeOps cl"]
      op_at_live [of i so_id "m_sendOps cl"] op_at_live [of i hs_id "m_reauthOps cl"]
    by (auto simp: live_ids_def connect_op_at_def disconnect_op_at_def subscribe_op_at_def
        unsubscribe_op_at_def send_op_at_def reauth_op_at_def)
qed

lemma send_call_ok:
  assumes ok: "client_ok cl" and al: "call_allowed (Call_Send (t, i) cb) cl"
  shows "keeps_ok {Use_After_Free} (snd (send_call b elapsed cb (t, i) cl)) cl"
proof -
  have live: "Some (t, i) \<in> set (m_ops cl)" using al by simp
  note f = handle_found [OF ok live]
  show ?thesis
  proof (cases t)
    case Type_Send
    then show ?thesis using al frees_ok_keeps [OF SendOp_send_ok [OF ok]] by (auto split: option.splits)
  qed (use f frees_ok_keeps [OF ConnectOp_send_ok [OF ok]]
      frees_ok_keeps [OF DisconnectOp_send_ok [OF ok]] frees_ok_keeps [OF SubscribeOp_send_ok [OF ok]]
      frees_ok_keeps [OF UnsubscribeOp_send_ok [OF ok]] frees_ok_keeps [OF ReauthOp_send_ok [OF ok]] keeps_ok_refl [OF ok] in auto)
qed

lemma cancel_call_ok:
  assumes ok: "client_ok cl" and live: "Some (t, i) \<in> set (m_ops cl)"
  shows "keeps_ok {Use_After_Free} (snd (cancel_call b (t, i) cl)) cl"
  using handle_found [OF ok live] frees_ok_keeps [OF cancels_ok(1) [OF ok]]
    frees_ok_keeps [OF cancels_ok(2) [OF ok]] frees_ok_keeps [OF cancels_ok(3) [OF ok]]
    frees_ok_keeps [OF cancels_ok(4) [OF ok]] frees_ok_keeps [OF cancels_ok(5) [OF ok]]
    frees_ok_keeps [OF SendOp_cancel_ok [OF ok]] keeps_ok_refl [OF ok]
  by (cases t) auto

lemma api_step_ok:
  assumes f: "frame_ok f" and ok: "client_ok cl"
  shows "keeps_ok api_faults (api_step b f cl ev) cl"
proof (cases "call_allowed (snd ev) cl")
  case False
  then show ?thesis using keeps_ok_refl [OF ok] by (simp add: api_step_def)
next
  case True
  have m: "keeps_ok api_faults c cl" if "keeps_ok {Use_After_Free} c cl" for c
    by (rule keeps_ok_mono [OF that faults_subset(2)])
  have s: "keeps_ok api_faults c cl" if "stays_ok {Use_After_Free} c cl" for c
    by (rule m [OF stays_ok_keeps [OF that]])
  have "keeps_ok api_faults (api_exec b f (fst ev) (snd ev) cl) cl"
  proof (cases "snd ev")
    case (Call_Send ref cb)
    then show ?thesis using True m [OF send_call_ok [OF ok]] by (cases ref) auto
  next
    case (Call_Cancel ref)
    then show ?thesis using True m [OF cancel_call_ok [OF ok]] by (cases ref) auto
  qed (simp_all add: s [OF ClientImpl_tick_ok [OF ok]] stays_ok_keeps [OF processData_ok(1) [OF f ok]]
      stays_ok_keeps [OF notifyNetworkDisconnected_ok [OF ok]] m [OF prepare_ok [OF ok]]
      s [OF configure_ok [OF ok]] stays_ok_keeps [OF setters_ok(1) [OF ok]] stays_ok_keeps [OF setters_ok(2) [OF ok]]
      stays_ok_keeps [OF setters_ok(3) [OF ok]] stays_ok_keeps [OF setters_ok(4) [OF ok]]
      stays_ok_keeps [OF setters_ok(6) [OF ok]])
  with True show ?thesis by (simp add: api_step_def)
qed

text \<open>The invariant of the machine, for frames that obey their law.\<close>

definition api_ok :: "framing \<Rightarrow> client \<Rightarrow> bool" where
  "api_ok f cl \<longleftrightarrow>
     (frame_ok f \<longrightarrow> client_ok cl \<and> (cl_fault cl = None \<or> (\<exists>x\<in>api_faults. cl_fault cl = Some x)))"

interpretation api: step_invariant "api_step b f" "api_ok f" for b :: build and f :: framing
proof
  fix cl ev
  assume "api_ok f cl"
  then show "api_ok f (api_step b f cl ev)"
    using api_step_ok [of f cl b ev] by (fastforce simp: api_ok_def keeps_ok_def)
qed

lemma with_callbacks_ok: "client_ok (with_callbacks timers (ClientImpl_init b))"
proof -
  have "same_core (with_callbacks timers (ClientImpl_init b)) (ClientImpl_init b)"
    by (simp add: same_core_def with_callbacks_def live_ids_def split: op_type.split)
  then show ?thesis using same_core_ok client_ok_init by blast
qed

section \<open>The preparation lock over runs\<close>

text \<open>The calls that release the lock, if any: those that send or cancel an operation.\<close>

fun settles_operation :: "api_call \<Rightarrow> bool" where
  "settles_operation (Call_Send _ _) = True"
| "settles_operation (Call_Cancel _) = True"
| "settles_operation _ = False"

text \<open>
  No other call releases it, nor does one of these on the operations the client starts by itself, to
  which there are no handles.
\<close>

lemma locked_call_ok:
  assumes f: "frame_ok f" and ok: "client_ok cl" and l: "m_preparationLocked cl"
    and q: "settles_operation (snd ev) \<Longrightarrow> \<forall>t i. Some (t, i) \<in> set (m_ops cl) \<longrightarrow> t \<in> {Type_KeepAlive, Type_Recv}"
  shows "stays_ok api_faults (api_step b f cl ev) cl"
proof (cases "call_allowed (snd ev) cl")
  case False
  then show ?thesis using stays_ok_refl [OF ok] by (simp add: api_step_def)
next
  case True
  have s: "stays_ok api_faults c cl" if "stays_ok {Use_After_Free} c cl" for c
    by (rule stays_ok_mono [OF that faults_subset(2)])
  have "stays_ok api_faults (api_exec b f (fst ev) (snd ev) cl) cl"
  proof (cases "snd ev")
    case (Call_Prepare p)
    obtain ec where "fst (prepare b (fst ev) p cl) = Inl ec" using locked_prepare_fails [OF ok l] by blast
    then have "prepare b (fst ev) p cl = (Inl ec, snd (prepare b (fst ev) p cl))" by (simp add: prod_eq_iff)
    then show ?thesis using Call_Prepare s [OF prepare_refused [OF ok]] by simp
  next
    case (Call_Send ref cb)
    obtain t i where r: "ref = (t, i)" by (cases ref)
    then have "t \<in> {Type_KeepAlive, Type_Recv}" using True q Call_Send by auto
    then show ?thesis using Call_Send r stays_ok_refl [OF ok] by auto
  next
    case (Call_Cancel ref)
    obtain t i where r: "ref = (t, i)" by (cases ref)
    then have "t \<in> {Type_KeepAlive, Type_Recv}" using True q Call_Cancel by auto
    then show ?thesis using Call_Cancel r stays_ok_refl [OF ok] by auto
  qed (simp_all add: s [OF ClientImpl_tick_ok [OF ok]] processData_ok(1) [OF f ok] notifyNetworkDisconnected_ok [OF ok]
      s [OF configure_ok [OF ok]] setters_ok [OF ok])
  with True show ?thesis by (simp add: api_step_def)
qed

lemma locked_run_ok:
  assumes f: "frame_ok f"
  shows "client_ok cl \<Longrightarrow> m_preparationLocked cl \<Longrightarrow>
    (\<forall>ev\<in>set calls. \<not> settles_operation (snd ev)) \<or>
      (\<forall>t i. Some (t, i) \<in> set (m_ops cl) \<longrightarrow> t \<in> {Type_KeepAlive, Type_Recv}) \<Longrightarrow>
    stays_ok api_faults (foldl (api_step b f) cl calls) cl"
proof (induction calls arbitrary: cl)
  case Nil
  then show ?case by (simp add: stays_ok_refl)
next
  case (Cons ev calls)
  let ?c = "api_step b f cl ev"
  have c: "stays_ok api_faults ?c cl" by (rule locked_call_ok [OF f Cons.prems(1,2)]) (use Cons.prems(3) in auto)
  have g: "\<forall>t i. Some (t, i) \<in> set (m_ops ?c) \<longrightarrow> Some (t, i) \<in> set (m_ops cl) \<or> t \<in> {Type_KeepAlive, Type_Recv}"
    using c by (simp add: stays_ok_def grown_from_def)
  have "(\<forall>ev\<in>set calls. \<not> settles_operation (snd ev)) \<or>
      (\<forall>t i. Some (t, i) \<in> set (m_ops ?c) \<longrightarrow> t \<in> {Type_KeepAlive, Type_Recv})"
    using Cons.prems(3)
  proof (elim disjE)
    assume "\<forall>t i. Some (t, i) \<in> set (m_ops cl) \<longrightarrow> t \<in> {Type_KeepAlive, Type_Recv}"
    then show ?thesis using g by blast
  qed simp
  then have "stays_ok api_faults (foldl (api_step b f) ?c calls) ?c"
    using c Cons.prems(2) by (intro Cons.IH) (simp_all add: stays_ok_def)
  then show ?case using stays_ok_trans [OF _ c] by simp
qed

section \<open>Frames and messages\<close>

text \<open>
  An encoding of some messages that the framing reads back, and a client that does not limit the
  size of packets.
\<close>

definition frames_read_back :: "framing \<Rightarrow> (in_msg \<Rightarrow> bytes) \<Rightarrow> in_msg set \<Rightarrow> bool" where
  "frames_read_back f enc known \<longleftrightarrow>
     (\<forall>m\<in>known. \<forall>rest. fr_idLen f < length (enc m) \<and>
        (\<exists>s l. fr_size f (drop (fr_idLen f) (enc m @ rest)) = Size_Value s l) \<and>
        fr_read f (enc m @ rest) = Frame_Message m (length (enc m)))"

text \<open>What does not begin a whole message.\<close>

definition incomplete :: "framing \<Rightarrow> bytes \<Rightarrow> bool" where
  "incomplete f rest \<longleftrightarrow>
     length rest \<le> fr_idLen f \<or> fr_size f (drop (fr_idLen f) rest) = Size_NotEnough \<or>
     (\<exists>s l. fr_size f (drop (fr_idLen f) rest) = Size_Value s l) \<and> fr_read f rest = Frame_NotEnough"

definition no_size_limit :: "build \<Rightarrow> in_msg list \<Rightarrow> client \<Rightarrow> bool" where
  "no_size_limit b msgs cl \<longleftrightarrow>
     (\<forall>k\<le>length msgs. m_maxRecvPacketSize (m_sessionState (fold (handle_message b) (take k msgs) cl)) = 0)"

lemma no_size_limit_Cons:
  "no_size_limit b (m # msgs) cl \<Longrightarrow>
     m_maxRecvPacketSize (m_sessionState cl) = 0 \<and> no_size_limit b msgs (handle_message b m cl)"
  unfolding no_size_limit_def by (force dest: spec [of _ 0] intro: Suc_leI)

lemma process_loop_messages:
  assumes f: "frames_read_back f enc known" and r: "incomplete f rest"
  shows "set msgs \<subseteq> known \<Longrightarrow> no_size_limit b msgs cl \<Longrightarrow> length msgs < n \<Longrightarrow>
    process_loop n b f (concat (map enc msgs) @ rest) k cl =
      (Process_Consumed (k + length (concat (map enc msgs))), fold (handle_message b) msgs cl)"
proof (induction msgs arbitrary: n k cl)
  case Nil
  then obtain n' where n: "n = Suc n'" by (cases n) auto
  have "m_maxRecvPacketSize (m_sessionState cl) = 0" using Nil(2) by (simp add: no_size_limit_def)
  then show ?case using r by (auto simp: n incomplete_def packet_too_large_def)
next
  case (Cons m msgs)
  then obtain n' where n: "n = Suc n'" by (cases n) auto
  let ?rest = "concat (map enc msgs) @ rest"
  obtain s l where read: "fr_idLen f < length (enc m)"
    "fr_size f (drop (fr_idLen f) (enc m @ ?rest)) = Size_Value s l"
    "fr_read f (enc m @ ?rest) = Frame_Message m (length (enc m))"
    using f Cons.prems(1) unfolding frames_read_back_def by (metis insert_subset list.simps(15))
  have lim: "m_maxRecvPacketSize (m_sessionState cl) = 0" "no_size_limit b msgs (handle_message b m cl)"
    using no_size_limit_Cons [OF Cons.prems(2)] by simp_all
  have "\<not> length (enc m @ ?rest) \<le> fr_idLen f" using read(1) by simp
  moreover have "process_loop n' b f ?rest (k + length (enc m)) (handle_message b m cl) =
      (Process_Consumed (k + length (enc m) + length (concat (map enc msgs))),
       fold (handle_message b) msgs (handle_message b m cl))"
    by (rule Cons.IH [OF _ lim(2)]) (use Cons.prems n in simp_all)
  moreover have "drop (length (enc m)) (enc m @ ?rest) = ?rest" by simp
  ultimately show ?case
    using read lim(1) by (simp add: n packet_too_large_def add.assoc del: drop_append)
qed

lemma enc_length:
  assumes "frames_read_back f enc known"
  shows "set msgs \<subseteq> known \<Longrightarrow> length msgs \<le> length (concat (map enc msgs))"
proof (induction msgs)
  case (Cons m msgs)
  have "0 < length (enc m)" using assms Cons.prems by (force simp: frames_read_back_def)
  then show ?case using Cons by (simp del: length_greater_0_conv)
qed simp

section \<open>Properties\<close>

text \<open>
  C1: Whatever sequence of API calls the application makes on a new client, within the
  documented contract and with any bytes from the broker: the pointers in \<^verbatim>\<open>m_ops\<close> are
  exactly the live operations, \<^verbatim>\<open>m_inFlightSends\<close> is the number of published operations, no
  published operation is paused, the packet identifiers stay sorted, and the client never
  ends up in a loop: the recorded fault, if there is one, is neither exhausted fuel nor a
  search that does not return.
\<close>

theorem api_runs_keep_registry:
  assumes "frame_ok f"
  shows "let cl = foldl (api_step b f) (with_callbacks timers (ClientImpl_init b)) calls in
         (\<forall>t i. Some (t, i) \<in> set (m_ops cl) \<longleftrightarrow> i \<in> set (live_ids t cl)) \<and>
         (\<forall>t. distinct (live_ids t cl)) \<and>
         m_inFlightSends (m_clientState cl) = length (filter so_published (m_sendOps cl)) \<and>
         (\<forall>op\<in>set (m_sendOps cl). \<not> (so_published op \<and> so_paused op)) \<and>
         packet_ids_ok (m_clientState cl) \<and>
         cl_fault cl \<notin> {Some Fuel_Exhausted, Some No_Return}"
proof -
  let ?cl = "foldl (api_step b f) (with_callbacks timers (ClientImpl_init b)) calls"
  have "cl_fault (with_callbacks timers (ClientImpl_init b)) = None"
    by (simp add: with_callbacks_def ClientImpl_init_def split_beta Let_def)
  then have "api_ok f (with_callbacks timers (ClientImpl_init b))"
    by (simp add: api_ok_def with_callbacks_ok)
  from api.run_inv [OF this, of b calls] have "api_ok f ?cl" .
  then have "client_ok ?cl" "cl_fault ?cl \<notin> {Some Fuel_Exhausted, Some No_Return}"
    using assms by (auto simp: api_ok_def api_faults_def)
  then show ?thesis
    by (auto simp: client_ok_def registry_ok_def sends_ok_def published_count_def Let_def)
qed

text \<open>
  C2: \<^verbatim>\<open>processData\<close> returns after at most one turn per byte and never reports more bytes
  consumed than it was given.
\<close>

theorem processData_returns:
  assumes "frame_ok f" and "client_ok cl" and "cl_fault cl = None"
  shows "fst (processData b f elapsed data cl) \<le> length data \<and>
         client_ok (snd (processData b f elapsed data cl)) \<and>
         cl_fault (snd (processData b f elapsed data cl)) \<noteq> Some Fuel_Exhausted"
  using processData_ok [OF assms(1,2), of b elapsed data] assms(3)
  by (auto simp: stays_ok_def api_faults_def)

text \<open>
  A buffer that holds whole messages and the beginning of another: exactly the whole
  ones are handled, in order, and exactly their bytes are reported as consumed.
\<close>

theorem process_bytes_handles_messages:
  assumes "frames_read_back f enc known" and "set msgs \<subseteq> known" and "incomplete f rest"
    and "no_size_limit b msgs cl"
  shows "process_bytes b f (concat (map enc msgs) @ rest) cl =
         (Process_Consumed (length (concat (map enc msgs))), fold (handle_message b) msgs cl)"
proof -
  have "length msgs < length (concat (map enc msgs) @ rest) + 1" using enc_length [OF assms(1,2)] by simp
  from process_loop_messages [OF assms(1,3,2,4) this, of 0] show ?thesis by (simp add: process_bytes_def)
qed

text \<open>
  The test for packets above the maximum the client announced is exact, wrap-around
  included, as long as the maximum is at least the length of the prefix (which
  \<^verbatim>\<open>ConnectOp::configExtra\<close> ensures) and both are 32-bit numbers.
\<close>

theorem packet_too_large_exact:
  assumes "prefixSize \<le> maxRecv" and "maxRecv < 2 ^ 32" and "remSize < 2 ^ 32"
  shows "packet_too_large maxRecv prefixSize remSize \<longleftrightarrow> 0 < maxRecv \<and> maxRecv < prefixSize + remSize"
proof -
  have b: "maxRecv < 2 ^ 64" "prefixSize < 2 ^ 64" "remSize < 2 ^ 64" using assms by simp_all
  have "of_nat maxRecv - of_nat prefixSize = (of_nat (maxRecv - prefixSize) :: 64 word)"
    using assms(1) by (simp add: of_nat_diff)
  moreover have "unat (of_nat (maxRecv - prefixSize) :: 64 word) = maxRecv - prefixSize"
    "unat (of_nat remSize :: 64 word) = remSize"
    using b by (simp_all add: unat_of_nat)
  ultimately show ?thesis using assms(1) by (auto simp: packet_too_large_def word_less_nat_alt)
qed

text \<open>
  C15: A preparation that succeeds returns the handle of a new operation, which is registered in
  \<^verbatim>\<open>m_ops\<close> and was not before; and until some operation is sent or cancelled every further
  preparation fails, whatever other calls the application makes and whatever bytes arrive.
\<close>

theorem prepared_excludes_others:
  assumes "frame_ok f" and "client_ok cl" and "prepare b elapsed p cl = (Inr i, cl')"
  shows "client_ok cl' \<and> Some (prepared_type p, i) \<in> set (m_ops cl') \<and> (\<forall>t. Some (t, i) \<notin> set (m_ops cl)) \<and>
         (\<forall>calls q e. (\<forall>ev\<in>set calls. \<not> settles_operation (snd ev)) \<longrightarrow>
            (\<exists>ec. fst (prepare b e q (foldl (api_step b f) cl' calls)) = Inl ec))"
proof -
  note p = prepared_registered [OF assms(3)] and n = prepared_new [OF assms(2,3)]
  have ok: "client_ok cl'" using prepare_ok [OF assms(2), of b elapsed p] assms(3) by (simp add: keeps_ok_def)
  have "\<exists>ec. fst (prepare b e q (foldl (api_step b f) cl' calls)) = Inl ec"
    if "\<forall>ev\<in>set calls. \<not> settles_operation (snd ev)" for calls q e
    using locked_run_ok [OF assms(1) ok, of calls b] p that by (intro locked_prepare_fails) (simp_all add: stays_ok_def)
  with ok p n show ?thesis by blast
qed

text \<open>
  C37: When the connection is lost while an operation is being prepared and the session is not to
  be kept (its expiry interval is 0), every operation is destroyed but the lock is not released.
  From then on no sequence of calls within the contract releases it, whatever arrives: every
  later preparation fails, that of a new connection included.
\<close>

theorem lock_outlives_operation:
  assumes "frame_ok f" and "client_ok cl" and "m_preparationLocked cl"
    and "m_sessionExpiryIntervalMs (m_sessionState cl) = 0"
  shows "set (m_ops (brokerDisconnected b reason status info cl)) \<subseteq> {None} \<and>
         (\<forall>calls q elapsed. \<exists>ec. fst (prepare b elapsed q
            (foldl (api_step b f) (brokerDisconnected b reason status info cl) calls)) = Inl ec)"
proof -
  let ?c = "brokerDisconnected b reason status info cl"
  note d = brokerDisconnected_ok [OF assms(2), of b reason status info]
  have n: "Some ref \<notin> set (m_ops ?c)" for ref using d(2) [rule_format, of ref] assms(4) by auto
  then have "set (m_ops ?c) \<subseteq> {None}" by (metis insertCI not_None_eq subsetI)
  moreover have l: "m_preparationLocked ?c" using d(1) assms(3) by (simp add: step_ok_def)
  moreover have "stays_ok api_faults (foldl (api_step b f) ?c calls) ?c" for calls
    using n by (intro locked_run_ok [OF assms(1) step_ok_ok [OF d(1)] l]) simp
  ultimately show ?thesis using locked_prepare_fails by (simp add: stays_ok_def)
qed

text \<open>
  C40: When the connection has been given up already, inside the same buffer or before, bytes
  that cannot be parsed make the client send DISCONNECT and report the loss of the
  connection again: \<^verbatim>\<open>processData\<close> does not look at \<^verbatim>\<open>m_disconnecting\<close>.
\<close>

theorem given_up_reports_again:
  assumes "client_ok cl2" and "set (m_ops cl2) \<subseteq> {None}" and "m_disconnecting (m_sessionState cl2)"
    and "\<not> m_networkDisconnected (m_clientState (doApiEnter b elapsed cl))"
    and "process_bytes b f data (doApiEnter b elapsed cl) = (Process_Broken reason, cl2)"
    and "fst (sendMessage b (Disconnect_Out (Some reason) (Some [])) cl2) = EC_Success"
  shows "\<exists>evs. cl_events (snd (processData b f elapsed data cl)) =
           cl_events cl2 @ Ev_Output (Disconnect_Out (Some reason) (Some [])) #
             Ev_BrokerDisconnected BDR_ProtocolError None # evs"
proof -
  let ?s = "sendDisconnectMsg b reason cl2"
  let ?d = "brokerDisconnected b BDR_ProtocolError St_ProtocolError None ?s"
  have none: "m_ops c ! k = None" if "set (m_ops c) \<subseteq> {None}" "k < length (m_ops c)" for c k
    using that nth_mem by fastforce
  have t: "fold (terminate_at b st mode) ks c = c"
    if "set (m_ops c) \<subseteq> {None}" "\<forall>k\<in>set ks. k < length (m_ops c)" for st mode ks c
    using that(2) by (induction ks) (simp_all add: terminate_at_def none [OF that(1)])
  have "Some (t, i) \<notin> set (m_ops cl2)" for t i using assms(2) by auto
  then have "set (live_ids t cl2) = {}" for t
    using assms(1) by (auto simp: client_ok_def registry_ok_def)
  then have "live_ids t cl2 = []" for t by simp
  from this [of Type_Recv] this [of Type_Send] have l: "m_recvOps ?s = []" "m_sendOps ?s = []"
    by (simp_all add: live_ids_def sendDisconnectMsg_def)
  let ?s1 = "on_session_state (\<lambda>s. s\<lparr>m_disconnecting := True\<rparr>) (on_session_state (\<lambda>s. s\<lparr>m_connected := False\<rparr>)
      (on_client_state (\<lambda>s. s\<lparr>m_initialized := False\<rparr>) ?s))"
  have "terminateOps b st mode ?s1 = ?s1" for st mode
    unfolding terminateOps_def
    by (rule t) (use assms(2) in \<open>simp_all add: on_session_state_def on_client_state_def sendDisconnectMsg_def\<close>)
  moreover have "m_recvOps (on_session_state k (on_client_state h ?s)) = []" for k h
    using l(1) by (simp add: on_session_state_def on_client_state_def)
  ultimately have "?d = emit (Ev_BrokerDisconnected BDR_ProtocolError None) ?s1"
    using l(2) by (simp add: brokerDisconnected_def Let_def)
  moreover have "cl_events ?s1 = cl_events cl2 @ [Ev_Output (Disconnect_Out (Some reason) (Some []))]"
    using assms(6) by (simp add: on_session_state_def on_client_state_def sendDisconnectMsg_def sendMessage_events)
  ultimately have "cl_events ?d = cl_events cl2 @
      [Ev_Output (Disconnect_Out (Some reason) (Some [])), Ev_BrokerDisconnected BDR_ProtocolError None]"
    by (simp add: emit_def)
  moreover have "snd (processData b f elapsed data cl) = doApiExit ?d"
    using assms(4,5) by (simp add: processData_def Let_def)
  ultimately show ?thesis using doApiExit_events [of ?d] by auto
qed

text \<open>
  \<^verbatim>\<open>cc_mqtt5_client_publish_set_response_timeout\<close> has no effect: whatever it is given,
  the publish waits for the default time of the client.
\<close>

theorem publish_timeout_ignored:
  "m_timerMgr (SendOp_restartResponseTimer i (setResponseTimeout (Type_Send, i) ms cl)) =
   m_timerMgr (SendOp_restartResponseTimer i cl)"
  by (simp add: SendOp_restartResponseTimer_def send_op_at_upd split: option.split)
     (simp add: upd_send_def on_timers_def fault_def)

section \<open>Examples\<close>

text \<open>A framing that knows PINGRESP, two bytes long, and nothing else.\<close>

definition ping_framing :: framing where
  "ping_framing =
     \<lparr>fr_idLen = 1,
      fr_size = (\<lambda>data. case data of [] \<Rightarrow> Size_NotEnough | x # _ \<Rightarrow> Size_Value (unat x) 1),
      fr_read = (\<lambda>data. if length data < 2 then Frame_NotEnough
                        else if take 2 data = [208, 0] then Frame_Message Pingresp_In 2 else Frame_Failed)\<rparr>"

lemma ping_frame_ok: "frame_ok ping_framing"
  by (auto simp: frame_ok_def ping_framing_def split: if_splits)

lemma sample_ping_ignored:
  "handle_message sample_build Pingresp_In (sample_client sample_build [] [] []) = sample_client sample_build [] [] []"
  by (simp add: handle_message_def handle_other_def) (simp add: sample_client_def)

theorem api_runs_keep_registry_witness:
  "packet_ids_ok (m_clientState (foldl (api_step sample_build ping_framing)
     (with_callbacks False (ClientImpl_init sample_build))
     [(0, Call_Prepare Prepare_Connect), (0, Call_Send (Type_Connect, 0) True), (0, Call_ProcessData [208, 0])]))"
  using api_runs_keep_registry [OF ping_frame_ok] unfolding Let_def by blast

theorem processData_returns_witness:
  "fst (processData sample_build ping_framing 0 [208, 0, 208] (sample_client sample_build [] [] [])) \<le> 3"
proof -
  let ?cl = "sample_client sample_build [] [] []"
  have ok: "client_ok ?cl" by (rule sample_client_ok) (simp_all add: key_sorted_def)
  have "cl_fault ?cl = None"
    by (simp add: sample_client_def connected_client_def on_session_state_def on_client_state_def
        with_callbacks_def ClientImpl_init_def split_beta Let_def)
  from processData_returns [OF ping_frame_ok ok this, of sample_build 0 "[208, 0, 208]"] show ?thesis by simp
qed

theorem prepared_excludes_others_witness:
  "\<exists>ec. fst (prepare sample_build 0 Prepare_Publish
     (foldl (api_step sample_build ping_framing) (snd (prepare sample_build 0 Prepare_Subscribe (connected_client sample_build)))
        [(0, Call_ProcessData [208, 0]), (7, Call_Prepare Prepare_Reauth), (0, Call_Tick 10), (3, Call_NetworkDisconnected)])) = Inl ec"
proof -
  let ?cl = "connected_client sample_build" and ?b = sample_build
  let ?calls = "[(0, Call_ProcessData [208, 0]), (7, Call_Prepare Prepare_Reauth), (0, Call_Tick 10), (3, Call_NetworkDisconnected)]
      :: (32 word \<times> api_call) list"
  have s: "\<forall>ev\<in>set ?calls. \<not> settles_operation (snd ev)" by simp
  have "prepare ?b 0 Prepare_Subscribe ?cl = (Inr 0, snd (prepare ?b 0 Prepare_Subscribe ?cl))"
    using sample_subscribe_prepared by (simp add: prod_eq_iff)
  from prepared_excludes_others [OF ping_frame_ok connected_client_ok this]
  have "\<forall>calls q e. (\<forall>ev\<in>set calls. \<not> settles_operation (snd ev)) \<longrightarrow>
      (\<exists>ec. fst (prepare ?b e q (foldl (api_step ?b ping_framing) (snd (prepare ?b 0 Prepare_Subscribe ?cl)) calls)) = Inl ec)"
    by blast
  with s show ?thesis by blast
qed

theorem lock_outlives_operation_witness:
  "\<exists>ec. fst (prepare sample_build 0 Prepare_Connect
     (foldl (api_step sample_build ping_framing)
        (brokerDisconnected sample_build BDR_ValuesLimit St_BrokerDisconnected None
          (snd (prepare sample_build 0 Prepare_Subscribe (connected_client sample_build))))
        [(5, Call_Prepare Prepare_Connect), (0, Call_NetworkDisconnected), (0, Call_Tick 1000)])) = Inl ec"
proof -
  let ?cl = "snd (prepare sample_build 0 Prepare_Subscribe (connected_client sample_build))"
  have "prepare sample_build 0 Prepare_Subscribe (connected_client sample_build) = (Inr 0, ?cl)"
    using sample_subscribe_prepared by (simp add: prod_eq_iff)
  note l = prepared_registered [OF this]
  have ok: "client_ok ?cl"
    by (rule keeps_ok_ok [OF prepare_ok [OF connected_client_ok]])
  have e: "m_sessionExpiryIntervalMs (m_sessionState ?cl) = 0"
    by (simp add: subscribePrepare_def subscribe_guards_def SubscribeOp_construct_def split_beta Let_def
        alloc_timer_def sample_defs prepared_def register_op_def)
  from lock_outlives_operation [OF ping_frame_ok ok conjunct1 [OF l] e] show ?thesis by blast
qed

theorem process_bytes_handles_messages_witness:
  "process_bytes sample_build ping_framing [208, 0, 208, 0, 208] (sample_client sample_build [] [] []) =
   (Process_Consumed 4, sample_client sample_build [] [] [])"
proof -
  let ?cl = "sample_client sample_build [] [] []"
  have r: "frames_read_back ping_framing (\<lambda>_. [208, 0]) {Pingresp_In}"
    by (simp add: frames_read_back_def ping_framing_def)
  have s: "set [Pingresp_In, Pingresp_In] \<subseteq> {Pingresp_In}" by simp
  have i: "incomplete ping_framing [208]" by (simp add: incomplete_def ping_framing_def)
  have "fold (handle_message sample_build) (take k [Pingresp_In, Pingresp_In]) ?cl = ?cl" for k
    by (cases k; cases "k - 1") (simp_all add: sample_ping_ignored)
  then have "no_size_limit sample_build [Pingresp_In, Pingresp_In] ?cl"
    by (simp add: no_size_limit_def SessionState_init_def)
  from process_bytes_handles_messages [OF r s i this] show ?thesis by (simp add: sample_ping_ignored)
qed

theorem packet_too_large_exact_witness: "packet_too_large 100 3 98 \<longleftrightarrow> 0 < (100 :: nat) \<and> (100 :: nat) < 3 + 98"
  by (rule packet_too_large_exact) simp_all

theorem given_up_reports_again_witness:
  "\<exists>evs. cl_events (snd (processData sample_build ping_framing 0 [255, 255]
       (on_session_state (\<lambda>s. s\<lparr>m_disconnecting := True\<rparr>) (sample_client sample_build [] [] [])))) =
     cl_events (sample_client sample_build [] [] []) @ Ev_Output (Disconnect_Out (Some RC_ProtocolError) (Some [])) #
       Ev_BrokerDisconnected BDR_ProtocolError None # evs"
proof -
  let ?c = "on_session_state (\<lambda>s. s\<lparr>m_disconnecting := True\<rparr>) (sample_client sample_build [] [] [])"
  let ?e = "?c\<lparr>m_apiEnterCount := Suc (m_apiEnterCount ?c)\<rparr>"
  have e: "doApiEnter sample_build 0 ?c = ?e"
    by (rule doApiEnter_quiet) (simp add: on_session_state_def)
  have "client_ok (sample_client sample_build [] [] [])" by (rule sample_client_ok) (simp_all add: key_sorted_def)
  then have "client_ok ?c" by (rule same_core_ok [OF same_core_effects(4)])
  then have ok: "client_ok ?e" using entered_ok stays_ok_ok by blast
  have o: "set (m_ops ?e) \<subseteq> {None}" by (simp add: on_session_state_def sample_client_def)
  have d: "m_disconnecting (m_sessionState ?e)" by (simp add: on_session_state_def)
  have n: "\<not> m_networkDisconnected (m_clientState (doApiEnter sample_build 0 ?c))"
    unfolding e by (simp add: on_session_state_def on_client_state_def sample_client_def connected_client_def with_callbacks_def
        ClientImpl_init_def ClientState_init_def split_beta Let_def)
  have p: "process_bytes sample_build ping_framing [255, 255] (doApiEnter sample_build 0 ?c) =
      (Process_Broken RC_ProtocolError, ?e)"
    unfolding e by (simp add: process_bytes_def ping_framing_def packet_too_large_def on_session_state_def
        SessionState_init_def)
  have s: "fst (sendMessage sample_build (Disconnect_Out (Some RC_ProtocolError) (Some [])) ?e) = EC_Success"
    by (simp add: sendMessage_def sample_build_def default_config_def on_session_state_def SessionState_init_def)
  from given_up_reports_again [OF ok o d n p s] show ?thesis by (simp add: on_session_state_def)
qed

end
