(* ===== verification/Client_Facade.thy ===== *)
theory Client_Facade
  imports Client_Api
begin

text \<open>
  The C interface (\<^verbatim>\<open>client/lib/templ/client.cpp.templ\<close>): handles that may be \<^verbatim>\<open>NULL\<close>, the
  functions that fill configurations with defaults, and the calls that prepare, configure and
  send an operation at once. A scope guard cancels the operation when a configuration
  fails, and is released before the operation is sent. The lemmas say that no path of these
  calls leaves the preparation lock taken or a failed operation registered.
\<close>

section \<open>Handles\<close>

text \<open>A function of the client behind a handle; the error of a \<^verbatim>\<open>NULL\<close> handle.\<close>

definition with_client ::
  "(client \<Rightarrow> error_code \<times> client) \<Rightarrow> client option \<Rightarrow> error_code \<times> client option" where
  "with_client call handle =
     (case handle of
        None \<Rightarrow> (EC_BadParam, None)
      | Some cl \<Rightarrow> let (ec, cl') = call cl in (ec, Some cl'))"

text \<open>Configuring, sending and cancelling through the handle of an operation.\<close>

definition handle_config ::
  "build \<Rightarrow> op_id option \<Rightarrow> op_config option \<Rightarrow> client \<Rightarrow> error_code \<times> client" where
  "handle_config b handle cfg cl =
     (case (handle, cfg) of
        (Some i, Some c) \<Rightarrow> configure b c i cl
      | _ \<Rightarrow> (EC_BadParam, cl))"

definition handle_send ::
  "build \<Rightarrow> 32 word \<Rightarrow> bool \<Rightarrow> op_type \<Rightarrow> op_id option \<Rightarrow> client \<Rightarrow> error_code \<times> client" where
  "handle_send b elapsed cb t handle cl =
     (case handle of None \<Rightarrow> (EC_BadParam, cl) | Some i \<Rightarrow> send_call b elapsed cb (t, i) cl)"

definition handle_cancel :: "build \<Rightarrow> op_type \<Rightarrow> op_id option \<Rightarrow> client \<Rightarrow> error_code \<times> client" where
  "handle_cancel b t handle cl =
     (case handle of None \<Rightarrow> (EC_BadParam, cl) | Some i \<Rightarrow> cancel_call b (t, i) cl)"

section \<open>Default configurations\<close>

definition connect_init_config_basic :: connect_basic_config where
  "connect_init_config_basic =
     \<lparr>cb_clientId = None, cb_username = None, cb_password = None, cb_passwordLen = 0,
      cb_keepAlive = 60, cb_cleanStart = False\<rparr>"

definition connect_init_config_will :: connect_will_config where
  "connect_init_config_will =
     \<lparr>cw_topic = None, cw_data = None, cw_dataLen = 0, cw_contentType = None, cw_responseTopic = None,
      cw_correlationData = None, cw_correlationDataLen = 0, cw_delayInterval = 0,
      cw_messageExpiryInterval = 0, cw_qos = AtMostOnce, cw_format = 0, cw_retain = False\<rparr>"

definition connect_init_config_extra :: "config \<Rightarrow> connect_extra_config" where
  "connect_init_config_extra c =
     \<lparr>cx_sessionExpiryInterval = 0, cx_receiveMaximum = ReceiveMaxLimit c, cx_maxPacketSize = 0,
      cx_topicAliasMaximum =
        (if HasTopicAliases c then if TopicAliasesLimit c = 0 then 10 else TopicAliasesLimit c else 0),
      cx_requestResponseInfo = False, cx_requestProblemInfo = False\<rparr>"

definition disconnect_init_config :: disconnect_config where
  "disconnect_init_config =
     \<lparr>dc_reasonCode = RC_Success, dc_reasonStr = None, dc_sessionExpiryInterval = None\<rparr>"

definition subscribe_init_config_topic :: "config \<Rightarrow> subscribe_topic_config" where
  "subscribe_init_config_topic c =
     \<lparr>st_topic = None, st_maxQos = MaxQos c, st_retainHandling = 0, st_noLocal = False,
      st_retainAsPublished = False\<rparr>"

definition publish_init_config_basic :: publish_basic_config where
  "publish_init_config_basic =
     \<lparr>pb_topic = None, pb_data = [], pb_qos = AtMostOnce, pb_topicAliasPref = Pref_UseAliasIfAvailable, pb_retain = False\<rparr>"

definition publish_init_config_extra :: publish_extra_config where
  "publish_init_config_extra =
     \<lparr>px_contentType = None, px_responseTopic = None, px_correlationData = None, px_correlationDataLen = 0,
      px_messageExpiryInterval = 0, px_format = 0\<rparr>"

section \<open>Preparing, configuring and sending at once\<close>

text \<open>The configurations one after the other, up to the first that fails.\<close>

fun config_all :: "build \<Rightarrow> op_id \<Rightarrow> op_config list \<Rightarrow> client \<Rightarrow> error_code \<times> client" where
  "config_all b i [] cl = (EC_Success, cl)"
| "config_all b i (cfg # cfgs) cl =
     (let (ec, cl1) = handle_config b (Some i) (Some cfg) cl in
      if ec \<noteq> EC_Success then (ec, cl1) else config_all b i cfgs cl1)"

definition configured_send ::
  "build \<Rightarrow> 32 word \<Rightarrow> bool \<Rightarrow> op_type \<Rightarrow> op_config list \<Rightarrow> (error_code + op_id) \<times> client \<Rightarrow> error_code \<times> client" where
  "configured_send b elapsed cb t cfgs prep =
     (case prep of
        (Inl ec, cl) \<Rightarrow> (ec, cl)
      | (Inr i, cl) \<Rightarrow>
          let (ec, cl1) = config_all b i cfgs cl in
          if ec \<noteq> EC_Success then (ec, snd (handle_cancel b t (Some i) cl1))
          else handle_send b elapsed cb t (Some i) cl1)"

definition given :: "('a \<Rightarrow> op_config) \<Rightarrow> 'a option \<Rightarrow> op_config list" where
  "given mk cfg = (case cfg of None \<Rightarrow> [] | Some c \<Rightarrow> [mk c])"

definition connect_full ::
  "build \<Rightarrow> 32 word \<Rightarrow> connect_basic_config option \<Rightarrow> connect_will_config option \<Rightarrow>
   connect_extra_config option \<Rightarrow> auth_config option \<Rightarrow> bool \<Rightarrow> client \<Rightarrow> error_code \<times> client" where
  "connect_full b elapsed basic will extra auth cb cl =
     configured_send b elapsed cb Type_Connect
       (given Connect_Basic basic @ given Connect_Will will @ given Connect_Extra extra @ given Connect_Auth auth)
       (connectPrepare b elapsed cl)"

definition connect_simple ::
  "build \<Rightarrow> 32 word \<Rightarrow> connect_basic_config option \<Rightarrow> bool \<Rightarrow> client \<Rightarrow> error_code \<times> client" where
  "connect_simple b elapsed basic cb cl = connect_full b elapsed basic None None None cb cl"

definition disconnect_full ::
  "build \<Rightarrow> 32 word \<Rightarrow> disconnect_config option \<Rightarrow> client \<Rightarrow> error_code \<times> client" where
  "disconnect_full b elapsed cfg cl =
     configured_send b elapsed False Type_Disconnect (given Disconnect_Basic cfg) (disconnectPrepare b cl)"

definition subscribe_full ::
  "build \<Rightarrow> 32 word \<Rightarrow> subscribe_topic_config list \<Rightarrow> nat option \<Rightarrow> bool \<Rightarrow> client \<Rightarrow> error_code \<times> client" where
  "subscribe_full b elapsed topics extra cb cl =
     configured_send b elapsed cb Type_Subscribe (map Subscribe_Topic topics @ given Subscribe_SubId extra)
       (subscribePrepare b cl)"

definition subscribe_simple ::
  "build \<Rightarrow> 32 word \<Rightarrow> subscribe_topic_config \<Rightarrow> bool \<Rightarrow> client \<Rightarrow> error_code \<times> client" where
  "subscribe_simple b elapsed topic cb cl = subscribe_full b elapsed [topic] None cb cl"

definition unsubscribe_full ::
  "build \<Rightarrow> 32 word \<Rightarrow> cstr option list \<Rightarrow> bool \<Rightarrow> client \<Rightarrow> error_code \<times> client" where
  "unsubscribe_full b elapsed topics cb cl =
     configured_send b elapsed cb Type_Unsubscribe (map Unsubscribe_Topic topics) (unsubscribePrepare b cl)"

definition unsubscribe_simple ::
  "build \<Rightarrow> 32 word \<Rightarrow> cstr option \<Rightarrow> bool \<Rightarrow> client \<Rightarrow> error_code \<times> client" where
  "unsubscribe_simple b elapsed topic cb cl = unsubscribe_full b elapsed [topic] cb cl"

definition publish_full ::
  "build \<Rightarrow> 32 word \<Rightarrow> publish_basic_config option \<Rightarrow> publish_extra_config option \<Rightarrow> bool \<Rightarrow> client \<Rightarrow>
   error_code \<times> client" where
  "publish_full b elapsed basic extra cb cl =
     configured_send b elapsed cb Type_Send (given Publish_Basic basic @ given Publish_Extra extra)
       (publishPrepare b cl)"

definition publish_simple ::
  "build \<Rightarrow> 32 word \<Rightarrow> publish_basic_config option \<Rightarrow> bool \<Rightarrow> client \<Rightarrow> error_code \<times> client" where
  "publish_simple b elapsed basic cb cl = publish_full b elapsed basic None cb cl"

definition reauth :: "build \<Rightarrow> 32 word \<Rightarrow> auth_config option \<Rightarrow> bool \<Rightarrow> client \<Rightarrow> error_code \<times> client" where
  "reauth b elapsed cfg cb cl =
     configured_send b elapsed cb Type_Reauth (given Reauth_Auth cfg) (reauthPrepare b cl)"

text \<open>All of them, by the handle of the client.\<close>

datatype full_call =
    Full_Connect "connect_basic_config option" "connect_will_config option" "connect_extra_config option" "auth_config option"
  | Full_Disconnect "disconnect_config option"
  | Full_Subscribe "subscribe_topic_config list" "nat option"
  | Full_Unsubscribe "cstr option list"
  | Full_Publish "publish_basic_config option" "publish_extra_config option"
  | Full_Reauth "auth_config option"

fun full_exec :: "build \<Rightarrow> 32 word \<Rightarrow> bool \<Rightarrow> full_call \<Rightarrow> client \<Rightarrow> error_code \<times> client" where
  "full_exec b elapsed cb (Full_Connect basic will extra auth) cl = connect_full b elapsed basic will extra auth cb cl"
| "full_exec b elapsed cb (Full_Disconnect cfg) cl = disconnect_full b elapsed cfg cl"
| "full_exec b elapsed cb (Full_Subscribe topics extra) cl = subscribe_full b elapsed topics extra cb cl"
| "full_exec b elapsed cb (Full_Unsubscribe topics) cl = unsubscribe_full b elapsed topics cb cl"
| "full_exec b elapsed cb (Full_Publish basic extra) cl = publish_full b elapsed basic extra cb cl"
| "full_exec b elapsed cb (Full_Reauth cfg) cl = reauth b elapsed cfg cb cl"

definition client_call ::
  "build \<Rightarrow> 32 word \<Rightarrow> bool \<Rightarrow> full_call \<Rightarrow> client option \<Rightarrow> error_code \<times> client option" where
  "client_call b elapsed cb call handle = with_client (full_exec b elapsed cb call) handle"

section \<open>Handles of operations that are not sent yet\<close>

fun unsent :: "op_ref \<Rightarrow> client \<Rightarrow> bool" where
  "unsent (Type_Connect, i) cl = (case connect_op_at i cl of None \<Rightarrow> False | Some op \<Rightarrow> \<not> hs_cb op)"
| "unsent (Type_Disconnect, i) cl = (disconnect_op_at i cl \<noteq> None)"
| "unsent (Type_Subscribe, i) cl = (case subscribe_op_at i cl of None \<Rightarrow> False | Some op \<Rightarrow> \<not> sub_cb op)"
| "unsent (Type_Unsubscribe, i) cl = (case unsubscribe_op_at i cl of None \<Rightarrow> False | Some op \<Rightarrow> \<not> uns_cb op)"
| "unsent (Type_Send, i) cl =
     (case send_op_at i cl of None \<Rightarrow> False | Some op \<Rightarrow> \<not> so_cb op \<and> \<not> so_published op \<and> \<not> so_paused op)"
| "unsent (Type_Reauth, i) cl = (case reauth_op_at i cl of None \<Rightarrow> False | Some op \<Rightarrow> \<not> hs_cb op)"
| "unsent _ cl = False"

lemma unsent_live: "client_ok cl \<Longrightarrow> unsent (t, i) cl \<Longrightarrow> Some (t, i) \<in> set (m_ops cl)"
  using live_of send_live by (cases t) (auto split: option.splits)

lemma config_cbs:
  "hs_cb (snd (connect_msg_call call c)) = hs_cb c" "hs_cb (snd (ConnectOp_configAuth b ac c)) = hs_cb c"
  "hs_cb (snd (ReauthOp_configAuth b ss ac r)) = hs_cb r" "hs_cb (snd (ReauthOp_addUserProp b k v r)) = hs_cb r"
  "sub_cb (snd (subscribe_topic_call b cl stc s)) = sub_cb s" "sub_cb (snd (subscribe_extra_call b cl n s)) = sub_cb s"
  "sub_cb (snd (SubscribeOp_addUserProp b k v s)) = sub_cb s"
  "uns_cb (snd (unsubscribe_topic_call b cl t u)) = uns_cb u" "uns_cb (snd (UnsubscribeOp_addUserProp b k v u)) = uns_cb u"
  by (simp_all add: connect_msg_call_def ReauthOp_configAuth_def ReauthOp_addUserProp_def subscribe_topic_call_def
      subscribe_extra_call_def SubscribeOp_addUserProp_def unsubscribe_topic_call_def UnsubscribeOp_addUserProp_def
      split_beta Let_def)
     (simp add: ConnectOp_configAuth_def split_beta Let_def split: option.split)

text \<open>A call on the object replaces it; a call on another kind of object does not matter here.\<close>

lemma op_at_replaced:
  "op_at oid i xs = Some x \<Longrightarrow> oid y = oid x \<Longrightarrow> op_at oid i (upd_op oid i (\<lambda>_. y) xs) = Some y"
  by (induction xs) (auto simp: op_at_def upd_op_def)

lemma on_calls_unsent:
  shows "(\<And>p. hs_id (snd (c p)) = hs_id p \<and> hs_cb (snd (c p)) = hs_cb p) \<Longrightarrow>
           unsent (Type_Connect, i) cl \<Longrightarrow> unsent (Type_Connect, i) (snd (on_connect i c cl))"
    and "(\<And>p. hs_id (snd (r p)) = hs_id p \<and> hs_cb (snd (r p)) = hs_cb p) \<Longrightarrow>
           unsent (Type_Reauth, i) cl \<Longrightarrow> unsent (Type_Reauth, i) (snd (on_reauth i r cl))"
    and "(\<And>p. sub_id (snd (s p)) = sub_id p \<and> sub_cb (snd (s p)) = sub_cb p) \<Longrightarrow>
           unsent (Type_Subscribe, i) cl \<Longrightarrow> unsent (Type_Subscribe, i) (snd (on_subscribe i s cl))"
    and "(\<And>p. uns_id (snd (u p)) = uns_id p \<and> uns_cb (snd (u p)) = uns_cb p) \<Longrightarrow>
           unsent (Type_Unsubscribe, i) cl \<Longrightarrow> unsent (Type_Unsubscribe, i) (snd (on_unsubscribe i u cl))"
    and "(\<And>p. do_id (snd (d p)) = do_id p) \<Longrightarrow>
           unsent (Type_Disconnect, i) cl \<Longrightarrow> unsent (Type_Disconnect, i) (snd (on_disconnect i d cl))"
  by (auto simp: on_connect_def on_reauth_def on_subscribe_def on_unsubscribe_def on_disconnect_def
      connect_op_at_def reauth_op_at_def subscribe_op_at_def unsubscribe_op_at_def disconnect_op_at_def
      upd_connect_def upd_reauth_def upd_subscribe_def upd_unsubscribe_def upd_disconnect_def op_at_replaced
      split: option.splits)

lemma unsent_send_upd:
  assumes "\<And>p. so_id (f p) = so_id p" "\<And>p. so_cb (f p) = so_cb p" "\<And>p. so_published (f p) = so_published p"
    "\<And>p. so_paused (f p) = so_paused p"
  shows "unsent (Type_Send, i) (upd_send i f cl) = unsent (Type_Send, i) cl"
  using assms by (simp add: send_op_at_upd split: option.split)

lemma unsent_send_state [simp]:
  "unsent (Type_Send, i) (on_client_state g cl) = unsent (Type_Send, i) cl"
  "unsent (Type_Send, i) (fault f cl) = unsent (Type_Send, i) cl"
  by (simp_all add: send_op_at_def)

lemma publish_configs_unsent:
  assumes u: "unsent (Type_Send, i) cl"
  shows "unsent (Type_Send, i) (snd (configBasic b bc i cl))"
    and "unsent (Type_Send, i) (snd (configExtra b xc i cl))"
    and "unsent (Type_Send, i) (snd (SendOp_addUserProp b k v i cl))"
    and "unsent (Type_Send, i) (snd (setResendAttempts n i cl))"
proof -
  have up: "unsent (Type_Send, i) (upd_send i f c)"
    if "unsent (Type_Send, i) c" "\<And>p. so_id (f p) = so_id p" "\<And>p. so_cb (f p) = so_cb p"
      "\<And>p. so_published (f p) = so_published p" "\<And>p. so_paused (f p) = so_paused p" for f c
    using that by (simp del: unsent.simps add: unsent_send_upd)
  have up_if: "unsent (Type_Send, i) (if m then x else y)"
    if "unsent (Type_Send, i) x" "unsent (Type_Send, i) y" for m x y using that by simp
  have up_fault: "unsent (Type_Send, i) (fault f c)" and up_state: "unsent (Type_Send, i) (on_client_state g c)"
    if "unsent (Type_Send, i) c" for f g c using that by (simp_all only: unsent_send_state)
  show "unsent (Type_Send, i) (snd (configExtra b xc i cl))"
    "unsent (Type_Send, i) (snd (SendOp_addUserProp b k v i cl))"
    "unsent (Type_Send, i) (snd (setResendAttempts n i cl))"
    using u by (simp_all del: unsent.simps add: configExtra_def SendOp_addUserProp_def setResendAttempts_def
        set_pub_props_def unsent_send_upd split_beta split: option.split)
  have if_snd: "unsent (Type_Send, i) (snd (if q then x else y))"
    if "unsent (Type_Send, i) (snd x)" "unsent (Type_Send, i) (snd y)" for q and x y :: "error_code \<times> client"
    using that by simp
  have case_snd: "unsent (Type_Send, i) (snd (case r of None \<Rightarrow> x | Some v \<Rightarrow> y v))"
    if "unsent (Type_Send, i) (snd x)" "\<And>v. unsent (Type_Send, i) (snd (y v))"
    for r :: "send_op option" and x :: "error_code \<times> client" and y
    using that by (cases r) simp_all
  show "unsent (Type_Send, i) (snd (configBasic b bc i cl))"
  proof (cases "pb_topic bc")
    case None
    then show ?thesis using u by (simp add: configBasic_def Let_def)
  next
    case (Some topic)
    show ?thesis
    proof (cases "select_alias b (pb_topicAliasPref bc) topic (m_sendTopicAliases (m_clientState cl))")
      case (Inl ec)
      then show ?thesis using u by (simp del: unsent.simps add: configBasic_def Let_def Some)
    next
      case (Inr x)
      obtain k must tab where x: "x = (k, must, tab)" by (metis prod_cases3)
      show ?thesis
        unfolding configBasic_def Let_def Some option.case Inr x sum.case prod.case
        by (intro if_snd case_snd; simp only: snd_conv; intro up up_if up_fault up_state u; simp del: unsent.simps)
    qed
  qed
qed

lemma ConnectOp_configExtra_unsent:
  assumes u: "unsent (Type_Connect, i) cl"
  shows "unsent (Type_Connect, i) (snd (ConnectOp_configExtra b cfg i cl))"
proof -
  obtain op where op: "connect_op_at i cl = Some op" "\<not> hs_cb op" using u by (auto split: option.splits)
  have f: "snd (fail_step bad r) = snd r" for bad and r :: "error_code \<times> connect_op"
    by (simp add: fail_step_def)
  have c: "hs_cb (snd (connect_step b g p remember r)) = hs_cb (snd r)"
    if "\<And>p. hs_cb (remember p) = hs_cb p" for g p remember r
    using that by (simp add: connect_step_def connect_prop_def)
  have "hs_cb (snd (configExtra_requests b cfg (configExtra_limits b cfg op))) = hs_cb op"
    unfolding configExtra_requests_def configExtra_limits_def Let_def by (simp add: c f)
  then show ?thesis
    using op configExtra_keeps_id [of b cfg op]
    by (simp add: ConnectOp_configExtra_def split_beta Let_def connect_op_at_def upd_connect_def op_at_replaced
        on_session_state_def)
qed

lemma configure_unsent:
  "unsent (config_type cfg, i) cl \<Longrightarrow> unsent (config_type cfg, i) (snd (configure b cfg i cl))"
  by (cases cfg; simp only: configure.simps config_type.simps;
      rule publish_configs_unsent ConnectOp_configExtra_unsent on_calls_unsent; (simp only: config_ids config_cbs)?)

lemma config_all_ok:
  assumes "client_ok cl" and "unsent (t, i) cl" and "\<And>cfg. cfg \<in> set cfgs \<Longrightarrow> config_type cfg = t"
  shows "stays_ok {Use_After_Free} (snd (config_all b i cfgs cl)) cl \<and> unsent (t, i) (snd (config_all b i cfgs cl))"
  using assms
proof (induction cfgs arbitrary: cl)
  case (Cons cfg cfgs)
  let ?c = "snd (configure b cfg i cl)"
  have s: "stays_ok {Use_After_Free} ?c cl" by (rule configure_ok [OF Cons.prems(1)])
  have u: "unsent (t, i) ?c" using configure_unsent [of cfg i cl b] Cons.prems by (simp del: unsent.simps)
  from Cons.IH [OF stays_ok_ok [OF s] u] Cons.prems(3) s u show ?case
    by (auto simp del: unsent.simps simp: handle_config_def split_beta Let_def intro: stays_ok_trans)
qed (simp add: stays_ok_refl)

section \<open>What a preparation gives\<close>

lemma op_at_new: "i \<notin> oid ` set xs \<Longrightarrow> oid x = i \<Longrightarrow> op_at oid i (xs @ [x]) = Some x"
  by (induction xs) (auto simp: op_at_def)

lemma next_fresh: "client_ok cl \<Longrightarrow> cl_nextId cl \<notin> set (live_ids t cl)"
  unfolding client_ok_def registry_ok_def by blast

lemma prepare_unsent:
  assumes ok: "client_ok cl" and p: "prepare b elapsed p cl = (Inr i, cl')"
  shows "unsent (prepared_type p, i) cl'"
proof (cases p)
  case Prepare_Connect
  let ?c = "snd (connect_init b elapsed cl)"
  have "client_ok ?c" by (rule stays_ok_ok [OF connect_init_ok [OF ok]])
  note n = next_fresh [OF this, of Type_Connect]
  obtain c tm where c: "ConnectOp_construct b ?c = (c, ?c\<lparr>m_timerMgr := tm\<rparr>)" "hs_id c = cl_nextId ?c" "\<not> hs_cb c"
    using construct_frames(1) [of b ?c] by (auto simp: ConnectOp_construct_def split_beta Let_def)
  then show ?thesis
    using p n op_at_new [of "cl_nextId ?c" hs_id "m_connectOps ?c" c] Prepare_Connect
    by (auto simp: connectPrepare_def split_beta Let_def live_ids_def prepared_def register_op_def connect_op_at_def
        split: option.splits if_splits)
next
  case Prepare_Disconnect
  note n = next_fresh [OF ok, of Type_Disconnect]
  show ?thesis
    using p n op_at_new [of "cl_nextId cl" do_id "m_disconnectOps cl"] Prepare_Disconnect
    by (auto simp: disconnectPrepare_def DisconnectOp_construct_def live_ids_def prepared_def register_op_def
        disconnect_op_at_def split: option.splits)
next
  case Prepare_Subscribe
  note n = next_fresh [OF ok, of Type_Subscribe]
  obtain c tm where c: "SubscribeOp_construct b cl = (c, cl\<lparr>m_timerMgr := tm\<rparr>)" "sub_id c = cl_nextId cl" "\<not> sub_cb c"
    using construct_frames(2) [of b cl] by (auto simp: SubscribeOp_construct_def split_beta Let_def)
  then show ?thesis
    using p n op_at_new [of "cl_nextId cl" sub_id "m_subscribeOps cl" c] Prepare_Subscribe
    by (auto simp: subscribePrepare_def live_ids_def prepared_def register_op_def subscribe_op_at_def split: option.splits)
next
  case Prepare_Unsubscribe
  note n = next_fresh [OF ok, of Type_Unsubscribe]
  obtain c tm where c: "UnsubscribeOp_construct b cl = (c, cl\<lparr>m_timerMgr := tm\<rparr>)" "uns_id c = cl_nextId cl" "\<not> uns_cb c"
    using construct_frames(3) [of b cl] by (auto simp: UnsubscribeOp_construct_def split_beta Let_def)
  then show ?thesis
    using p n op_at_new [of "cl_nextId cl" uns_id "m_unsubscribeOps cl" c] Prepare_Unsubscribe
    by (auto simp: unsubscribePrepare_def live_ids_def prepared_def register_op_def unsubscribe_op_at_def
        split: option.splits)
next
  case Prepare_Publish
  note n = next_fresh [OF ok, of Type_Send]
  obtain c tm where c: "SendOp_construct b cl = (c, cl\<lparr>m_timerMgr := tm\<rparr>)" "so_id c = cl_nextId cl" "\<not> so_cb c"
    "\<not> so_published c" "\<not> so_paused c"
    using construct_frames(5) [of b cl] by (auto simp: SendOp_construct_def split_beta Let_def)
  then show ?thesis
    using p n op_at_new [of "cl_nextId cl" so_id "m_sendOps cl" c] Prepare_Publish
    by (auto simp: publishPrepare_def live_ids_def prepared_def register_op_def send_op_at_def split: option.splits if_splits)
next
  case Prepare_Reauth
  note n = next_fresh [OF ok, of Type_Reauth]
  obtain c tm where c: "ReauthOp_construct b cl = (c, cl\<lparr>m_timerMgr := tm\<rparr>)" "hs_id c = cl_nextId cl" "\<not> hs_cb c"
    using construct_frames(4) [of b cl] by (auto simp: ReauthOp_construct_def split_beta Let_def)
  then show ?thesis
    using p n op_at_new [of "cl_nextId cl" hs_id "m_reauthOps cl" c] Prepare_Reauth
    by (auto simp: reauthPrepare_def live_ids_def prepared_def register_op_def reauth_op_at_def split: option.splits)
qed

section \<open>What a failure leaves\<close>

lemma opCompleteInternal_gone:
  assumes ok: "client_ok c"
  shows "Some (Type_Send, i) \<notin> set (m_ops (SendOp_opCompleteInternal (resumeSends b) i c))"
proof (cases "send_op_at i c")
  case None
  then have "i \<notin> set (live_ids Type_Send c)"
    using op_at_live [of i so_id "m_sendOps c"] by (auto simp: live_ids_def send_op_at_def)
  then show ?thesis using ok None by (simp add: SendOp_opCompleteInternal_def client_ok_def registry_ok_def fault_def)
next
  case (Some op)
  then have "Some (Type_Send, i) \<notin> set (m_ops (completeWithCb b i St_Complete None c))"
    by (rule completeWithCb_gone [OF ok send_live [OF ok]])
  then show ?thesis using Some by (simp add: completeWithCb_def SendOp_completeWithCb_def Let_def split: if_splits)
qed

text \<open>A request that could not be sent, with the lock already released.\<close>

lemma failed_gone:
  assumes ok: "client_ok cl" and live: "Some (t, i) \<in> set (m_ops cl)" and t: "t \<noteq> Type_Send"
  shows "Some (t, i) \<notin> set (m_ops (opComplete b (t, i) (allowNextPrepare cl)))"
    and "step_ok u (allowNextPrepare cl) \<Longrightarrow> m_ops u = m_ops cl \<Longrightarrow>
           Some (t, i) \<notin> set (m_ops (opComplete b (t, i) (snd (sendMessage b msg u))))"
proof -
  have okc: "client_ok (allowNextPrepare cl)" using allowNextPrepare_ok [OF ok] by (rule keeps_ok_ok)
  then show "Some (t, i) \<notin> set (m_ops (opComplete b (t, i) (allowNextPrepare cl)))"
    by (rule opComplete_gone) (use live t in simp_all)
  show "Some (t, i) \<notin> set (m_ops (opComplete b (t, i) (snd (sendMessage b msg u))))"
    if u: "step_ok u (allowNextPrepare cl)" "m_ops u = m_ops cl"
    by (rule opComplete_gone [OF step_ok_ok [OF sent_ok [OF u(1)]]]) (use live t u(2) in simp_all)
qed

lemma publish_failed_gone:
  assumes ok: "client_ok cl" and op: "send_op_at i cl = Some op" and new: "\<not> so_published op" "\<not> so_paused op"
    and ec: "fst (SendOp_send b elapsed cb i cl) \<noteq> EC_Success"
  shows "Some (Type_Send, i) \<notin> set (m_ops (snd (SendOp_send b elapsed cb i cl)))"
proof -
  have okc: "client_ok (allowNextPrepare cl)" using allowNextPrepare_ok [OF ok] by (rule keeps_ok_ok)
  obtain u p where u: "frees_ok True {Use_After_Free} u cl" and o: "send_op_at i u = Some p"
    and same: "so_paused p = so_paused op"
    and s: "SendOp_send b elapsed cb i cl =
       (if \<not> timer_isValid (so_responseTimer op)
        then (EC_InternalError, SendOp_opCompleteInternal (resumeSends b) i (allowNextPrepare cl))
        else if \<not> so_topicConfigured op
        then (EC_InsufficientConfig, SendOp_opCompleteInternal (resumeSends b) i (allowNextPrepare cl))
        else if \<not> canSend p u then (EC_Success, upd_send i (\<lambda>p. p\<lparr>so_paused := True\<rparr>) u)
        else
          let (sendResult, c) = doSendInternal (resumeSends b) b i (doApiEnter b elapsed u) in
          if sendResult \<noteq> EC_Success
          then (sendResult, SendOp_opCompleteInternal (resumeSends b) i (doApiExit c))
          else (EC_Success, doApiExit c))"
    by (rule SendOp_send_filled [OF ok op, of b elapsed cb])
  note oku = frees_ok_ok [OF u]
  have e: "stays_ok {Use_After_Free} (doApiEnter b elapsed u) u" by (rule doApiEnter_ok [OF oku])
  have "i \<notin> paused_ids (doApiEnter b elapsed u)" using paused_id [OF oku o] new same e by (auto simp: stays_ok_def)
  then have "client_ok (snd (doSendInternal (resumeSends b) b i (doApiEnter b elapsed u)))"
    using doSend_ok [OF stays_ok_ok [OF e]] stays_ok_ok by blast
  then have "client_ok (doApiExit (snd (doSendInternal (resumeSends b) b i (doApiEnter b elapsed u))))"
    using doApiExit_ok stays_ok_ok by blast
  then show ?thesis using ec okc unfolding s by (auto simp: split_beta opCompleteInternal_gone split: if_splits)
qed

lemma send_failed_gone:
  assumes ok: "client_ok cl" and u: "unsent (t, i) cl"
    and ec: "fst (send_call b elapsed cb (t, i) cl) \<noteq> EC_Success"
  shows "Some (t, i) \<notin> set (m_ops (snd (send_call b elapsed cb (t, i) cl)))"
proof -
  let ?c = "allowNextPrepare cl"
  have okc: "client_ok ?c" using allowNextPrepare_ok [OF ok] by (rule keeps_ok_ok)
  note g = failed_gone [OF ok unsent_live [OF ok u]]
  note s = step_ok_effect_refl [OF okc]
  obtain pid st where a: "alloc_packet_id b ?c = (pid, ?c\<lparr>m_clientState := st\<rparr>)"
    and st: "step_ok (?c\<lparr>m_clientState := st\<rparr>) ?c"
    by (rule alloc_packet_id_ok [OF okc])
  show ?thesis
  proof (cases t)
    case Type_Connect
    obtain op where op: "connect_op_at i cl = Some op" using u Type_Connect by (auto split: option.splits)
    have w: "step_ok (upd_connect i (\<lambda>p. p\<lparr>hs_cb := True\<rparr>) ?c) ?c" by (rule s) (simp_all add: upd_same_core)
    show ?thesis
      using ec g(1) g(2) [OF _ w] Type_Connect
      by (auto simp: ConnectOp_send_def op upd_connect_def Let_def split_beta split: if_splits)
  next
    case Type_Reauth
    obtain op where op: "reauth_op_at i cl = Some op" using u Type_Reauth by (auto split: option.splits)
    have w: "step_ok (upd_reauth i (\<lambda>p. p\<lparr>hs_cb := True\<rparr>) ?c) ?c" by (rule s) (simp_all add: upd_same_core)
    show ?thesis
      using ec g(1) g(2) [OF _ w] Type_Reauth
      by (auto simp: ReauthOp_send_def op upd_reauth_def Let_def split_beta split: if_splits)
  next
    case Type_Subscribe
    obtain op where op: "subscribe_op_at i cl = Some op" using u Type_Subscribe by (auto split: option.splits)
    have w: "step_ok (upd_subscribe i (\<lambda>p. p\<lparr>sub_cb := True, sub_msg := m\<rparr>) (?c\<lparr>m_clientState := st\<rparr>)) ?c" for m
      by (rule step_ok_effect [OF st]) (simp_all add: upd_same_core)
    show ?thesis
      using ec g(1) g(2) [OF _ w] Type_Subscribe
      by (auto simp: SubscribeOp_send_def op a upd_subscribe_def Let_def split_beta split: if_splits)
  next
    case Type_Unsubscribe
    obtain op where op: "unsubscribe_op_at i cl = Some op" using u Type_Unsubscribe by (auto split: option.splits)
    have w: "step_ok (upd_unsubscribe i (\<lambda>p. p\<lparr>uns_cb := True, uns_msg := m\<rparr>) (?c\<lparr>m_clientState := st\<rparr>)) ?c" for m
      by (rule step_ok_effect [OF st]) (simp_all add: upd_same_core)
    show ?thesis
      using ec g(1) g(2) [OF _ w] Type_Unsubscribe
      by (auto simp: UnsubscribeOp_send_def op a upd_unsubscribe_def Let_def split_beta split: if_splits)
  next
    case Type_Disconnect
    then show ?thesis using u ec by (auto simp: DisconnectOp_send_def Let_def)
  next
    case Type_Send
    obtain op where op: "send_op_at i cl = Some op" "\<not> so_published op" "\<not> so_paused op"
      using u Type_Send by (auto split: option.splits)
    show ?thesis using publish_failed_gone [OF ok op] ec Type_Send by simp
  qed (use u in simp_all)
qed

lemma unsent_calls_free:
  assumes ok: "client_ok cl" and u: "unsent (t, i) cl"
  shows "frees_ok True {Use_After_Free} (snd (send_call b elapsed cb (t, i) cl)) cl"
    and "frees_ok True {Use_After_Free} (snd (cancel_call b (t, i) cl)) cl"
proof -
  have c: "frees_ok True F c' cl" if "frees_ok (\<not> q) F c' cl" "\<not> q" for q F c' using that by simp
  show "frees_ok True {Use_After_Free} (snd (send_call b elapsed cb (t, i) cl)) cl"
    using u ConnectOp_send_ok [OF ok] DisconnectOp_send_ok [OF ok] SubscribeOp_send_ok [OF ok]
      UnsubscribeOp_send_ok [OF ok] ReauthOp_send_ok [OF ok] SendOp_send_ok [OF ok]
    by (cases t) (auto split: option.splits)
  show "frees_ok True {Use_After_Free} (snd (cancel_call b (t, i) cl)) cl"
    using u c [OF cancels_ok(1) [OF ok]] c [OF cancels_ok(2) [OF ok]] c [OF cancels_ok(3) [OF ok]]
      c [OF cancels_ok(4) [OF ok]] cancels_ok(5) [OF ok] c [OF SendOp_cancel_ok [OF ok]]
    by (cases t) (auto split: option.splits)
qed

lemma cancel_gone:
  assumes ok: "client_ok cl" and u: "unsent (t, i) cl"
  shows "Some (t, i) \<notin> set (m_ops (snd (cancel_call b (t, i) cl)))"
proof -
  have okc: "client_ok (allowNextPrepare cl)" using allowNextPrepare_ok [OF ok] by (rule keeps_ok_ok)
  show ?thesis
    using u failed_gone(1) [OF ok unsent_live [OF ok u]] opCompleteInternal_gone [OF okc]
    by (cases t) (auto simp: ConnectOp_cancel_def DisconnectOp_cancel_def SubscribeOp_cancel_def
        UnsubscribeOp_cancel_def SendOp_cancel_def ReauthOp_cancel_def split: option.splits)
qed

text \<open>
  After a preparation: whatever fails, the lock is free and the operation is gone.
\<close>

lemma configured_send_settles:
  assumes ok: "client_ok cl" and u: "unsent (t, i) cl" and t: "\<forall>cfg\<in>set cfgs. config_type cfg = t"
  shows "frees_ok True {Use_After_Free} (snd (configured_send b elapsed cb t cfgs (Inr i, cl))) cl"
    and "fst (configured_send b elapsed cb t cfgs (Inr i, cl)) \<noteq> EC_Success \<Longrightarrow>
           Some (t, i) \<notin> set (m_ops (snd (configured_send b elapsed cb t cfgs (Inr i, cl))))"
proof -
  let ?c = "snd (config_all b i cfgs cl)"
  have c: "stays_ok {Use_After_Free} ?c cl" "unsent (t, i) ?c" using config_all_ok [OF ok u] t by blast+
  note okc = stays_ok_ok [OF c(1)]
  have f: "frees_ok True {Use_After_Free} x cl" if "frees_ok True {Use_After_Free} x ?c" for x
    using that c(1) keeps_ok_trans [OF _ stays_ok_keeps [OF c(1)]] by (simp add: frees_ok_def)
  note calls = f [OF unsent_calls_free(1) [OF okc c(2)]] f [OF unsent_calls_free(2) [OF okc c(2)]]
  show "frees_ok True {Use_After_Free} (snd (configured_send b elapsed cb t cfgs (Inr i, cl))) cl"
    using calls by (simp add: configured_send_def handle_send_def handle_cancel_def split_beta)
  show "Some (t, i) \<notin> set (m_ops (snd (configured_send b elapsed cb t cfgs (Inr i, cl))))"
    if "fst (configured_send b elapsed cb t cfgs (Inr i, cl)) \<noteq> EC_Success"
    using that send_failed_gone [OF okc c(2)] cancel_gone [OF okc c(2)]
    by (simp add: configured_send_def handle_send_def handle_cancel_def split_beta split: if_splits)
qed

text \<open>All the calls have this form.\<close>

fun full_prepare :: "full_call \<Rightarrow> prepare_call" where
  "full_prepare (Full_Connect _ _ _ _) = Prepare_Connect"
| "full_prepare (Full_Disconnect _) = Prepare_Disconnect"
| "full_prepare (Full_Subscribe _ _) = Prepare_Subscribe"
| "full_prepare (Full_Unsubscribe _) = Prepare_Unsubscribe"
| "full_prepare (Full_Publish _ _) = Prepare_Publish"
| "full_prepare (Full_Reauth _) = Prepare_Reauth"

lemma full_exec_form:
  "\<exists>cfgs cb'. (\<forall>cfg\<in>set cfgs. config_type cfg = prepared_type (full_prepare call)) \<and>
     full_exec b elapsed cb call cl =
       configured_send b elapsed cb' (prepared_type (full_prepare call)) cfgs (prepare b elapsed (full_prepare call) cl)"
proof (cases call)
  case (Full_Connect basic will extra auth)
  then show ?thesis
    by (intro exI [of _ "given Connect_Basic basic @ given Connect_Will will @ given Connect_Extra extra @
        given Connect_Auth auth"] exI [of _ cb]) (auto simp: connect_full_def given_def split: option.splits)
next
  case (Full_Disconnect cfg)
  then show ?thesis
    by (intro exI [of _ "given Disconnect_Basic cfg"] exI [of _ False])
       (auto simp: disconnect_full_def given_def split: option.splits)
next
  case (Full_Subscribe topics extra)
  then show ?thesis
    by (intro exI [of _ "map Subscribe_Topic topics @ given Subscribe_SubId extra"] exI [of _ cb])
       (auto simp: subscribe_full_def given_def split: option.splits)
next
  case (Full_Unsubscribe topics)
  then show ?thesis
    by (intro exI [of _ "map Unsubscribe_Topic topics"] exI [of _ cb]) (auto simp: unsubscribe_full_def)
next
  case (Full_Publish basic extra)
  then show ?thesis
    by (intro exI [of _ "given Publish_Basic basic @ given Publish_Extra extra"] exI [of _ cb])
       (auto simp: publish_full_def given_def split: option.splits)
next
  case (Full_Reauth cfg)
  then show ?thesis
    by (intro exI [of _ "given Reauth_Auth cfg"] exI [of _ cb]) (auto simp: reauth_def given_def split: option.splits)
qed

section \<open>Properties\<close>

text \<open>
  C18: A call that prepares, configures and sends at once settles everything it began: the
  preparation lock is what it was before, the invariant holds, and when the call reports an error the operation
  it prepared is not registered any more.
\<close>

theorem full_call_settles:
  assumes "client_ok cl" and "full_exec b elapsed cb call cl = (ec, cl')"
  shows "client_ok cl' \<and> m_preparationLocked cl' = m_preparationLocked cl \<and>
         (\<forall>i. ec \<noteq> EC_Success \<and> fst (prepare b elapsed (full_prepare call) cl) = Inr i \<longrightarrow>
            Some (prepared_type (full_prepare call), i) \<notin> set (m_ops cl'))"
proof -
  let ?t = "prepared_type (full_prepare call)"
  obtain cfgs cb' where t: "\<forall>cfg\<in>set cfgs. config_type cfg = ?t"
    and f: "full_exec b elapsed cb call cl = configured_send b elapsed cb' ?t cfgs (prepare b elapsed (full_prepare call) cl)"
    using full_exec_form by meson
  show ?thesis
  proof (cases "prepare b elapsed (full_prepare call) cl")
    case (Pair r c)
    have okc: "client_ok c" using prepare_ok [OF assms(1), of b elapsed "full_prepare call"] Pair by (simp add: keeps_ok_def)
    show ?thesis
    proof (cases r)
      case (Inl e)
      then show ?thesis
        using assms f Pair okc prepare_refused [OF assms(1)] by (auto simp: configured_send_def stays_ok_def)
    next
      case (Inr i)
      have u: "unsent (?t, i) c" using prepare_unsent [OF assms(1)] Pair Inr by blast
      note s = configured_send_settles [OF okc u t, where b = b and elapsed = elapsed and cb = cb']
      have "\<not> m_preparationLocked cl"
        using locked_prepare_fails [OF assms(1), of b elapsed "full_prepare call"] Pair Inr by auto
      then show ?thesis using s assms(2) f Pair Inr by (simp add: frees_ok_def keeps_ok_def)
    qed
  qed
qed

text \<open>A subscription without a callback, which only \<^verbatim>\<open>send\<close> finds out.\<close>

theorem full_call_settles_witness:
  "fst (full_exec sample_build 0 False (Full_Subscribe [] None) (connected_client sample_build)) = EC_BadParam \<and>
   \<not> m_preparationLocked (snd (full_exec sample_build 0 False (Full_Subscribe [] None) (connected_client sample_build))) \<and>
   Some (Type_Subscribe, 0) \<notin>
     set (m_ops (snd (full_exec sample_build 0 False (Full_Subscribe [] None) (connected_client sample_build))))"
proof -
  let ?cl = "connected_client sample_build" and ?call = "Full_Subscribe [] None"
  let ?r = "full_exec sample_build 0 False ?call ?cl"
  let ?p = "prepare sample_build 0 Prepare_Subscribe ?cl"
  have p: "?p = (Inr 0, snd ?p)" using sample_subscribe_prepared by (simp add: prod_eq_iff)
  obtain op where "subscribe_op_at 0 (snd ?p) = Some op"
    using prepare_unsent [OF connected_client_ok p] by (auto split: option.splits)
  then have ec: "fst ?r = EC_BadParam"
    using sample_subscribe_prepared by (simp add: subscribe_full_def given_def configured_send_def handle_send_def
        SubscribeOp_send_def split_beta Let_def)
  have l: "\<not> m_preparationLocked ?cl"
    using locked_prepare_fails [OF connected_client_ok, of sample_build sample_build 0 Prepare_Subscribe]
      sample_subscribe_prepared by auto
  have "full_exec sample_build 0 False ?call ?cl = (EC_BadParam, snd ?r)" using ec by (simp add: prod_eq_iff)
  note f = full_call_settles [OF connected_client_ok this]
  have "fst (prepare sample_build 0 (full_prepare ?call) ?cl) = Inr 0" using arg_cong [OF p, of fst] by simp
  then have "Some (Type_Subscribe, 0) \<notin> set (m_ops (snd ?r))" using f by auto
  then show ?thesis using f ec l by blast
qed

end
