(* ===== verification/Exactly_Once.thy ===== *)
theory Exactly_Once
  imports Client_Send
begin

text \<open>
  What the application is told. \<^verbatim>\<open>m_messageReceivedReportCb\<close> is called from one place, the
  end of \<^verbatim>\<open>RecvOp::handle(PublishMsg&)\<close>: everything else the client does is \<open>quiet\<close>. Among the
  rest are the events of \<^verbatim>\<open>Receive_Flow\<close>, which has the promise of QoS 2 on the receiving side: the
  operation that waits for PUBREL holds the packet identifier, and as long as it does a PUBLISH with that
  identifier is acknowledged and not reported again. Here is what one PUBLISH does.
\<close>

section \<open>Reports to the application\<close>

fun report_of :: "event \<Rightarrow> message_info option" where
  "report_of (Ev_MessageReceived info) = Some info"
| "report_of _ = None"

definition reports :: "client \<Rightarrow> message_info list" where
  "reports cl = List.map_filter report_of (cl_events cl)"

text \<open>A step that tells the application of no message and leaves the session alone.\<close>

definition quiet :: "client \<Rightarrow> client \<Rightarrow> bool" where
  "quiet cl' cl \<longleftrightarrow> reports cl' = reports cl \<and> m_sessionState cl' = m_sessionState cl"

lemma quiet_refl [simp]: "quiet cl cl"
  by (simp add: quiet_def)

lemma quiet_trans: "quiet a b \<Longrightarrow> quiet b c \<Longrightarrow> quiet a c"
  by (simp add: quiet_def)

lemma reports_map_filter_snoc: "List.map_filter f (xs @ [x]) = List.map_filter f xs @ (case f x of None \<Rightarrow> [] | Some y \<Rightarrow> [y])"
  by (simp add: List.map_filter_def split: option.split)

lemma reports_emit [simp]: "report_of ev = None \<Longrightarrow> reports (emit ev cl) = reports cl"
  by (simp add: reports_def emit_def reports_map_filter_snoc)

lemma reports_emit_message: "reports (emit (Ev_MessageReceived info) cl) = reports cl @ [info]"
  by (simp add: reports_def emit_def reports_map_filter_snoc)

lemma reports_same [simp]:
  "reports (fault f cl) = reports cl" "reports (on_timers g cl) = reports cl"
  "reports (on_client_state h cl) = reports cl" "reports (on_session_state k cl) = reports cl"
  "reports (upd_send i u cl) = reports cl" "reports (upd_recv i v cl) = reports cl"
  "reports (destroy_timer t cl) = reports cl" "reports (release_id j cl) = reports cl"
  by (simp_all add: reports_def fault_def on_timers_def on_client_state_def on_session_state_def upd_send_def
      upd_recv_def destroy_timer_def release_id_def)

lemma reports_lists [simp]:
  "reports (cl\<lparr>m_sendOps := a\<rparr>) = reports cl" "reports (cl\<lparr>m_recvOps := r\<rparr>) = reports cl"
  "reports (cl\<lparr>m_connectOps := c\<rparr>) = reports cl" "reports (cl\<lparr>m_keepAliveOps := k\<rparr>) = reports cl"
  "reports (cl\<lparr>m_disconnectOps := d\<rparr>) = reports cl" "reports (cl\<lparr>m_subscribeOps := s\<rparr>) = reports cl"
  "reports (cl\<lparr>m_unsubscribeOps := u\<rparr>) = reports cl" "reports (cl\<lparr>m_reauthOps := x\<rparr>) = reports cl"
  "reports (cl\<lparr>m_ops := o'\<rparr>) = reports cl" "reports (cl\<lparr>m_opsDeleted := q\<rparr>) = reports cl"
  "reports (cl\<lparr>m_timerMgr := tm\<rparr>) = reports cl" "reports (cl\<lparr>cl_nextId := n\<rparr>) = reports cl"
  by (simp_all add: reports_def)

lemma reports_sendMessage [simp]: "reports (snd (sendMessage b msg cl)) = reports cl"
proof -
  have r: "List.map_filter report_of (xs @ ys) = List.map_filter report_of xs @ List.map_filter report_of ys" for xs ys
    by (simp add: List.map_filter_def)
  show ?thesis by (rule sendMessage_frame [of b msg cl]) (simp add: reports_def r List.map_filter_def)
qed

lemma session_same [simp]:
  "m_sessionState (emit ev cl) = m_sessionState cl" "m_sessionState (fault f cl) = m_sessionState cl"
  "m_sessionState (on_timers g cl) = m_sessionState cl" "m_sessionState (on_client_state h cl) = m_sessionState cl"
  "m_sessionState (upd_send i u cl) = m_sessionState cl" "m_sessionState (upd_recv i v cl) = m_sessionState cl"
  "m_sessionState (destroy_timer t cl) = m_sessionState cl" "m_sessionState (release_id j cl) = m_sessionState cl"
  "m_sessionState (snd (sendMessage b msg cl)) = m_sessionState cl"
  by (simp_all add: emit_def fault_def on_timers_def on_client_state_def upd_send_def upd_recv_def destroy_timer_def
      release_id_def)

lemma session_written [simp]: "m_sessionState (on_session_state k cl) = k (m_sessionState cl)"
  by (simp add: on_session_state_def)

text \<open>The elementary effects.\<close>

lemma quiet_effects [simp]:
  "report_of ev = None \<Longrightarrow> quiet (emit ev c) cl = quiet c cl" "quiet (fault f c) cl = quiet c cl"
  "quiet (on_timers g c) cl = quiet c cl" "quiet (on_client_state h c) cl = quiet c cl"
  "quiet (upd_send i u c) cl = quiet c cl" "quiet (upd_recv i v c) cl = quiet c cl"
  "quiet (destroy_timer t c) cl = quiet c cl" "quiet (release_id j c) cl = quiet c cl"
  "quiet (snd (sendMessage b msg c)) cl = quiet c cl"
  by (simp_all add: quiet_def)

lemma quiet_lists [simp]:
  "quiet (c\<lparr>m_sendOps := a\<rparr>) cl = quiet c cl" "quiet (c\<lparr>m_recvOps := r\<rparr>) cl = quiet c cl"
  "quiet (c\<lparr>m_connectOps := x\<rparr>) cl = quiet c cl" "quiet (c\<lparr>m_keepAliveOps := k\<rparr>) cl = quiet c cl"
  "quiet (c\<lparr>m_disconnectOps := d\<rparr>) cl = quiet c cl" "quiet (c\<lparr>m_subscribeOps := s\<rparr>) cl = quiet c cl"
  "quiet (c\<lparr>m_unsubscribeOps := u\<rparr>) cl = quiet c cl" "quiet (c\<lparr>m_reauthOps := y\<rparr>) cl = quiet c cl"
  "quiet (c\<lparr>m_ops := o'\<rparr>) cl = quiet c cl" "quiet (c\<lparr>m_opsDeleted := q\<rparr>) cl = quiet c cl"
  "quiet (c\<lparr>m_timerMgr := tm\<rparr>) cl = quiet c cl" "quiet (c\<lparr>cl_nextId := n\<rparr>) cl = quiet c cl"
  by (simp_all add: quiet_def)

section \<open>Completing and resuming are quiet\<close>

definition rs_quiet :: "resumption \<Rightarrow> bool" where
  "rs_quiet rs \<longleftrightarrow> (\<forall>idx c cl. quiet c cl \<longrightarrow> quiet (rs idx c) cl)"

lemma opComplete_with_quiet:
  assumes rs: "rs_quiet rs" and q: "quiet c cl"
  shows "quiet (opComplete_with rs ref c) cl"
proof -
  have s: "quiet (opComplete_Send rs i x) cl" if "quiet x cl" for i x
    using rs that by (simp add: opComplete_Send_def destroy_SendOp_def rs_quiet_def split_beta Let_def split: option.split)
  have others: "quiet (opComplete_Connect i x) cl" "quiet (opComplete_KeepAlive i x) cl"
    "quiet (opComplete_Disconnect i x) cl" "quiet (opComplete_Subscribe i x) cl" "quiet (opComplete_Unsubscribe i x) cl"
    "quiet (opComplete_Recv i x) cl" "quiet (opComplete_Reauth i x) cl" if "quiet x cl" for i x
    using that
    by (simp_all add: opComplete_Connect_def opComplete_KeepAlive_def opComplete_Disconnect_def opComplete_Subscribe_def
        opComplete_Unsubscribe_def opComplete_Recv_def opComplete_Reauth_def split: option.split)
  show ?thesis using s others q by (simp add: opComplete_with_def Let_def split: op_type.split)
qed

lemma SendOp_completeWithCb_quiet:
  assumes "rs_quiet rs" and q: "quiet c cl"
  shows "quiet (SendOp_completeWithCb rs i status response c) cl"
    and "quiet (SendOp_opCompleteInternal rs i c) cl"
proof -
  show o: "quiet (SendOp_opCompleteInternal rs i c) cl"
    using q by (simp add: SendOp_opCompleteInternal_def opComplete_with_quiet [OF assms(1)] Let_def split: option.split)
  show "quiet (SendOp_completeWithCb rs i status response c) cl"
    using o q by (simp add: SendOp_completeWithCb_def Let_def split: option.split)
qed

lemma SendOp_restartResponseTimer_quiet [simp]: "quiet (SendOp_restartResponseTimer i c) cl = quiet c cl"
  by (simp add: SendOp_restartResponseTimer_def split: option.split)

lemma doSendInternal_quiet:
  assumes "rs_quiet rs" and "quiet c cl"
  shows "quiet (snd (doSendInternal rs b i c)) cl"
  using assms(2) by (simp add: doSendInternal_def SendOp_completeWithCb_quiet [OF assms(1)] split_beta Let_def
      split: option.split)

lemma SendOp_resume_quiet:
  assumes "rs_quiet rs" and "quiet c cl"
  shows "quiet (snd (SendOp_resume rs b i c)) cl"
  using assms(2) by (simp add: SendOp_resume_def doSendInternal_quiet [OF assms(1)]
      SendOp_completeWithCb_quiet [OF assms(1)] split_beta Let_def split: option.split)

lemma resumeSendOpsSince_quiet: "rs_quiet (resumeSendOpsSince n b)"
proof (induction n)
  case (Suc n)
  have q: "quiet (resumeSendOpsSince n b idx c) cl" if "quiet c cl" for idx c cl
    using Suc that by (simp add: rs_quiet_def)
  show ?case
    unfolding rs_quiet_def using q SendOp_resume_quiet [OF Suc, of _ _ b] by (simp add: Let_def split_beta)
qed (simp add: rs_quiet_def)

lemma resumeSends_quiet: "rs_quiet (resumeSends b)"
  using resumeSendOpsSince_quiet by (simp add: rs_quiet_def resumeSends_def)

lemma completions_quiet:
  "quiet c cl \<Longrightarrow> quiet (opComplete b ref c) cl"
  "quiet c cl \<Longrightarrow> quiet (completeWithCb b i status response c) cl"
  unfolding opComplete_def completeWithCb_def
  by (simp_all add: opComplete_with_quiet SendOp_completeWithCb_quiet resumeSends_quiet)

section \<open>Losing the connection\<close>

lemma terminateOp_quiet: "quiet c cl \<Longrightarrow> quiet (terminateOp b status ref c) cl"
  by (simp add: terminateOp_def ConnectOp_completeOpInternal_def SubscribeOp_completeOpInternal_def
      UnsubscribeOp_completeOpInternal_def ReauthOp_completeOpInternal_def completions_quiet Let_def
      split: op_type.split option.split)

lemma fold_quiet: "(\<And>k c. quiet c cl \<Longrightarrow> quiet (f k c) cl) \<Longrightarrow> quiet c cl \<Longrightarrow> quiet (fold f ks c) cl"
  by (induction ks arbitrary: c) simp_all

lemma terminateOps_quiet: "quiet c cl \<Longrightarrow> quiet (terminateOps b status mode c) cl"
  unfolding terminateOps_def
  by (rule fold_quiet) (simp_all add: terminate_at_def terminateOp_quiet split: option.split)

lemma connectivity_quiet: "quiet c cl \<Longrightarrow> quiet (connectivity_at b k c) cl"
  using terminateOp_quiet [of c cl b St_BrokerDisconnected "(Type_Connect, i)" for i]
  by (simp add: connectivity_at_def connectivityChanged_def SendOp_connectivityChanged_def
      RecvOp_connectivityChanged_def terminateOp_def split: option.split op_type.split)

text \<open>Afterwards the client is disconnecting; the rest of the session state is as it was.\<close>

lemma brokerDisconnected_session:
  "reports (brokerDisconnected b reason status info cl) = reports cl"
  "m_sessionState (brokerDisconnected b reason status info cl) =
     (m_sessionState cl)\<lparr>m_connected := False, m_disconnecting := True\<rparr>"
proof -
  let ?c = "on_session_state (\<lambda>s. s\<lparr>m_disconnecting := True\<rparr>) (on_session_state (\<lambda>s. s\<lparr>m_connected := False\<rparr>)
                  (on_client_state (\<lambda>s. s\<lparr>m_initialized := False\<rparr>) cl))"
  have t: "quiet (terminateOps b status mode ?c) ?c" for mode by (simp add: terminateOps_quiet)
  have f: "quiet (fold (connectivity_at b) ks x) ?c" if "quiet x ?c" for ks x
    by (rule fold_quiet [OF connectivity_quiet that])
  have "quiet (brokerDisconnected b reason status info cl) ?c"
    unfolding brokerDisconnected_def Let_def using t f [OF t] by simp
  then show "reports (brokerDisconnected b reason status info cl) = reports cl"
    "m_sessionState (brokerDisconnected b reason status info cl) =
     (m_sessionState cl)\<lparr>m_connected := False, m_disconnecting := True\<rparr>"
    by (simp_all add: quiet_def)
qed

text \<open>How long the session is to be kept after a loss.\<close>

abbreviation session_expiry :: "client \<Rightarrow> 64 word" where
  "session_expiry cl \<equiv> m_sessionExpiryIntervalMs (m_sessionState cl)"

lemma recvOps_effects [simp]:
  "m_recvOps (emit ev cl) = m_recvOps cl" "m_recvOps (fault f cl) = m_recvOps cl"
  "m_recvOps (on_timers g cl) = m_recvOps cl" "m_recvOps (on_session_state k cl) = m_recvOps cl"
  "m_recvOps (on_client_state h cl) = m_recvOps cl" "m_recvOps (destroy_timer t cl) = m_recvOps cl"
  "m_recvOps (release_id j cl) = m_recvOps cl"
  "m_recvOps (RecvOp_restartResponseTimer b i cl) = m_recvOps cl"
  by (simp_all add: emit_def fault_def on_timers_def on_session_state_def on_client_state_def
      RecvOp_restartResponseTimer_def destroy_timer_def release_id_def split: option.split)

text \<open>A session to be kept keeps the messages that are being received.\<close>

lemma completion_keeps_receiving:
  assumes "\<not> is_send_recv ref"
  shows "m_recvOps (opComplete b ref c) = m_recvOps c" and "m_recvOps (terminateOp b status ref c) = m_recvOps c"
proof -
  show o: "m_recvOps (opComplete b ref c) = m_recvOps c"
    using assms by (simp add: opComplete_def opComplete_with_def is_send_recv_def opComplete_Connect_def
        opComplete_KeepAlive_def opComplete_Disconnect_def opComplete_Subscribe_def opComplete_Unsubscribe_def
        opComplete_Reauth_def Let_def split: op_type.split option.split)
  obtain t i where r: "ref = (t, i)" by (cases ref)
  show "m_recvOps (terminateOp b status ref c) = m_recvOps c"
    using assms o unfolding r by (cases t) (simp_all add: terminateOp_def ConnectOp_completeOpInternal_def
        SubscribeOp_completeOpInternal_def UnsubscribeOp_completeOpInternal_def ReauthOp_completeOpInternal_def
        is_send_recv_def Let_def split: option.split)
qed

lemma fold_keeps: "(\<And>k c. g (f k c) = g c) \<Longrightarrow> g (fold f ks c) = g c"
  by (induction ks arbitrary: c) simp_all

lemma terminateOps_keeps_receiving: "m_recvOps (terminateOps b status KeepSendRecvOps c) = m_recvOps c"
  unfolding terminateOps_def
  by (rule fold_keeps) (simp add: terminate_at_def completion_keeps_receiving split: option.split)

lemma connectivity_keeps_receiving: "m_recvOps (connectivity_at b k c) = m_recvOps c"
  using completion_keeps_receiving(2) [of "(Type_Connect, i)" b St_BrokerDisconnected c for i]
  by (simp add: connectivity_at_def connectivityChanged_def SendOp_connectivityChanged_def
      RecvOp_connectivityChanged_def terminateOp_def is_send_recv_def split: option.split op_type.split)

lemma brokerDisconnected_keeps_receiving:
  assumes "0 < session_expiry cl"
  shows "set (m_recvOps cl) \<subseteq> set (m_recvOps (brokerDisconnected b reason status info cl))"
proof (cases "m_recvOps cl = []")
  case False
  let ?c = "on_session_state (\<lambda>s. s\<lparr>m_disconnecting := True\<rparr>) (on_session_state (\<lambda>s. s\<lparr>m_connected := False\<rparr>)
                  (on_client_state (\<lambda>s. s\<lparr>m_initialized := False\<rparr>) cl))"
  have "m_recvOps (fold (connectivity_at b) ks x) = m_recvOps x" for ks x
    by (rule fold_keeps) (rule connectivity_keeps_receiving)
  then have "m_recvOps (brokerDisconnected b reason status info cl) = m_recvOps cl"
    using assms False terminateOps_keeps_receiving [of b status ?c] by (simp add: brokerDisconnected_def Let_def)
  then show ?thesis by simp
qed simp

lemma terminated:
  "reports (terminationWithReason b reason cl) = reports cl"
  "m_disconnecting (m_sessionState (terminationWithReason b reason cl))"
  "reports (protocolErrorTermination b cl) = reports cl"
  "m_disconnecting (m_sessionState (protocolErrorTermination b cl))"
  by (simp_all add: protocolErrorTermination_def terminationWithReason_def brokerDisconnected_session
      sendDisconnectWithReason_def)

lemma terminated_keeps_receiving:
  assumes "0 < session_expiry cl"
  shows "set (m_recvOps cl) \<subseteq> set (m_recvOps (terminationWithReason b reason cl))"
    and "set (m_recvOps cl) \<subseteq> set (m_recvOps (protocolErrorTermination b cl))"
proof -
  have d: "m_recvOps (sendDisconnectWithReason b r cl) = m_recvOps cl" for r
    unfolding sendDisconnectWithReason_def by (rule sendMessage_frame) simp
  have "0 < session_expiry (sendDisconnectWithReason b r cl)" for r using assms by (simp add: sendDisconnectWithReason_def)
  from brokerDisconnected_keeps_receiving [OF this]
  have t: "set (m_recvOps cl) \<subseteq> set (m_recvOps (terminationWithReason b r cl))" for r
    by (simp add: terminationWithReason_def d)
  show "set (m_recvOps cl) \<subseteq> set (m_recvOps (terminationWithReason b reason cl))" by (rule t)
  show "set (m_recvOps cl) \<subseteq> set (m_recvOps (protocolErrorTermination b cl))"
    unfolding protocolErrorTermination_def by (rule t)
qed

section \<open>The reception of a PUBLISH\<close>

text \<open>The identifiers of the QoS 2 messages that wait for their PUBREL.\<close>

definition pending_ids :: "client \<Rightarrow> 16 word set" where
  "pending_ids cl = ro_packetId ` set (m_recvOps cl)"

lemma findRecvOp_None: "findRecvOp p cl = None \<longleftrightarrow> p \<notin> pending_ids cl"
  by (auto simp: findRecvOp_def find_None_iff pending_ids_def)

lemma recv_written [simp]:
  "m_recvOps (upd_recv i f cl) = upd_op ro_id i f (m_recvOps cl)"
  "reports (RecvOp_restartResponseTimer b i cl) = reports cl"
  by (simp_all add: upd_recv_def RecvOp_restartResponseTimer_def split: option.split)

lemma erase_others: "x \<in> set xs \<Longrightarrow> oid x \<noteq> i \<Longrightarrow> x \<in> set (snd (eraseFromList oid i xs))"
proof (induction xs)
  case (Cons y ys)
  then show ?case by (auto simp: eraseFromList_def Let_def find_idx_def)
qed simp

lemma opComplete_Recv_others:
  "x \<in> set (m_recvOps cl) \<Longrightarrow> ro_id x \<noteq> i \<Longrightarrow> x \<in> set (m_recvOps (opComplete b (Type_Recv, i) cl))"
  by (simp add: opComplete_def opComplete_with_def opComplete_Recv_def destroy_timer_def erase_others Let_def
      split: option.split)

text \<open>
  What becomes of the operations that were there (\<open>olds\<close>) while the new operation \<open>i\<close>
  handles its PUBLISH: they stay, unless the client gives up a connection whose session is not
  kept (\<open>e\<close> is its expiry interval). The message is reported at most once, and then, at QoS 2, the operation holds its identifier.
\<close>

definition received :: "64 word \<Rightarrow> recv_op set \<Rightarrow> message_info list \<Rightarrow> 16 word \<Rightarrow> client \<Rightarrow> bool" where
  "received e olds told p cl' \<longleftrightarrow>
     reports cl' = told \<and> m_disconnecting (m_sessionState cl') \<and> (0 < e \<longrightarrow> olds \<subseteq> set (m_recvOps cl')) \<or>
     olds \<subseteq> set (m_recvOps cl') \<and>
       (reports cl' = told \<or> (\<exists>info. reports cl' = told @ [info] \<and> p \<in> pending_ids cl'))"

lemma received_ended:
  assumes "reports cl = told" and "\<forall>x\<in>olds. x \<in> set (m_recvOps cl) \<and> ro_id x \<noteq> i" and "session_expiry cl = e"
  shows "received e olds told p (terminationWithReason b reason cl)"
    and "received e olds told p (protocolErrorTermination b cl)"
  using assms terminated_keeps_receiving [of cl b] by (fastforce simp: received_def terminated)+

lemma received_completed:
  assumes "\<forall>x\<in>olds. x \<in> set (m_recvOps cl) \<and> ro_id x \<noteq> i" and "reports cl = told"
  shows "received e olds told p (opComplete b (Type_Recv, i) cl)"
    and "received e olds told p (fault f cl)" and "received e olds told p cl"
proof -
  have "reports (opComplete b (Type_Recv, i) cl) = reports cl"
    using completions_quiet(1) [of cl cl b "(Type_Recv, i)"] by (simp add: quiet_def)
  then show "received e olds told p (opComplete b (Type_Recv, i) cl)"
    using assms opComplete_Recv_others [of _ cl i b] by (auto simp: received_def)
  show "received e olds told p (fault f cl)" "received e olds told p cl"
    using assms by (auto simp: received_def)
qed

lemma completeNotAuthorized_received:
  assumes "\<forall>x\<in>olds. x \<in> set (m_recvOps cl) \<and> ro_id x \<noteq> i" and "reports cl = told"
  shows "received e olds told p (completeNotAuthorized b msg i cl)"
  using assms by (simp add: completeNotAuthorized_def Let_def received_completed(1))

lemma report_message_received:
  assumes olds: "\<forall>x\<in>olds. x \<in> set (m_recvOps cl) \<and> ro_id x \<noteq> i" and told: "reports cl = told"
    and e: "session_expiry cl = e"
    and op: "recv_op_at i cl = Some op" and q: "pm_qos msg = ExactlyOnce" "2 \<le> MaxQos (b_config b)"
  shows "received e olds told (pm_packetId msg) (report_message b msg i info cl)"
proof -
  let ?f = "\<lambda>p. p\<lparr>ro_packetId := pm_packetId msg\<rparr>"
  have in_i: "op \<in> set (m_recvOps cl)" "ro_id op = i" using op op_at_in [of ro_id i "m_recvOps cl"] by (simp_all add: recv_op_at_def)
  have w: "received e olds told (pm_packetId msg) (RecvOp_restartResponseTimer b i
      (snd (sendMessage b m (upd_recv i ?f (emit (Ev_MessageReceived info) cl)))))" for m
  proof -
    have "pm_packetId msg \<in> ro_packetId ` set (upd_op ro_id i ?f (m_recvOps cl))"
      unfolding upd_op_def set_map image_image
      by (rule image_eqI [OF _ in_i(1)]) (simp add: in_i(2))
    moreover have "olds \<subseteq> set (upd_op ro_id i ?f (m_recvOps cl))"
      using olds by (force simp: upd_op_def)
    ultimately show ?thesis
      using told by (simp add: received_def pending_ids_def reports_emit_message)
  qed
  have "received e olds told (pm_packetId msg) (terminationWithReason b RC_UnspecifiedError cl)"
    by (rule received_ended(1) [OF told olds e])
  moreover have "received e olds told (pm_packetId msg) cl"
    by (rule received_completed(3) [OF olds told])
  ultimately show ?thesis
    using w q by (simp add: report_message_def Let_def)
qed

lemma accept_message_received:
  assumes olds: "\<forall>x\<in>olds. x \<in> set (m_recvOps cl) \<and> ro_id x \<noteq> i" and told: "reports cl = told"
    and e: "session_expiry cl = e"
    and op: "recv_op_at i cl = Some op" and q: "pm_qos msg = ExactlyOnce" "2 \<le> MaxQos (b_config b)"
  shows "received e olds told (pm_packetId msg) (accept_message b msg i cl)"
proof -
  let ?R = "received e olds told (pm_packetId msg)"
  let ?k = "\<lambda>aliases. on_session_state (\<lambda>s. s\<lparr>m_recvTopicAliases := aliases\<rparr>) cl"
  have c: "\<forall>x\<in>olds. x \<in> set (m_recvOps (?k k)) \<and> ro_id x \<noteq> i"
    "reports (?k k) = told" "session_expiry (?k k) = e" "recv_op_at i (?k k) = Some op" for k
    using olds told op e by simp_all
  have ends: "?R (protocolErrorTermination b cl)" "?R (protocolErrorTermination b (?k k))"
    "?R (terminationWithReason b r (?k k))" "?R (fault f (?k k))"
    "?R (completeNotAuthorized b msg i (?k k))"
    "?R (report_message b msg i info (?k k))" for k r f info
    using received_ended [OF told olds e] received_ended [OF c(2,1,3)] received_completed(2) [OF c(1,2)]
      completeNotAuthorized_received [OF c(1,2)] report_message_received [OF c q] by simp_all
  show ?thesis
    unfolding accept_message_def Let_def split_beta
    by (cases "fst (resolve_alias (b_config b) (m_maxRecvTopicAlias (m_sessionState cl))
          (m_recvTopicAliases (m_sessionState cl)) (pm_topic msg)
          (ph_topicAlias (handle_props (b_config b) (pm_props msg))))")
       (simp_all only: alias_result.case ends if_True if_False split: if_splits option.split bool.split, simp_all add: ends)
qed

lemma RecvOp_handle_Publish_received:
  assumes olds: "\<forall>x\<in>olds. x \<in> set (m_recvOps cl) \<and> ro_id x \<noteq> i" and told: "reports cl = told"
    and e: "session_expiry cl = e"
    and op: "recv_op_at i cl = Some op" and q: "pm_qos msg = ExactlyOnce"
  shows "received e olds told (pm_packetId msg) (RecvOp_handle_Publish b msg i cl)"
proof -
  let ?R = "received e olds told (pm_packetId msg)"
  have same: "?R cl" by (rule received_completed(3) [OF olds told])
  have again: "?R (RecvOp_restartResponseTimer b i (snd (sendMessage b m cl)))" for m
    using olds told by (auto simp: received_def RecvOp_restartResponseTimer_def split: option.split)
  show ?thesis
    unfolding RecvOp_handle_Publish_def op option.case Let_def
    using same again received_ended [OF told olds e] completeNotAuthorized_received [OF olds told]
      accept_message_received [OF olds told e op q] q by auto
qed

lemma keep_alive_received_frame:
  obtains tm where "keep_alive_received cl = cl\<lparr>m_timerMgr := tm\<rparr>"
proof -
  have "\<exists>tm. fold KeepAliveOp_handle_other ops c = c\<lparr>m_timerMgr := tm\<rparr>" for ops c
  proof (induction ops arbitrary: c)
    case Nil
    have "fold KeepAliveOp_handle_other [] c = c\<lparr>m_timerMgr := m_timerMgr c\<rparr>" by simp
    then show ?case by blast
  next
    case (Cons op ops)
    have "\<exists>tm. KeepAliveOp_handle_other op c = c\<lparr>m_timerMgr := tm\<rparr>"
      by (cases "m_keepAliveMs (m_sessionState c) = 0")
         (auto simp: KeepAliveOp_handle_other_def restartRecvTimer_def on_timers_def Let_def
           intro: exI [of _ "m_timerMgr c"])
    then obtain tm where "KeepAliveOp_handle_other op c = c\<lparr>m_timerMgr := tm\<rparr>" ..
    with Cons.IH [of "c\<lparr>m_timerMgr := tm\<rparr>"] show ?case by auto
  qed
  then show thesis using that by (auto simp: keep_alive_received_def)
qed

lemma keep_alive_received_same:
  "reports (keep_alive_received cl) = reports cl" "m_recvOps (keep_alive_received cl) = m_recvOps cl"
  by (rule keep_alive_received_frame [of cl]; simp)+

lemma handle_new_publish_received:
  assumes ok: "client_ok cl" and q: "pm_qos msg = ExactlyOnce"
  shows "received (session_expiry cl) (set (m_recvOps cl)) (reports cl) (pm_packetId msg) (handle_new_publish b msg cl)"
proof (cases "alloc_fails (RecvOpsLimit (b_config b)) (m_recvOps cl)")
  case True
  let ?s = "sendDisconnectMsg b RC_ReceiveMaxExceeded cl"
  have "m_recvOps ?s = m_recvOps cl" unfolding sendDisconnectMsg_def by (rule sendMessage_frame) simp
  moreover have "session_expiry ?s = session_expiry cl" "reports ?s = reports cl" by (simp_all add: sendDisconnectMsg_def)
  ultimately show ?thesis
    using True brokerDisconnected_keeps_receiving [of ?s b]
    by (simp add: handle_new_publish_def createRecvOp_def received_def brokerDisconnected_session)
next
  case False
  obtain op tm where c: "RecvOp_construct b cl = (op, cl\<lparr>m_timerMgr := tm\<rparr>)" "ro_id op = cl_nextId cl"
    by (rule RecvOp_construct_frame)
  let ?r = "register_op Type_Recv (cl\<lparr>m_timerMgr := tm, m_recvOps := m_recvOps cl @ [op]\<rparr>)"
  have ids: "i \<in> set (map ro_id (m_recvOps cl)) \<Longrightarrow> i < cl_nextId cl" for i
    using ok by (auto simp: client_ok_def registry_ok_def live_ids_def dest!: spec [of _ Type_Recv])
  have old: "\<forall>x\<in>set (m_recvOps cl). x \<in> set (m_recvOps ?r) \<and> ro_id x \<noteq> ro_id op"
    using ids c(2) by (fastforce simp: register_op_def)
  have told: "reports ?r = reports cl" "session_expiry ?r = session_expiry cl" by (simp_all add: register_op_def)
  have "ro_id op \<in> set (map ro_id (m_recvOps ?r))" by (simp add: register_op_def)
  then obtain op' where "recv_op_at (ro_id op) ?r = Some op'" using op_at_live unfolding recv_op_at_def by blast
  from RecvOp_handle_Publish_received [OF old told this q]
  show ?thesis using False c(1) by (simp add: handle_new_publish_def createRecvOp_def Let_def)
qed

text \<open>
  One PUBLISH with QoS 2: nothing is reported for an identifier that is pending, and
  what is pending stays so, as long as the connection is not given up.
\<close>

lemma handle_Publish_received:
  assumes ok: "client_ok cl" and q: "pm_qos msg = ExactlyOnce" and on: "\<not> m_disconnecting (m_sessionState cl)"
  shows "received (session_expiry cl) (set (m_recvOps cl)) (reports cl) (pm_packetId msg) (handle_Publish b msg cl)"
    and "pm_packetId msg \<in> pending_ids cl \<Longrightarrow> 2 \<le> MaxQos (b_config b) \<Longrightarrow>
           reports (handle_Publish b msg cl) = reports cl"
proof -
  let ?k = "keep_alive_received cl"
  have k: "client_ok ?k" "reports ?k = reports cl" "m_recvOps ?k = m_recvOps cl"
    using step_ok_ok [OF keep_alive_received_ok [OF ok]] keep_alive_received_same [of cl] by simp_all
  have ke: "session_expiry ?k = session_expiry cl" by (rule keep_alive_received_frame [of cl]) simp
  note n = handle_new_publish_received [OF k(1) q, of b, unfolded k(2,3) ke]
  have d: "reports (resetTimer b op c) = reports c" "m_recvOps (resetTimer b op c) = m_recvOps c" for op c
    by (simp_all add: resetTimer_def)
  show "received (session_expiry cl) (set (m_recvOps cl)) (reports cl) (pm_packetId msg) (handle_Publish b msg cl)"
    using n on k(2,3) q d by (auto simp: handle_Publish_def Let_def received_def split: option.split)
  show "reports (handle_Publish b msg cl) = reports cl"
    if "pm_packetId msg \<in> pending_ids cl" "2 \<le> MaxQos (b_config b)"
  proof -
    have "pm_packetId msg \<in> pending_ids ?k" using that(1) k(3) by (simp add: pending_ids_def)
    then obtain op where "findRecvOp (pm_packetId msg) ?k = Some op" using findRecvOp_None by fastforce
    then show ?thesis using on that(2) q k(2) d by (simp add: handle_Publish_def Let_def)
  qed
qed

section \<open>Delivery\<close>

text \<open>What it takes for a message to be accepted as a new one.\<close>

definition accepts_publish :: "build \<Rightarrow> publish_msg \<Rightarrow> client \<Rightarrow> bool" where
  "accepts_publish b msg cl \<longleftrightarrow>
     m_connected (m_sessionState cl) \<and> \<not> m_disconnecting (m_sessionState cl) \<and>
     \<not> alloc_fails (RecvOpsLimit (b_config b)) (m_recvOps cl) \<and>
     (m_highQosRecvLimit (m_sessionState cl) = 0 \<or> length (m_recvOps cl) < m_highQosRecvLimit (m_sessionState cl)) \<and>
     pm_topic msg \<noteq> [] \<and> verifyPubTopic (b_config b) (m_configState cl) (pm_topic msg) False \<and>
     \<not> isProtocolError (handle_props (b_config b) (pm_props msg)) \<and>
     ph_topicAlias (handle_props (b_config b) (pm_props msg)) = None \<and>
     (HasSubTopicVerification (b_config b) \<and> m_verifySubFilter (m_configState cl) \<longrightarrow>
        find_filter (m_subFilters cl) (pm_topic msg) = Some True)"

lemma upd_op_last:
  assumes "\<forall>x\<in>set xs. oid x < oid y"
  shows "op_at oid (oid y) (xs @ [y]) = Some y" and "upd_op oid (oid y) f (xs @ [y]) = xs @ [f y]"
proof -
  have n: "\<forall>x\<in>set xs. oid x \<noteq> oid y" using assms by force
  have f: "List.find (\<lambda>x. oid x = oid y) xs = None" using n by (simp add: find_None_iff)
  have "op_at oid (oid y) (xs @ [y]) = (case List.find (\<lambda>x. oid x = oid y) xs of None \<Rightarrow> Some y | Some z \<Rightarrow> Some z)"
    unfolding op_at_def by (induction xs) auto
  then show "op_at oid (oid y) (xs @ [y]) = Some y" using f by simp
  have "map (\<lambda>x. if oid x = oid y then f x else x) xs = xs" using n by (intro map_idI) simp
  then show "upd_op oid (oid y) f (xs @ [y]) = xs @ [f y]" by (simp add: upd_op_def)
qed

lemma recv_ids_below: "client_ok cl \<Longrightarrow> \<forall>x\<in>set (m_recvOps cl). ro_id x < cl_nextId cl"
  by (fastforce simp: client_ok_def registry_ok_def live_ids_def dest!: spec [of _ Type_Recv])

text \<open>Such a message reaches the end of the handler of a new operation, the last one in the list.\<close>

lemma publish_reported:
  assumes ok: "client_ok cl" and q: "pm_qos msg \<le> ExactlyOnce" "pm_qos msg \<le> MaxQos (b_config b)"
    and a: "accepts_publish b msg cl"
    and new: "pm_qos msg = ExactlyOnce \<Longrightarrow> pm_packetId msg \<notin> pending_ids cl"
  obtains op tm where
    "handle_Publish b msg cl = report_message b msg (ro_id op)
       (message_info_of b msg (handle_props (b_config b) (pm_props msg)) (pm_topic msg))
       (register_op Type_Recv (cl\<lparr>m_timerMgr := tm, m_recvOps := m_recvOps cl @ [op]\<rparr>))"
    and "\<forall>x\<in>set (m_recvOps cl). ro_id x < ro_id op" and "ro_id op = cl_nextId cl"
proof -
  let ?p = "pm_packetId msg" and ?h = "handle_props (b_config b) (pm_props msg)"
  obtain tk where k: "keep_alive_received cl = cl\<lparr>m_timerMgr := tk\<rparr>" by (rule keep_alive_received_frame)
  let ?k = "cl\<lparr>m_timerMgr := tk\<rparr>"
  obtain op tm where c: "RecvOp_construct b ?k = (op, ?k\<lparr>m_timerMgr := tm\<rparr>)" "ro_id op = cl_nextId ?k"
    by (rule RecvOp_construct_frame)
  have c0: "ro_packetId op = 0" using c(1) by (auto simp: RecvOp_construct_def split_beta Let_def)
  let ?r = "register_op Type_Recv (cl\<lparr>m_timerMgr := tm, m_recvOps := m_recvOps cl @ [op]\<rparr>)"
  let ?info = "message_info_of b msg ?h (pm_topic msg)"
  have below: "\<forall>x\<in>set (m_recvOps cl). ro_id x < ro_id op" using recv_ids_below [OF ok] c(2) by simp
  have at: "recv_op_at (ro_id op) ?r = Some op"
    using upd_op_last(1) [OF below] by (simp add: recv_op_at_def register_op_def)
  have none: "findRecvOp ?p ?k = None" if "pm_qos msg = ExactlyOnce"
    using new [OF that] by (simp add: findRecvOp_None pending_ids_def)
  have r: "on_session_state (\<lambda>s. s\<lparr>m_recvTopicAliases := m_recvTopicAliases (m_sessionState ?r)\<rparr>) ?r = ?r"
    by (simp add: on_session_state_def)
  have "accept_message b msg (ro_id op) ?r = report_message b msg (ro_id op) ?info ?r"
    using a r by (simp add: accepts_publish_def accept_message_def resolve_alias_def Let_def register_op_def)
  moreover have "RecvOp_handle_Publish b msg (ro_id op) ?r = accept_message b msg (ro_id op) ?r"
    unfolding RecvOp_handle_Publish_def at option.case
    using a q c0 by (auto simp: accepts_publish_def register_op_def)
  moreover have "handle_new_publish b msg ?k = RecvOp_handle_Publish b msg (ro_id op) ?r"
    using a c(1) by (simp add: accepts_publish_def handle_new_publish_def createRecvOp_def Let_def)
  moreover have "handle_Publish b msg cl = handle_new_publish b msg ?k"
  proof -
    have "pm_qos msg = AtMostOnce \<or> pm_qos msg = AtLeastOnce \<or> pm_qos msg = ExactlyOnce" using q(1) by linarith
    then show ?thesis using a k none by (auto simp: accepts_publish_def handle_Publish_def Let_def)
  qed
  ultimately have "handle_Publish b msg cl = report_message b msg (ro_id op) ?info ?r" by metis
  then show thesis using below c(2) that by simp
qed

lemma qos2_accepted:
  assumes ok: "client_ok cl" and q: "pm_qos msg = ExactlyOnce" "pm_packetIdExists msg" "2 \<le> MaxQos (b_config b)"
    and a: "accepts_publish b msg cl" and new: "pm_packetId msg \<notin> pending_ids cl"
    and fits: "fst (sendMessage b (Pubrec_Out (pm_packetId msg) None) cl) = EC_Success"
  shows "cl_events (handle_Publish b msg cl) = cl_events cl @
           [Ev_MessageReceived (message_info_of b msg (handle_props (b_config b) (pm_props msg)) (pm_topic msg)),
            Ev_Output (Pubrec_Out (pm_packetId msg) None)]"
    and "pending_ids (handle_Publish b msg cl) = insert (pm_packetId msg) (pending_ids cl)"
    and "m_sessionState (handle_Publish b msg cl) = m_sessionState cl"
    and "m_configState (handle_Publish b msg cl) = m_configState cl"
    and "m_subFilters (handle_Publish b msg cl) = m_subFilters cl"
    and "m_cancelNextTickWaitCb (handle_Publish b msg cl) = m_cancelNextTickWaitCb cl"
proof -
  let ?p = "pm_packetId msg" and ?info = "message_info_of b msg (handle_props (b_config b) (pm_props msg)) (pm_topic msg)"
  have q2: "pm_qos msg \<le> ExactlyOnce" "pm_qos msg \<le> MaxQos (b_config b)" using q by simp_all
  obtain op tm where rep: "handle_Publish b msg cl = report_message b msg (ro_id op) ?info
      (register_op Type_Recv (cl\<lparr>m_timerMgr := tm, m_recvOps := m_recvOps cl @ [op]\<rparr>))"
    and below: "\<forall>x\<in>set (m_recvOps cl). ro_id x < ro_id op"
    using new by (blast intro: publish_reported [OF ok q2 a])
  let ?r = "register_op Type_Recv (cl\<lparr>m_timerMgr := tm, m_recvOps := m_recvOps cl @ [op]\<rparr>)"
  let ?u = "upd_recv (ro_id op) (\<lambda>p. p\<lparr>ro_packetId := ?p\<rparr>) (emit (Ev_MessageReceived ?info) ?r)"
  let ?s = "snd (sendMessage b (Pubrec_Out ?p None) ?u)"
  have h: "handle_Publish b msg cl = RecvOp_restartResponseTimer b (ro_id op) ?s"
    unfolding rep using q by (simp add: report_message_def Let_def)
  have "m_sessionState ?u = m_sessionState cl" by (simp add: register_op_def)
  then have f: "fst (sendMessage b (Pubrec_Out ?p None) ?u) = EC_Success"
    using fits sendMessage_result_cong by metis
  have t: "cl_events (RecvOp_restartResponseTimer b i x) = cl_events x"
    "m_sessionState (RecvOp_restartResponseTimer b i x) = m_sessionState x"
    "m_configState (RecvOp_restartResponseTimer b i x) = m_configState x"
    "m_subFilters (RecvOp_restartResponseTimer b i x) = m_subFilters x"
    "m_cancelNextTickWaitCb (RecvOp_restartResponseTimer b i x) = m_cancelNextTickWaitCb x" for i x
    by (simp_all add: RecvOp_restartResponseTimer_def on_timers_def fault_def split: option.split)
  show "cl_events (handle_Publish b msg cl) = cl_events cl @
      [Ev_MessageReceived ?info, Ev_Output (Pubrec_Out ?p None)]"
    unfolding h t by (simp add: sendMessage_events f) (simp add: upd_recv_def emit_def register_op_def)
  show "pending_ids (handle_Publish b msg cl) = insert ?p (pending_ids cl)"
    unfolding h by (simp add: pending_ids_def register_op_def upd_op_last(2) [OF below])
  show "m_sessionState (handle_Publish b msg cl) = m_sessionState cl"
    unfolding h t by (simp add: register_op_def)
  show "m_configState (handle_Publish b msg cl) = m_configState cl"
    "m_subFilters (handle_Publish b msg cl) = m_subFilters cl"
    "m_cancelNextTickWaitCb (handle_Publish b msg cl) = m_cancelNextTickWaitCb cl"
    unfolding h t by (rule sendMessage_frame [of b "Pubrec_Out ?p None" ?u]; simp add: register_op_def upd_recv_def emit_def)+
qed

lemma qos2_repeated:
  assumes q: "pm_qos msg = ExactlyOnce" "2 \<le> MaxQos (b_config b)" "pm_dup msg"
    and p: "pm_packetId msg \<in> pending_ids cl" and on: "\<not> m_disconnecting (m_sessionState cl)"
    and fits: "fst (sendMessage b (Pubrec_Out (pm_packetId msg) None) cl) = EC_Success"
  shows "cl_events (handle_Publish b msg cl) = cl_events cl @ [Ev_Output (Pubrec_Out (pm_packetId msg) None)]"
proof -
  obtain tk where k: "keep_alive_received cl = cl\<lparr>m_timerMgr := tk\<rparr>" by (rule keep_alive_received_frame)
  have "pm_packetId msg \<in> pending_ids (cl\<lparr>m_timerMgr := tk\<rparr>)" using p by (simp add: pending_ids_def)
  then obtain op where op: "findRecvOp (pm_packetId msg) (cl\<lparr>m_timerMgr := tk\<rparr>) = Some op"
    using findRecvOp_None by fastforce
  have "fst (sendMessage b (Pubrec_Out (pm_packetId msg) None) (resetTimer b op (cl\<lparr>m_timerMgr := tk\<rparr>))) = EC_Success"
    using fits sendMessage_result_cong [of "resetTimer b op (cl\<lparr>m_timerMgr := tk\<rparr>)" cl] by (simp add: resetTimer_def)
  then show ?thesis
    using q on k op by (simp add: handle_Publish_def Let_def sendMessage_events) (simp add: resetTimer_def on_timers_def)
qed

section \<open>A sample message\<close>

text \<open>A message for the examples.\<close>

definition sample_message :: "16 word \<Rightarrow> publish_msg" where
  "sample_message p =
     \<lparr>pm_dup = False, pm_qos = ExactlyOnce, pm_retain = False, pm_topic = ''a'', pm_packetId = p,
      pm_packetIdExists = True, pm_props = [], pm_payload = [1, 2]\<rparr>"

definition subscribed_client :: client where
  "subscribed_client = (sample_client sample_build [] [] [])\<lparr>m_subFilters := [''a'']\<rparr>"

lemma subscribed_client_idle:
  "client_ok subscribed_client" "pending_ids subscribed_client = {}" "m_recvOps subscribed_client = []"
  "m_sessionState subscribed_client = SessionState_init\<lparr>m_connected := True\<rparr>"
  "m_configState subscribed_client = ConfigState_init default_config"
proof -
  let ?c = "sample_client sample_build [] [] []"
  have "client_ok ?c" by (rule sample_client_ok) (simp_all add: key_sorted_def)
  moreover have "same_core (?c\<lparr>m_subFilters := [''a'']\<rparr>) ?c" by (simp add: same_core_def live_ids_def split: op_type.split)
  ultimately show "client_ok subscribed_client" unfolding subscribed_client_def by (rule same_core_ok [rotated])
  show r: "m_recvOps subscribed_client = []"
    by (simp add: subscribed_client_def sample_client_def connected_client_empty)
  then show "pending_ids subscribed_client = {}" by (simp add: pending_ids_def)
  show "m_sessionState subscribed_client = SessionState_init\<lparr>m_connected := True\<rparr>"
    by (simp add: subscribed_client_def)
  show "m_configState subscribed_client = ConfigState_init default_config"
    by (simp add: subscribed_client_def sample_client_def connected_client_def with_callbacks_def on_session_state_def
        on_client_state_def ClientImpl_init_def split_beta Let_def sample_build_def)
qed

lemma sample_accepts: "accepts_publish sample_build (sample_message 7) subscribed_client"
proof -
  have "find_filter (m_subFilters subscribed_client) ''a'' = Some True"
    by (simp add: subscribed_client_def isTopicMatch.simps find_sep_def find_idx_def)
  then show ?thesis
    by (simp add: accepts_publish_def subscribed_client_idle SessionState_init_def) (simp add: sample_message_def
      sample_build_def default_config_def ConfigState_init_def alloc_fails_def ext_config_defs verifyPubTopic_def
      verifyPubTopicInternal_def handle_props_def isProtocolError_def PropsHandler_init_def)
qed

end
