(* ===== verification/Client_Disconnect.thy ===== *)
theory Client_Disconnect
  imports Exactly_Once
begin

text \<open>
  Losing the connection, in detail: \<^verbatim>\<open>terminateOps\<close> and \<^verbatim>\<open>brokerDisconnected\<close> of
  \<^verbatim>\<open>client/lib/src/ClientImpl.cpp\<close>. Whoever waits for the completion of an operation is told,
  once and in the order of \<^verbatim>\<open>m_ops\<close>, before the application is told of the disconnection.
  While the client is disconnecting no paused publish is resumed, so that each termination
  removes exactly one operation.
\<close>

section \<open>Who waits for what\<close>

text \<open>The operation was sent with a callback.\<close>

definition waits :: "op_ref \<Rightarrow> client \<Rightarrow> bool" where
  "waits ref cl =
     (case fst ref of
        Type_Connect \<Rightarrow> (case op_at hs_id (snd ref) (m_connectOps cl) of None \<Rightarrow> False | Some op \<Rightarrow> hs_cb op)
      | Type_Reauth \<Rightarrow> (case op_at hs_id (snd ref) (m_reauthOps cl) of None \<Rightarrow> False | Some op \<Rightarrow> hs_cb op)
      | Type_Subscribe \<Rightarrow> (case op_at sub_id (snd ref) (m_subscribeOps cl) of None \<Rightarrow> False | Some op \<Rightarrow> sub_cb op)
      | Type_Unsubscribe \<Rightarrow> (case op_at uns_id (snd ref) (m_unsubscribeOps cl) of None \<Rightarrow> False | Some op \<Rightarrow> uns_cb op)
      | Type_Send \<Rightarrow> (case send_op_at (snd ref) cl of None \<Rightarrow> False | Some op \<Rightarrow> so_cb op)
      | _ \<Rightarrow> False)"

text \<open>What its callback is told, without a response of the broker.\<close>

fun completion :: "async_status \<Rightarrow> op_ref \<Rightarrow> event" where
  "completion status (Type_Connect, i) = Ev_ConnectComplete status None"
| "completion status (Type_Reauth, i) = Ev_ReauthComplete status None"
| "completion status (Type_Subscribe, i) = Ev_SubscribeComplete i status None"
| "completion status (Type_Unsubscribe, i) = Ev_UnsubscribeComplete i status None"
| "completion status (t, i) = Ev_PublishComplete i status None"

definition live_refs :: "client \<Rightarrow> op_ref list" where
  "live_refs cl = List.map_filter (\<lambda>p. p) (m_ops cl)"

section \<open>One operation less\<close>

lemma op_at_erase: "j \<noteq> i \<Longrightarrow> op_at oid j (snd (eraseFromList oid i xs)) = op_at oid j xs"
proof (induction xs)
  case (Cons x xs)
  then show ?case by (auto simp: eraseFromList_def op_at_def Let_def find_idx_def)
qed (simp add: eraseFromList_def erase_at_def Let_def)

lemma waits_effects [simp]:
  "waits r (emit ev cl) = waits r cl" "waits r (on_timers g cl) = waits r cl"
  "waits r (on_client_state h cl) = waits r cl" "waits r (on_session_state k cl) = waits r cl"
  "waits r (destroy_timer t cl) = waits r cl" "waits r (release_id j cl) = waits r cl"
  "waits r (cl\<lparr>m_ops := x, m_opsDeleted := y\<rparr>) = waits r cl"
  "waits r (cl\<lparr>m_keepAliveOps := ks\<rparr>) = waits r cl" "waits r (cl\<lparr>m_disconnectOps := ds\<rparr>) = waits r cl"
  "waits r (cl\<lparr>m_recvOps := rs\<rparr>) = waits r cl"
  by (simp_all add: waits_def emit_def on_timers_def on_client_state_def on_session_state_def destroy_timer_def
      release_id_def send_op_at_def split: op_type.split)

lemma waits_erased:
  "r \<noteq> (Type_Connect, i) \<Longrightarrow> waits r (cl\<lparr>m_connectOps := snd (eraseFromList hs_id i (m_connectOps cl))\<rparr>) = waits r cl"
  "r \<noteq> (Type_Reauth, i) \<Longrightarrow> waits r (cl\<lparr>m_reauthOps := snd (eraseFromList hs_id i (m_reauthOps cl))\<rparr>) = waits r cl"
  "r \<noteq> (Type_Subscribe, i) \<Longrightarrow> waits r (cl\<lparr>m_subscribeOps := snd (eraseFromList sub_id i (m_subscribeOps cl))\<rparr>) = waits r cl"
  "r \<noteq> (Type_Unsubscribe, i) \<Longrightarrow>
     waits r (cl\<lparr>m_unsubscribeOps := snd (eraseFromList uns_id i (m_unsubscribeOps cl))\<rparr>) = waits r cl"
  "r \<noteq> (Type_Send, i) \<Longrightarrow> waits r (cl\<lparr>m_sendOps := snd (eraseFromList so_id i (m_sendOps cl))\<rparr>) = waits r cl"
  by (cases r; auto simp: waits_def op_at_erase send_op_at_def split: op_type.split)+

definition nullify :: "op_ref \<Rightarrow> op_ref option list \<Rightarrow> op_ref option list" where
  "nullify ref ops = ops[find_idx (\<lambda>p. p = Some ref) ops := None]"

lemma opComplete_disconnecting:
  assumes d: "m_disconnecting (m_sessionState cl)" and live: "Some ref \<in> set (m_ops cl)"
  shows "cl_events (opComplete b ref cl) = cl_events cl"
    and "m_ops (opComplete b ref cl) = nullify ref (m_ops cl)"
    and "r \<noteq> ref \<Longrightarrow> waits r (opComplete b ref cl) = waits r cl"
proof -
  obtain t i where r: "ref = (t, i)" by (cases ref)
  have k: "\<not> length (m_ops cl) \<le> find_idx (\<lambda>p. p = Some (t, i)) (m_ops cl)"
    using find_ref [OF live] r by simp
  note unf = opComplete_def opComplete_with_def opComplete_Connect_def opComplete_KeepAlive_def opComplete_Disconnect_def
    opComplete_Subscribe_def opComplete_Unsubscribe_def opComplete_Recv_def opComplete_Reauth_def opComplete_Send_def
    destroy_SendOp_def Let_def split_beta
  let ?c = "cl\<lparr>m_ops := (m_ops cl)[find_idx (\<lambda>p. p = Some (t, i)) (m_ops cl) := None], m_opsDeleted := True\<rparr>"
  have s: "m_sessionState (destroy_timer u (release_id j (?c\<lparr>m_sendOps := v\<rparr>))) = m_sessionState cl" for u j v by simp
  show "cl_events (opComplete b ref cl) = cl_events cl" "m_ops (opComplete b ref cl) = nullify ref (m_ops cl)"
    unfolding r using k d
    by (cases t; simp add: unf nullify_def destroy_timer_def release_id_def on_timers_def on_client_state_def
        split: option.split)+
  show "waits r (opComplete b ref cl) = waits r cl" if "r \<noteq> ref"
    unfolding r using k d that waits_erased [of r i ?c]
    by (cases t) (simp_all add: unf r split: option.split)
qed

lemma terminateOp_disconnecting:
  assumes ok: "client_ok cl" and d: "m_disconnecting (m_sessionState cl)" and live: "Some ref \<in> set (m_ops cl)"
  shows "cl_events (terminateOp b status ref cl) =
           cl_events cl @ (if waits ref cl then [completion status ref] else [])"
    and "m_ops (terminateOp b status ref cl) = nullify ref (m_ops cl)"
    and "r \<noteq> ref \<Longrightarrow> waits r (terminateOp b status ref cl) = waits r cl"
proof -
  obtain t i where r: "ref = (t, i)" by (cases ref)
  note found = live_found [OF ok live [unfolded r]]
  note c = opComplete_disconnecting [where ref = "(t, i)" and b = b]
  let ?s = "\<lambda>f. on_client_state f cl"
  have dl: "m_disconnecting (m_sessionState (?s f))" "Some (t, i) \<in> set (m_ops (?s f))" for f
    using d live r by (simp_all add: on_client_state_def)
  note c0 = c [OF d live [unfolded r]] and c1 = c [OF dl]
  have e: "cl_events (?s f) = cl_events cl" "m_ops (?s f) = m_ops cl" for f by (simp_all add: on_client_state_def)
  note unf = terminateOp_def ConnectOp_completeOpInternal_def SubscribeOp_completeOpInternal_def
    UnsubscribeOp_completeOpInternal_def ReauthOp_completeOpInternal_def completeWithCb_def SendOp_completeWithCb_def
    SendOp_opCompleteInternal_def Let_def opComplete_def [symmetric]
  have o: "opComplete_with (resumeSends b) = opComplete b" by (simp add: opComplete_def)
  have w: "cl_events (emit ev x) = cl_events x @ [ev]" "m_ops (emit ev x) = m_ops x" for ev x
    by (simp_all add: emit_def)
  show "cl_events (terminateOp b status ref cl) =
           cl_events cl @ (if waits ref cl then [completion status ref] else [])"
    unfolding r using found c0(1) c1(1) by (cases t) (auto simp: unf o w waits_def e split: option.split)
  show "m_ops (terminateOp b status ref cl) = nullify ref (m_ops cl)"
    unfolding r using found c0(2) c1(2) by (cases t) (auto simp: unf o w e split: option.split)
  show "waits r (terminateOp b status ref cl) = waits r cl" if "r \<noteq> ref"
    using found that c0(3) c1(3) unfolding r by (cases t) (auto simp: unf o split: option.split)
qed

section \<open>All operations, in order\<close>

text \<open>What a termination leaves of a pointer, and whom it tells.\<close>

definition survives :: "terminate_mode \<Rightarrow> op_ref \<Rightarrow> bool" where
  "survives mode ref \<longleftrightarrow> mode = KeepSendRecvOps \<and> is_send_recv ref"

fun left_over :: "terminate_mode \<Rightarrow> op_ref option \<Rightarrow> op_ref option" where
  "left_over mode None = None"
| "left_over mode (Some ref) = (if survives mode ref then Some ref else None)"

definition told_of :: "async_status \<Rightarrow> terminate_mode \<Rightarrow> client \<Rightarrow> op_ref option list \<Rightarrow> event list" where
  "told_of status mode cl ps =
     map (completion status) (filter (\<lambda>ref. waits ref cl \<and> \<not> survives mode ref) (List.map_filter (\<lambda>p. p) ps))"

lemma left_over_refs:
  "List.map_filter (\<lambda>p. p) (map (left_over mode) ps) = filter (survives mode) (List.map_filter (\<lambda>p. p) ps)"
proof (induction ps)
  case (Cons p ps)
  then show ?case by (cases p) (simp_all add: List.map_filter_def)
qed (simp add: List.map_filter_def)

lemma told_of_append: "told_of status mode cl (ps @ qs) = told_of status mode cl ps @ told_of status mode cl qs"
  by (simp add: told_of_def List.map_filter_def)

lemma nullify_at:
  assumes "distinct (filter (\<lambda>p. p \<noteq> None) ops)" and "n < length ops" and "ops ! n = Some ref"
  shows "nullify ref ops = ops[n := None]"
proof -
  let ?k = "find_idx (\<lambda>p. p = Some ref) ops"
  have "Some ref \<in> set ops" using assms(2,3) by (metis nth_mem)
  then have "?k < length ops" by (simp add: find_idx_less_iff)
  moreover from this have "ops ! ?k = Some ref" using find_idx_nth by blast
  moreover have "Some ref \<notin> set (ops[n := None])" by (rule distinct_nonnull_unique(1) [OF assms])
  ultimately have "?k = n" by (metis length_list_update nth_list_update_neq nth_mem)
  then show ?thesis by (simp add: nullify_def)
qed

lemma terminate_at_disconnecting:
  assumes ok: "client_ok c" and d: "m_disconnecting (m_sessionState c)" and n: "n < length (m_ops c)"
  shows "cl_events (terminate_at b status mode n c) = cl_events c @ told_of status mode c [m_ops c ! n]"
    and "m_ops (terminate_at b status mode n c) = (m_ops c)[n := left_over mode (m_ops c ! n)]"
    and "Some r \<noteq> m_ops c ! n \<or> survives mode r \<Longrightarrow> waits r (terminate_at b status mode n c) = waits r c"
proof -
  have dist: "distinct (filter (\<lambda>p. p \<noteq> None) (m_ops c))" using ok by (simp add: client_ok_def registry_ok_def)
  have same: "cl_events c = cl_events c @ told_of status mode c [m_ops c ! n]"
    "(m_ops c)[n := left_over mode (m_ops c ! n)] = m_ops c"
    if "\<And>ref. m_ops c ! n = Some ref \<Longrightarrow> survives mode ref"
  proof -
    have "left_over mode (m_ops c ! n) = m_ops c ! n" using that by (cases "m_ops c ! n") simp_all
    then show "(m_ops c)[n := left_over mode (m_ops c ! n)] = m_ops c" by simp
    show "cl_events c = cl_events c @ told_of status mode c [m_ops c ! n]"
      using that by (cases "m_ops c ! n") (simp_all add: told_of_def List.map_filter_def)
  qed
  show "cl_events (terminate_at b status mode n c) = cl_events c @ told_of status mode c [m_ops c ! n]"
    "m_ops (terminate_at b status mode n c) = (m_ops c)[n := left_over mode (m_ops c ! n)]"
    "Some r \<noteq> m_ops c ! n \<or> survives mode r \<Longrightarrow> waits r (terminate_at b status mode n c) = waits r c"
  proof (goal_cases)
    case 1
    show ?case
    proof (cases "m_ops c ! n")
      case (Some ref)
      then have "Some ref \<in> set (m_ops c)" using n by (metis nth_mem)
      note t = terminateOp_disconnecting(1) [OF ok d this, of b status]
      show ?thesis using same(1) Some t
        by (auto simp: terminate_at_def survives_def told_of_def List.map_filter_def)
    qed (simp add: terminate_at_def told_of_def List.map_filter_def)
  next
    case 2
    show ?case
    proof (cases "m_ops c ! n")
      case (Some ref)
      then have "Some ref \<in> set (m_ops c)" using n by (metis nth_mem)
      note t = terminateOp_disconnecting(2) [OF ok d this, of b status]
      show ?thesis using same(2) Some t nullify_at [OF dist n Some] by (simp add: terminate_at_def survives_def)
    qed (use same(2) in \<open>simp add: terminate_at_def\<close>)
  next
    case 3
    show ?case
    proof (cases "m_ops c ! n")
      case (Some ref)
      then have "Some ref \<in> set (m_ops c)" using n by (metis nth_mem)
      note t = terminateOp_disconnecting(3) [OF ok d this, of r b status]
      show ?thesis using 3 Some t by (auto simp: terminate_at_def survives_def)
    qed (simp add: terminate_at_def)
  qed
qed

lemma told_of_cong:
  "(\<And>r. Some r \<in> set ps \<Longrightarrow> waits r c = waits r cl) \<Longrightarrow> told_of status mode c ps = told_of status mode cl ps"
  unfolding told_of_def by (intro arg_cong [where f = "map _"] filter_cong) (auto simp: List.map_filter_def)

lemma terminate_loop:
  assumes ok: "client_ok cl" and d: "m_disconnecting (m_sessionState cl)" and n: "n \<le> length (m_ops cl)"
  shows "let c = fold (terminate_at b status mode) [0..<n] cl in
    client_ok c \<and> m_sessionState c = m_sessionState cl \<and>
    m_ops c = map (left_over mode) (take n (m_ops cl)) @ drop n (m_ops cl) \<and>
    cl_events c = cl_events cl @ told_of status mode cl (take n (m_ops cl)) \<and>
    (\<forall>r. Some r \<in> set (drop n (m_ops cl)) \<or> survives mode r \<longrightarrow> waits r c = waits r cl)"
  using n
proof (induction n)
  case 0
  then show ?case using ok by (simp add: told_of_def List.map_filter_def)
next
  case (Suc n)
  let ?c = "fold (terminate_at b status mode) [0..<n] cl" and ?ops = "m_ops cl"
  let ?e = "terminate_at b status mode n ?c"
  have n: "n < length ?ops" using Suc.prems by simp
  have h: "client_ok ?c" "m_sessionState ?c = m_sessionState cl"
    "m_ops ?c = map (left_over mode) (take n ?ops) @ drop n ?ops"
    "cl_events ?c = cl_events cl @ told_of status mode cl (take n ?ops)"
    "\<And>r. Some r \<in> set (drop n ?ops) \<or> survives mode r \<Longrightarrow> waits r ?c = waits r cl"
    using Suc.IH [OF less_imp_le [OF n], unfolded Let_def] by blast+
  have l: "n < length (m_ops ?c)" "m_ops ?c ! n = ?ops ! n" using n by (simp_all add: h(3) nth_append)
  note t = terminate_at_disconnecting [where b = b and status = status and mode = mode, OF h(1) _ l(1)]
  have d': "m_disconnecting (m_sessionState ?c)" using d h(2) by simp
  have drop: "drop n ?ops = ?ops ! n # drop (Suc n) ?ops" using n by (simp add: Cons_nth_drop_Suc)
  have dist: "distinct (filter (\<lambda>p. p \<noteq> None) (drop n ?ops))"
  proof -
    have "distinct (filter (\<lambda>p. p \<noteq> None) (take n ?ops @ drop n ?ops))"
      using ok by (simp add: client_ok_def registry_ok_def)
    then show ?thesis unfolding filter_append by simp
  qed
  have "told_of status mode ?c [?ops ! n] = told_of status mode cl [?ops ! n]"
    by (rule told_of_cong) (use h(5) drop in auto)
  then have e: "cl_events ?e = cl_events cl @ told_of status mode cl (take (Suc n) ?ops)"
    using t(1) [OF d'] h(4) l(2) n by (simp add: take_Suc_conv_app_nth told_of_append)
  have o: "m_ops ?e = map (left_over mode) (take (Suc n) ?ops) @ drop (Suc n) ?ops"
    using t(2) [OF d'] n unfolding h(3) drop l(2) by (simp add: take_Suc_conv_app_nth list_update_append nth_append)
  have w: "waits r ?e = waits r cl" if r: "Some r \<in> set (drop (Suc n) ?ops) \<or> survives mode r" for r
  proof -
    have "waits r ?c = waits r cl" using h(5) r drop by auto
    moreover have "Some r \<noteq> m_ops ?c ! n \<or> survives mode r" 
      using r dist unfolding l(2) drop by (cases "m_ops cl ! n") auto
    ultimately show ?thesis using t(3) [OF d'] by simp
  qed
  have "client_ok ?e" by (rule step_ok_ok [OF terminate_at_ok(1) [OF l(1) h(1)]])
  moreover have "quiet ?e ?c"
    by (simp add: terminate_at_def terminateOp_quiet split: option.split)
  then have "m_sessionState ?e = m_sessionState cl" using h(2) by (simp add: quiet_def)
  ultimately show ?case using e o w by (simp add: Let_def)
qed

lemma terminateOps_disconnecting:
  assumes "client_ok cl" and "m_disconnecting (m_sessionState cl)"
  shows "cl_events (terminateOps b status mode cl) = cl_events cl @ told_of status mode cl (m_ops cl)"
    and "m_ops (terminateOps b status mode cl) = map (left_over mode) (m_ops cl)"
  using terminate_loop [OF assms order_refl, of b status mode] by (simp_all add: terminateOps_def Let_def)

text \<open>What is kept is told that the connection has changed, and nobody else.\<close>

lemma connectivity_events:
  assumes "m_ops cl ! k = None \<or> (\<exists>r. m_ops cl ! k = Some r \<and> is_send_recv r)"
  shows "cl_events (connectivity_at b k cl) = cl_events cl" and "m_ops (connectivity_at b k cl) = m_ops cl"
  using assms by (auto simp: connectivity_at_def connectivityChanged_def SendOp_connectivityChanged_def
      RecvOp_connectivityChanged_def is_send_recv_def on_timers_def fault_def split: option.split)

lemma connectivity_loop:
  assumes "\<forall>p\<in>set (m_ops cl). p = None \<or> (\<exists>r. p = Some r \<and> is_send_recv r)" and "n \<le> length (m_ops cl)"
  shows "cl_events (fold (connectivity_at b) [0..<n] cl) = cl_events cl \<and>
    m_ops (fold (connectivity_at b) [0..<n] cl) = m_ops cl"
  using assms(2)
proof (induction n)
  case (Suc n)
  let ?c = "fold (connectivity_at b) [0..<n] cl"
  have h: "cl_events ?c = cl_events cl" "m_ops ?c = m_ops cl" using Suc by simp_all
  have "m_ops cl ! n \<in> set (m_ops cl)" using Suc.prems by simp
  then have "m_ops ?c ! n = None \<or> (\<exists>r. m_ops ?c ! n = Some r \<and> is_send_recv r)" using assms(1) h(2) by auto
  then show ?case using connectivity_events h by simp
qed simp

lemma live_ids_empty: "live_ids t cl = [] \<longleftrightarrow> (case t of
    Type_Connect \<Rightarrow> m_connectOps cl = [] | Type_KeepAlive \<Rightarrow> m_keepAliveOps cl = []
  | Type_Disconnect \<Rightarrow> m_disconnectOps cl = [] | Type_Subscribe \<Rightarrow> m_subscribeOps cl = []
  | Type_Unsubscribe \<Rightarrow> m_unsubscribeOps cl = [] | Type_Recv \<Rightarrow> m_recvOps cl = []
  | Type_Send \<Rightarrow> m_sendOps cl = [] | Type_Reauth \<Rightarrow> m_reauthOps cl = [])"
  by (simp add: live_ids_def split: op_type.split)

lemma no_pointers: "client_ok cl \<Longrightarrow> (\<forall>i. Some (t, i) \<notin> set (m_ops cl)) \<Longrightarrow> live_ids t cl = []"
  using list.set_sel(1) by (fastforce simp: client_ok_def registry_ok_def)

text \<open>The mode in which the operations are terminated, and the events of losing the connection.\<close>

definition lost_mode :: "client \<Rightarrow> terminate_mode" where
  "lost_mode cl =
     (if 0 < m_sessionExpiryIntervalMs (m_sessionState cl) \<and> (m_recvOps cl \<noteq> [] \<or> m_sendOps cl \<noteq> [])
      then KeepSendRecvOps else AbortSendRecvOps)"

lemma branch_same:
  "cl_events a = cl_events c \<Longrightarrow> cl_events (if p then if x then on_timers g a else a else c) = cl_events c"
  "m_ops a = m_ops c \<Longrightarrow> m_ops (if p then if x then on_timers g a else a else c) = m_ops c"
  by (simp_all add: on_timers_def)

lemma brokerDisconnected_exact:
  assumes ok: "client_ok cl"
  shows "cl_events (brokerDisconnected b reason status info cl) =
           cl_events cl @ told_of status (lost_mode cl) cl (m_ops cl) @
           (if reason \<noteq> BDR_ValuesLimit then [Ev_BrokerDisconnected reason info] else [])"
    and "m_ops (brokerDisconnected b reason status info cl) = map (left_over (lost_mode cl)) (m_ops cl)"
proof -
  let ?cl1 = "on_session_state (\<lambda>s. s\<lparr>m_connected := False\<rparr>)
                  (on_client_state (\<lambda>s. s\<lparr>m_initialized := False\<rparr>) cl)"
  let ?cl11 = "on_session_state (\<lambda>s. s\<lparr>m_disconnecting := True\<rparr>) ?cl1"
  let ?mode = "lost_mode cl" and ?p = "lost_mode cl = KeepSendRecvOps"
  let ?cl2 = "terminateOps b status ?mode ?cl11"
  let ?cl21 = "fold (connectivity_at b) [0..<length (m_ops ?cl2)] ?cl2"
  let ?expiry = "m_sessionExpiryIntervalMs (m_sessionState ?cl21)"
  let ?cl3 = "if ?p then if ?expiry \<noteq> NeverExpiresMs
      then on_timers (timerWait (m_sessionExpiryTimer ?cl21) ?expiry Cb_SessionExpiry) ?cl21 else ?cl21
    else ?cl2"
  have m: "(0 < m_sessionExpiryIntervalMs (m_sessionState ?cl1) \<and> (m_recvOps ?cl1 \<noteq> [] \<or> m_sendOps ?cl1 \<noteq> [])) = ?p"
    by (simp add: lost_mode_def on_session_state_def on_client_state_def)
  have D: "brokerDisconnected b reason status info cl =
      (if reason \<noteq> BDR_ValuesLimit then emit (Ev_BrokerDisconnected reason info) ?cl3 else ?cl3)"
    unfolding brokerDisconnected_def Let_def m by (cases "lost_mode cl") simp_all
  have "same_core (on_client_state (\<lambda>s. s\<lparr>m_initialized := False\<rparr>) cl) cl" by (rule same_core_client_state) simp_all
  then have "same_core ?cl11 cl" using same_core_effects(4) same_core_trans by blast
  then have ok11: "client_ok ?cl11" using same_core_ok ok by blast
  have d: "m_disconnecting (m_sessionState ?cl11)" by simp
  have s1: "cl_events ?cl11 = cl_events cl" "m_ops ?cl11 = m_ops cl"
    by (simp_all add: on_session_state_def on_client_state_def)
  have s2: "told_of status ?mode ?cl11 ps = told_of status ?mode cl ps" for ps by (simp add: told_of_def)
  note t = terminateOps_disconnecting [OF ok11 d, of b status ?mode, unfolded s1 s2]
  have "left_over ?mode q = None \<or> (\<exists>r. left_over ?mode q = Some r \<and> is_send_recv r)" for q
    by (cases q) (auto simp: survives_def)
  then have "\<forall>p\<in>set (m_ops ?cl2). p = None \<or> (\<exists>r. p = Some r \<and> is_send_recv r)" unfolding t(2) by auto
  note c = connectivity_loop [OF this order_refl, of b]
  have e3: "cl_events ?cl3 = cl_events ?cl2" "m_ops ?cl3 = m_ops ?cl2"
    by (rule branch_same(1) [OF conjunct1 [OF c]], rule branch_same(2) [OF conjunct2 [OF c]])
  show "cl_events (brokerDisconnected b reason status info cl) =
           cl_events cl @ told_of status ?mode cl (m_ops cl) @
           (if reason \<noteq> BDR_ValuesLimit then [Ev_BrokerDisconnected reason info] else [])"
    unfolding D using t(1) e3(1) by (cases "reason \<noteq> BDR_ValuesLimit") (simp_all only: if_True if_False simp_thms, simp_all add: emit_def)
  show "m_ops (brokerDisconnected b reason status info cl) = map (left_over ?mode) (m_ops cl)"
    unfolding D using t(2) e3(2) by (cases "reason \<noteq> BDR_ValuesLimit") (simp_all only: if_True if_False simp_thms, simp_all add: emit_def)
qed

section \<open>Properties\<close>

text \<open>
  C8: When the connection is lost the client stops being connected, every operation that
  does not belong to a session that is kept is destroyed, and everyone who waits for one of them is
  told, exactly once, in the order in which the operations were prepared, with the given status;
  the report of the disconnection comes last.
\<close>

theorem everyone_waiting_is_told:
  assumes "client_ok cl"
  shows "let cl' = brokerDisconnected b reason status info cl in
    cl_events cl' = cl_events cl @
      map (completion status) (filter (\<lambda>ref. waits ref cl \<and> \<not> survives (lost_mode cl) ref) (live_refs cl)) @
      (if reason \<noteq> BDR_ValuesLimit then [Ev_BrokerDisconnected reason info] else []) \<and>
    live_refs cl' = filter (survives (lost_mode cl)) (live_refs cl) \<and>
    m_sessionState cl' = (m_sessionState cl)\<lparr>m_connected := False, m_disconnecting := True\<rparr>"
proof -
  show ?thesis
    using brokerDisconnected_exact [OF assms, of b reason status info] brokerDisconnected_session(2) [of b reason status info cl]
    by (simp add: Let_def told_of_def live_refs_def left_over_refs)
qed

theorem everyone_waiting_is_told_witness:
  "cl_events (brokerDisconnected sample_build BDR_ProtocolError St_BrokerDisconnected None
     (sample_client sample_build [(sample_publish 3 5)\<lparr>so_cb := True\<rparr>, sample_publish 4 6]
       [(sample_subscribe 7)\<lparr>sub_cb := True\<rparr>] [5, 6])) =
   cl_events (sample_client sample_build [(sample_publish 3 5)\<lparr>so_cb := True\<rparr>, sample_publish 4 6]
       [(sample_subscribe 7)\<lparr>sub_cb := True\<rparr>] [5, 6]) @
     [Ev_PublishComplete 3 St_BrokerDisconnected None, Ev_SubscribeComplete 7 St_BrokerDisconnected None,
      Ev_BrokerDisconnected BDR_ProtocolError None]"
proof -
  let ?ps = "[(sample_publish 3 5)\<lparr>so_cb := True\<rparr>, sample_publish 4 6]"
  let ?ss = "[(sample_subscribe 7)\<lparr>sub_cb := True\<rparr>]"
  let ?cl = "sample_client sample_build ?ps ?ss [5, 6]"
  have ok: "client_ok ?cl"
    by (rule sample_client_ok) (simp_all add: sample_publish_def sample_subscribe_def key_sorted_def)
  have l: "live_refs ?cl = [(Type_Send, 3), (Type_Send, 4), (Type_Subscribe, 7)]"
    by (simp add: live_refs_def sample_client_def sample_publish_def sample_subscribe_def List.map_filter_def)
  have w: "waits (Type_Send, 3) ?cl" "\<not> waits (Type_Send, 4) ?cl" "waits (Type_Subscribe, 7) ?cl"
    by (simp_all add: waits_def send_op_at_def op_at_def sample_client_def sample_publish_def sample_subscribe_def)
  have m: "lost_mode ?cl = AbortSendRecvOps" by (simp add: lost_mode_def SessionState_init_def)
  from everyone_waiting_is_told [OF ok, of sample_build BDR_ProtocolError St_BrokerDisconnected None]
  show ?thesis by (simp add: Let_def l w m survives_def)
qed

end
