(* ===== verification/Publish_Flow.thy ===== *)
theory Publish_Flow
  imports Client_Disconnect
begin

text \<open>
  The life of a publish as a whole: how many may be unacknowledged at a time
  (\<^verbatim>\<open>canSend\<close>, \<^verbatim>\<open>resumeSendOpsSince\<close>), and the two- and four-way
  handshakes of QoS 1 and QoS 2 on the sending side
  (\<^verbatim>\<open>client/lib/src/op/SendOp.cpp\<close>, \<^verbatim>\<open>client/lib/src/ClientImpl.cpp\<close>).
\<close>

section \<open>Places in flight\<close>

definition in_flight :: "client \<Rightarrow> nat" where
  "in_flight cl = m_inFlightSends (m_clientState cl)"

definition send_limit :: "client \<Rightarrow> nat" where
  "send_limit cl = m_highQosSendLimit (m_sessionState cl)"

text \<open>A step after which no more publishes are in flight than before, or than the limit.\<close>

definition capped :: "client \<Rightarrow> client \<Rightarrow> bool" where
  "capped cl' cl \<longleftrightarrow> within cl' cl \<and> in_flight cl' \<le> max (in_flight cl) (send_limit cl)"

lemma capped_within: "within cl' cl \<Longrightarrow> in_flight cl' \<le> in_flight cl \<Longrightarrow> capped cl' cl"
  by (simp add: capped_def)

lemma capped_trans: "capped a b \<Longrightarrow> capped b c \<Longrightarrow> capped a c"
proof -
  assume ab: "capped a b" and bc: "capped b c"
  have "send_limit b = send_limit c" using bc by (simp add: capped_def within_def send_limit_def)
  then show ?thesis using ab bc within_trans [of a b c] by (auto simp: capped_def)
qed

lemma capped_ok: "capped cl' cl \<Longrightarrow> client_ok cl'"
  using within_ok by (auto simp: capped_def)

lemma in_flight_count: "client_ok cl \<Longrightarrow> in_flight cl = published_count (m_sendOps cl)"
  by (simp add: client_ok_def sends_ok_def in_flight_def)

lemma in_flight_effects [simp]:
  "in_flight (emit ev cl) = in_flight cl" "in_flight (fault g cl) = in_flight cl"
  "in_flight (on_timers h cl) = in_flight cl" "in_flight (on_session_state k cl) = in_flight cl"
  "in_flight (upd_send i u cl) = in_flight cl" "in_flight (snd (sendMessage b msg cl)) = in_flight cl"
  "in_flight (SendOp_restartResponseTimer i cl) = in_flight cl"
proof -
  show "in_flight (snd (sendMessage b msg cl)) = in_flight cl"
    by (rule sendMessage_frame [of b msg cl]) (simp add: in_flight_def)
  show "in_flight (SendOp_restartResponseTimer i cl) = in_flight cl"
    by (simp add: SendOp_restartResponseTimer_def in_flight_def on_timers_def fault_def split: option.split)
qed (simp_all add: in_flight_def emit_def fault_def on_timers_def on_session_state_def upd_send_def)

lemma published_removed:
  assumes "client_ok cl" and "send_op_at i cl = Some op"
    and "client_ok c" "m_sendOps c = snd (eraseFromList so_id i (m_sendOps cl))"
  shows "in_flight c = in_flight cl - (if so_published op then 1 else 0)"
proof -
  obtain ys zs where xs: "m_sendOps cl = ys @ op # zs"
    and e: "eraseFromList so_id i (m_sendOps cl) = (length ys, ys @ zs)"
    using eraseFromList_found [OF assms(2) [unfolded send_op_at_def]] by blast
  have "m_sendOps c = ys @ zs" using assms(4) e by simp
  then show ?thesis
    using in_flight_count [OF assms(1)] in_flight_count [OF assms(3)] by (simp add: xs published_count_def)
qed

definition rs_capped :: "resumption \<Rightarrow> bool" where
  "rs_capped rs \<longleftrightarrow> (\<forall>idx cl. client_ok cl \<longrightarrow> capped (rs idx cl) cl)"

text \<open>A completion gives its place back before anything is resumed.\<close>

lemma opCompleteInternal_capped:
  assumes rs: "rs_capped rs" and ok: "client_ok cl" and op: "send_op_at i cl = Some op"
  shows "capped (SendOp_opCompleteInternal rs i cl) cl"
    and "in_flight (SendOp_opCompleteInternal rs i cl) \<le>
           max (in_flight cl - (if so_published op then 1 else 0)) (send_limit cl)"
proof -
  obtain cl1 idx where r: "within cl1 cl" "m_sendOps cl1 = snd (eraseFromList so_id i (m_sendOps cl))"
    and e: "SendOp_opCompleteInternal rs i cl =
        (if m_disconnecting (m_sessionState cl) then cl1 else rs idx cl1)"
    using opCompleteInternal_removes [OF ok op] by metis
  let ?c = "SendOp_opCompleteInternal rs i cl"
  have f: "in_flight cl1 = in_flight cl - (if so_published op then 1 else 0)"
    by (rule published_removed [OF ok op within_ok [OF r(1)] r(2)])
  have l: "send_limit cl1 = send_limit cl" using r(1) by (simp add: within_def send_limit_def)
  have c1: "capped ?c cl1"
    unfolding e using rs within_ok [OF r(1)] by (simp add: rs_capped_def capped_def within_refl)
  have "capped cl1 cl" using f by (intro capped_within r(1)) simp
  then show "capped ?c cl" using c1 capped_trans by blast
  show "in_flight ?c \<le> max (in_flight cl - (if so_published op then 1 else 0)) (send_limit cl)"
    using c1 f l by (simp add: capped_def)
qed

lemma completion_capped:
  assumes rs: "rs_capped rs" and ok: "client_ok cl" and op: "send_op_at i cl = Some op"
  shows "capped (SendOp_completeWithCb rs i status response cl) cl"
    and "in_flight (SendOp_completeWithCb rs i status response cl) \<le>
           max (in_flight cl - (if so_published op then 1 else 0)) (send_limit cl)"
proof -
  let ?c = "SendOp_opCompleteInternal rs i cl"
  note c = opCompleteInternal_capped [OF assms]
  have "capped (emit (Ev_PublishComplete i status response) ?c) cl"
    using c(1) within_effect [of ?c cl "emit (Ev_PublishComplete i status response) ?c"] by (simp add: capped_def)
  with c(1) show "capped (SendOp_completeWithCb rs i status response cl) cl"
    by (simp add: SendOp_completeWithCb_def op Let_def)
  show "in_flight (SendOp_completeWithCb rs i status response cl) \<le>
      max (in_flight cl - (if so_published op then 1 else 0)) (send_limit cl)"
    using c(2) by (simp add: SendOp_completeWithCb_def op Let_def)
qed

lemma canSend_cases:
  "canSend op cl \<Longrightarrow> in_flight cl < send_limit cl \<or> pm_qos (so_pubMsg op) = AtMostOnce"
  by (auto simp: canSend_def in_flight_def send_limit_def Let_def split: if_splits)

text \<open>
  A publish goes out when there is a place for it, or when it needs none: one of QoS 0 gives its place back
  at once.
\<close>

lemma doSend_capped:
  assumes rs: "rs_capped rs" and ok: "client_ok cl" and op: "send_op_at i cl = Some op" and run: "\<not> so_paused op"
    and room: "so_published op \<or> in_flight cl < send_limit cl \<or> pm_qos (so_pubMsg op) = AtMostOnce"
  shows "capped (snd (doSendInternal rs b i cl)) cl"
proof -
  let ?cl1 = "upd_send i (\<lambda>p. p\<lparr>so_sendAttempts := 0\<rparr>) cl"
  let ?r = "sendMessage b (Publish_Out (so_pubMsg op)) ?cl1"
  let ?cl3 = "if \<not> so_published op then publish_now i (snd ?r) else snd ?r"
  let ?cl4 = "upd_send i (\<lambda>p. p\<lparr>so_sendAttempts := Suc (so_sendAttempts p)\<rparr>) ?cl3"
  have rw: "rs_within rs" using rs by (simp add: rs_capped_def rs_within_def capped_def)
  have w1: "within ?cl1 cl" by (rule within_step) (simp_all add: ok same_core_upd_send)
  have w2: "within (snd ?r) cl" by (rule within_effect [OF w1]) simp_all
  have o2: "send_op_at i (snd ?r) = Some (op\<lparr>so_sendAttempts := 0\<rparr>)" using op by (simp add: send_op_at_upd)
  have w3: "within ?cl3 cl"
  proof (cases "so_published op")
    case False
    have "within (publish_now i (snd ?r)) (snd ?r)"
      by (rule publish_now_within [OF within_ok [OF w2] o2]) (use False run in simp_all)
    then show ?thesis using False w2 within_trans by simp
  qed (simp add: w2)
  have w4: "within ?cl4 cl" by (rule within_effect [OF w3]) (simp_all add: same_core_upd_send)
  have f: "in_flight (snd ?r) = in_flight cl"
    "in_flight ?cl4 = in_flight cl + (if so_published op then 0 else 1)"
    by simp_all (simp add: publish_now_def in_flight_def upd_send_def)
  have l: "send_limit ?cl4 = send_limit cl" using w4 by (simp add: within_def send_limit_def)
  have "\<exists>op3. send_op_at i ?cl3 = Some op3 \<and> so_published op3"
    using o2 by (cases "so_published op") (auto simp: publish_now_def send_op_at_upd)
  then obtain op4 where o4: "send_op_at i ?cl4 = Some op4" "so_published op4"
    by (auto simp: send_op_at_upd)
  have c4: "capped (SendOp_completeWithCb rs i St_Complete None ?cl4) cl"
  proof -
    have "in_flight (SendOp_completeWithCb rs i St_Complete None ?cl4) \<le> max (in_flight cl) (send_limit cl)"
      using completion_capped(2) [OF rs within_ok [OF w4] o4(1), of St_Complete None] f(2) l o4(2) by auto
    moreover have "within (SendOp_completeWithCb rs i St_Complete None ?cl4) cl"
      by (rule within_trans [OF completeWithCb_within [OF rw within_ok [OF w4] o4(1)] w4])
    ultimately show ?thesis by (simp add: capped_def)
  qed
  have w: "capped (SendOp_restartResponseTimer i ?cl4) cl" if "pm_qos (so_pubMsg op) \<noteq> AtMostOnce"
    using within_trans [OF restartResponseTimer_within [OF within_ok [OF w4] o4(1)] w4] f(2) room that
    by (auto simp: capped_def)
  have D: "doSendInternal rs b i cl =
      (if fst ?r \<noteq> EC_Success then ?r
       else (EC_Success, if pm_qos (so_pubMsg op) = AtMostOnce
          then SendOp_completeWithCb rs i St_Complete None ?cl4 else SendOp_restartResponseTimer i ?cl4))"
    using op by (simp add: doSendInternal_def Let_def split_beta publish_now_def prod_eq_iff)
  show ?thesis unfolding D using capped_within [OF w2] f(1) c4 w by simp
qed

lemma resume_capped:
  assumes rs: "rs_capped rs" and ok: "client_ok cl" and op: "send_op_at i cl = Some op"
  shows "capped (snd (SendOp_resume rs b i cl)) cl"
proof (cases "so_paused op \<and> canSend op cl")
  case False
  then show ?thesis using op within_refl [OF ok] by (auto simp: SendOp_resume_def capped_def)
next
  case True
  let ?cl0 = "upd_send i (\<lambda>p. p\<lparr>so_paused := False\<rparr>) cl"
  let ?D = "doSendInternal rs b i ?cl0"
  have rw: "rs_within rs" using rs by (simp add: rs_capped_def rs_within_def capped_def)
  have w0: "within ?cl0 cl" by (rule unpause_within [OF ok op])
  have o0: "send_op_at i ?cl0 = Some (op\<lparr>so_paused := False\<rparr>)" using op by (simp add: send_op_at_upd)
  have "send_limit ?cl0 = send_limit cl" using w0 by (simp add: within_def send_limit_def)
  then have "so_published op \<or> in_flight ?cl0 < send_limit ?cl0 \<or> pm_qos (so_pubMsg op) = AtMostOnce"
    using canSend_cases [of op cl] True by simp
  then have d: "capped (snd ?D) ?cl0" by (intro doSend_capped [OF rs within_ok [OF w0] o0]) simp_all
  have c0: "capped ?cl0 cl" by (rule capped_within [OF w0]) simp
  have "capped (SendOp_completeWithCb rs i st None (snd ?D)) (snd ?D)" if e: "fst ?D \<noteq> EC_Success" for st
  proof -
    obtain op' where "send_op_at i (snd ?D) = Some op'"
      using doSendInternal_within(2) [OF rw within_ok [OF w0] o0 _ e] by auto
    then show ?thesis by (rule completion_capped(1) [OF rs capped_ok [OF d]])
  qed
  then show ?thesis
    using op True capped_trans [OF d c0] capped_trans [OF _ capped_trans [OF d c0]]
    by (simp add: SendOp_resume_def Let_def split_beta)
qed

lemma resumeSendOpsSince_capped: "rs_capped (resumeSendOpsSince n b)"
proof (induction n)
  case 0
  have "within (fault Fuel_Exhausted cl) cl" if "client_ok cl" for cl
    using resumeSendOpsSince_within [of 0 b] that by (simp add: rs_within_def)
  then show ?case by (simp add: rs_capped_def capped_within)
next
  case (Suc n)
  have "capped (resumeSendOpsSince (Suc n) b idx cl) cl" if ok: "client_ok cl" for idx cl
  proof (cases "idx < length (m_sendOps cl)")
    case False
    then show ?thesis using within_refl [OF ok] by (simp add: capped_def)
  next
    case True
    let ?op = "m_sendOps cl ! idx"
    let ?R = "SendOp_resume (resumeSendOpsSince n b) b (so_id ?op) cl"
    have "send_op_at (so_id ?op) cl = Some ?op" by (rule find_send_id [OF ok]) (simp add: True)
    then have r: "capped (snd ?R) cl" by (rule resume_capped [OF Suc ok])
    then have "client_ok (snd ?R)" by (rule capped_ok)
    then have "capped (resumeSendOpsSince n b idx (snd ?R)) cl"
      using Suc r capped_trans by (fastforce simp: rs_capped_def)
    moreover have "capped (resumeSendOpsSince n b (idx + 1) cl) cl" using Suc ok by (simp add: rs_capped_def)
    ultimately show ?thesis using True r by (simp add: Let_def split_beta)
  qed
  then show ?case by (simp add: rs_capped_def)
qed

lemma resumeSends_capped: "rs_capped (resumeSends b)"
  using resumeSendOpsSince_capped by (simp add: rs_capped_def resumeSends_def)

section \<open>Sending within the limit\<close>

lemma in_flight_map: "client_ok a \<Longrightarrow> client_ok b \<Longrightarrow> map so_published (m_sendOps a) = map so_published (m_sendOps b) \<Longrightarrow>
   in_flight a = in_flight b"
proof -
  assume ok: "client_ok a" "client_ok b" and m: "map so_published (m_sendOps a) = map so_published (m_sendOps b)"
  have "length (filter id (map so_published xs)) = published_count xs" for xs
    by (induction xs) (simp_all add: published_count_def)
  then show ?thesis using in_flight_count ok m by metis
qed

lemma doApiExit_in_flight: "in_flight (doApiExit c) = in_flight c" "send_limit (doApiExit c) = send_limit c"
proof -
  show "in_flight (doApiExit c) = in_flight c" by (simp add: in_flight_def doApiExit_client_state)
  show "send_limit (doApiExit c) = send_limit c"
    by (simp add: send_limit_def doApiExit_def Let_def cleanOps_def emit_def)
qed

lemma SendOp_send_capped:
  assumes ok: "client_ok cl" and op: "send_op_at i cl = Some op" and new: "\<not> so_published op" "\<not> so_paused op"
    and quiet: "\<not> m_cancelNextTickWaitCb cl"
  shows "in_flight (snd (SendOp_send b elapsed cb i cl)) \<le> max (in_flight cl) (send_limit cl)"
    and "timer_isValid (so_responseTimer op) \<Longrightarrow> so_topicConfigured op \<Longrightarrow>
         send_limit cl \<le> in_flight cl \<Longrightarrow> pm_qos (so_pubMsg op) \<noteq> AtMostOnce \<Longrightarrow>
           cl_events (snd (SendOp_send b elapsed cb i cl)) = cl_events cl \<and>
           i \<in> paused_ids (snd (SendOp_send b elapsed cb i cl))"
proof -
  let ?c = "allowNextPrepare cl" and ?rs = "resumeSends b"
  have okc: "client_ok ?c" by (rule keeps_ok_ok [OF allowNextPrepare_ok [OF ok]])
  have lc: "in_flight ?c = in_flight cl" "send_limit ?c = send_limit cl"
    by (simp_all add: allowNextPrepare_def in_flight_def send_limit_def)
  obtain u p where u: "frees_ok True {Use_After_Free} u cl" and o: "send_op_at i u = Some p"
    and same: "so_published p = so_published op" "so_paused p = so_paused op"
      "pm_qos (so_pubMsg p) = pm_qos (so_pubMsg op)" "cl_events u = cl_events cl" "m_sessionState u = m_sessionState cl"
      "m_cancelNextTickWaitCb u = m_cancelNextTickWaitCb cl"
      "map so_published (m_sendOps u) = map so_published (m_sendOps cl)"
    and s: "SendOp_send b elapsed cb i cl =
       (if \<not> timer_isValid (so_responseTimer op)
        then (EC_InternalError, SendOp_opCompleteInternal ?rs i ?c)
        else if \<not> so_topicConfigured op
        then (EC_InsufficientConfig, SendOp_opCompleteInternal ?rs i ?c)
        else if \<not> canSend p u then (EC_Success, upd_send i (\<lambda>p. p\<lparr>so_paused := True\<rparr>) u)
        else
          let (sendResult, c) = doSendInternal ?rs b i (doApiEnter b elapsed u) in
          if sendResult \<noteq> EC_Success
          then (sendResult, SendOp_opCompleteInternal ?rs i (doApiExit c))
          else (EC_Success, doApiExit c))"
    by (rule SendOp_send_filled [OF ok op, of b elapsed cb])
  have oku: "client_ok u" by (rule frees_ok_ok [OF u])
  have fu: "in_flight u = in_flight cl" by (rule in_flight_map [OF oku ok same(7)])
  have lu: "send_limit u = send_limit cl" by (simp add: send_limit_def same(5))
  let ?e = "u\<lparr>m_apiEnterCount := Suc (m_apiEnterCount u)\<rparr>"
  have e: "doApiEnter b elapsed u = ?e" using doApiEnter_quiet quiet same(6) by simp
  have oke: "client_ok ?e" using entered_ok [OF oku] stays_ok_ok by blast
  have fe: "in_flight ?e = in_flight cl" "send_limit ?e = send_limit cl" "send_op_at i ?e = Some p"
    using fu lu o by (simp_all add: in_flight_def send_limit_def send_op_at_def)
  have early: "in_flight (SendOp_opCompleteInternal ?rs i ?c) \<le> max (in_flight cl) (send_limit cl)"
    using opCompleteInternal_capped(1) [OF resumeSends_capped okc, of i op] op lc by (simp add: capped_def)
  let ?d = "doSendInternal ?rs b i ?e"
  have d: "capped (snd ?d) ?e" if "canSend p u"
    by (rule doSend_capped [OF resumeSends_capped oke fe(3)])
       (use canSend_cases [OF that] same new fu lu fe in auto)
  have late: "in_flight (SendOp_opCompleteInternal ?rs i (doApiExit (snd ?d))) \<le> max (in_flight cl) (send_limit cl)"
    if c: "canSend p u"
  proof -
    let ?x = "doApiExit (snd ?d)"
    have okx: "client_ok ?x" by (rule stays_ok_ok [OF doApiExit_ok [OF capped_ok [OF d [OF c]]]])
    have lx: "send_limit (snd ?d) = send_limit cl"
      using d [OF c] fe(2) by (simp add: capped_def within_def send_limit_def)
    have "in_flight (SendOp_opCompleteInternal ?rs i ?x) \<le> max (in_flight ?x) (send_limit ?x)"
    proof (cases "send_op_at i ?x")
      case None
      then show ?thesis by (simp add: SendOp_opCompleteInternal_def)
    next
      case (Some q)
      then show ?thesis using opCompleteInternal_capped(1) [OF resumeSends_capped okx] by (simp add: capped_def)
    qed
    then show ?thesis using d [OF c] fe lx by (auto simp: doApiExit_in_flight capped_def)
  qed
  show "in_flight (snd (SendOp_send b elapsed cb i cl)) \<le> max (in_flight cl) (send_limit cl)"
    using early late d fe fu unfolding s e by (auto simp: split_beta doApiExit_in_flight capped_def)
  show "cl_events (snd (SendOp_send b elapsed cb i cl)) = cl_events cl \<and>
      i \<in> paused_ids (snd (SendOp_send b elapsed cb i cl))"
    if "timer_isValid (so_responseTimer op)" "so_topicConfigured op" "send_limit cl \<le> in_flight cl"
      "pm_qos (so_pubMsg op) \<noteq> AtMostOnce"
  proof -
    have n: "\<not> canSend p u" using canSend_cases [of p u] that(3,4) same(3) fu lu by auto
    let ?p = "upd_send i (\<lambda>p. p\<lparr>so_paused := True\<rparr>) u"
    have "client_ok ?p" by (rule keeps_ok_ok [OF pause_ok [OF oku o]]) (simp add: same new)
    moreover have "send_op_at i ?p = Some (p\<lparr>so_paused := True\<rparr>)" using o by (simp add: send_op_at_upd)
    ultimately have "i \<in> paused_ids ?p" using paused_id by fastforce
    then show ?thesis using that n same(4) unfolding s by simp (simp add: upd_send_def)
  qed
qed

section \<open>The handshakes\<close>

definition none_paused :: "client \<Rightarrow> bool" where
  "none_paused cl \<longleftrightarrow> (\<forall>p\<in>set (m_sendOps cl). \<not> so_paused p)"

lemma nothing_to_resume:
  assumes "none_paused cl"
  shows "resumeSends b idx cl = cl"
proof -
  have "length (m_sendOps cl) - idx < n \<Longrightarrow> resumeSendOpsSince n b idx cl = cl" for n
  proof (induction n arbitrary: idx)
    case (Suc n)
    show ?case
    proof (cases "idx < length (m_sendOps cl)")
      case True
      then have "\<not> so_paused (m_sendOps cl ! idx)" using assms by (simp add: none_paused_def)
      then show ?thesis using True Suc by simp
    qed simp
  qed simp
  moreover have "length (m_sendOps cl) - idx < resume_fuel cl" by (simp add: resume_fuel_def)
  ultimately show ?thesis by (simp add: resumeSends_def)
qed

text \<open>The packet identifiers in use; the identifier 0 is never given back.\<close>

definition held_ids :: "client \<Rightarrow> 16 word set" where
  "held_ids cl = set (m_allocatedPacketIds (m_clientState cl))"

lemma held_ids_release:
  assumes "packet_ids_ok st"
  shows "set (m_allocatedPacketIds (releasePacketId p st)) = set (m_allocatedPacketIds st) - ({p} - {0})"
proof (cases "p = 0")
  case True
  then show ?thesis by (simp add: releasePacketId_def)
next
  case False
  then show ?thesis using releasePacketId_ids(1) [OF assms False] by auto
qed

lemma held_ids_effects [simp]:
  "held_ids (emit ev cl) = held_ids cl" "held_ids (fault g cl) = held_ids cl" "held_ids (on_timers h cl) = held_ids cl"
  "held_ids (upd_send i u cl) = held_ids cl" "held_ids (snd (sendMessage b msg cl)) = held_ids cl"
  "held_ids (SendOp_restartResponseTimer i cl) = held_ids cl" "held_ids (confirmRegisteredAlias op cl) = held_ids cl"
proof -
  show "held_ids (snd (sendMessage b msg cl)) = held_ids cl"
    by (rule sendMessage_frame [of b msg cl]) (simp add: held_ids_def)
  show "held_ids (SendOp_restartResponseTimer i cl) = held_ids cl"
    by (simp add: SendOp_restartResponseTimer_def held_ids_def on_timers_def fault_def split: option.split)
  show "held_ids (confirmRegisteredAlias op cl) = held_ids cl"
    by (simp add: confirmRegisteredAlias_def Let_def on_client_state_def held_ids_def)
qed (simp_all add: held_ids_def emit_def fault_def on_timers_def upd_send_def)

text \<open>Taking a publish out of the lists calls nobody.\<close>

lemma completion_silent:
  assumes "client_ok cl" and op: "send_op_at i cl = Some op"
  shows "cl_events (SendOp_opCompleteInternal (\<lambda>_ c. c) i cl) = cl_events cl"
proof -
  have "find_idx (\<lambda>p. p = Some (Type_Send, i)) (m_ops cl) < length (m_ops cl)"
    using find_ref send_found_live [OF op assms(1)] by blast
  then show ?thesis
    by (simp add: SendOp_opCompleteInternal_def op opComplete_with_def opComplete_Send_def split_beta Let_def
        destroy_SendOp_def split: option.split)
       (simp add: destroy_timer_def release_id_def on_timers_def on_client_state_def)
qed

text \<open>
  Completing the first publish when nothing is paused: it is gone, its identifier and its place
  are free again, its callback is called, and nothing else happens.
\<close>

lemma complete_front:
  assumes ok: "client_ok cl" and front: "m_sendOps cl = op # rest" and idle: "none_paused cl"
  shows "cl_events (completeWithCb b (so_id op) status response cl) =
           cl_events cl @ (if so_cb op then [Ev_PublishComplete (so_id op) status response] else [])"
    and "m_sendOps (completeWithCb b (so_id op) status response cl) = rest"
    and "in_flight (completeWithCb b (so_id op) status response cl) = in_flight cl - (if so_published op then 1 else 0)"
    and "held_ids (completeWithCb b (so_id op) status response cl) = held_ids cl - ({pm_packetId (so_pubMsg op)} - {0})"
proof -
  let ?rs = "resumeSends b" and ?i = "so_id op"
  have op: "send_op_at ?i cl = Some op" by (simp add: send_op_at_def op_at_def front)
  obtain cl1 idx where r: "within cl1 cl" "m_sendOps cl1 = snd (eraseFromList so_id ?i (m_sendOps cl))"
    and e: "\<And>rs. SendOp_opCompleteInternal rs ?i cl =
        (if m_disconnecting (m_sessionState cl) then cl1 else rs idx cl1)"
    using opCompleteInternal_removes [OF ok op] by metis
  have rest: "m_sendOps cl1 = rest" unfolding r(2) front by (simp add: eraseFromList_def Let_def)
  then have "none_paused cl1" using idle front by (simp add: none_paused_def)
  then have c: "SendOp_opCompleteInternal ?rs ?i cl = cl1" using e nothing_to_resume by simp
  have same: "cl_events cl1 = cl_events cl" "held_ids cl1 = held_ids cl - ({pm_packetId (so_pubMsg op)} - {0})"
  proof -
    let ?k = "find_idx (\<lambda>p. p = Some (Type_Send, ?i)) (m_ops cl)"
    have k: "?k < length (m_ops cl)" using find_ref send_found_live [OF op ok] by blast
    show "cl_events cl1 = cl_events cl" using completion_silent [OF ok op] e [of "\<lambda>_ c. c"] by simp
    have p: "packet_ids_ok (m_clientState cl)" using ok by (simp add: client_ok_def sends_ok_def)
    then have p': "packet_ids_ok (m_clientState cl\<lparr>m_inFlightSends := dec_u32 (m_inFlightSends (m_clientState cl))\<rparr>)"
      by (simp add: packet_ids_ok_def)
    have "held_ids (SendOp_opCompleteInternal (\<lambda>_ c. c) ?i cl) = held_ids cl - ({pm_packetId (so_pubMsg op)} - {0})"
      using k op held_ids_release [OF p] held_ids_release [OF p']
      by (simp add: SendOp_opCompleteInternal_def opComplete_with_def opComplete_Send_def split_beta Let_def
          destroy_SendOp_def send_op_at_def on_client_state_def)
         (simp add: held_ids_def destroy_timer_def release_id_def on_timers_def on_client_state_def)
    then show "held_ids cl1 = held_ids cl - ({pm_packetId (so_pubMsg op)} - {0})" using e [of "\<lambda>_ c. c"] by simp
  qed
  from same(1) show "cl_events (completeWithCb b ?i status response cl) =
      cl_events cl @ (if so_cb op then [Ev_PublishComplete ?i status response] else [])"
    by (simp add: completeWithCb_def SendOp_completeWithCb_def op c) (simp add: emit_def)
  show "m_sendOps (completeWithCb b ?i status response cl) = rest"
    by (simp add: completeWithCb_def SendOp_completeWithCb_def op c rest)
  show "held_ids (completeWithCb b ?i status response cl) = held_ids cl - ({pm_packetId (so_pubMsg op)} - {0})"
    by (simp add: completeWithCb_def SendOp_completeWithCb_def op c same(2))
  have "in_flight cl1 = in_flight cl - (if so_published op then 1 else 0)"
    by (rule published_removed [OF ok op within_ok [OF r(1)] r(2)])
  then show "in_flight (completeWithCb b ?i status response cl) = in_flight cl - (if so_published op then 1 else 0)"
    by (simp add: completeWithCb_def SendOp_completeWithCb_def op c)
qed

text \<open>An acknowledgement of the first publish is in order, and reaches it.\<close>

lemma ack_reaches_front:
  assumes front: "m_sendOps cl = op # rest" and pub: "so_published op" "pm_packetId (so_pubMsg op) = p"
  obtains tm where "\<forall>b dispatch pc. processPublishAckMsg b dispatch p pc cl = (True, dispatch (so_id op) (cl\<lparr>m_timerMgr := tm\<rparr>))"
proof -
  obtain tm where k: "keep_alive_received cl = cl\<lparr>m_timerMgr := tm\<rparr>" by (rule keep_alive_received_frame)
  have "processPublishAckMsg b dispatch p pc cl = (True, dispatch (so_id op) (cl\<lparr>m_timerMgr := tm\<rparr>))" for b dispatch pc
    by (simp add: processPublishAckMsg_def k findSendOp_def front pub isLegitSendAck_def Let_def)
  then show thesis using that by blast
qed

lemma ok_timer: "client_ok cl \<Longrightarrow> client_ok (cl\<lparr>m_timerMgr := tm\<rparr>)"
  using same_core_ok [OF same_core_effects(3), of cl "\<lambda>_. tm"] by (simp add: on_timers_def)

lemma confirm_frame:
  "cl_events (confirmRegisteredAlias op cl) = cl_events cl" "m_sendOps (confirmRegisteredAlias op cl) = m_sendOps cl"
  "m_sessionState (confirmRegisteredAlias op cl) = m_sessionState cl" "in_flight (confirmRegisteredAlias op cl) = in_flight cl"
  by (simp_all add: confirmRegisteredAlias_def Let_def on_client_state_def in_flight_def)

text \<open>What the callback of a publish is told.\<close>

definition response_of :: "reason_code \<Rightarrow> cstr option \<times> (cstr \<times> cstr) list \<Rightarrow> publish_response" where
  "response_of rc ps = \<lparr>pr_reasonCode = rc, pr_reasonStr = fst ps, pr_userProps = snd ps\<rparr>"

lemma puback_front:
  assumes ok: "client_ok cl" and front: "m_sendOps cl = op # rest" and idle: "none_paused cl"
    and pub: "so_published op" "pm_packetId (so_pubMsg op) = am_packetId msg" "pm_qos (so_pubMsg op) = AtLeastOnce"
    and props: "ack_props b (m_sessionState cl) (am_props msg) = Some ps"
  defines "rc \<equiv> (case am_reasonCode msg of None \<Rightarrow> RC_Success | Some r \<Rightarrow> r)"
  shows "cl_events (handle_Puback b msg cl) = cl_events cl @
           (if so_cb op then [Ev_PublishComplete (so_id op) St_Complete (Some (response_of rc ps))] else [])"
    and "m_sendOps (handle_Puback b msg cl) = rest" and "in_flight (handle_Puback b msg cl) = in_flight cl - 1"
    and "held_ids (handle_Puback b msg cl) = held_ids cl - ({am_packetId msg} - {0})"
proof -
  obtain tm where h: "\<forall>b dispatch pc. processPublishAckMsg b dispatch (am_packetId msg) pc cl =
      (True, dispatch (so_id op) (cl\<lparr>m_timerMgr := tm\<rparr>))"
    by (rule ack_reaches_front [OF front pub(1,2)])
  let ?c1 = "on_timers (timerCancel (so_responseTimer op)) (cl\<lparr>m_timerMgr := tm\<rparr>)"
  let ?c = "if so_registeredAlias op \<and> rc < RC_UnspecifiedError then confirmRegisteredAlias op ?c1 else ?c1"
  have ok1: "client_ok ?c1" using same_core_ok [OF same_core_effects(3)] ok_timer [OF ok] by blast
  have okc: "client_ok ?c" using same_core_ok [OF confirm_same(1) ok1] ok1 by simp
  have s: "m_sendOps ?c = op # rest" "m_sessionState ?c = m_sessionState cl" "cl_events ?c = cl_events cl"
    "in_flight ?c = in_flight cl" "held_ids ?c = held_ids cl"
    using front by (simp_all add: confirm_frame) (simp_all add: on_timers_def in_flight_def held_ids_def)
  have n: "none_paused ?c" using idle front s(1) by (simp add: none_paused_def)
  have "send_op_at (so_id op) (cl\<lparr>m_timerMgr := tm\<rparr>) = Some op" by (simp add: send_op_at_def op_at_def front)
  then have "handle_Puback b msg cl = completeWithCb b (so_id op) St_Complete (Some (response_of rc ps)) ?c"
    using pub(3) props s(2)
    by (simp add: handle_Puback_def h SendOp_handle_Puback_def Let_def rc_def response_of_def split: prod.split)
  then show "cl_events (handle_Puback b msg cl) = cl_events cl @
           (if so_cb op then [Ev_PublishComplete (so_id op) St_Complete (Some (response_of rc ps))] else [])"
    "m_sendOps (handle_Puback b msg cl) = rest" "in_flight (handle_Puback b msg cl) = in_flight cl - 1"
    "held_ids (handle_Puback b msg cl) = held_ids cl - ({am_packetId msg} - {0})"
    using complete_front [OF okc s(1) n, of b St_Complete "Some (response_of rc ps)"] s(3-5) pub(1,2) by simp_all
qed

lemma restart_frame:
  "cl_events (SendOp_restartResponseTimer i c) = cl_events c"
  "m_sessionState (SendOp_restartResponseTimer i c) = m_sessionState c"
  by (simp_all add: SendOp_restartResponseTimer_def on_timers_def fault_def split: option.split)

lemma pubrec_front:
  assumes ok: "client_ok cl" and front: "m_sendOps cl = op # rest"
    and pub: "so_published op" "pm_packetId (so_pubMsg op) = am_packetId msg" "pm_qos (so_pubMsg op) = ExactlyOnce"
      "\<not> so_acked op"
    and props: "ack_props b (m_sessionState cl) (am_props msg) = Some ps"
    and fine: "case am_reasonCode msg of None \<Rightarrow> True | Some r \<Rightarrow> r < RC_UnspecifiedError"
    and fits: "fst (sendMessage b (Pubrel_Out (am_packetId msg) None) cl) = EC_Success"
  obtains op' where "cl_events (handle_Pubrec b msg cl) = cl_events cl @ [Ev_Output (Pubrel_Out (am_packetId msg) None)]"
    "m_sendOps (handle_Pubrec b msg cl) = op' # rest" "client_ok (handle_Pubrec b msg cl)"
    "m_sessionState (handle_Pubrec b msg cl) = m_sessionState cl"
    "so_id op' = so_id op" "so_published op'" "so_acked op'" "so_pubMsg op' = so_pubMsg op" "so_cb op' = so_cb op"
    "so_paused op' = so_paused op" "so_reasonCode op' = RC_Success"
    "in_flight (handle_Pubrec b msg cl) = in_flight cl" "held_ids (handle_Pubrec b msg cl) = held_ids cl"
proof -
  let ?i = "so_id op" and ?out = "Pubrel_Out (am_packetId msg) None"
  obtain tm where h: "\<forall>b dispatch pc. processPublishAckMsg b dispatch (am_packetId msg) pc cl =
      (True, dispatch ?i (cl\<lparr>m_timerMgr := tm\<rparr>))"
    by (rule ack_reaches_front [OF front pub(1,2)])
  let ?c1 = "on_timers (timerCancel (so_responseTimer op)) (cl\<lparr>m_timerMgr := tm\<rparr>)"
  let ?c2 = "if so_registeredAlias op then confirmRegisteredAlias op ?c1 else ?c1"
  let ?c3 = "upd_send ?i (\<lambda>p. p\<lparr>so_acked := True, so_sendAttempts := 0\<rparr>) ?c2"
  let ?r = "sendMessage b ?out ?c3"
  let ?g = "\<lambda>p. p\<lparr>so_reasonCode := RC_Success, so_sendAttempts := Suc (so_sendAttempts p)\<rparr>"
  let ?c5 = "upd_send ?i ?g (snd ?r)"
  have at: "send_op_at ?i (cl\<lparr>m_timerMgr := tm\<rparr>) = Some op" by (simp add: send_op_at_def op_at_def front)
  have "m_sessionState ?c3 = m_sessionState cl" by (simp add: confirm_frame)
  then have f: "fst ?r = EC_Success" and ss: "m_sessionState ?c3 = m_sessionState cl"
    using fits sendMessage_result_cong by metis+
  have rej: "(case am_reasonCode msg of None \<Rightarrow> None
      | Some r \<Rightarrow> if RC_UnspecifiedError \<le> r then Some r else None) = None"
    using fine by (simp split: option.splits)
  have hp: "handle_Pubrec b msg cl = SendOp_restartResponseTimer ?i ?c5"
    using pub props f by (simp add: handle_Pubrec_def h SendOp_handle_Pubrec_def at Let_def rej split_beta)
  let ?op' = "?g (op\<lparr>so_acked := True, so_sendAttempts := 0\<rparr>)"
  have dist: "\<forall>q\<in>set rest. so_id q \<noteq> ?i"
    using client_ok_distinct_sends [OF ok] front by (fastforce simp: image_iff)
  have u: "upd_op so_id ?i k (x # rest) = k x # rest" if "so_id x = ?i" for k :: "send_op \<Rightarrow> send_op" and x
    using dist that by (simp add: upd_op_def map_idI)
  have s: "m_sendOps ?c5 = ?op' # rest"
    using front by (simp add: upd_send_sends confirm_frame u)
  have "cl_events ?c3 = cl_events cl"
    by (simp add: upd_send_def confirm_frame) (simp add: on_timers_def)
  then have "cl_events ?c5 = cl_events cl @ [Ev_Output ?out]"
    using f by (simp add: upd_send_def sendMessage_events)
  then have e: "cl_events (handle_Pubrec b msg cl) = cl_events cl @ [Ev_Output ?out]"
    unfolding hp restart_frame .
  have "m_sessionState (handle_Pubrec b msg cl) = m_sessionState cl"
    unfolding hp restart_frame using ss by simp
  moreover have "in_flight (handle_Pubrec b msg cl) = in_flight cl" "held_ids (handle_Pubrec b msg cl) = held_ids cl"
    unfolding hp by (simp_all add: confirm_frame) (simp_all add: in_flight_def held_ids_def on_timers_def)
  moreover have "client_ok (handle_Pubrec b msg cl)" by (rule stays_ok_ok [OF handle_acks_ok(3) [OF ok]])
  moreover have "m_sendOps (handle_Pubrec b msg cl) = ?op' # rest" unfolding hp using s by simp
  ultimately show thesis using e pub by (intro that [of ?op']) simp_all
qed

lemma pubcomp_front:
  assumes ok: "client_ok cl" and front: "m_sendOps cl = op # rest" and idle: "none_paused cl"
    and pub: "so_published op" "pm_packetId (so_pubMsg op) = am_packetId msg" "pm_qos (so_pubMsg op) = ExactlyOnce"
      "so_acked op" "so_reasonCode op = RC_Success"
    and props: "ack_props b (m_sessionState cl) (am_props msg) = Some ps"
  defines "rc \<equiv> (case am_reasonCode msg of None \<Rightarrow> RC_Success | Some r \<Rightarrow> r)"
  shows "cl_events (handle_Pubcomp b msg cl) = cl_events cl @
           (if so_cb op then [Ev_PublishComplete (so_id op) St_Complete (Some (response_of rc ps))] else [])"
    and "m_sendOps (handle_Pubcomp b msg cl) = rest" and "in_flight (handle_Pubcomp b msg cl) = in_flight cl - 1"
    and "held_ids (handle_Pubcomp b msg cl) = held_ids cl - ({am_packetId msg} - {0})"
proof -
  obtain tm where h: "\<forall>b dispatch pc. processPublishAckMsg b dispatch (am_packetId msg) pc cl =
      (True, dispatch (so_id op) (cl\<lparr>m_timerMgr := tm\<rparr>))"
    by (rule ack_reaches_front [OF front pub(1,2)])
  let ?c = "on_timers (timerCancel (so_responseTimer op)) (cl\<lparr>m_timerMgr := tm\<rparr>)"
  have okc: "client_ok ?c" using same_core_ok [OF same_core_effects(3)] ok_timer [OF ok] by blast
  have s: "m_sendOps ?c = op # rest" "m_sessionState ?c = m_sessionState cl" "cl_events ?c = cl_events cl"
    "in_flight ?c = in_flight cl" "held_ids ?c = held_ids cl"
    using front by simp_all (simp_all add: on_timers_def in_flight_def held_ids_def)
  have n: "none_paused ?c" using idle front s(1) by (simp add: none_paused_def)
  have "send_op_at (so_id op) (cl\<lparr>m_timerMgr := tm\<rparr>) = Some op" by (simp add: send_op_at_def op_at_def front)
  then have "handle_Pubcomp b msg cl = completeWithCb b (so_id op) St_Complete (Some (response_of rc ps)) ?c"
    using pub props s(2)
    by (cases "am_reasonCode msg"; simp add: handle_Pubcomp_def h SendOp_handle_Pubcomp_def Let_def rc_def
        response_of_def split: prod.split)
  then show "cl_events (handle_Pubcomp b msg cl) = cl_events cl @
           (if so_cb op then [Ev_PublishComplete (so_id op) St_Complete (Some (response_of rc ps))] else [])"
    "m_sendOps (handle_Pubcomp b msg cl) = rest" "in_flight (handle_Pubcomp b msg cl) = in_flight cl - 1"
    "held_ids (handle_Pubcomp b msg cl) = held_ids cl - ({am_packetId msg} - {0})"
    using complete_front [OF okc s(1) n, of b St_Complete "Some (response_of rc ps)"] s(3-5) pub(1,2) by simp_all
qed

section \<open>Properties\<close>

text \<open>
  C7: The broker's receive maximum is respected wherever publishes are sent. Resuming paused
  publishes (\<^verbatim>\<open>resumeSendOpsSince\<close>, from any index) never takes the number of unacknowledged
  publishes above the limit: it ends within the limit if it began there, and otherwise no higher
  than it began. The same holds for a completion with all that it resumes, which moreover gives back the place of
  the completed publish first, and for a \<^verbatim>\<open>send\<close> of a fresh publish during which no time passes (the
  application has set no timer callbacks); when there is no place for a complete publish of QoS 1 or 2, it is paused
  and nothing is sent.
\<close>

theorem receive_maximum_respected:
  assumes "client_ok cl"
  shows "in_flight (resumeSends b idx cl) \<le> max (in_flight cl) (send_limit cl) \<and>
         send_limit (resumeSends b idx cl) = send_limit cl \<and>
         (\<forall>i op status response. send_op_at i cl = Some op \<longrightarrow>
            in_flight (completeWithCb b i status response cl) \<le>
              max (in_flight cl - (if so_published op then 1 else 0)) (send_limit cl)) \<and>
         (\<forall>i op elapsed cb. send_op_at i cl = Some op \<and> \<not> so_published op \<and> \<not> so_paused op \<and> \<not> m_cancelNextTickWaitCb cl \<longrightarrow>
            in_flight (snd (SendOp_send b elapsed cb i cl)) \<le> max (in_flight cl) (send_limit cl) \<and>
            (timer_isValid (so_responseTimer op) \<and> so_topicConfigured op \<and> send_limit cl \<le> in_flight cl \<and>
               AtMostOnce < pm_qos (so_pubMsg op) \<longrightarrow>
             cl_events (snd (SendOp_send b elapsed cb i cl)) = cl_events cl \<and>
             i \<in> paused_ids (snd (SendOp_send b elapsed cb i cl))))"
proof -
  have r: "capped (resumeSends b idx cl) cl" using resumeSends_capped assms by (simp add: rs_capped_def)
  have "send_limit (resumeSends b idx cl) = send_limit cl"
    using r by (simp add: capped_def within_def send_limit_def)
  moreover have "in_flight (completeWithCb b i status response cl) \<le>
      max (in_flight cl - (if so_published op then 1 else 0)) (send_limit cl)"
    if "send_op_at i cl = Some op" for i op status response
    unfolding completeWithCb_def by (rule completion_capped(2) [OF resumeSends_capped assms that])
  moreover note SendOp_send_capped [OF assms]
  ultimately show ?thesis using r by (auto simp: capped_def)
qed

text \<open>
  C14: A publish of QoS 1 ends with its PUBACK: the oldest one, when none is waiting for its turn, is
  completed with the reason code and properties of the PUBACK, told to its callback, and gone; its place
  and its packet identifier are free again, and nothing else happens.
\<close>

theorem puback_completes_publish:
  assumes "client_ok cl" and "m_sendOps cl = op # rest" and "none_paused cl"
    and "so_published op" and "pm_packetId (so_pubMsg op) = am_packetId msg" and "pm_qos (so_pubMsg op) = AtLeastOnce"
    and "ack_props b (m_sessionState cl) (am_props msg) = Some ps"
  shows "cl_events (handle_Puback b msg cl) = cl_events cl @
           (if so_cb op
            then [Ev_PublishComplete (so_id op) St_Complete
                    (Some (response_of (case am_reasonCode msg of None \<Rightarrow> RC_Success | Some r \<Rightarrow> r) ps))]
            else []) \<and>
         m_sendOps (handle_Puback b msg cl) = rest \<and>
         in_flight (handle_Puback b msg cl) = in_flight cl - 1 \<and>
         held_ids (handle_Puback b msg cl) = held_ids cl - ({am_packetId msg} - {0})"
  using puback_front [OF assms] by blast

text \<open>
  C13: A publish of QoS 2, the oldest one when none is waiting for its turn, ends with PUBREC and PUBCOMP:
  the first is answered with PUBREL, the second completes the operation and tells its callback; then its
  place and its packet identifier are free again. The reason code that is told is that of the
  PUBCOMP alone: a reason code of the PUBREC below 128, such as 'no matching subscribers', is lost.
\<close>

theorem qos2_publish_handshake:
  assumes "client_ok cl" and "m_sendOps cl = op # rest" and "none_paused cl"
    and "so_published op" and "pm_packetId (so_pubMsg op) = p" and "pm_qos (so_pubMsg op) = ExactlyOnce" and "\<not> so_acked op"
    and "am_packetId m1 = p" and "am_packetId m2 = p"
    and "case am_reasonCode m1 of None \<Rightarrow> True | Some r \<Rightarrow> r < RC_UnspecifiedError"
    and "ack_props b (m_sessionState cl) (am_props m1) = Some ps"
    and "ack_props b (m_sessionState cl) (am_props m2) = Some qs"
    and "fst (sendMessage b (Pubrel_Out p None) cl) = EC_Success"
  shows "cl_events (handle_Pubcomp b m2 (handle_Pubrec b m1 cl)) = cl_events cl @ Ev_Output (Pubrel_Out p None) #
           (if so_cb op
            then [Ev_PublishComplete (so_id op) St_Complete
                    (Some (response_of (case am_reasonCode m2 of None \<Rightarrow> RC_Success | Some r \<Rightarrow> r) qs))]
            else []) \<and>
         m_sendOps (handle_Pubcomp b m2 (handle_Pubrec b m1 cl)) = rest \<and>
         in_flight (handle_Pubrec b m1 cl) = in_flight cl \<and> held_ids (handle_Pubrec b m1 cl) = held_ids cl \<and>
         in_flight (handle_Pubcomp b m2 (handle_Pubrec b m1 cl)) = in_flight cl - 1 \<and>
         held_ids (handle_Pubcomp b m2 (handle_Pubrec b m1 cl)) = held_ids cl - ({p} - {0})"
proof -
  have p: "pm_packetId (so_pubMsg op) = am_packetId m1" "fst (sendMessage b (Pubrel_Out (am_packetId m1) None) cl) = EC_Success"
    using assms(5,8,13) by simp_all
  obtain op' where r: "cl_events (handle_Pubrec b m1 cl) = cl_events cl @ [Ev_Output (Pubrel_Out (am_packetId m1) None)]"
    "m_sendOps (handle_Pubrec b m1 cl) = op' # rest" "client_ok (handle_Pubrec b m1 cl)"
    "m_sessionState (handle_Pubrec b m1 cl) = m_sessionState cl"
    "so_id op' = so_id op" "so_published op'" "so_acked op'" "so_pubMsg op' = so_pubMsg op" "so_cb op' = so_cb op"
    "so_paused op' = so_paused op" "so_reasonCode op' = RC_Success"
    "in_flight (handle_Pubrec b m1 cl) = in_flight cl" "held_ids (handle_Pubrec b m1 cl) = held_ids cl"
    by (rule pubrec_front [OF assms(1,2,4) p(1) assms(6,7,11,10) p(2)])
  have idle: "none_paused (handle_Pubrec b m1 cl)" using assms(2,3) r(2,10) by (simp add: none_paused_def)
  have q: "pm_packetId (so_pubMsg op') = am_packetId m2" "pm_qos (so_pubMsg op') = ExactlyOnce"
    "ack_props b (m_sessionState (handle_Pubrec b m1 cl)) (am_props m2) = Some qs"
    using assms(5,6,9,12) r(4,8) by simp_all
  show ?thesis
    using pubcomp_front [OF r(3,2) idle r(6) q(1,2) r(7,11) q(3)] r(1,5,9,12,13) assms(8,9) by simp
qed

lemma sample_facts_sends:
  "m_sendOps (sample_client b sends subs ids) = sends" "in_flight (sample_client b sends subs ids) = published_count sends"
  "held_ids (sample_client b sends subs ids) = set ids"
  by (simp_all add: sample_client_def in_flight_def held_ids_def)

theorem receive_maximum_respected_witness:
  "cl_events (snd (SendOp_send sample_build 0 True 4 (sample_client sample_build
       [sample_publish 3 5, (sample_publish 4 0)\<lparr>so_published := False\<rparr>] [] [5]))) =
   cl_events (sample_client sample_build [sample_publish 3 5, (sample_publish 4 0)\<lparr>so_published := False\<rparr>] [] [5])"
proof -
  let ?ps = "[sample_publish 3 5, (sample_publish 4 0)\<lparr>so_published := False\<rparr>]"
  let ?cl = "sample_client sample_build ?ps [] [5]" and ?op = "(sample_publish 4 0)\<lparr>so_published := False\<rparr>"
  have ok: "client_ok ?cl" by (rule sample_client_ok) (simp_all add: sample_publish_def key_sorted_def)
  have at: "send_op_at 4 ?cl = Some ?op"
    by (simp add: send_op_at_def op_at_def sample_facts_sends sample_publish_def)
  have op: "\<not> so_published ?op" "\<not> so_paused ?op" "so_topicConfigured ?op" "AtMostOnce < pm_qos (so_pubMsg ?op)"
    "timer_isValid (so_responseTimer ?op)"
    by (simp_all add: sample_publish_def timer_isValid_def InvalidIdx_def)
  have l: "send_limit ?cl \<le> in_flight ?cl" by (simp add: send_limit_def SessionState_init_def)
  have q: "\<not> m_cancelNextTickWaitCb ?cl" by simp
  show ?thesis
    using receive_maximum_respected [OF ok, of sample_build 0] at op l q by blast
qed

definition sample_ack :: "16 word \<Rightarrow> ack_msg" where
  "sample_ack p = \<lparr>am_packetId = p, am_reasonCode = None, am_props = None, am_valid = True\<rparr>"

theorem puback_completes_publish_witness:
  "cl_events (handle_Puback sample_build (sample_ack 5)
     (sample_client sample_build [(sample_publish 3 5)\<lparr>so_cb := True\<rparr>] [] [5])) =
   cl_events (sample_client sample_build [(sample_publish 3 5)\<lparr>so_cb := True\<rparr>] [] [5]) @
     [Ev_PublishComplete 3 St_Complete (Some (response_of RC_Success (None, [])))] \<and>
   held_ids (handle_Puback sample_build (sample_ack 5)
     (sample_client sample_build [(sample_publish 3 5)\<lparr>so_cb := True\<rparr>] [] [5])) = {}"
proof -
  let ?op = "(sample_publish 3 5)\<lparr>so_cb := True\<rparr>"
  let ?cl = "sample_client sample_build [?op] [] [5]"
  have ok: "client_ok ?cl" by (rule sample_client_ok) (simp_all add: sample_publish_def key_sorted_def)
  have n: "none_paused ?cl" by (simp add: none_paused_def sample_facts_sends sample_publish_def)
  have op: "so_published ?op" "pm_packetId (so_pubMsg ?op) = am_packetId (sample_ack 5)"
    "pm_qos (so_pubMsg ?op) = AtLeastOnce" "so_cb ?op" "so_id ?op = 3"
    by (simp_all add: sample_publish_def sample_ack_def)
  have a: "ack_props sample_build (m_sessionState ?cl) (am_props (sample_ack 5)) = Some (None, [])"
    by (simp add: ack_props_def sample_ack_def)
  have r: "am_reasonCode (sample_ack 5) = None" by (simp add: sample_ack_def)
  show ?thesis
    using puback_completes_publish [OF ok sample_facts_sends(1) n op(1-3) a]
    by (simp add: op(4,5) r sample_facts_sends(3)) (simp add: sample_ack_def)
qed

theorem qos2_publish_handshake_witness:
  "cl_events (handle_Pubcomp sample_build (sample_ack 5) (handle_Pubrec sample_build ((sample_ack 5)\<lparr>am_reasonCode := Some 16\<rparr>)
     (sample_client sample_build [(sample_publish 3 5)\<lparr>so_cb := True, so_pubMsg := (so_pubMsg (sample_publish 3 5))\<lparr>pm_qos := ExactlyOnce\<rparr>\<rparr>] [] [5]))) =
   cl_events (sample_client sample_build [(sample_publish 3 5)\<lparr>so_cb := True, so_pubMsg := (so_pubMsg (sample_publish 3 5))\<lparr>pm_qos := ExactlyOnce\<rparr>\<rparr>] [] [5]) @
     [Ev_Output (Pubrel_Out 5 None), Ev_PublishComplete 3 St_Complete (Some (response_of RC_Success (None, [])))]"
proof -
  let ?op = "(sample_publish 3 5)\<lparr>so_cb := True, so_pubMsg := (so_pubMsg (sample_publish 3 5))\<lparr>pm_qos := ExactlyOnce\<rparr>\<rparr>"
  let ?cl = "sample_client sample_build [?op] [] [5]" and ?m1 = "(sample_ack 5)\<lparr>am_reasonCode := Some 16\<rparr>"
  have ok: "client_ok ?cl" by (rule sample_client_ok) (simp_all add: sample_publish_def key_sorted_def)
  have n: "none_paused ?cl" by (simp add: none_paused_def sample_facts_sends sample_publish_def)
  have op: "so_published ?op" "pm_packetId (so_pubMsg ?op) = 5" "pm_qos (so_pubMsg ?op) = ExactlyOnce" "\<not> so_acked ?op"
    "so_cb ?op" "so_id ?op = 3"
    by (simp_all add: sample_publish_def)
  have m: "am_packetId ?m1 = 5" "am_packetId (sample_ack 5) = 5" "am_reasonCode (sample_ack 5) = None"
    "case am_reasonCode ?m1 of None \<Rightarrow> True | Some r \<Rightarrow> r < RC_UnspecifiedError"
    by (simp_all add: sample_ack_def RC_UnspecifiedError_def)
  have a: "ack_props sample_build (m_sessionState ?cl) (am_props ?m1) = Some (None, [])"
    "ack_props sample_build (m_sessionState ?cl) (am_props (sample_ack 5)) = Some (None, [])"
    by (simp_all add: ack_props_def sample_ack_def)
  have f: "fst (sendMessage sample_build (Pubrel_Out 5 None) ?cl) = EC_Success"
    by (simp add: sendMessage_def SessionState_init_def) (simp add: sample_build_def default_config_def)
  show ?thesis
    using qos2_publish_handshake [OF ok sample_facts_sends(1) n op(1-4) m(1,2,4) a f] by (simp add: op(5,6) m(3))
qed

end
