(* ===== verification/Subscriptions.thy ===== *)
theory Subscriptions
  imports Client_Disconnect
begin

text \<open>
  What SUBACK and UNSUBACK do to the set of subscriptions. The client keeps the filters in a
  sorted vector; the contract is a set of filters to which an accepted SUBACK adds what the
  broker granted and from which an accepted UNSUBACK takes what the broker confirmed. The
  messages go through the whole dispatch: every other operation only takes them as a sign
  of life.
\<close>

section \<open>The contract\<close>

text \<open>The operations that a SUBACK or UNSUBACK is not for.\<close>

fun ignores :: "in_msg \<Rightarrow> op_ref \<Rightarrow> client \<Rightarrow> bool" where
  "ignores (Suback_In m) (Type_Subscribe, j) cl \<longleftrightarrow>
     (case subscribe_op_at j cl of None \<Rightarrow> True | Some op \<Rightarrow> sm_packetId (sub_msg op) \<noteq> sa_packetId m)"
| "ignores (Unsuback_In m) (Type_Unsubscribe, j) cl \<longleftrightarrow>
     (case unsubscribe_op_at j cl of None \<Rightarrow> True | Some op \<Rightarrow> um_packetId (uns_msg op) \<noteq> sa_packetId m)"
| "ignores (Suback_In m) _ cl \<longleftrightarrow> True"
| "ignores (Unsuback_In m) _ cl \<longleftrightarrow> True"
| "ignores _ _ cl \<longleftrightarrow> False"

text \<open>The properties of an acknowledgement in order, as far as the session lets the broker send them.\<close>

definition ack_props_ok :: "build \<Rightarrow> suback_msg \<Rightarrow> client \<Rightarrow> bool" where
  "ack_props_ok b m cl \<longleftrightarrow>
     \<not> isProtocolError (handle_props (b_config b) (sa_props m)) \<and>
     sub_props b (m_sessionState cl) (handle_props (b_config b) (sa_props m)) \<noteq> None"

text \<open>The operation the message answers, and that the answer fits the request.\<close>

fun answers :: "build \<Rightarrow> in_msg \<Rightarrow> op_ref \<Rightarrow> client \<Rightarrow> bool" where
  "answers b (Suback_In m) (Type_Subscribe, i) cl \<longleftrightarrow>
     ack_props_ok b m cl \<and>
     (case subscribe_op_at i cl of
        None \<Rightarrow> False
      | Some op \<Rightarrow>
          sub_cb op \<and> sm_packetId (sub_msg op) = sa_packetId m \<and>
          length (sm_list (sub_msg op)) = length (sa_list m) \<and>
          (\<forall>(el, rc)\<in>set (zip (sm_list (sub_msg op)) (sa_list m)). rc \<le> 2 \<longrightarrow> rc \<le> se_qos el))"
| "answers b (Unsuback_In m) (Type_Unsubscribe, i) cl \<longleftrightarrow>
     ack_props_ok b m cl \<and>
     (case unsubscribe_op_at i cl of
        None \<Rightarrow> False
      | Some op \<Rightarrow>
          uns_cb op \<and> um_packetId (uns_msg op) = sa_packetId m \<and>
          length (um_list (uns_msg op)) = length (sa_list m))"
| "answers _ _ _ _ \<longleftrightarrow> False"

text \<open>What it does to the set of subscriptions.\<close>

fun subscribed_after :: "in_msg \<Rightarrow> op_ref \<Rightarrow> client \<Rightarrow> cstr set \<Rightarrow> cstr set" where
  "subscribed_after (Suback_In m) (Type_Subscribe, i) cl S =
     (case subscribe_op_at i cl of
        None \<Rightarrow> S
      | Some op \<Rightarrow> S \<union> set (granted_filters (zip (sm_list (sub_msg op)) (sa_list m))))"
| "subscribed_after (Unsuback_In m) (Type_Unsubscribe, i) cl S =
     (case unsubscribe_op_at i cl of
        None \<Rightarrow> S
      | Some op \<Rightarrow> S - set (confirmed_filters (zip (um_list (uns_msg op)) (sa_list m))))"
| "subscribed_after _ _ _ S = S"

text \<open>What the application is told.\<close>

definition ack_response :: "build \<Rightarrow> suback_msg \<Rightarrow> sub_response" where
  "ack_response b m =
     \<lparr>sr_reasonCodes = sa_list m, sr_reasonStr = ph_reasonStr (handle_props (b_config b) (sa_props m)),
      sr_userProps = fillUserProps (b_config b) (handle_props (b_config b) (sa_props m))\<rparr>"

fun ack_event :: "build \<Rightarrow> in_msg \<Rightarrow> op_ref \<Rightarrow> event" where
  "ack_event b (Suback_In m) (t, i) = Ev_SubscribeComplete i St_Complete (Some (ack_response b m))"
| "ack_event b (Unsuback_In m) (t, i) = Ev_UnsubscribeComplete i St_Complete (Some (ack_response b m))"
| "ack_event b msg (t, i) = Ev_SubscribeComplete i St_InternalError None"

text \<open>A build that records filters without limits of its own.\<close>

definition records_filters :: "build \<Rightarrow> bool" where
  "records_filters b \<longleftrightarrow>
     HasSubTopicVerification (b_config b) \<and> SubFiltersLimit (b_config b) = 0 \<and>
     suback_codes_cap b = None \<and> unsuback_codes_cap b = None"

section \<open>Passing by the other operations\<close>

lemma timers_frame [simp]:
  "subscribe_op_at i (on_timers g cl) = subscribe_op_at i cl"
  "unsubscribe_op_at i (on_timers g cl) = unsubscribe_op_at i cl"
  "m_ops (on_timers g cl) = m_ops cl" "m_subFilters (on_timers g cl) = m_subFilters cl"
  "m_sessionState (on_timers g cl) = m_sessionState cl" "m_configState (on_timers g cl) = m_configState cl"
  by (simp_all add: on_timers_def subscribe_op_at_def unsubscribe_op_at_def)

lemma ignores_same:
  "m_subscribeOps c = m_subscribeOps cl \<Longrightarrow> m_unsubscribeOps c = m_unsubscribeOps cl \<Longrightarrow>
     ignores msg ref c = ignores msg ref cl"
  by (cases "(msg, ref, cl)" rule: ignores.cases) (simp_all add: subscribe_op_at_def unsubscribe_op_at_def)

lemma ignores_effects [simp]:
  "ignores msg ref (on_timers g cl) = ignores msg ref cl"
  "ignores msg ref (set_filters fs cl) = ignores msg ref cl"
  "ignores msg ref (emit ev cl) = ignores msg ref cl"
  by (rule ignores_same; simp add: on_timers_def set_filters_def emit_def)+

lemma subscribed_after_timers [simp]: "subscribed_after msg ref (on_timers g cl) S = subscribed_after msg ref cl S"
  by (cases "(msg, ref, cl, S)" rule: subscribed_after.cases) simp_all

lemma answers_timers [simp]: "answers b msg ref (on_timers g cl) = answers b msg ref cl"
  by (cases "(b, msg, ref, cl)" rule: answers.cases) (simp_all add: ack_props_ok_def)

lemma dispatch_ignored:
  assumes ok: "client_ok cl" and live: "Some ref \<in> set (m_ops cl)" and i: "ignores msg ref cl"
  shows "\<exists>g. dispatch_op b msg ref cl = on_timers g cl"
proof (cases ref)
  case (Pair t j)
  have same: "\<exists>g. cl = on_timers g cl" by (rule exI [of _ "\<lambda>tm. tm"]) (simp add: on_timers_def)
  have restart: "\<exists>g. restartRecvTimer op cl = on_timers g cl" for op
    using same by (auto simp: restartRecvTimer_def Let_def)
  note found = live_found [OF ok live [unfolded Pair]]
  show ?thesis
    using i Pair same restart found
    by (cases msg; cases t)
       (auto simp: dispatch_op_def dispatch_KeepAlive_def KeepAliveOp_handle_other_def keep_alive_op_at_def
          SubscribeOp_handle_Suback_def UnsubscribeOp_handle_Unsuback_def subscribe_op_at_def unsubscribe_op_at_def)
qed

lemma loop_ignored:
  assumes "client_ok cl" and "\<not> m_disconnecting (m_sessionState cl)"
    and "\<forall>k\<in>set ks. k < length (m_ops cl) \<and> (\<forall>ref. m_ops cl ! k = Some ref \<longrightarrow> ignores msg ref cl)"
  shows "\<exists>g. dispatch_loop b msg ks cl = on_timers g cl"
  using assms
proof (induction ks arbitrary: cl)
  case Nil
  then show ?case by (intro exI [of _ "\<lambda>tm. tm"]) (simp add: on_timers_def)
next
  case (Cons k ks)
  show ?case
  proof (cases "m_ops cl ! k")
    case None
    then show ?thesis using Cons by simp
  next
    case (Some ref)
    have "k < length (m_ops cl)" "ignores msg ref cl" using Cons.prems(3) Some by (metis list.set_intros(1))+
    then have "Some ref \<in> set (m_ops cl)" "ignores msg ref cl" using Some nth_mem by fastforce+
    then obtain g where g: "dispatch_op b msg ref cl = on_timers g cl" using dispatch_ignored [OF Cons.prems(1)] by blast
    have "client_ok (on_timers g cl)" using Cons.prems(1) same_core_ok [of "on_timers g cl" cl] by simp
    then obtain h where "dispatch_loop b msg ks (on_timers g cl) = on_timers h (on_timers g cl)"
      using Cons.IH [of "on_timers g cl"] Cons.prems(2,3) by auto
    then show ?thesis using Some g Cons.prems(2) by (auto simp: Let_def on_timers_twice)
  qed
qed

lemma dispatch_loop_append:
  "\<not> m_disconnecting (m_sessionState (dispatch_loop b msg xs cl)) \<Longrightarrow>
     dispatch_loop b msg (xs @ ys) cl = dispatch_loop b msg ys (dispatch_loop b msg xs cl)"
  by (induction b msg xs cl rule: dispatch_loop.induct) (auto simp: Let_def split: option.splits if_splits)

section \<open>The operation that is answered\<close>

lemma suback_loop_returns:
  "records_filters b \<Longrightarrow> \<forall>(el, rc)\<in>set xs. rc \<le> 2 \<longrightarrow> rc \<le> se_qos el \<Longrightarrow>
     \<exists>cs fs. suback_loop b verify codes flts xs = Codes_Done cs fs"
  by (induction b verify codes flts xs rule: suback_loop.induct)
     (auto simp: records_filters_def cap_reached_def record_filter_def obj_list_full_def split: option.split)

lemma unsuback_loop_returns:
  "records_filters b \<Longrightarrow> \<exists>cs fs. unsuback_loop b codes flts xs = Codes_Done cs fs"
  by (induction b codes flts xs rule: unsuback_loop.induct) (auto simp: records_filters_def cap_reached_def)

text \<open>The end of an accepted acknowledgement: new filters, the operation gone, the application told.\<close>

lemma answered:
  assumes b: "records_filters b" and flts: "filters_ok (m_subFilters cl)"
    and v: "m_verifySubFilter (m_configState cl)" and a: "answers b msg ref cl"
  obtains fs g where "dispatch_op b msg ref cl = emit (ack_event b msg ref) (opComplete b ref (set_filters fs (on_timers g cl)))"
    and "filters_ok fs" and "set fs = subscribed_after msg ref cl (set (m_subFilters cl))"
proof (cases "(b, msg, ref, cl)" rule: answers.cases)
  case (1 b' m i cl')
  then have e: "b' = b" "msg = Suback_In m" "ref = (Type_Subscribe, i)" "cl' = cl" by simp_all
  obtain op where op: "subscribe_op_at i cl = Some op" "sub_cb op" "sm_packetId (sub_msg op) = sa_packetId m"
    "length (sm_list (sub_msg op)) = length (sa_list m)"
    "\<forall>(el, rc)\<in>set (zip (sm_list (sub_msg op)) (sa_list m)). rc \<le> 2 \<longrightarrow> rc \<le> se_qos el"
    and p: "ack_props_ok b m cl"
    using a unfolding e by (auto split: option.splits)
  obtain cs fs where l: "suback_loop b True [] (m_subFilters cl) (zip (sm_list (sub_msg op)) (sa_list m)) = Codes_Done cs fs"
    using suback_loop_returns [OF b op(5)] by blast
  note d = suback_loop_done [OF flts l] and so = suback_loop_sorted [OF flts, of b True "[]" "zip (sm_list (sub_msg op)) (sa_list m)"]
  have cs: "cs = sa_list m" using d op(4) by simp
  show thesis
  proof (rule that [of fs "timerCancel (sub_timer op)"])
    show "dispatch_op b msg ref cl =
        emit (ack_event b msg ref) (opComplete b ref (set_filters fs (on_timers (timerCancel (sub_timer op)) cl)))"
      using p op l cs v
      by (auto simp: e dispatch_op_def SubscribeOp_handle_Suback_def subscribe_op_at_def ack_props_ok_def sub_props_def
          SubscribeOp_completeOpInternal_def set_filters_def on_timers_def ack_response_def Let_def split: if_splits)
    show "filters_ok fs" using so l by simp
    show "set fs = subscribed_after msg ref cl (set (m_subFilters cl))"
      using d b op by (simp add: e records_filters_def)
  qed
next
  case (2 b' m i cl')
  then have e: "b' = b" "msg = Unsuback_In m" "ref = (Type_Unsubscribe, i)" "cl' = cl" by simp_all
  obtain op where op: "unsubscribe_op_at i cl = Some op" "uns_cb op" "um_packetId (uns_msg op) = sa_packetId m"
    "length (um_list (uns_msg op)) = length (sa_list m)"
    and p: "ack_props_ok b m cl"
    using a unfolding e by (auto split: option.splits)
  obtain cs fs where l: "unsuback_loop b [] (m_subFilters cl) (zip (um_list (uns_msg op)) (sa_list m)) = Codes_Done cs fs"
    using unsuback_loop_returns [OF b] by blast
  note d = unsuback_loop_done [OF flts l]
  have cs: "cs = sa_list m" using d op(4) by simp
  show thesis
  proof (rule that [of fs "timerCancel (uns_timer op)"])
    show "dispatch_op b msg ref cl =
        emit (ack_event b msg ref) (opComplete b ref (set_filters fs (on_timers (timerCancel (uns_timer op)) cl)))"
      using p op l cs
      by (auto simp: e dispatch_op_def UnsubscribeOp_handle_Unsuback_def unsubscribe_op_at_def ack_props_ok_def sub_props_def
          UnsubscribeOp_completeOpInternal_def set_filters_def on_timers_def ack_response_def Let_def split: if_splits)
    show "filters_ok fs" using d by blast
    show "set fs = subscribed_after msg ref cl (set (m_subFilters cl))"
      using d b op by (simp add: e records_filters_def)
  qed
qed (use a in simp_all)

lemma opComplete_answered:
  assumes live: "Some (t, i) \<in> set (m_ops cl)" and t: "t = Type_Subscribe \<or> t = Type_Unsubscribe"
  shows "cl_events (opComplete b (t, i) cl) = cl_events cl"
    and "m_subFilters (opComplete b (t, i) cl) = m_subFilters cl"
    and "m_sessionState (opComplete b (t, i) cl) = m_sessionState cl"
    and "m_ops (opComplete b (t, i) cl) = nullify (t, i) (m_ops cl)"
    and "m_recvOps (opComplete b (t, i) cl) = m_recvOps cl"
    and "m_configState (opComplete b (t, i) cl) = m_configState cl"
    and "r \<noteq> (t, i) \<Longrightarrow> ignores msg r cl \<Longrightarrow> ignores msg r (opComplete b (t, i) cl)"
proof -
  have k: "\<not> length (m_ops cl) \<le> find_idx (\<lambda>p. p = Some (t, i)) (m_ops cl)" using find_ref [OF live] by simp
  note unf = opComplete_def opComplete_with_def opComplete_Subscribe_def opComplete_Unsubscribe_def Let_def
    destroy_timer_def release_id_def on_timers_def on_client_state_def
  show "cl_events (opComplete b (t, i) cl) = cl_events cl"
    "m_subFilters (opComplete b (t, i) cl) = m_subFilters cl"
    "m_sessionState (opComplete b (t, i) cl) = m_sessionState cl"
    "m_ops (opComplete b (t, i) cl) = nullify (t, i) (m_ops cl)"
    "m_recvOps (opComplete b (t, i) cl) = m_recvOps cl" "m_configState (opComplete b (t, i) cl) = m_configState cl"
    using t k by (auto simp: unf nullify_def split: option.split)
  have "subscribe_op_at j (opComplete b (t, i) cl) = subscribe_op_at j cl" if "(Type_Subscribe, j) \<noteq> (t, i)" for j
    using t k that
    by (cases "op_at sub_id i (m_subscribeOps cl)"; cases "op_at uns_id i (m_unsubscribeOps cl)")
       (auto simp: unf subscribe_op_at_def op_at_erase)
  moreover have "unsubscribe_op_at j (opComplete b (t, i) cl) = unsubscribe_op_at j cl" if "(Type_Unsubscribe, j) \<noteq> (t, i)" for j
    using t k that
    by (cases "op_at sub_id i (m_subscribeOps cl)"; cases "op_at uns_id i (m_unsubscribeOps cl)")
       (auto simp: unf unsubscribe_op_at_def op_at_erase)
  ultimately show "ignores msg r (opComplete b (t, i) cl)" if "r \<noteq> (t, i)" "ignores msg r cl"
    using that by (cases "(msg, r, cl)" rule: ignores.cases) auto
qed

lemma answers_typed: "answers b msg (t, i) cl \<Longrightarrow> t = Type_Subscribe \<or> t = Type_Unsubscribe"
  by (cases "(b, msg, (t, i), cl)" rule: answers.cases) auto

lemma answers_live: "client_ok cl \<Longrightarrow> answers b msg ref cl \<Longrightarrow> Some ref \<in> set (m_ops cl)"
  by (cases "(b, msg, ref, cl)" rule: answers.cases) (auto dest: live_of split: option.splits)

lemma answers_message: "answers b msg ref cl \<Longrightarrow> handle_message b msg c = handle_other b msg c"
  by (cases "(b, msg, ref, cl)" rule: answers.cases) (auto simp: handle_message_def)

lemma acknowledged:
  assumes "client_ok cl" and "\<not> m_disconnecting (m_sessionState cl)" and "filters_ok (m_subFilters cl)"
    and "records_filters b" and "m_verifySubFilter (m_configState cl)" and "answers b msg ref cl"
    and "\<forall>r. Some r \<in> set (m_ops cl) \<and> r \<noteq> ref \<longrightarrow> ignores msg r cl"
  shows "filters_ok (m_subFilters (handle_message b msg cl)) \<and>
         set (m_subFilters (handle_message b msg cl)) = subscribed_after msg ref cl (set (m_subFilters cl)) \<and>
         cl_events (handle_message b msg cl) = cl_events cl @ [ack_event b msg ref] \<and>
         Some ref \<notin> set (m_ops (handle_message b msg cl))"
    and "m_sessionState (handle_message b msg cl) = m_sessionState cl"
    and "m_configState (handle_message b msg cl) = m_configState cl"
    and "m_recvOps (handle_message b msg cl) = m_recvOps cl"
proof -
  obtain t i where r: "ref = (t, i)" by (cases ref)
  note t = answers_typed [OF assms(6) [unfolded r]] and live = answers_live [OF assms(1,6)]
  let ?n = "length (m_ops cl)" and ?k = "find_idx (\<lambda>p. p = Some ref) (m_ops cl)"
  have k: "?k < ?n" "m_ops cl ! ?k = Some ref" using find_ref [OF live] by auto
  have before: "m_ops cl ! j \<noteq> Some ref" if "j < ?k" for j
    using find_idx_before [OF that] by simp
  have idle: "\<exists>g. dispatch_loop b msg [0..<?k] cl = on_timers g cl"
    using assms(7) before k(1) by (intro loop_ignored [OF assms(1,2)]) (auto simp: in_set_conv_nth, metis less_trans nth_mem)
  then obtain g where g: "dispatch_loop b msg [0..<?k] cl = on_timers g cl" by blast
  let ?c = "on_timers g cl"
  have okc: "client_ok ?c" using assms(1) same_core_ok [of ?c cl] by simp
  obtain fs h where d: "dispatch_op b msg ref ?c = emit (ack_event b msg ref) (opComplete b ref (set_filters fs (on_timers h ?c)))"
    and fs: "filters_ok fs" "set fs = subscribed_after msg ref ?c (set (m_subFilters ?c))"
    using answered [of b ?c msg ref] assms(3-6) by auto
  let ?f = "set_filters fs (on_timers h ?c)" and ?d = "dispatch_op b msg ref ?c"
  have "same_core ?f ?c" by (rule same_core_trans [of _ "on_timers h ?c"]) simp_all
  then have okf: "client_ok ?f" using okc same_core_ok by blast
  have livef: "Some (t, i) \<in> set (m_ops ?f)" using live r by (simp add: set_filters_def)
  note oc = opComplete_answered [OF livef t, where b = b, folded r]
  have okd: "client_ok ?d"
  proof -
    have "client_ok (opComplete b ref ?f)" using step_ok_ok [OF opComplete_ok(1) [OF okf livef]] t by (auto simp: r)
    moreover have "same_core ?d (opComplete b ref ?f)" unfolding d by simp
    ultimately show ?thesis using same_core_ok by blast
  qed
  have ops: "m_ops ?d = nullify ref (m_ops cl)" using oc(4) by (simp add: d emit_def set_filters_def)
  have gone: "Some ref \<notin> set (m_ops ?d)" using opComplete_gone [OF okf livef, of b] t by (auto simp: d r [symmetric])
  have rest: "ignores msg q ?d" if "Some q \<in> set (m_ops ?d)" for q
  proof -
    have "q \<noteq> ref" using that gone by blast
    moreover have "Some q \<in> set (m_ops cl)" using that set_update_subset_insert [of "m_ops cl" ?k None] unfolding ops nullify_def by auto
    ultimately have "ignores msg q ?f" using assms(7) unfolding ignores_effects by blast
    then have "ignores msg q (opComplete b ref ?f)" using oc(7) \<open>q \<noteq> ref\<close> by blast
    then show ?thesis unfolding d by simp
  qed
  have ses: "m_sessionState ?d = m_sessionState cl" using oc(3) by (simp add: d emit_def set_filters_def)
  have rest3: "m_configState ?d = m_configState cl" "m_recvOps ?d = m_recvOps cl"
    unfolding d using oc(5,6) by (simp_all add: emit_def set_filters_def on_timers_def)
  have "\<exists>u. dispatch_loop b msg [Suc ?k..<?n] ?d = on_timers u ?d"
  proof (rule loop_ignored [OF okd])
    show "\<not> m_disconnecting (m_sessionState ?d)" using ses assms(2) by simp
    have n: "length (m_ops ?d) = ?n" by (simp add: ops nullify_def)
    have "ignores msg q ?d" if "j < ?n" "m_ops ?d ! j = Some q" for j q
      using rest that nth_mem [of j "m_ops ?d"] n by simp
    then show "\<forall>j\<in>set [Suc ?k..<?n]. j < length (m_ops ?d) \<and> (\<forall>q. m_ops ?d ! j = Some q \<longrightarrow> ignores msg q ?d)"
      using n by (metis atLeastLessThan_iff set_upt)
  qed
  then obtain u where u: "dispatch_loop b msg [Suc ?k..<?n] ?d = on_timers u ?d" by blast
  have "[0..<?n] = [0..<?k] @ ?k # [Suc ?k..<?n]" using k(1) by (metis less_imp_add_positive upt_add_eq_append upt_rec zero_le)
  then have h: "handle_message b msg cl = on_timers u ?d"
    using g u k ses assms(2) dispatch_loop_append [of b msg "[0..<?k]" cl "?k # [Suc ?k..<?n]"]
    by (simp add: answers_message [OF assms(6)] handle_other_def Let_def)
  have "m_subFilters ?d = fs" "cl_events ?d = cl_events cl @ [ack_event b msg ref]"
    unfolding d using oc(1,2) by (simp_all add: emit_def set_filters_def on_timers_def)
  then show "filters_ok (m_subFilters (handle_message b msg cl)) \<and>
         set (m_subFilters (handle_message b msg cl)) = subscribed_after msg ref cl (set (m_subFilters cl)) \<and>
         cl_events (handle_message b msg cl) = cl_events cl @ [ack_event b msg ref] \<and>
         Some ref \<notin> set (m_ops (handle_message b msg cl))"
    using fs gone unfolding h by (simp add: on_timers_def [of u])
  show "m_sessionState (handle_message b msg cl) = m_sessionState cl"
    "m_configState (handle_message b msg cl) = m_configState cl" "m_recvOps (handle_message b msg cl) = m_recvOps cl"
    unfolding h using ses rest3 by (simp_all add: on_timers_def [of u])
qed

section \<open>Properties\<close>

text \<open>
  C19: An acknowledgement that fits its request refines the set of subscriptions: after a SUBACK
  the recorded filters are those from before and the granted ones, after an UNSUBACK those
  from before without the confirmed ones; the application is told once, with the broker's codes,
  and the operation is gone. The other operations, whatever they are, do not matter, as none answers to the same
  packet identifier. (The client verifies subscriptions, in a build without a limit on filters.)
\<close>

theorem sub_ack_refines:
  assumes "client_ok cl" and "\<not> m_disconnecting (m_sessionState cl)" and "filters_ok (m_subFilters cl)"
    and "records_filters b" and "m_verifySubFilter (m_configState cl)" and "answers b msg ref cl"
    and "\<forall>r. Some r \<in> set (m_ops cl) \<and> r \<noteq> ref \<longrightarrow> ignores msg r cl"
  shows "filters_ok (m_subFilters (handle_message b msg cl)) \<and>
         set (m_subFilters (handle_message b msg cl)) = subscribed_after msg ref cl (set (m_subFilters cl)) \<and>
         cl_events (handle_message b msg cl) = cl_events cl @ [ack_event b msg ref] \<and>
         Some ref \<notin> set (m_ops (handle_message b msg cl))"
  using acknowledged(1) [OF assms] .

text \<open>A request for one filter under way beside a publish, and the broker grants it.\<close>

definition requested_subscribe :: subscribe_op where
  "requested_subscribe = (sample_subscribe 1)\<lparr>sub_cb := True, sub_msg := (sub_msg (sample_subscribe 1))\<lparr>sm_packetId := 7\<rparr>\<rparr>"

definition granting_suback :: in_msg where
  "granting_suback = Suback_In \<lparr>sa_packetId = 7, sa_props = [], sa_list = [1]\<rparr>"

theorem sub_ack_refines_witness:
  "set (m_subFilters (handle_message sample_build granting_suback
     (sample_client sample_build [sample_publish 0 5] [requested_subscribe] [5, 7]))) = {''a''}"
proof -
  let ?cl = "sample_client sample_build [sample_publish 0 5] [requested_subscribe] [5, 7]"
  have ok: "client_ok ?cl"
    by (rule sample_client_ok) (simp_all add: sample_publish_def requested_subscribe_def sample_subscribe_def key_sorted_def)
  have op: "subscribe_op_at 1 ?cl = Some requested_subscribe"
    by (simp add: subscribe_op_at_def op_at_def sample_client_def requested_subscribe_def sample_subscribe_def)
  have s: "m_subFilters ?cl = []" "\<not> m_disconnecting (m_sessionState ?cl)" "m_verifySubFilter (m_configState ?cl)"
    by (simp_all add: sample_client_def sample_defs split_beta Let_def alloc_timer_def ConfigState_init_def)
  have b: "records_filters sample_build" by (simp add: records_filters_def sample_build_def default_config_def)
  have p: "ack_props_ok sample_build \<lparr>sa_packetId = 7, sa_props = [], sa_list = [1]\<rparr> ?cl"
    by (simp add: ack_props_ok_def sub_props_def fillUserProps_def handle_props_def PropsHandler_init_def isProtocolError_def)
  have a: "answers sample_build granting_suback (Type_Subscribe, 1) ?cl"
    using p op by (simp add: granting_suback_def requested_subscribe_def sample_subscribe_def)
  have o: "m_ops ?cl = [Some (Type_Send, 0), Some (Type_Subscribe, 1)]"
    by (simp add: sample_client_def sample_publish_def requested_subscribe_def sample_subscribe_def)
  have i: "\<forall>r. Some r \<in> set (m_ops ?cl) \<and> r \<noteq> (Type_Subscribe, 1) \<longrightarrow> ignores granting_suback r ?cl"
    by (auto simp: o granting_suback_def)
  have "filters_ok (m_subFilters ?cl)" by (simp add: s)
  from sub_ack_refines [OF ok s(2) this b s(3) a i]
  have "set (m_subFilters (handle_message sample_build granting_suback ?cl)) =
      subscribed_after granting_suback (Type_Subscribe, 1) ?cl (set (m_subFilters ?cl))" by blast
  moreover have "subscribed_after granting_suback (Type_Subscribe, 1) ?cl {} = {''a''}"
    unfolding granting_suback_def subscribed_after.simps op
    by (simp add: requested_subscribe_def sample_subscribe_def RC_UnspecifiedError_def)
  ultimately show ?thesis unfolding s(1) by simp
qed

end
