(* ===== verification/App_Text.thy ===== *)
theory App_Text
  imports Client_State
begin

text \<open>
  The text side of the command line applications (\<^verbatim>\<open>client/app/common/AppClient.cpp\<close>): the
  names of the enumerations, what is printed of responses and messages, binary data given on the
  command line with \<^verbatim>\<open>\x\<close> escapes, and user properties given as \<^verbatim>\<open>key=value\<close>. What
  goes to \<^verbatim>\<open>std::cout\<close> is the string that is written.
\<close>

section \<open>Numbers and enumerations\<close>

text \<open>\<^verbatim>\<open>std::to_string\<close> of an unsigned number.\<close>

definition digit_char :: "nat \<Rightarrow> char" where
  "digit_char d = char_of (48 + d)"

fun to_string :: "nat \<Rightarrow> string" where
  "to_string n = (if n < 10 then [digit_char n] else to_string (n div 10) @ [digit_char (n mod 10)])"

declare to_string.simps [simp del]

definition named :: "string \<Rightarrow> nat \<Rightarrow> string" where
  "named name n = name @ '' ('' @ to_string n @ '')''"

text \<open>A name from a table; outside of it an assertion fails, and a release build prints the number.\<close>

definition table_name :: "string list \<Rightarrow> nat \<Rightarrow> string" where
  "table_name table idx = (if length table \<le> idx then to_string idx else named (table ! idx) idx)"

definition qos_toString :: "qos \<Rightarrow> string" where
  "qos_toString =
     table_name [''QoS0 - At Most Once Delivery'', ''QoS1 - At Least Once Delivery'', ''QoS2 - Exactly Once Delivery'']"

definition format_toString :: "nat \<Rightarrow> string" where
  "format_toString = table_name [''Unspecified'', ''UTF-8'']"

fun error_code_number :: "error_code \<Rightarrow> nat" where
  "error_code_number EC_Success = 0"
| "error_code_number EC_InternalError = 1"
| "error_code_number EC_NotIntitialized = 2"
| "error_code_number EC_Busy = 3"
| "error_code_number EC_NotConnected = 4"
| "error_code_number EC_AlreadyConnected = 5"
| "error_code_number EC_BadParam = 6"
| "error_code_number EC_InsufficientConfig = 7"
| "error_code_number EC_OutOfMemory = 8"
| "error_code_number EC_BufferOverflow = 9"
| "error_code_number EC_NotSupported = 10"
| "error_code_number EC_RetryLater = 11"
| "error_code_number EC_Disconnecting = 12"
| "error_code_number EC_NetworkDisconnected = 13"
| "error_code_number EC_NotAuthenticated = 14"
| "error_code_number EC_PreparationLocked = 15"

definition errorCode_toString :: "error_code \<Rightarrow> string" where
  "errorCode_toString ec =
     table_name
      [''CC_Mqtt5ErrorCode_Success'', ''CC_Mqtt5ErrorCode_InternalError'', ''CC_Mqtt5ErrorCode_NotIntitialized'',
       ''CC_Mqtt5ErrorCode_Busy'', ''CC_Mqtt5ErrorCode_NotConnected'', ''CC_Mqtt5ErrorCode_AlreadyConnected'',
       ''CC_Mqtt5ErrorCode_BadParam'', ''CC_Mqtt5ErrorCode_InsufficientConfig'', ''CC_Mqtt5ErrorCode_OutOfMemory'',
       ''CC_Mqtt5ErrorCode_BufferOverflow'', ''CC_Mqtt5ErrorCode_NotSupported'', ''CC_Mqtt5ErrorCode_RetryLater'',
       ''CC_Mqtt5ErrorCode_Disconnecting'', ''CC_Mqtt5ErrorCode_NetworkDisconnected'',
       ''CC_Mqtt5ErrorCode_NotAuthenticated'', ''CC_Mqtt5ErrorCode_PreparationLocked'']
      (error_code_number ec)"

fun async_status_number :: "async_status \<Rightarrow> nat" where
  "async_status_number St_Complete = 0"
| "async_status_number St_InternalError = 1"
| "async_status_number St_Timeout = 2"
| "async_status_number St_ProtocolError = 3"
| "async_status_number St_Aborted = 4"
| "async_status_number St_BrokerDisconnected = 5"
| "async_status_number St_OutOfMemory = 6"
| "async_status_number St_BadParam = 7"

definition asyncStatus_toString :: "async_status \<Rightarrow> string" where
  "asyncStatus_toString status =
     table_name
      [''Complete'', ''Internal Error'', ''Timeout'', ''Protocol Error'', ''Aborted'', ''Broker Disconnected'',
       ''Out Of Memory'', ''Bad Param'']
      (async_status_number status)"

text \<open>The reason codes have gaps: an ordered map, and the bare number for what it does not hold.\<close>

definition reason_code_names :: "(reason_code \<times> string) list" where
  "reason_code_names =
     [(0, ''Success / Normal Disconnection / Granted QoS0''), (1, ''Granted QoS1''),
      (2, ''Granted QoS2''), (4, ''Disconnect With Will''),
      (16, ''No Matching Subscribers''), (17, ''No Subscription Existed''),
      (24, ''Continue Authentication''), (25, ''Re-Authenticate''),
      (128, ''Unspecified Error''), (129, ''Malformed Packet''),
      (130, ''Protocol Error''), (131, ''Implementation Specific Error''),
      (132, ''Unsupported Version''), (133, ''Client ID Invalid''),
      (134, ''Bad Username / Password''), (135, ''Not Authorized''),
      (136, ''Server is Unavailable''), (137, ''Server is Busy''),
      (138, ''Banned''), (139, ''Server is Shutting Down''),
      (140, ''Bad Authentication Method''), (141, ''Keep Alive Timeout''),
      (142, ''Session is Taken Over''), (143, ''Topic Filter is Invalid''),
      (144, ''Topic Name is Invalid''), (145, ''Packet ID is in Use''),
      (146, ''Packet ID is Not Found''), (147, ''Receive Maximum is Exceeded''),
      (148, ''Topic Alias is Invalid''), (149, ''Packet is Too Large''),
      (150, ''Message Rate is Too High''), (151, ''Quota is Exceeded''),
      (152, ''Administrative Action''), (153, ''Payload Format is Invalid''),
      (154, ''Retain is Not Supported''), (155, ''QoS is Not Supported''),
      (156, ''Use Another Server''), (157, ''Server Moved''),
      (158, ''Shared Subscriptions are Not Supported''), (159, ''Connection Ratio Exceeded''),
      (160, ''Maximum Connection Time is Exceeded''), (161, ''Subscription IDs are Not Supported''),
      (162, ''Wildcard Subscriptions are Not Supported'')]"

definition reasonCode_toString :: "reason_code \<Rightarrow> string" where
  "reasonCode_toString rc =
     (case map_of reason_code_names rc of None \<Rightarrow> to_string rc | Some name \<Rightarrow> named name rc)"

section \<open>Printing\<close>

abbreviation (input) NL :: char where "NL \<equiv> CHR 0x0A"
abbreviation (input) TAB :: char where "TAB \<equiv> CHR 0x09"

text \<open>\<^verbatim>\<open>std::isprint\<close> in the default locale.\<close>

definition isprint :: "8 word \<Rightarrow> bool" where
  "isprint byte \<longleftrightarrow> 32 \<le> byte \<and> byte \<le> 126"

definition hex_char :: "bool \<Rightarrow> nat \<Rightarrow> char" where
  "hex_char upper d = char_of (if d < 10 then 48 + d else if upper then 55 + d else 87 + d)"

definition hex_byte :: "bool \<Rightarrow> 8 word \<Rightarrow> string" where
  "hex_byte upper w = [hex_char upper (unat w div 16), hex_char upper (unat w mod 16)]"

definition data_toString :: "bool \<Rightarrow> bytes \<Rightarrow> string" where
  "data_toString forceBinary data =
     (let binary = forceBinary \<or> list_ex (\<lambda>byte. \<not> isprint byte \<or> 126 < byte) data in
      if \<not> binary then map (\<lambda>byte. char_of (unat byte)) data
      else concat (map (\<lambda>byte. hex_byte False byte @ '' '') data))"

definition print_line :: "string \<Rightarrow> string \<Rightarrow> string" where
  "print_line prefix val = TAB # prefix @ '': '' @ val @ [NL]"

definition printReasonCode :: "reason_code \<Rightarrow> string" where
  "printReasonCode val = print_line ''Reason Code'' (reasonCode_toString val)"

definition printQos :: "string \<Rightarrow> qos \<Rightarrow> string" where
  "printQos prefix val = print_line prefix (qos_toString val)"

definition printPayloadFormat :: "string \<Rightarrow> nat \<Rightarrow> string" where
  "printPayloadFormat prefix val = print_line prefix (format_toString val)"

definition printString :: "string \<Rightarrow> cstr option \<Rightarrow> string" where
  "printString prefix val = (case val of None \<Rightarrow> [] | Some s \<Rightarrow> print_line prefix s)"

definition printData :: "string \<Rightarrow> bytes \<Rightarrow> string" where
  "printData prefix data = (if data = [] then [] else print_line prefix (data_toString False data))"

definition printUnsigned :: "string \<Rightarrow> nat \<Rightarrow> string" where
  "printUnsigned prefix val = (if val \<noteq> 0 then print_line prefix (to_string val) else [])"

definition printBool :: "string \<Rightarrow> bool \<Rightarrow> string" where
  "printBool prefix val = print_line prefix (if val then ''true'' else ''false'')"

definition printReasonString :: "cstr option \<Rightarrow> string" where
  "printReasonString val = printString ''Reason String'' val"

definition printResponseInfo :: "cstr option \<Rightarrow> string" where
  "printResponseInfo val = printString ''Response Information'' val"

definition printUserProperties :: "(cstr \<times> cstr) list \<Rightarrow> string" where
  "printUserProperties props = concat (map (\<lambda>(k, v). print_line ''User Property'' (k @ ''='' @ v)) props)"

definition print_disconnect_info :: "disconnect_info \<Rightarrow> string" where
  "print_disconnect_info info =
     ''[INFO]: Disconnect Info:'' @ [NL] @ printReasonCode (di_reasonCode info) @
     printReasonString (di_reasonStr info) @ printString ''Server Reference'' (di_serverRef info) @
     printUserProperties (di_userProps info) @ [NL]"

text \<open>The option \<^verbatim>\<open>sub-binary\<close> is an argument.\<close>

definition print_message_info :: "bool \<Rightarrow> bool \<Rightarrow> message_info \<Rightarrow> string" where
  "print_message_info subBinary printMessage info =
     ''[INFO]: Message Info:'' @ [NL] @
     (if printMessage
      then print_line ''Topic'' (mi_topic info) @ print_line ''Data'' (data_toString subBinary (mi_data info)) else []) @
     printString ''Response Topic'' (mi_responseTopic info) @
     printData ''Correlation Data'' (mi_correlationData info) @
     printUserProperties (mi_userProps info) @ printString ''Content Type'' (mi_contentType info) @
     concat (map (printUnsigned ''Subscription Identifier'') (mi_subIds info)) @
     printUnsigned ''Message Expiry Interval'' (mi_messageExpiryInterval info) @
     printQos ''QoS'' (mi_qos info) @ printPayloadFormat ''Payload Format'' (mi_format info) @
     printBool ''Retained'' (mi_retained info) @ [NL]"

definition print_connect_response :: "connect_response \<Rightarrow> string" where
  "print_connect_response response =
     ''[INFO]: Connection Response:'' @ [NL] @ printReasonCode (cr_reasonCode response) @
     printString ''Assinged Client ID'' (cr_assignedClientId response) @
     printResponseInfo (cr_responseInfo response) @ printReasonString (cr_reasonStr response) @
     printString ''Server Reference'' (cr_serverRef response) @
     printData ''Authentication Data'' (cr_authData response) @
     printUserProperties (cr_userProps response) @
     printUnsigned ''Session Expiry Interval'' (cr_sessionExpiryInterval response) @
     printUnsigned ''Receive Maximum'' (cr_highQosSendLimit response) @
     printUnsigned ''Maximum Packet Size'' (cr_maxPacketSize response) @
     printUnsigned ''Topic Alias Maximum'' (cr_topicAliasMax response) @
     printQos ''Maximum QoS'' (cr_maxQos response) @
     printBool ''Session Present'' (cr_sessionPresent response) @
     printBool ''Retain Available'' (cr_retainAvailable response) @
     printBool ''Wildcard Subscriptions Available'' (cr_wildcardSubAvailable response) @
     printBool ''Subscription IDs Available'' (cr_subIdsAvailable response) @
     printBool ''Shared Subscription Available'' (cr_sharedSubsAvailable response) @ [NL]"

definition print_publish_response :: "publish_response \<Rightarrow> string" where
  "print_publish_response response =
     ''[INFO]: Publish Response:'' @ [NL] @ printReasonCode (pr_reasonCode response) @
     printReasonString (pr_reasonStr response) @ printUserProperties (pr_userProps response) @ [NL]"

definition print_subscribe_response :: "sub_response \<Rightarrow> string" where
  "print_subscribe_response response =
     ''[INFO]: Subscribe Response:'' @ [NL] @ concat (map printReasonCode (sr_reasonCodes response)) @
     printReasonString (sr_reasonStr response) @ printUserProperties (sr_userProps response) @ [NL]"

section \<open>Numbers in base 16\<close>

text \<open>
  \<^verbatim>\<open>std::stoul\<close> with base 16: leading white space, a sign, an optional \<^verbatim>\<open>0x\<close>, and the
  digits up to the first character that is none. Without a digit, and for a number that does
  not fit into 64 bits, it throws; a negative number wraps.
\<close>

definition isspace :: "char \<Rightarrow> bool" where
  "isspace c \<longleftrightarrow> c = CHR '' '' \<or> 9 \<le> (of_char c :: nat) \<and> (of_char c :: nat) \<le> 13"

definition hex_digit :: "char \<Rightarrow> nat option" where
  "hex_digit c =
     (let n = of_char c :: nat in
      if 48 \<le> n \<and> n \<le> 57 then Some (n - 48)
      else if 97 \<le> n \<and> n \<le> 102 then Some (n - 87)
      else if 65 \<le> n \<and> n \<le> 70 then Some (n - 55) else None)"

definition hex_number :: "string \<Rightarrow> nat" where
  "hex_number ds = foldl (\<lambda>n c. 16 * n + (case hex_digit c of None \<Rightarrow> 0 | Some d \<Rightarrow> d)) 0 ds"

definition sign_of :: "string \<Rightarrow> bool \<times> string" where
  "sign_of s =
     (case s of
        [] \<Rightarrow> (False, s)
      | c # r \<Rightarrow> if c = CHR ''-'' then (True, r) else if c = CHR ''+'' then (False, r) else (False, s))"

definition drop_prefix :: "string \<Rightarrow> string" where
  "drop_prefix s =
     (case s of
        z # x # d # r \<Rightarrow> if z = CHR ''0'' \<and> (x = CHR ''x'' \<or> x = CHR ''X'') \<and> hex_digit d \<noteq> None then d # r else s
      | _ \<Rightarrow> s)"

definition stoul16 :: "string \<Rightarrow> nat option" where
  "stoul16 s =
     (let (neg, s1) = sign_of (dropWhile isspace s);
          ds = takeWhile (\<lambda>c. hex_digit c \<noteq> None) (drop_prefix s1) in
      if ds = [] \<or> 2 ^ 64 \<le> hex_number ds then None
      else Some (if neg then (2 ^ 64 - hex_number ds) mod 2 ^ 64 else hex_number ds))"

section \<open>Binary data and user properties\<close>

abbreviation (input) BACKSLASH :: char where "BACKSLASH \<equiv> CHR 0x5C"

definition byte_of :: "char \<Rightarrow> 8 word" where
  "byte_of c = of_nat (of_char c)"

text \<open>The part of the argument from \<^verbatim>\<open>pos\<close> on; the bytes pushed to the result.\<close>

function parseBinaryData :: "string \<Rightarrow> bytes" where
  "parseBinaryData [] = []"
| "parseBinaryData (ch # rest) =
     (if ch \<noteq> BACKSLASH then byte_of ch # parseBinaryData rest
      else
        case rest of
          [] \<Rightarrow> byte_of ch # parseBinaryData rest
        | nextChar # after \<Rightarrow>
            if nextChar = BACKSLASH then byte_of ch # parseBinaryData after
            else if nextChar \<noteq> CHR ''x'' then byte_of ch # parseBinaryData rest
            else if length after < 2 then byte_of ch # parseBinaryData rest
            else
              (case stoul16 (take 2 after) of
                 Some n \<Rightarrow> of_nat n # parseBinaryData (drop 2 after)
               | None \<Rightarrow> byte_of ch # parseBinaryData rest))"
  by pat_completeness auto
termination by (relation "measure length") auto

text \<open>Each argument is split at its first equals sign; without one the value is empty.\<close>

definition parse_user_prop :: "string \<Rightarrow> string \<times> string" where
  "parse_user_prop str =
     (let key = takeWhile (\<lambda>c. c \<noteq> CHR ''='') str in (key, drop (length key + 1) str))"

definition parseUserProps :: "string list \<Rightarrow> (string \<times> string) list" where
  "parseUserProps props = map parse_user_prop props"

section \<open>What the escapes mean\<close>

text \<open>What a user may write: a character other than the backslash, a doubled backslash, a byte.\<close>

datatype fragment = Plain char | Doubled | Escaped bool "8 word"

fun fragment_text :: "fragment \<Rightarrow> string" where
  "fragment_text (Plain c) = [c]"
| "fragment_text Doubled = [BACKSLASH, BACKSLASH]"
| "fragment_text (Escaped upper w) = BACKSLASH # CHR ''x'' # hex_byte upper w"

fun fragment_byte :: "fragment \<Rightarrow> 8 word" where
  "fragment_byte (Plain c) = byte_of c"
| "fragment_byte Doubled = byte_of BACKSLASH"
| "fragment_byte (Escaped upper w) = w"

lemma of_char_code: "n < 256 \<Longrightarrow> of_char (char_of n) = (n :: nat)"
  by simp

lemma hex_digit_char: "d < 16 \<Longrightarrow> hex_digit (hex_char upper d) = Some d"
  by (simp add: hex_digit_def hex_char_def Let_def)

lemma hex_char_code: "d < 16 \<Longrightarrow> (of_char (hex_char upper d) :: nat) = (if d < 10 then 48 + d else if upper then 55 + d else 87 + d)"
  by (simp add: hex_char_def)

lemma hex_char_ordinary:
  assumes "d < 16"
  shows "\<not> isspace (hex_char upper d)" and "hex_char upper d \<noteq> CHR ''-''" and "hex_char upper d \<noteq> CHR ''+''"
proof -
  note c = hex_char_code [OF assms, of upper]
  have ne: "hex_char upper d \<noteq> x" if "(of_char x :: nat) < 48" for x
    using that c by (auto split: if_splits)
  show "\<not> isspace (hex_char upper d)" using c ne [of "CHR '' ''"] by (auto simp: isspace_def)
  show "hex_char upper d \<noteq> CHR ''-''" "hex_char upper d \<noteq> CHR ''+''" by (rule ne; simp)+
qed

lemma stoul16_hex: "stoul16 (hex_byte upper w) = Some (unat w)"
proof -
  have d: "unat w div 16 < 16" "unat w mod 16 < 16" using unsigned_less [of w, where ?'a = nat] by simp_all
  note h = hex_char_ordinary [OF d(1), of upper] and v = hex_digit_char [OF d(1), of upper] hex_digit_char [OF d(2), of upper]
  have s: "sign_of (dropWhile isspace (hex_byte upper w)) = (False, hex_byte upper w)"
    using h by (simp add: sign_of_def hex_byte_def)
  have n: "hex_number (hex_byte upper w) = unat w" using v by (simp add: hex_number_def hex_byte_def)
  have "unat w < 2 ^ 64" using unsigned_less [of w, where ?'a = nat] by simp
  moreover have "takeWhile (\<lambda>c. hex_digit c \<noteq> None) (drop_prefix (hex_byte upper w)) = hex_byte upper w"
    using v by (simp add: drop_prefix_def hex_byte_def)
  ultimately show ?thesis using n by (simp add: stoul16_def s Let_def) (simp add: hex_byte_def)
qed

lemma parse_fragment:
  assumes "fr \<noteq> Plain BACKSLASH"
  shows "parseBinaryData (fragment_text fr @ rest) = fragment_byte fr # parseBinaryData rest"
proof (cases fr)
  case (Plain c)
  then show ?thesis using assms by simp
next
  case Doubled
  then show ?thesis by simp
next
  case (Escaped upper w)
  have "take 2 (hex_byte upper w @ rest) = hex_byte upper w" "drop 2 (hex_byte upper w @ rest) = rest"
    "\<not> length (hex_byte upper w @ rest) < 2"
    by (simp_all add: hex_byte_def)
  then show ?thesis using stoul16_hex [of upper w] Escaped by simp
qed

section \<open>Properties\<close>

text \<open>
  C22: Binary data survives the command line: however its bytes are written, as characters other
  than the backslash, as doubled backslashes or as \<^verbatim>\<open>\x\<close> with two digits of either case,
  \<^verbatim>\<open>parseBinaryData\<close> gives back exactly these bytes.
\<close>

theorem parseBinaryData_reads_escapes:
  assumes "\<forall>fr\<in>set frs. fr \<noteq> Plain BACKSLASH"
  shows "parseBinaryData (concat (map fragment_text frs)) = map fragment_byte frs"
  using assms by (induction frs) (simp_all add: parse_fragment)

theorem parseBinaryData_reads_escapes_witness:
  "parseBinaryData (concat (map fragment_text [Plain CHR ''a'', Escaped True 0xB9, Doubled, Escaped False 0])) =
   [97, 0xB9, 0x5C, 0]"
  using parseBinaryData_reads_escapes [of "[Plain CHR ''a'', Escaped True 0xB9, Doubled, Escaped False 0]"]
  by (simp add: byte_of_def)

text \<open>The converse does not hold: a bad digit is swallowed, a sign is taken for a digit.\<close>

lemma bad_hex_swallowed: "parseBinaryData (BACKSLASH # ''x4g'') = [4]"
  by (simp add: stoul16_def sign_of_def drop_prefix_def isspace_def hex_digit_def hex_number_def Let_def)

lemma signed_hex_wraps: "parseBinaryData (BACKSLASH # ''x-1'') = [255]"
  by (simp add: stoul16_def sign_of_def drop_prefix_def isspace_def hex_digit_def hex_number_def Let_def)

end
