(* ===== verification/App_Options.thy ===== *)
theory App_Options
  imports Mqtt_Prelude
begin

text \<open>
  The command line options of the applications (\<^verbatim>\<open>client/app/common/ProgramOptions.cpp\<close>):
  the descriptions that the applications put together, and the getters. Parsing is boost's, a
  parameter of the applications; the result is a map from option names to typed values, of
  which boost promises that it fits the description. A getter that asks for a value that is
  not there or has another type throws; it is \<^term>\<open>None\<close> here.
\<close>

section \<open>Descriptions and values\<close>

datatype opt_value =
    Opt_Flag | Opt_String string | Opt_Unsigned nat | Opt_Uint16 nat | Opt_Bool bool
  | Opt_Strings "string list" | Opt_Unsigneds "nat list"

datatype opt_type = T_String | T_Unsigned | T_Uint16 | T_Bool | T_Strings | T_Unsigneds

text \<open>An option is a flag or takes a value, which may have a default.\<close>

datatype semantic = Flag | Valued opt_type "opt_value option"

type_synonym opt_desc = "(string \<times> char option \<times> semantic) list"

type_synonym variables = "string \<Rightarrow> opt_value option"

definition DefaultPort :: nat where
  "DefaultPort = 1883"

definition addCommon :: "opt_desc \<Rightarrow> opt_desc" where
  "addCommon desc =
     desc @
       [(''help'', Some CHR ''h'', Flag),
        (''verbose'', Some CHR ''v'', Flag)]"

definition addConnect :: "opt_desc \<Rightarrow> opt_desc" where
  "addConnect desc =
     desc @
       [(''client-id'', Some CHR ''i'', Valued T_String (Some (Opt_String ''''))),
        (''username'', None, Valued T_String (Some (Opt_String ''''))),
        (''password'', None, Valued T_String (Some (Opt_String ''''))),
        (''keep-alive'', None, Valued T_Unsigned (Some (Opt_Unsigned 60))),
        (''session-expiry'', None, Valued T_Unsigned (Some (Opt_Unsigned 0))),
        (''receive-max'', None, Valued T_Unsigned (Some (Opt_Unsigned 0))),
        (''max-packet-size'', None, Valued T_Unsigned (Some (Opt_Unsigned 0))),
        (''topic-alias-max'', None, Valued T_Unsigned (Some (Opt_Unsigned 0))),
        (''req-response-info'', None, Flag),
        (''req-problem-info'', None, Flag),
        (''connect-user-prop'', None, Valued T_Strings None),
        (''will-topic'', None, Valued T_String (Some (Opt_String ''''))),
        (''will-msg'', None, Valued T_String (Some (Opt_String ''''))),
        (''will-qos'', None, Valued T_Unsigned (Some (Opt_Unsigned 0))),
        (''will-retain'', None, Flag),
        (''will-content-type'', None, Valued T_String (Some (Opt_String ''''))),
        (''will-response-topic'', None, Valued T_String (Some (Opt_String ''''))),
        (''will-correlation-data'', None, Valued T_String (Some (Opt_String ''''))),
        (''will-delay'', None, Valued T_Unsigned (Some (Opt_Unsigned 0))),
        (''will-message-expiry'', None, Valued T_Unsigned (Some (Opt_Unsigned 0))),
        (''will-message-format'', None, Valued T_Unsigned (Some (Opt_Unsigned 0))),
        (''will-user-prop'', None, Valued T_Strings None)]"

definition addNetwork :: "nat \<Rightarrow> opt_desc \<Rightarrow> opt_desc" where
  "addNetwork port desc =
     desc @
       [(''broker'', Some CHR ''b'', Valued T_String (Some (Opt_String ''127.0.0.1''))),
        (''port'', Some CHR ''p'', Valued T_Uint16 (Some (Opt_Uint16 port)))]"

definition addTls :: "bool \<Rightarrow> opt_desc \<Rightarrow> opt_desc" where
  "addTls hasOpenssl desc =
     (if hasOpenssl
      then desc @
        [(''tls'', None, Flag),
         (''tls-ca'', None, Valued T_String (Some (Opt_String ''''))),
         (''tls-key'', None, Valued T_String (Some (Opt_String ''''))),
         (''tls-key-pass'', None, Valued T_String (Some (Opt_String ''''))),
         (''tls-cert'', None, Valued T_String (Some (Opt_String '''')))]
      else desc)"

definition addPublish :: "opt_desc \<Rightarrow> opt_desc" where
  "addPublish desc =
     desc @
       [(''pub-topic'', Some CHR ''t'', Valued T_String (Some (Opt_String ''''))),
        (''pub-msg'', Some CHR ''m'', Valued T_String (Some (Opt_String ''''))),
        (''pub-qos'', Some CHR ''q'', Valued T_Unsigned (Some (Opt_Unsigned 0))),
        (''pub-retain'', None, Valued T_Bool (Some (Opt_Bool False))),
        (''pub-content-type'', None, Valued T_String (Some (Opt_String ''''))),
        (''pub-response-topic'', None, Valued T_String (Some (Opt_String ''''))),
        (''pub-correlation-data'', None, Valued T_String (Some (Opt_String ''''))),
        (''pub-message-expiry'', None, Valued T_Unsigned (Some (Opt_Unsigned 0))),
        (''pub-message-format'', None, Valued T_Unsigned (Some (Opt_Unsigned 0))),
        (''pub-user-prop'', None, Valued T_Strings None)]"

definition addSubscribe :: "opt_desc \<Rightarrow> opt_desc" where
  "addSubscribe desc =
     desc @
       [(''sub-topic'', Some CHR ''t'', Valued T_Strings None),
        (''sub-qos'', Some CHR ''q'', Valued T_Unsigneds None),
        (''sub-no-retained'', None, Flag),
        (''sub-binary'', None, Flag),
        (''sub-id'', None, Valued T_Unsigned (Some (Opt_Unsigned 0))),
        (''sub-user-prop'', None, Valued T_Strings None)]"

section \<open>Reading values\<close>

definition given_opt :: "variables \<Rightarrow> string \<Rightarrow> bool" where
  "given_opt vm name \<longleftrightarrow> vm name \<noteq> None"

definition as_string :: "variables \<Rightarrow> string \<Rightarrow> string option" where
  "as_string vm name = (case vm name of Some (Opt_String s) \<Rightarrow> Some s | _ \<Rightarrow> None)"

definition as_unsigned :: "variables \<Rightarrow> string \<Rightarrow> nat option" where
  "as_unsigned vm name = (case vm name of Some (Opt_Unsigned n) \<Rightarrow> Some n | _ \<Rightarrow> None)"

definition as_uint16 :: "variables \<Rightarrow> string \<Rightarrow> nat option" where
  "as_uint16 vm name = (case vm name of Some (Opt_Uint16 n) \<Rightarrow> Some n | _ \<Rightarrow> None)"

definition as_bool :: "variables \<Rightarrow> string \<Rightarrow> bool option" where
  "as_bool vm name = (case vm name of Some (Opt_Bool v) \<Rightarrow> Some v | _ \<Rightarrow> None)"

definition stringListOpts :: "variables \<Rightarrow> string \<Rightarrow> string list option" where
  "stringListOpts vm name =
     (case vm name of None \<Rightarrow> Some [] | Some (Opt_Strings ss) \<Rightarrow> Some ss | _ \<Rightarrow> None)"

definition subQoses :: "variables \<Rightarrow> nat list option" where
  "subQoses vm =
     (case vm ''sub-qos'' of None \<Rightarrow> Some [] | Some (Opt_Unsigneds ns) \<Rightarrow> Some ns | _ \<Rightarrow> None)"

section \<open>Getters\<close>

definition helpRequested :: "variables \<Rightarrow> bool" where
  "helpRequested vm \<longleftrightarrow> given_opt vm ''help''"

definition verbose :: "variables \<Rightarrow> bool" where
  "verbose vm \<longleftrightarrow> given_opt vm ''verbose''"

definition networkAddress :: "variables \<Rightarrow> string option" where
  "networkAddress vm = as_string vm ''broker''"

definition networkPort :: "variables \<Rightarrow> nat option" where
  "networkPort vm = as_uint16 vm ''port''"

definition clientId :: "variables \<Rightarrow> string option" where
  "clientId vm = as_string vm ''client-id''"

definition username :: "variables \<Rightarrow> string option" where
  "username vm = as_string vm ''username''"

definition password :: "variables \<Rightarrow> string option" where
  "password vm = as_string vm ''password''"

definition keepAlive :: "variables \<Rightarrow> nat option" where
  "keepAlive vm = as_unsigned vm ''keep-alive''"

definition sessionExpiry :: "variables \<Rightarrow> nat option" where
  "sessionExpiry vm = as_unsigned vm ''session-expiry''"

definition receiveMax :: "variables \<Rightarrow> nat option" where
  "receiveMax vm = as_unsigned vm ''receive-max''"

definition maxPacketSize :: "variables \<Rightarrow> nat option" where
  "maxPacketSize vm = as_unsigned vm ''max-packet-size''"

definition topicAliasMax :: "variables \<Rightarrow> nat option" where
  "topicAliasMax vm = as_unsigned vm ''topic-alias-max''"

definition reqResponseInfo :: "variables \<Rightarrow> bool" where
  "reqResponseInfo vm \<longleftrightarrow> given_opt vm ''req-response-info''"

definition reqProblemInfo :: "variables \<Rightarrow> bool" where
  "reqProblemInfo vm \<longleftrightarrow> given_opt vm ''req-problem-info''"

definition connectUserProps :: "variables \<Rightarrow> string list option" where
  "connectUserProps vm = stringListOpts vm ''connect-user-prop''"

definition willTopic :: "variables \<Rightarrow> string option" where
  "willTopic vm = as_string vm ''will-topic''"

definition willMessage :: "variables \<Rightarrow> string option" where
  "willMessage vm = as_string vm ''will-msg''"

definition willQos :: "variables \<Rightarrow> nat option" where
  "willQos vm = as_unsigned vm ''will-qos''"

definition willRetain :: "variables \<Rightarrow> bool" where
  "willRetain vm \<longleftrightarrow> given_opt vm ''will-retain''"

definition willContentType :: "variables \<Rightarrow> string option" where
  "willContentType vm = as_string vm ''will-content-type''"

definition willResponseTopic :: "variables \<Rightarrow> string option" where
  "willResponseTopic vm = as_string vm ''will-response-topic''"

definition willCorrelationData :: "variables \<Rightarrow> string option" where
  "willCorrelationData vm = as_string vm ''will-correlation-data''"

definition willDelay :: "variables \<Rightarrow> nat option" where
  "willDelay vm = as_unsigned vm ''will-delay''"

definition willMessageExpiry :: "variables \<Rightarrow> nat option" where
  "willMessageExpiry vm = as_unsigned vm ''will-message-expiry''"

definition willMessageFormat :: "variables \<Rightarrow> nat option" where
  "willMessageFormat vm = as_unsigned vm ''will-message-format''"

definition willUserProps :: "variables \<Rightarrow> string list option" where
  "willUserProps vm = stringListOpts vm ''will-user-prop''"

definition pubTopic :: "variables \<Rightarrow> string option" where
  "pubTopic vm = as_string vm ''pub-topic''"

definition pubMessage :: "variables \<Rightarrow> string option" where
  "pubMessage vm = as_string vm ''pub-msg''"

definition pubQos :: "variables \<Rightarrow> nat option" where
  "pubQos vm = as_unsigned vm ''pub-qos''"

definition pubRetain :: "variables \<Rightarrow> bool option" where
  "pubRetain vm = as_bool vm ''pub-retain''"

definition pubContentType :: "variables \<Rightarrow> string option" where
  "pubContentType vm = as_string vm ''pub-content-type''"

definition pubResponseTopic :: "variables \<Rightarrow> string option" where
  "pubResponseTopic vm = as_string vm ''pub-response-topic''"

definition pubCorrelationData :: "variables \<Rightarrow> string option" where
  "pubCorrelationData vm = as_string vm ''pub-correlation-data''"

definition pubMessageExpiry :: "variables \<Rightarrow> nat option" where
  "pubMessageExpiry vm = as_unsigned vm ''pub-message-expiry''"

definition pubMessageFormat :: "variables \<Rightarrow> nat option" where
  "pubMessageFormat vm = as_unsigned vm ''pub-message-format''"

definition pubUserProps :: "variables \<Rightarrow> string list option" where
  "pubUserProps vm = stringListOpts vm ''pub-user-prop''"

definition subTopics :: "variables \<Rightarrow> string list option" where
  "subTopics vm = stringListOpts vm ''sub-topic''"

definition subNoRetained :: "variables \<Rightarrow> bool" where
  "subNoRetained vm \<longleftrightarrow> given_opt vm ''sub-no-retained''"

definition subBinary :: "variables \<Rightarrow> bool" where
  "subBinary vm \<longleftrightarrow> given_opt vm ''sub-binary''"

definition subId :: "variables \<Rightarrow> nat option" where
  "subId vm = as_unsigned vm ''sub-id''"

definition subUserProps :: "variables \<Rightarrow> string list option" where
  "subUserProps vm = stringListOpts vm ''sub-user-prop''"

text \<open>The options that exist only with OpenSSL.\<close>

datatype connection_type = ConnectionType_Tcp | ConnectionType_Tls

definition isTls :: "bool \<Rightarrow> variables \<Rightarrow> bool" where
  "isTls hasOpenssl vm \<longleftrightarrow> hasOpenssl \<and> given_opt vm ''tls''"

definition connectionType :: "bool \<Rightarrow> variables \<Rightarrow> connection_type" where
  "connectionType hasOpenssl vm = (if hasOpenssl \<and> isTls hasOpenssl vm then ConnectionType_Tls else ConnectionType_Tcp)"

definition tlsCa :: "bool \<Rightarrow> variables \<Rightarrow> string option" where
  "tlsCa hasOpenssl vm = (if hasOpenssl then as_string vm ''tls-ca'' else Some [])"

definition tlsPrivateKey :: "bool \<Rightarrow> variables \<Rightarrow> string option" where
  "tlsPrivateKey hasOpenssl vm = (if hasOpenssl then as_string vm ''tls-key'' else Some [])"

definition tlsPrivateKeyPass :: "bool \<Rightarrow> variables \<Rightarrow> string option" where
  "tlsPrivateKeyPass hasOpenssl vm = (if hasOpenssl then as_string vm ''tls-key-pass'' else Some [])"

definition tlsCert :: "bool \<Rightarrow> variables \<Rightarrow> string option" where
  "tlsCert hasOpenssl vm = (if hasOpenssl then as_string vm ''tls-cert'' else Some [])"

section \<open>What boost promises of the values\<close>

fun has_type :: "opt_value \<Rightarrow> opt_type \<Rightarrow> bool" where
  "has_type (Opt_String _) T_String \<longleftrightarrow> True"
| "has_type (Opt_Unsigned _) T_Unsigned \<longleftrightarrow> True"
| "has_type (Opt_Uint16 _) T_Uint16 \<longleftrightarrow> True"
| "has_type (Opt_Bool _) T_Bool \<longleftrightarrow> True"
| "has_type (Opt_Strings _) T_Strings \<longleftrightarrow> True"
| "has_type (Opt_Unsigneds _) T_Unsigneds \<longleftrightarrow> True"
| "has_type _ _ \<longleftrightarrow> False"

text \<open>
  After \<^verbatim>\<open>store\<close> and \<^verbatim>\<open>notify\<close> an option with a default has a value, and the value of an
  option has the type of its description.
\<close>

fun fits :: "variables \<Rightarrow> string \<times> char option \<times> semantic \<Rightarrow> bool" where
  "fits vm (name, short, Flag) \<longleftrightarrow> True"
| "fits vm (name, short, Valued T dflt) \<longleftrightarrow>
     (case vm name of None \<Rightarrow> dflt = None | Some v \<Rightarrow> has_type v T)"

definition stored_for :: "opt_desc \<Rightarrow> variables \<Rightarrow> bool" where
  "stored_for desc vm \<longleftrightarrow> list_all (fits vm) desc"

text \<open>The values when the command line is empty: the defaults.\<close>

fun default_values :: "opt_desc \<Rightarrow> variables" where
  "default_values [] = (\<lambda>_. None)"
| "default_values ((name, short, Valued T (Some d)) # desc) = (default_values desc)(name := Some d)"
| "default_values ((name, short, _) # desc) = default_values desc"

text \<open>A getter of a described option returns.\<close>

lemma fits_read:
  "fits vm (name, short, Valued T_String (Some d)) \<Longrightarrow> \<exists>s. as_string vm name = Some s"
  "fits vm (name, short, Valued T_Unsigned (Some d)) \<Longrightarrow> \<exists>n. as_unsigned vm name = Some n"
  "fits vm (name, short, Valued T_Uint16 (Some d)) \<Longrightarrow> \<exists>n. as_uint16 vm name = Some n"
  "fits vm (name, short, Valued T_Bool (Some d)) \<Longrightarrow> \<exists>v. as_bool vm name = Some v"
  "fits vm (name, short, Valued T_Strings dflt) \<Longrightarrow> \<exists>ss. stringListOpts vm name = Some ss"
  by (auto simp: as_string_def as_unsigned_def as_uint16_def as_bool_def stringListOpts_def
      split: option.splits opt_value.splits)

lemma fits_qoses: "fits vm (''sub-qos'', short, Valued T_Unsigneds dflt) \<Longrightarrow> \<exists>ns. subQoses vm = Some ns"
  by (auto simp: subQoses_def split: option.splits opt_value.splits)

lemma connect_getters:
  assumes "stored_for (addConnect []) vm"
  shows "\<exists>s. clientId vm = Some s" "\<exists>s. username vm = Some s" "\<exists>s. password vm = Some s"
    "\<exists>n. keepAlive vm = Some n" "\<exists>n. sessionExpiry vm = Some n" "\<exists>n. receiveMax vm = Some n"
    "\<exists>n. maxPacketSize vm = Some n" "\<exists>n. topicAliasMax vm = Some n" "\<exists>ss. connectUserProps vm = Some ss"
    "\<exists>s. willTopic vm = Some s" "\<exists>s. willMessage vm = Some s" "\<exists>n. willQos vm = Some n"
    "\<exists>s. willContentType vm = Some s" "\<exists>s. willResponseTopic vm = Some s" "\<exists>s. willCorrelationData vm = Some s"
    "\<exists>n. willDelay vm = Some n" "\<exists>n. willMessageExpiry vm = Some n" "\<exists>n. willMessageFormat vm = Some n"
    "\<exists>ss. willUserProps vm = Some ss"
  using assms unfolding stored_for_def addConnect_def append_Nil list.pred_inject
    clientId_def username_def password_def keepAlive_def sessionExpiry_def receiveMax_def maxPacketSize_def
    topicAliasMax_def connectUserProps_def willTopic_def willMessage_def willQos_def willContentType_def
    willResponseTopic_def willCorrelationData_def willDelay_def willMessageExpiry_def willMessageFormat_def
    willUserProps_def
  by (blast intro: fits_read)+

lemma publish_getters:
  assumes "stored_for (addPublish []) vm"
  shows "\<exists>s. pubTopic vm = Some s" "\<exists>s. pubMessage vm = Some s" "\<exists>n. pubQos vm = Some n" "\<exists>v. pubRetain vm = Some v"
    "\<exists>s. pubContentType vm = Some s" "\<exists>s. pubResponseTopic vm = Some s" "\<exists>s. pubCorrelationData vm = Some s"
    "\<exists>n. pubMessageExpiry vm = Some n" "\<exists>n. pubMessageFormat vm = Some n" "\<exists>ss. pubUserProps vm = Some ss"
  using assms unfolding stored_for_def addPublish_def append_Nil list.pred_inject
    pubTopic_def pubMessage_def pubQos_def pubRetain_def pubContentType_def pubResponseTopic_def
    pubCorrelationData_def pubMessageExpiry_def pubMessageFormat_def pubUserProps_def
  by (blast intro: fits_read)+

lemma subscribe_getters:
  assumes "stored_for (addSubscribe []) vm"
  shows "\<exists>ss. subTopics vm = Some ss" "\<exists>ns. subQoses vm = Some ns" "\<exists>n. subId vm = Some n"
    "\<exists>ss. subUserProps vm = Some ss"
  using assms unfolding stored_for_def addSubscribe_def append_Nil list.pred_inject
    subTopics_def subId_def subUserProps_def
  by (blast intro: fits_read fits_qoses)+

lemma network_getters:
  assumes "stored_for (addNetwork port (addTls openssl [])) vm"
  shows "\<exists>s. networkAddress vm = Some s" "\<exists>n. networkPort vm = Some n" "\<exists>s. tlsCa openssl vm = Some s"
    "\<exists>s. tlsPrivateKey openssl vm = Some s" "\<exists>s. tlsPrivateKeyPass openssl vm = Some s" "\<exists>s. tlsCert openssl vm = Some s"
  using assms unfolding stored_for_def addNetwork_def addTls_def networkAddress_def networkPort_def
    tlsCa_def tlsPrivateKey_def tlsPrivateKeyPass_def tlsCert_def
  by (cases openssl; simp del: fits.simps; blast intro: fits_read)+

lemma stored_for_parts:
  "stored_for (addConnect desc) vm \<longleftrightarrow> stored_for desc vm \<and> stored_for (addConnect []) vm"
  "stored_for (addCommon desc) vm \<longleftrightarrow> stored_for desc vm"
  "stored_for (addPublish desc) vm \<longleftrightarrow> stored_for desc vm \<and> stored_for (addPublish []) vm"
  "stored_for (addSubscribe desc) vm \<longleftrightarrow> stored_for desc vm \<and> stored_for (addSubscribe []) vm"
  "stored_for (addNetwork port desc) vm \<longleftrightarrow> stored_for desc vm \<and> stored_for (addNetwork port []) vm"
  "stored_for (addTls openssl desc) vm \<longleftrightarrow> stored_for desc vm \<and> stored_for (addTls openssl []) vm"
  by (auto simp: stored_for_def addConnect_def addCommon_def addPublish_def addSubscribe_def addNetwork_def addTls_def
      simp del: fits.simps(2))

end
