(* ===== verification/App_Session.thy ===== *)
theory App_Session
  imports Client_Api App_Text App_Options "HOL-Library.Sublist"
begin

text \<open>
  The network side of the command line applications: \<^verbatim>\<open>Session\<close>, \<^verbatim>\<open>TcpSession\<close> and
  \<^verbatim>\<open>TlsSession\<close> (\<^verbatim>\<open>client/app/common\<close>). Sockets, resolver and TLS are boost's: the results
  of its calls are parameters. What a session does itself is to keep the bytes that the client
  did not consume and to give them to it again with the next ones. The interface between the
  two is the locale \<open>stream_consumer\<close>, which \<^verbatim>\<open>processData\<close> interprets.
\<close>

section \<open>Results of the network\<close>

record network =
  net_resolve :: "string \<Rightarrow> string \<Rightarrow> bool"
  net_connect :: bool
  net_handshake :: bool
  ssl_load_verify_file :: "string \<Rightarrow> bool"
  ssl_set_verify_mode :: "bool \<Rightarrow> bool"
  ssl_set_password_callback :: bool
  ssl_use_private_key_file :: "string \<Rightarrow> bool"
  ssl_use_certificate_file :: "string \<Rightarrow> bool"

datatype write_result = Write_Aborted | Write_Failed | Write_Done nat

datatype read_result = Read_Aborted | Read_Failed | Read_Bytes bytes

text \<open>The members; \<^verbatim>\<open>se_reading\<close> says that a read has been started and its handler waits.\<close>

record session =
  se_type :: connection_type
  se_buf :: bytes
  se_networkDisconnected :: bool
  se_reading :: bool

definition Session_init :: "connection_type \<Rightarrow> session" where
  "Session_init t = \<lparr>se_type = t, se_buf = [], se_networkDisconnected = False, se_reading = False\<rparr>"

definition Session_create :: "bool \<Rightarrow> variables \<Rightarrow> session option" where
  "Session_create hasOpenssl vm =
     (case connectionType hasOpenssl vm of
        ConnectionType_Tcp \<Rightarrow> Some (Session_init ConnectionType_Tcp)
      | ConnectionType_Tls \<Rightarrow> if hasOpenssl then Some (Session_init ConnectionType_Tls) else None)"

text \<open>The callback runs the first time only.\<close>

definition reportNetworkDisconnected :: "('s \<Rightarrow> 's) \<Rightarrow> session \<times> 's \<Rightarrow> session \<times> 's" where
  "reportNetworkDisconnected lost st =
     (if se_networkDisconnected (fst st) then st
      else ((fst st)\<lparr>se_networkDisconnected := True\<rparr>, lost (snd st)))"

definition sendDataImpl :: "('s \<Rightarrow> 's) \<Rightarrow> write_result \<Rightarrow> nat \<Rightarrow> session \<times> 's \<Rightarrow> session \<times> 's" where
  "sendDataImpl lost result bufLen st =
     (case result of
        Write_Aborted \<Rightarrow> st
      | Write_Failed \<Rightarrow> reportNetworkDisconnected lost st
      | Write_Done written \<Rightarrow> if written \<noteq> bufLen then reportNetworkDisconnected lost st else st)"

section \<open>Received bytes\<close>

text \<open>
  The bytes kept from before and the new ones are reported together; what is not consumed is
  kept. The report gives the number of consumed bytes.
\<close>

definition data_received :: "(bytes \<Rightarrow> 's \<Rightarrow> nat \<times> 's) \<Rightarrow> bytes \<Rightarrow> bytes \<times> 's \<Rightarrow> bytes \<times> 's" where
  "data_received report inData st =
     (let held = fst st;
          buf1 = (if held \<noteq> [] then held @ inData else []);
          buf = (if held \<noteq> [] then buf1 else inData);
          (consumed, s) = report buf (snd st) in
      if length buf \<le> consumed then ([], s)
      else if buf1 \<noteq> [] then (drop consumed buf1, s)
      else (buf1 @ drop consumed inData, s))"

definition read_handler ::
  "(bytes \<Rightarrow> 's \<Rightarrow> nat \<times> 's) \<Rightarrow> ('s \<Rightarrow> 's) \<Rightarrow> read_result \<Rightarrow> session \<times> 's \<Rightarrow> session \<times> 's" where
  "read_handler report lost result st =
     (let (se, s) = st; stopped = se\<lparr>se_reading := False\<rparr> in
      case result of
        Read_Aborted \<Rightarrow> (stopped, s)
      | Read_Failed \<Rightarrow> reportNetworkDisconnected lost (stopped, s)
      | Read_Bytes inData \<Rightarrow>
          let (buf, s1) = data_received report inData (se_buf se, s) in
          (se\<lparr>se_buf := buf, se_reading := True\<rparr>, s1))"

text \<open>\<^verbatim>\<open>TlsSession\<close> has its own copies of these members, over the TLS stream.\<close>

definition TlsSession_sendDataImpl :: "('s \<Rightarrow> 's) \<Rightarrow> write_result \<Rightarrow> nat \<Rightarrow> session \<times> 's \<Rightarrow> session \<times> 's" where
  "TlsSession_sendDataImpl lost result bufLen st =
     (case result of
        Write_Aborted \<Rightarrow> st
      | Write_Failed \<Rightarrow> reportNetworkDisconnected lost st
      | Write_Done written \<Rightarrow> if written = bufLen then st else reportNetworkDisconnected lost st)"

definition TlsSession_read_handler ::
  "(bytes \<Rightarrow> 's \<Rightarrow> nat \<times> 's) \<Rightarrow> ('s \<Rightarrow> 's) \<Rightarrow> read_result \<Rightarrow> session \<times> 's \<Rightarrow> session \<times> 's" where
  "TlsSession_read_handler report lost result st =
     (case result of
        Read_Aborted \<Rightarrow> ((fst st)\<lparr>se_reading := False\<rparr>, snd st)
      | Read_Failed \<Rightarrow> reportNetworkDisconnected lost ((fst st)\<lparr>se_reading := False\<rparr>, snd st)
      | Read_Bytes inData \<Rightarrow>
          let buf = (if se_buf (fst st) = [] then inData else se_buf (fst st) @ inData);
              (consumed, s1) = report buf (snd st);
              held = (if length buf \<le> consumed then []
                      else if se_buf (fst st) \<noteq> [] then drop consumed buf
                      else drop consumed inData)
          in ((fst st)\<lparr>se_buf := held, se_reading := True\<rparr>, s1))"

lemma TlsSession_same:
  "TlsSession_sendDataImpl lost result bufLen st = sendDataImpl lost result bufLen st"
  "TlsSession_read_handler report lost rd st = read_handler report lost rd st"
proof -
  show "TlsSession_sendDataImpl lost result bufLen st = sendDataImpl lost result bufLen st"
    by (simp add: TlsSession_sendDataImpl_def sendDataImpl_def split: write_result.split)
  show "TlsSession_read_handler report lost rd st = read_handler report lost rd st"
  proof (cases st)
    case (Pair se s)
    then show ?thesis
      by (simp add: TlsSession_read_handler_def read_handler_def data_received_def Let_def split_beta split: read_result.split)
  qed
qed

text \<open>The virtual calls.\<close>

definition Session_sendData :: "('s \<Rightarrow> 's) \<Rightarrow> write_result \<Rightarrow> nat \<Rightarrow> session \<times> 's \<Rightarrow> session \<times> 's" where
  "Session_sendData lost result bufLen st =
     (case se_type (fst st) of
        ConnectionType_Tcp \<Rightarrow> sendDataImpl lost result bufLen st
      | ConnectionType_Tls \<Rightarrow> TlsSession_sendDataImpl lost result bufLen st)"

definition Session_read ::
  "(bytes \<Rightarrow> 's \<Rightarrow> nat \<times> 's) \<Rightarrow> ('s \<Rightarrow> 's) \<Rightarrow> read_result \<Rightarrow> session \<times> 's \<Rightarrow> session \<times> 's" where
  "Session_read report lost result st =
     (case se_type (fst st) of
        ConnectionType_Tcp \<Rightarrow> read_handler report lost result st
      | ConnectionType_Tls \<Rightarrow> TlsSession_read_handler report lost result st)"

text \<open>The kind of connection makes no difference to what is sent or received.\<close>

lemma Session_uniform:
  "Session_sendData lost result bufLen st = sendDataImpl lost result bufLen st"
  "Session_read report lost rd st = read_handler report lost rd st"
  by (simp_all add: Session_sendData_def Session_read_def TlsSession_same split: connection_type.split)

section \<open>Connecting\<close>

text \<open>A getter of an option that is not there throws: \<^term>\<open>None\<close>.\<close>

definition TcpSession_startImpl :: "network \<Rightarrow> variables \<Rightarrow> session \<Rightarrow> (bool \<times> session) option" where
  "TcpSession_startImpl net vm se =
     (case (networkAddress vm, networkPort vm) of
        (Some addr, Some port) \<Rightarrow>
          if \<not> net_resolve net addr (to_string port) then Some (False, se)
          else if \<not> net_connect net then Some (False, se)
          else Some (True, se\<lparr>se_reading := True\<rparr>)
      | _ \<Rightarrow> None)"

text \<open>Without a CA file the certificate of the broker is not verified.\<close>

definition configureSslCaCert :: "network \<Rightarrow> variables \<Rightarrow> bool option" where
  "configureSslCaCert net vm =
     (case tlsCa True vm of
        None \<Rightarrow> None
      | Some ca \<Rightarrow>
          if ca \<noteq> [] \<and> \<not> ssl_load_verify_file net ca then Some False
          else Some (ssl_set_verify_mode net (ca \<noteq> [])))"

definition tls_password :: "string \<Rightarrow> nat \<Rightarrow> string" where
  "tls_password pass maxLen = take (min (length pass) maxLen) pass"

definition configureSslKey :: "network \<Rightarrow> variables \<Rightarrow> bool option" where
  "configureSslKey net vm =
     (case tlsPrivateKey True vm of
        None \<Rightarrow> None
      | Some key \<Rightarrow>
          if key = [] then Some True
          else
            case tlsPrivateKeyPass True vm of
              None \<Rightarrow> None
            | Some pass \<Rightarrow>
                if pass \<noteq> [] \<and> \<not> ssl_set_password_callback net then Some False
                else Some (ssl_use_private_key_file net key))"

definition configureSslCert :: "network \<Rightarrow> variables \<Rightarrow> bool option" where
  "configureSslCert net vm =
     (case tlsCert True vm of
        None \<Rightarrow> None
      | Some cert \<Rightarrow> if cert = [] then Some True else Some (ssl_use_certificate_file net cert))"

text \<open>The conjunction stops at the first part that fails or throws.\<close>

fun all_of :: "bool option list \<Rightarrow> bool option" where
  "all_of [] = Some True"
| "all_of (None # rs) = None"
| "all_of (Some r # rs) = (if r then all_of rs else Some False)"

definition configureSslContext :: "network \<Rightarrow> variables \<Rightarrow> bool option" where
  "configureSslContext net vm =
     all_of [configureSslCaCert net vm, configureSslKey net vm, configureSslCert net vm]"

definition TlsSession_startImpl :: "network \<Rightarrow> variables \<Rightarrow> session \<Rightarrow> (bool \<times> session) option" where
  "TlsSession_startImpl net vm se =
     (case (networkAddress vm, networkPort vm) of
        (Some addr, Some port) \<Rightarrow>
          if \<not> net_resolve net addr (to_string port) then Some (False, se)
          else
            (case configureSslContext net vm of
               None \<Rightarrow> None
             | Some ok \<Rightarrow>
                 if \<not> ok then Some (False, se)
                 else if \<not> net_connect net then Some (False, se)
                 else if \<not> net_handshake net then Some (False, se)
                 else Some (True, se\<lparr>se_reading := True\<rparr>))
      | _ \<Rightarrow> None)"

definition Session_start :: "network \<Rightarrow> variables \<Rightarrow> session \<Rightarrow> (bool \<times> session) option" where
  "Session_start net vm se =
     (case se_type se of
        ConnectionType_Tcp \<Rightarrow> TcpSession_startImpl net vm se
      | ConnectionType_Tls \<Rightarrow> TlsSession_startImpl net vm se)"

lemma Session_start_returns:
  assumes "stored_for (addNetwork port (addTls openssl [])) vm" and "se_type se = connectionType openssl vm"
  shows "\<exists>ok se'. Session_start net vm se = Some (ok, se')"
proof -
  note g = network_getters [OF assms(1)]
  then obtain addr prt where a: "networkAddress vm = Some addr" "networkPort vm = Some prt" by blast
  show ?thesis
  proof (cases "connectionType openssl vm")
    case ConnectionType_Tcp
    then show ?thesis using a assms(2) by (auto simp: Session_start_def TcpSession_startImpl_def)
  next
    case ConnectionType_Tls
    then have o: "openssl" by (simp add: connectionType_def split: if_splits)
    then obtain ca key pass cert where "tlsCa True vm = Some ca" "tlsPrivateKey True vm = Some key"
      "tlsPrivateKeyPass True vm = Some pass" "tlsCert True vm = Some cert"
      using g by auto
    then have "configureSslCaCert net vm \<noteq> None" "configureSslKey net vm \<noteq> None" "configureSslCert net vm \<noteq> None"
      by (simp_all add: configureSslCaCert_def configureSslKey_def configureSslCert_def ex_bool_eq)
    then have "\<exists>ok. configureSslContext net vm = Some ok" by (auto simp: configureSslContext_def)
    then show ?thesis using a assms(2) ConnectionType_Tls
      by (auto simp: Session_start_def TlsSession_startImpl_def)
  qed
qed

section \<open>Reassembling a stream\<close>

text \<open>A stream of encoded messages, cut anywhere, begins with whole messages and part of the next.\<close>

lemma cut_stream:
  assumes "\<forall>m\<in>set msgs. enc m \<noteq> []" and "prefix bs (concat (map enc msgs))"
  shows "\<exists>ms later rest. msgs = ms @ later \<and> bs = concat (map enc ms) @ rest \<and>
           (rest = [] \<or> (\<exists>m l. later = m # l \<and> strict_prefix rest (enc m)))"
  using assms
proof (induction msgs arbitrary: bs)
  case Nil
  then show ?case by simp
next
  case (Cons m msgs)
  show ?case
  proof (cases "prefix (enc m) bs")
    case True
    then obtain bs' where bs: "bs = enc m @ bs'" by (auto simp: prefix_def)
    then have p: "prefix bs' (concat (map enc msgs))" using Cons.prems(2) by simp
    have "\<forall>m\<in>set msgs. enc m \<noteq> []" using Cons.prems(1) by simp
    from Cons.IH [OF this p] obtain ms later rest where "msgs = ms @ later" "bs' = concat (map enc ms) @ rest"
      "rest = [] \<or> (\<exists>m l. later = m # l \<and> strict_prefix rest (enc m))"
      by blast
    then show ?thesis using bs by (intro exI [of _ "m # ms"] exI [of _ later] exI [of _ rest]) simp
  next
    case False
    then have "strict_prefix bs (enc m)"
      using Cons.prems(2) by (auto simp: prefix_append strict_prefix_def)
    then show ?thesis by (intro exI [of _ "[]"] exI [of _ "m # msgs"] exI [of _ bs]) simp
  qed
qed

text \<open>
  What a session needs of the one it reports to: given whole messages and the beginning of
  another, it handles the whole ones and consumes their bytes, as long as it accepts them.
\<close>

locale stream_consumer =
  fixes consume :: "'e \<Rightarrow> bytes \<Rightarrow> 's \<Rightarrow> nat \<times> 's"
    and enc :: "'m \<Rightarrow> bytes"
    and handle :: "'e \<times> 'm list \<Rightarrow> 's \<Rightarrow> 's"
    and accepts :: "'m list \<Rightarrow> 's \<Rightarrow> bool"
  assumes encoded: "accepts msgs s \<Longrightarrow> m \<in> set msgs \<Longrightarrow> enc m \<noteq> []"
    and consumes: "accepts (ms @ later) s \<Longrightarrow>
        rest = [] \<or> (\<exists>m l. later = m # l \<and> strict_prefix rest (enc m)) \<Longrightarrow>
        consume e (concat (map enc ms) @ rest) s = (length (concat (map enc ms)), handle (e, ms) s)"
    and accepts_rest: "accepts (ms @ later) s \<Longrightarrow> accepts later (handle (e, ms) s)"
begin

definition pending :: "bytes \<Rightarrow> 'm list \<Rightarrow> bool" where
  "pending rest later \<longleftrightarrow> rest = [] \<or> (\<exists>m l. later = m # l \<and> strict_prefix rest (enc m))"

lemma one_read:
  assumes a: "accepts msgs s" and p: "prefix (held @ inData) (concat (map enc msgs))"
  obtains ms later rest where "msgs = ms @ later" "held @ inData = concat (map enc ms) @ rest"
    "pending rest later" "data_received (consume e) inData (held, s) = (rest, handle (e, ms) s)"
proof -
  obtain ms later rest where c: "msgs = ms @ later" "held @ inData = concat (map enc ms) @ rest"
    "pending rest later"
    using cut_stream [OF _ p] encoded [OF a] unfolding pending_def by blast
  have r: "consume e (held @ inData) s = (length (concat (map enc ms)), handle (e, ms) s)"
    using consumes [of ms later s rest e] a c unfolding pending_def by simp
  have d: "drop (length (concat (map enc ms))) (held @ inData) = rest" unfolding c(2) by simp
  have l: "length (held @ inData) \<le> length (concat (map enc ms)) \<longleftrightarrow> rest = []" unfolding c(2) by simp
  have "data_received (consume e) inData (held, s) = (rest, handle (e, ms) s)"
    using r d l by (cases "held = []") (auto simp: data_received_def Let_def)
  then show thesis using that c by blast
qed

theorem reassembles:
  assumes "accepts msgs s" and "pending held msgs" and "prefix (held @ concat (map snd reads)) (concat (map enc msgs))"
  shows "\<exists>mss later rest. msgs = concat mss @ later \<and> length mss = length reads \<and>
           fold (\<lambda>(e, inData). data_received (consume e) inData) reads (held, s) =
             (rest, fold handle (zip (map fst reads) mss) s) \<and>
           held @ concat (map snd reads) = concat (map enc (concat mss)) @ rest \<and> pending rest later"
  using assms
proof (induction reads arbitrary: held s msgs)
  case Nil
  then show ?case by simp
next
  case (Cons r reads)
  obtain e inData where r: "r = (e, inData)" by (cases r)
  have "prefix (held @ inData) (concat (map enc msgs))"
    using Cons.prems(3) by (simp add: r) (metis append.assoc append_prefixD)
  then obtain ms later rest where o: "msgs = ms @ later" "held @ inData = concat (map enc ms) @ rest"
    "pending rest later" "data_received (consume e) inData (held, s) = (rest, handle (e, ms) s)"
    using one_read [OF Cons.prems(1)] by metis
  have all: "held @ concat (map snd (r # reads)) = concat (map enc ms) @ rest @ concat (map snd reads)"
    using o(2) by (simp add: r)
  have "prefix (rest @ concat (map snd reads)) (concat (map enc later))"
    using Cons.prems(3) unfolding all o(1) by simp
  then obtain mss later' rest' where i: "later = concat mss @ later'" "length mss = length reads"
    "fold (\<lambda>(e, inData). data_received (consume e) inData) reads (rest, handle (e, ms) s) =
       (rest', fold handle (zip (map fst reads) mss) (handle (e, ms) s))"
    "rest @ concat (map snd reads) = concat (map enc (concat mss)) @ rest'" "pending rest' later'"
    using Cons.IH [OF accepts_rest o(3)] Cons.prems(1) unfolding o(1) by metis
  show ?case
    by (rule exI [of _ "ms # mss"], rule exI [of _ later'], rule exI [of _ rest'])
      (use o i all in \<open>simp add: r\<close>)
qed

end

section \<open>The client as the consumer\<close>

text \<open>One read: the API call around the messages that it completes.\<close>

definition batch :: "build \<Rightarrow> 32 word \<times> in_msg list \<Rightarrow> client \<Rightarrow> client" where
  "batch b r cl = doApiExit (fold (handle_message b) (snd r) (doApiEnter b (fst r) cl))"

text \<open>
  The client takes all the messages, however they arrive in reads: no limit on the size of
  packets is agreed, and the network is not reported lost.
\<close>

definition unhindered :: "build \<Rightarrow> in_msg list \<Rightarrow> client \<Rightarrow> bool" where
  "unhindered b msgs cl \<longleftrightarrow>
     (\<forall>runs e ms later. msgs = concat (map snd runs) @ ms @ later \<longrightarrow>
        (let c = doApiEnter b e (fold (batch b) runs cl) in
         \<not> m_networkDisconnected (m_clientState c) \<and>
         m_maxRecvPacketSize (m_sessionState (fold (handle_message b) ms c)) = 0))"

text \<open>The framing knows the messages, and does not take a part of one for a whole.\<close>

definition framed :: "framing \<Rightarrow> (in_msg \<Rightarrow> bytes) \<Rightarrow> in_msg set \<Rightarrow> bool" where
  "framed f enc known \<longleftrightarrow>
     frames_read_back f enc known \<and> (\<forall>m\<in>known. \<forall>p. strict_prefix p (enc m) \<longrightarrow> incomplete f p)"

definition receives :: "build \<Rightarrow> framing \<Rightarrow> (in_msg \<Rightarrow> bytes) \<Rightarrow> in_msg list \<Rightarrow> client \<Rightarrow> bool" where
  "receives b f enc msgs cl \<longleftrightarrow> framed f enc (set msgs) \<and> unhindered b msgs cl"

lemma framed_mono: "framed f enc known \<Longrightarrow> known' \<subseteq> known \<Longrightarrow> framed f enc known'"
  unfolding framed_def frames_read_back_def by blast

lemma unhindered_batch:
  assumes "unhindered b (ms @ later) cl"
  shows "unhindered b later (batch b (e, ms) cl)"
  unfolding unhindered_def
proof (intro allI impI)
  fix runs :: "(32 word \<times> in_msg list) list" and e' ms' later'
  assume "later = concat (map snd runs) @ ms' @ later'"
  then have "ms @ later = concat (map snd ((e, ms) # runs)) @ ms' @ later'" by simp
  then show "let c = doApiEnter b e' (fold (batch b) runs (batch b (e, ms) cl)) in
      \<not> m_networkDisconnected (m_clientState c) \<and>
      m_maxRecvPacketSize (m_sessionState (fold (handle_message b) ms' c)) = 0"
    using assms unfolding unhindered_def by (metis fold_simps(2))
qed

lemma unhindered_now:
  assumes "unhindered b (ms @ later) cl"
  shows "\<not> m_networkDisconnected (m_clientState (doApiEnter b e cl))"
    and "no_size_limit b ms (doApiEnter b e cl)"
proof -
  have u: "\<not> m_networkDisconnected (m_clientState (doApiEnter b e cl)) \<and>
      m_maxRecvPacketSize (m_sessionState (fold (handle_message b) (take k ms) (doApiEnter b e cl))) = 0" for k
    using assms [unfolded unhindered_def, rule_format, of "[]" "take k ms" "drop k ms @ later" e]
    by (simp add: Let_def)
  show "\<not> m_networkDisconnected (m_clientState (doApiEnter b e cl))" using u by blast
  show "no_size_limit b ms (doApiEnter b e cl)" using u by (simp add: no_size_limit_def)
qed

interpretation broker_stream: stream_consumer "processData b f" enc "batch b" "receives b f enc"
  for b :: build and f :: framing and enc :: "in_msg \<Rightarrow> bytes"
proof
  fix msgs s m
  assume "receives b f enc msgs s" "m \<in> set msgs"
  then show "enc m \<noteq> []" by (force simp: receives_def framed_def frames_read_back_def)
next
  fix ms later s rest e
  assume r: "receives b f enc (ms @ later) s"
    and p: "rest = [] \<or> (\<exists>m l. later = m # l \<and> strict_prefix rest (enc m))"
  have fr: "framed f enc (set ms)" using r framed_mono [of f enc "set (ms @ later)"] by (auto simp: receives_def)
  have u: "unhindered b (ms @ later) s" using r by (simp add: receives_def)
  have "incomplete f rest"
    using p r by (auto simp: receives_def framed_def) (simp add: incomplete_def)
  then have "process_bytes b f (concat (map enc ms) @ rest) (doApiEnter b e s) =
      (Process_Consumed (length (concat (map enc ms))), fold (handle_message b) ms (doApiEnter b e s))"
    using process_bytes_handles_messages [of f enc "set ms" ms rest b "doApiEnter b e s"] fr unhindered_now(2) [OF u]
    by (simp add: framed_def)
  then show "processData b f e (concat (map enc ms) @ rest) s = (length (concat (map enc ms)), batch b (e, ms) s)"
    using unhindered_now(1) [OF u, of e] by (simp add: processData_def batch_def Let_def)
next
  fix ms later s e
  assume "receives b f enc (ms @ later) s"
  then show "receives b f enc later (batch b (e, ms) s)"
    using unhindered_batch framed_mono [of f enc "set (ms @ later)" "set later"] by (auto simp: receives_def)
qed

section \<open>Properties\<close>

text \<open>
  C3: However the bytes of the broker are cut into reads, the session hands the client exactly
  the messages that are complete, in order and each once, at the read that completes it; what
  it keeps is the beginning of the next message and nothing else. (While no limit on the size of
  packets is agreed and the network is not reported lost; what the parser of frames promises is \<open>framed\<close>.)
\<close>

theorem stream_reassembled:
  assumes "framed f enc (set msgs)" and "unhindered b msgs cl"
    and "prefix (concat (map snd reads)) (concat (map enc msgs))"
  shows "\<exists>mss later rest. msgs = concat mss @ later \<and> length mss = length reads \<and>
           fold (\<lambda>(e, inData). data_received (processData b f e) inData) reads ([], cl) =
             (rest, fold (batch b) (zip (map fst reads) mss) cl) \<and>
           concat (map snd reads) = concat (map enc (concat mss)) @ rest \<and>
           (rest = [] \<or> (\<exists>m l. later = m # l \<and> strict_prefix rest (enc m)))"
proof -
  have "receives b f enc msgs cl" using assms by (simp add: receives_def)
  from broker_stream.reassembles [OF this, of "[]" reads] assms(3) show ?thesis
    by (simp add: broker_stream.pending_def)
qed

text \<open>Two PINGRESP, four bytes, that arrive one by one but for the second and third.\<close>

text \<open>A client without operations and timers, for which nothing changes.\<close>

lemma idle_batches:
  assumes "set (concat (map snd runs)) \<subseteq> {Pingresp_In}"
    and "m_ops cl = []" "\<not> m_cancelNextTickWaitCb cl" "\<not> m_nextTickProgramCb cl" "m_apiEnterCount cl = 0" "\<not> m_opsDeleted cl"
  shows "fold (batch b) runs cl = cl"
  using assms(1)
proof (induction runs)
  case (Cons r runs)
  have ping: "handle_message b Pingresp_In c = c" if "m_ops c = []" for c
    using that by (simp add: handle_message_def handle_other_def)
  have pings: "fold (handle_message b) ms c = c" if "set ms \<subseteq> {Pingresp_In}" "m_ops c = []" for ms c
    using that by (induction ms) (auto simp: ping)
  let ?c = "cl\<lparr>m_apiEnterCount := 1\<rparr>"
  have enter: "doApiEnter b (fst r) cl = ?c" using assms(3,5) by (simp add: doApiEnter_def)
  have "fold (handle_message b) (snd r) ?c = ?c" by (rule pings) (use assms(2) Cons.prems in simp_all)
  moreover have "doApiExit ?c = cl"
    using assms(2,4-6) by (cases cl) (simp add: doApiExit_def cleanOps_def)
  ultimately have "batch b r cl = cl" by (simp add: batch_def enter)
  then show ?case using Cons by simp
qed simp

theorem stream_reassembled_witness:
  "\<exists>mss later rest. replicate 2 Pingresp_In = concat mss @ later \<and>
     fold (\<lambda>(e, inData). data_received (processData sample_build ping_framing e) inData)
       [(0, [208]), (0, [0, 208]), (0, [0])] ([], sample_client sample_build [] [] []) =
     (rest, fold (batch sample_build) (zip [0, 0, 0] mss) (sample_client sample_build [] [] []))"
proof -
  let ?enc = "\<lambda>_. [208, 0] :: bytes" and ?cl = "sample_client sample_build [] [] []"
  have fr: "framed ping_framing ?enc (set (replicate 2 Pingresp_In))"
    unfolding framed_def frames_read_back_def incomplete_def
    by (auto simp: ping_framing_def strict_prefix_def prefix_Cons numeral_2_eq_2)
  have c: "m_ops ?cl = []" "\<not> m_cancelNextTickWaitCb ?cl" "\<not> m_nextTickProgramCb ?cl" "m_apiEnterCount ?cl = 0" "\<not> m_opsDeleted ?cl"
    "m_maxRecvPacketSize (m_sessionState ?cl) = 0" "\<not> m_networkDisconnected (m_clientState ?cl)"
    by (simp_all add: sample_client_def sample_defs split_beta Let_def)
  have u: "unhindered sample_build (replicate 2 Pingresp_In) ?cl"
    unfolding unhindered_def
  proof (intro allI impI)
    fix runs :: "(32 word \<times> in_msg list) list" and e ms later
    assume r: "replicate 2 Pingresp_In = concat (map snd runs) @ ms @ later"
    then have s: "set (concat (map snd runs)) \<subseteq> {Pingresp_In}" "set ms \<subseteq> {Pingresp_In}"
      by (metis Un_subset_iff set_append set_replicate_conv_if subset_singletonD subset_refl insert_subset empty_subsetI)+
    let ?c = "doApiEnter sample_build e ?cl"
    have e: "m_ops ?c = []" "m_sessionState ?c = m_sessionState ?cl" "m_clientState ?c = m_clientState ?cl"
      using c by (simp_all add: doApiEnter_def Let_def)
    have "fold (handle_message sample_build) ms ?c = ?c"
      using s(2) e(1) by (induction ms) (auto simp: handle_message_def handle_other_def)
    then show "let c = doApiEnter sample_build e (fold (batch sample_build) runs ?cl) in
        \<not> m_networkDisconnected (m_clientState c) \<and>
        m_maxRecvPacketSize (m_sessionState (fold (handle_message sample_build) ms c)) = 0"
      using idle_batches [OF s(1) c(1-5), of sample_build] c(6,7) e by (simp add: Let_def)
  qed
  have p: "prefix (concat (map snd [(0 :: 32 word, [208]), (0, [0, 208]), (0, [0])])) (concat (map ?enc (replicate 2 Pingresp_In)))"
    by (simp add: numeral_2_eq_2)
  from stream_reassembled [OF fr u p] show ?thesis by fastforce
qed

end
