(* ===== verification/App_Client.thy ===== *)
theory App_Client
  imports Client_Facade App_Session "HOL-Library.Monad_Syntax"
begin

text \<open>
  The command line applications \<^verbatim>\<open>cc_mqtt5_client_pub\<close> and \<^verbatim>\<open>cc_mqtt5_client_sub\<close>
  (\<^verbatim>\<open>client/app\<close>): \<^verbatim>\<open>AppClient\<close> with its callbacks, and what \<^verbatim>\<open>Pub\<close> and \<^verbatim>\<open>Sub\<close> do
  once the broker has accepted the connection. Every member is a function on the state of the
  application, which holds the client of the library. The callbacks are such functions too;
  that the library calls them in the middle of one of its own is not part of the model.
  A function that leaves by an exception gives \<^term>\<open>None\<close>.
\<close>

section \<open>State\<close>

datatype app_kind = App_Pub | App_Sub

text \<open>What comes from outside: the build, boost's parser and its help text, and the network.\<close>

record app_env =
  env_build :: build
  env_openssl :: bool
  env_parse :: "opt_desc \<Rightarrow> string list \<Rightarrow> variables option"
  env_help :: "opt_desc \<Rightarrow> string"
  env_network :: network

record app =
  a_kind :: app_kind
  a_desc :: opt_desc
  a_vm :: variables
  a_client :: client
  a_session :: "session option"
  a_result :: int
  a_stopped :: bool
  a_posted :: bool
  a_timer :: "nat option"
  a_lastWaitProgram :: nat
  a_out :: string
  a_err :: string

text \<open>The constructors of \<^verbatim>\<open>Pub\<close> and \<^verbatim>\<open>Sub\<close> add their options; all callbacks are set.\<close>

fun app_options :: "bool \<Rightarrow> app_kind \<Rightarrow> opt_desc" where
  "app_options hasOpenssl App_Pub =
     addPublish (addConnect (addTls hasOpenssl (addNetwork DefaultPort (addCommon []))))"
| "app_options hasOpenssl App_Sub =
     addSubscribe (addConnect (addTls hasOpenssl (addNetwork DefaultPort (addCommon []))))"

definition app_init :: "app_env \<Rightarrow> app_kind \<Rightarrow> app" where
  "app_init env kind =
     \<lparr>a_kind = kind, a_desc = app_options (env_openssl env) kind, a_vm = (\<lambda>_. None),
      a_client = with_callbacks True (ClientImpl_init (env_build env)), a_session = None,
      a_result = 0, a_stopped = False, a_posted = False, a_timer = None, a_lastWaitProgram = 0,
      a_out = [], a_err = []\<rparr>"

definition logError :: "string \<Rightarrow> app \<Rightarrow> app" where
  "logError msg app = app\<lparr>a_err := a_err app @ ''ERROR: '' @ msg @ [NL]\<rparr>"

definition print_out :: "string \<Rightarrow> app \<Rightarrow> app" where
  "print_out msg app = app\<lparr>a_out := a_out app @ msg\<rparr>"

definition doTerminate :: "int \<Rightarrow> app \<Rightarrow> app" where
  "doTerminate result app = app\<lparr>a_result := result, a_stopped := True\<rparr>"

section \<open>Calls of the library\<close>

definition on_client :: "(client \<Rightarrow> 'r \<times> client) \<Rightarrow> app \<Rightarrow> 'r \<times> app" where
  "on_client call app = (let (r, cl) = call (a_client app) in (r, app\<lparr>a_client := cl\<rparr>))"

text \<open>A call whose error is reported and ends the sequence it is part of.\<close>

definition checked :: "string \<Rightarrow> (client \<Rightarrow> error_code \<times> client) \<Rightarrow> app \<Rightarrow> (bool \<times> app) option" where
  "checked msg call app =
     (let (ec, app1) = on_client call app in
      Some (if ec = EC_Success then (True, app1) else (False, logError (msg @ errorCode_toString ec) app1)))"

fun in_order :: "(app \<Rightarrow> (bool \<times> app) option) list \<Rightarrow> app \<Rightarrow> (bool \<times> app) option" where
  "in_order [] app = Some (True, app)"
| "in_order (step # steps) app =
     do { (ok, app1) \<leftarrow> step app; if ok then in_order steps app1 else Some (False, app1) }"

text \<open>A step that reads options first.\<close>

definition reading ::
  "(variables \<Rightarrow> 'x option) \<Rightarrow> ('x \<Rightarrow> app \<Rightarrow> (bool \<times> app) option) \<Rightarrow> app \<Rightarrow> (bool \<times> app) option" where
  "reading get step app = do { x \<leftarrow> get (a_vm app); step x app }"

text \<open>The steps that configure and send what has been prepared, unless preparing it failed.\<close>

definition with_prepared ::
  "app_env \<Rightarrow> 32 word \<Rightarrow> prepare_call \<Rightarrow> string \<Rightarrow> (op_id \<Rightarrow> (app \<Rightarrow> (bool \<times> app) option) list) \<Rightarrow> app \<Rightarrow>
   (bool \<times> app) option" where
  "with_prepared env elapsed p msg steps app =
     (case on_client (prepare (env_build env) elapsed p) app of
        (Inl ec, app1) \<Rightarrow> Some (False, logError (msg @ errorCode_toString ec) app1)
      | (Inr i, app1) \<Rightarrow> in_order (steps i) app1)"

text \<open>An argument that is given only when it is not empty.\<close>

definition non_empty :: "'a list \<Rightarrow> 'a list option" where
  "non_empty xs = (if xs = [] then None else Some xs)"

text \<open>User properties are added one after the other.\<close>

definition add_user_props ::
  "app_env \<Rightarrow> string \<Rightarrow> (cstr option \<Rightarrow> cstr option \<Rightarrow> op_config) \<Rightarrow> op_id \<Rightarrow> (string \<times> string) list \<Rightarrow>
   app \<Rightarrow> (bool \<times> app) option" where
  "add_user_props env msg mk i props =
     in_order (map (\<lambda>(k, v). checked msg (configure (env_build env) (mk (Some k) (Some v)) i)) props)"

section \<open>Connecting\<close>

definition startImpl_basic :: "variables \<Rightarrow> connect_basic_config option" where
  "startImpl_basic vm =
     do { cid \<leftarrow> clientId vm; user \<leftarrow> username vm; pass \<leftarrow> password vm; alive \<leftarrow> keepAlive vm;
          let data = parseBinaryData pass in
          Some (connect_init_config_basic
            \<lparr>cb_keepAlive := alive, cb_cleanStart := True, cb_clientId := non_empty cid,
             cb_username := non_empty user, cb_password := non_empty data, cb_passwordLen := length data\<rparr>) }"

definition startImpl_will :: "variables \<Rightarrow> string \<Rightarrow> connect_will_config option" where
  "startImpl_will vm topic =
     do { msg \<leftarrow> willMessage vm; contentType \<leftarrow> willContentType vm; responseTopic \<leftarrow> willResponseTopic vm;
          corr \<leftarrow> willCorrelationData vm; delay \<leftarrow> willDelay vm; expiry \<leftarrow> willMessageExpiry vm;
          qos \<leftarrow> willQos vm; fmt \<leftarrow> willMessageFormat vm;
          let data = parseBinaryData msg; corrData = parseBinaryData corr in
          Some (connect_init_config_will
            \<lparr>cw_topic := Some topic, cw_data := non_empty data, cw_dataLen := length data,
             cw_contentType := non_empty contentType, cw_responseTopic := non_empty responseTopic,
             cw_correlationData := non_empty corrData, cw_correlationDataLen := length corrData,
             cw_delayInterval := delay, cw_messageExpiryInterval := expiry, cw_qos := qos, cw_format := fmt,
             cw_retain := willRetain vm\<rparr>) }"

definition startImpl_extra :: "config \<Rightarrow> variables \<Rightarrow> connect_extra_config option" where
  "startImpl_extra c vm =
     do { expiry \<leftarrow> sessionExpiry vm; recvMax \<leftarrow> receiveMax vm; packetSize \<leftarrow> maxPacketSize vm;
          aliasMax \<leftarrow> topicAliasMax vm;
          Some ((connect_init_config_extra c)
            \<lparr>cx_sessionExpiryInterval := expiry, cx_receiveMaximum := recvMax, cx_maxPacketSize := packetSize,
             cx_topicAliasMaximum := aliasMax, cx_requestResponseInfo := reqResponseInfo vm,
             cx_requestProblemInfo := reqProblemInfo vm\<rparr>) }"

text \<open>The will, when there is a will topic.\<close>

definition start_will :: "app_env \<Rightarrow> op_id \<Rightarrow> app \<Rightarrow> (bool \<times> app) option" where
  "start_will env i =
     reading willTopic (\<lambda>topic.
       if topic = [] then in_order []
       else
         reading (\<lambda>vm. startImpl_will vm topic) (\<lambda>cfg.
           in_order
             [checked ''Failed to apply will configuration: '' (configure (env_build env) (Connect_Will cfg) i),
              reading willUserProps (\<lambda>props.
                add_user_props env ''Failed to add connect user property: '' Connect_WillUserProp i (parseUserProps props))]))"

definition sendConnect :: "app_env \<Rightarrow> 32 word \<Rightarrow> op_id \<Rightarrow> app \<Rightarrow> (bool \<times> app) option" where
  "sendConnect env elapsed i =
     checked ''Failed to send connect request: ''
       (handle_send (env_build env) elapsed True Type_Connect (Some i))"

definition startImpl :: "app_env \<Rightarrow> 32 word \<Rightarrow> app \<Rightarrow> (bool \<times> app) option" where
  "startImpl env elapsed =
     with_prepared env elapsed Prepare_Connect ''Failed to prepare connect: '' (\<lambda>i.
       [reading startImpl_basic (\<lambda>cfg.
          checked ''Failed to apply basic connect configuration: '' (configure (env_build env) (Connect_Basic cfg) i)),
        start_will env i,
        reading (startImpl_extra (b_config (env_build env))) (\<lambda>cfg.
          checked ''Failed to apply extra connect configuration: '' (configure (env_build env) (Connect_Extra cfg) i)),
        reading connectUserProps (\<lambda>props.
          add_user_props env ''Failed to add connect user property: '' Connect_UserProp i (parseUserProps props)),
        sendConnect env elapsed i])"

section \<open>Starting\<close>

definition createSession :: "app_env \<Rightarrow> app \<Rightarrow> (bool \<times> app) option" where
  "createSession env app =
     (case Session_create (env_openssl env) (a_vm app) of
        None \<Rightarrow> Some (False, logError ''Failed to create network connection session.'' app)
      | Some se \<Rightarrow>
          do { (ok, se1) \<leftarrow> Session_start (env_network env) (a_vm app) se;
               let app1 = app\<lparr>a_session := Some se1\<rparr> in
               Some (if ok then (True, app1) else (False, logError ''Failed to connect to the broker.'' app1)) })"

text \<open>\<^verbatim>\<open>parseArgs\<close> returns true or throws.\<close>

definition AppClient_start :: "app_env \<Rightarrow> 32 word \<Rightarrow> string \<Rightarrow> string list \<Rightarrow> app \<Rightarrow> (bool \<times> app) option" where
  "AppClient_start env elapsed program argv app =
     do { vm \<leftarrow> env_parse env (a_desc app) argv;
          let app1 = app\<lparr>a_vm := vm\<rparr> in
          if helpRequested vm
          then Some (True, (print_out (''Usage: '' @ program @ '' [options...]'' @ [NL] @ env_help env (a_desc app1) @ [NL]) app1)
                      \<lparr>a_stopped := True\<rparr>)
          else in_order [createSession env, startImpl env elapsed] app1 }"

section \<open>Publishing and subscribing\<close>

definition pub_basic :: "variables \<Rightarrow> publish_basic_config option" where
  "pub_basic vm =
     do { topic \<leftarrow> pubTopic vm; msg \<leftarrow> pubMessage vm; qos \<leftarrow> pubQos vm; retain \<leftarrow> pubRetain vm;
          Some (publish_init_config_basic
            \<lparr>pb_topic := Some topic, pb_data := parseBinaryData msg, pb_qos := qos, pb_retain := retain\<rparr>) }"

definition pub_extra :: "variables \<Rightarrow> string \<Rightarrow> string \<Rightarrow> string \<Rightarrow> publish_extra_config option" where
  "pub_extra vm contentType responseTopic corr =
     do { expiry \<leftarrow> pubMessageExpiry vm; fmt \<leftarrow> pubMessageFormat vm;
          let corrData = parseBinaryData corr in
          Some (publish_init_config_extra
            \<lparr>px_contentType := non_empty contentType, px_responseTopic := non_empty responseTopic,
             px_correlationData := non_empty corrData, px_correlationDataLen := length corrData,
             px_messageExpiryInterval := expiry, px_format := fmt\<rparr>) }"

text \<open>A sequence that failed ends the application.\<close>

definition or_terminate :: "bool \<times> app \<Rightarrow> app" where
  "or_terminate r = (if fst r then snd r else doTerminate 1 (snd r))"

definition pub_publish ::
  "app_env \<Rightarrow> 32 word \<Rightarrow> publish_basic_config \<Rightarrow> string \<Rightarrow> string \<Rightarrow> string \<Rightarrow> app \<Rightarrow> (bool \<times> app) option" where
  "pub_publish env elapsed basic contentType responseTopic corr =
     with_prepared env elapsed Prepare_Publish ''Failed to allocate publish message: '' (\<lambda>i.
       [checked ''Failed to perform basic publish configuration: '' (configure (env_build env) (Publish_Basic basic) i),
        reading (\<lambda>vm. pub_extra vm contentType responseTopic corr) (\<lambda>extra.
          checked ''Failed to perform extra publish configuration: '' (configure (env_build env) (Publish_Extra extra) i)),
        reading pubUserProps (\<lambda>props.
          add_user_props env ''Failed to add publish user property: '' Publish_UserProp i (parseUserProps props)),
        checked ''Failed to send PUBLISH message: ''
          (handle_send (env_build env) elapsed True Type_Send (Some i))])"

definition Pub_brokerConnectedImpl :: "app_env \<Rightarrow> 32 word \<Rightarrow> app \<Rightarrow> app option" where
  "Pub_brokerConnectedImpl env elapsed app =
     do { contentType \<leftarrow> pubContentType (a_vm app); responseTopic \<leftarrow> pubResponseTopic (a_vm app);
          corr \<leftarrow> pubCorrelationData (a_vm app); basic \<leftarrow> pub_basic (a_vm app);
          r \<leftarrow> pub_publish env elapsed basic contentType responseTopic corr app;
          Some (or_terminate r) }"

text \<open>The topics with the QoS values given for them.\<close>

definition sub_topic :: "config \<Rightarrow> bool \<Rightarrow> nat list \<Rightarrow> nat \<Rightarrow> string \<Rightarrow> subscribe_topic_config" where
  "sub_topic c noRetained qoses idx topic =
     (let cfg = (subscribe_init_config_topic c)\<lparr>st_topic := Some topic\<rparr>;
          cfg1 = (if idx < length qoses then cfg\<lparr>st_maxQos := qoses ! idx\<rparr> else cfg) in
      if noRetained then cfg1\<lparr>st_retainHandling := 2\<rparr> else cfg1)"

definition sub_subscribe ::
  "app_env \<Rightarrow> 32 word \<Rightarrow> string list \<Rightarrow> nat list \<Rightarrow> bool \<Rightarrow> app \<Rightarrow> (bool \<times> app) option" where
  "sub_subscribe env elapsed topics qoses noRetained =
     with_prepared env elapsed Prepare_Subscribe ''Failed to allocate subscribe message: '' (\<lambda>i.
       map (\<lambda>(idx, topic).
           checked (''Failed to configure topic '' @ [CHR 0x22] @ topic @ [CHR 0x22] @ '': '')
             (configure (env_build env)
               (Subscribe_Topic (sub_topic (b_config (env_build env)) noRetained qoses idx topic)) i))
         (enumerate 0 topics) @
       [reading subId (\<lambda>n.
          if 0 < n
          then checked ''Failed to configure extra subscribe properties: '' (configure (env_build env) (Subscribe_SubId n) i)
          else in_order []),
        reading subUserProps (\<lambda>props.
          add_user_props env ''Failed to add subscribe user property: '' Subscribe_UserProp i (parseUserProps props)),
        checked ''Failed to send SUBSCRIBE message: ''
          (handle_send (env_build env) elapsed True Type_Subscribe (Some i))])"

definition Sub_brokerConnectedImpl :: "app_env \<Rightarrow> 32 word \<Rightarrow> app \<Rightarrow> app option" where
  "Sub_brokerConnectedImpl env elapsed app =
     do { topics \<leftarrow> subTopics (a_vm app); qoses \<leftarrow> subQoses (a_vm app);
          r \<leftarrow> sub_subscribe env elapsed topics qoses (subNoRetained (a_vm app)) app;
          Some (or_terminate r) }"

fun brokerConnectedImpl :: "app_env \<Rightarrow> 32 word \<Rightarrow> app_kind \<Rightarrow> app \<Rightarrow> app option" where
  "brokerConnectedImpl env elapsed App_Pub app = Pub_brokerConnectedImpl env elapsed app"
| "brokerConnectedImpl env elapsed App_Sub app = Sub_brokerConnectedImpl env elapsed app"

section \<open>Ending\<close>

text \<open>Disconnecting in order; no function of the applications calls it.\<close>

definition send_disconnect :: "app_env \<Rightarrow> 32 word \<Rightarrow> disconnect_config \<Rightarrow> app \<Rightarrow> (bool \<times> app) option" where
  "send_disconnect env elapsed cfg =
     with_prepared env elapsed Prepare_Disconnect ''Failed to prepare disconnect: '' (\<lambda>i.
       [checked ''Failed to apply disconnect configuration: '' (configure (env_build env) (Disconnect_Basic cfg) i),
        checked ''Failed to send disconnect: ''
          (handle_send (env_build env) elapsed False Type_Disconnect (Some i))])"

definition doComplete :: "app_env \<Rightarrow> 32 word \<Rightarrow> app \<Rightarrow> app option" where
  "doComplete env elapsed app =
     do { topic \<leftarrow> willTopic (a_vm app);
          r \<leftarrow> send_disconnect env elapsed
                 (if topic = [] then disconnect_init_config else disconnect_init_config\<lparr>dc_reasonCode := 4\<rparr>) app;
          Some (if fst r then (snd r)\<lparr>a_posted := True\<rparr> else doTerminate 1 (snd r)) }"

definition posted_handler :: "app \<Rightarrow> app" where
  "posted_handler app = doTerminate 0 (app\<lparr>a_posted := False\<rparr>)"

section \<open>Callbacks of the library\<close>

definition brokerDisconnectedImpl :: "disconnect_info option \<Rightarrow> app \<Rightarrow> app" where
  "brokerDisconnectedImpl info app =
     (let app1 = doTerminate 1 (logError ''Broker disconnected.'' app) in
      case info of
        None \<Rightarrow> app1
      | Some i \<Rightarrow> if verbose (a_vm app) then print_out (print_disconnect_info i) app1 else app1)"

text \<open>A completed connection comes with a response; without one an assertion fails.\<close>

definition connectCompleteImpl ::
  "app_env \<Rightarrow> 32 word \<Rightarrow> async_status \<Rightarrow> connect_response option \<Rightarrow> app \<Rightarrow> app option" where
  "connectCompleteImpl env elapsed status response app =
     (if status \<noteq> St_Complete
      then Some (doTerminate 1
             (logError (''Connection operation was not properly completed: status='' @ to_string (async_status_number status)) app))
      else
        case response of
          None \<Rightarrow> None
        | Some r \<Rightarrow>
            let app1 = (if verbose (a_vm app) then print_out (print_connect_response r) app else app) in
            if RC_UnspecifiedError \<le> cr_reasonCode r
            then Some (doTerminate 1 (logError ''Connection attempt was rejected'' app1))
            else brokerConnectedImpl env elapsed (a_kind app) app1)"

text \<open>Only \<^verbatim>\<open>Sub\<close> overrides it.\<close>

definition messageReceivedImpl :: "message_info \<Rightarrow> app \<Rightarrow> app" where
  "messageReceivedImpl info app =
     (case a_kind app of
        App_Pub \<Rightarrow> app
      | App_Sub \<Rightarrow>
          if verbose (a_vm app) then print_out (print_message_info (subBinary (a_vm app)) True info) app
          else print_out (mi_topic info @ '': '' @ data_toString (subBinary (a_vm app)) (mi_data info) @ [NL]) app)"

definition publishCompleteInternal :: "async_status \<Rightarrow> publish_response option \<Rightarrow> app \<Rightarrow> app" where
  "publishCompleteInternal status response app =
     (if status \<noteq> St_Complete then doTerminate 1 (logError (''Publish failed: '' @ asyncStatus_toString status) app)
      else
        let good = (case response of None \<Rightarrow> True | Some r \<Rightarrow> pr_reasonCode r < RC_UnspecifiedError);
            app1 = print_out ((if good then ''Publish successful'' else ''Publish failed'') @ [NL]) app;
            app2 = (case response of
                      None \<Rightarrow> app1
                    | Some r \<Rightarrow> if verbose (a_vm app) then print_out (print_publish_response r) app1 else app1)
        in doTerminate (if good then 0 else 1) app2)"

text \<open>The refused topics; an index without topic fails an assertion.\<close>

fun refused_topics :: "variables \<Rightarrow> (nat \<times> reason_code) list \<Rightarrow> string option" where
  "refused_topics vm [] = Some []"
| "refused_topics vm ((idx, rc) # codes) =
     (if rc < RC_UnspecifiedError then refused_topics vm codes
      else do {
        topics \<leftarrow> subTopics vm;
        topic \<leftarrow> (if idx < length topics then Some (topics ! idx) else None);
        rest \<leftarrow> refused_topics vm codes;
        Some (''Failed to subscribe to topic '' @ [CHR 0x22] @ topic @ [CHR 0x22] @ '' with reason code: '' @
              reasonCode_toString rc @ [NL] @ rest) })"

definition subscribeCompleteInternal :: "async_status \<Rightarrow> sub_response option \<Rightarrow> app \<Rightarrow> app option" where
  "subscribeCompleteInternal status response app =
     (if status \<noteq> St_Complete then Some (doTerminate 1 (logError (''Subscribe failed: '' @ asyncStatus_toString status) app))
      else
        case response of
          None \<Rightarrow> None
        | Some r \<Rightarrow>
            do { text \<leftarrow> refused_topics (a_vm app) (enumerate 0 (sr_reasonCodes r));
                 let app1 = app\<lparr>a_err := a_err app @ text\<rparr> in
                 Some (if verbose (a_vm app) then print_out (print_subscribe_response r) app1 else app1) })"

definition logMessageCb :: "string \<Rightarrow> app \<Rightarrow> app" where
  "logMessageCb msg app = logError msg app"

section \<open>Time\<close>

text \<open>\<^verbatim>\<open>now\<close> is the clock in milliseconds; the result of cancelling goes to the library.\<close>

definition nextTickProgramInternal :: "nat \<Rightarrow> 32 word \<Rightarrow> app \<Rightarrow> app" where
  "nextTickProgramInternal now duration app = app\<lparr>a_lastWaitProgram := now, a_timer := Some (unat duration)\<rparr>"

definition cancelNextTickWaitInternal :: "nat \<Rightarrow> app \<Rightarrow> 32 word \<times> app" where
  "cancelNextTickWaitInternal now app = (of_nat (now - a_lastWaitProgram app), app\<lparr>a_timer := None\<rparr>)"

datatype wait_result = Wait_Aborted | Wait_Failed string | Wait_Elapsed

definition timer_handler :: "app_env \<Rightarrow> 32 word \<Rightarrow> wait_result \<Rightarrow> app \<Rightarrow> app" where
  "timer_handler env duration result app =
     (case result of
        Wait_Aborted \<Rightarrow> app
      | Wait_Failed msg \<Rightarrow> doTerminate 1 (app\<lparr>a_err := a_err app @ ''ERROR: Timer error: '' @ msg\<rparr>)
      | Wait_Elapsed \<Rightarrow> app\<lparr>a_client := ClientImpl_tick (env_build env) duration (a_client app), a_timer := None\<rparr>)"

section \<open>The network\<close>

text \<open>The session and the application around it; without a session an assertion fails.\<close>

definition on_session :: "(session \<times> app \<Rightarrow> session \<times> app) \<Rightarrow> app \<Rightarrow> app option" where
  "on_session f app =
     (case a_session app of
        None \<Rightarrow> None
      | Some se \<Rightarrow> let (se1, app1) = f (se, app) in Some (app1\<lparr>a_session := Some se1\<rparr>))"

definition dataReportCb :: "app_env \<Rightarrow> framing \<Rightarrow> 32 word \<Rightarrow> bytes \<Rightarrow> app \<Rightarrow> nat \<times> app" where
  "dataReportCb env f elapsed data app = on_client (processData (env_build env) f elapsed data) app"

definition networkDisconnectedCb :: "app_env \<Rightarrow> 32 word \<Rightarrow> app \<Rightarrow> app" where
  "networkDisconnectedCb env elapsed app =
     doTerminate 1 (app\<lparr>a_client := notifyNetworkDisconnected (env_build env) elapsed (a_client app)\<rparr>)"

definition sendDataInternal :: "app_env \<Rightarrow> 32 word \<Rightarrow> write_result \<Rightarrow> nat \<Rightarrow> app \<Rightarrow> app option" where
  "sendDataInternal env elapsed result bufLen = on_session (Session_sendData (networkDisconnectedCb env elapsed) result bufLen)"

definition app_read :: "app_env \<Rightarrow> framing \<Rightarrow> 32 word \<Rightarrow> read_result \<Rightarrow> app \<Rightarrow> app option" where
  "app_read env f elapsed result =
     on_session (Session_read (dataReportCb env f elapsed) (networkDisconnectedCb env elapsed) result)"

section \<open>The programs\<close>

datatype signal_result = Signal_Aborted | Signal_Error string | Signal_Received nat

definition signal_handler :: "signal_result \<Rightarrow> app \<Rightarrow> app" where
  "signal_handler result app =
     (case result of
        Signal_Aborted \<Rightarrow> app
      | Signal_Error msg \<Rightarrow>
          doTerminate 150 (app\<lparr>a_err := a_err app @ ''ERROR: Unexpected error in signal handling: '' @ msg @ [NL]\<rparr>)
      | Signal_Received n \<Rightarrow>
          doTerminate 100 (app\<lparr>a_err := a_err app @ ''Terminated with signal '' @ to_string n @ [NL]\<rparr>))"

text \<open>
  The exit status. \<^verbatim>\<open>io.run()\<close>, which runs handlers until the application stops it, is an
  argument.
\<close>

definition app_main ::
  "app_env \<Rightarrow> 32 word \<Rightarrow> (app \<Rightarrow> app option) \<Rightarrow> app_kind \<Rightarrow> string \<Rightarrow> string list \<Rightarrow> int" where
  "app_main env elapsed io_run kind program argv =
     (case AppClient_start env elapsed program argv (app_init env kind) of
        None \<Rightarrow> 200
      | Some (ok, app) \<Rightarrow>
          if \<not> ok then -1
          else (case io_run app of None \<Rightarrow> 200 | Some app1 \<Rightarrow> a_result app1))"

text \<open>The subscriber has a copy of it with its own application.\<close>

definition sub_main ::
  "app_env \<Rightarrow> 32 word \<Rightarrow> (app \<Rightarrow> app option) \<Rightarrow> string \<Rightarrow> string list \<Rightarrow> int" where
  "sub_main env elapsed io_run program argv =
     (case AppClient_start env elapsed program argv (app_init env App_Sub) of
        None \<Rightarrow> 200
      | Some (True, app) \<Rightarrow> (case io_run app of None \<Rightarrow> 200 | Some app1 \<Rightarrow> a_result app1)
      | Some (False, app) \<Rightarrow> -1)"

lemma sub_main_same: "sub_main env elapsed io_run program argv = app_main env elapsed io_run App_Sub program argv"
  by (auto simp: sub_main_def app_main_def split: option.split bool.split)

section \<open>Options are never missing\<close>

text \<open>A step that does not leave by an exception and does not touch the options.\<close>

definition returns :: "(app \<Rightarrow> (bool \<times> app) option) \<Rightarrow> variables \<Rightarrow> bool" where
  "returns step vm \<longleftrightarrow> (\<forall>app. a_vm app = vm \<longrightarrow> (\<exists>r. step app = Some r \<and> a_vm (snd r) = vm))"

lemma returns_checked: "returns (checked msg call) vm"
  by (auto simp: returns_def checked_def on_client_def logError_def split_beta Let_def)

lemma returns_in_order: "(\<And>step. step \<in> set steps \<Longrightarrow> returns step vm) \<Longrightarrow> returns (in_order steps) vm"
proof (induction steps)
  case Nil
  then show ?case by (simp add: returns_def)
next
  case (Cons step steps)
  have s: "returns step vm" "returns (in_order steps) vm" using Cons by simp_all
  show ?case
    unfolding returns_def
  proof (intro allI impI)
    fix app :: app
    assume "a_vm app = vm"
    then obtain r where "step app = Some r" "a_vm (snd r) = vm" using s(1) unfolding returns_def by blast
    then show "\<exists>r. in_order (step # steps) app = Some r \<and> a_vm (snd r) = vm"
      using s(2) unfolding returns_def by (cases "fst r") (auto simp: split_beta)
  qed
qed

lemma returns_user_props: "returns (add_user_props env msg mk i props) vm"
  unfolding add_user_props_def by (rule returns_in_order) (auto simp: returns_checked)

lemma returns_reading:
  "\<exists>x. get vm = Some x \<Longrightarrow> (\<And>x. returns (step x) vm) \<Longrightarrow> returns (reading get step) vm"
  unfolding returns_def reading_def by fastforce

lemma returns_if: "returns s vm \<Longrightarrow> returns t vm \<Longrightarrow> returns (if p then s else t) vm"
  by simp

lemma returns_none: "returns (in_order []) vm"
  by (simp add: returns_def)

lemmas returns_steps = returns_checked returns_user_props returns_none returns_if returns_reading

lemma returns_prepared:
  assumes "\<And>i step. step \<in> set (steps i) \<Longrightarrow> returns step vm"
  shows "returns (with_prepared env elapsed p msg steps) vm"
  unfolding returns_def
proof (intro allI impI)
  fix app :: app
  assume v: "a_vm app = vm"
  obtain r app1 where c: "on_client (prepare (env_build env) elapsed p) app = (r, app1)" by fastforce
  then have v1: "a_vm app1 = vm" using v by (auto simp: on_client_def split_beta Let_def)
  have i: "returns (in_order (steps i)) vm" for i using assms by (intro returns_in_order) blast
  show "\<exists>r. with_prepared env elapsed p msg steps app = Some r \<and> a_vm (snd r) = vm"
  proof (cases r)
    case (Inl ec)
    then show ?thesis using c v1 by (simp add: with_prepared_def logError_def)
  next
    case (Inr j)
    then show ?thesis using c v1 i [of j] by (simp add: with_prepared_def returns_def)
  qed
qed

lemma connect_configs:
  assumes "stored_for (addConnect []) vm"
  shows "\<exists>x. startImpl_basic vm = Some x" "\<exists>x. startImpl_will vm topic = Some x" "\<exists>x. startImpl_extra c vm = Some x"
  using connect_getters [OF assms]
  by (clarsimp simp: startImpl_basic_def startImpl_will_def startImpl_extra_def Let_def)+

lemma publish_configs:
  assumes "stored_for (addPublish []) vm"
  shows "\<exists>x. pub_basic vm = Some x" "\<exists>x. pub_extra vm contentType responseTopic corr = Some x"
  using publish_getters [OF assms] by (clarsimp simp: pub_basic_def pub_extra_def Let_def)+

lemma start_will_returns:
  assumes "stored_for (addConnect []) vm"
  shows "returns (start_will env i) vm"
proof -
  note g = connect_getters [OF assms] connect_configs [OF assms]
  have "returns (reading willUserProps (\<lambda>props. add_user_props env msg Connect_WillUserProp i (parseUserProps props))) vm"
    for msg
    by (intro returns_steps g)
  then have "returns (in_order [checked msg1 call, reading willUserProps (\<lambda>props.
      add_user_props env msg2 Connect_WillUserProp i (parseUserProps props))]) vm" for msg1 msg2 call
    by (intro returns_in_order) (auto simp: returns_checked)
  then show ?thesis unfolding start_will_def by (intro returns_steps g)
qed

lemma startImpl_returns:
  assumes "stored_for (addConnect []) vm"
  shows "returns (startImpl env elapsed) vm"
proof -
  note g = connect_getters [OF assms] connect_configs [OF assms]
  have "returns (reading startImpl_basic (\<lambda>cfg. checked msg (configure b (Connect_Basic cfg) i))) vm"
    "returns (reading (startImpl_extra c) (\<lambda>cfg. checked msg (configure b (Connect_Extra cfg) i))) vm"
    "returns (reading connectUserProps (\<lambda>props. add_user_props env msg Connect_UserProp i (parseUserProps props))) vm"
    for msg b c i
    by (intro returns_steps g)+
  then show ?thesis
    unfolding startImpl_def sendConnect_def
    by (intro returns_prepared) (auto simp: returns_checked start_will_returns [OF assms])
qed

lemma returns_run: "returns step vm \<Longrightarrow> a_vm app = vm \<Longrightarrow> \<exists>r. step app = Some r"
  unfolding returns_def by blast

lemma pub_publish_returns:
  assumes "stored_for (addPublish []) vm"
  shows "returns (pub_publish env elapsed basic contentType responseTopic corr) vm"
proof -
  note g = publish_getters [OF assms] publish_configs [OF assms]
  have "returns (reading (\<lambda>vm. pub_extra vm t r c) (\<lambda>extra. checked msg (configure b (Publish_Extra extra) i))) vm"
    "returns (reading pubUserProps (\<lambda>props. add_user_props env msg Publish_UserProp i (parseUserProps props))) vm"
    for msg b i t r c
    by (intro returns_steps g)+
  then show ?thesis unfolding pub_publish_def by (intro returns_prepared) (auto simp: returns_checked)
qed

lemma sub_subscribe_returns:
  assumes "stored_for (addSubscribe []) vm"
  shows "returns (sub_subscribe env elapsed topics qoses noRetained) vm"
proof -
  note g = subscribe_getters [OF assms]
  have "returns (reading subId (\<lambda>n. if 0 < n then checked msg (configure b (Subscribe_SubId n) i) else in_order [])) vm"
    "returns (reading subUserProps (\<lambda>props. add_user_props env msg Subscribe_UserProp i (parseUserProps props))) vm"
    for msg b i
    by (intro returns_steps g)+
  then show ?thesis unfolding sub_subscribe_def by (intro returns_prepared) (auto simp: returns_checked)
qed

lemma send_disconnect_returns: "returns (send_disconnect env elapsed cfg) vm"
  unfolding send_disconnect_def by (intro returns_prepared) (auto simp: returns_checked)

lemma brokerConnected_returns:
  "stored_for (addPublish []) (a_vm app) \<Longrightarrow> \<exists>app1. Pub_brokerConnectedImpl env elapsed app = Some app1"
  "stored_for (addSubscribe []) (a_vm app) \<Longrightarrow> \<exists>app1. Sub_brokerConnectedImpl env elapsed app = Some app1"
proof -
  assume st: "stored_for (addPublish []) (a_vm app)"
  note g = publish_getters [OF st] publish_configs(1) [OF st]
  from returns_run [OF pub_publish_returns [OF st] refl]
  show "\<exists>app1. Pub_brokerConnectedImpl env elapsed app = Some app1"
    unfolding Pub_brokerConnectedImpl_def using g(5-7,11) by (elim exE) (simp add: bind_eq_Some_conv)
next
  assume st: "stored_for (addSubscribe []) (a_vm app)"
  note g = subscribe_getters [OF st]
  from returns_run [OF sub_subscribe_returns [OF st] refl]
  show "\<exists>app1. Sub_brokerConnectedImpl env elapsed app = Some app1"
    unfolding Sub_brokerConnectedImpl_def using g(1,2) by (elim exE) (simp add: bind_eq_Some_conv)
qed

lemma doComplete_returns:
  assumes "stored_for (addConnect []) (a_vm app)"
  shows "\<exists>app1. doComplete env elapsed app = Some app1"
proof -
  obtain topic where t: "willTopic (a_vm app) = Some topic" using connect_getters [OF assms] by blast
  from returns_run [OF send_disconnect_returns refl] show ?thesis
    unfolding doComplete_def t by (simp add: bind_eq_Some_conv)
qed

lemma stored_for_app:
  assumes "stored_for (app_options openssl kind) vm"
  shows "stored_for (addNetwork DefaultPort (addTls openssl [])) vm" "stored_for (addConnect []) vm"
    "kind = App_Pub \<Longrightarrow> stored_for (addPublish []) vm" "kind = App_Sub \<Longrightarrow> stored_for (addSubscribe []) vm"
proof -
  let ?desc = "addConnect (addTls openssl (addNetwork DefaultPort (addCommon [])))"
  have d: "stored_for ?desc vm"
    using assms stored_for_parts(3) [of ?desc] stored_for_parts(4) [of ?desc] by (cases kind) simp_all
  show "stored_for (addConnect []) vm" using d stored_for_parts(1) by blast
  have "stored_for (addTls openssl (addNetwork DefaultPort (addCommon []))) vm" using d stored_for_parts(1) by blast
  then show "stored_for (addNetwork DefaultPort (addTls openssl [])) vm" using stored_for_parts(5,6) by blast
  show "kind = App_Pub \<Longrightarrow> stored_for (addPublish []) vm" "kind = App_Sub \<Longrightarrow> stored_for (addSubscribe []) vm"
    using assms stored_for_parts(3) [of ?desc] stored_for_parts(4) [of ?desc] by simp_all
qed

lemma createSession_returns:
  assumes "stored_for (app_options (env_openssl env) kind) vm"
  shows "returns (createSession env) vm"
  unfolding returns_def
proof (intro allI impI)
  fix app :: app
  assume v: "a_vm app = vm"
  show "\<exists>r. createSession env app = Some r \<and> a_vm (snd r) = vm"
  proof (cases "Session_create (env_openssl env) vm")
    case None
    then show ?thesis using v by (simp add: createSession_def logError_def)
  next
    case (Some se)
    then have "se_type se = connectionType (env_openssl env) vm"
      by (auto simp: Session_create_def Session_init_def split: connection_type.splits if_splits)
    then obtain ok se1 where "Session_start (env_network env) vm se = Some (ok, se1)"
      using Session_start_returns [OF stored_for_app(1) [OF assms]] by blast
    then show ?thesis using v Some by (simp add: createSession_def logError_def Let_def)
  qed
qed

section \<open>Properties\<close>

text \<open>
  C21: The options are typed: with the descriptions that \<^verbatim>\<open>Pub\<close> and \<^verbatim>\<open>Sub\<close> put together, and
  values that fit them, no getter throws: starting, what is done when the broker has accepted
  the connection, and disconnecting in order all return, whatever the library and the network
  answer.
\<close>

theorem options_never_missing:
  assumes "env_parse env (app_options (env_openssl env) kind) argv = Some vm"
    and "stored_for (app_options (env_openssl env) kind) vm"
  shows "(\<exists>ok app. AppClient_start env elapsed program argv (app_init env kind) = Some (ok, app)) \<and>
         (\<forall>app. a_vm app = vm \<longrightarrow>
            (\<exists>app1. brokerConnectedImpl env elapsed kind app = Some app1) \<and>
            (\<exists>app1. doComplete env elapsed app = Some app1))"
proof (intro conjI allI impI)
  note st = stored_for_app [OF assms(2)]
  have "returns (in_order [createSession env, startImpl env elapsed]) vm"
    by (intro returns_in_order) (auto simp: createSession_returns [OF assms(2)] startImpl_returns [OF st(2)])
  from returns_run [OF this, of "(app_init env kind)\<lparr>a_vm := vm\<rparr>"]
  show "\<exists>ok app. AppClient_start env elapsed program argv (app_init env kind) = Some (ok, app)"
    using assms(1) unfolding AppClient_start_def by (auto simp: app_init_def Let_def)
  fix app :: app
  assume v: "a_vm app = vm"
  show "\<exists>app1. brokerConnectedImpl env elapsed kind app = Some app1"
    using brokerConnected_returns [of app env elapsed] st(3,4) v by (cases kind) simp_all
  show "\<exists>app1. doComplete env elapsed app = Some app1" using doComplete_returns [of app] st(2) v by simp
qed

text \<open>A publisher started without arguments.\<close>

definition sample_env :: app_env where
  "sample_env =
     \<lparr>env_build = sample_build, env_openssl = True, env_parse = (\<lambda>desc argv. Some (default_values desc)),
      env_help = (\<lambda>_. []),
      env_network = \<lparr>net_resolve = (\<lambda>_ _. True), net_connect = True, net_handshake = True,
        ssl_load_verify_file = (\<lambda>_. True), ssl_set_verify_mode = (\<lambda>_. True), ssl_set_password_callback = True,
        ssl_use_private_key_file = (\<lambda>_. True), ssl_use_certificate_file = (\<lambda>_. True)\<rparr>\<rparr>"

theorem options_never_missing_witness:
  "\<exists>ok app. AppClient_start sample_env 0 ''pub'' [] (app_init sample_env App_Pub) = Some (ok, app)"
proof -
  have p: "env_parse sample_env (app_options (env_openssl sample_env) App_Pub) [] =
      Some (default_values (app_options (env_openssl sample_env) App_Pub))"
    by (simp add: sample_env_def)
  have "stored_for (app_options True App_Pub) (default_values (app_options True App_Pub))" by code_simp
  then have "stored_for (app_options (env_openssl sample_env) App_Pub) (default_values (app_options (env_openssl sample_env) App_Pub))"
    by (simp add: sample_env_def)
  from options_never_missing [OF p this] show ?thesis by blast
qed

end
