(* ===== verification/Fuzz_Generator.thy ===== *)
theory Fuzz_Generator
  imports Client_State Topic_Names App_Options
begin

text \<open>
  The broker that answers the client while fuzzing input is recorded
  (\<^verbatim>\<open>client/afl_fuzz/Generator.cpp\<close> and \<^verbatim>\<open>Generator.h\<close>), and the options of the fuzzer
  (\<^verbatim>\<open>client/afl_fuzz/ProgramOptions.cpp\<close>). It gets the messages of the client and makes up those of
  the broker; writing them into frames is the generated library's, so that a sent message is
  the value of \<open>in_msg\<close> that the client will read. A failed assertion is \<^term>\<open>None\<close>.
\<close>

section \<open>Topics for filters\<close>

abbreviation (input) wildcard :: "char \<Rightarrow> bool" where
  "wildcard c \<equiv> c = CHR ''#'' \<or> c = CHR ''+''"

text \<open>The rest of the filter from \<^verbatim>\<open>pos\<close> on.\<close>

function pubTopicFromFilter :: "cstr \<Rightarrow> cstr" where
  "pubTopicFromFilter flt =
     (let plain = takeWhile (\<lambda>c. \<not> wildcard c) flt in
      case drop (length plain) flt of
        [] \<Rightarrow> plain
      | w # after \<Rightarrow> if w = CHR ''#'' then plain @ ''hash'' else plain @ ''plus'' @ pubTopicFromFilter after)"
  by pat_completeness auto
termination
proof (relation "measure length")
  fix flt plain w after
  assume "drop (length plain) flt = w # after"
  then have "length (w # after) \<le> length flt" by (metis length_drop diff_le_self)
  then show "(after, flt) \<in> measure length" by simp
qed simp

declare pubTopicFromFilter.simps [simp del]

section \<open>State\<close>

record generator =
  g_minPubCount :: "32 word"
  g_cachedConnect :: "connect_msg option"
  g_lastPacketId :: "32 word"
  g_topicAliasLimit :: nat
  g_topicAliases :: "(cstr \<times> nat) list"
  g_nextPubQos :: nat
  g_lastPubTopic :: cstr
  g_pubCount :: "32 word"
  g_connected :: bool
  g_sent :: "in_msg list"

definition generator_init :: "32 word \<Rightarrow> generator" where
  "generator_init minPubCount =
     \<lparr>g_minPubCount = minPubCount, g_cachedConnect = None, g_lastPacketId = 0, g_topicAliasLimit = 0,
      g_topicAliases = [], g_nextPubQos = 0, g_lastPubTopic = [], g_pubCount = 0, g_connected = False,
      g_sent = []\<rparr>"

text \<open>What the generator remembers of the properties: of each kind the last.\<close>

record gen_props =
  gp_authMethod :: cstr
  gp_authData :: bytes
  gp_receiveMax :: nat
  gp_topicAliasMax :: nat
  gp_maxPacketSize :: nat

fun gen_prop :: "property \<Rightarrow> gen_props \<Rightarrow> gen_props" where
  "gen_prop (AuthMethod s) h = h\<lparr>gp_authMethod := s\<rparr>"
| "gen_prop (AuthData d) h = h\<lparr>gp_authData := d\<rparr>"
| "gen_prop (ReceiveMax n) h = h\<lparr>gp_receiveMax := n\<rparr>"
| "gen_prop (TopicAliasMax n) h = h\<lparr>gp_topicAliasMax := n\<rparr>"
| "gen_prop (MaxPacketSize n) h = h\<lparr>gp_maxPacketSize := n\<rparr>"
| "gen_prop _ h = h"

definition gen_props_of :: "property list \<Rightarrow> gen_props" where
  "gen_props_of ps =
     fold gen_prop ps
       \<lparr>gp_authMethod = [], gp_authData = [], gp_receiveMax = 0, gp_topicAliasMax = 0, gp_maxPacketSize = 0\<rparr>"

section \<open>Sending\<close>

definition gen_allocPacketId :: "generator \<Rightarrow> 32 word \<times> generator" where
  "gen_allocPacketId g = (g_lastPacketId g + 1, g\<lparr>g_lastPacketId := g_lastPacketId g + 1\<rparr>)"

definition gen_allocTopicAlias :: "cstr \<Rightarrow> generator \<Rightarrow> nat \<times> generator" where
  "gen_allocTopicAlias topic g =
     (if length (g_topicAliases g) \<le> g_topicAliasLimit g then (0, g)
      else
        case map_of (g_topicAliases g) topic of
          Some a \<Rightarrow> (a, g)
        | None \<Rightarrow>
            let a = length (g_topicAliases g) + 1 in
            (a, g\<lparr>g_topicAliases := (topic, a) # g_topicAliases g\<rparr>))"

definition gen_sendMessage :: "in_msg \<Rightarrow> generator \<Rightarrow> generator" where
  "gen_sendMessage msg g = g\<lparr>g_sent := g_sent g @ [msg]\<rparr>"

text \<open>The acknowledgements as they are constructed, with their packet identifier only.\<close>

definition plain_ack :: "16 word \<Rightarrow> ack_msg" where
  "plain_ack packetId = \<lparr>am_packetId = packetId, am_reasonCode = None, am_props = None, am_valid = True\<rparr>"

definition gen_sendConnack :: "connect_msg \<Rightarrow> gen_props \<Rightarrow> generator \<Rightarrow> generator" where
  "gen_sendConnack msg h g =
     (let ps =
        (if cm_clientId msg = [] then [AssignedClientId ''some_client_id''] else []) @
        (if 0 < gp_receiveMax h then [ReceiveMax (gp_receiveMax h)] else []) @
        (if 0 < gp_maxPacketSize h then [MaxPacketSize (gp_maxPacketSize h)] else []) @
        (if 0 < gp_topicAliasMax h then [TopicAliasMax (gp_topicAliasMax h)] else []) @
        (if gp_authMethod h \<noteq> [] then [AuthMethod (gp_authMethod h)] else []);
          g1 = (if 0 < gp_topicAliasMax h then g\<lparr>g_topicAliasLimit := gp_topicAliasMax h\<rparr> else g)
      in (gen_sendMessage (Connack_In \<lparr>ca_reasonCode = RC_Success, ca_sessionPresent = False, ca_props = ps\<rparr>) g1)
           \<lparr>g_connected := True\<rparr>)"

text \<open>The packet identifier field takes the lower 16 bits; \<^verbatim>\<open>refresh\<close> leaves it out for QoS 0.\<close>

definition gen_sendPublish :: "cstr \<Rightarrow> nat \<Rightarrow> generator \<Rightarrow> generator" where
  "gen_sendPublish topic qos g =
     (let (packetId, g1) = (if 0 < qos then gen_allocPacketId g else (0, g));
          (topicAlias, g2) = gen_allocTopicAlias topic g1;
          g3 = gen_sendMessage
            (Publish_In
              \<lparr>pm_dup = False, pm_qos = qos, pm_retain = False, pm_topic = topic, pm_packetId = ucast packetId,
               pm_packetIdExists = (0 < qos), pm_props = (if topicAlias \<noteq> 0 then [TopicAlias topicAlias] else []),
               pm_payload = map (\<lambda>c. of_nat (of_char c)) topic\<rparr>) g2
      in g3\<lparr>g_pubCount := g_pubCount g3 + 1\<rparr>)"

definition gen_sendAuth :: "gen_props \<Rightarrow> reason_code \<Rightarrow> generator \<Rightarrow> generator" where
  "gen_sendAuth h rc g =
     (let data = (if odd (length (gp_authData h)) then gp_authData h @ [49] else gp_authData h);
          ps = (if gp_authMethod h \<noteq> [] then [AuthMethod (gp_authMethod h)] else []) @
               (if gp_authData h \<noteq> [] then [AuthData data] else [])
      in gen_sendMessage
           (Auth_In (if rc = RC_Success then \<lparr>au_reasonCode = None, au_props = None, au_valid = True\<rparr>
                     else \<lparr>au_reasonCode = Some rc, au_props = Some ps, au_valid = True\<rparr>)) g)"

text \<open>A topic must be known from an earlier subscription.\<close>

definition gen_doPublish :: "generator \<Rightarrow> generator option" where
  "gen_doPublish g =
     (if g_lastPubTopic g = [] then None
      else
        let g1 = gen_sendPublish (g_lastPubTopic g) (g_nextPubQos g) g in
        Some (g1\<lparr>g_nextPubQos := (if 2 < g_nextPubQos g1 + 1 then 0 else g_nextPubQos g1 + 1)\<rparr>))"

definition gen_doNextPublishIfNeeded :: "generator \<Rightarrow> generator option" where
  "gen_doNextPublishIfNeeded g = (if g_pubCount g < g_minPubCount g then gen_doPublish g else Some g)"

section \<open>Answering\<close>

definition gen_Connect :: "connect_msg \<Rightarrow> generator \<Rightarrow> generator" where
  "gen_Connect msg g =
     (let g1 = g\<lparr>g_connected := False\<rparr>; h = gen_props_of (cm_props msg) in
      if gp_authMethod h \<noteq> [] then gen_sendAuth h RC_ContinueAuth (g1\<lparr>g_cachedConnect := Some msg\<rparr>)
      else gen_sendConnack msg h g1)"

definition gen_Publish :: "publish_msg \<Rightarrow> generator \<Rightarrow> generator option" where
  "gen_Publish msg g =
     (if pm_qos msg = AtMostOnce then gen_doNextPublishIfNeeded g
      else if pm_qos msg = AtLeastOnce
      then gen_doNextPublishIfNeeded (gen_sendMessage (Puback_In (plain_ack (pm_packetId msg))) g)
      else if pm_qos msg = ExactlyOnce then Some (gen_sendMessage (Pubrec_In (plain_ack (pm_packetId msg))) g)
      else None)"

text \<open>One publish for each filter, on a topic made from it.\<close>

fun gen_publish_all :: "sub_element list \<Rightarrow> generator \<Rightarrow> generator option" where
  "gen_publish_all [] g = Some g"
| "gen_publish_all (el # els) g =
     (case gen_doPublish (g\<lparr>g_lastPubTopic := pubTopicFromFilter (sub_element.se_topic el)\<rparr>) of
        None \<Rightarrow> None
      | Some g1 \<Rightarrow> gen_publish_all els g1)"

definition gen_Subscribe :: "subscribe_msg \<Rightarrow> generator \<Rightarrow> generator option" where
  "gen_Subscribe msg g =
     gen_publish_all (sm_list msg)
       (gen_sendMessage (Suback_In \<lparr>sa_packetId = sm_packetId msg, sa_props = [],
          sa_list = replicate (length (sm_list msg)) 2\<rparr>) g)"

definition gen_Unsubscribe :: "unsubscribe_msg \<Rightarrow> generator \<Rightarrow> generator" where
  "gen_Unsubscribe msg g =
     gen_sendMessage (Unsuback_In \<lparr>sa_packetId = um_packetId msg, sa_props = [],
       sa_list = replicate (length (um_list msg)) RC_Success\<rparr>) g"

definition gen_Auth :: "reason_code \<Rightarrow> property list \<Rightarrow> generator \<Rightarrow> generator option" where
  "gen_Auth rc ps g =
     (if \<not> g_connected g then
        (case g_cachedConnect g of
           None \<Rightarrow> None
         | Some msg \<Rightarrow> Some ((gen_sendConnack msg (gen_props_of (cm_props msg)) g)\<lparr>g_cachedConnect := None\<rparr>))
      else if rc = RC_ReAuth then Some (gen_sendAuth (gen_props_of ps) RC_ContinueAuth g)
      else if rc \<noteq> RC_ContinueAuth then None
      else Some (gen_sendAuth (gen_props_of ps) RC_Success g))"

text \<open>The dispatch by the type of the message; the last case is the handler of all others.\<close>

fun gen_handle :: "out_msg \<Rightarrow> generator \<Rightarrow> generator option" where
  "gen_handle (Connect_Out msg) g = Some (gen_Connect msg g)"
| "gen_handle (Publish_Out msg) g = gen_Publish msg g"
| "gen_handle (Pubrec_Out packetId rc) g = Some (gen_sendMessage (Pubrel_In (plain_ack packetId)) g)"
| "gen_handle (Pubrel_Out packetId rc) g =
     gen_doNextPublishIfNeeded (gen_sendMessage (Pubcomp_In (plain_ack packetId)) g)"
| "gen_handle (Subscribe_Out msg) g = gen_Subscribe msg g"
| "gen_handle (Unsubscribe_Out msg) g = Some (gen_Unsubscribe msg g)"
| "gen_handle (Auth_Out rc ps) g = gen_Auth rc ps g"
| "gen_handle _ g = Some g"

text \<open>A session of the client, up to the first failed assertion.\<close>

fun gen_run :: "out_msg list \<Rightarrow> generator \<Rightarrow> generator option" where
  "gen_run [] g = Some g"
| "gen_run (msg # msgs) g = (case gen_handle msg g of None \<Rightarrow> None | Some g1 \<Rightarrow> gen_run msgs g1)"

section \<open>Options of the fuzzer\<close>

definition afl_options :: opt_desc where
  "afl_options =
     [(''help'', Some CHR ''h'', Flag),
      (''verbose'', Some CHR ''v'', Flag),
      (''log-file'', Some CHR ''f'', Valued T_String None),
      (''gen-input'', Some CHR ''g'', Valued T_String (Some (Opt_String []))),
      (''client-id'', Some CHR ''i'', Valued T_String (Some (Opt_String ''afl_client''))),
      (''receive-max'', None, Valued T_Unsigned (Some (Opt_Unsigned 0))),
      (''max-packet-size'', None, Valued T_Unsigned (Some (Opt_Unsigned 0))),
      (''topic-alias-max'', None, Valued T_Unsigned (Some (Opt_Unsigned 0))),
      (''req-response-info'', None, Flag),
      (''req-problem-info'', None, Flag),
      (''auth-method'', None, Valued T_String (Some (Opt_String []))),
      (''sub-topic'', Some CHR ''t'', Valued T_Strings None),
      (''min-pub-count'', None, Valued T_Unsigned (Some (Opt_Unsigned 3)))]"

definition afl_hasLogFile :: "variables \<Rightarrow> bool" where
  "afl_hasLogFile vm \<longleftrightarrow> given_opt vm ''log-file''"

definition afl_logFile :: "variables \<Rightarrow> string option" where
  "afl_logFile vm = as_string vm ''log-file''"

definition afl_genInputFile :: "variables \<Rightarrow> string option" where
  "afl_genInputFile vm = as_string vm ''gen-input''"

definition afl_clientId :: "variables \<Rightarrow> string option" where
  "afl_clientId vm = as_string vm ''client-id''"

definition afl_receiveMax :: "variables \<Rightarrow> nat option" where
  "afl_receiveMax vm = as_unsigned vm ''receive-max''"

definition afl_maxPacketSize :: "variables \<Rightarrow> nat option" where
  "afl_maxPacketSize vm = as_unsigned vm ''max-packet-size''"

definition afl_topicAliasMax :: "variables \<Rightarrow> nat option" where
  "afl_topicAliasMax vm = as_unsigned vm ''topic-alias-max''"

definition afl_authMethod :: "variables \<Rightarrow> string option" where
  "afl_authMethod vm = as_string vm ''auth-method''"

definition afl_minPubCount :: "variables \<Rightarrow> nat option" where
  "afl_minPubCount vm = as_unsigned vm ''min-pub-count''"

definition afl_helpRequested :: "variables \<Rightarrow> bool" where
  "afl_helpRequested vm \<longleftrightarrow> given_opt vm ''help''"

definition afl_verbose :: "variables \<Rightarrow> bool" where
  "afl_verbose vm \<longleftrightarrow> given_opt vm ''verbose''"

definition afl_reqResponseInfo :: "variables \<Rightarrow> bool" where
  "afl_reqResponseInfo vm \<longleftrightarrow> given_opt vm ''req-response-info''"

definition afl_reqProblemInfo :: "variables \<Rightarrow> bool" where
  "afl_reqProblemInfo vm \<longleftrightarrow> given_opt vm ''req-problem-info''"

text \<open>One occurrence of \<^verbatim>\<open>sub-topic\<close>: the filters between the commas.\<close>

function split_topics :: "string \<Rightarrow> string list" where
  "split_topics str =
     (if str = [] then []
      else
        let topic = takeWhile (\<lambda>c. c \<noteq> CHR '','') str in
        if length topic = length str then [topic] else topic # split_topics (drop (length topic + 1) str))"
  by pat_completeness auto
termination by (relation "measure length") auto

declare split_topics.simps [simp del]

definition afl_subTopics :: "variables \<Rightarrow> string list list option" where
  "afl_subTopics vm =
     map_option (\<lambda>values. map split_topics (if values = [] then [''#''] else values)) (stringListOpts vm ''sub-topic'')"

section \<open>The logger and the program\<close>

text \<open>Where the log goes; the argument tells which files can be opened.\<close>

datatype log_output = Log_Stdout | Log_File string

definition Logger_open :: "(string \<Rightarrow> bool) \<Rightarrow> variables \<Rightarrow> log_output \<Rightarrow> (bool \<times> log_output) option" where
  "Logger_open opens vm out =
     (if afl_hasLogFile vm
      then
        (case afl_logFile vm of
           None \<Rightarrow> None
         | Some name \<Rightarrow> if opens name then Some (True, Log_File name) else Some (False, out))
      else Some (True, out))"

text \<open>The exit status, and the output when the harness is run; whether it can be set up is an argument.\<close>

definition afl_main :: "(string \<Rightarrow> bool) \<Rightarrow> bool \<Rightarrow> variables \<Rightarrow> (int \<times> log_output option) option" where
  "afl_main opens fuzz_init vm =
     (if afl_helpRequested vm then Some (-1, None)
      else
        (case Logger_open opens vm Log_Stdout of
           None \<Rightarrow> None
         | Some (ok, out) \<Rightarrow>
             if \<not> ok then Some (-1, None) else if \<not> fuzz_init then Some (-1, None) else Some (0, Some out)))"

text \<open>A stored log file name is all that the start needs: the program never throws there.\<close>

lemma afl_main_returns:
  assumes "stored_for afl_options vm"
  shows "afl_main opens fuzz_init vm \<noteq> None"
proof -
  have "fits vm (''log-file'', Some CHR ''f'', Valued T_String None)"
    using assms by (simp add: stored_for_def afl_options_def)
  then have "given_opt vm ''log-file'' \<Longrightarrow> as_string vm ''log-file'' \<noteq> None"
    by (auto simp: given_opt_def as_string_def split: option.splits opt_value.splits)
  then show ?thesis
    by (auto simp: afl_main_def Logger_open_def afl_hasLogFile_def afl_logFile_def split: option.split)
qed

section \<open>The topic made from a filter\<close>

lemma pubTopic_Cons:
  "pubTopicFromFilter (c # cs) =
     (if c = CHR ''#'' then ''hash'' else if c = CHR ''+'' then ''plus'' @ pubTopicFromFilter cs
      else c # pubTopicFromFilter cs)"
  by (subst (1 3) pubTopicFromFilter.simps) (simp add: Let_def split: list.split)

lemma pubTopic_Nil: "pubTopicFromFilter [] = []"
  by (simp add: pubTopicFromFilter.simps)

lemma pubTopic_plain:
  "CHR ''#'' \<notin> set l \<Longrightarrow> CHR ''+'' \<notin> set l \<Longrightarrow> pubTopicFromFilter (l @ r) = l @ pubTopicFromFilter r"
  by (induction l) (auto simp: pubTopic_Cons)

lemma pubTopic_no_wildcards: "CHR ''#'' \<notin> set (pubTopicFromFilter f) \<and> CHR ''+'' \<notin> set (pubTopicFromFilter f)"
  by (induction f) (auto simp: pubTopic_Nil pubTopic_Cons)

lemma pubTopic_empty: "pubTopicFromFilter f = [] \<longleftrightarrow> f = []"
  by (cases f) (auto simp: pubTopic_Nil pubTopic_Cons)

definition topic_level :: "cstr \<Rightarrow> cstr" where
  "topic_level l = (if l = ''+'' then ''plus'' else if l = ''#'' then ''hash'' else l)"

lemma pubTopic_level: "level_ok w l \<Longrightarrow> pubTopicFromFilter (l @ r) = topic_level l @ pubTopicFromFilter r"
  using pubTopic_plain [of l r]
  by (cases "CHR ''+'' \<in> set l") (auto simp: level_ok_def topic_level_def pubTopic_Cons)

lemma topic_level_no_sep: "CHR ''/'' \<notin> set l \<Longrightarrow> CHR ''/'' \<notin> set (topic_level l)"
  by (simp add: topic_level_def)

lemma find_sep_absent: "find_sep s = None \<longleftrightarrow> CHR ''/'' \<notin> set s"
  by (auto simp: find_sep_def Let_def find_idx_less_iff)

lemma find_sep_append: "CHR ''/'' \<notin> set l \<Longrightarrow> find_sep (l @ CHR ''/'' # r) = Some (length l)"
  by (induction l) (auto simp: find_sep_def find_idx_def Let_def split: if_splits)

text \<open>The topic of a filter, split at its first separator.\<close>

lemma pubTopic_split:
  assumes "find_sep f = Some i" and "filter_levels_ok w (levels f)"
  shows "pubTopicFromFilter f = topic_level (take i f) @ CHR ''/'' # pubTopicFromFilter (drop (i + 1) f)"
    and "level_ok w (take i f)" and "filter_levels_ok w (levels (drop (i + 1) f))"
    and "find_sep (pubTopicFromFilter f) = Some (length (topic_level (take i f)))"
proof -
  let ?l = "take i f" and ?r = "drop (i + 1) f"
  note s = find_sep_Some [OF assms(1)]
  show ok: "level_ok w ?l" "filter_levels_ok w (levels ?r)"
    using assms(2) unfolding s(1) by (simp_all add: filter_levels_ok_Cons)
  show t: "pubTopicFromFilter f = topic_level ?l @ CHR ''/'' # pubTopicFromFilter ?r"
    using pubTopic_level [OF ok(1), of "CHR ''/'' # ?r"] s(3) by (simp add: pubTopic_Cons)
  show "find_sep (pubTopicFromFilter f) = Some (length (topic_level ?l))"
    unfolding t using topic_level_no_sep [OF s(4)] by (simp add: find_sep_append)
qed

lemma pubTopic_one_level:
  assumes "find_sep f = None" and "filter_levels_ok w (levels f)"
  shows "pubTopicFromFilter f = topic_level f" and "f = ''#'' \<or> level_ok w f"
proof -
  note l = find_sep_None [OF assms(1)]
  show h: "f = ''#'' \<or> level_ok w f" using assms(2) by (auto simp: l)
  then show "pubTopicFromFilter f = topic_level f"
    using pubTopic_level [of w f "[]"] by (auto simp: pubTopic_Nil pubTopic_Cons topic_level_def)
qed

lemma pubTopic_levels:
  "filter_levels_ok w (levels f) \<Longrightarrow> levels (pubTopicFromFilter f) = map topic_level (levels f)"
proof (induction "length f" arbitrary: f rule: less_induct)
  case less
  show ?case
  proof (cases "find_sep f")
    case None
    note l = find_sep_None [OF None]
    have n: "CHR ''/'' \<notin> set f" using None by (auto simp: find_sep_def Let_def find_idx_less_iff split: if_splits)
    then show ?thesis
      using l pubTopic_one_level(1) [OF None less.prems] levels_no_sep [OF topic_level_no_sep [OF n]] by simp
  next
    case (Some i)
    note s = find_sep_Some [OF Some] and t = pubTopic_split [OF Some less.prems]
    have "levels (pubTopicFromFilter (drop (i + 1) f)) = map topic_level (levels (drop (i + 1) f))"
      by (rule less.hyps [OF _ t(3)]) (use s(2) in simp)
    then show ?thesis unfolding t(1) s(1) using levels_append_sep [OF topic_level_no_sep [OF s(4)]] by simp
  qed
qed

lemma topic_level_cases: "level_ok w l \<Longrightarrow> l = ''+'' \<or> topic_level l = l"
proof -
  have "\<not> level_ok w ''#''" by (simp add: level_ok_def)
  then show "level_ok w l \<Longrightarrow> l = ''+'' \<or> topic_level l = l" by (metis topic_level_def)
qed

lemma levels_match_topic: "filter_levels_ok w ls \<Longrightarrow> levels_match ls (map topic_level ls)"
proof (induction ls)
  case (Cons l ls)
  show ?case
  proof (cases "ls = []")
    case True
    then show ?thesis
      using Cons.prems topic_level_cases [of w l] by (cases "l = ''#''") (simp_all, metis)
  next
    case False
    then have "level_ok w l" "filter_levels_ok w ls" using Cons.prems by (simp_all add: filter_levels_ok_Cons)
    then show ?thesis using topic_level_cases [of w l] Cons.IH by (simp, metis)
  qed
qed simp

text \<open>The matcher of the client accepts the topic; a final separator is one of both.\<close>

lemma pubTopic_matched:
  "filter_levels_ok w (levels f) \<Longrightarrow> isTopicMatch f (pubTopicFromFilter f) = Some True"
proof (induction "length f" arbitrary: f rule: less_induct)
  case less
  let ?t = "pubTopicFromFilter f"
  show ?case
  proof (cases "f = ''#'' \<or> f = []")
    case True
    then show ?thesis by (auto simp: isTopicMatch_hash isTopicMatch_ended pubTopic_Nil)
  next
    case nh: False
    then have ne: "f \<noteq> ''#''" "?t \<noteq> []" by (simp_all add: pubTopic_empty)
    show ?thesis
    proof (cases "find_sep f")
      case None
      note t = pubTopic_one_level [OF None less.prems]
      have "find_sep ?t = None"
        using None topic_level_no_sep [of f] unfolding t(1) by (simp add: find_sep_absent)
      then show ?thesis
        using isTopicMatch_one_level [OF ne None] nh t topic_level_cases [of w f] by auto
    next
      case (Some i)
      note s = find_sep_Some [OF Some] and t = pubTopic_split [OF Some less.prems]
      have "isTopicMatch (drop (i + 1) f) (pubTopicFromFilter (drop (i + 1) f)) = Some True"
        by (rule less.hyps [OF _ t(3)]) (use s(2) in simp)
      then show ?thesis
        using isTopicMatch_inner_level [OF ne Some t(4)] topic_level_cases [OF t(2)] by (auto simp: t(1))
    qed
  qed
qed

lemma topic_of_filter:
  assumes "filter_levels_ok w (levels f)"
  shows "levels_match (levels f) (levels (pubTopicFromFilter f))" and "pub_topic_loop (pubTopicFromFilter f)"
    and "isTopicMatch f (pubTopicFromFilter f) = Some True"
proof -
  show m: "levels_match (levels f) (levels (pubTopicFromFilter f))"
    using levels_match_topic [OF assms] pubTopic_levels [OF assms] by simp
  show "pub_topic_loop (pubTopicFromFilter f)" using pubTopic_no_wildcards [of f] by (simp add: pub_topic_loop_iff)
  show "isTopicMatch f (pubTopicFromFilter f) = Some True" by (rule pubTopic_matched [OF assms])
qed

section \<open>Topic aliases\<close>

text \<open>The test at the beginning is never passed, so no alias is ever given to a topic.\<close>

definition no_alias :: "generator \<Rightarrow> bool" where
  "no_alias g \<longleftrightarrow> g_topicAliases g = [] \<and> (\<forall>p. Publish_In p \<in> set (g_sent g) \<longrightarrow> pm_props p = [])"

lemma no_alias_sends:
  assumes "no_alias g"
  shows "no_alias (gen_sendPublish topic qos g)" "no_alias (gen_sendConnack cm h g)" "no_alias (gen_sendAuth h rc g)"
    "(\<forall>p. msg \<noteq> Publish_In p) \<Longrightarrow> no_alias (gen_sendMessage msg g)"
  using assms
  by (auto simp: no_alias_def gen_sendPublish_def gen_sendConnack_def gen_sendAuth_def gen_sendMessage_def
      gen_allocTopicAlias_def gen_allocPacketId_def Let_def)

lemma no_alias_updates [simp]:
  "no_alias (g\<lparr>g_nextPubQos := n\<rparr>) = no_alias g" "no_alias (g\<lparr>g_lastPubTopic := t\<rparr>) = no_alias g"
  "no_alias (g\<lparr>g_cachedConnect := m\<rparr>) = no_alias g" "no_alias (g\<lparr>g_connected := c\<rparr>) = no_alias g"
  by (simp_all add: no_alias_def)

lemma no_alias_publish: "no_alias g \<Longrightarrow> gen_doPublish g = Some g1 \<Longrightarrow> no_alias g1"
  by (auto simp: gen_doPublish_def Let_def no_alias_sends split: if_splits)

lemma no_alias_next: "no_alias g \<Longrightarrow> gen_doNextPublishIfNeeded g = Some g1 \<Longrightarrow> no_alias g1"
  by (auto simp: gen_doNextPublishIfNeeded_def no_alias_publish split: if_splits)

lemma no_alias_publish_all: "no_alias g \<Longrightarrow> gen_publish_all els g = Some g1 \<Longrightarrow> no_alias g1"
proof (induction els g rule: gen_publish_all.induct)
  case (2 el els g)
  from "2.prems" obtain g2 where
    g2: "gen_doPublish (g\<lparr>g_lastPubTopic := pubTopicFromFilter (sub_element.se_topic el)\<rparr>) = Some g2"
    "gen_publish_all els g2 = Some g1" by (auto split: option.splits)
  have "no_alias g2" by (rule no_alias_publish [OF _ g2(1)]) (use "2.prems" in simp)
  from "2.IH" [OF g2(1) this g2(2)] show ?case .
qed simp

lemma no_alias_handle:
  assumes a: "no_alias g" and h: "gen_handle msg g = Some g1"
  shows "no_alias g1"
proof (cases msg)
  case (Connect_Out m)
  then show ?thesis using h no_alias_sends(2,3) a by (auto simp: gen_Connect_def Let_def)
next
  case (Publish_Out m)
  then show ?thesis using h a no_alias_next no_alias_sends(4) [OF a]
    by (fastforce simp: gen_Publish_def split: if_splits)
next
  case (Auth_Out rc ps)
  then show ?thesis using h a no_alias_sends(2,3) by (auto simp: gen_Auth_def split: if_splits option.splits)
next
  case (Subscribe_Out m)
  have "no_alias (gen_sendMessage (Suback_In \<lparr>sa_packetId = sm_packetId m, sa_props = [],
      sa_list = replicate (length (sm_list m)) 2\<rparr>) g)" by (rule no_alias_sends(4) [OF a]) simp
  then show ?thesis using h Subscribe_Out no_alias_publish_all by (simp add: gen_Subscribe_def)
next
  case (Pubrel_Out packetId rc)
  have "no_alias (gen_sendMessage (Pubcomp_In (plain_ack packetId)) g)" by (rule no_alias_sends(4) [OF a]) simp
  then show ?thesis using h Pubrel_Out no_alias_next by simp
qed (use h a no_alias_sends(4) [OF a] in \<open>auto simp: gen_Unsubscribe_def\<close>)

lemma no_alias_run: "no_alias g \<Longrightarrow> gen_run msgs g = Some g1 \<Longrightarrow> no_alias g1"
  by (induction msgs g rule: gen_run.induct) (auto split: option.splits dest: no_alias_handle)

section \<open>Properties\<close>

text \<open>
  C23: The topic that the generator makes from a filter reaches the subscription: for every filter
  with well-formed levels it is a topic without wildcards that the filter matches in the sense
  of MQTT, and that the client's own matcher accepts for it, also when the filter is empty or ends with a
  separator, where the matcher is undefined for other topics.
\<close>

theorem generated_topic_matches:
  assumes "filter_levels_ok w (levels f)"
  shows "levels_match (levels f) (levels (pubTopicFromFilter f)) \<and> pub_topic_loop (pubTopicFromFilter f) \<and>
         isTopicMatch f (pubTopicFromFilter f) = Some True"
  using topic_of_filter [OF assms] by blast

theorem generated_topic_matches_witness:
  "isTopicMatch ''a/+/#'' (pubTopicFromFilter ''a/+/#'') = Some True \<and> pubTopicFromFilter ''a/+/#'' = ''a/plus/hash''"
  using generated_topic_matches [of True "''a/+/#''"] by (simp add: level_ok_def pubTopic_Cons)

text \<open>
  Whatever the client sends, the generator never uses a topic alias: the test against the
  maximum of the client is the wrong way round and holds as long as there is no alias.
\<close>

theorem generator_never_aliases:
  assumes "gen_run msgs (generator_init n) = Some g"
  shows "g_topicAliases g = [] \<and> (\<forall>p. Publish_In p \<in> set (g_sent g) \<longrightarrow> pm_props p = [])"
proof -
  have "no_alias (generator_init n)" by (simp add: no_alias_def generator_init_def)
  from no_alias_run [OF this assms] show ?thesis by (simp add: no_alias_def)
qed

text \<open>A client that announces ten aliases and subscribes to one topic.\<close>

definition aliasing_session :: "out_msg list" where
  "aliasing_session =
     [Connect_Out \<lparr>cm_cleanStart = True, cm_clientId = ''c'', cm_userNameFlag = False, cm_userName = [],
        cm_passwordFlag = False, cm_password = [], cm_keepAlive = 0, cm_willFlag = False, cm_willQos = 0,
        cm_willRetain = False, cm_willTopic = [], cm_willMessage = [], cm_willProps = [], cm_props = [TopicAliasMax 10]\<rparr>,
      Subscribe_Out \<lparr>sm_packetId = 1, sm_props = [],
        sm_list = [\<lparr>se_topic = ''a'', se_qos = 2, se_noLocal = False, se_retainAsPublished = False, se_retainHandling = 0\<rparr>]\<rparr>]"

theorem generator_never_aliases_witness:
  "\<exists>g. gen_run aliasing_session (generator_init 3) = Some g \<and> g_topicAliasLimit g = 10 \<and> g_topicAliases g = []"
proof -
  have "\<exists>g. gen_run aliasing_session (generator_init 3) = Some g \<and> g_topicAliasLimit g = 10"
    by (simp add: aliasing_session_def gen_Connect_def gen_props_of_def gen_sendConnack_def gen_Subscribe_def
        gen_sendMessage_def gen_doPublish_def gen_sendPublish_def gen_allocTopicAlias_def generator_init_def
        pubTopic_Cons pubTopic_Nil Let_def)
  then show ?thesis using generator_never_aliases by blast
qed

end
