(* ===== verification/Timer_Ownership.thy ===== *)
theory Timer_Ownership
  imports Client_Api
begin

text \<open>
  Who holds the timers of the client. The constructor of the client takes one timer from
  \<^verbatim>\<open>TimerMgr\<close> (\<^verbatim>\<open>client/lib/src/TimerMgr.cpp\<close>) and every operation takes those of its members; their
  destructors give them back. The constructors assert that the handle they get is valid. The
  lemmas follow the timers through every function of the client: at any moment the allocated
  entries of the table are exactly the timers of the client and of its live operations, each
  held once, so no timer leaks or is shared, every call to \<^verbatim>\<open>TimerMgr\<close> goes through a handle of an
  allocated timer, and with the limits of \<^verbatim>\<open>client/lib/src/ExtConfig.h\<close> the table is never used up.
\<close>

section \<open>The timers that are held\<close>

definition keep_alive_timers :: "keep_alive_op \<Rightarrow> timer_idx list" where
  "keep_alive_timers op = [ko_pingTimer op, ko_recvTimer op, ko_respTimer op]"

definition owned_timers :: "client \<Rightarrow> timer_idx list" where
  "owned_timers cl =
     m_sessionExpiryTimer cl #
     map hs_timer (m_connectOps cl) @ concat (map keep_alive_timers (m_keepAliveOps cl)) @
     map sub_timer (m_subscribeOps cl) @ map uns_timer (m_unsubscribeOps cl) @
     map ro_responseTimer (m_recvOps cl) @ map so_responseTimer (m_sendOps cl) @
     map hs_timer (m_reauthOps cl)"

text \<open>The pools of the operations are not overdrawn.\<close>

definition fits :: "nat \<Rightarrow> 'o list \<Rightarrow> bool" where
  "fits limit ops \<longleftrightarrow> limit = 0 \<or> length ops \<le> limit"

definition pools_ok :: "build \<Rightarrow> client \<Rightarrow> bool" where
  "pools_ok b cl \<longleftrightarrow>
     fits (ConnectOpsLimit (b_config b)) (m_connectOps cl) \<and>
     fits (KeepAliveOpsLimit (b_config b)) (m_keepAliveOps cl) \<and>
     fits (SubscribeOpsLimit (b_config b)) (m_subscribeOps cl) \<and>
     fits (UnsubscribeOpsLimit (b_config b)) (m_unsubscribeOps cl) \<and>
     fits (RecvOpsLimit (b_config b)) (m_recvOps cl) \<and>
     fits (SendOpsLimit (b_config b)) (m_sendOps cl) \<and>
     fits (ReauthOpsLimit (b_config b)) (m_reauthOps cl)"

text \<open>
  The held timers are the allocated entries, each once. An index that reaches \<^verbatim>\<open>InvalidIdx\<close>, after
  4294967295 timers on the heap, could not be told from an invalid handle.
\<close>

definition owns :: "build \<Rightarrow> timer_idx list \<Rightarrow> timer_cb timer_mgr \<Rightarrow> bool" where
  "owns b held m \<longleftrightarrow>
     fits (TimersLimit (b_config b)) (m_timers m) \<and>
     (length (m_timers m) \<le> InvalidIdx \<longrightarrow>
        timers_ok m \<and> mset held = mset_set (timer_used m))"

definition timers_owned :: "build \<Rightarrow> client \<Rightarrow> bool" where
  "timers_owned b cl \<longleftrightarrow> pools_ok b cl \<and> owns b (owned_timers cl) (m_timerMgr cl)"

named_theorems owned \<open>functions that keep the timers where they belong\<close>

section \<open>The table\<close>

lemma timer_used_finite [simp]: "finite (timer_used m)"
  by (simp add: timer_used_def)

lemma owns_used: "owns b held m \<Longrightarrow> length (m_timers m) \<le> InvalidIdx \<Longrightarrow> set held = timer_used m"
  unfolding owns_def using finite_set_mset_mset_set [OF timer_used_finite, of m] by (metis set_mset_mset)

lemma owns_distinct:
  assumes "owns b held m" and "length (m_timers m) \<le> InvalidIdx"
  shows "distinct held"
proof -
  have "length held = card (timer_used m)" using assms unfolding owns_def by (metis size_mset size_mset_set)
  then show ?thesis using owns_used [OF assms] by (simp add: card_distinct)
qed

lemma owns_valid: "owns b held m \<Longrightarrow> length (m_timers m) \<le> InvalidIdx \<Longrightarrow> \<forall>i\<in>set held. timer_isValid i"
  using owns_used by (auto simp: timer_used_def timer_isValid_def)

lemma owns_perm: "owns b held m \<Longrightarrow> mset held = mset held' \<Longrightarrow> owns b held' m"
  by (simp add: owns_def)

text \<open>A call that goes through a held handle.\<close>

lemma owns_update:
  assumes "owns b held m" and "i \<in> set held" and "length (m_timers m') = length (m_timers m)"
    and "timer_used m' = timer_used m" and "timers_ok m \<Longrightarrow> i \<in> timer_used m \<Longrightarrow> timers_ok m'"
  shows "owns b held m'"
  using assms owns_used [OF assms(1)] by (auto simp: owns_def fits_def)

lemma timer_calls_length [simp]:
  "length (m_timers (timerWait i t cb m)) = length (m_timers m)"
  "length (m_timers (timerCancel i m)) = length (m_timers m)"
  "length (m_timers (Timer_setSuspended i s m)) = length (m_timers m)"
  "length (m_timers (Timer_destroy i m)) = length (m_timers m)"
  "length (m_timers (snd (timer_tick ms m))) = length (m_timers m)"
  by (simp_all add: timerWait_def timerCancel_def Timer_setSuspended_def timerSetSuspended_def Timer_destroy_def
      freeTimer_def timer_tick_snd)

lemma timer_calls_used [simp]:
  "timer_used (timerWait i t cb m) = timer_used m"
  "timer_used (timerCancel i m) = timer_used m"
  "timer_used (Timer_setSuspended i s m) = timer_used m"
  by (auto simp: timer_used_def timerWait_def timerCancel_def Timer_setSuspended_def timerSetSuspended_def
      cancel_info_def nth_list_update)

lemma owns_calls:
  assumes "owns b held m" and "i \<in> set held"
  shows "owns b held (timerWait i t cb m)" "owns b held (timerCancel i m)" "owns b held (Timer_setSuspended i s m)"
  by (rule owns_update [OF assms]; simp add: timer_update_ok)+

lemma owns_tick: "owns b held m \<Longrightarrow> owns b held (snd (timer_tick ms m))"
  by (auto simp: owns_def fits_def timer_tick_ok timer_trans_used_tick)

lemma owns_destroy:
  assumes o: "owns b (i # held) m"
  shows "owns b held (Timer_destroy i m)"
proof (cases "length (m_timers m) \<le> InvalidIdx")
  case False
  then show ?thesis using o by (simp add: owns_def fits_def)
next
  case True
  then have t: "timers_ok m" "mset (i # held) = mset_set (timer_used m)" using o by (simp_all add: owns_def)
  have i: "i \<in> timer_used m" using owns_used [OF o True] by auto
  then have "timer_isValid i" using True by (auto simp: timer_used_def timer_isValid_def)
  then have d: "Timer_destroy i m = freeTimer i m" by (simp add: Timer_destroy_def)
  have "mset held = mset_set (timer_used m) - {#i#}" using t(2) by (metis add_mset_remove_trivial mset.simps(2))
  also have "\<dots> = mset_set (timer_used m - {i})" using i by (simp add: mset_set_Diff)
  finally have "mset held = mset_set (timer_used m - {i})" .
  moreover have "timers_ok (Timer_destroy i m)" "timer_used (Timer_destroy i m) = timer_used m - {i}"
    unfolding d using freeTimer_ok [OF t(1) i] by simp_all
  ultimately show ?thesis using o by (simp add: owns_def fits_def)
qed

text \<open>Taking a timer: while fewer are held than the table may have, the handle is a new one.\<close>

lemma allocTimer_fits:
  assumes "fits (TimersLimit c) (m_timers m)" and "allocTimer c m = (i, m')"
  shows "fits (TimersLimit c) (m_timers m') \<and> length (m_timers m) \<le> length (m_timers m')"
  using assms by (auto simp: allocTimer_def create_timer_def fits_def obj_list_full_def Let_def split: if_splits)

lemma owns_alloc:
  assumes o: "owns b held m" and a: "allocTimer (b_config b) m = (i, m')"
    and room: "TimersLimit (b_config b) = 0 \<or> length held < TimersLimit (b_config b)"
  shows "owns b (i # held) m'"
proof -
  have f: "fits (TimersLimit (b_config b)) (m_timers m')" "length (m_timers m) \<le> length (m_timers m')"
    using allocTimer_fits [OF _ a] o by (simp_all add: owns_def)
  show ?thesis
  proof (cases "length (m_timers m) \<le> InvalidIdx")
    case False
    then show ?thesis using f by (simp add: owns_def)
  next
    case True
    then have t: "timers_ok m" "mset held = mset_set (timer_used m)" using o by (simp_all add: owns_def)
    have "card (timer_used m) = length held" using t(2) by (metis size_mset size_mset_set)
    moreover have "card (timer_used m) = allocCount m"
      by (simp add: timer_used_def allocCount_def length_filter_conv_card)
    ultimately have "\<not> (allocCount m = length (m_timers m) \<and>
        obj_list_full (TimersLimit (b_config b)) True (m_timers m))"
      using room by (auto simp: obj_list_full_def split: if_splits)
    then have "timers_ok m'" "i \<notin> timer_used m" "timer_used m' = insert i (timer_used m)"
      using allocTimer_cases [OF t(1) a] by auto
    then show ?thesis using f t(2) by (simp add: owns_def)
  qed
qed

section \<open>The client: effects\<close>

text \<open>What does not touch the operations' timers.\<close>

lemma owned_timers_frames [simp]:
  "owned_timers (emit ev cl) = owned_timers cl" "owned_timers (fault flt cl) = owned_timers cl"
  "owned_timers (on_timers g cl) = owned_timers cl" "owned_timers (on_client_state h cl) = owned_timers cl"
  "owned_timers (on_session_state k cl) = owned_timers cl" "owned_timers (release_id j cl) = owned_timers cl"
  "owned_timers (set_filters flts cl) = owned_timers cl" "owned_timers (allowNextPrepare cl) = owned_timers cl"
  by (simp_all add: owned_timers_def emit_def fault_def on_timers_def on_client_state_def on_session_state_def
      release_id_def set_filters_def allowNextPrepare_def)

lemma timers_owned_frames [simp]:
  "timers_owned b (emit ev cl) = timers_owned b cl" "timers_owned b (fault flt cl) = timers_owned b cl"
  "timers_owned b (on_client_state h cl) = timers_owned b cl"
  "timers_owned b (on_session_state k cl) = timers_owned b cl" "timers_owned b (release_id j cl) = timers_owned b cl"
  "timers_owned b (set_filters flts cl) = timers_owned b cl"
  "timers_owned b (allowNextPrepare cl) = timers_owned b cl"
  by (simp_all add: timers_owned_def pools_ok_def owned_timers_def emit_def fault_def on_client_state_def
      on_session_state_def release_id_def set_filters_def allowNextPrepare_def)

lemma timers_owned_fields [simp]:
  "timers_owned b (cl\<lparr>m_ops := x1\<rparr>) = timers_owned b cl"
  "timers_owned b (cl\<lparr>m_ops := x1, m_opsDeleted := x2\<rparr>) = timers_owned b cl"
  "timers_owned b (cl\<lparr>m_apiEnterCount := x3\<rparr>) = timers_owned b cl"
  "timers_owned b (cl\<lparr>m_configState := x4\<rparr>) = timers_owned b cl"
  "timers_owned b (cl\<lparr>m_clientState := x5\<rparr>) = timers_owned b cl"
  "timers_owned b (cl\<lparr>m_disconnectOps := x6\<rparr>) = timers_owned b cl"
  "timers_owned b (cl\<lparr>m_preparationLocked := x7\<rparr>) = timers_owned b cl"
  "timers_owned b (cl\<lparr>m_subFilters := x8\<rparr>) = timers_owned b cl"
  "timers_owned b (register_op t cl) = timers_owned b cl"
  by (simp_all add: timers_owned_def pools_ok_def owned_timers_def register_op_def)

lemma owned_timers_fields [simp]:
  "owned_timers (cl\<lparr>m_ops := x1, m_opsDeleted := x2\<rparr>) = owned_timers cl"
  "owned_timers (cl\<lparr>m_apiEnterCount := x3\<rparr>) = owned_timers cl"
  "owned_timers (cl\<lparr>m_clientState := x5\<rparr>) = owned_timers cl"
  by (simp_all add: owned_timers_def)

lemma map_upd_op: "(\<And>p. g (f p) = g p) \<Longrightarrow> map g (upd_op oid i f xs) = map g xs"
  by (simp add: upd_op_def)

lemma fits_upd_op [simp]: "fits limit (upd_op oid i f xs) = fits limit xs"
  by (simp add: fits_def)

lemma upd_owned [simp]:
  "(\<And>p. so_responseTimer (f p) = so_responseTimer p) \<Longrightarrow> owned_timers (upd_send i f cl) = owned_timers cl"
  "(\<And>p. ro_responseTimer (g p) = ro_responseTimer p) \<Longrightarrow> owned_timers (upd_recv i g cl) = owned_timers cl"
  "(\<And>p. sub_timer (h p) = sub_timer p) \<Longrightarrow> owned_timers (upd_subscribe i h cl) = owned_timers cl"
  "(\<And>p. uns_timer (k p) = uns_timer p) \<Longrightarrow> owned_timers (upd_unsubscribe i k cl) = owned_timers cl"
  "(\<And>p. hs_timer (c p) = hs_timer p) \<Longrightarrow> owned_timers (upd_connect i c cl) = owned_timers cl"
  "(\<And>p. hs_timer (r p) = hs_timer p) \<Longrightarrow> owned_timers (upd_reauth i r cl) = owned_timers cl"
  "owned_timers (upd_disconnect i d cl) = owned_timers cl"
  by (simp_all add: owned_timers_def upd_send_def upd_recv_def upd_subscribe_def upd_unsubscribe_def upd_connect_def
      upd_reauth_def upd_disconnect_def map_upd_op)

lemma timers_owned_upd [simp]:
  "(\<And>p. so_responseTimer (f p) = so_responseTimer p) \<Longrightarrow> timers_owned b (upd_send i f cl) = timers_owned b cl"
  "(\<And>p. ro_responseTimer (g p) = ro_responseTimer p) \<Longrightarrow> timers_owned b (upd_recv i g cl) = timers_owned b cl"
  "(\<And>p. sub_timer (h p) = sub_timer p) \<Longrightarrow> timers_owned b (upd_subscribe i h cl) = timers_owned b cl"
  "(\<And>p. uns_timer (k p) = uns_timer p) \<Longrightarrow> timers_owned b (upd_unsubscribe i k cl) = timers_owned b cl"
  "(\<And>p. hs_timer (c p) = hs_timer p) \<Longrightarrow> timers_owned b (upd_connect i c cl) = timers_owned b cl"
  "(\<And>p. hs_timer (r p) = hs_timer p) \<Longrightarrow> timers_owned b (upd_reauth i r cl) = timers_owned b cl"
  "timers_owned b (upd_disconnect i d cl) = timers_owned b cl"
  unfolding timers_owned_def
  by (simp_all) (simp_all add: pools_ok_def upd_send_def upd_recv_def upd_subscribe_def upd_unsubscribe_def
      upd_connect_def upd_reauth_def upd_disconnect_def)

text \<open>The timers of an operation that a pointer leads to are held.\<close>

lemma op_timer_owned:
  "send_op_at i cl = Some p \<Longrightarrow> so_responseTimer p \<in> set (owned_timers cl)"
  "recv_op_at i cl = Some q \<Longrightarrow> ro_responseTimer q \<in> set (owned_timers cl)"
  "subscribe_op_at i cl = Some s \<Longrightarrow> sub_timer s \<in> set (owned_timers cl)"
  "unsubscribe_op_at i cl = Some u \<Longrightarrow> uns_timer u \<in> set (owned_timers cl)"
  "connect_op_at i cl = Some c \<Longrightarrow> hs_timer c \<in> set (owned_timers cl)"
  "reauth_op_at i cl = Some r \<Longrightarrow> hs_timer r \<in> set (owned_timers cl)"
  "m_sessionExpiryTimer cl \<in> set (owned_timers cl)"
  by (auto simp: send_op_at_def recv_op_at_def subscribe_op_at_def unsubscribe_op_at_def connect_op_at_def
      reauth_op_at_def owned_timers_def dest: op_at_in)

lemma keep_alive_owned:
  "op \<in> set (m_keepAliveOps cl) \<Longrightarrow> set (keep_alive_timers op) \<subseteq> set (owned_timers cl)"
  "keep_alive_op_at i cl = Some op \<Longrightarrow> op \<in> set (m_keepAliveOps cl)"
  by (auto simp: owned_timers_def keep_alive_op_at_def dest: op_at_in)

lemma timer_call_owned [owned]:
  assumes "timers_owned b cl" and "t \<in> set (owned_timers cl)"
  shows "timers_owned b (on_timers (timerWait t ms cb) cl)" "timers_owned b (on_timers (timerCancel t) cl)"
    "timers_owned b (on_timers (Timer_setSuspended t s) cl)"
proof -
  have p: "pools_ok b (on_timers g cl) = pools_ok b cl" for g by (simp add: pools_ok_def on_timers_def)
  have m: "m_timerMgr (on_timers g cl) = g (m_timerMgr cl)" for g by (simp add: on_timers_def)
  show "timers_owned b (on_timers (timerWait t ms cb) cl)" "timers_owned b (on_timers (timerCancel t) cl)"
    "timers_owned b (on_timers (Timer_setSuspended t s) cl)"
    using assms owns_calls by (simp_all add: timers_owned_def p m)
qed

section \<open>Sending, completing, resuming\<close>

lemma messageSent_owned: "set ops \<subseteq> set (m_keepAliveOps cl) \<Longrightarrow> timers_owned b cl \<Longrightarrow> timers_owned b (fold messageSent ops cl)"
proof (induction ops arbitrary: cl)
  case (Cons op ops)
  then have "ko_pingTimer op \<in> set (owned_timers cl)"
    using keep_alive_owned(1) [of op cl] by (simp add: keep_alive_timers_def)
  then have "timers_owned b (messageSent op cl)"
    using Cons.prems(2) by (simp add: messageSent_def restartPingTimer_def Let_def owned)
  moreover have "m_keepAliveOps (messageSent op cl) = m_keepAliveOps cl"
    by (simp add: messageSent_def restartPingTimer_def on_timers_def Let_def)
  ultimately show ?case using Cons by simp
qed simp

lemma sendMessage_owned [owned]: "timers_owned b cl \<Longrightarrow> timers_owned b (snd (sendMessage b' msg cl))"
proof -
  assume a: "timers_owned b cl"
  have "timers_owned b (fold messageSent (m_keepAliveOps cl) (emit (Ev_Output msg) cl))"
    by (rule messageSent_owned) (use a in \<open>simp_all add: emit_def\<close>, simp add: timers_owned_frames flip: emit_def)
  then show ?thesis using a by (simp add: sendMessage_def Let_def)
qed

lemma sendMessage_owned_timers [simp]: "owned_timers (snd (sendMessage b msg cl)) = owned_timers cl"
  by (rule sendMessage_frame [of b msg cl]) (simp add: owned_timers_def)

lemma sendDisconnect_owned [owned]:
  "timers_owned b cl \<Longrightarrow> timers_owned b (sendDisconnectMsg b' reason cl)"
  "timers_owned b cl \<Longrightarrow> timers_owned b (sendDisconnectWithReason b' reason cl)"
  by (simp_all add: sendDisconnectMsg_def sendDisconnectWithReason_def owned)

text \<open>Erasing an operation from its list and giving back its timers.\<close>

lemma eraseFromList_mset:
  assumes "op_at oid i xs = Some x"
  shows "mset xs = add_mset x (mset (snd (eraseFromList oid i xs)))"
  using eraseFromList_found [OF assms] by fastforce

lemma eraseFromList_fits: "fits limit xs \<Longrightarrow> fits limit (snd (eraseFromList oid i xs))"
  by (auto simp: fits_def eraseFromList_def Let_def erase_at_def)

lemma erased_timers:
  assumes "op_at oid i xs = Some x"
  shows "mset (map g xs) = add_mset (g x) (mset (map g (snd (eraseFromList oid i xs))))"
    and "mset (concat (map h xs)) = mset (h x) + mset (concat (map h (snd (eraseFromList oid i xs))))"
proof -
  note e = eraseFromList_mset [OF assms]
  then show "mset (map g xs) = add_mset (g x) (mset (map g (snd (eraseFromList oid i xs))))" by simp
  have "mset (concat (map h ys)) = (\<Sum>y\<in>#mset ys. mset (h y))" for ys
    by (induction ys) simp_all
  then show "mset (concat (map h xs)) = mset (h x) + mset (concat (map h (snd (eraseFromList oid i xs))))"
    using e by simp
qed

lemma destroy_timer_simps [simp]:
  "pools_ok b (destroy_timer t cl) = pools_ok b cl" "owned_timers (destroy_timer t cl) = owned_timers cl"
  "m_timerMgr (destroy_timer t cl) = Timer_destroy t (m_timerMgr cl)"
  by (simp_all add: pools_ok_def destroy_timer_def owned_timers_def on_timers_def)

text \<open>An operation with one timer is erased from its list: \<^term>\<open>c\<close> is the client without it.\<close>

lemma drop_owned:
  assumes o: "timers_owned b cl" and p: "pools_ok b c" and m: "m_timerMgr c = m_timerMgr cl"
    and t: "mset (owned_timers cl) = add_mset t (mset (owned_timers c))"
  shows "timers_owned b (destroy_timer t c)"
proof -
  have "owns b (t # owned_timers c) (m_timerMgr c)"
    by (rule owns_perm [of b "owned_timers cl"]) (use o m t in \<open>simp_all add: timers_owned_def\<close>)
  then show ?thesis using owns_destroy p by (simp add: timers_owned_def)
qed

lemma release_id_owns [simp]:
  "m_timerMgr (release_id j cl) = m_timerMgr cl" "pools_ok b (release_id j cl) = pools_ok b cl"
  by (simp_all add: release_id_def on_client_state_def pools_ok_def)

lemma erased_owned:
  shows "op_at hs_id i (m_connectOps cl) = Some c \<Longrightarrow> mset (owned_timers cl) =
      add_mset (hs_timer c) (mset (owned_timers (cl\<lparr>m_connectOps := snd (eraseFromList hs_id i (m_connectOps cl))\<rparr>)))"
    and "op_at hs_id i (m_reauthOps cl) = Some r \<Longrightarrow> mset (owned_timers cl) =
      add_mset (hs_timer r) (mset (owned_timers (cl\<lparr>m_reauthOps := snd (eraseFromList hs_id i (m_reauthOps cl))\<rparr>)))"
    and "op_at sub_id i (m_subscribeOps cl) = Some s \<Longrightarrow> mset (owned_timers cl) =
      add_mset (sub_timer s) (mset (owned_timers (cl\<lparr>m_subscribeOps := snd (eraseFromList sub_id i (m_subscribeOps cl))\<rparr>)))"
    and "op_at uns_id i (m_unsubscribeOps cl) = Some u \<Longrightarrow> mset (owned_timers cl) =
      add_mset (uns_timer u) (mset (owned_timers (cl\<lparr>m_unsubscribeOps := snd (eraseFromList uns_id i (m_unsubscribeOps cl))\<rparr>)))"
    and "op_at ro_id i (m_recvOps cl) = Some q \<Longrightarrow> mset (owned_timers cl) =
      add_mset (ro_responseTimer q) (mset (owned_timers (cl\<lparr>m_recvOps := snd (eraseFromList ro_id i (m_recvOps cl))\<rparr>)))"
    and "op_at so_id i (m_sendOps cl) = Some p \<Longrightarrow> mset (owned_timers cl) =
      add_mset (so_responseTimer p) (mset (owned_timers (cl\<lparr>m_sendOps := snd (eraseFromList so_id i (m_sendOps cl))\<rparr>)))"
  by (drule erased_timers(1), simp add: owned_timers_def)+

lemma erased_keep_alive:
  "op_at ko_id i (m_keepAliveOps cl) = Some k \<Longrightarrow> mset (owned_timers cl) = mset (keep_alive_timers k) +
     mset (owned_timers (cl\<lparr>m_keepAliveOps := snd (eraseFromList ko_id i (m_keepAliveOps cl))\<rparr>))"
  by (drule erased_timers(2) [where h = keep_alive_timers], simp add: owned_timers_def)

lemma erased_pools [simp]:
  "pools_ok b cl \<Longrightarrow> pools_ok b (cl\<lparr>m_connectOps := snd (eraseFromList hs_id i (m_connectOps cl))\<rparr>)"
  "pools_ok b cl \<Longrightarrow> pools_ok b (cl\<lparr>m_reauthOps := snd (eraseFromList hs_id i (m_reauthOps cl))\<rparr>)"
  "pools_ok b cl \<Longrightarrow> pools_ok b (cl\<lparr>m_subscribeOps := snd (eraseFromList sub_id i (m_subscribeOps cl))\<rparr>)"
  "pools_ok b cl \<Longrightarrow> pools_ok b (cl\<lparr>m_unsubscribeOps := snd (eraseFromList uns_id i (m_unsubscribeOps cl))\<rparr>)"
  "pools_ok b cl \<Longrightarrow> pools_ok b (cl\<lparr>m_recvOps := snd (eraseFromList ro_id i (m_recvOps cl))\<rparr>)"
  "pools_ok b cl \<Longrightarrow> pools_ok b (cl\<lparr>m_sendOps := snd (eraseFromList so_id i (m_sendOps cl))\<rparr>)"
  "pools_ok b cl \<Longrightarrow> pools_ok b (cl\<lparr>m_keepAliveOps := snd (eraseFromList ko_id i (m_keepAliveOps cl))\<rparr>)"
  by (simp_all add: pools_ok_def eraseFromList_fits)

lemma opComplete_owned [owned]:
  assumes o: "timers_owned b cl"
  shows "timers_owned b (opComplete_Connect i cl)" "timers_owned b (opComplete_Reauth i cl)"
    "timers_owned b (opComplete_Subscribe i cl)" "timers_owned b (opComplete_Unsubscribe i cl)"
    "timers_owned b (opComplete_Recv i cl)" "timers_owned b (opComplete_Disconnect i cl)"
proof -
  have p: "pools_ok b cl" using o by (simp add: timers_owned_def)
  show "timers_owned b (opComplete_Connect i cl)" "timers_owned b (opComplete_Reauth i cl)"
    "timers_owned b (opComplete_Subscribe i cl)" "timers_owned b (opComplete_Unsubscribe i cl)"
    "timers_owned b (opComplete_Recv i cl)" "timers_owned b (opComplete_Disconnect i cl)"
    using o p
    by (auto simp: opComplete_Connect_def opComplete_Reauth_def opComplete_Subscribe_def
        opComplete_Unsubscribe_def opComplete_Recv_def opComplete_Disconnect_def split: option.split
        intro!: drop_owned [OF o] dest: erased_owned)
qed

lemma opComplete_KeepAlive_owned [owned]:
  assumes o: "timers_owned b cl"
  shows "timers_owned b (opComplete_KeepAlive i cl)"
proof (cases "op_at ko_id i (m_keepAliveOps cl)")
  case None
  then show ?thesis using o by (simp add: opComplete_KeepAlive_def)
next
  case (Some k)
  let ?c = "cl\<lparr>m_keepAliveOps := snd (eraseFromList ko_id i (m_keepAliveOps cl))\<rparr>"
  have p: "pools_ok b cl" "owns b (owned_timers cl) (m_timerMgr cl)" using o by (simp_all add: timers_owned_def)
  have "owns b (ko_respTimer k # ko_recvTimer k # ko_pingTimer k # owned_timers ?c) (m_timerMgr ?c)"
    by (rule owns_perm [of b "owned_timers cl"])
       (use p erased_keep_alive [OF Some] in \<open>simp_all add: keep_alive_timers_def\<close>)
  then have "owns b (owned_timers ?c)
      (Timer_destroy (ko_pingTimer k) (Timer_destroy (ko_recvTimer k) (Timer_destroy (ko_respTimer k) (m_timerMgr ?c))))"
    by (intro owns_destroy)
  then show ?thesis using p(1) Some by (simp add: opComplete_KeepAlive_def timers_owned_def)
qed

text \<open>The functions around a resumption, for a resumption that keeps the timers.\<close>

definition rs_owned :: "build \<Rightarrow> resumption \<Rightarrow> bool" where
  "rs_owned b rs \<longleftrightarrow> (\<forall>idx cl. timers_owned b cl \<longrightarrow> timers_owned b (rs idx cl))"

lemma opComplete_with_owned:
  assumes rs: "rs_owned b rs" and o: "timers_owned b cl"
  shows "timers_owned b (opComplete_with rs ref cl)"
proof -
  have s: "timers_owned b (opComplete_Send rs i c)" if "timers_owned b c" for i c
  proof (cases "send_op_at i c")
    case None
    then show ?thesis using that by (simp add: opComplete_Send_def)
  next
    case (Some op)
    let ?c = "release_id (pm_packetId (so_pubMsg op)) (c\<lparr>m_sendOps := snd (eraseFromList so_id i (m_sendOps c))\<rparr>)"
    have "timers_owned b (destroy_timer (so_responseTimer op) ?c)"
      by (rule drop_owned [OF that])
         (use that erased_owned(6) [OF Some [unfolded send_op_at_def]] in \<open>simp_all add: timers_owned_def\<close>)
    then show ?thesis using rs Some by (simp add: opComplete_Send_def destroy_SendOp_def rs_owned_def split_beta Let_def)
  qed
  show ?thesis using o by (auto simp: opComplete_with_def Let_def owned s split: op_type.split)
qed

lemma completeWithCb_owned:
  assumes "rs_owned b rs" and "timers_owned b cl"
  shows "timers_owned b (SendOp_opCompleteInternal rs i cl)" "timers_owned b (SendOp_completeWithCb rs i status r cl)"
  using assms opComplete_with_owned
  by (auto simp: SendOp_completeWithCb_def SendOp_opCompleteInternal_def Let_def split: option.split)

lemma SendOp_restartResponseTimer_owned [owned]:
  "timers_owned b cl \<Longrightarrow> timers_owned b (SendOp_restartResponseTimer i cl)"
  by (auto simp: SendOp_restartResponseTimer_def owned op_timer_owned split: option.split)

lemma doSendInternal_owned:
  "rs_owned b rs \<Longrightarrow> timers_owned b cl \<Longrightarrow> timers_owned b (snd (doSendInternal rs b' i cl))"
  by (auto simp: doSendInternal_def split_beta Let_def owned completeWithCb_owned split: option.split)

lemma SendOp_resume_owned:
  "rs_owned b rs \<Longrightarrow> timers_owned b cl \<Longrightarrow> timers_owned b (snd (SendOp_resume rs b' i cl))"
  by (auto simp: SendOp_resume_def split_beta Let_def completeWithCb_owned doSendInternal_owned split: option.split)

lemma resumeSendOpsSince_owned: "rs_owned b (resumeSendOpsSince n b')"
proof (induction n)
  case (Suc n)
  then show ?case using SendOp_resume_owned [OF Suc] by (auto simp: rs_owned_def split_beta Let_def)
qed (simp add: rs_owned_def)

lemma resumeSends_owned [owned]: "rs_owned b (resumeSends b')"
  "timers_owned b cl \<Longrightarrow> timers_owned b (resumeSends b' idx cl)"
  using resumeSendOpsSince_owned by (auto simp: rs_owned_def resumeSends_def)

lemma opComplete_all_owned [owned]:
  "timers_owned b cl \<Longrightarrow> timers_owned b (opComplete b' ref cl)"
  "timers_owned b cl \<Longrightarrow> timers_owned b (completeWithCb b' i status r cl)"
  "timers_owned b cl \<Longrightarrow> timers_owned b (SendOp_opCompleteInternal (resumeSends b') i cl)"
  "timers_owned b cl \<Longrightarrow> timers_owned b (snd (doSendInternal (resumeSends b') b'' i cl))"
  by (simp_all add: opComplete_def completeWithCb_def opComplete_with_owned completeWithCb_owned
      doSendInternal_owned resumeSends_owned(1))

section \<open>Losing and gaining the connection\<close>

lemma completeOpInternal_owned [owned]:
  "timers_owned b cl \<Longrightarrow> timers_owned b (ConnectOp_completeOpInternal b' i status cr cl)"
  "timers_owned b cl \<Longrightarrow> timers_owned b (ReauthOp_completeOpInternal b' i status ai cl)"
  "timers_owned b cl \<Longrightarrow> timers_owned b (SubscribeOp_completeOpInternal b' i status sr cl)"
  "timers_owned b cl \<Longrightarrow> timers_owned b (UnsubscribeOp_completeOpInternal b' i status sr cl)"
  by (auto simp: ConnectOp_completeOpInternal_def ReauthOp_completeOpInternal_def SubscribeOp_completeOpInternal_def
      UnsubscribeOp_completeOpInternal_def Let_def owned split: option.split)

lemma terminateOp_owned [owned]: "timers_owned b cl \<Longrightarrow> timers_owned b (terminateOp b' status ref cl)"
  by (simp add: terminateOp_def Let_def owned split: op_type.split)

lemma owned_if: "timers_owned b c \<Longrightarrow> timers_owned b d \<Longrightarrow> timers_owned b (if p then c else d)"
  by simp

lemma fold_owned: "(\<And>x c. timers_owned b c \<Longrightarrow> timers_owned b (f x c)) \<Longrightarrow> timers_owned b cl \<Longrightarrow> timers_owned b (fold f xs cl)"
  by (induction xs arbitrary: cl) auto

lemma terminateOps_owned [owned]: "timers_owned b cl \<Longrightarrow> timers_owned b (terminateOps b' status mode cl)"
  unfolding terminateOps_def by (rule fold_owned) (auto simp: terminate_at_def owned split: option.split)

lemma cleanOps_owned [owned]: "timers_owned b cl \<Longrightarrow> timers_owned b (cleanOps cl)"
  by (simp add: cleanOps_def)

lemma connectivity_owned [owned]:
  "timers_owned b cl \<Longrightarrow> timers_owned b (RecvOp_connectivityChanged b' i cl)"
  "timers_owned b cl \<Longrightarrow> timers_owned b (connectivity_at b' k cl)"
  by (auto simp: connectivity_at_def connectivityChanged_def SendOp_connectivityChanged_def
      RecvOp_connectivityChanged_def owned op_timer_owned split: option.split op_type.split)

lemma brokerDisconnected_owned [owned]:
  "timers_owned b cl \<Longrightarrow> timers_owned b (brokerDisconnected b' reason status info cl)"
  by (auto simp: brokerDisconnected_def Let_def owned op_timer_owned fold_owned)

lemma termination_owned [owned]:
  "timers_owned b cl \<Longrightarrow> timers_owned b (terminationWithReason b' reason cl)"
  "timers_owned b cl \<Longrightarrow> timers_owned b (protocolErrorTermination b' cl)"
  by (simp_all add: terminationWithReason_def protocolErrorTermination_def owned)

lemma sessionExpiry_owned [owned]: "timers_owned b cl \<Longrightarrow> timers_owned b (sessionExpiryTimeoutInternal b' cl)"
  unfolding sessionExpiryTimeoutInternal_def
  by (rule fold_owned) (auto simp: expire_at_def owned split: option.split)

lemma resend_owned [owned]:
  "timers_owned b cl \<Longrightarrow> timers_owned b (resendDupMsg b' i cl)"
  "timers_owned b cl \<Longrightarrow> timers_owned b (forceDupResend b' i cl)"
  "timers_owned b cl \<Longrightarrow> timers_owned b (responseTimeoutInternal b' i cl)"
proof -
  have r: "timers_owned b (resendDupMsg b' i cl)" if "timers_owned b cl"
    using that by (auto simp: resendDupMsg_def split_beta Let_def owned split: option.split)
  then show "timers_owned b cl \<Longrightarrow> timers_owned b (resendDupMsg b' i cl)"
    "timers_owned b cl \<Longrightarrow> timers_owned b (forceDupResend b' i cl)"
    "timers_owned b cl \<Longrightarrow> timers_owned b (responseTimeoutInternal b' i cl)"
    by (auto simp: forceDupResend_def responseTimeoutInternal_def split: option.split)
qed

text \<open>Before a publish is sent again its timer is cancelled: the update of its message leaves it held.\<close>

lemma postReconnection_owned [owned]:
  "timers_owned b cl \<Longrightarrow> timers_owned b (postReconnectionResend b' i cl)"
  "timers_owned b cl \<Longrightarrow> timers_owned b (RecvOp_restartResponseTimer b' i cl)"
  "timers_owned b cl \<Longrightarrow> timers_owned b (postReconnectionResume b' i cl)"
proof -
  have t: "timers_owned b (RecvOp_restartResponseTimer b' i c)" if "timers_owned b c" for c
    using that by (auto simp: RecvOp_restartResponseTimer_def owned op_timer_owned split: option.split)
  then show "timers_owned b cl \<Longrightarrow> timers_owned b (RecvOp_restartResponseTimer b' i cl)"
    "timers_owned b cl \<Longrightarrow> timers_owned b (postReconnectionResume b' i cl)"
    by (simp_all add: postReconnectionResume_def owned)
  show "timers_owned b cl \<Longrightarrow> timers_owned b (postReconnectionResend b' i cl)"
    by (auto simp: postReconnectionResend_def Let_def owned op_timer_owned split: option.split)
qed

lemma resend_all_owned [owned]: "timers_owned b cl \<Longrightarrow> timers_owned b (resend_all b' is cl)"
  by (induction "is" arbitrary: cl) (simp_all add: Let_def owned)

lemma terminate_stored_owned [owned]: "timers_owned b cl \<Longrightarrow> timers_owned b (terminate_stored b' ks cl)"
  by (induction ks arbitrary: cl) (auto simp: owned split: option.split)

text \<open>
  Room in the table: an operation that its pool has room for finds the timers it needs, for
  \<^verbatim>\<open>TimersLimit\<close> is the sum over the pools, one for the client included.
\<close>

lemma owned_timers_length:
  "length (owned_timers cl) =
     1 + length (m_connectOps cl) + 3 * length (m_keepAliveOps cl) + length (m_subscribeOps cl) +
     length (m_unsubscribeOps cl) + length (m_recvOps cl) + length (m_sendOps cl) + length (m_reauthOps cl)"
proof -
  have "length (concat (map keep_alive_timers ops)) = 3 * length ops" for ops
    by (induction ops) (simp_all add: keep_alive_timers_def)
  then show ?thesis by (simp add: owned_timers_def)
qed

definition room_for :: "build \<Rightarrow> nat \<Rightarrow> client \<Rightarrow> bool" where
  "room_for b n cl \<longleftrightarrow>
     TimersLimit (b_config b) = 0 \<or> length (owned_timers cl) + n \<le> TimersLimit (b_config b)"

lemma pool_has_room:
  assumes o: "timers_owned b cl"
  shows "\<not> alloc_fails (ConnectOpsLimit (b_config b)) (m_connectOps cl) \<Longrightarrow> room_for b 1 cl"
    and "\<not> alloc_fails (SubscribeOpsLimit (b_config b)) (m_subscribeOps cl) \<Longrightarrow> room_for b 1 cl"
    and "\<not> alloc_fails (UnsubscribeOpsLimit (b_config b)) (m_unsubscribeOps cl) \<Longrightarrow> room_for b 1 cl"
    and "\<not> alloc_fails (RecvOpsLimit (b_config b)) (m_recvOps cl) \<Longrightarrow> room_for b 1 cl"
    and "\<not> alloc_fails (SendOpsLimit (b_config b)) (m_sendOps cl) \<Longrightarrow> room_for b 1 cl"
    and "\<not> alloc_fails (ReauthOpsLimit (b_config b)) (m_reauthOps cl) \<Longrightarrow> room_for b 1 cl"
    and "m_keepAliveOps cl = [] \<Longrightarrow> room_for b 3 cl"
proof -
  let ?c = "b_config b"
  have "room_for b n cl" if "\<not> HasOpsLimit ?c" for n using that by (simp add: room_for_def TimersLimit_def)
  moreover have
    "(\<not> alloc_fails (ConnectOpsLimit ?c) (m_connectOps cl) \<longrightarrow> room_for b 1 cl) \<and>
     (\<not> alloc_fails (SubscribeOpsLimit ?c) (m_subscribeOps cl) \<longrightarrow> room_for b 1 cl) \<and>
     (\<not> alloc_fails (UnsubscribeOpsLimit ?c) (m_unsubscribeOps cl) \<longrightarrow> room_for b 1 cl) \<and>
     (\<not> alloc_fails (RecvOpsLimit ?c) (m_recvOps cl) \<longrightarrow> room_for b 1 cl) \<and>
     (\<not> alloc_fails (SendOpsLimit ?c) (m_sendOps cl) \<longrightarrow> room_for b 1 cl) \<and>
     (\<not> alloc_fails (ReauthOpsLimit ?c) (m_reauthOps cl) \<longrightarrow> room_for b 1 cl) \<and>
     (m_keepAliveOps cl = [] \<longrightarrow> room_for b 3 cl)" if h: "HasOpsLimit ?c"
  proof -
    have pos: "0 < ConnectOpsLimit ?c" "0 < KeepAliveOpsLimit ?c" "0 < SubscribeOpsLimit ?c"
      "0 < UnsubscribeOpsLimit ?c" "0 < RecvOpsLimit ?c" "0 < SendOpsLimit ?c" "0 < ReauthOpsLimit ?c"
      using h by (simp_all add: HasOpsLimit_def)
    have le: "length (m_connectOps cl) \<le> ConnectOpsLimit ?c" "length (m_keepAliveOps cl) \<le> KeepAliveOpsLimit ?c"
      "length (m_subscribeOps cl) \<le> SubscribeOpsLimit ?c" "length (m_unsubscribeOps cl) \<le> UnsubscribeOpsLimit ?c"
      "length (m_recvOps cl) \<le> RecvOpsLimit ?c" "length (m_sendOps cl) \<le> SendOpsLimit ?c"
      "length (m_reauthOps cl) \<le> ReauthOpsLimit ?c"
      using o pos by (simp_all add: timers_owned_def pools_ok_def fits_def)
    have "ClientTimersLimit ?c = ConnectOpsLimit ?c" by (simp add: ClientTimersLimit_def ConnectOpsLimit_def)
    then have t: "TimersLimit ?c = 2 * ConnectOpsLimit ?c + 3 * KeepAliveOpsLimit ?c + SubscribeOpsLimit ?c +
        UnsubscribeOpsLimit ?c + RecvOpsLimit ?c + SendOpsLimit ?c + ReauthOpsLimit ?c"
      using h by (simp add: TimersLimit_def MaxTimersLimit_def)
    show ?thesis
      unfolding room_for_def owned_timers_length t alloc_fails_def using pos le by (intro conjI impI disjI2; simp)
  qed
  ultimately show "\<not> alloc_fails (ConnectOpsLimit ?c) (m_connectOps cl) \<Longrightarrow> room_for b 1 cl"
    "\<not> alloc_fails (SubscribeOpsLimit ?c) (m_subscribeOps cl) \<Longrightarrow> room_for b 1 cl"
    "\<not> alloc_fails (UnsubscribeOpsLimit ?c) (m_unsubscribeOps cl) \<Longrightarrow> room_for b 1 cl"
    "\<not> alloc_fails (RecvOpsLimit ?c) (m_recvOps cl) \<Longrightarrow> room_for b 1 cl"
    "\<not> alloc_fails (SendOpsLimit ?c) (m_sendOps cl) \<Longrightarrow> room_for b 1 cl"
    "\<not> alloc_fails (ReauthOpsLimit ?c) (m_reauthOps cl) \<Longrightarrow> room_for b 1 cl"
    "m_keepAliveOps cl = [] \<Longrightarrow> room_for b 3 cl"
    by blast+
qed

section \<open>Constructing operations\<close>

lemma fits_append: "\<not> alloc_fails limit xs \<Longrightarrow> fits limit (xs @ [x])"
  by (auto simp: alloc_fails_def fits_def)

lemma alloc_timer_owns:
  assumes "owns b held (m_timerMgr cl)" and "alloc_timer b cl = (i, c)"
    and "TimersLimit (b_config b) = 0 \<or> length held < TimersLimit (b_config b)"
  shows "owns b (i # held) (m_timerMgr c)"
  using assms owns_alloc [of b held "m_timerMgr cl" i "m_timerMgr c"] by (auto simp: alloc_timer_def split: prod.splits)

text \<open>An operation that takes one timer: \<^term>\<open>c\<close> is the client with the operation in its list.\<close>

lemma take_owned:
  assumes o: "timers_owned b cl" and r: "room_for b 1 cl" and p: "pools_ok b c"
    and m: "m_timerMgr c = m_timerMgr (snd (alloc_timer b cl))"
    and t: "mset (owned_timers c) = add_mset (fst (alloc_timer b cl)) (mset (owned_timers cl))"
  shows "timers_owned b c"
proof -
  have "owns b (fst (alloc_timer b cl) # owned_timers cl) (m_timerMgr (snd (alloc_timer b cl)))"
    by (rule alloc_timer_owns) (use o r in \<open>auto simp: timers_owned_def room_for_def\<close>)
  then have "owns b (owned_timers c) (m_timerMgr c)" unfolding m by (rule owns_perm) (simp add: t)
  then show ?thesis using p by (simp add: timers_owned_def)
qed

lemma alloc_timer_snd: "snd (alloc_timer b cl) = cl\<lparr>m_timerMgr := m_timerMgr (snd (alloc_timer b cl))\<rparr>"
  by (simp add: alloc_timer_def split_beta)

lemma alloc_timer_fields [simp]:
  "m_connectOps (snd (alloc_timer b cl)) = m_connectOps cl" "m_keepAliveOps (snd (alloc_timer b cl)) = m_keepAliveOps cl"
  "m_subscribeOps (snd (alloc_timer b cl)) = m_subscribeOps cl"
  "m_unsubscribeOps (snd (alloc_timer b cl)) = m_unsubscribeOps cl" "m_recvOps (snd (alloc_timer b cl)) = m_recvOps cl"
  "m_sendOps (snd (alloc_timer b cl)) = m_sendOps cl" "m_reauthOps (snd (alloc_timer b cl)) = m_reauthOps cl"
  "m_sessionExpiryTimer (snd (alloc_timer b cl)) = m_sessionExpiryTimer cl"
  by (simp_all add: alloc_timer_def split_beta)

lemma prepared_owned:
  assumes o: "timers_owned b cl"
  shows "\<not> alloc_fails (ConnectOpsLimit (b_config b)) (m_connectOps cl) \<Longrightarrow> timers_owned b
      (prepared t (\<lambda>c. c\<lparr>m_connectOps := m_connectOps c @ [fst (ConnectOp_construct b cl)]\<rparr>) (snd (ConnectOp_construct b cl)))"
    and "\<not> alloc_fails (SubscribeOpsLimit (b_config b)) (m_subscribeOps cl) \<Longrightarrow> timers_owned b
      (prepared t (\<lambda>c. c\<lparr>m_subscribeOps := m_subscribeOps c @ [fst (SubscribeOp_construct b cl)]\<rparr>) (snd (SubscribeOp_construct b cl)))"
    and "\<not> alloc_fails (UnsubscribeOpsLimit (b_config b)) (m_unsubscribeOps cl) \<Longrightarrow> timers_owned b
      (prepared t (\<lambda>c. c\<lparr>m_unsubscribeOps := m_unsubscribeOps c @ [fst (UnsubscribeOp_construct b cl)]\<rparr>) (snd (UnsubscribeOp_construct b cl)))"
    and "\<not> alloc_fails (SendOpsLimit (b_config b)) (m_sendOps cl) \<Longrightarrow> timers_owned b
      (prepared t (\<lambda>c. c\<lparr>m_sendOps := m_sendOps c @ [fst (SendOp_construct b cl)]\<rparr>) (snd (SendOp_construct b cl)))"
    and "\<not> alloc_fails (ReauthOpsLimit (b_config b)) (m_reauthOps cl) \<Longrightarrow> timers_owned b
      (prepared t (\<lambda>c. c\<lparr>m_reauthOps := m_reauthOps c @ [fst (ReauthOp_construct b cl)]\<rparr>) (snd (ReauthOp_construct b cl)))"
proof -
  note defs = pools_ok_def fits_append owned_timers_def ConnectOp_construct_def SubscribeOp_construct_def
    UnsubscribeOp_construct_def SendOp_construct_def ReauthOp_construct_def split_beta Let_def
  have p: "pools_ok b cl" using o by (simp add: timers_owned_def)
  note t = prepared_def timers_owned_fields
  show "\<not> alloc_fails (ConnectOpsLimit (b_config b)) (m_connectOps cl) \<Longrightarrow> timers_owned b
      (prepared t (\<lambda>c. c\<lparr>m_connectOps := m_connectOps c @ [fst (ConnectOp_construct b cl)]\<rparr>) (snd (ConnectOp_construct b cl)))"
    unfolding t by (rule take_owned [OF o pool_has_room(1) [OF o]]) (use p in \<open>simp_all add: defs\<close>)
  show "\<not> alloc_fails (SubscribeOpsLimit (b_config b)) (m_subscribeOps cl) \<Longrightarrow> timers_owned b
      (prepared t (\<lambda>c. c\<lparr>m_subscribeOps := m_subscribeOps c @ [fst (SubscribeOp_construct b cl)]\<rparr>) (snd (SubscribeOp_construct b cl)))"
    unfolding t by (rule take_owned [OF o pool_has_room(2) [OF o]]) (use p in \<open>simp_all add: defs\<close>)
  show "\<not> alloc_fails (UnsubscribeOpsLimit (b_config b)) (m_unsubscribeOps cl) \<Longrightarrow> timers_owned b
      (prepared t (\<lambda>c. c\<lparr>m_unsubscribeOps := m_unsubscribeOps c @ [fst (UnsubscribeOp_construct b cl)]\<rparr>) (snd (UnsubscribeOp_construct b cl)))"
    unfolding t by (rule take_owned [OF o pool_has_room(3) [OF o]]) (use p in \<open>simp_all add: defs\<close>)
  show "\<not> alloc_fails (SendOpsLimit (b_config b)) (m_sendOps cl) \<Longrightarrow> timers_owned b
      (prepared t (\<lambda>c. c\<lparr>m_sendOps := m_sendOps c @ [fst (SendOp_construct b cl)]\<rparr>) (snd (SendOp_construct b cl)))"
    unfolding t by (rule take_owned [OF o pool_has_room(5) [OF o]]) (use p in \<open>simp_all add: defs\<close>)
  show "\<not> alloc_fails (ReauthOpsLimit (b_config b)) (m_reauthOps cl) \<Longrightarrow> timers_owned b
      (prepared t (\<lambda>c. c\<lparr>m_reauthOps := m_reauthOps c @ [fst (ReauthOp_construct b cl)]\<rparr>) (snd (ReauthOp_construct b cl)))"
    unfolding t by (rule take_owned [OF o pool_has_room(6) [OF o]]) (use p in \<open>simp_all add: defs\<close>)
qed

lemma createKeepAlive_owned [owned]:
  assumes o: "timers_owned b cl"
  shows "timers_owned b (createKeepAliveOpIfNeeded b cl)"
proof (cases "m_keepAliveOps cl = [] \<and> \<not> alloc_fails (KeepAliveOpsLimit (b_config b)) (m_keepAliveOps cl)")
  case False
  then show ?thesis using o by (auto simp: createKeepAliveOpIfNeeded_def)
next
  case True
  then have r: "TimersLimit (b_config b) = 0 \<or> length (owned_timers cl) + 3 \<le> TimersLimit (b_config b)"
    using pool_has_room(7) [OF o] by (simp add: room_for_def)
  obtain i c1 where 1: "alloc_timer b cl = (i, c1)" by (cases "alloc_timer b cl")
  obtain j c2 where 2: "alloc_timer b c1 = (j, c2)" by (cases "alloc_timer b c1")
  obtain k c3 where 3: "alloc_timer b c2 = (k, c3)" by (cases "alloc_timer b c2")
  have p: "pools_ok b cl" "owns b (owned_timers cl) (m_timerMgr cl)" using o by (simp_all add: timers_owned_def)
  have w1: "owns b (i # owned_timers cl) (m_timerMgr c1)" by (rule alloc_timer_owns [OF p(2) 1]) (use r in auto)
  have w2: "owns b (j # i # owned_timers cl) (m_timerMgr c2)" by (rule alloc_timer_owns [OF w1 2]) (use r in auto)
  have w3: "owns b (k # j # i # owned_timers cl) (m_timerMgr c3)" by (rule alloc_timer_owns [OF w2 3]) (use r in auto)
  obtain tm where c3: "c3 = cl\<lparr>m_timerMgr := tm\<rparr>"
    using 1 2 3 alloc_timer_frame [of b cl] alloc_timer_frame [of b c1] alloc_timer_frame [of b c2] by auto
  let ?op = "\<lparr>ko_id = cl_nextId cl, ko_pingTimer = i, ko_recvTimer = j, ko_respTimer = k\<rparr>"
  let ?c = "c3\<lparr>m_keepAliveOps := [?op]\<rparr>"
  have w: "owns b (owned_timers ?c) (m_timerMgr ?c)"
    by (rule owns_perm [of b "k # j # i # owned_timers cl"])
       (use w3 True in \<open>simp_all add: c3 owned_timers_def keep_alive_timers_def\<close>)
  have "fits (KeepAliveOpsLimit (b_config b)) [?op]" using True by (auto simp: fits_def alloc_fails_def)
  then have "pools_ok b ?c" using p(1) by (simp add: pools_ok_def c3)
  then have c: "timers_owned b ?c" using w unfolding timers_owned_def by blast
  have e: "m_keepAliveOps cl = []" "\<not> alloc_fails (KeepAliveOpsLimit (b_config b)) ([] :: keep_alive_op list)"
    using True by auto
  have "KeepAliveOp_construct b cl = (?op, restartPingTimer ?op c3)"
    by (simp add: KeepAliveOp_construct_def 1 2 3 Let_def)
  moreover have "(restartPingTimer ?op c3)\<lparr>m_keepAliveOps := m_keepAliveOps (restartPingTimer ?op c3) @ [?op]\<rparr> =
      restartPingTimer ?op ?c"
    using e by (simp add: restartPingTimer_def on_timers_def Let_def c3)
  ultimately have "createKeepAliveOpIfNeeded b cl = register_op Type_KeepAlive (restartPingTimer ?op ?c)"
    using e by (simp add: createKeepAliveOpIfNeeded_def)
  moreover have "i \<in> set (owned_timers ?c)" by (simp add: owned_timers_def keep_alive_timers_def)
  ultimately show ?thesis using c by (simp add: restartPingTimer_def Let_def owned)
qed

section \<open>The messages of the broker\<close>

lemma brokerConnected_owned [owned]: "timers_owned b cl \<Longrightarrow> timers_owned b (brokerConnected b sessionPresent cl)"
  by (auto simp: brokerConnected_def Let_def owned op_timer_owned fold_owned)

lemma keep_alive_calls_owned:
  assumes o: "timers_owned b cl" and op: "op \<in> set (m_keepAliveOps cl)"
  shows "timers_owned b (restartRecvTimer op cl)" "timers_owned b (KeepAliveOp_handle_Pingresp op cl)"
    "timers_owned b (KeepAliveOp_handle_Disconnect b msg op cl)"
proof -
  have t: "ko_pingTimer op \<in> set (owned_timers cl)" "ko_recvTimer op \<in> set (owned_timers cl)"
    "ko_respTimer op \<in> set (owned_timers cl)"
    using keep_alive_owned(1) [OF op] by (simp_all add: keep_alive_timers_def)
  show "timers_owned b (restartRecvTimer op cl)" "timers_owned b (KeepAliveOp_handle_Pingresp op cl)"
    "timers_owned b (KeepAliveOp_handle_Disconnect b msg op cl)"
    using o t by (simp_all add: restartRecvTimer_def KeepAliveOp_handle_Pingresp_def
        KeepAliveOp_handle_Disconnect_def Let_def owned)
qed

lemma keep_alive_received_owned [owned]: "timers_owned b cl \<Longrightarrow> timers_owned b (keep_alive_received cl)"
proof -
  have "timers_owned b c \<Longrightarrow> set ops \<subseteq> set (m_keepAliveOps c) \<Longrightarrow> timers_owned b (fold KeepAliveOp_handle_other ops c)" for ops c
  proof (induction ops arbitrary: c)
    case (Cons op ops)
    have "m_keepAliveOps (KeepAliveOp_handle_other op c) = m_keepAliveOps c"
      by (simp add: KeepAliveOp_handle_other_def restartRecvTimer_def on_timers_def Let_def)
    moreover have "timers_owned b (KeepAliveOp_handle_other op c)"
      using Cons.prems by (simp add: KeepAliveOp_handle_other_def keep_alive_calls_owned)
    ultimately show ?case using Cons by simp
  qed simp
  then show "timers_owned b cl \<Longrightarrow> ?thesis" by (simp add: keep_alive_received_def)
qed

lemma recv_handlers_owned [owned]:
  "timers_owned b cl \<Longrightarrow> timers_owned b (RecvOp_handle_Publish b' pmsg i cl)"
  "timers_owned b cl \<Longrightarrow> timers_owned b (RecvOp_handle_Pubrel b' amsg i cl)"
  "timers_owned b cl \<Longrightarrow> timers_owned b (RecvOp_responseTimeoutInternal b' i cl)"
proof -
  assume o: "timers_owned b cl"
  have n: "timers_owned b (completeNotAuthorized b' m i c)" if "timers_owned b c" for m c
    using that by (simp add: completeNotAuthorized_def Let_def owned)
  have r: "timers_owned b (report_message b' m i info c)" if "timers_owned b c" for m info c
    using that by (simp add: report_message_def Let_def owned)
  have a: "timers_owned b (case res of Alias_Invalid \<Rightarrow> terminationWithReason b' RC_TopicAliasInvalid c1
      | Alias_Unknown \<Rightarrow> protocolErrorTermination b' c1 | Alias_Overflow \<Rightarrow> fault Out_Of_Range c1
      | Alias_Topic topic \<Rightarrow>
          (case q topic of None \<Rightarrow> fault Out_Of_Range c1 | Some False \<Rightarrow> completeNotAuthorized b' m i c1
           | Some True \<Rightarrow> report_message b' m i (info topic) c1))" if "timers_owned b c1" for res c1 q m info
    using that by (simp add: owned n r split: alias_result.split option.split bool.split)
  have "timers_owned b (accept_message b' m i c)" if "timers_owned b c" for m c
    unfolding accept_message_def Let_def split_beta
    by (intro owned_if a) (use that in \<open>simp_all add: owned\<close>)
  then show "timers_owned b (RecvOp_handle_Publish b' pmsg i cl)"
    using o by (auto simp: RecvOp_handle_Publish_def Let_def owned n split: option.split)
  show "timers_owned b (RecvOp_handle_Pubrel b' amsg i cl)"
    using o by (auto simp: RecvOp_handle_Pubrel_def Let_def owned op_timer_owned split: option.split)
  show "timers_owned b (RecvOp_responseTimeoutInternal b' i cl)"
    using o by (auto simp: RecvOp_responseTimeoutInternal_def owned split: option.split)
qed

lemma send_handlers_owned [owned]:
  "timers_owned b cl \<Longrightarrow> timers_owned b (SendOp_handle_Puback b' msg i cl)"
  "timers_owned b cl \<Longrightarrow> timers_owned b (SendOp_handle_Pubrec b' msg i cl)"
  "timers_owned b cl \<Longrightarrow> timers_owned b (SendOp_handle_Pubcomp b' msg i cl)"
proof -
  assume o: "timers_owned b cl"
  have f: "timers_owned b (ack_failed b' i c)" if "timers_owned b c" for c
    using that by (simp add: ack_failed_def owned)
  have c: "timers_owned b (confirmRegisteredAlias op c) = timers_owned b c" for op c
    by (simp add: confirmRegisteredAlias_def Let_def)
  show "timers_owned b (SendOp_handle_Puback b' msg i cl)" "timers_owned b (SendOp_handle_Pubcomp b' msg i cl)"
    using o by (auto simp: SendOp_handle_Puback_def SendOp_handle_Pubcomp_def Let_def owned op_timer_owned f c
        split: option.split)
  show "timers_owned b (SendOp_handle_Pubrec b' msg i cl)"
    using o by (auto simp: SendOp_handle_Pubrec_def Let_def split_beta owned op_timer_owned f c split: option.split)
qed

lemma sub_handlers_owned [owned]:
  "timers_owned b cl \<Longrightarrow> timers_owned b (SubscribeOp_handle_Suback b' msg i cl)"
  "timers_owned b cl \<Longrightarrow> timers_owned b (UnsubscribeOp_handle_Unsuback b' msg i cl)"
proof -
  assume o: "timers_owned b cl"
  have f: "timers_owned b (subscribe_failed b' st r i c)" "timers_owned b (unsubscribe_failed b' st r i c)"
    if "timers_owned b c" for st r c
    using that by (simp_all add: subscribe_failed_def unsubscribe_failed_def owned)
  show "timers_owned b (SubscribeOp_handle_Suback b' msg i cl)"
    using o op_timer_owned(3)
    by (auto simp: SubscribeOp_handle_Suback_def subscribe_op_at_def Let_def owned f split: option.split codes_result.split)
  show "timers_owned b (UnsubscribeOp_handle_Unsuback b' msg i cl)"
    using o op_timer_owned(4)
    by (auto simp: UnsubscribeOp_handle_Unsuback_def unsubscribe_op_at_def Let_def owned f
        split: option.split codes_result.split)
qed

lemma restart_op_owned [owned]:
  "timers_owned b cl \<Longrightarrow> timers_owned b (ConnectOp_restartTimer i cl)"
  "timers_owned b cl \<Longrightarrow> timers_owned b (ReauthOp_restartTimer i cl)"
  "timers_owned b cl \<Longrightarrow> timers_owned b (SubscribeOp_restartTimer i cl)"
  "timers_owned b cl \<Longrightarrow> timers_owned b (UnsubscribeOp_restartTimer i cl)"
  by (auto simp: ConnectOp_restartTimer_def ReauthOp_restartTimer_def SubscribeOp_restartTimer_def
      UnsubscribeOp_restartTimer_def owned op_timer_owned split: option.split)

lemma connect_handlers_owned [owned]:
  "timers_owned b cl \<Longrightarrow> timers_owned b (ConnectOp_handle_Connack b cmsg i cl)"
  "timers_owned b cl \<Longrightarrow> timers_owned b (ConnectOp_handle_Auth b amsg i cl)"
  "timers_owned b cl \<Longrightarrow> timers_owned b (ConnectOp_handle_Disconnect b dmsg i cl)"
proof -
  assume o: "timers_owned b cl"
  have f: "timers_owned b (connect_failed b r st i c)" if "timers_owned b c" for r st c
    using that by (simp add: connect_failed_def owned)
  have a: "timers_owned b (connection_accepted b op h r c)" if "timers_owned b c" for op h r c
    using that by (simp add: connection_accepted_def Let_def owned)
  show "timers_owned b (ConnectOp_handle_Connack b cmsg i cl)"
    using o by (auto simp: ConnectOp_handle_Connack_def Let_def owned op_timer_owned f a split: option.split)
  show "timers_owned b (ConnectOp_handle_Auth b amsg i cl)"
    using o by (auto simp: ConnectOp_handle_Auth_def Let_def split_beta owned op_timer_owned f
        split: option.split sum.split)
  show "timers_owned b (ConnectOp_handle_Disconnect b dmsg i cl)"
    using o by (simp add: ConnectOp_handle_Disconnect_def owned)
qed

lemma reauth_handler_owned [owned]:
  "timers_owned b cl \<Longrightarrow> timers_owned b (ReauthOp_handle_Auth b' msg i cl)"
proof -
  assume o: "timers_owned b cl"
  have f: "timers_owned b (reauth_failed b' r st i c)" if "timers_owned b c" for r st c
    using that by (simp add: reauth_failed_def owned)
  have "timers_owned b (reauth_continue b' op info i c)" if "timers_owned b c" for op info c
    using that by (auto simp: reauth_continue_def Let_def split_beta owned f split: sum.split)
  then show "timers_owned b (ReauthOp_handle_Auth b' msg i cl)"
    using o by (auto simp: ReauthOp_handle_Auth_def Let_def owned op_timer_owned f split: option.split)
qed

lemma createRecvOp_owned [owned]:
  assumes o: "timers_owned b cl"
  shows "timers_owned b (snd (createRecvOp b msg cl))"
proof (cases "alloc_fails (RecvOpsLimit (b_config b)) (m_recvOps cl)")
  case True
  then show ?thesis using o by (simp add: createRecvOp_def owned)
next
  case False
  let ?op = "fst (RecvOp_construct b cl)"
  let ?c = "(snd (RecvOp_construct b cl))\<lparr>m_recvOps := m_recvOps cl @ [?op]\<rparr>"
  have "timers_owned b ?c"
    by (rule take_owned [OF o pool_has_room(4) [OF o False]])
       (use o False in \<open>simp_all add: timers_owned_def pools_ok_def fits_append owned_timers_def
         RecvOp_construct_def split_beta Let_def\<close>)
  then show ?thesis
    using False by (simp add: createRecvOp_def RecvOp_construct_def split_beta Let_def owned)
qed

lemma publish_owned [owned]:
  "timers_owned b cl \<Longrightarrow> timers_owned b (handle_Publish b msg cl)"
proof -
  assume o: "timers_owned b cl"
  have n: "timers_owned b (handle_new_publish b msg c)" if "timers_owned b c" for c
    using createRecvOp_owned [OF that] by (simp add: handle_new_publish_def split_beta owned)
  have r: "timers_owned b (resetTimer b op c)" if "timers_owned b c" "op \<in> set (m_recvOps c)" for op c
    using that by (simp add: resetTimer_def owned owned_timers_def)
  show ?thesis
    using o by (auto simp: handle_Publish_def Let_def owned n r dest: findRecvOp_Some split: option.split)
qed

lemma resend_until_owned [owned]: "timers_owned b cl \<Longrightarrow> timers_owned b (resend_until n b' target idx cl)"
  by (induction n b' target idx cl rule: resend_until.induct) (auto simp: Let_def owned)

lemma ack_messages_owned [owned]:
  "timers_owned b cl \<Longrightarrow> timers_owned b (handle_Puback b' msg cl)"
  "timers_owned b cl \<Longrightarrow> timers_owned b (handle_Pubrec b' msg cl)"
  "timers_owned b cl \<Longrightarrow> timers_owned b (handle_Pubcomp b' msg cl)"
  "timers_owned b cl \<Longrightarrow> timers_owned b (handle_Pubrel b' msg cl)"
proof -
  have p: "timers_owned b (snd (processPublishAckMsg b' d pid pc c))"
    if "timers_owned b c" "\<And>i c. timers_owned b c \<Longrightarrow> timers_owned b (d i c)" for c d pid pc
    using that by (auto simp: processPublishAckMsg_def resendAllUntil_def Let_def owned split: option.split)
  show "timers_owned b cl \<Longrightarrow> timers_owned b (handle_Puback b' msg cl)"
    "timers_owned b cl \<Longrightarrow> timers_owned b (handle_Pubrec b' msg cl)"
    "timers_owned b cl \<Longrightarrow> timers_owned b (handle_Pubcomp b' msg cl)"
    by (simp_all add: handle_Puback_def handle_Pubrec_def handle_Pubcomp_def split_beta owned p)
  show "timers_owned b cl \<Longrightarrow> timers_owned b (handle_Pubrel b' msg cl)"
    by (auto simp: handle_Pubrel_def Let_def owned split: option.split)
qed

lemma dispatch_owned: "timers_owned b cl \<Longrightarrow> timers_owned b (dispatch_op b msg ref cl)"
proof -
  assume o: "timers_owned b cl"
  have k: "timers_owned b (dispatch_KeepAlive b msg i cl)" for i
    using o by (auto simp: dispatch_KeepAlive_def KeepAliveOp_handle_other_def keep_alive_calls_owned
        dest: keep_alive_owned(2) split: option.split in_msg.split)
  show ?thesis using o k by (auto simp: dispatch_op_def owned split: op_type.split in_msg.split)
qed

lemma dispatch_loop_owned: "timers_owned b cl \<Longrightarrow> timers_owned b (dispatch_loop b msg ks cl)"
  by (induction ks arbitrary: cl) (auto simp: dispatch_owned Let_def split: option.split)

lemma handle_message_owned [owned]: "timers_owned b cl \<Longrightarrow> timers_owned b (handle_message b msg cl)"
  by (cases msg) (simp_all add: handle_message_def handle_other_def dispatch_loop_owned owned)

section \<open>Time and the calls of the application\<close>

lemma fire_owned: "timers_owned b cl \<Longrightarrow> timers_owned b (fire b' cb cl)"
proof -
  assume o: "timers_owned b cl"
  have p: "timers_owned b (sendPing b' i cl)" for i
  proof (cases "keep_alive_op_at i cl")
    case (Some op)
    have "ko_respTimer op \<in> set (owned_timers (snd (sendMessage b' Pingreq_Out cl)))"
      using keep_alive_owned(1) [OF keep_alive_owned(2) [OF Some]] by (simp add: keep_alive_timers_def)
    then show ?thesis using o Some by (simp add: sendPing_def Let_def owned)
  qed (use o in \<open>simp add: sendPing_def\<close>)
  have t: "timers_owned b (pingTimeoutInternal b' i cl)" for i
    using o by (auto simp: pingTimeoutInternal_def owned split: option.split)
  show ?thesis
    using o p t by (auto simp: fire_def handshake_timeout_def SubscribeOp_opTimeoutInternal_def
        UnsubscribeOp_opTimeoutInternal_def owned split: timer_cb.split op_type.split)
qed

lemma timers_tick_owned: "timers_owned b cl \<Longrightarrow> timers_owned b (timers_tick b' ms cl)"
proof -
  assume o: "timers_owned b cl"
  have "timers_owned b (cl\<lparr>m_timerMgr := snd (timer_tick ms (m_timerMgr cl))\<rparr>)"
    using o owns_tick by (simp add: timers_owned_def) (simp add: pools_ok_def owned_timers_def)
  then show ?thesis by (simp add: timers_tick_def split_beta fold_owned fire_owned)
qed

lemma api_guard_owned [owned]:
  "timers_owned b cl \<Longrightarrow> timers_owned b (doApiEnter b' elapsed cl)"
  "timers_owned b cl \<Longrightarrow> timers_owned b (doApiExit cl)"
  "timers_owned b cl \<Longrightarrow> timers_owned b (ClientImpl_tick b' ms cl)"
proof -
  have e: "timers_owned b (doApiExit c)" if "timers_owned b c" for c
    using that by (simp add: doApiExit_def Let_def owned)
  then show "timers_owned b cl \<Longrightarrow> timers_owned b (doApiExit cl)" by simp
  show "timers_owned b cl \<Longrightarrow> timers_owned b (doApiEnter b' elapsed cl)"
    by (simp add: doApiEnter_def Let_def timers_tick_owned)
  show "timers_owned b cl \<Longrightarrow> timers_owned b (ClientImpl_tick b' ms cl)"
    by (simp add: ClientImpl_tick_def e timers_tick_owned)
qed

lemma process_owned [owned]:
  "timers_owned b cl \<Longrightarrow> timers_owned b (snd (processData b f elapsed data cl))"
  "timers_owned b cl \<Longrightarrow> timers_owned b (notifyNetworkDisconnected b elapsed cl)"
proof -
  assume o: "timers_owned b cl"
  have "timers_owned b (snd (process_loop n b f d k c))" if "timers_owned b c" for n d k c
    using that by (induction n arbitrary: d k c) (auto simp: owned split: size_result.split frame_result.split)
  then have "timers_owned b (snd (process_bytes b f d c))" if "timers_owned b c" for d c
    using that by (simp only: process_bytes_def)
  then show "timers_owned b (snd (processData b f elapsed data cl))"
    using o by (auto simp: processData_def split_beta Let_def owned split: process_result.split)
  show "timers_owned b (notifyNetworkDisconnected b elapsed cl)"
    using o by (simp add: notifyNetworkDisconnected_def Let_def owned)
qed

lemma destroyed_publish_owned:
  assumes o: "timers_owned b cl" and p: "\<not> alloc_fails (SendOpsLimit (b_config b)) (m_sendOps cl)"
  shows "timers_owned b (destroy_SendOp (fst (SendOp_construct b cl)) (snd (SendOp_construct b cl)))"
proof -
  let ?c = "snd (alloc_timer b cl)"
  have "owns b (fst (alloc_timer b cl) # owned_timers cl) (m_timerMgr ?c)"
    by (rule alloc_timer_owns)
       (use o pool_has_room(5) [OF o p] in \<open>auto simp: timers_owned_def room_for_def\<close>)
  from owns_destroy [OF this] have "owns b (owned_timers ?c) (Timer_destroy (fst (alloc_timer b cl)) (m_timerMgr ?c))"
    by (simp add: owned_timers_def)
  moreover have "pools_ok b ?c" using o by (simp add: timers_owned_def pools_ok_def)
  ultimately show ?thesis
    by (simp add: SendOp_construct_def split_beta Let_def destroy_SendOp_def timers_owned_def)
qed

lemma initInternal_owned: "timers_owned b cl \<Longrightarrow> timers_owned b (snd (initInternal b' elapsed cl))"
  by (simp add: initInternal_def Let_def owned)

lemma guards_room:
  "first_error (connect_guards b cl) = None \<Longrightarrow> \<not> alloc_fails (ConnectOpsLimit (b_config b)) (m_connectOps cl)"
  "first_error (subscribe_guards b cl) = None \<Longrightarrow> \<not> alloc_fails (SubscribeOpsLimit (b_config b)) (m_subscribeOps cl)"
  "first_error (unsubscribe_guards b cl) = None \<Longrightarrow> \<not> alloc_fails (UnsubscribeOpsLimit (b_config b)) (m_unsubscribeOps cl)"
  "first_error (publish_guards b cl) = None \<Longrightarrow> \<not> alloc_fails (SendOpsLimit (b_config b)) (m_sendOps cl)"
  "first_error (reauth_guards b cl) = None \<Longrightarrow> \<not> alloc_fails (ReauthOpsLimit (b_config b)) (m_reauthOps cl)"
  by (auto simp: connect_guards_def subscribe_guards_def unsubscribe_guards_def publish_guards_def reauth_guards_def
      split: if_splits)

lemma prepare_owned [owned]:
  assumes o: "timers_owned b cl"
  shows "timers_owned b (snd (prepare b elapsed p cl))"
proof (cases p)
  case Prepare_Connect
  have "timers_owned b (snd (connect_init b elapsed cl))"
    using o by (simp add: connect_init_def Let_def initInternal_owned)
  then show ?thesis
    using prepared_owned(1) guards_room(1) by (auto simp: Prepare_Connect connectPrepare_def split_beta split: option.split)
next
  case Prepare_Publish
  show ?thesis
    using prepared_owned(4) [OF o guards_room(4)] destroyed_publish_owned [OF o guards_room(4)] o
    by (auto simp: Prepare_Publish publishPrepare_def split_beta split: option.split)
qed (use o prepared_owned [OF o] guards_room [of b cl] in
    \<open>auto simp: disconnectPrepare_def subscribePrepare_def unsubscribePrepare_def reauthPrepare_def
       DisconnectOp_construct_def prepared_def split_beta split: option.split\<close>)

lemma alloc_packet_id_owned [simp]:
  "timers_owned b (snd (alloc_packet_id b' cl)) = timers_owned b cl"
  by (auto simp: alloc_packet_id_def split: option.split)

lemma send_calls_owned [owned]:
  assumes o: "timers_owned b cl"
  shows "timers_owned b (snd (send_call b' elapsed cb ref cl))"
proof -
  note calls = SubscribeOp_send_def UnsubscribeOp_send_def ConnectOp_send_def ReauthOp_send_def DisconnectOp_send_def
  have "timers_owned b (snd (SendOp_send b' elapsed cb i cl))" for i
  proof (cases "send_op_at i cl")
    case (Some op)
    let ?r = "if AtMostOnce < pm_qos (so_pubMsg op) then alloc_packet_id b' (allowNextPrepare cl)
      else (pm_packetId (so_pubMsg op), allowNextPrepare cl)"
    have "timers_owned b (snd ?r)" using o by simp
    then have "timers_owned b (upd_send i (\<lambda>p. p\<lparr>so_cb := cb, so_pubMsg := (so_pubMsg p)\<lparr>pm_packetId := fst ?r,
        pm_packetIdExists := x\<rparr>\<rparr>) (snd ?r))" for x
      by simp
    with o Some show ?thesis unfolding SendOp_send_def Let_def split_beta by (simp add: owned)
  qed (use o in \<open>simp add: SendOp_send_def\<close>)
  then show ?thesis
    using o by (cases "(b', elapsed, cb, ref, cl)" rule: send_call.cases)
      (auto simp: calls split_beta Let_def owned split: option.split)
qed

lemma cancel_calls_owned [owned]:
  "timers_owned b cl \<Longrightarrow> timers_owned b (snd (cancel_call b' ref cl))"
  by (cases "(b', ref, cl)" rule: cancel_call.cases)
     (auto simp: SubscribeOp_cancel_def UnsubscribeOp_cancel_def ConnectOp_cancel_def ReauthOp_cancel_def
       DisconnectOp_cancel_def SendOp_cancel_def owned split: option.split)

text \<open>
  A configuration call replaces the object behind its handle; the timers of the new object are
  those of the old one.
\<close>

lemma map_replaced:
  assumes "op_at oid i xs = Some x" and "distinct (map oid xs)" and "g y = g x"
  shows "map g (upd_op oid i (\<lambda>_. y) xs) = map g xs"
proof -
  have "z = x" if "z \<in> set xs" "oid z = i" for z
    using assms(2) that op_at_in [OF assms(1)] by (auto simp: distinct_map inj_on_def)
  then show ?thesis using assms(3) by (auto simp: upd_op_def)
qed

lemma replaced_owned:
  assumes ok: "client_ok cl" and o: "timers_owned b cl"
  shows "connect_op_at i cl = Some c \<Longrightarrow> hs_timer c' = hs_timer c \<Longrightarrow> timers_owned b (upd_connect i (\<lambda>_. c') cl)"
    and "reauth_op_at i cl = Some r \<Longrightarrow> hs_timer r' = hs_timer r \<Longrightarrow> timers_owned b (upd_reauth i (\<lambda>_. r') cl)"
    and "subscribe_op_at i cl = Some s \<Longrightarrow> sub_timer s' = sub_timer s \<Longrightarrow> timers_owned b (upd_subscribe i (\<lambda>_. s') cl)"
    and "unsubscribe_op_at i cl = Some u \<Longrightarrow> uns_timer u' = uns_timer u \<Longrightarrow> timers_owned b (upd_unsubscribe i (\<lambda>_. u') cl)"
proof -
  have d: "distinct (live_ids t cl)" for t using ok by (simp add: client_ok_def registry_ok_def)
  note defs = timers_owned_def pools_ok_def owned_timers_def
  show "connect_op_at i cl = Some c \<Longrightarrow> hs_timer c' = hs_timer c \<Longrightarrow> timers_owned b (upd_connect i (\<lambda>_. c') cl)"
    using o d [of Type_Connect] by (simp add: defs connect_op_at_def upd_connect_def live_ids_def map_replaced)
  show "reauth_op_at i cl = Some r \<Longrightarrow> hs_timer r' = hs_timer r \<Longrightarrow> timers_owned b (upd_reauth i (\<lambda>_. r') cl)"
    using o d [of Type_Reauth] by (simp add: defs reauth_op_at_def upd_reauth_def live_ids_def map_replaced)
  show "subscribe_op_at i cl = Some s \<Longrightarrow> sub_timer s' = sub_timer s \<Longrightarrow> timers_owned b (upd_subscribe i (\<lambda>_. s') cl)"
    using o d [of Type_Subscribe] by (simp add: defs subscribe_op_at_def upd_subscribe_def live_ids_def map_replaced)
  show "unsubscribe_op_at i cl = Some u \<Longrightarrow> uns_timer u' = uns_timer u \<Longrightarrow> timers_owned b (upd_unsubscribe i (\<lambda>_. u') cl)"
    using o d [of Type_Unsubscribe] by (simp add: defs unsubscribe_op_at_def upd_unsubscribe_def live_ids_def map_replaced)
qed

lemma config_timers [simp]:
  "hs_timer (snd (connect_msg_call call c)) = hs_timer c" "hs_timer (snd (ConnectOp_configAuth b ac c)) = hs_timer c"
  "hs_timer (snd (ReauthOp_configAuth b ss ac r)) = hs_timer r" "hs_timer (snd (ReauthOp_addUserProp b k v r)) = hs_timer r"
  "sub_timer (snd (subscribe_topic_call b cl stc s)) = sub_timer s"
  "sub_timer (snd (subscribe_extra_call b cl n s)) = sub_timer s"
  "sub_timer (snd (SubscribeOp_addUserProp b k v s)) = sub_timer s"
  "uns_timer (snd (unsubscribe_topic_call b cl t u)) = uns_timer u"
  "uns_timer (snd (UnsubscribeOp_addUserProp b k v u)) = uns_timer u"
  by (simp_all add: connect_msg_call_def ReauthOp_configAuth_def ReauthOp_addUserProp_def subscribe_topic_call_def
      subscribe_extra_call_def SubscribeOp_addUserProp_def unsubscribe_topic_call_def UnsubscribeOp_addUserProp_def
      split_beta Let_def)
     (simp add: ConnectOp_configAuth_def split_beta Let_def split: option.split)

lemma configExtra_keeps_timer [simp]:
  "hs_timer (snd (configExtra_requests b cfg (configExtra_limits b cfg op))) = hs_timer op"
proof -
  have f: "snd (fail_step bad r) = snd r" for bad and r :: "error_code \<times> connect_op" by (simp add: fail_step_def)
  have c: "hs_timer (snd (connect_step b given p remember r)) = hs_timer (snd r)"
    if "\<And>p. hs_timer (remember p) = hs_timer p" for given p remember r
    using that by (simp add: connect_step_def connect_prop_def)
  show ?thesis unfolding configExtra_requests_def configExtra_limits_def Let_def by (simp add: c f)
qed

lemma on_calls_owned:
  assumes ok: "client_ok cl" and o: "timers_owned b cl"
  shows "(\<And>p. hs_timer (snd (c p)) = hs_timer p) \<Longrightarrow> timers_owned b (snd (on_connect i c cl))"
    and "(\<And>p. hs_timer (snd (r p)) = hs_timer p) \<Longrightarrow> timers_owned b (snd (on_reauth i r cl))"
    and "(\<And>p. sub_timer (snd (s p)) = sub_timer p) \<Longrightarrow> timers_owned b (snd (on_subscribe i s cl))"
    and "(\<And>p. uns_timer (snd (u p)) = uns_timer p) \<Longrightarrow> timers_owned b (snd (on_unsubscribe i u cl))"
    and "timers_owned b (snd (on_disconnect i d cl))"
  using o replaced_owned [OF ok o]
  by (auto simp: on_connect_def on_reauth_def on_subscribe_def on_unsubscribe_def on_disconnect_def split: option.split)

lemma configBasic_owned: "timers_owned b cl \<Longrightarrow> timers_owned b (snd (configBasic b' cfg i cl))"
proof -
  assume o: "timers_owned b cl"
  have e: "timers_owned b (snd (if p then (x, c) else r))" if "timers_owned b c" "timers_owned b (snd r)" for p x c r
    using that by simp
  have q: "timers_owned b (snd (case y of None \<Rightarrow> (x, c) | Some v \<Rightarrow> r v))"
    if "timers_owned b c" "\<And>v. timers_owned b (snd (r v))" for y x c r
    using that by (simp split: option.split)
  show ?thesis
    unfolding configBasic_def Let_def using o
    by (auto split: option.split sum.split intro!: e q simp del: if_split)
qed

lemma configure_owned:
  assumes ok: "client_ok cl" and o: "timers_owned b cl"
  shows "timers_owned b (snd (configure b' cfg i cl))"
proof -
  have x: "timers_owned b (snd (ConnectOp_configExtra b' xc i cl))" for xc
  proof (cases "connect_op_at i cl")
    case (Some op)
    let ?op = "snd (configExtra_requests b' xc (configExtra_limits b' xc op))"
    have u: "upd_connect i (\<lambda>_. ?op) (on_session_state k cl) = on_session_state k (upd_connect i (\<lambda>_. ?op) cl)" for k
      by (simp add: upd_connect_def on_session_state_def)
    have "timers_owned b (upd_connect i (\<lambda>_. ?op) cl)" by (rule replaced_owned(1) [OF ok o Some]) simp
    then show ?thesis using Some by (simp add: ConnectOp_configExtra_def Let_def split_beta u)
  qed (use o in \<open>simp add: ConnectOp_configExtra_def\<close>)
  have p: "timers_owned b (snd (configExtra b' pc i cl))" "timers_owned b (snd (SendOp_addUserProp b' k v i cl))"
    "timers_owned b (snd (setResendAttempts n i cl))" for pc k v n
    using o by (auto simp: configExtra_def SendOp_addUserProp_def setResendAttempts_def set_pub_props_def split_beta
        split: option.split)
  show ?thesis
    using x p configBasic_owned [OF o] on_calls_owned [OF ok o]
    by (cases cfg) simp_all
qed

lemma setters_owned [owned]:
  "timers_owned b cl \<Longrightarrow> timers_owned b (snd (setPublishOrdering q cl))"
  "timers_owned b cl \<Longrightarrow> timers_owned b (snd (allocPubTopicAlias b' topic n cl))"
  "timers_owned b cl \<Longrightarrow> timers_owned b (snd (freePubTopicAlias b' topic cl))"
  "timers_owned b cl \<Longrightarrow> timers_owned b (setResponseTimeout ref ms cl)"
  by (auto simp: setPublishOrdering_def allocPubTopicAlias_def freePubTopicAlias_def set_alias_tables_def Let_def
      split: option.split)
     (cases "(ref, ms, cl)" rule: setResponseTimeout.cases; simp)

lemma change_setting_owned [owned]: "timers_owned b cl \<Longrightarrow> timers_owned b (snd (change_setting b' setting cl))"
  by (cases setting) (simp_all add: setting_defs)

lemma api_step_owned:
  assumes "client_ok cl" and "timers_owned b cl"
  shows "timers_owned b (api_step b f cl ev)"
  using assms configure_owned [OF assms]
  by (cases "(b, f, fst ev, snd ev, cl)" rule: api_exec.cases) (simp_all add: api_step_def owned)

text \<open>The invariant of the machine: that of the registry, and this one.\<close>

definition api_owned :: "build \<Rightarrow> framing \<Rightarrow> client \<Rightarrow> bool" where
  "api_owned b f cl \<longleftrightarrow> api_ok f cl \<and> (frame_ok f \<longrightarrow> timers_owned b cl)"

interpretation api_timers: step_invariant "api_step b f" "api_owned b f" for b :: build and f :: framing
proof
  fix cl ev
  assume a: "api_owned b f cl"
  then have "api_ok f (api_step b f cl ev)" using api.step_inv by (simp add: api_owned_def)
  moreover have "timers_owned b (api_step b f cl ev)" if "frame_ok f"
    using a that api_step_owned by (simp add: api_owned_def api_ok_def)
  ultimately show "api_owned b f (api_step b f cl ev)" by (simp add: api_owned_def)
qed

lemma with_callbacks_owned: "timers_owned b (with_callbacks timers (ClientImpl_init b))"
proof -
  obtain i and m :: "timer_cb timer_mgr" where a: "allocTimer (b_config b) TimerMgr_init = (i, m)"
    by (cases "allocTimer (b_config b) (TimerMgr_init :: timer_cb timer_mgr)")
  have "owns b [] TimerMgr_init"
    by (simp add: owns_def fits_def timers_ok_init) (simp add: TimerMgr_init_def timer_used_def)
  then have "owns b [i] m" by (rule owns_alloc [OF _ a]) auto
  then show ?thesis
    using a by (simp add: timers_owned_def pools_ok_def owned_timers_def fits_def with_callbacks_def ClientImpl_init_def)
qed

section \<open>Properties\<close>

text \<open>
  C4: In every state that API calls within the contract lead to from a new client, with arbitrary
  bytes from the broker: the table of timers has at most the entries that the limits allow, and
  while it has fewer than 4294967296 entries its counter is right, free entries are pristine and the
  allocated entries are exactly the timers of the client and of its live operations, each held
  once and by a valid handle. So no timer leaks, none is shared, and no constructor gets an
  invalid handle.
\<close>

theorem timers_belong_to_operations:
  assumes "frame_ok f"
  shows "let cl = foldl (api_step b f) (with_callbacks timers (ClientImpl_init b)) calls; m = m_timerMgr cl in
         (TimersLimit (b_config b) = 0 \<or> length (m_timers m) \<le> TimersLimit (b_config b)) \<and>
         (length (m_timers m) \<le> InvalidIdx \<longrightarrow>
            timers_ok m \<and> distinct (owned_timers cl) \<and> set (owned_timers cl) = timer_used m \<and>
            (\<forall>idx\<in>set (owned_timers cl). timer_isValid idx))"
proof -
  let ?cl = "foldl (api_step b f) (with_callbacks timers (ClientImpl_init b)) calls"
  have "cl_fault (with_callbacks timers (ClientImpl_init b)) = None"
    by (simp add: with_callbacks_def ClientImpl_init_def split_beta Let_def)
  then have "api_owned b f (with_callbacks timers (ClientImpl_init b))"
    by (simp add: api_owned_def api_ok_def with_callbacks_ok with_callbacks_owned)
  from api_timers.run_inv [OF this, of calls] assms
  have o: "owns b (owned_timers ?cl) (m_timerMgr ?cl)" by (simp add: api_owned_def timers_owned_def)
  show ?thesis
    using o owns_used [OF o] owns_distinct [OF o] owns_valid [OF o] by (simp add: owns_def fits_def Let_def)
qed

section \<open>A concrete run\<close>

text \<open>The bare-metal build has room for 22 timers; a client that prepares and sends CONNECT.\<close>

lemma bare_metal_timers: "TimersLimit bare_metal_config = 22"
  by (simp add: ext_config_defs bare_metal_config_def)

theorem timers_belong_to_operations_witness:
  "let cl = foldl (api_step (sample_build\<lparr>b_config := bare_metal_config\<rparr>) ping_framing)
       (with_callbacks False (ClientImpl_init (sample_build\<lparr>b_config := bare_metal_config\<rparr>)))
       [(0, Call_Prepare Prepare_Connect), (0, Call_Send (Type_Connect, 0) True), (0, Call_ProcessData [208, 0])]
   in length (m_timers (m_timerMgr cl)) \<le> 22 \<and> distinct (owned_timers cl)"
  using timers_belong_to_operations [OF ping_frame_ok, of "sample_build\<lparr>b_config := bare_metal_config\<rparr>" False
      "[(0, Call_Prepare Prepare_Connect), (0, Call_Send (Type_Connect, 0) True), (0, Call_ProcessData [208, 0])]"]
  by (auto simp: bare_metal_timers InvalidIdx_def Let_def simp del: foldl_Cons)

end
