(* ===== verification/Keep_Alive_Flow.thy ===== *)
theory Keep_Alive_Flow
  imports Client_Prepare
begin

text \<open>
  Keep alive: the three timers of \<^verbatim>\<open>KeepAliveOp\<close> (\<^verbatim>\<open>client/lib/src/op/KeepAliveOp.cpp\<close>), ticked by
  \<^verbatim>\<open>TimerMgr\<close>, against an automaton that knows only how long each of them still runs. An idle
  connection refines the automaton for every sequence of ticks and answers of the broker. What
  the automaton does then holds of the client: a broker that stops answering is given up in
  bounded time, and the cases in which the client keeps silent longer than the keep alive
  interval, or asks again at the moment it gives up, are made explicit.
\<close>

section \<open>The automaton\<close>

text \<open>What is left of each timer, \<^term>\<open>None\<close> when it does not run.\<close>

record keep_alive_view =
  kv_ping :: "64 word option"
  kv_recv :: "64 word option"
  kv_resp :: "64 word option"

datatype ka_event = Tick "32 word" | Pong

fun due :: "32 word \<Rightarrow> 64 word option \<Rightarrow> bool" where
  "due ms None = False"
| "due ms (Some t) \<longleftrightarrow> t \<le> ucast ms"

fun aged :: "32 word \<Rightarrow> 64 word option \<Rightarrow> 64 word option" where
  "aged ms None = None"
| "aged ms (Some t) = (if t \<le> ucast ms then None else Some (t - ucast ms))"

text \<open>Asking the broker, unless an answer is awaited: \<^term>\<open>k\<close> is the keep alive interval, \<^term>\<open>r\<close> the time to answer.\<close>

definition ka_ask :: "64 word \<Rightarrow> 64 word \<Rightarrow> keep_alive_view \<Rightarrow> keep_alive_view \<times> event list" where
  "ka_ask k r v =
     (if kv_resp v \<noteq> None then (v, [])
      else (v\<lparr>kv_ping := Some k, kv_resp := Some r\<rparr>, [Ev_Output Pingreq_Out]))"

definition ka_given_up :: "event list" where
  "ka_given_up =
     [Ev_Output (Disconnect_Out (Some RC_KeepAliveTimeout) (Some [])),
      Ev_BrokerDisconnected BDR_NoBrokerResponse None]"

fun ka_step :: "64 word \<Rightarrow> 64 word \<Rightarrow> keep_alive_view option \<Rightarrow> ka_event \<Rightarrow> keep_alive_view option \<times> event list" where
  "ka_step k r None e = (None, [])"
| "ka_step k r (Some v) Pong = (Some (v\<lparr>kv_resp := None, kv_recv := Some k\<rparr>), [])"
| "ka_step k r (Some v) (Tick ms) =
     (let v0 = \<lparr>kv_ping = aged ms (kv_ping v), kv_recv = aged ms (kv_recv v), kv_resp = aged ms (kv_resp v)\<rparr>;
          (v1, out1) = (if due ms (kv_ping v) then ka_ask k r v0 else (v0, []));
          (v2, out2) = (if due ms (kv_recv v) then ka_ask k r v1 else (v1, []))
      in if due ms (kv_resp v) then (None, out1 @ out2 @ ka_given_up) else (Some v2, out1 @ out2))"

fun ka_run :: "64 word \<Rightarrow> 64 word \<Rightarrow> keep_alive_view option \<Rightarrow> ka_event list \<Rightarrow> keep_alive_view option \<times> event list" where
  "ka_run k r s [] = (s, [])"
| "ka_run k r s (e # es) =
     (let (s1, out1) = ka_step k r s e; (s2, out2) = ka_run k r s1 es in (s2, out1 @ out2))"

lemma ka_run_dead [simp]: "ka_run k r None es = (None, [])"
  by (induction es) simp_all

section \<open>Three timers of a table\<close>

definition timer_left :: "timer_idx \<Rightarrow> timer_cb timer_mgr \<Rightarrow> 64 word option" where
  "timer_left idx m =
     (if idx < length (m_timers m) \<and> timer_running (m_timers m ! idx)
      then Some (m_timeoutMs (m_timers m ! idx)) else None)"

definition ka_view :: "keep_alive_op \<Rightarrow> timer_cb timer_mgr \<Rightarrow> keep_alive_view" where
  "ka_view op m =
     \<lparr>kv_ping = timer_left (ko_pingTimer op) m, kv_recv = timer_left (ko_recvTimer op) m,
      kv_resp = timer_left (ko_respTimer op) m\<rparr>"

text \<open>A timer that is allocated and not suspended, with its callback.\<close>

definition timer_for :: "timer_idx \<Rightarrow> timer_cb \<Rightarrow> timer_cb timer_mgr \<Rightarrow> bool" where
  "timer_for idx cb m \<longleftrightarrow>
     idx < length (m_timers m) \<and> m_allocated (m_timers m ! idx) \<and> \<not> m_suspended (m_timers m ! idx) \<and>
     m_timeoutCb (m_timers m ! idx) \<in> {None, Some cb}"

definition ka_table :: "keep_alive_op \<Rightarrow> timer_cb timer_mgr \<Rightarrow> bool" where
  "ka_table op m \<longleftrightarrow>
     ko_pingTimer op < ko_recvTimer op \<and> ko_recvTimer op < ko_respTimer op \<and> timer_isValid (ko_respTimer op) \<and>
     timer_for (ko_pingTimer op) (Cb_SendPing (ko_id op)) m \<and>
     timer_for (ko_recvTimer op) (Cb_KeepAliveRecv (ko_id op)) m \<and>
     timer_for (ko_respTimer op) (Cb_PingTimeout (ko_id op)) m \<and>
     (\<forall>idx<length (m_timers m). timer_running (m_timers m ! idx) \<longrightarrow>
        idx \<in> {ko_pingTimer op, ko_recvTimer op, ko_respTimer op})"

lemma timer_for_active: "timer_for idx cb m \<Longrightarrow> timerIsActive idx m \<longleftrightarrow> timer_left idx m \<noteq> None"
  by (auto simp: timer_for_def timerIsActive_def timer_left_def timer_running_def)

lemma timer_left_wait:
  "timer_for idx cb m \<Longrightarrow> timer_left j (timerWait idx t cb' m) = (if j = idx then Some t else timer_left j m)"
  by (auto simp: timer_left_def timerWait_def timer_for_def timer_running_def nth_list_update)

lemma timer_left_cancel:
  "timer_for idx cb m \<Longrightarrow> timer_left j (timerCancel idx m) = (if j = idx then None else timer_left j m)"
  by (auto simp: timer_left_def timerCancel_def timer_for_def timer_running_def cancel_info_def nth_list_update)

lemma ka_table_calls:
  assumes "ka_table op m"
  shows "ka_table op (timerWait (ko_pingTimer op) t (Cb_SendPing (ko_id op)) m)"
    "ka_table op (timerWait (ko_recvTimer op) t (Cb_KeepAliveRecv (ko_id op)) m)"
    "ka_table op (timerWait (ko_respTimer op) t (Cb_PingTimeout (ko_id op)) m)"
    "ka_table op (timerCancel (ko_respTimer op) m)"
  using assms
  by (auto simp: ka_table_def timer_for_def timerWait_def timerCancel_def cancel_info_def timer_running_def
      nth_list_update)

text \<open>A tick calls back, in the order of the table, those of the three whose time is up.\<close>

lemma filter_nth: "filter P xs = map ((!) xs) (filter (\<lambda>i. P (xs ! i)) [0..<length xs])"
  by (metis (no_types, lifting) comp_def filter_cong filter_map map_nth)

lemma filter_three:
  assumes "p < q" "q < r" "r < n" and "\<And>i. i < n \<Longrightarrow> P i \<Longrightarrow> i = p \<or> i = q \<or> i = r"
  shows "filter P [0..<n] = filter P [p, q, r]"
proof (rule sorted_distinct_set_unique)
  show "set (filter P [0..<n]) = set (filter P [p, q, r])" 
    using assms(1-3) by (auto dest: assms(4))
qed (use assms in \<open>simp_all add: sorted_wrt_filter\<close>)

lemma ka_table_tick:
  assumes k: "ka_table op m"
  shows "fst (timer_tick ms m) =
      (if due ms (kv_ping (ka_view op m)) then [Cb_SendPing (ko_id op)] else []) @
      (if due ms (kv_recv (ka_view op m)) then [Cb_KeepAliveRecv (ko_id op)] else []) @
      (if due ms (kv_resp (ka_view op m)) then [Cb_PingTimeout (ko_id op)] else [])"
    and "ka_table op (snd (timer_tick ms m))"
    and "ka_view op (snd (timer_tick ms m)) =
      \<lparr>kv_ping = aged ms (kv_ping (ka_view op m)), kv_recv = aged ms (kv_recv (ka_view op m)),
       kv_resp = aged ms (kv_resp (ka_view op m))\<rparr>"
proof -
  let ?p = "ko_pingTimer op" and ?q = "ko_recvTimer op" and ?r = "ko_respTimer op"
  let ?P = "\<lambda>i. timer_running (m_timers m ! i) \<and> m_timeoutMs (m_timers m ! i) \<le> ucast ms"
  have "filter ?P [0..<length (m_timers m)] = filter ?P [?p, ?q, ?r]"
    by (rule filter_three) (use k in \<open>auto simp: ka_table_def timer_for_def\<close>)
  moreover have "?P i \<longleftrightarrow> due ms (timer_left i m)" if "i < length (m_timers m)" for i
    using that by (simp add: timer_left_def)
  moreover have "the (m_timeoutCb (m_timers m ! i)) = cb" if "timer_for i cb m" "due ms (timer_left i m)" for i cb
    using that by (auto simp: timer_for_def timer_left_def timer_running_def split: if_splits)
  ultimately show "fst (timer_tick ms m) =
      (if due ms (kv_ping (ka_view op m)) then [Cb_SendPing (ko_id op)] else []) @
      (if due ms (kv_recv (ka_view op m)) then [Cb_KeepAliveRecv (ko_id op)] else []) @
      (if due ms (kv_resp (ka_view op m)) then [Cb_PingTimeout (ko_id op)] else [])"
    using k by (simp add: timer_tick_fst filter_nth [of _ "m_timers m"] ka_view_def ka_table_def timer_for_def)
  have run: "timer_running (snd (tick_info ms info)) \<longleftrightarrow> timer_running info \<and> \<not> m_timeoutMs info \<le> ucast ms" for info :: "timer_cb timer_info"
    by (auto simp: tick_info_def timer_running_def cancel_info_def)
  have left: "timer_left i (snd (timer_tick ms m)) = aged ms (timer_left i m)" for i
    by (auto simp: timer_left_def timer_tick_snd run) (auto simp: tick_info_def timer_running_def)
  then show "ka_view op (snd (timer_tick ms m)) =
      \<lparr>kv_ping = aged ms (kv_ping (ka_view op m)), kv_recv = aged ms (kv_recv (ka_view op m)),
       kv_resp = aged ms (kv_resp (ka_view op m))\<rparr>"
    by (simp add: ka_view_def)
  have "timer_for i cb (snd (timer_tick ms m))" if "timer_for i cb m" for i cb
    using that by (auto simp: timer_for_def timer_tick_snd tick_info_def cancel_info_def)
  then show "ka_table op (snd (timer_tick ms m))" using k run by (auto simp: ka_table_def timer_tick_snd)
qed

section \<open>An idle connection\<close>

text \<open>
  A connected client with nothing to do but to keep the connection alive; \<^term>\<open>k\<close> and \<^term>\<open>r\<close> are its
  keep alive interval and its response timeout. PINGREQ and DISCONNECT fit the limits of the broker.
\<close>

definition ka_idle :: "build \<Rightarrow> keep_alive_op \<Rightarrow> 64 word \<Rightarrow> 64 word \<Rightarrow> client \<Rightarrow> bool" where
  "ka_idle b op k r cl \<longleftrightarrow>
     m_keepAliveOps cl = [op] \<and> m_ops cl = [Some (Type_KeepAlive, ko_id op)] \<and>
     m_recvOps cl = [] \<and> m_sendOps cl = [] \<and> \<not> m_disconnecting (m_sessionState cl) \<and>
     m_keepAliveMs (m_sessionState cl) \<noteq> 0 \<and> k = ucast (m_keepAliveMs (m_sessionState cl)) \<and>
     r = of_nat (m_responseTimeoutMs (m_configState cl)) \<and> ka_table op (m_timerMgr cl) \<and>
     fst (sendMessage b Pingreq_Out cl) = EC_Success \<and>
     fst (sendMessage b (Disconnect_Out (Some RC_KeepAliveTimeout) (Some [])) cl) = EC_Success"

text \<open>The connection was given up: nothing is left that could run.\<close>

definition ka_gone :: "client \<Rightarrow> bool" where
  "ka_gone cl \<longleftrightarrow>
     m_keepAliveOps cl = [] \<and> (\<forall>p\<in>set (m_ops cl). p = None) \<and> m_disconnecting (m_sessionState cl) \<and>
     \<not> m_connected (m_sessionState cl) \<and>
     (\<forall>idx<length (m_timers (m_timerMgr cl)). \<not> timer_running (m_timers (m_timerMgr cl) ! idx))"

text \<open>Outside the API, ticked by an application that needs no tick callbacks.\<close>

definition ka_outside :: "client \<Rightarrow> bool" where
  "ka_outside cl \<longleftrightarrow> m_apiEnterCount cl = 0 \<and> \<not> m_nextTickProgramCb cl"

lemma sendMessage_fst:
  "m_sessionState c = m_sessionState cl \<Longrightarrow> fst (sendMessage b msg c) = fst (sendMessage b msg cl)"
  by (simp add: sendMessage_def Let_def)

lemma ka_idle_cong:
  assumes "ka_idle b op k r cl" and "ka_table op (m_timerMgr c)" and "m_keepAliveOps c = m_keepAliveOps cl"
    and "m_ops c = m_ops cl" "m_recvOps c = m_recvOps cl" "m_sendOps c = m_sendOps cl"
    and "m_sessionState c = m_sessionState cl" "m_configState c = m_configState cl"
  shows "ka_idle b op k r c"
  using assms sendMessage_fst [OF assms(7)] by (simp add: ka_idle_def)

lemma ka_idle_sends:
  assumes "ka_idle b op k r cl" and "fst (sendMessage b msg cl) = EC_Success"
  shows "snd (sendMessage b msg cl) =
    on_timers (timerWait (ko_pingTimer op) k (Cb_SendPing (ko_id op))) (emit (Ev_Output msg) cl)"
proof -
  have i: "m_keepAliveOps cl = [op]" "m_keepAliveMs (m_sessionState cl) \<noteq> 0"
    "k = ucast (m_keepAliveMs (m_sessionState cl))"
    using assms(1) by (simp_all add: ka_idle_def)
  have "snd (sendMessage b msg cl) = fold messageSent (m_keepAliveOps cl) (emit (Ev_Output msg) cl)"
    using assms(2) by (auto simp: sendMessage_def Let_def split: if_splits)
  then show ?thesis
    using i(2) by (simp add: i(1,3) messageSent_def restartPingTimer_def Let_def) (simp add: emit_def)
qed

lemma sendPing_idle:
  assumes i: "ka_idle b op k r cl"
  shows "ka_idle b op k r (sendPing b (ko_id op) cl)"
    and "ka_view op (m_timerMgr (sendPing b (ko_id op) cl)) = fst (ka_ask k r (ka_view op (m_timerMgr cl)))"
    and "cl_events (sendPing b (ko_id op) cl) = cl_events cl @ snd (ka_ask k r (ka_view op (m_timerMgr cl)))"
    and "m_nextTickProgramCb (sendPing b (ko_id op) cl) = m_nextTickProgramCb cl"
    and "m_apiEnterCount (sendPing b (ko_id op) cl) = m_apiEnterCount cl"
proof -
  let ?m = "m_timerMgr cl" and ?i = "ko_id op"
  have t: "ka_table op ?m" using i by (simp add: ka_idle_def)
  then have fors: "timer_for (ko_pingTimer op) (Cb_SendPing ?i) ?m" "timer_for (ko_respTimer op) (Cb_PingTimeout ?i) ?m"
    and d: "ko_pingTimer op \<noteq> ko_respTimer op" "ko_recvTimer op \<noteq> ko_respTimer op" "ko_pingTimer op \<noteq> ko_recvTimer op"
    by (auto simp: ka_table_def)
  have at: "keep_alive_op_at ?i cl = Some op" using i by (simp add: ka_idle_def keep_alive_op_at_def op_at_def)
  let ?w = "timerWait (ko_pingTimer op) k (Cb_SendPing ?i) ?m"
  let ?u = "timerWait (ko_respTimer op) r (Cb_PingTimeout ?i) ?w"
  have tw: "ka_table op ?w" "ka_table op ?u" using ka_table_calls(1,3) t by blast+
  then have forw: "timer_for (ko_respTimer op) (Cb_PingTimeout ?i) ?w" by (simp add: ka_table_def)
  have s: "sendPing b ?i cl = (if kv_resp (ka_view op ?m) \<noteq> None then cl
      else on_timers (timerWait (ko_respTimer op) r (Cb_PingTimeout ?i))
        (on_timers (timerWait (ko_pingTimer op) k (Cb_SendPing ?i)) (emit (Ev_Output Pingreq_Out) cl)))"
    using i ka_idle_sends [OF i, of Pingreq_Out] timer_for_active [OF fors(2)]
    by (simp add: sendPing_def at Let_def ka_view_def ka_idle_def) (simp add: on_timers_def emit_def)
  have v: "ka_view op ?u = (ka_view op ?m)\<lparr>kv_ping := Some k, kv_resp := Some r\<rparr>"
    using d by (simp add: ka_view_def timer_left_wait [OF forw] timer_left_wait [OF fors(1)])
  have eff: "m_timerMgr (on_timers g (on_timers h (emit ev cl))) = g (h ?m)"
    "cl_events (on_timers g (on_timers h (emit ev cl))) = cl_events cl @ [ev]" for g h ev
    by (simp_all add: on_timers_def emit_def)
  show "ka_idle b op k r (sendPing b ?i cl)"
    unfolding s by (rule ka_idle_cong [OF i]) (use t tw(2) in \<open>auto simp: on_timers_def emit_def\<close>)
  show "ka_view op (m_timerMgr (sendPing b ?i cl)) = fst (ka_ask k r (ka_view op ?m))"
    "cl_events (sendPing b ?i cl) = cl_events cl @ snd (ka_ask k r (ka_view op ?m))"
    unfolding s ka_ask_def by (simp_all add: eff v)
  show "m_nextTickProgramCb (sendPing b ?i cl) = m_nextTickProgramCb cl"
    "m_apiEnterCount (sendPing b ?i cl) = m_apiEnterCount cl"
    unfolding s by (simp_all add: on_timers_def emit_def)
qed

text \<open>Giving up: DISCONNECT goes out, the operation and its timers are destroyed, the application is told.\<close>

lemma ka_table_destroyed:
  assumes "ka_table op m"
  shows "\<forall>idx<length (m_timers m). \<not> timer_running (m_timers
    (Timer_destroy (ko_pingTimer op) (Timer_destroy (ko_recvTimer op) (Timer_destroy (ko_respTimer op) m))) ! idx)"
    and "length (m_timers (Timer_destroy (ko_pingTimer op) (Timer_destroy (ko_recvTimer op)
      (Timer_destroy (ko_respTimer op) m)))) = length (m_timers m)"
  using assms
  by (auto simp: ka_table_def timer_for_def Timer_destroy_def freeTimer_def timer_isValid_def nth_list_update
      timer_running_def)

lemma opComplete_KeepAlive_idle:
  assumes "m_ops c = [Some (Type_KeepAlive, ko_id op)]" and "m_keepAliveOps c = [op]"
  shows "opComplete b (Type_KeepAlive, ko_id op) c =
    c\<lparr>m_ops := [None], m_opsDeleted := True, m_keepAliveOps := [],
      m_timerMgr := Timer_destroy (ko_pingTimer op) (Timer_destroy (ko_recvTimer op)
        (Timer_destroy (ko_respTimer op) (m_timerMgr c)))\<rparr>"
  using assms
  by (simp add: opComplete_def opComplete_with_def opComplete_KeepAlive_def op_at_def eraseFromList_def erase_at_def
      find_idx_def destroy_timer_def on_timers_def)

lemma pingTimeout_idle:
  assumes i: "ka_idle b op k r cl"
  shows "ka_gone (pingTimeoutInternal b (ko_id op) cl)"
    and "cl_events (pingTimeoutInternal b (ko_id op) cl) = cl_events cl @ ka_given_up"
    and "m_nextTickProgramCb (pingTimeoutInternal b (ko_id op) cl) = m_nextTickProgramCb cl"
    and "m_apiEnterCount (pingTimeoutInternal b (ko_id op) cl) = m_apiEnterCount cl"
proof -
  let ?d = "Disconnect_Out (Some RC_KeepAliveTimeout) (Some [])"
  let ?w = "timerWait (ko_pingTimer op) k (Cb_SendPing (ko_id op)) (m_timerMgr cl)"
  let ?x = "Timer_destroy (ko_pingTimer op) (Timer_destroy (ko_recvTimer op) (Timer_destroy (ko_respTimer op) ?w))"
  have l: "m_keepAliveOps cl = [op]" "m_ops cl = [Some (Type_KeepAlive, ko_id op)]" "m_recvOps cl = []" "m_sendOps cl = []"
    and t: "ka_table op ?w"
    using i ka_table_calls(1) by (simp_all add: ka_idle_def)
  have at: "keep_alive_op_at (ko_id op) cl = Some op" using l by (simp add: keep_alive_op_at_def op_at_def)
  have s: "sendDisconnectWithReason b RC_KeepAliveTimeout cl =
      cl\<lparr>cl_events := cl_events cl @ [Ev_Output ?d], m_timerMgr := ?w\<rparr>"
    using ka_idle_sends [OF i, of ?d] i
    by (simp add: sendDisconnectWithReason_def ka_idle_def) (simp add: on_timers_def emit_def)
  define c where "c = on_session_state (\<lambda>s. s\<lparr>m_disconnecting := True\<rparr>) (on_session_state (\<lambda>s. s\<lparr>m_connected := False\<rparr>)
      (on_client_state (\<lambda>s. s\<lparr>m_initialized := False\<rparr>) (sendDisconnectWithReason b RC_KeepAliveTimeout cl)))"
  have c: "m_ops c = [Some (Type_KeepAlive, ko_id op)]" "m_keepAliveOps c = [op]" "m_timerMgr c = ?w"
    "cl_events c = cl_events cl @ [Ev_Output ?d]" "m_apiEnterCount c = m_apiEnterCount cl"
    "m_nextTickProgramCb c = m_nextTickProgramCb cl" "m_disconnecting (m_sessionState c)" "\<not> m_connected (m_sessionState c)"
    using l by (simp_all add: c_def s) (simp_all add: on_session_state_def on_client_state_def)
  have "terminateOps b St_BrokerDisconnected AbortSendRecvOps c = opComplete b (Type_KeepAlive, ko_id op) c"
    using c(1) by (simp add: terminateOps_def terminate_at_def terminateOp_def)
  then have e: "pingTimeoutInternal b (ko_id op) cl = emit (Ev_BrokerDisconnected BDR_NoBrokerResponse None)
      (c\<lparr>m_ops := [None], m_opsDeleted := True, m_keepAliveOps := [], m_timerMgr := ?x\<rparr>)"
    using at l opComplete_KeepAlive_idle [OF c(1,2)] c(3)
    by (simp add: pingTimeoutInternal_def brokerDisconnected_def Let_def c_def s)
       (simp add: on_session_state_def on_client_state_def)
  show "ka_gone (pingTimeoutInternal b (ko_id op) cl)"
    unfolding e using c(7,8) ka_table_destroyed [OF t] by (simp add: ka_gone_def emit_def)
  show "cl_events (pingTimeoutInternal b (ko_id op) cl) = cl_events cl @ ka_given_up"
    "m_nextTickProgramCb (pingTimeoutInternal b (ko_id op) cl) = m_nextTickProgramCb cl"
    "m_apiEnterCount (pingTimeoutInternal b (ko_id op) cl) = m_apiEnterCount cl"
    unfolding e using c by (simp_all add: emit_def ka_given_up_def)
qed

section \<open>The idle connection refines the automaton\<close>

fun ka_client :: "build \<Rightarrow> client \<Rightarrow> ka_event \<Rightarrow> client" where
  "ka_client b cl (Tick ms) = ClientImpl_tick b ms cl"
| "ka_client b cl Pong = handle_message b Pingresp_In cl"

definition ka_shows ::
  "build \<Rightarrow> keep_alive_op \<Rightarrow> 64 word \<Rightarrow> 64 word \<Rightarrow> keep_alive_view option \<Rightarrow> client \<Rightarrow> bool" where
  "ka_shows b op k r s cl \<longleftrightarrow>
     (case s of None \<Rightarrow> ka_gone cl | Some v \<Rightarrow> ka_idle b op k r cl \<and> ka_view op (m_timerMgr cl) = v)"

lemma ka_exit:
  assumes "m_apiEnterCount c = 1" and "\<not> m_nextTickProgramCb c"
  shows "ka_outside (doApiExit c)" "cl_events (doApiExit c) = cl_events c"
    "ka_shows b op k r s c \<Longrightarrow> ka_shows b op k r s (doApiExit c)"
proof -
  have e: "doApiExit c = cleanOps (c\<lparr>m_apiEnterCount := 0\<rparr>)"
    using assms by (simp add: doApiExit_def Let_def cleanOps_def)
  then show "ka_outside (doApiExit c)" "cl_events (doApiExit c) = cl_events c"
    using assms by (simp_all add: cleanOps_def ka_outside_def)
  have "ka_idle b op k r (cleanOps (c\<lparr>m_apiEnterCount := 0\<rparr>))" if "ka_idle b op k r c"
    by (rule ka_idle_cong [OF that]) (use that in \<open>simp_all add: cleanOps_def ka_idle_def\<close>)
  moreover have "ka_gone (cleanOps (c\<lparr>m_apiEnterCount := 0\<rparr>))" if "ka_gone c"
    using that by (simp add: cleanOps_def ka_gone_def)
  ultimately show "ka_shows b op k r s c \<Longrightarrow> ka_shows b op k r s (doApiExit c)"
    unfolding e by (auto simp: ka_shows_def split: option.splits) (simp add: cleanOps_def)
qed

text \<open>One of the three callbacks, if its time was up.\<close>

lemma fire_ask:
  assumes "ka_idle b op k r c" and "ka_view op (m_timerMgr c) = v" and "cb = Cb_SendPing (ko_id op) \<or> cb = Cb_KeepAliveRecv (ko_id op)"
    and "(v', out) = (if fired then ka_ask k r v else (v, []))"
  shows "\<exists>c'. fold (fire b) (if fired then [cb] else []) c = c' \<and> ka_idle b op k r c' \<and> ka_view op (m_timerMgr c') = v' \<and>
    cl_events c' = cl_events c @ out \<and> m_apiEnterCount c' = m_apiEnterCount c \<and>
    m_nextTickProgramCb c' = m_nextTickProgramCb c"
  using assms sendPing_idle [OF assms(1)] by (cases fired) (auto simp: fire_def prod_eq_iff)

lemma ka_step_tick:
  assumes i: "ka_idle b op k r cl" and o: "ka_outside cl"
  shows "let (s, out) = ka_step k r (Some (ka_view op (m_timerMgr cl))) (Tick ms); c = ClientImpl_tick b ms cl in
    ka_shows b op k r s c \<and> ka_outside c \<and> cl_events c = cl_events cl @ out"
proof -
  let ?m = "m_timerMgr cl" and ?v = "ka_view op (m_timerMgr cl)"
  let ?P = "Cb_SendPing (ko_id op)" and ?Q = "Cb_KeepAliveRecv (ko_id op)" and ?R = "Cb_PingTimeout (ko_id op)"
  have t: "ka_table op ?m" using i by (simp add: ka_idle_def)
  let ?aged = "\<lparr>kv_ping = aged ms (kv_ping ?v), kv_recv = aged ms (kv_recv ?v), kv_resp = aged ms (kv_resp ?v)\<rparr>"
  define c0 where "c0 = cl\<lparr>m_apiEnterCount := 1, m_timerMgr := snd (timer_tick ms ?m)\<rparr>"
  have c0: "ka_idle b op k r c0" "ka_view op (m_timerMgr c0) = ?aged" "cl_events c0 = cl_events cl"
    "m_apiEnterCount c0 = 1" "\<not> m_nextTickProgramCb c0"
    using ka_idle_cong [OF i, of c0] ka_table_tick(2,3) [OF t, of ms] o by (simp_all add: c0_def ka_outside_def)
  obtain v1 out1 where 1: "(v1, out1) = (if due ms (kv_ping ?v) then ka_ask k r ?aged else (?aged, []))" by (metis prod.exhaust)
  obtain v2 out2 where 2: "(v2, out2) = (if due ms (kv_recv ?v) then ka_ask k r v1 else (v1, []))" by (metis prod.exhaust)
  obtain c1 where c1: "fold (fire b) (if due ms (kv_ping ?v) then [?P] else []) c0 = c1" "ka_idle b op k r c1"
    "ka_view op (m_timerMgr c1) = v1" "cl_events c1 = cl_events cl @ out1" "m_apiEnterCount c1 = 1" "\<not> m_nextTickProgramCb c1"
    using fire_ask [OF c0(1,2) _ 1, of ?P] c0 by auto
  obtain c2 where c2: "fold (fire b) (if due ms (kv_recv ?v) then [?Q] else []) c1 = c2" "ka_idle b op k r c2"
    "ka_view op (m_timerMgr c2) = v2" "cl_events c2 = cl_events cl @ out1 @ out2" "m_apiEnterCount c2 = 1"
    "\<not> m_nextTickProgramCb c2"
    using fire_ask [OF c1(2,3) _ 2, of ?Q] c1 by auto
  have st: "ka_step k r (Some ?v) (Tick ms) =
      (if due ms (kv_resp ?v) then (None, out1 @ out2 @ ka_given_up) else (Some v2, out1 @ out2))"
    by (simp only: ka_step.simps Let_def 1 [symmetric] 2 [symmetric] prod.case)
  have tick: "ClientImpl_tick b ms cl = doApiExit (fold (fire b) (if due ms (kv_resp ?v) then [?R] else []) c2)"
  proof -
    have "ClientImpl_tick b ms cl = doApiExit (fold (fire b) (fst (timer_tick ms ?m)) c0)"
      using o by (simp add: ClientImpl_tick_def timers_tick_def split_beta ka_outside_def c0_def)
    then show ?thesis unfolding ka_table_tick(1) [OF t] fold_append comp_apply c1(1) c2(1) .
  qed
  show ?thesis
  proof (cases "due ms (kv_resp ?v)")
    case False
    have "ka_shows b op k r (Some v2) c2" using c2 by (simp add: ka_shows_def)
    then show ?thesis
      using False tick ka_exit [OF c2(5,6)] c2(4) unfolding st by (simp add: Let_def)
  next
    case True
    let ?g = "pingTimeoutInternal b (ko_id op) c2"
    note g = pingTimeout_idle [OF c2(2)]
    have n: "m_apiEnterCount ?g = 1" "\<not> m_nextTickProgramCb ?g" using g(3,4) c2(5,6) by simp_all
    have "ka_shows b op k r None ?g" using g(1) by (simp add: ka_shows_def)
    moreover have "fold (fire b) (if due ms (kv_resp ?v) then [?R] else []) c2 = ?g" using True by (simp add: fire_def)
    ultimately show ?thesis
      using True tick ka_exit [OF n] g(2) c2(4) unfolding st by (simp add: Let_def)
  qed
qed

lemma ka_step_pong:
  assumes i: "ka_idle b op k r cl" and o: "ka_outside cl"
  shows "let (s, out) = ka_step k r (Some (ka_view op (m_timerMgr cl))) Pong; c = handle_message b Pingresp_In cl in
    ka_shows b op k r s c \<and> ka_outside c \<and> cl_events c = cl_events cl @ out"
proof -
  let ?m = "m_timerMgr cl"
  let ?w = "timerWait (ko_recvTimer op) k (Cb_KeepAliveRecv (ko_id op)) (timerCancel (ko_respTimer op) ?m)"
  have l: "m_keepAliveOps cl = [op]" "m_ops cl = [Some (Type_KeepAlive, ko_id op)]" "\<not> m_disconnecting (m_sessionState cl)"
    "m_keepAliveMs (m_sessionState cl) \<noteq> 0" "k = ucast (m_keepAliveMs (m_sessionState cl))"
    and t: "ka_table op ?m" "ka_table op (timerCancel (ko_respTimer op) ?m)"
    using i ka_table_calls(4) by (simp_all add: ka_idle_def)
  have at: "keep_alive_op_at (ko_id op) cl = Some op" using l(1) by (simp add: keep_alive_op_at_def op_at_def)
  have h: "handle_message b Pingresp_In cl = cl\<lparr>m_timerMgr := ?w\<rparr>"
    using l(3,4) by (simp add: handle_message_def handle_other_def l(2,5) dispatch_op_def dispatch_KeepAlive_def at
        KeepAliveOp_handle_Pingresp_def restartRecvTimer_def Let_def on_timers_def)
  have f: "timer_for (ko_respTimer op) (Cb_PingTimeout (ko_id op)) ?m" "ko_recvTimer op \<noteq> ko_respTimer op"
    "ko_recvTimer op \<noteq> ko_pingTimer op" "ko_respTimer op \<noteq> ko_pingTimer op"
    "timer_for (ko_recvTimer op) (Cb_KeepAliveRecv (ko_id op)) (timerCancel (ko_respTimer op) ?m)"
    using t by (auto simp: ka_table_def)
  have "ka_idle b op k r (cl\<lparr>m_timerMgr := ?w\<rparr>)"
    by (rule ka_idle_cong [OF i]) (use ka_table_calls(2) [OF t(2)] in simp_all)
  moreover have "ka_view op ?w = (ka_view op ?m)\<lparr>kv_resp := None, kv_recv := Some k\<rparr>"
    using f(2-4) by (simp add: ka_view_def timer_left_wait [OF f(5)] timer_left_cancel [OF f(1)])
  ultimately show ?thesis using o by (simp add: h ka_shows_def ka_outside_def)
qed

lemma ka_step_gone:
  assumes g: "ka_gone cl" and o: "ka_outside cl"
  shows "ka_gone (ka_client b cl e) \<and> ka_outside (ka_client b cl e) \<and> cl_events (ka_client b cl e) = cl_events cl"
proof (cases e)
  case Pong
  then show ?thesis using g o by (simp add: handle_message_def handle_other_def ka_gone_def)
next
  case (Tick ms)
  let ?c = "cl\<lparr>m_apiEnterCount := 1, m_timerMgr := snd (timer_tick ms (m_timerMgr cl))\<rparr>"
  have r: "\<forall>info\<in>set (m_timers (m_timerMgr cl)). \<not> timer_running info"
    using g by (auto simp: ka_gone_def in_set_conv_nth)
  then have "fst (timer_tick ms (m_timerMgr cl)) = []" by (simp add: timer_tick_fst filter_empty_conv)
  then have t: "ka_client b cl e = doApiExit ?c"
    using o Tick by (simp add: ClientImpl_tick_def timers_tick_def split_beta ka_outside_def)
  have "ka_gone ?c" using g by (simp add: ka_gone_def timer_tick_snd tick_info_free)
  then have "ka_shows b undefined k r None ?c" for k r by (simp add: ka_shows_def)
  then show ?thesis
    using ka_exit(1,2) [of ?c] ka_exit(3) [of ?c b undefined _ _ None] o unfolding t
    by (simp add: ka_outside_def ka_shows_def)
qed

lemma ka_run_shows:
  "ka_shows b op k r s cl \<Longrightarrow> ka_outside cl \<Longrightarrow>
   (case s of None \<Rightarrow> True | Some v \<Rightarrow> v = ka_view op (m_timerMgr cl)) \<Longrightarrow>
     ka_shows b op k r (fst (ka_run k r s es)) (foldl (ka_client b) cl es) \<and>
     cl_events (foldl (ka_client b) cl es) = cl_events cl @ snd (ka_run k r s es)"
proof (induction es arbitrary: s cl)
  case (Cons e es)
  let ?s = "fst (ka_step k r s e)" and ?c = "ka_client b cl e"
  have step: "ka_shows b op k r ?s ?c \<and> ka_outside ?c \<and> cl_events ?c = cl_events cl @ snd (ka_step k r s e)"
  proof (cases s)
    case None
    then show ?thesis using ka_step_gone [OF _ Cons.prems(2)] Cons.prems(1) by (simp add: ka_shows_def)
  next
    case (Some v)
    then have i: "ka_idle b op k r cl" "v = ka_view op (m_timerMgr cl)" using Cons.prems(1) by (simp_all add: ka_shows_def)
    show ?thesis
      using ka_step_tick [OF i(1) Cons.prems(2)] ka_step_pong [OF i(1) Cons.prems(2)]
      by (cases e) (simp_all add: Some i(2) Let_def split_beta del: ka_step.simps)
  qed
  have "case ?s of None \<Rightarrow> True | Some v \<Rightarrow> v = ka_view op (m_timerMgr ?c)"
    using step by (auto simp: ka_shows_def split: option.split)
  with Cons.IH [of ?s ?c] step show ?case by (simp add: split_beta Let_def)
qed simp

section \<open>What the automaton does\<close>

lemma due_iff: "due ms (Some t) \<longleftrightarrow> unat t \<le> unat ms"
  by (simp add: word_le_nat_alt unat_ucast_32_64)

lemma aged_left: "\<not> due ms (Some t) \<Longrightarrow> aged ms (Some t) = Some (t - ucast ms) \<and> unat (t - ucast ms) = unat t - unat ms"
  by (simp add: unat_sub unat_ucast_32_64)

text \<open>While an answer is awaited nothing is asked; when the time for it is up the client gives up.\<close>

lemma waiting_gives_up:
  assumes "kv_resp v = Some t" and "0 < t" and "unat t \<le> sum_list (map unat mss)"
  shows "\<exists>n\<le>1. ka_run k r (Some v) (map Tick mss) = (None, replicate n (Ev_Output Pingreq_Out) @ ka_given_up)"
  using assms
proof (induction mss arbitrary: v t)
  case Nil
  then show ?case by (simp add: word_less_nat_alt)
next
  case (Cons ms mss)
  let ?aged = "\<lparr>kv_ping = aged ms (kv_ping v), kv_recv = aged ms (kv_recv v), kv_resp = aged ms (kv_resp v)\<rparr>"
  show ?case
  proof (cases "due ms (Some t)")
    case True
    have "\<exists>n\<le>1. ka_step k r (Some v) (Tick ms) = (None, replicate n (Ev_Output Pingreq_Out) @ ka_given_up)"
    proof (cases "due ms (kv_ping v) \<or> due ms (kv_recv v)")
      case False
      then show ?thesis using True Cons.prems(1) by (intro exI [of _ 0]) simp
    next
      case asked: True
      then show ?thesis using True Cons.prems(1)
        by (intro exI [of _ 1], cases "due ms (kv_ping v)") (auto simp: ka_ask_def Let_def split_beta)
    qed
    then show ?thesis by auto
  next
    case False
    let ?t = "t - ucast ms"
    note a = aged_left [OF False]
    have "ka_step k r (Some v) (Tick ms) = (Some ?aged, [])"
      using False a Cons.prems(1)
      by (cases "due ms (kv_ping v)"; cases "due ms (kv_recv v)") (simp_all add: ka_ask_def)
    moreover have "\<exists>n\<le>1. ka_run k r (Some ?aged) (map Tick mss) = (None, replicate n (Ev_Output Pingreq_Out) @ ka_given_up)"
    proof (rule Cons.IH [of _ ?t])
      show "kv_resp ?aged = Some ?t" using a Cons.prems(1) by simp
      show "0 < ?t" using a False using due_iff [of ms t] by (simp add: word_less_nat_alt)
      show "unat ?t \<le> sum_list (map unat mss)" using a Cons.prems(3) by simp
    qed
    ultimately show ?thesis by (auto simp del: ka_step.simps)
  qed
qed

lemma silence_gives_up:
  assumes "kv_resp v = None" and "kv_ping v = Some p" and "0 < r" and "\<forall>ms\<in>set mss. unat ms \<le> d"
    and "unat p + d + unat r \<le> sum_list (map unat mss)"
  shows "\<exists>n\<le>1. ka_run k r (Some v) (map Tick mss) =
    (None, Ev_Output Pingreq_Out # replicate n (Ev_Output Pingreq_Out) @ ka_given_up)"
  using assms
proof (induction mss arbitrary: v p)
  case Nil
  then show ?case by (simp add: word_less_nat_alt)
next
  case (Cons ms mss)
  let ?aged = "\<lparr>kv_ping = aged ms (kv_ping v), kv_recv = aged ms (kv_recv v), kv_resp = None\<rparr>"
  have d: "unat ms \<le> d" using Cons.prems(4) by simp
  show ?case
  proof (cases "due ms (kv_ping v) \<or> due ms (kv_recv v)")
    case True
    then have "\<exists>w. ka_step k r (Some v) (Tick ms) = (Some w, [Ev_Output Pingreq_Out]) \<and> kv_resp w = Some r"
      using Cons.prems(1) by (cases "due ms (kv_ping v)") (auto simp: ka_ask_def Let_def split_beta)
    then obtain w where w: "ka_step k r (Some v) (Tick ms) = (Some w, [Ev_Output Pingreq_Out])" "kv_resp w = Some r" by blast
    have "unat r \<le> sum_list (map unat mss)" using d Cons.prems(5) by simp
    from waiting_gives_up [OF w(2) Cons.prems(3) this, of k r] show ?thesis using w(1) by (auto simp del: ka_step.simps)
  next
    case False
    then have p: "\<not> due ms (Some p)" using Cons.prems(2) by simp
    note a = aged_left [OF p]
    have less: "unat ms < unat p" using p due_iff [of ms p] by linarith
    have "ka_step k r (Some v) (Tick ms) = (Some ?aged, [])" using False Cons.prems(1) by simp
    moreover have "\<exists>n\<le>1. ka_run k r (Some ?aged) (map Tick mss) =
        (None, Ev_Output Pingreq_Out # replicate n (Ev_Output Pingreq_Out) @ ka_given_up)"
      by (rule Cons.IH [of _ "p - ucast ms"]) (use a d Cons.prems less in \<open>simp_all\<close>)
    ultimately show ?thesis by (auto simp del: ka_step.simps)
  qed
qed

section \<open>An idle client for the examples\<close>

text \<open>A connected client whose keep alive operation has just been created.\<close>

definition kept_alive_client :: client where
  "kept_alive_client = createKeepAliveOpIfNeeded sample_build
     (on_session_state (\<lambda>s. s\<lparr>m_keepAliveMs := 1000\<rparr>) (connected_client sample_build))"

lemma kept_alive_fields:
  "m_keepAliveOps kept_alive_client = [\<lparr>ko_id = 0, ko_pingTimer = 1, ko_recvTimer = 2, ko_respTimer = 3\<rparr>]"
  "m_ops kept_alive_client = [Some (Type_KeepAlive, 0)]"
  "m_recvOps kept_alive_client = []" "m_sendOps kept_alive_client = []"
  "m_sessionState kept_alive_client = SessionState_init\<lparr>m_connected := True, m_keepAliveMs := 1000\<rparr>"
  "m_configState kept_alive_client = ConfigState_init default_config"
  "m_apiEnterCount kept_alive_client = 0" "\<not> m_nextTickProgramCb kept_alive_client"
  "map (\<lambda>t. (m_allocated t, m_suspended t, m_timeoutCb t, m_timeoutMs t)) (m_timers (m_timerMgr kept_alive_client)) =
     [(True, False, None, 0), (True, False, Some (Cb_SendPing 0), 1000), (True, False, None, 0), (True, False, None, 0)]"
  by (simp_all add: kept_alive_client_def createKeepAliveOpIfNeeded_def KeepAliveOp_construct_def sample_defs
     alloc_timer_def allocTimer_def create_timer_def find_idx_def TimerInfo_init_def restartPingTimer_def timerWait_def register_op_def on_timers_def split_beta Let_def)

lemma kept_alive_timers:
  "length (m_timers (m_timerMgr kept_alive_client)) = 4"
  "i < 4 \<Longrightarrow> m_allocated (m_timers (m_timerMgr kept_alive_client) ! i) \<and>
     \<not> m_suspended (m_timers (m_timerMgr kept_alive_client) ! i) \<and>
     m_timeoutCb (m_timers (m_timerMgr kept_alive_client) ! i) = (if i = 1 then Some (Cb_SendPing 0) else None) \<and>
     m_timeoutMs (m_timers (m_timerMgr kept_alive_client) ! i) = (if i = 1 then 1000 else 0)"
proof -
  let ?ts = "m_timers (m_timerMgr kept_alive_client)"
  obtain t0 t1 t2 t3 where ts: "?ts = [t0, t1, t2, t3]"
    using kept_alive_fields(9) by (auto simp: map_eq_Cons_conv)
  then show "length ?ts = 4" by simp
  assume "i < 4"
  then have "i = 0 \<or> i = 1 \<or> i = 2 \<or> i = 3" by linarith
  then show "m_allocated (?ts ! i) \<and> \<not> m_suspended (?ts ! i) \<and>
      m_timeoutCb (?ts ! i) = (if i = 1 then Some (Cb_SendPing 0) else None) \<and>
      m_timeoutMs (?ts ! i) = (if i = 1 then 1000 else 0)"
    using kept_alive_fields(9) unfolding ts by auto
qed

lemma kept_alive_idle:
  "ka_outside kept_alive_client"
  "ka_idle sample_build (hd (m_keepAliveOps kept_alive_client)) 1000 2000 kept_alive_client"
  "ka_view (hd (m_keepAliveOps kept_alive_client)) (m_timerMgr kept_alive_client) =
     \<lparr>kv_ping = Some 1000, kv_recv = None, kv_resp = None\<rparr>"
proof -
  note f = kept_alive_fields(1-8) and t = kept_alive_timers
  show "ka_outside kept_alive_client" by (simp add: ka_outside_def f)
  have r: "idx < 4 \<and> timer_running (m_timers (m_timerMgr kept_alive_client) ! idx) \<longleftrightarrow> idx = 1" for idx
    using t(2) [of idx] by (auto simp: timer_running_def split: if_splits)
  then show "ka_view (hd (m_keepAliveOps kept_alive_client)) (m_timerMgr kept_alive_client) =
     \<lparr>kv_ping = Some 1000, kv_recv = None, kv_resp = None\<rparr>"
    using t(2) [of 1] r [of 1] r [of 2] r [of 3] by (simp add: ka_view_def timer_left_def f t(1))
  have only: "\<forall>idx<4. timer_running (m_timers (m_timerMgr kept_alive_client) ! idx) \<longrightarrow> idx = 1" using r by blast
  have "ka_table (hd (m_keepAliveOps kept_alive_client)) (m_timerMgr kept_alive_client)"
    using t(2) [of 1] t(2) [of 2] t(2) [of 3] only
    by (simp add: ka_table_def timer_for_def f t(1) timer_isValid_def InvalidIdx_def)
  then show "ka_idle sample_build (hd (m_keepAliveOps kept_alive_client)) 1000 2000 kept_alive_client"
    by (simp add: ka_idle_def f sendMessage_def Let_def SessionState_init_def ConfigState_init_def sample_build_def default_config_def)
qed

section \<open>Properties\<close>

text \<open>
  C12: An idle connection refines the automaton: for every sequence of ticks and of PINGRESP the
  client produces exactly the output of the automaton, its three timers show exactly the
  automaton's state, and the connection is given up exactly when the automaton has stopped.
\<close>

theorem keep_alive_refines:
  assumes "ka_idle b op k r cl" and "ka_outside cl"
  shows "let (s, out) = ka_run k r (Some (ka_view op (m_timerMgr cl))) es; cl' = foldl (ka_client b) cl es in
    cl_events cl' = cl_events cl @ out \<and>
    (case s of None \<Rightarrow> \<not> m_connected (m_sessionState cl') \<and> m_keepAliveOps cl' = []
     | Some v \<Rightarrow> m_keepAliveOps cl' = [op] \<and> ka_view op (m_timerMgr cl') = v)"
proof -
  have "ka_shows b op k r (Some (ka_view op (m_timerMgr cl))) cl" using assms(1) by (simp add: ka_shows_def)
  from ka_run_shows [OF this assms(2), of es] show ?thesis
    by (auto simp: ka_shows_def ka_gone_def ka_idle_def Let_def split_beta split: option.splits)
qed

theorem keep_alive_refines_witness:
  "cl_events (foldl (ka_client sample_build) kept_alive_client [Tick 600, Tick 400, Pong]) =
   cl_events kept_alive_client @ [Ev_Output Pingreq_Out]"
  using keep_alive_refines [OF kept_alive_idle(2,1), of "[Tick 600, Tick 400, Pong]"]
  by (simp add: kept_alive_idle(3) ka_ask_def Let_def)

text \<open>
  C9: A broker that falls silent is given up. When no answer is awaited and the ping timer has
  \<^term>\<open>p\<close> milliseconds left, then after ticks of at most \<^term>\<open>d\<close> milliseconds each that add up to
  \<^term>\<open>p\<close>, \<^term>\<open>d\<close> and the response timeout the client has asked with PINGREQ (at most once more at the very
  end), has sent DISCONNECT with the reason Keep Alive timeout and has reported the loss.
\<close>

theorem silent_broker_given_up:
  assumes "ka_idle b op k r cl" and "ka_outside cl"
    and "kv_resp (ka_view op (m_timerMgr cl)) = None" and "kv_ping (ka_view op (m_timerMgr cl)) = Some p"
    and "0 < r" and "\<forall>ms\<in>set mss. unat ms \<le> d" and "unat p + d + unat r \<le> sum_list (map unat mss)"
  shows "let cl' = foldl (\<lambda>c ms. ClientImpl_tick b ms c) cl mss in
    (\<exists>n\<le>1. cl_events cl' = cl_events cl @ Ev_Output Pingreq_Out # replicate n (Ev_Output Pingreq_Out) @
       [Ev_Output (Disconnect_Out (Some RC_KeepAliveTimeout) (Some [])),
        Ev_BrokerDisconnected BDR_NoBrokerResponse None]) \<and>
    \<not> m_connected (m_sessionState cl')"
proof -
  have e: "foldl (\<lambda>c ms. ClientImpl_tick b ms c) cl mss = foldl (ka_client b) cl (map Tick mss)" by (simp add: foldl_map)
  have "ka_shows b op k r (Some (ka_view op (m_timerMgr cl))) cl" using assms(1) by (simp add: ka_shows_def)
  from ka_run_shows [OF this assms(2), of "map Tick mss"] silence_gives_up [OF assms(3-7), of k] show ?thesis
    unfolding e by (auto simp: ka_shows_def ka_gone_def ka_given_up_def Let_def)
qed

theorem silent_broker_given_up_witness:
  "\<not> m_connected (m_sessionState (foldl (\<lambda>c ms. ClientImpl_tick sample_build ms c) kept_alive_client
      [1000, 1000, 1000, 1000]))"
  using silent_broker_given_up [OF kept_alive_idle(2,1), of 1000 "[1000, 1000, 1000, 1000]" 1000]
  by (simp add: kept_alive_idle(3) Let_def)

text \<open>
  C36: The keep alive interval is not kept when the response timeout is longer: if the ping timer
  runs out again while an answer is awaited it is not restarted, and after a late PINGRESP the next
  PINGREQ waits for the receive timer. In the time \<^term>\<open>b2\<close> plus \<^term>\<open>c\<close> after its PINGREQ, which may be almost the
  response timeout plus the interval, the client sends nothing at all.
\<close>

theorem keep_alive_gap:
  assumes "ka_idle b op k r cl" and "ka_outside cl"
    and "ka_view op (m_timerMgr cl) = \<lparr>kv_ping = Some p, kv_recv = None, kv_resp = None\<rparr>"
    and "p \<le> ucast a" and "k \<le> ucast b2" and "ucast b2 < r" and "ucast c < k"
  shows "cl_events (foldl (ka_client b) cl [Tick a, Tick b2, Pong, Tick c]) = cl_events cl @ [Ev_Output Pingreq_Out]"
proof -
  have "ka_shows b op k r (Some (ka_view op (m_timerMgr cl))) cl" using assms(1) by (simp add: ka_shows_def)
  from ka_run_shows [OF this assms(2), of "[Tick a, Tick b2, Pong, Tick c]"] show ?thesis
    using assms(3-7) by (simp add: ka_ask_def Let_def split_beta not_le)
qed

theorem keep_alive_gap_witness:
  "cl_events (foldl (ka_client sample_build) kept_alive_client [Tick 1000, Tick 1999, Pong, Tick 999]) =
   cl_events kept_alive_client @ [Ev_Output Pingreq_Out]"
  by (rule keep_alive_gap [OF kept_alive_idle(2,1,3)]) simp_all

end
