(* ===== verification/Reconnection.thy ===== *)
theory Reconnection
  imports Publish_Flow
begin

text \<open>
  What the publishing machinery leaves alone, and the reconnection of a stored session.
  Completing, resuming and resending publishes call each other; the interface \<open>publish_frame\<close> says once
  what a relation between the states before and after must allow so that it holds across all of
  them. Its instances tell that they emit nothing but publishes and their completions, and keep
  the negotiated session. With them: after a reconnection
  (\<^verbatim>\<open>ClientImpl::brokerConnected\<close>, \<^verbatim>\<open>SendOp::postReconnectionResend\<close>) every unacknowledged publish
  is sent again, in the original order.
\<close>

section \<open>The frame of publishing\<close>

text \<open>The outgoing messages and the events of the publishing machinery.\<close>

fun publish_out :: "out_msg \<Rightarrow> bool" where
  "publish_out (Publish_Out p) = True"
| "publish_out (Pubrel_Out i rc) = True"
| "publish_out _ = False"

fun publish_event :: "event \<Rightarrow> bool" where
  "publish_event (Ev_Output msg) = publish_out msg"
| "publish_event (Ev_PublishComplete i status response) = True"
| "publish_event _ = False"

locale publish_frame =
  fixes R :: "client \<Rightarrow> client \<Rightarrow> bool"
  assumes frame_refl: "R c c"
    and frame_trans: "R x y \<Longrightarrow> R y z \<Longrightarrow> R x z"
    and frame_timers: "R c (on_timers g c)"
    and frame_client_state: "R c (on_client_state h c)"
    and frame_ops: "R c (c\<lparr>m_ops := ps, m_opsDeleted := d\<rparr>)"
    and frame_sends: "R c (c\<lparr>m_sendOps := sends\<rparr>)"
    and frame_fault: "R c (fault f c)"
    and frame_emit: "publish_event ev \<Longrightarrow> R c (emit ev c)"
begin

lemma frame_then: "R x y \<Longrightarrow> R c x \<Longrightarrow> R c y"
  using frame_trans by blast

lemma frame_sent:
  assumes "publish_out msg"
  shows "R c (snd (sendMessage b msg c))"
proof -
  obtain tm where f: "fold messageSent (m_keepAliveOps c) (emit (Ev_Output msg) c) = (emit (Ev_Output msg) c)\<lparr>m_timerMgr := tm\<rparr>"
    using fold_messageSent by blast
  have "(emit (Ev_Output msg) c)\<lparr>m_timerMgr := tm\<rparr> = on_timers (\<lambda>_. tm) (emit (Ev_Output msg) c)"
    by (simp add: on_timers_def)
  then have "R c ((emit (Ev_Output msg) c)\<lparr>m_timerMgr := tm\<rparr>)"
    using frame_trans [OF frame_emit frame_timers] assms by (metis publish_event.simps(1))
  then show ?thesis using f frame_refl by (simp add: sendMessage_def Let_def)
qed

lemma frame_upd_send: "R c (upd_send i u c)"
  using frame_sends by (simp add: upd_send_def)

lemma frame_destroy: "R c (destroy_timer t c)" "R c (release_id j c)"
  using frame_timers frame_client_state by (simp_all add: destroy_timer_def release_id_def)

lemma frame_restart: "R c (SendOp_restartResponseTimer i c)"
  using frame_timers frame_fault by (simp add: SendOp_restartResponseTimer_def split: option.split)

definition resumes :: "resumption \<Rightarrow> bool" where
  "resumes rs \<longleftrightarrow> (\<forall>idx c. R c (rs idx c))"

lemma frame_complete:
  assumes rs: "resumes rs"
  shows "R c (SendOp_completeWithCb rs i status response c)"
proof -
  have o: "R x (opComplete_Send rs j x)" for j x
  proof (cases "send_op_at j x")
    case None
    then show ?thesis using frame_refl by (simp add: opComplete_Send_def)
  next
    case (Some op)
    let ?sends = "snd (eraseFromList so_id j (m_sendOps x))"
    have "R x (destroy_SendOp op (x\<lparr>m_sendOps := ?sends\<rparr>))"
      unfolding destroy_SendOp_def by (rule frame_then [OF frame_destroy(1) frame_then [OF frame_destroy(2) frame_sends]])
    then show ?thesis
      using rs frame_then [of "destroy_SendOp op (x\<lparr>m_sendOps := ?sends\<rparr>)"]
      by (simp add: opComplete_Send_def Some split_beta Let_def resumes_def)
  qed
  have w: "R x (opComplete_with rs (Type_Send, j) x)" for j x
    using frame_refl frame_trans [OF frame_ops o] by (simp add: opComplete_with_def Let_def)
  have "R c (SendOp_opCompleteInternal rs i c)"
    using frame_fault w frame_trans [OF frame_client_state w]
    by (simp add: SendOp_opCompleteInternal_def Let_def split: option.split)
  then show ?thesis
    using frame_fault frame_then [OF frame_emit, of "Ev_PublishComplete i status response"]
    by (simp add: SendOp_completeWithCb_def Let_def split: option.split)
qed

lemma frame_doSend:
  assumes "resumes rs"
  shows "R c (snd (doSendInternal rs b i c))"
proof (cases "send_op_at i c")
  case None
  then show ?thesis using frame_fault by (simp add: doSendInternal_def)
next
  case (Some op)
  let ?c1 = "upd_send i (\<lambda>p. p\<lparr>so_sendAttempts := 0\<rparr>) c"
  let ?r = "sendMessage b (Publish_Out (so_pubMsg op)) ?c1"
  have r: "R c (snd ?r)" by (rule frame_then [OF frame_sent frame_upd_send]) simp
  let ?c3 = "if \<not> so_published op
    then on_client_state (\<lambda>s. s\<lparr>m_inFlightSends := Suc (m_inFlightSends s)\<rparr>)
           (upd_send i (\<lambda>p. p\<lparr>so_published := True\<rparr>) (snd ?r)) else snd ?r"
  have "R c ?c3" using r frame_then [OF frame_client_state frame_then [OF frame_upd_send]] by simp
  then have "R c (upd_send i (\<lambda>p. p\<lparr>so_sendAttempts := Suc (so_sendAttempts p)\<rparr>) ?c3)"
    by (rule frame_then [OF frame_upd_send])
  then show ?thesis
    using r frame_then [OF frame_complete [OF assms]] frame_then [OF frame_restart]
    by (simp add: doSendInternal_def Some split_beta Let_def)
qed

lemma frame_resume:
  assumes "resumes rs"
  shows "R c (snd (SendOp_resume rs b i c))"
  using frame_refl frame_fault frame_then [OF frame_doSend [OF assms] frame_upd_send]
    frame_then [OF frame_complete [OF assms] frame_then [OF frame_doSend [OF assms] frame_upd_send]]
  by (simp add: SendOp_resume_def split_beta Let_def split: option.split)

lemma frame_resumeSends: "resumes (resumeSends b)"
proof -
  have "resumes (resumeSendOpsSince n b)" for n
  proof (induction n)
    case (Suc n)
    have r: "R x (resumeSendOpsSince n b idx x)" for idx x using Suc by (simp add: resumes_def)
    have "R c (snd (SendOp_resume (resumeSendOpsSince n b) b i c))" for i c by (rule frame_resume [OF Suc])
    then have "R c (resumeSendOpsSince n b idx (snd (SendOp_resume (resumeSendOpsSince n b) b i c)))" for i idx c
      by (rule frame_trans [OF _ r])
    then show ?case
      using r frame_refl frame_resume [OF Suc, of _ b]
      by (auto simp: resumes_def Let_def split_beta)
  qed (simp add: resumes_def frame_fault)
  then show ?thesis by (simp add: resumes_def resumeSends_def)
qed

lemma frame_completeWithCb: "R c (completeWithCb b i status response c)"
  unfolding completeWithCb_def by (rule frame_complete [OF frame_resumeSends])

lemma frame_resendDup: "R c (resendDupMsg b i c)"
proof (cases "send_op_at i c")
  case None
  then show ?thesis using frame_fault by (simp add: resendDupMsg_def)
next
  case (Some op)
  let ?c1 = "if \<not> so_acked op
    then upd_send i (\<lambda>p. p\<lparr>so_pubMsg := (so_pubMsg p)\<lparr>pm_dup := True\<rparr>\<rparr>) c else c"
  let ?msg = "if \<not> so_acked op then Publish_Out ((so_pubMsg op)\<lparr>pm_dup := True\<rparr>)
    else Pubrel_Out (pm_packetId (so_pubMsg op)) None"
  have "R c ?c1" using frame_refl frame_upd_send by simp
  then have r: "R c (snd (sendMessage b ?msg ?c1))" by (rule frame_then [OF frame_sent, rotated]) simp
  note s = frame_completeWithCb frame_then [OF frame_completeWithCb r]
    frame_then [OF frame_restart frame_then [OF frame_upd_send r]]
  have "resendDupMsg b i c =
     (if so_totalSendAttempts op \<le> so_sendAttempts op then completeWithCb b i St_Timeout None c
      else if fst (sendMessage b ?msg ?c1) \<noteq> EC_Success
      then completeWithCb b i St_InternalError None (snd (sendMessage b ?msg ?c1))
      else SendOp_restartResponseTimer i
             (upd_send i (\<lambda>p. p\<lparr>so_sendAttempts := Suc (so_sendAttempts p)\<rparr>) (snd (sendMessage b ?msg ?c1))))"
    by (simp only: resendDupMsg_def Some option.case Let_def split_beta)
  then show ?thesis using s by (simp only: split: if_split) blast
qed

lemma frame_resend: "R c (postReconnectionResend b i c)"
  using frame_fault frame_refl frame_completeWithCb
    frame_then [OF frame_resendDup frame_then [OF frame_timers frame_upd_send]]
  by (simp add: postReconnectionResend_def Let_def split: option.split)

lemma frame_resend_all: "R c (resend_all b is c)"
proof (induction "is" arbitrary: c)
  case (Cons i "is")
  then show ?case
    using frame_then [OF frame_fault frame_resend] frame_then [OF Cons frame_resend] by (simp add: Let_def)
qed (simp add: frame_refl)

end

text \<open>Ending a stored session also ends the messages that are being received.\<close>

locale session_frame = publish_frame +
  assumes frame_recvs: "R c (c\<lparr>m_recvOps := recvs\<rparr>)"
begin

lemma frame_terminate:
  assumes "is_send_recv ref"
  shows "R c (terminateOp b status ref c)"
proof -
  obtain t i where r: "ref = (t, i)" by (cases ref)
  have "R x (opComplete_Recv j x)" for j x
    using frame_refl frame_then [OF frame_destroy(1) frame_recvs] by (simp add: opComplete_Recv_def split: option.split)
  then have "R c (opComplete_Recv i (c\<lparr>m_ops := ps, m_opsDeleted := d\<rparr>))" for ps d by (rule frame_trans [OF frame_ops])
  then have "R c (opComplete b (Type_Recv, i) c)"
    using frame_refl by (simp add: opComplete_def opComplete_with_def Let_def)
  then show ?thesis using assms r frame_completeWithCb by (auto simp: is_send_recv_def terminateOp_def)
qed

lemma frame_terminate_stored: "R c (terminate_stored b ks c)"
proof (induction ks arbitrary: c)
  case (Cons k ks)
  then show ?case
    using frame_fault frame_then [OF Cons frame_terminate] by (auto split: option.split)
qed (simp add: frame_refl)

end

text \<open>The session, the configuration and the operations beside publishes stay; the registered connect operations too.\<close>

definition same_session :: "client \<Rightarrow> client \<Rightarrow> bool" where
  "same_session c c' \<longleftrightarrow>
     m_sessionState c' = m_sessionState c \<and> m_configState c' = m_configState c \<and>
     m_connectOps c' = m_connectOps c \<and> m_keepAliveOps c' = m_keepAliveOps c \<and>
     m_subscribeOps c' = m_subscribeOps c \<and> m_unsubscribeOps c' = m_unsubscribeOps c \<and>
     m_subFilters c' = m_subFilters c"

text \<open>Only publishes, their releases and their completions are added to the events.\<close>

definition publishes_more :: "client \<Rightarrow> client \<Rightarrow> bool" where
  "publishes_more c c' \<longleftrightarrow> (\<exists>new. cl_events c' = cl_events c @ new \<and> list_all publish_event new)"

lemma publishes_moreI: "cl_events c' = cl_events c @ new \<Longrightarrow> list_all publish_event new \<Longrightarrow> publishes_more c c'"
  by (auto simp: publishes_more_def)

interpretation session: session_frame same_session
  by unfold_locales
    (auto simp: same_session_def on_timers_def on_client_state_def fault_def emit_def)

interpretation trace: session_frame publishes_more
proof unfold_locales
  fix x y z :: client
  assume "publishes_more x y" and "publishes_more y z"
  then obtain m n where "cl_events y = cl_events x @ m" "list_all publish_event m"
    "cl_events z = cl_events y @ n" "list_all publish_event n" by (auto simp: publishes_more_def)
  then show "publishes_more x z" by (intro publishes_moreI [of _ _ "m @ n"]) simp_all
qed (auto simp: publishes_more_def on_timers_def on_client_state_def fault_def emit_def)

section \<open>What is resumed\<close>

text \<open>The messages sent by some events, and the publishes whose completion they tell.\<close>

definition sent_by :: "event list \<Rightarrow> out_msg list" where
  "sent_by evs = List.map_filter (\<lambda>ev. case ev of Ev_Output m \<Rightarrow> Some m | _ \<Rightarrow> None) evs"

definition told_by :: "event list \<Rightarrow> op_id list" where
  "told_by evs = List.map_filter (\<lambda>ev. case ev of Ev_PublishComplete i status response \<Rightarrow> Some i | _ \<Rightarrow> None) evs"

lemma sent_told_append [simp]:
  "sent_by (xs @ ys) = sent_by xs @ sent_by ys" "told_by (xs @ ys) = told_by xs @ told_by ys"
  "sent_by [] = []" "told_by [] = []"
  by (simp_all add: sent_by_def told_by_def List.map_filter_def)

lemma sent_told_single [simp]:
  "sent_by (Ev_Output m # evs) = m # sent_by evs" "told_by (Ev_Output m # evs) = told_by evs"
  "sent_by (Ev_PublishComplete i st r # evs) = sent_by evs" "told_by (Ev_PublishComplete i st r # evs) = i # told_by evs"
  by (simp_all add: sent_by_def told_by_def List.map_filter_def)

definition paused_ops :: "client \<Rightarrow> send_op set" where
  "paused_ops cl = {op \<in> set (m_sendOps cl). so_paused op}"

lemma paused_ids_ops: "paused_ids cl = so_id ` paused_ops cl"
  by (simp add: paused_ids_def paused_ops_def)

text \<open>
  From one state to the next only publishes that were paused are sent, each at most once, and
  only their completion is told, each at most once, or that of one of \<open>others\<close>; what was sent or
  told is not paused any more.
\<close>

definition resumed :: "op_id set \<Rightarrow> client \<Rightarrow> client \<Rightarrow> bool" where
  "resumed others c c' \<longleftrightarrow>
     (\<exists>new ps. cl_events c' = cl_events c @ new \<and> list_all publish_event new \<and>
        sent_by new = map (\<lambda>op. Publish_Out (so_pubMsg op)) ps \<and> distinct (map so_id ps) \<and> set ps \<subseteq> paused_ops c \<and>
        distinct (told_by new) \<and> set (told_by new) \<subseteq> others \<union> paused_ids c \<and>
        paused_ops c' \<subseteq> paused_ops c \<and> (so_id ` set ps \<union> set (told_by new)) \<inter> paused_ids c' = {})"

lemma resumed_silent: "cl_events c' = cl_events c \<Longrightarrow> paused_ops c' \<subseteq> paused_ops c \<Longrightarrow> resumed others c c'"
  unfolding resumed_def by (intro exI [of _ "[]"]) simp

lemma resumed_trans:
  assumes "resumed {} a b" and "resumed {} b c"
  shows "resumed {} a c"
proof -
  obtain new ps where x: "cl_events b = cl_events a @ new" "list_all publish_event new"
    "sent_by new = map (\<lambda>op. Publish_Out (so_pubMsg op)) ps" "distinct (map so_id ps)" "set ps \<subseteq> paused_ops a"
    "distinct (told_by new)" "set (told_by new) \<subseteq> paused_ids a" "paused_ops b \<subseteq> paused_ops a"
    "(so_id ` set ps \<union> set (told_by new)) \<inter> paused_ids b = {}"
    using assms(1) by (auto simp: resumed_def)
  obtain new' ps' where y: "cl_events c = cl_events b @ new'" "list_all publish_event new'"
    "sent_by new' = map (\<lambda>op. Publish_Out (so_pubMsg op)) ps'" "distinct (map so_id ps')" "set ps' \<subseteq> paused_ops b"
    "distinct (told_by new')" "set (told_by new') \<subseteq> paused_ids b" "paused_ops c \<subseteq> paused_ops b"
    "(so_id ` set ps' \<union> set (told_by new')) \<inter> paused_ids c = {}"
    using assms(2) by (auto simp: resumed_def)
  have i: "paused_ids b \<subseteq> paused_ids a" "paused_ids c \<subseteq> paused_ids b" "so_id ` set ps' \<subseteq> paused_ids b"
    using x(8) y(5,8) by (auto simp: paused_ids_ops)
  show ?thesis
    unfolding resumed_def
  proof (intro exI conjI)
    show "cl_events c = cl_events a @ (new @ new')" using x(1) y(1) by simp
    show "sent_by (new @ new') = map (\<lambda>op. Publish_Out (so_pubMsg op)) (ps @ ps')" using x(3) y(3) by simp
    have "so_id ` set ps \<inter> so_id ` set ps' = {}" using x(9) i(3) by blast
    then show "distinct (map so_id (ps @ ps'))" using x(4) y(4) by simp
    have "set (told_by new) \<inter> set (told_by new') = {}" using x(9) y(7) by blast
    then show "distinct (told_by (new @ new'))" using x(6) y(6) by simp
    show "(so_id ` set (ps @ ps') \<union> set (told_by (new @ new'))) \<inter> paused_ids c = {}"
      using x(9) y(9) i(2) by auto
  qed (use x y i in auto)
qed

text \<open>A paused publish is taken up: it is sent, or not, and its completion may be told later.\<close>

lemma resumed_taken:
  assumes op: "op \<in> paused_ops a" and gone: "so_id op \<notin> paused_ids b" "paused_ops b \<subseteq> paused_ops a"
    and ev: "cl_events b = cl_events a @ first" "first = [] \<or> first = [Ev_Output (Publish_Out (so_pubMsg op))]"
    and then_: "resumed {so_id op} b c"
  shows "resumed {} a c"
proof -
  obtain new ps where y: "cl_events c = cl_events b @ new" "list_all publish_event new"
    "sent_by new = map (\<lambda>op. Publish_Out (so_pubMsg op)) ps" "distinct (map so_id ps)" "set ps \<subseteq> paused_ops b"
    "distinct (told_by new)" "set (told_by new) \<subseteq> insert (so_id op) (paused_ids b)" "paused_ops c \<subseteq> paused_ops b"
    "(so_id ` set ps \<union> set (told_by new)) \<inter> paused_ids c = {}"
    using then_ by (auto simp: resumed_def)
  have i: "paused_ids b \<subseteq> paused_ids a" "paused_ids c \<subseteq> paused_ids b" "so_id op \<in> paused_ids a" "so_id ` set ps \<subseteq> paused_ids b"
    using op gone(2) y(5,8) by (auto simp: paused_ids_ops)
  let ?ps = "(if first = [] then [] else [op]) @ ps"
  show ?thesis
    unfolding resumed_def
  proof (intro exI conjI)
    show "cl_events c = cl_events a @ (first @ new)" using ev(1) y(1) by simp
    show "sent_by (first @ new) = map (\<lambda>op. Publish_Out (so_pubMsg op)) ?ps" using ev(2) y(3) by auto
    show "distinct (map so_id ?ps)" using y(4) i(4) gone(1) by auto
    show "distinct (told_by (first @ new))" using ev(2) y(6) by auto
    show "set (told_by (first @ new)) \<subseteq> {} \<union> paused_ids a" using ev(2) y(7) i by auto
    show "(so_id ` set ?ps \<union> set (told_by (first @ new))) \<inter> paused_ids c = {}"
      using ev(2) y(9) i(2) gone(1) by auto
  qed (use ev(2) op gone(2) y in auto)
qed

definition rs_resumed :: "resumption \<Rightarrow> bool" where
  "rs_resumed rs \<longleftrightarrow> rs_within rs \<and> (\<forall>idx c. client_ok c \<longrightarrow> resumed {} c (rs idx c))"

lemma completion_resumed:
  assumes rs: "rs_resumed rs" and ok: "client_ok c" and op: "send_op_at i c = Some op" and run: "\<not> so_paused op"
  shows "resumed {i} c (SendOp_completeWithCb rs i status response c)"
proof -
  obtain cl1 idx where r: "within cl1 c" "m_sendOps cl1 = snd (eraseFromList so_id i (m_sendOps c))"
    and e: "\<And>rs. SendOp_opCompleteInternal rs i c = (if m_disconnecting (m_sessionState c) then cl1 else rs idx cl1)"
    using opCompleteInternal_removes [OF ok op] by metis
  let ?d = "SendOp_opCompleteInternal rs i c"
  have ev: "cl_events cl1 = cl_events c" using completion_silent [OF ok op] e [of "\<lambda>_ c. c"] by simp
  have p: "paused_ops cl1 \<subseteq> paused_ops c"
  proof -
    obtain ys zs where "m_sendOps c = ys @ op # zs" "eraseFromList so_id i (m_sendOps c) = (length ys, ys @ zs)"
      using eraseFromList_found [OF op [unfolded send_op_at_def]] by blast
    then show ?thesis using r(2) by (auto simp: paused_ops_def)
  qed
  have "resumed {} cl1 ?d"
    unfolding e using rs within_ok [OF r(1)] by (simp add: rs_resumed_def resumed_silent)
  then obtain new ps where y: "cl_events ?d = cl_events c @ new" "list_all publish_event new"
    "sent_by new = map (\<lambda>op. Publish_Out (so_pubMsg op)) ps" "distinct (map so_id ps)" "set ps \<subseteq> paused_ops cl1"
    "distinct (told_by new)" "set (told_by new) \<subseteq> paused_ids cl1" "paused_ops ?d \<subseteq> paused_ops cl1"
    "(so_id ` set ps \<union> set (told_by new)) \<inter> paused_ids ?d = {}"
    using ev by (auto simp: resumed_def)
  have i: "i \<notin> paused_ids c" using paused_id [OF ok op] run by simp
  have sub: "paused_ids cl1 \<subseteq> paused_ids c" "paused_ids ?d \<subseteq> paused_ids c"
    using p y(8) by (auto simp: paused_ids_ops)
  let ?ev = "Ev_PublishComplete i status response"
  have pe: "paused_ops (emit ?ev ?d) = paused_ops ?d" "paused_ids (emit ?ev ?d) = paused_ids ?d"
    by (simp_all add: paused_ops_def paused_ids_def emit_def)
  have "resumed {i} c ?d"
    unfolding resumed_def by (intro exI [of _ new] exI [of _ ps]) (use y p sub in auto)
  moreover have "resumed {i} c (emit ?ev ?d)"
    unfolding resumed_def
  proof (intro exI conjI)
    show "cl_events (emit ?ev ?d) = cl_events c @ (new @ [?ev])" using y(1) by (simp add: emit_def)
    show "distinct (told_by (new @ [?ev]))" using y(6,7) sub(1) i by auto
    show "(so_id ` set ps \<union> set (told_by (new @ [?ev]))) \<inter> paused_ids (emit ?ev ?d) = {}"
      using y(9) sub(2) i pe by auto
  qed (use y p sub pe in auto)
  ultimately show ?thesis by (simp add: SendOp_completeWithCb_def op Let_def)
qed

text \<open>The publish \<open>i\<close> is not paused, and \<open>A\<close> are those that are.\<close>

definition running :: "op_id \<Rightarrow> send_op set \<Rightarrow> client \<Rightarrow> bool" where
  "running i A c \<longleftrightarrow> paused_ops c = A \<and> (\<forall>p\<in>set (m_sendOps c). so_id p = i \<longrightarrow> \<not> so_paused p)"

lemma running_effects [simp]:
  "running i A (on_client_state h c) = running i A c" "running i A (snd (sendMessage b msg c)) = running i A c"
  "running i A (SendOp_restartResponseTimer i c) = running i A c"
proof -
  have s: "m_sendOps (snd (sendMessage b msg c)) = m_sendOps c" by (rule sendMessage_frame) simp
  show "running i A (snd (sendMessage b msg c)) = running i A c" by (simp add: running_def paused_ops_def s)
  show "running i A (on_client_state h c) = running i A c"
    by (simp add: running_def paused_ops_def on_client_state_def)
  have "m_sendOps (SendOp_restartResponseTimer i c) = m_sendOps c"
    by (simp add: SendOp_restartResponseTimer_def on_timers_def fault_def split: option.split)
  then show "running i A (SendOp_restartResponseTimer i c) = running i A c" by (simp add: running_def paused_ops_def)
qed

lemma running_upd:
  assumes "running i A c" and "\<And>p. so_id (f p) = so_id p" "\<And>p. so_paused (f p) = so_paused p"
  shows "running i A (upd_send i f c)"
  using assms unfolding running_def paused_ops_def upd_send_sends upd_op_def by (auto split: if_splits)

lemma running_unpause: "running i {p \<in> paused_ops c. so_id p \<noteq> i} (upd_send i (\<lambda>p. p\<lparr>so_paused := False\<rparr>) c)"
proof -
  let ?f = "\<lambda>p. if so_id p = i then p\<lparr>so_paused := False\<rparr> else p"
  have f: "so_paused (?f p) \<longleftrightarrow> so_paused p \<and> so_id p \<noteq> i" "so_id (?f p) = so_id p" "so_id p \<noteq> i \<Longrightarrow> ?f p = p" for p
    by simp_all
  have eq: "{x \<in> ?f ` S. so_paused x} = {x \<in> S. so_paused x \<and> so_id x \<noteq> i}" for S
  proof (intro set_eqI iffI)
    fix x assume "x \<in> {x \<in> S. so_paused x \<and> so_id x \<noteq> i}"
    then have x: "x \<in> S" "so_paused x" "?f x = x" by simp_all
    from imageI [OF x(1), of ?f] have "x \<in> ?f ` S" by (simp only: x(3))
    with x(2) show "x \<in> {x \<in> ?f ` S. so_paused x}" by blast
  next
    fix x assume "x \<in> {x \<in> ?f ` S. so_paused x}"
    then obtain p where "p \<in> S" "x = ?f p" "so_paused (?f p)" by blast
    then show "x \<in> {x \<in> S. so_paused x \<and> so_id x \<noteq> i}" by (cases "so_id p = i") simp_all
  qed
  have run: "\<forall>x\<in>?f ` S. so_id x = i \<longrightarrow> \<not> so_paused x" for S
  proof (intro ballI impI)
    fix x assume "x \<in> ?f ` S" and i: "so_id x = i"
    then obtain p where "x = ?f p" by blast
    with i show "\<not> so_paused x" by (cases "so_id p = i") simp_all
  qed
  show ?thesis
    unfolding running_def paused_ops_def upd_send_sends upd_op_def set_map eq by (intro conjI run) blast
qed

lemma running_at: "running i A c \<Longrightarrow> send_op_at i c = Some op \<Longrightarrow> \<not> so_paused op"
  using op_at_in [of so_id i "m_sendOps c" op] by (auto simp: running_def send_op_at_def)

lemma SendOp_resume_resumed:
  assumes rs: "rs_resumed rs" and ok: "client_ok cl" and op: "send_op_at i cl = Some op"
  shows "resumed {} cl (snd (SendOp_resume rs b i cl))"
proof (cases "so_paused op \<and> canSend op cl")
  case False
  then show ?thesis using op by (auto simp: SendOp_resume_def resumed_silent)
next
  case True
  let ?A = "{p \<in> paused_ops cl. so_id p \<noteq> i}"
  let ?cl0 = "upd_send i (\<lambda>p. p\<lparr>so_paused := False\<rparr>) cl"
  let ?cl1 = "upd_send i (\<lambda>p. p\<lparr>so_sendAttempts := 0\<rparr>) ?cl0"
  let ?r = "sendMessage b (Publish_Out (so_pubMsg op)) ?cl1"
  let ?cl3 = "if \<not> so_published op then publish_now i (snd ?r) else snd ?r"
  let ?cl4 = "upd_send i (\<lambda>p. p\<lparr>so_sendAttempts := Suc (so_sendAttempts p)\<rparr>) ?cl3"
  have id: "so_id op = i" and mem: "op \<in> paused_ops cl"
    using op_at_in [OF op [unfolded send_op_at_def]] True by (simp_all add: paused_ops_def)
  have o0: "send_op_at i ?cl0 = Some (op\<lparr>so_paused := False\<rparr>)" using op by (simp add: send_op_at_upd)
  have w0: "within ?cl0 cl" by (rule unpause_within [OF ok op])
  have w1: "within ?cl1 cl" by (rule within_effect [OF w0]) (simp_all add: same_core_upd_send)
  have w2: "within (snd ?r) cl" by (rule within_effect [OF w1]) simp_all
  have o2: "send_op_at i (snd ?r) = Some (op\<lparr>so_paused := False, so_sendAttempts := 0\<rparr>)"
    using op by (simp add: send_op_at_upd)
  have w3: "within ?cl3 cl"
  proof (cases "so_published op")
    case False
    have "within (publish_now i (snd ?r)) (snd ?r)"
      by (rule publish_now_within [OF within_ok [OF w2] o2]) (use False in simp_all)
    then show ?thesis using False w2 within_trans by simp
  qed (simp add: w2)
  have w4: "within ?cl4 cl" by (rule within_effect [OF w3]) (simp_all add: same_core_upd_send)
  have n1: "running i ?A ?cl1" by (rule running_upd [OF running_unpause]) simp_all
  have n2: "running i ?A (snd ?r)" using n1 by simp
  have "running i ?A ?cl3" using n2 running_upd [OF n2, of "\<lambda>p. p\<lparr>so_published := True\<rparr>"] by (simp add: publish_now_def)
  then have n4: "running i ?A ?cl4" by (rule running_upd) simp_all
  have taken: "resumed {} cl c" if "running i ?A x" "cl_events x = cl_events cl @ first"
      "first = [] \<or> first = [Ev_Output (Publish_Out (so_pubMsg op))]" "resumed {i} x c" for x c first
    using that id by (intro resumed_taken [OF mem]) (auto simp: running_def paused_ids_ops)
  have e1: "cl_events ?cl1 = cl_events cl" by (simp add: upd_send_def)
  have "\<exists>op4. send_op_at i ?cl4 = Some op4"
    using o2 by (cases "so_published op") (auto simp: publish_now_def send_op_at_upd)
  then obtain op4 where o4: "send_op_at i ?cl4 = Some op4" ..
  have D: "doSendInternal rs b i ?cl0 =
      (if fst ?r \<noteq> EC_Success then ?r
       else (EC_Success, if pm_qos (so_pubMsg op) = AtMostOnce
          then SendOp_completeWithCb rs i St_Complete None ?cl4 else SendOp_restartResponseTimer i ?cl4))"
    using o0 by (simp add: doSendInternal_def Let_def split_beta publish_now_def prod_eq_iff)
  have R: "snd (SendOp_resume rs b i cl) =
      (if fst ?r \<noteq> EC_Success
       then SendOp_completeWithCb rs i (if fst ?r = EC_BadParam then St_BadParam
              else if fst ?r = EC_BufferOverflow then St_OutOfMemory else St_InternalError) None (snd ?r)
       else if pm_qos (so_pubMsg op) = AtMostOnce
       then SendOp_completeWithCb rs i St_Complete None ?cl4 else SendOp_restartResponseTimer i ?cl4)"
    using op True by (simp add: SendOp_resume_def D Let_def split_beta)
  show ?thesis
  proof (cases "fst ?r = EC_Success")
    case failed: False
    have "cl_events (snd ?r) = cl_events cl" using failed e1 by (simp add: sendMessage_events)
    then have "resumed {} cl (SendOp_completeWithCb rs i st None (snd ?r))" for st
      using completion_resumed [OF rs within_ok [OF w2] o2 running_at [OF n2 o2]] by (intro taken [OF n2, of "[]"]) simp_all
    then show ?thesis using failed R by simp
  next
    case sent: True
    have e4: "cl_events ?cl4 = cl_events cl @ [Ev_Output (Publish_Out (so_pubMsg op))]"
    proof -
      have "cl_events (snd ?r) = cl_events cl @ [Ev_Output (Publish_Out (so_pubMsg op))]"
        using sent e1 by (simp add: sendMessage_events)
      then show ?thesis by (simp add: publish_now_def) (simp add: upd_send_def on_client_state_def)
    qed
    have "resumed {} cl (SendOp_completeWithCb rs i St_Complete None ?cl4)"
      by (rule taken [OF n4 e4 _ completion_resumed [OF rs within_ok [OF w4] o4 running_at [OF n4 o4]]]) simp
    moreover have "resumed {i} ?cl4 (SendOp_restartResponseTimer i ?cl4)"
      using n4 running_effects(3) [of i ?A ?cl4] by (intro resumed_silent) (auto simp: restart_frame running_def)
    then have "resumed {} cl (SendOp_restartResponseTimer i ?cl4)" by (rule taken [OF n4 e4, rotated]) simp
    ultimately show ?thesis using sent R by simp
  qed
qed

lemma resumeSendOpsSince_resumed: "rs_resumed (resumeSendOpsSince n b)"
proof (induction n)
  case 0
  have "resumed {} cl (fault Fuel_Exhausted cl)" for cl
    by (rule resumed_silent) (simp_all add: fault_def paused_ops_def)
  then have "\<forall>idx c. client_ok c \<longrightarrow> resumed {} c (resumeSendOpsSince 0 b idx c)" by simp
  then show ?case unfolding rs_resumed_def using resumeSendOpsSince_within [of 0 b] by blast
next
  case (Suc n)
  have "resumed {} cl (resumeSendOpsSince (Suc n) b idx cl)" if ok: "client_ok cl" for idx cl
  proof (cases "idx < length (m_sendOps cl)")
    case False
    then show ?thesis by (simp add: resumed_silent)
  next
    case True
    let ?op = "m_sendOps cl ! idx"
    let ?R = "SendOp_resume (resumeSendOpsSince n b) b (so_id ?op) cl"
    have at: "send_op_at (so_id ?op) cl = Some ?op" by (rule find_send_id [OF ok]) (simp add: True)
    have r: "resumed {} cl (snd ?R)" by (rule SendOp_resume_resumed [OF Suc ok at])
    have "client_ok (snd ?R)" by (rule capped_ok [OF resume_capped [OF resumeSendOpsSince_capped ok at]])
    then have "resumed {} cl (resumeSendOpsSince n b idx (snd ?R))"
      using Suc r resumed_trans by (fastforce simp: rs_resumed_def)
    moreover have "resumed {} cl (resumeSendOpsSince n b (idx + 1) cl)" using Suc ok by (simp add: rs_resumed_def)
    ultimately show ?thesis using True r by (simp add: Let_def split_beta)
  qed
  then show ?case unfolding rs_resumed_def using resumeSendOpsSince_within [of "Suc n" b] by blast
qed

lemma resumeSends_resumed: "client_ok cl \<Longrightarrow> resumed {} cl (resumeSends b idx cl)"
  using resumeSendOpsSince_resumed by (simp add: rs_resumed_def resumeSends_def)

section \<open>Resending\<close>

text \<open>
  What is sent again for an operation when \<^term>\<open>aliases\<close> are the aliases of the lost connection: the
  publish marked as a duplicate, with its topic in place of its alias, or, after PUBREC, its PUBREL.
\<close>

definition full_topic :: "topic_alias_info list \<Rightarrow> publish_msg \<Rightarrow> cstr" where
  "full_topic aliases msg =
     (if pm_topic msg \<noteq> [] then pm_topic msg
      else case find is_topic_alias (pm_props msg) of
             None \<Rightarrow> []
           | Some p \<Rightarrow> (case find (\<lambda>info. ta_alias info = topic_alias_value p) aliases of
                          None \<Rightarrow> [] | Some info \<Rightarrow> ta_topic info))"

definition unaliased :: "topic_alias_info list \<Rightarrow> send_op \<Rightarrow> publish_msg" where
  "unaliased aliases op =
     (so_pubMsg op)\<lparr>pm_props := filter (\<lambda>p. \<not> is_topic_alias p) (pm_props (so_pubMsg op)),
                   pm_topic := (if so_acked op then pm_topic (so_pubMsg op) else full_topic aliases (so_pubMsg op))\<rparr>"

definition after_resend :: "topic_alias_info list \<Rightarrow> send_op \<Rightarrow> send_op" where
  "after_resend aliases op =
     (if so_paused op then op
      else op\<lparr>so_pubMsg := (unaliased aliases op)\<lparr>pm_dup := (\<not> so_acked op \<or> pm_dup (so_pubMsg op))\<rparr>\<rparr>)"

definition resent_as :: "topic_alias_info list \<Rightarrow> send_op \<Rightarrow> out_msg" where
  "resent_as aliases op =
     (if so_acked op then Pubrel_Out (pm_packetId (so_pubMsg op)) None
      else Publish_Out (so_pubMsg (after_resend aliases op)))"

text \<open>
  A publish that can be sent again: it has been sent, attempts are left, it carries at most one
  alias, the topic behind the alias is known, and the new connection accepts its size.
\<close>

definition resendable :: "build \<Rightarrow> client \<Rightarrow> topic_alias_info list \<Rightarrow> send_op \<Rightarrow> bool" where
  "resendable b cl aliases op \<longleftrightarrow>
     so_paused op \<or>
     0 < so_sendAttempts op \<and> so_sendAttempts op \<le> so_totalSendAttempts op \<and>
     length (filter is_topic_alias (pm_props (so_pubMsg op))) \<le> 1 \<and>
     (pm_topic (so_pubMsg op) = [] \<and> \<not> so_acked op \<and> filter is_topic_alias (pm_props (so_pubMsg op)) \<noteq> [] \<longrightarrow>
        full_topic aliases (so_pubMsg op) \<noteq> []) \<and>
     (HasTopicAliases (b_config b) \<or> filter is_topic_alias (pm_props (so_pubMsg op)) = []) \<and>
     fst (sendMessage b (resent_as aliases op) cl) = EC_Success"

lemma no_alias_filter:
  "filter P ps = [] \<Longrightarrow> filter (\<lambda>p. \<not> P p) ps = ps \<and> List.find P ps = None \<and> find_idx P ps = length ps"
  by (induction ps) (auto split: if_splits)

lemma one_alias_filter:
  assumes "filter P ps \<noteq> []" and "length (filter P ps) \<le> 1"
  shows "find_idx P ps < length ps" "erase_at (find_idx P ps) ps = filter (\<lambda>p. \<not> P p) ps"
    "List.find P ps = Some (ps ! find_idx P ps)"
proof -
  show "find_idx P ps < length ps" using assms(1) by (auto simp: find_idx_less_iff filter_empty_conv)
  show "erase_at (find_idx P ps) ps = filter (\<lambda>p. \<not> P p) ps" using assms
  proof (induction ps)
    case (Cons p ps)
    show ?case
    proof (cases "P p")
      case True
      then have "filter P ps = []" using Cons.prems(2) by simp
      then show ?thesis using True no_alias_filter [of P ps] by (simp add: erase_at_def)
    next
      case False
      then show ?thesis using Cons by (simp add: erase_at_def)
    qed
  qed simp
  show "List.find P ps = Some (ps ! find_idx P ps)" using assms(1) by (induction ps) auto
qed

lemma drop_alias_resendable:
  assumes r: "resendable b cl aliases op" and run: "\<not> so_paused op"
  shows "(if HasTopicAliases (b_config b) then drop_topic_alias aliases (so_acked op) (so_pubMsg op)
          else Some (so_pubMsg op)) = Some (unaliased aliases op)"
proof (cases "filter is_topic_alias (pm_props (so_pubMsg op)) = []")
  case True
  note n = no_alias_filter [OF True]
  have "full_topic aliases (so_pubMsg op) = pm_topic (so_pubMsg op)" using n by (simp add: full_topic_def)
  then show ?thesis using n by (simp add: drop_topic_alias_def unaliased_def)
next
  case False
  have "HasTopicAliases (b_config b)" and one: "length (filter is_topic_alias (pm_props (so_pubMsg op))) \<le> 1"
    and known: "pm_topic (so_pubMsg op) = [] \<and> \<not> so_acked op \<longrightarrow> full_topic aliases (so_pubMsg op) \<noteq> []"
    using r run False by (auto simp: resendable_def)
  then show ?thesis
    using one_alias_filter [OF False one]
    by (auto simp: drop_topic_alias_def unaliased_def full_topic_def Let_def split: option.splits)
qed

lemma upd_op_pointwise:
  assumes "op_at oid i xs = Some x" and "distinct (map oid xs)" and "f x = g x"
  shows "upd_op oid i f xs = upd_op oid i g xs"
proof -
  have "y = x" if "y \<in> set xs" "oid y = i" for y
    using assms(1,2) op_at_in [OF assms(1)] that by (auto simp: distinct_map inj_on_def)
  then show ?thesis using assms(3) by (auto simp: upd_op_def)
qed

lemma upd_op_twice: "(\<And>x. oid (g x) = oid x) \<Longrightarrow> upd_op oid i f (upd_op oid i g xs) = upd_op oid i (f \<circ> g) xs"
  by (auto simp: upd_op_def)

text \<open>One publish is sent again.\<close>

lemma resend_one:
  assumes op: "send_op_at i cl = Some op" and run: "\<not> so_paused op" and dist: "distinct (map so_id (m_sendOps cl))"
    and r: "resendable b cl aliases op" and al: "m_sendTopicAliases (m_clientState cl) = aliases"
  shows "cl_events (postReconnectionResend b i cl) = cl_events cl @ [Ev_Output (resent_as aliases op)]"
    and "m_sendOps (postReconnectionResend b i cl) = upd_op so_id i (after_resend aliases) (m_sendOps cl)"
    and "m_clientState (postReconnectionResend b i cl) = m_clientState cl"
    and "cl_fault (postReconnectionResend b i cl) = cl_fault cl"
proof -
  let ?f1 = "\<lambda>p. p\<lparr>so_pubMsg := unaliased aliases op, so_sendAttempts := dec_u32 (so_sendAttempts p)\<rparr>"
  let ?f2 = "\<lambda>p. if \<not> so_acked op then p\<lparr>so_pubMsg := (so_pubMsg p)\<lparr>pm_dup := True\<rparr>\<rparr> else p"
  let ?f3 = "\<lambda>p. p\<lparr>so_sendAttempts := Suc (so_sendAttempts p)\<rparr>"
  let ?cl2 = "on_timers (timerCancel (so_responseTimer op)) (upd_send i ?f1 cl)"
  let ?cl3 = "upd_send i ?f2 ?cl2"
  let ?r = "sendMessage b (resent_as aliases op) ?cl3"
  let ?cl4 = "upd_send i ?f3 (snd ?r)"
  have left: "0 < so_sendAttempts op" "so_sendAttempts op \<le> so_totalSendAttempts op"
    and fits: "fst (sendMessage b (resent_as aliases op) cl) = EC_Success"
    using r run by (auto simp: resendable_def)
  have at2: "send_op_at i (upd_send i ?f1 cl) = Some (?f1 op)" using op by (simp add: send_op_at_upd)
  have id3: "upd_send i (\<lambda>p. p) ?cl2 = ?cl2" by (simp add: upd_send_def upd_op_def)
  have "fst ?r = EC_Success" using fits sendMessage_result_cong [of ?cl3 cl] by (simp add: upd_send_def on_timers_def)
  moreover have "resent_as aliases op = (if so_acked op then Pubrel_Out (pm_packetId (unaliased aliases op)) None
      else Publish_Out ((unaliased aliases op)\<lparr>pm_dup := True\<rparr>))"
    using run by (simp add: resent_as_def after_resend_def unaliased_def)
  moreover have "postReconnectionResend b i cl = resendDupMsg b i ?cl2"
    using run by (simp only: postReconnectionResend_def op option.case al drop_alias_resendable [OF r run] Let_def if_False)
  ultimately have e: "postReconnectionResend b i cl = SendOp_restartResponseTimer i ?cl4"
    using left id3 by (cases "so_acked op") (simp_all add: resendDupMsg_def at2 Let_def split_beta)
  have "so_id (?f1 p) = so_id p" "so_id (?f2 p) = so_id p" for p by simp_all
  then have "m_sendOps ?cl4 = upd_op so_id i (?f3 \<circ> (?f2 \<circ> ?f1)) (m_sendOps cl)"
    by (simp add: upd_send_sends upd_op_twice)
  also have "\<dots> = upd_op so_id i (after_resend aliases) (m_sendOps cl)"
    using op dist left run
    by (intro upd_op_pointwise [of so_id i _ op]) (simp_all add: send_op_at_def after_resend_def unaliased_def)
  finally have s: "m_sendOps ?cl4 = upd_op so_id i (after_resend aliases) (m_sendOps cl)" .
  then show "m_sendOps (postReconnectionResend b i cl) = upd_op so_id i (after_resend aliases) (m_sendOps cl)"
    unfolding e by simp
  show "cl_events (postReconnectionResend b i cl) = cl_events cl @ [Ev_Output (resent_as aliases op)]"
    unfolding e restart_frame using \<open>fst ?r = EC_Success\<close>
    by (simp add: upd_send_def sendMessage_events) (simp add: on_timers_def)
  obtain op4 where "send_op_at i ?cl4 = Some op4" using at2 by (simp add: send_op_at_upd)
  then have t: "\<exists>g. postReconnectionResend b i cl = on_timers g ?cl4"
    unfolding e by (auto simp del: send_op_at_effects simp: SendOp_restartResponseTimer_def)
  then show "m_clientState (postReconnectionResend b i cl) = m_clientState cl"
    "cl_fault (postReconnectionResend b i cl) = cl_fault cl"
    by (auto simp: on_timers_def upd_send_def)
qed

lemma resendable_cong:
  assumes "m_maxSendPacketSize (m_sessionState c) = m_maxSendPacketSize (m_sessionState cl)"
  shows "resendable b c aliases op = resendable b cl aliases op"
proof -
  have "fst (sendMessage b msg c) = fst (sendMessage b msg cl)" for msg
    using assms by (simp add: sendMessage_def Let_def)
  then show ?thesis by (simp add: resendable_def)
qed

lemma op_at_middle: "oid y \<notin> oid ` set xs \<Longrightarrow> op_at oid (oid y) (xs @ y # zs) = Some y"
  by (induction xs) (auto simp: op_at_def)

lemma upd_op_middle:
  "oid y \<notin> oid ` set xs \<Longrightarrow> oid y \<notin> oid ` set zs \<Longrightarrow> upd_op oid (oid y) f (xs @ y # zs) = xs @ f y # zs"
proof -
  assume "oid y \<notin> oid ` set xs" "oid y \<notin> oid ` set zs"
  then have "\<forall>x\<in>set xs \<union> set zs. oid x \<noteq> oid y" by (metis Un_iff imageI)
  then show ?thesis by (simp add: upd_op_def map_idI)
qed

lemma resend_list:
  assumes "m_sendOps c = done_ops @ rest" and "distinct (map so_id (done_ops @ rest))"
    and "\<forall>op\<in>set rest. resendable b c aliases op" and "m_sendTopicAliases (m_clientState c) = aliases"
  shows "cl_events (resend_all b (map so_id rest) c) =
           cl_events c @ map (\<lambda>op. Ev_Output (resent_as aliases op)) (filter (\<lambda>op. \<not> so_paused op) rest)"
    and "m_sendOps (resend_all b (map so_id rest) c) = done_ops @ map (after_resend aliases) rest"
    and "m_clientState (resend_all b (map so_id rest) c) = m_clientState c"
    and "cl_fault (resend_all b (map so_id rest) c) = cl_fault c"
proof -
  have "cl_events (resend_all b (map so_id rest) c) =
           cl_events c @ map (\<lambda>op. Ev_Output (resent_as aliases op)) (filter (\<lambda>op. \<not> so_paused op) rest) \<and>
     m_sendOps (resend_all b (map so_id rest) c) = done_ops @ map (after_resend aliases) rest \<and>
     m_clientState (resend_all b (map so_id rest) c) = m_clientState c \<and>
     cl_fault (resend_all b (map so_id rest) c) = cl_fault c"
    using assms
  proof (induction rest arbitrary: c done_ops)
    case (Cons op rest)
    let ?c1 = "postReconnectionResend b (so_id op) c"
    have at: "send_op_at (so_id op) c = Some op"
      using Cons.prems(1,2) op_at_middle [of so_id op done_ops rest] by (simp add: send_op_at_def)
    have step: "cl_events ?c1 = cl_events c @ (if so_paused op then [] else [Ev_Output (resent_as aliases op)]) \<and>
        m_sendOps ?c1 = (done_ops @ [after_resend aliases op]) @ rest \<and> m_clientState ?c1 = m_clientState c \<and>
        cl_fault ?c1 = cl_fault c"
    proof (cases "so_paused op")
      case True
      then show ?thesis using at Cons.prems(1) by (simp add: postReconnectionResend_def after_resend_def)
    next
      case False
      have "distinct (map so_id (m_sendOps c))" "resendable b c aliases op" using Cons.prems(1-3) by simp_all
      moreover have "upd_op so_id (so_id op) (after_resend aliases) (m_sendOps c) =
          (done_ops @ [after_resend aliases op]) @ rest"
        using Cons.prems(1,2) upd_op_middle [of so_id op done_ops rest] by simp
      ultimately show ?thesis using resend_one [OF at False _ _ Cons.prems(4)] False by simp
    qed
    have "same_session c ?c1" by (rule session.frame_resend)
    then have "\<forall>op\<in>set rest. resendable b ?c1 aliases op"
      using Cons.prems(3) resendable_cong [of ?c1 c] by (simp add: same_session_def)
    moreover have "so_id (after_resend aliases op) = so_id op" by (simp add: after_resend_def)
    moreover from this have "map so_id (m_sendOps ?c1) = map so_id (m_sendOps c)" using step Cons.prems(1) by simp
    ultimately show ?case
      using Cons.IH [of ?c1 "done_ops @ [after_resend aliases op]"] step Cons.prems(2,4) by (simp add: Let_def)
  qed simp
  then show "cl_events (resend_all b (map so_id rest) c) =
           cl_events c @ map (\<lambda>op. Ev_Output (resent_as aliases op)) (filter (\<lambda>op. \<not> so_paused op) rest)"
    "m_sendOps (resend_all b (map so_id rest) c) = done_ops @ map (after_resend aliases) rest"
    "m_clientState (resend_all b (map so_id rest) c) = m_clientState c"
    "cl_fault (resend_all b (map so_id rest) c) = cl_fault c" by blast+
qed

section \<open>The connection is back\<close>

lemma createKeepAlive_frame:
  obtains ops tm "next" refs where "createKeepAliveOpIfNeeded b cl =
    cl\<lparr>m_timerMgr := tm, m_keepAliveOps := ops, m_ops := refs, cl_nextId := next\<rparr>"
proof -
  obtain op tm where c: "KeepAliveOp_construct b cl = (op, cl\<lparr>m_timerMgr := tm\<rparr>)" by (rule KeepAliveOp_construct_frame)
  have "createKeepAliveOpIfNeeded b cl = cl\<lparr>m_timerMgr := m_timerMgr cl, m_keepAliveOps := m_keepAliveOps cl,
      m_ops := m_ops cl, cl_nextId := cl_nextId cl\<rparr> \<or>
    createKeepAliveOpIfNeeded b cl = cl\<lparr>m_timerMgr := tm, m_keepAliveOps := m_keepAliveOps cl @ [op],
      m_ops := m_ops cl @ [Some (Type_KeepAlive, cl_nextId cl)], cl_nextId := Suc (cl_nextId cl)\<rparr>"
    using c by (simp add: createKeepAliveOpIfNeeded_def register_op_def)
  then show thesis using that by blast
qed

lemma connected_core:
  "same_core (on_session_state (\<lambda>s. s\<lparr>m_connected := True\<rparr>)
     (on_client_state (\<lambda>s. s\<lparr>m_firstConnect := False\<rparr>) (on_timers g cl))) cl"
  by (simp add: same_core_def live_ids_def on_session_state_def on_client_state_def on_timers_def packet_ids_ok_def
      split: op_type.split)

text \<open>
  What is sent again comes first; then the paused publishes that now have room. Without paused
  ones that is all, and every operation is kept.
\<close>

lemma reconnected:
  assumes ok: "client_ok cl" and r: "\<forall>op\<in>set (m_sendOps cl). resendable b cl (m_sendTopicAliases (m_clientState cl)) op"
  defines "aliases \<equiv> m_sendTopicAliases (m_clientState cl)" and "cl' \<equiv> brokerConnected b True cl"
  obtains later ps where
    "cl_events cl' = cl_events cl @
       map (\<lambda>op. Ev_Output (resent_as aliases op)) (filter (\<lambda>op. \<not> so_paused op) (m_sendOps cl)) @ later"
    "list_all publish_event later"
    "sent_by later = map (\<lambda>op. Publish_Out (so_pubMsg op)) ps" "distinct (map so_id ps)" "set ps \<subseteq> paused_ops cl"
    "distinct (told_by later)" "set (told_by later) \<subseteq> paused_ids cl"
    "none_paused cl \<Longrightarrow> later = [] \<and> m_sendOps cl' = map (after_resend aliases) (m_sendOps cl) \<and> cl_fault cl' = cl_fault cl"
    "m_sessionState cl' = (m_sessionState cl)\<lparr>m_connected := True\<rparr>"
proof -
  let ?cl1 = "on_session_state (\<lambda>s. s\<lparr>m_connected := True\<rparr>)
                (on_client_state (\<lambda>s. s\<lparr>m_firstConnect := False\<rparr>)
                  (on_timers (timerCancel (m_sessionExpiryTimer cl)) cl))"
  let ?cl2 = "resend_all b (map so_id (m_sendOps ?cl1)) ?cl1"
  let ?cl3 = "fold (\<lambda>op. postReconnectionResume b (ro_id op)) (m_recvOps ?cl2) ?cl2"
  let ?until = "min (m_highQosSendLimit (m_sessionState ?cl3)) (length (m_sendOps ?cl3))"
  let ?from = "resume_from_idx (m_sendOps ?cl3) ?until"
  let ?cl4 = "if ?from < ?until then resumeSends b ?from ?cl3 else ?cl3"
  let ?cl5 = "on_client_state (\<lambda>s. s\<lparr>m_sendTopicAliases := []\<rparr>) ?cl4"
  have c1: "m_sendOps ?cl1 = m_sendOps cl" "cl_events ?cl1 = cl_events cl" "cl_fault ?cl1 = cl_fault cl"
    "m_sessionState ?cl1 = (m_sessionState cl)\<lparr>m_connected := True\<rparr>"
    "m_sendTopicAliases (m_clientState ?cl1) = aliases"
    by (simp_all add: on_session_state_def on_client_state_def on_timers_def aliases_def)
  have "\<forall>op\<in>set (m_sendOps cl). resendable b ?cl1 aliases op"
    using r resendable_cong [of ?cl1 cl] c1(4) by (simp add: aliases_def)
  then have c2: "cl_events ?cl2 = cl_events cl @
      map (\<lambda>op. Ev_Output (resent_as aliases op)) (filter (\<lambda>op. \<not> so_paused op) (m_sendOps cl))"
    "m_sendOps ?cl2 = map (after_resend aliases) (m_sendOps cl)" "cl_fault ?cl2 = cl_fault cl"
    using resend_list [of ?cl1 "[]" "m_sendOps cl" b aliases] client_ok_distinct_sends [OF ok] c1 by simp_all
  have "\<exists>g. ?cl3 = on_timers g ?cl2"
    by (rule resume_all_timers) (auto simp: recv_op_at_def op_at_None)
  then obtain g where c3: "?cl3 = on_timers g ?cl2" by blast
  have "same_session ?cl1 ?cl3"
    unfolding c3 by (rule session.frame_then [OF session.frame_timers session.frame_resend_all])
  moreover have "same_session ?cl3 ?cl4"
    using session.frame_resumeSends [of b] session.frame_refl by (simp add: session.resumes_def)
  ultimately have "same_session ?cl1 ?cl4" by (rule session.frame_trans)
  then have s4: "m_sessionState ?cl4 = (m_sessionState cl)\<lparr>m_connected := True\<rparr>" using c1(4) by (simp add: same_session_def)
  have "client_ok ?cl1" by (rule same_core_ok [OF connected_core ok])
  then have "client_ok ?cl2" by (rule grows_ok_ok [OF resend_all_ok]) simp
  then have "client_ok ?cl3" unfolding c3 by (rule same_core_ok [OF same_core_effects(3)])
  then have "resumed {} ?cl3 ?cl4" by (simp add: resumeSends_resumed resumed_silent)
  have os: "m_sendOps (on_timers g c) = m_sendOps c" "cl_fault (on_timers g c) = cl_fault c"
    "cl_events (on_timers g c) = cl_events c" for c by (simp_all add: on_timers_def)
  have s3: "m_sendOps ?cl3 = map (after_resend aliases) (m_sendOps cl)" "cl_fault ?cl3 = cl_fault cl"
    "cl_events ?cl3 = cl_events ?cl2"
    unfolding c3 os using c2(2,3) by simp_all
  have p3: "paused_ops ?cl3 \<subseteq> paused_ops cl"
  proof
    fix op assume "op \<in> paused_ops ?cl3"
    then have "op \<in> after_resend aliases ` set (m_sendOps cl) \<and> so_paused op"
      unfolding paused_ops_def s3(1) set_map by blast
    then obtain p where "p \<in> set (m_sendOps cl)" "op = after_resend aliases p" "so_paused op" by blast
    then show "op \<in> paused_ops cl" by (cases "so_paused p") (simp_all add: paused_ops_def after_resend_def)
  qed
  from \<open>resumed {} ?cl3 ?cl4\<close> obtain later ps where l3: "cl_events ?cl4 = cl_events ?cl3 @ later" "list_all publish_event later"
    "sent_by later = map (\<lambda>op. Publish_Out (so_pubMsg op)) ps" "distinct (map so_id ps)" "set ps \<subseteq> paused_ops ?cl3"
    "distinct (told_by later)" "set (told_by later) \<subseteq> {} \<union> paused_ids ?cl3"
    unfolding resumed_def by (elim exE conjE) (rule that)
  have l: "cl_events ?cl4 = cl_events ?cl2 @ later" "list_all publish_event later"
    "sent_by later = map (\<lambda>op. Publish_Out (so_pubMsg op)) ps" "distinct (map so_id ps)" "set ps \<subseteq> paused_ops cl"
    "distinct (told_by later)" "set (told_by later) \<subseteq> paused_ids cl"
  proof -
    show "cl_events ?cl4 = cl_events ?cl2 @ later" using l3(1) by (simp only: s3(3))
    show "set ps \<subseteq> paused_ops cl" using l3(5) p3 by (rule subset_trans)
    show "set (told_by later) \<subseteq> paused_ids cl"
      using l3(7) image_mono [OF p3, of so_id] unfolding paused_ids_ops Un_empty_left by (rule subset_trans)
  qed (rule l3)+
  have "none_paused ?cl3" if "none_paused cl"
    using that unfolding none_paused_def s3(1) by (auto simp: after_resend_def)
  then have n: "?cl4 = ?cl3" if "none_paused cl" using that nothing_to_resume by simp
  have e: "cl' = createKeepAliveOpIfNeeded b ?cl5" by (simp only: cl'_def brokerConnected_def Let_def if_True)
  obtain ops tm nxt refs where k: "createKeepAliveOpIfNeeded b ?cl5 =
      ?cl5\<lparr>m_timerMgr := tm, m_keepAliveOps := ops, m_ops := refs, cl_nextId := nxt\<rparr>"
    by (rule createKeepAlive_frame)
  have f: "cl_events cl' = cl_events ?cl4" "m_sendOps cl' = m_sendOps ?cl4" "cl_fault cl' = cl_fault ?cl4"
    "m_sessionState cl' = m_sessionState ?cl4"
    unfolding e k by (simp_all add: on_client_state_def)
  have "none_paused cl \<Longrightarrow> later = [] \<and> m_sendOps cl' = map (after_resend aliases) (m_sendOps cl) \<and> cl_fault cl' = cl_fault cl"
    using n l(1) f(2,3) s3 by simp
  then show thesis using that [of later ps] f(1,4) l c2(1) s4 by simp
qed

section \<open>Properties\<close>

text \<open>
  C10: After a reconnection to a stored session every unacknowledged publish is sent again, in the original
  order and before anything else: as a duplicate with its full topic, or as PUBREL when PUBREC has arrived.
  This is for publishes that can be sent again: attempts are left, the topic behind an alias is known, and the new
  connection accepts the size. What follows is only the publishes that were paused, each sent at
  most once as it was configured, and the completion of such publishes, each told at most once. When none was paused
  nothing follows, every operation is kept, and the negotiated session is untouched.
\<close>

theorem unacknowledged_resent_in_order:
  assumes "client_ok cl" and "aliases = m_sendTopicAliases (m_clientState cl)"
    and "\<forall>op\<in>set (m_sendOps cl). resendable b cl aliases op"
  shows "let cl' = brokerConnected b True cl; running = filter (\<lambda>op. \<not> so_paused op) (m_sendOps cl);
           paused = filter so_paused (m_sendOps cl) in
    (\<exists>later ps. cl_events cl' = cl_events cl @ map (\<lambda>op. Ev_Output (resent_as aliases op)) running @ later \<and>
       list_all publish_event later \<and>
       sent_by later = map (\<lambda>op. Publish_Out (so_pubMsg op)) ps \<and> distinct (map so_id ps) \<and> set ps \<subseteq> set paused \<and>
       distinct (told_by later) \<and> set (told_by later) \<subseteq> so_id ` set paused \<and> (paused = [] \<longrightarrow> later = [])) \<and>
    (paused = [] \<longrightarrow> m_sendOps cl' = map (after_resend aliases) (m_sendOps cl) \<and> cl_fault cl' = cl_fault cl) \<and>
    m_sessionState cl' = (m_sessionState cl)\<lparr>m_connected := True\<rparr>"
proof -
  have n: "none_paused cl" if "filter so_paused (m_sendOps cl) = []"
    using that by (simp add: none_paused_def filter_empty_conv)
  have p: "paused_ops cl = set (filter so_paused (m_sendOps cl))" by (auto simp: paused_ops_def)
  obtain later ps where l: "cl_events (brokerConnected b True cl) = cl_events cl @
       map (\<lambda>op. Ev_Output (resent_as aliases op)) (filter (\<lambda>op. \<not> so_paused op) (m_sendOps cl)) @ later"
    "list_all publish_event later" "sent_by later = map (\<lambda>op. Publish_Out (so_pubMsg op)) ps"
    "distinct (map so_id ps)" "set ps \<subseteq> paused_ops cl" "distinct (told_by later)" "set (told_by later) \<subseteq> paused_ids cl"
    "none_paused cl \<Longrightarrow> later = [] \<and> m_sendOps (brokerConnected b True cl) = map (after_resend aliases) (m_sendOps cl) \<and>
       cl_fault (brokerConnected b True cl) = cl_fault cl"
    "m_sessionState (brokerConnected b True cl) = (m_sessionState cl)\<lparr>m_connected := True\<rparr>"
    by (rule reconnected [OF assms(1) assms(3) [unfolded assms(2)], folded assms(2)]) (rule that; (assumption | blast))
  show ?thesis
    unfolding Let_def using l n p by (intro conjI exI [of _ later] exI [of _ ps]) (simp_all only: paused_ids_ops, blast+)
qed

text \<open>A publish with an alias in place of its topic, and one that waits for PUBCOMP.\<close>

definition aliased_publish :: send_op where
  "aliased_publish = (sample_publish 3 5)\<lparr>so_pubMsg :=
     (so_pubMsg (sample_publish 3 5))\<lparr>pm_topic := [], pm_props := [TopicAlias 1, ContentType ''t'']\<rparr>\<rparr>"

definition released_publish :: send_op where
  "released_publish = (sample_publish 4 6)\<lparr>so_acked := True,
     so_pubMsg := (so_pubMsg (sample_publish 4 6))\<lparr>pm_qos := ExactlyOnce\<rparr>\<rparr>"

definition reconnecting_client :: client where
  "reconnecting_client = on_client_state
     (\<lambda>s. s\<lparr>m_sendTopicAliases := [\<lparr>ta_topic = ''a/b'', ta_alias = 1, ta_lowQosRegRemCount = 0\<rparr>]\<rparr>)
     (sample_client sample_build [aliased_publish, released_publish] [] [5, 6])"

theorem unacknowledged_resent_in_order_witness:
  "cl_events (brokerConnected sample_build True reconnecting_client) = cl_events reconnecting_client @
     [Ev_Output (Publish_Out \<lparr>pm_dup = True, pm_qos = AtLeastOnce, pm_retain = False, pm_topic = ''a/b'', pm_packetId = 5,
        pm_packetIdExists = True, pm_props = [ContentType ''t''], pm_payload = []\<rparr>),
      Ev_Output (Pubrel_Out 6 None)]"
proof -
  let ?al = "[\<lparr>ta_topic = ''a/b'', ta_alias = 1, ta_lowQosRegRemCount = 0\<rparr>]"
  have "client_ok (sample_client sample_build [aliased_publish, released_publish] [] [5, 6])"
    by (rule sample_client_ok) (simp_all add: aliased_publish_def released_publish_def sample_publish_def key_sorted_def)
  then have ok: "client_ok reconnecting_client"
    unfolding reconnecting_client_def by (rule same_core_ok [OF same_core_client_state, rotated -1]) simp_all
  have al: "?al = m_sendTopicAliases (m_clientState reconnecting_client)"
    by (simp add: reconnecting_client_def on_client_state_def)
  have s: "m_sendOps reconnecting_client = [aliased_publish, released_publish]"
    by (simp add: reconnecting_client_def sample_facts_sends)
  have f: "fst (sendMessage sample_build msg reconnecting_client) = EC_Success" for msg
    by (simp add: sendMessage_def Let_def split_beta reconnecting_client_def sample_client_def sample_defs)
  have r: "\<forall>op\<in>set (m_sendOps reconnecting_client). resendable sample_build reconnecting_client ?al op"
    unfolding s
    by (simp add: resendable_def f aliased_publish_def released_publish_def sample_publish_def full_topic_def)
       (simp add: sample_build_def default_config_def)
  show ?thesis
    using unacknowledged_resent_in_order [OF ok al r]
    by (simp add: s Let_def resent_as_def after_resend_def unaliased_def aliased_publish_def released_publish_def
        sample_publish_def full_topic_def)
qed

end
