(* ===== verification/Connect_Flow.thy ===== *)
theory Connect_Flow
  imports Reconnection
begin

text \<open>
  The handshake as a whole: what CONNACK does to a connection that is being made
  (\<^verbatim>\<open>ConnectOp::handle(ConnackMsg&)\<close> with \<^verbatim>\<open>ClientImpl::brokerConnected\<close> behind it). The attempt
  completes once on every branch, and the session is the one that was negotiated, whatever the
  client terminates, sends again or resumes on the way.
\<close>

section \<open>Gaining the connection as a frame\<close>

text \<open>\<^verbatim>\<open>brokerConnected\<close> in three parts: the flags, the publishes, and the keep alive operation.\<close>

definition connected_now :: "client \<Rightarrow> client" where
  "connected_now cl =
     on_session_state (\<lambda>s. s\<lparr>m_connected := True\<rparr>)
       (on_client_state (\<lambda>s. s\<lparr>m_firstConnect := False\<rparr>)
         (on_timers (timerCancel (m_sessionExpiryTimer cl)) cl))"

definition session_resumed :: "build \<Rightarrow> client \<Rightarrow> client" where
  "session_resumed b cl =
     (let cl1 = resend_all b (map so_id (m_sendOps cl)) cl;
          cl2 = fold (\<lambda>op. postReconnectionResume b (ro_id op)) (m_recvOps cl1) cl1;
          until = min (m_highQosSendLimit (m_sessionState cl2)) (length (m_sendOps cl2));
          start = resume_from_idx (m_sendOps cl2) until
      in if start < until then resumeSends b start cl2 else cl2)"

definition publishes_settled :: "build \<Rightarrow> bool \<Rightarrow> client \<Rightarrow> client" where
  "publishes_settled b sessionPresent cl =
     on_client_state (\<lambda>s. s\<lparr>m_sendTopicAliases := []\<rparr>)
       (if sessionPresent then session_resumed b cl else terminate_stored b [0..<length (m_ops cl)] cl)"

lemma brokerConnected_parts:
  "brokerConnected b sessionPresent cl =
     createKeepAliveOpIfNeeded b (publishes_settled b sessionPresent (connected_now cl))"
  by (simp only: brokerConnected_def connected_now_def publishes_settled_def session_resumed_def Let_def)

context publish_frame
begin

lemma frame_postResume: "R c (postReconnectionResume b i c)"
proof -
  have "R x (RecvOp_connectivityChanged b i x)" "R x (RecvOp_restartResponseTimer b i x)" for x
    using frame_refl frame_fault frame_timers
    by (simp_all add: RecvOp_connectivityChanged_def RecvOp_restartResponseTimer_def split: option.split)
  then have "R c (RecvOp_restartResponseTimer b i (RecvOp_connectivityChanged b i c))" by (rule frame_trans)
  then show ?thesis by (simp add: postReconnectionResume_def frame_refl)
qed

lemma frame_postResume_all: "R c (fold (\<lambda>op. postReconnectionResume b (ro_id op)) ops c)"
proof (induction ops arbitrary: c)
  case (Cons op ops)
  show ?case using frame_then [OF Cons frame_postResume] by simp
qed (simp add: frame_refl)

lemma frame_session_resumed: "R c (session_resumed b c)"
proof -
  have s: "R x (resumeSends b k x)" for x k using frame_resumeSends by (simp add: resumes_def)
  have "R c (fold (\<lambda>op. postReconnectionResume b (ro_id op)) ops (resend_all b is c))" for ops "is"
    by (rule frame_then [OF frame_postResume_all frame_resend_all])
  moreover from this have "R c (resumeSends b k (fold (\<lambda>op. postReconnectionResume b (ro_id op)) ops (resend_all b is c)))"
    for k ops "is" by (rule frame_then [OF s])
  moreover have if_R: "R c (if p then x else y)" if "R c x" "R c y" for p x y using that by simp
  ultimately show ?thesis unfolding session_resumed_def Let_def by (intro if_R)
qed

end

context session_frame
begin

lemma frame_settled: "R c (publishes_settled b sessionPresent c)"
proof -
  have "R c (if sessionPresent then session_resumed b c else terminate_stored b [0..<length (m_ops c)] c)"
    using frame_terminate_stored frame_session_resumed by simp
  then show ?thesis unfolding publishes_settled_def by (rule frame_then [OF frame_client_state])
qed

end

lemma brokerConnected_frame:
  "m_sessionState (brokerConnected b sessionPresent cl) = (m_sessionState cl)\<lparr>m_connected := True\<rparr>"
  "m_connectOps (brokerConnected b sessionPresent cl) = m_connectOps cl"
  "m_subFilters (brokerConnected b sessionPresent cl) = m_subFilters cl"
  "publishes_more cl (brokerConnected b sessionPresent cl)"
proof -
  let ?c = "publishes_settled b sessionPresent (connected_now cl)"
  obtain ops tm nxt refs where k: "createKeepAliveOpIfNeeded b ?c =
      ?c\<lparr>m_timerMgr := tm, m_keepAliveOps := ops, m_ops := refs, cl_nextId := nxt\<rparr>"
    by (rule createKeepAlive_frame)
  have now: "m_sessionState (connected_now cl) = (m_sessionState cl)\<lparr>m_connected := True\<rparr>"
    "m_connectOps (connected_now cl) = m_connectOps cl" "m_subFilters (connected_now cl) = m_subFilters cl"
    "cl_events (connected_now cl) = cl_events cl"
    by (simp_all add: connected_now_def on_session_state_def on_client_state_def on_timers_def)
  have "same_session (connected_now cl) ?c" by (rule session.frame_settled)
  then show "m_sessionState (brokerConnected b sessionPresent cl) = (m_sessionState cl)\<lparr>m_connected := True\<rparr>"
    "m_connectOps (brokerConnected b sessionPresent cl) = m_connectOps cl"
    "m_subFilters (brokerConnected b sessionPresent cl) = m_subFilters cl"
    unfolding brokerConnected_parts k by (simp_all add: same_session_def now)
  have "publishes_more (connected_now cl) ?c" by (rule trace.frame_settled)
  then show "publishes_more cl (brokerConnected b sessionPresent cl)"
    unfolding brokerConnected_parts k by (simp add: publishes_more_def now)
qed

section \<open>The completion of the attempt\<close>

lemma connect_completed:
  assumes ok: "client_ok cl" and op: "connect_op_at i cl = Some op" and cb: "hs_cb op"
    and cl': "cl' = ConnectOp_completeOpInternal b i status response cl"
  shows "cl_events cl' = cl_events cl @ [Ev_ConnectComplete status response]"
    and "connect_op_at i cl' = None" and "m_sessionState cl' = m_sessionState cl" and "m_subFilters cl' = m_subFilters cl"
proof -
  let ?c = "opComplete b (Type_Connect, i) cl"
  have e: "cl' = emit (Ev_ConnectComplete status response) ?c"
    using op cb by (simp add: cl' ConnectOp_completeOpInternal_def connect_op_at_def Let_def)
  have f: "cl_events ?c = cl_events cl \<and> m_sessionState ?c = m_sessionState cl \<and> m_subFilters ?c = m_subFilters cl"
    using op by (simp add: opComplete_def opComplete_with_def opComplete_Connect_def Let_def connect_op_at_def
        destroy_timer_def split: option.split) (simp add: on_timers_def)
  then show "cl_events cl' = cl_events cl @ [Ev_ConnectComplete status response]"
    "m_sessionState cl' = m_sessionState cl" "m_subFilters cl' = m_subFilters cl"
    unfolding e by (simp_all add: emit_def)
  have r: "removed (Type_Connect, i) ?c cl"
    by (rule opComplete_ok(2) [OF ok connect_live [OF ok op]]) simp
  then have "live_ids Type_Connect ?c = remove1 i (live_ids Type_Connect cl)" by (simp add: removed_def)
  moreover have "distinct (live_ids Type_Connect cl)" using ok by (simp add: client_ok_def registry_ok_def)
  ultimately have "i \<notin> set (live_ids Type_Connect ?c)" by simp
  then show "connect_op_at i cl' = None"
    unfolding e by (simp add: connect_op_at_def op_at_None live_ids_def emit_def)
qed

lemma accepted_frame:
  "m_sessionState (connection_accepted b op h response c) =
     (session_of_connack b op h response (m_sessionState c))\<lparr>m_connected := True\<rparr>"
  "m_connectOps (connection_accepted b op h response c) = m_connectOps c"
  "m_subFilters (connection_accepted b op h response c) = (if cr_sessionPresent response then m_subFilters c else [])"
  "publishes_more c (connection_accepted b op h response c)"
proof -
  let ?c1 = "if \<not> cr_sessionPresent response then c\<lparr>m_subFilters := []\<rparr> else c"
  let ?c2 = "on_client_state
    (\<lambda>s. s\<lparr>m_sendTopicAliases := take (cr_topicAliasMax response) (m_sendTopicAliases s)\<rparr>) ?c1"
  let ?c3 = "on_session_state (session_of_connack b op h response) ?c2"
  have e: "connection_accepted b op h response c = brokerConnected b (cr_sessionPresent response) ?c3"
    by (simp only: connection_accepted_def Let_def)
  have f: "m_sessionState ?c3 = session_of_connack b op h response (m_sessionState c)" "m_connectOps ?c3 = m_connectOps c"
    "m_subFilters ?c3 = (if cr_sessionPresent response then m_subFilters c else [])" "cl_events ?c3 = cl_events c"
    by (simp_all add: on_session_state_def on_client_state_def)
  show "m_sessionState (connection_accepted b op h response c) =
      (session_of_connack b op h response (m_sessionState c))\<lparr>m_connected := True\<rparr>"
    "m_connectOps (connection_accepted b op h response c) = m_connectOps c"
    "m_subFilters (connection_accepted b op h response c) = (if cr_sessionPresent response then m_subFilters c else [])"
    unfolding e brokerConnected_frame f by (rule refl)+
  have "publishes_more ?c3 (connection_accepted b op h response c)" unfolding e by (rule brokerConnected_frame)
  then show "publishes_more c (connection_accepted b op h response c)" by (simp add: publishes_more_def f(4))
qed

section \<open>Properties\<close>

text \<open>The session that CONNACK negotiates.\<close>

definition negotiated :: "build \<Rightarrow> connect_op \<Rightarrow> connack_msg \<Rightarrow> session_state \<Rightarrow> session_state" where
  "negotiated b op msg s =
     (let h = handle_props (b_config b) (ca_props msg); response = connect_response_of b op msg h;
          s1 = (if ph_topicAliasMax h \<noteq> None \<and> HasTopicAliases (b_config b)
                then s\<lparr>m_maxSendTopicAlias := cr_topicAliasMax response\<rparr> else s)
      in (session_of_connack b op h response s1)\<lparr>m_connected := True\<rparr>)"

text \<open>
  C11: A CONNACK completes the attempt to connect exactly once, as the last thing it does, and whatever
  happens on the way. After a protocol error at most a DISCONNECT precedes the completion and the session is as
  it was. A refusal is passed on and resets the session. A success connects: the session is the
  negotiated one, the recorded filters are forgotten unless the broker kept the session, and
  before the completion only publishes are sent again, resumed or completed.
\<close>

theorem connack_completes_once:
  assumes ok: "client_ok cl" and op: "connect_op_at i cl = Some op" and cb: "hs_cb op"
  shows "let cl' = ConnectOp_handle_Connack b msg i cl; h = handle_props (b_config b) (ca_props msg);
           response = connect_response_of b op msg h in
    connect_op_at i cl' = None \<and>
    (if connack_error op msg h then
       (\<exists>out. cl_events cl' = cl_events cl @ out @ [Ev_ConnectComplete St_ProtocolError None] \<and>
              set out \<subseteq> {Ev_Output (Disconnect_Out (Some RC_ProtocolError) (Some []))} \<and> length out \<le> 1) \<and>
       m_sessionState cl' = m_sessionState cl \<and> m_subFilters cl' = m_subFilters cl
     else if ca_reasonCode msg \<noteq> RC_Success then
       cl_events cl' = cl_events cl @ [Ev_ConnectComplete St_Complete (Some response)] \<and>
       m_sessionState cl' = SessionState_init \<and> m_subFilters cl' = m_subFilters cl
     else
       (\<exists>out. cl_events cl' = cl_events cl @ out @ [Ev_ConnectComplete St_Complete (Some response)] \<and>
              list_all publish_event out) \<and>
       m_sessionState cl' = negotiated b op msg (m_sessionState cl) \<and>
       m_subFilters cl' = (if ca_sessionPresent msg then m_subFilters cl else []))"
proof -
  let ?h = "handle_props (b_config b) (ca_props msg)" and ?cl' = "ConnectOp_handle_Connack b msg i cl"
  let ?response = "connect_response_of b op msg ?h" and ?cl1 = "on_timers (timerCancel (hs_timer op)) cl"
  have ok1: "client_ok ?cl1" using ok same_core_ok [of ?cl1 cl] by simp
  have op1: "connect_op_at i ?cl1 = Some op" using op by simp
  have same1: "cl_events ?cl1 = cl_events cl" "m_sessionState ?cl1 = m_sessionState cl" "m_subFilters ?cl1 = m_subFilters cl"
    by (simp_all add: on_timers_def)
  show ?thesis
  proof (cases "connack_error op msg ?h")
    case True
    let ?d = "sendDisconnectWithReason b RC_ProtocolError ?cl1"
    have okd: "client_ok ?d" using ok1 same_core_ok [of ?d ?cl1] by (simp add: sendDisconnectWithReason_def)
    have opd: "connect_op_at i ?d = Some op" using op1 by (simp add: sendDisconnectWithReason_def)
    have "?cl' = ConnectOp_completeOpInternal b i St_ProtocolError None ?d"
      using op True by (simp add: ConnectOp_handle_Connack_def connect_failed_def Let_def)
    note d = connect_completed [OF okd opd cb this]
    show ?thesis
      using True same1 d by (auto simp: Let_def sendDisconnectWithReason_def sendMessage_events)
  next
    case False
    let ?cl2 = "if ph_topicAliasMax ?h \<noteq> None \<and> HasTopicAliases (b_config b)
      then on_session_state (\<lambda>s. s\<lparr>m_maxSendTopicAlias := cr_topicAliasMax ?response\<rparr>) ?cl1 else ?cl1"
    let ?cl3 = "if ca_reasonCode msg \<noteq> RC_Success then on_session_state (\<lambda>_. SessionState_init) ?cl2
      else connection_accepted b op ?h ?response ?cl2"
    have rc: "cr_reasonCode ?response = ca_reasonCode msg" "cr_sessionPresent ?response = ca_sessionPresent msg"
      by (simp_all add: connect_response_of_def Let_def)
    have e: "?cl' = ConnectOp_completeOpInternal b i St_Complete (Some ?response) ?cl3"
      using op False by (simp only: ConnectOp_handle_Connack_def option.case Let_def rc if_False)
    have ss: "client_ok (on_session_state k c)" if "client_ok c" for k c
      using that same_core_ok [of "on_session_state k c" c] by simp
    have ok2: "client_ok ?cl2" using ok1 ss by simp
    have same2: "cl_events ?cl2 = cl_events cl" "m_subFilters ?cl2 = m_subFilters cl" "connect_op_at i ?cl2 = Some op"
      using same1 op1 by (simp_all add: on_session_state_def connect_op_at_def)
    have ok3: "client_ok ?cl3"
      using ss [OF ok2] grows_ok_ok [OF connection_accepted_ok [OF ok2]] by simp
    have "m_connectOps (if p then on_session_state k c else connection_accepted b op h r c) = m_connectOps c" for p k c h r
      by (simp add: accepted_frame(2) on_session_state_def)
    then have op3: "connect_op_at i ?cl3 = Some op" using same2(3) by (simp only: connect_op_at_def)
    note d = connect_completed [OF ok3 op3 cb e]
    show ?thesis
    proof (cases "ca_reasonCode msg = RC_Success")
      case rejected: False
      then show ?thesis using d False same2 by (simp add: Let_def on_session_state_def)
    next
      case success: True
      have "publishes_more ?cl2 ?cl3" using success accepted_frame(4) by simp
      then obtain out where "cl_events ?cl3 = cl_events cl @ out" "list_all publish_event out"
        unfolding publishes_more_def same2(1) by blast
      moreover have "m_sessionState ?cl3 = negotiated b op msg (m_sessionState cl)"
        using success same1(2) by (simp add: accepted_frame negotiated_def Let_def on_session_state_def)
      moreover have "m_subFilters ?cl3 = (if ca_sessionPresent msg then m_subFilters cl else [])"
        using success same2(2) by (simp add: accepted_frame rc)
      ultimately show ?thesis using d False success by (simp add: Let_def)
    qed
  qed
qed

text \<open>A new client that has sent CONNECT, and the CONNACK of a broker with a receive maximum of 7.\<close>

definition sample_connect_op :: connect_op where
  "sample_connect_op =
     \<lparr>hs_id = 0, hs_timer = 1, hs_responseTimeoutMs = 2000, hs_cb = True, hs_authCb = False,
      co_msg = ConnectMsg_init\<lparr>cm_cleanStart := True, cm_clientId := ''c'', cm_keepAlive := 60\<rparr>, co_authMethod = [],
      co_sessionExpiryInterval = 0, co_maxRecvPacketSize = 0, co_highQosRecvLimit = 0, co_requestProblemInfo = False\<rparr>"

definition connecting_client :: client where
  "connecting_client = (with_callbacks False (ClientImpl_init sample_build))
     \<lparr>m_connectOps := [sample_connect_op], m_ops := [Some (Type_Connect, 0)], cl_nextId := 1\<rparr>"

lemma connecting_client_ok: "client_ok connecting_client"
proof -
  have l: "live_ids t connecting_client = (if t = Type_Connect then [0] else [])" for t
    by (cases t) (simp_all add: live_ids_def connecting_client_def sample_connect_op_def with_callbacks_def
        ClientImpl_init_def split_beta Let_def)
  have c: "m_clientState connecting_client = ClientState_init" "m_sendOps connecting_client = []"
    "m_ops connecting_client = [Some (Type_Connect, 0)]" "cl_nextId connecting_client = 1"
    by (simp_all add: connecting_client_def with_callbacks_def ClientImpl_init_def split_beta Let_def)
  show ?thesis
    by (auto simp: client_ok_def registry_ok_def sends_ok_def l c published_count_def ClientState_init_def packet_ids_ok_def)
qed

theorem connack_completes_once_witness:
  "m_connected (m_sessionState (ConnectOp_handle_Connack sample_build
      \<lparr>ca_reasonCode = RC_Success, ca_sessionPresent = False, ca_props = [ReceiveMax 7]\<rparr> 0 connecting_client)) \<and>
   m_highQosSendLimit (m_sessionState (ConnectOp_handle_Connack sample_build
      \<lparr>ca_reasonCode = RC_Success, ca_sessionPresent = False, ca_props = [ReceiveMax 7]\<rparr> 0 connecting_client)) = 7"
proof -
  let ?msg = "\<lparr>ca_reasonCode = RC_Success, ca_sessionPresent = False, ca_props = [ReceiveMax 7]\<rparr>"
  have op: "connect_op_at 0 connecting_client = Some sample_connect_op" "hs_cb sample_connect_op"
    by (simp_all add: connect_op_at_def op_at_def connecting_client_def sample_connect_op_def)
  let ?h = "handle_props (b_config sample_build) [ReceiveMax 7]"
  have h: "\<not> isProtocolError ?h \<and> ph_authMethod ?h = None \<and> ph_receiveMax ?h = Some 7"
    by (simp add: handle_props_def PropsHandler_init_def isProtocolError_def storeProp_def flag_error_def Let_def)
  then have e: "\<not> connack_error sample_connect_op ?msg ?h"
    by (simp add: connack_error_def sample_connect_op_def)
  have "m_sessionState (ConnectOp_handle_Connack sample_build ?msg 0 connecting_client) =
      negotiated sample_build sample_connect_op ?msg (m_sessionState connecting_client)"
    using connack_completes_once [OF connecting_client_ok op, of sample_build ?msg] e by (simp add: Let_def)
  then show ?thesis
    using h by (simp add: negotiated_def session_of_connack_def connect_response_of_def cap_limit_def Let_def)
      (simp add: sample_build_def default_config_def)
qed

end
