(* ===== verification/Broker_Exchange.thy ===== *)
theory Broker_Exchange
  imports Subscriptions Fuzz_Generator
begin

text \<open>
  The client and the broker of the fuzzer (\<^verbatim>\<open>client/afl_fuzz/Generator.cpp\<close>) together: what the
  one sends is what the other handles. The broker answers SUBSCRIBE with a SUBACK and one PUBLISH for each
  filter; what the client does with them follows from the theories of its parts, the
  acknowledgement of a subscription and the reception of a message. The application
  is taken to be passive: its callbacks do not call the client.
\<close>

section \<open>Accepting a message with QoS 0 or 1\<close>





section \<open>The messages of the broker\<close>




section \<open>A client that listens\<close>







section \<open>All messages\<close>





section \<open>Properties\<close>








end
