(* ===== verification/Alias_Flow.thy ===== *)
theory Alias_Flow
  imports Publish_Flow Topic_Alias
begin

text \<open>
  What the topic aliases of \<^verbatim>\<open>allocPubTopicAlias\<close> mean for the broker. The table of
  \<^verbatim>\<open>client/lib/src/ClientImpl.cpp\<close> is a correct set of topics (\<open>pub_aliases\<close>), but the numbers
  it gives them are not different: each is 1. The broker's side is the rule of MQTT: a PUBLISH with a
  topic and an alias sets the alias to the topic, one with an alias only goes to the topic
  the alias was last set to.
\<close>

section \<open>Every alias is 1\<close>

definition only_one :: "client \<Rightarrow> bool" where
  "only_one cl \<longleftrightarrow>
     (\<forall>info\<in>set (m_sendTopicAliases (m_clientState cl)). ta_alias info = 1) \<and>
     (\<forall>a\<in>set (m_sendTopicFreeAliases (m_sessionState cl)). a = 1)"

text \<open>The calls of the application that change the table.\<close>

datatype alias_call = Alloc_Alias "cstr option" nat | Free_Alias "cstr option"

fun alias_exec :: "build \<Rightarrow> alias_call \<Rightarrow> client \<Rightarrow> client" where
  "alias_exec b (Alloc_Alias topic regs) cl = snd (allocPubTopicAlias b topic regs cl)"
| "alias_exec b (Free_Alias topic) cl = snd (freePubTopicAlias b topic cl)"

lemma take_alias_one:
  assumes "\<forall>a\<in>set free. a = 1" and "take_alias free = (a, free')"
  shows "a = 1" and "set free' \<subseteq> {1}"
proof -
  have l: "last free = 1" if "free \<noteq> []" using assms(1) that last_in_set by blast
  have bl: "set (butlast free) \<subseteq> {1}" using assms(1) by (auto dest: in_set_butlastD)
  show "a = 1" "set free' \<subseteq> {1}"
    using assms(2) l bl by (cases "free = []"; auto simp: take_alias_def)+
qed

lemma put_alias_one:
  assumes "\<forall>info\<in>set (fst tabs). ta_alias info = 1" and "\<forall>a\<in>set (snd tabs). a = 1"
  shows "\<forall>info\<in>set (fst (put_alias t regs tabs)). ta_alias info = 1" and "set (snd (put_alias t regs tabs)) \<subseteq> {1}"
proof -
  let ?k = "lower_bound ta_topic t (fst tabs)"
  have upd: "\<forall>info\<in>set ((fst tabs)[?k := (fst tabs ! ?k)\<lparr>ta_lowQosRegRemCount := n\<rparr>]). ta_alias info = 1"
    if "lb_found ta_topic t (fst tabs)" for n
    using that assms(1) by (auto simp: lb_found_def dest!: subsetD [OF set_update_subset_insert])
  obtain a f where a: "take_alias (snd tabs) = (a, f)" by (cases "take_alias (snd tabs)")
  note o = take_alias_one [OF assms(2) a]
  show "\<forall>info\<in>set (fst (put_alias t regs tabs)). ta_alias info = 1" "set (snd (put_alias t regs tabs)) \<subseteq> {1}"
    using upd assms a o by (auto simp: put_alias_def Let_def insert_at_def dest: in_set_takeD in_set_dropD)
qed

lemma drop_alias_one:
  assumes "\<forall>info\<in>set (fst tabs). ta_alias info = 1" and "\<forall>a\<in>set (snd tabs). a = 1"
  shows "\<forall>info\<in>set (fst (drop_alias t tabs)). ta_alias info = 1" and "set (snd (drop_alias t tabs)) \<subseteq> {1}"
  using assms by (auto simp: drop_alias_def Let_def lb_found_def erase_at_def dest: in_set_takeD in_set_dropD)

lemma alias_exec_one: "only_one cl \<Longrightarrow> only_one (alias_exec b call cl)"
proof (cases call)
  case (Alloc_Alias topic regs)
  assume o: "only_one cl"
  then have "only_one (set_alias_tables (put_alias t regs (alias_tables_of cl)) cl)" for t
    using put_alias_one [of "alias_tables_of cl" t regs] by (auto simp: only_one_def alias_tables_of_def)
  then show ?thesis using o Alloc_Alias by (auto simp: allocPubTopicAlias_def Let_def split: option.split)
next
  case (Free_Alias topic)
  assume o: "only_one cl"
  then have "only_one (set_alias_tables (drop_alias t (alias_tables_of cl)) cl)" for t
    using drop_alias_one [of "alias_tables_of cl" t] by (auto simp: only_one_def alias_tables_of_def)
  then show ?thesis using o Free_Alias by (auto simp: freePubTopicAlias_def Let_def split: option.split)
qed

lemma alias_calls_one: "only_one cl \<Longrightarrow> only_one (fold (alias_exec b) calls cl)"
  by (induction calls arbitrary: cl) (simp_all add: alias_exec_one)

section \<open>Configured publishes\<close>

text \<open>An operation whose message is still as it was constructed, and the message it holds.\<close>

definition unconfigured :: "op_id \<Rightarrow> client \<Rightarrow> bool" where
  "unconfigured i cl \<longleftrightarrow>
     (\<exists>op. send_op_at i cl = Some op \<and> pm_topic (so_pubMsg op) = [] \<and> pm_props (so_pubMsg op) = [])"

definition message_of :: "op_id \<Rightarrow> client \<Rightarrow> publish_msg" where
  "message_of i cl = so_pubMsg (the (send_op_at i cl))"

text \<open>With the topic and its alias, or with the alias only.\<close>

lemma configured_with_alias:
  assumes c: "configBasic b cfg i cl = (EC_Success, cl')" and t: "pb_topic cfg = Some t"
    and p: "pb_topicAliasPref cfg = (if whole then Pref_ForceTopicWithAlias else Pref_ForceAliasOnly)"
    and h: "HasTopicAliases (b_config b)" and u: "unconfigured i cl" and o: "only_one cl"
  shows "only_one cl'" and "t \<noteq> []" and "pm_topic (message_of i cl') = (if whole then t else [])"
    and "pm_props (message_of i cl') = [TopicAlias 1]"
proof -
  let ?as = "m_sendTopicAliases (m_clientState cl)"
  let ?k = "lower_bound ta_topic t ?as"
  obtain op where op: "send_op_at i cl = Some op" "pm_topic (so_pubMsg op) = []" "pm_props (so_pubMsg op) = []"
    using u by (auto simp: unconfigured_def)
  have ne: "t \<noteq> []" using c t by (auto simp: configBasic_def)
  have f: "lb_found ta_topic t ?as"
    using c t p h by (auto simp: configBasic_def select_alias_def Let_def split: if_splits)
  then have "?as ! ?k \<in> set ?as" by (simp add: lb_found_def)
  then have a: "ta_alias (?as ! ?k) = 1" using o by (simp add: only_one_def)
  have s: "select_alias b (pb_topicAliasPref cfg) t ?as = Inr (1, whole, ?as)"
    using p h f a by (simp add: select_alias_def Let_def)
  have same: "m_clientState (upd_send j g x) = m_clientState x" "m_sessionState (upd_send j g x) = m_sessionState x"
    "send_op_at i (on_client_state r x) = send_op_at i x" for j g x r
    by (simp_all add: upd_send_def on_client_state_def send_op_at_def)
  show "t \<noteq> []" by (rule ne)
  show "only_one cl'"
    using c t s o
    by (auto simp: configBasic_def Let_def only_one_def same on_client_state_def split: if_splits option.splits)
  show "pm_topic (message_of i cl') = (if whole then t else [])" "pm_props (message_of i cl') = [TopicAlias 1]"
    using c t s op
    by (auto simp: configBasic_def Let_def message_of_def same send_op_at_upd split: if_splits option.splits)
qed

section \<open>The broker's side\<close>

text \<open>The topic of each message, from the aliases set before it; \<^term>\<open>None\<close> is a protocol error.\<close>

fun routed :: "(nat \<Rightarrow> cstr option) \<Rightarrow> publish_msg list \<Rightarrow> cstr option list" where
  "routed known [] = []"
| "routed known (msg # msgs) =
     (case List.find is_topic_alias (pm_props msg) of
        None \<Rightarrow> (if pm_topic msg = [] then None else Some (pm_topic msg)) # routed known msgs
      | Some prop \<Rightarrow>
          let a = topic_alias_value prop in
          if pm_topic msg = [] then known a # routed known msgs
          else Some (pm_topic msg) # routed (known(a := Some (pm_topic msg))) msgs)"

section \<open>Properties\<close>

text \<open>
  C33: The aliases that the client hands out are useless: whatever topics were allocated and freed before, two topics
  with aliases share the number 1. When both have been published with topic and alias, a publish of
  the first by its alias alone is delivered by the broker as a message of the second topic.
\<close>

theorem aliased_publish_misrouted:
  assumes h: "HasTopicAliases (b_config b)" and empty: "alias_tables_of cl0 = ([], [])"
    and cl: "cl = fold (alias_exec b) calls cl0"
    and t: "pb_topic cfg1 = Some t1" "pb_topic cfg2 = Some t2" "pb_topic cfg3 = Some t1"
    and pref: "pb_topicAliasPref cfg1 = Pref_ForceTopicWithAlias" "pb_topicAliasPref cfg2 = Pref_ForceTopicWithAlias"
      "pb_topicAliasPref cfg3 = Pref_ForceAliasOnly"
    and u: "unconfigured i cl" "unconfigured j c1" "unconfigured k c2"
    and c: "configBasic b cfg1 i cl = (EC_Success, c1)" "configBasic b cfg2 j c1 = (EC_Success, c2)"
      "configBasic b cfg3 k c2 = (EC_Success, c3)"
  shows "routed (\<lambda>_. None) [message_of i c1, message_of j c2, message_of k c3] = [Some t1, Some t2, Some t2]"
proof -
  have "only_one cl0" using empty by (simp add: only_one_def alias_tables_of_def)
  then have o: "only_one cl" unfolding cl by (rule alias_calls_one)
  note m1 = configured_with_alias [OF c(1) t(1) _ h u(1) o, of True]
  note m2 = configured_with_alias [OF c(2) t(2) _ h u(2) m1(1), of True]
  note m3 = configured_with_alias [OF c(3) t(3) _ h u(3) m2(1), of False]
  show ?thesis using m1 m2 m3 pref by simp
qed

text \<open>Two topics, three publishes.\<close>

definition blank_publish :: "op_id \<Rightarrow> send_op" where
  "blank_publish i = (sample_publish i 0)\<lparr>so_pubMsg := (so_pubMsg (sample_publish i 0))\<lparr>pm_topic := []\<rparr>\<rparr>"

definition alias_client :: client where
  "alias_client = on_session_state (\<lambda>s. s\<lparr>m_maxSendTopicAlias := 10\<rparr>)
     (sample_client sample_build [blank_publish 0, blank_publish 1, blank_publish 2] [] [])"

definition alias_config :: "cstr \<Rightarrow> topic_alias_pref \<Rightarrow> publish_basic_config" where
  "alias_config topic pref = \<lparr>pb_topic = Some topic, pb_data = [], pb_qos = 0, pb_topicAliasPref = pref, pb_retain = False\<rparr>"

text \<open>The client with both topics in its table, while the publishes are configured.\<close>

definition alias_ready :: "client \<Rightarrow> bool" where
  "alias_ready cl \<longleftrightarrow>
     m_sendTopicAliases (m_clientState cl) =
       [\<lparr>ta_topic = ''a'', ta_alias = 1, ta_lowQosRegRemCount = 1\<rparr>, \<lparr>ta_topic = ''b'', ta_alias = 1, ta_lowQosRegRemCount = 1\<rparr>] \<and>
     m_configState cl = ConfigState_init default_config \<and>
     m_sessionState cl = SessionState_init\<lparr>m_connected := True, m_maxSendTopicAlias := 10\<rparr>"

lemma alias_config_succeeds:
  assumes "alias_ready cl" and "send_op_at i cl = Some (blank_publish i)" and "t \<in> {''a'', ''b''}"
    and "pref = Pref_ForceTopicWithAlias \<or> pref = Pref_ForceAliasOnly"
  obtains cl' where "configBasic sample_build (alias_config t pref) i cl = (EC_Success, cl')" and "alias_ready cl'"
    and "\<forall>j. j \<noteq> i \<longrightarrow> send_op_at j cl' = send_op_at j cl"
proof -
  let ?as = "m_sendTopicAliases (m_clientState cl)"
  have f: "lb_found ta_topic t ?as" "ta_alias (?as ! lower_bound ta_topic t ?as) = 1"
    using assms(1,3) by (auto simp: alias_ready_def lb_found_def lower_bound_def)
  have h: "HasTopicAliases (b_config sample_build)" "publish_props_cap sample_build = None" "MaxQos (b_config sample_build) = 2"
    "b_config sample_build = default_config"
    by (simp_all add: sample_build_def default_config_def)
  have v: "verifyPubTopic default_config (m_configState cl) t True"
    using assms(1,3) by (auto simp: alias_ready_def verifyPubTopic_def verifyPubTopicInternal_def ConfigState_init_def default_config_def)
  have sel: "select_alias sample_build pref t ?as = Inr (1, pref = Pref_ForceTopicWithAlias, ?as)"
    using f h(1) assms(4) by (auto simp: select_alias_def Let_def)
  have len: "\<not> maxStringLen < length t" using assms(3) by (auto simp: maxStringLen_def)
  let ?c = "configBasic sample_build (alias_config t pref) i cl"
  have same: "m_clientState (upd_send j g x) = m_clientState x" "m_sessionState (upd_send j g x) = m_sessionState x"
    "m_configState (upd_send j g x) = m_configState x" "send_op_at j (on_client_state r x) = send_op_at j x"
    "on_client_state (\<lambda>s. s\<lparr>m_sendTopicAliases := ?as\<rparr>) cl = cl" for j g x r
    by (simp_all add: upd_send_def on_client_state_def send_op_at_def)
  have other: "send_op_at j (upd_send i g x) = send_op_at j x" if "j \<noteq> i" "\<And>p. so_id (g p) = so_id p" for j g x
    using that by (simp add: send_op_at_def upd_send_sends op_at_upd_op)
  have t: "t \<noteq> []" using assms(3) by auto
  have q: "m_pubMaxQos (m_sessionState cl) = 2" using assms(1) by (simp add: alias_ready_def SessionState_init_def)
  have p: "pm_payload (so_pubMsg (blank_publish i)) = []" by (simp add: blank_publish_def sample_publish_def)
  have "fst ?c = EC_Success \<and> m_sendTopicAliases (m_clientState (snd ?c)) = ?as \<and> m_configState (snd ?c) = m_configState cl \<and>
      m_sessionState (snd ?c) = m_sessionState cl \<and> (\<forall>j. j \<noteq> i \<longrightarrow> send_op_at j (snd ?c) = send_op_at j cl)"
    using assms(2) t v len sel h q p
    by (simp add: configBasic_def alias_config_def Let_def same canAddProp_def send_op_at_upd other maxStringLen_def)
  then have "fst ?c = EC_Success \<and> alias_ready (snd ?c) \<and> (\<forall>j. j \<noteq> i \<longrightarrow> send_op_at j (snd ?c) = send_op_at j cl)"
    using assms(1) by (simp add: alias_ready_def)
  then show thesis using that by (metis prod.collapse)
qed

theorem aliased_publish_misrouted_witness:
  "\<exists>c1 c2 c3. configBasic sample_build (alias_config ''a'' Pref_ForceTopicWithAlias) 0
       (fold (alias_exec sample_build) [Alloc_Alias (Some ''a'') 1, Alloc_Alias (Some ''b'') 1] alias_client) = (EC_Success, c1) \<and>
     configBasic sample_build (alias_config ''b'' Pref_ForceTopicWithAlias) 1 c1 = (EC_Success, c2) \<and>
     configBasic sample_build (alias_config ''a'' Pref_ForceAliasOnly) 2 c2 = (EC_Success, c3) \<and>
     routed (\<lambda>_. None) [message_of 0 c1, message_of 1 c2, message_of 2 c3] = [Some ''a'', Some ''b'', Some ''b'']"
proof -
  let ?b = sample_build
  let ?cl = "fold (alias_exec sample_build) [Alloc_Alias (Some ''a'') 1, Alloc_Alias (Some ''b'') 1] alias_client"
  let ?start = "sample_client sample_build [blank_publish 0, blank_publish 1, blank_publish 2] [] []"
  have b: "HasTopicAliases (b_config ?b)" "TopicAliasesLimit (b_config ?b) = 0" by (simp_all add: sample_build_def default_config_def)
  have s: "m_sendTopicAliases (m_clientState ?start) = []" "m_configState ?start = ConfigState_init default_config"
    by (simp_all add: sample_client_def connected_client_def with_callbacks_def on_session_state_def
        on_client_state_def ClientImpl_init_def ClientState_init_def split_beta Let_def sample_build_def)
  have e: "alias_tables_of alias_client = ([], [])"
    using s by (simp add: alias_client_def alias_tables_of_def on_session_state_def SessionState_init_def)
  have ready: "alias_ready ?cl"
    using s b
    by (simp add: alias_ready_def alias_client_def allocPubTopicAlias_def alias_tables_of_def set_alias_tables_def
        on_session_state_def on_client_state_def obj_list_full_def put_alias_def take_alias_def lb_found_def
        lower_bound_def insert_at_def SessionState_init_def Let_def)
  have ops: "m_sendOps ?cl = [blank_publish 0, blank_publish 1, blank_publish 2]"
    by (simp add: alias_client_def allocPubTopicAlias_def set_alias_tables_def on_session_state_def
        on_client_state_def sample_facts_sends Let_def)
  then have at: "send_op_at 0 ?cl = Some (blank_publish 0)" "send_op_at 1 ?cl = Some (blank_publish 1)"
    "send_op_at 2 ?cl = Some (blank_publish 2)"
    by (simp_all add: send_op_at_def op_at_def blank_publish_def sample_publish_def)
  obtain c1 where c1: "configBasic ?b (alias_config ''a'' Pref_ForceTopicWithAlias) 0 ?cl = (EC_Success, c1)" "alias_ready c1"
    "\<forall>j. j \<noteq> 0 \<longrightarrow> send_op_at j c1 = send_op_at j ?cl"
    using alias_config_succeeds [OF ready at(1), of "''a''" Pref_ForceTopicWithAlias] by auto
  have at1: "send_op_at 1 c1 = Some (blank_publish 1)" "send_op_at 2 c1 = Some (blank_publish 2)"
    using c1(3) at(2,3) by (auto simp del: One_nat_def)
  obtain c2 where c2: "configBasic ?b (alias_config ''b'' Pref_ForceTopicWithAlias) 1 c1 = (EC_Success, c2)" "alias_ready c2"
    "\<forall>j. j \<noteq> 1 \<longrightarrow> send_op_at j c2 = send_op_at j c1"
    using alias_config_succeeds [OF c1(2) at1(1), of "''b''" Pref_ForceTopicWithAlias] by auto
  have at2: "send_op_at 2 c2 = Some (blank_publish 2)" using c2(3) at1(2) by simp
  obtain c3 where c3: "configBasic ?b (alias_config ''a'' Pref_ForceAliasOnly) 2 c2 = (EC_Success, c3)"
    using alias_config_succeeds [OF c2(2) at2, of "''a''" Pref_ForceAliasOnly] by auto
  have u: "unconfigured 0 ?cl" "unconfigured 1 c1" "unconfigured 2 c2"
    using at(1) at1(1) at2 by (simp_all add: unconfigured_def blank_publish_def sample_publish_def)
  have "routed (\<lambda>_. None) [message_of 0 c1, message_of 1 c2, message_of 2 c3] = [Some ''a'', Some ''b'', Some ''b'']"
    by (rule aliased_publish_misrouted [OF b(1) e refl _ _ _ _ _ _ u c1(1) c2(1) c3]) (simp_all add: alias_config_def)
  then show ?thesis using c1(1) c2(1) c3 by blast
qed

end
