(* ===== verification/Receive_Flow.thy ===== *)
theory Receive_Flow
  imports Connect_Flow Client_Api
begin

text \<open>
  The reception of QoS 2 messages across the life of a session. The broker may send a PUBLISH
  again at any time until it has the PUBREC, also after the connection was lost and made again
  with the session kept. The events here are what reaches the client on that way: PUBLISH
  messages, losses of the connection (\<^verbatim>\<open>ClientImpl::brokerDisconnected\<close> for whatever reason, and
  \<^verbatim>\<open>notifyNetworkDisconnected\<close>), and the steps of the application and
  of the broker that make it again. As long as the session is to be kept, the operation that
  waits for PUBREL outlives all of them, and with it the knowledge that the message was reported.
\<close>

section \<open>The events of a session\<close>

datatype link_event =
    Publish_Arrives publish_msg
  | Connection_Lost broker_disconnect_reason async_status "disconnect_info option"
  | Network_Lost "32 word"
  | Connect_Prepared "32 word"
  | Connect_Configured op_config op_id
  | Connect_Sent "32 word" bool op_id
  | Connack_Arrives connack_msg op_id

fun link_step :: "build \<Rightarrow> client \<Rightarrow> link_event \<Rightarrow> client" where
  "link_step b cl (Publish_Arrives msg) = handle_Publish b msg cl"
| "link_step b cl (Connection_Lost reason status info) = brokerDisconnected b reason status info cl"
| "link_step b cl (Network_Lost elapsed) = notifyNetworkDisconnected b elapsed cl"
| "link_step b cl (Connect_Prepared elapsed) = snd (connectPrepare b elapsed cl)"
| "link_step b cl (Connect_Configured cfg i) = snd (configure b cfg i cl)"
| "link_step b cl (Connect_Sent elapsed cb i) = snd (ConnectOp_send b elapsed cb i cl)"
| "link_step b cl (Connack_Arrives msg i) = ConnectOp_handle_Connack b msg i cl"

abbreviation link_run :: "build \<Rightarrow> client \<Rightarrow> link_event list \<Rightarrow> client" where
  "link_run b \<equiv> foldl (link_step b)"

text \<open>
  When an event leaves the session to be kept. The messages are QoS 2; a connection is lost or given
  up only with a session that does not end with it, so not while the connection is being made, when
  \<^verbatim>\<open>connect_prepare\<close> has reset the expiry interval; a broker that accepts the
  connection says that it kept the session too. The application has no timer callbacks, so that
  its calls let no time pass.
\<close>

fun session_kept :: "build \<Rightarrow> client \<Rightarrow> link_event \<Rightarrow> bool" where
  "session_kept b cl (Publish_Arrives msg) \<longleftrightarrow> pm_qos msg = ExactlyOnce \<and>
     (0 < session_expiry cl \<or> m_disconnecting (m_sessionState cl) \<or>
      \<not> m_disconnecting (m_sessionState (handle_Publish b msg cl)))"
| "session_kept b cl (Connection_Lost reason status info) \<longleftrightarrow> 0 < session_expiry cl"
| "session_kept b cl (Network_Lost elapsed) \<longleftrightarrow> \<not> m_cancelNextTickWaitCb cl \<and>
     (0 < session_expiry cl \<or> m_disconnecting (m_sessionState cl))"
| "session_kept b cl (Connect_Prepared elapsed) \<longleftrightarrow> \<not> m_cancelNextTickWaitCb cl"
| "session_kept b cl (Connect_Configured cfg i) \<longleftrightarrow> config_type cfg = Type_Connect"
| "session_kept b cl (Connect_Sent elapsed cb i) \<longleftrightarrow> \<not> m_cancelNextTickWaitCb cl"
| "session_kept b cl (Connack_Arrives msg i) \<longleftrightarrow> (ca_reasonCode msg = RC_Success \<longrightarrow> ca_sessionPresent msg)"

fun kept_through :: "build \<Rightarrow> client \<Rightarrow> link_event list \<Rightarrow> bool" where
  "kept_through b cl [] \<longleftrightarrow> True"
| "kept_through b cl (ev # evs) \<longleftrightarrow> session_kept b cl ev \<and> kept_through b (link_step b cl ev) evs"

text \<open>The packet identifiers of the messages that arrive.\<close>

fun arriving :: "link_event \<Rightarrow> 16 word set" where
  "arriving (Publish_Arrives msg) = {pm_packetId msg}"
| "arriving _ = {}"

definition arrived :: "link_event list \<Rightarrow> 16 word set" where
  "arrived evs = (\<Union>ev\<in>set evs. arriving ev)"

lemma arrived_simps [simp]:
  "arrived [] = {}" "arrived (ev # evs) = arriving ev \<union> arrived evs" "finite (arrived evs)"
proof -
  have "finite (arriving ev)" for ev by (cases ev) simp_all
  then show "finite (arrived evs)" by (simp add: arrived_def)
qed (simp_all add: arrived_def)

section \<open>Silent steps keep what is received\<close>

text \<open>The receiving operations that were there stay, and the application is told of no message.\<close>

definition silent :: "client \<Rightarrow> client \<Rightarrow> bool" where
  "silent cl cl' \<longleftrightarrow> set (m_recvOps cl) \<subseteq> set (m_recvOps cl') \<and> reports cl' = reports cl"

lemma silent_same: "m_recvOps cl' = m_recvOps cl \<Longrightarrow> reports cl' = reports cl \<Longrightarrow> silent cl cl'"
  by (simp add: silent_def)

lemma publish_event_no_report: "publish_event ev \<Longrightarrow> report_of ev = None"
  by (cases ev) simp_all

interpretation receiving: publish_frame "\<lambda>cl cl'. m_recvOps cl' = m_recvOps cl \<and> reports cl' = reports cl"
  by unfold_locales (simp_all add: publish_event_no_report)

interpretation ticking: session_frame "\<lambda>cl cl'. m_cancelNextTickWaitCb cl' = m_cancelNextTickWaitCb cl"
  by unfold_locales (simp_all add: on_timers_def on_client_state_def fault_def emit_def)

lemma completed_silent:
  assumes "t \<noteq> Type_Send" "t \<noteq> Type_Recv"
  shows "m_recvOps (opComplete b (t, i) cl) = m_recvOps cl \<and> reports (opComplete b (t, i) cl) = reports cl"
  using completion_keeps_receiving(1) [of "(t, i)" b cl] completions_quiet(1) [of cl cl b "(t, i)"] assms
  by (simp add: is_send_recv_def quiet_def)

lemma connect_completed_silent:
  "m_recvOps (ConnectOp_completeOpInternal b i status response cl) = m_recvOps cl \<and>
   reports (ConnectOp_completeOpInternal b i status response cl) = reports cl"
  using completed_silent [of Type_Connect b i cl]
  by (simp add: ConnectOp_completeOpInternal_def Let_def split: option.split)

lemma sendMessage_silent:
  "m_recvOps (snd (sendMessage b msg cl)) = m_recvOps cl"
  "m_cancelNextTickWaitCb (snd (sendMessage b msg cl)) = m_cancelNextTickWaitCb cl"
  by (rule sendMessage_frame [of b msg cl]; simp)+

lemma doApiExit_silent: "m_recvOps (doApiExit cl) = m_recvOps cl" "reports (doApiExit cl) = reports cl"
  by (simp_all add: doApiExit_def cleanOps_def Let_def) (simp_all add: reports_def)

lemma notifyNetworkDisconnected_silent:
  assumes "\<not> m_cancelNextTickWaitCb cl" and "0 < session_expiry cl \<or> m_disconnecting (m_sessionState cl)"
  shows "silent cl (notifyNetworkDisconnected b elapsed cl)"
proof -
  let ?c = "on_client_state (\<lambda>s. s\<lparr>m_networkDisconnected := True\<rparr>) (cl\<lparr>m_apiEnterCount := Suc (m_apiEnterCount cl)\<rparr>)"
  have c: "m_recvOps ?c = m_recvOps cl" "reports ?c = reports cl" "m_sessionState ?c = m_sessionState cl"
    by (simp_all add: reports_def on_client_state_def)
  show ?thesis
    using assms(2) brokerDisconnected_keeps_receiving [of ?c b] c
    by (auto simp: notifyNetworkDisconnected_def doApiEnter_quiet [OF assms(1)] silent_def doApiExit_silent
        brokerDisconnected_session Let_def)
qed

lemma connectPrepare_silent:
  assumes "\<not> m_cancelNextTickWaitCb cl"
  shows "m_recvOps (snd (connectPrepare b elapsed cl)) = m_recvOps cl \<and>
         reports (snd (connectPrepare b elapsed cl)) = reports cl"
proof -
  let ?c = "on_client_state (\<lambda>s. s\<lparr>m_networkDisconnected := False\<rparr>) cl"
  let ?e = "doApiEnter b elapsed ?c"
  have e: "?e = ?c\<lparr>m_apiEnterCount := Suc (m_apiEnterCount ?c)\<rparr>"
    using assms by (intro doApiEnter_quiet) (simp add: on_client_state_def)
  have s: "m_recvOps ?e = m_recvOps cl" "reports ?e = reports cl" unfolding e by (simp_all add: reports_def on_client_state_def)
  have "quiet (terminateOps b St_Aborted KeepSendRecvOps ?e) ?e" by (simp add: terminateOps_quiet)
  then have t: "m_recvOps (terminateOps b St_Aborted KeepSendRecvOps ?e) = m_recvOps cl"
    "reports (terminateOps b St_Aborted KeepSendRecvOps ?e) = reports cl"
    using s by (simp_all add: terminateOps_keeps_receiving quiet_def)
  have i: "m_recvOps (snd (connect_init b elapsed cl)) = m_recvOps cl"
    "reports (snd (connect_init b elapsed cl)) = reports cl"
    using s t by (simp_all add: connect_init_def initInternal_def doApiExit_silent Let_def)
  obtain ec c1 where c1: "connect_init b elapsed cl = (ec, c1)" by fastforce
  obtain op tm where o: "ConnectOp_construct b c1 = (op, c1\<lparr>m_timerMgr := tm\<rparr>)" using construct_frames(1) by blast
  show ?thesis
    using i by (simp add: connectPrepare_def c1 o prepared_def register_op_def reports_def split: option.split)
qed


lemma on_connect_silent:
  "m_recvOps (snd (on_connect i call cl)) = m_recvOps cl \<and> reports (snd (on_connect i call cl)) = reports cl"
  by (simp add: on_connect_def upd_connect_def split: option.split)

lemma configure_silent:
  assumes "config_type cfg = Type_Connect"
  shows "m_recvOps (snd (configure b cfg i cl)) = m_recvOps cl \<and> reports (snd (configure b cfg i cl)) = reports cl"
  using assms
  by (cases cfg) (simp_all add: on_connect_silent, simp add: ConnectOp_configExtra_def upd_connect_def Let_def split_beta
      split: option.split)

lemma ConnectOp_send_silent:
  assumes "\<not> m_cancelNextTickWaitCb cl"
  shows "m_recvOps (snd (ConnectOp_send b elapsed cb i cl)) = m_recvOps cl \<and>
         reports (snd (ConnectOp_send b elapsed cb i cl)) = reports cl"
proof (cases "connect_op_at i cl")
  case (Some op)
  let ?u = "upd_connect i (\<lambda>p. p\<lparr>hs_cb := True\<rparr>) (allowNextPrepare cl)"
  let ?s = "snd (sendMessage b (Connect_Out (co_msg op)) ?u)"
  have a: "m_recvOps (allowNextPrepare cl) = m_recvOps cl" "reports (allowNextPrepare cl) = reports cl"
    by (simp_all add: allowNextPrepare_def reports_def)
  have u: "m_recvOps ?u = m_recvOps cl" "reports ?u = reports cl" "\<not> m_cancelNextTickWaitCb ?u"
    using assms by (simp_all add: upd_connect_def a) (simp add: allowNextPrepare_def)
  have s: "m_recvOps ?s = m_recvOps cl" "reports ?s = reports cl" "\<not> m_cancelNextTickWaitCb ?s"
    using u by (simp_all add: sendMessage_silent)
  have e: "doApiEnter b elapsed ?s = ?s\<lparr>m_apiEnterCount := Suc (m_apiEnterCount ?s)\<rparr>"
    by (rule doApiEnter_quiet [OF s(3)])
  have "m_recvOps (doApiEnter b elapsed ?s) = m_recvOps cl" "reports (doApiEnter b elapsed ?s) = reports cl"
    unfolding e using s by (simp_all add: reports_def)
  then have "m_recvOps (ConnectOp_restartTimer i (doApiEnter b elapsed ?s)) = m_recvOps cl"
    "reports (ConnectOp_restartTimer i (doApiEnter b elapsed ?s)) = reports cl"
    by (simp_all add: ConnectOp_restartTimer_def split: option.split)
  then show ?thesis
    using completed_silent [of Type_Connect b i] a s
    by (simp add: ConnectOp_send_def Some Let_def split_beta doApiExit_silent)
qed (simp add: ConnectOp_send_def)

lemma brokerConnected_silent:
  "m_recvOps (brokerConnected b True cl) = m_recvOps cl \<and> reports (brokerConnected b True cl) = reports cl"
proof -
  let ?c = "publishes_settled b True (connected_now cl)"
  obtain ops tm nxt refs where k: "createKeepAliveOpIfNeeded b ?c =
      ?c\<lparr>m_timerMgr := tm, m_keepAliveOps := ops, m_ops := refs, cl_nextId := nxt\<rparr>"
    by (rule createKeepAlive_frame)
  show ?thesis
    unfolding brokerConnected_parts k
    using receiving.frame_session_resumed [of b "connected_now cl"]
    by (simp add: publishes_settled_def connected_now_def)
qed

lemma Connack_silent:
  assumes "ca_reasonCode msg = RC_Success \<longrightarrow> ca_sessionPresent msg"
  shows "m_recvOps (ConnectOp_handle_Connack b msg i cl) = m_recvOps cl \<and>
         reports (ConnectOp_handle_Connack b msg i cl) = reports cl"
proof (cases "connect_op_at i cl")
  case (Some op)
  let ?h = "handle_props (b_config b) (ca_props msg)"
  let ?r = "connect_response_of b op msg ?h"
  have d: "m_recvOps (sendDisconnectWithReason b r c) = m_recvOps c \<and> reports (sendDisconnectWithReason b r c) = reports c"
    for r c by (simp add: sendDisconnectWithReason_def sendMessage_silent)
  have a: "m_recvOps (connection_accepted b op ?h ?r c) = m_recvOps c \<and> reports (connection_accepted b op ?h ?r c) = reports c"
    if "cr_sessionPresent ?r" for c
    using that brokerConnected_silent by (simp add: connection_accepted_def)
  have rc: "cr_reasonCode ?r = ca_reasonCode msg" "cr_sessionPresent ?r = ca_sessionPresent msg"
    by (simp_all add: connect_response_of_def Let_def)
  show ?thesis
    using assms a rc d connect_completed_silent
    by (simp add: ConnectOp_handle_Connack_def Some Let_def connect_failed_def)
qed (simp add: ConnectOp_handle_Connack_def)


section \<open>What the events tell\<close>

text \<open>The packet identifiers of the messages on whose arrival the application was told, in order.\<close>

fun told_on :: "build \<Rightarrow> client \<Rightarrow> link_event list \<Rightarrow> 16 word list" where
  "told_on b cl [] = []"
| "told_on b cl (Publish_Arrives msg # evs) =
     (if reports (handle_Publish b msg cl) = reports cl then [] else [pm_packetId msg]) @
       told_on b (handle_Publish b msg cl) evs"
| "told_on b cl (ev # evs) = told_on b (link_step b cl ev) evs"

lemma told_on_other:
  "arriving ev = {} \<Longrightarrow> told_on b cl (ev # evs) = told_on b (link_step b cl ev) evs"
  by (cases ev) simp_all

lemma link_step_ok:
  assumes ok: "client_ok cl"
  shows "client_ok (link_step b cl ev)"
proof (cases ev)
  case (Connect_Sent elapsed cb i)
  have "client_ok (fault Use_After_Free cl)" using stays_ok_fault [OF ok] stays_ok_ok by blast
  then have "client_ok (snd (ConnectOp_send b elapsed cb i cl))"
    using frees_ok_ok [OF ConnectOp_send_ok [OF ok, of i]]
    by (cases "connect_op_at i cl") (simp add: ConnectOp_send_def, blast)
  then show ?thesis by (simp add: Connect_Sent)
next
  case (Connack_Arrives msg i)
  have "client_ok (fault Use_After_Free cl)" using stays_ok_fault [OF ok] stays_ok_ok by blast
  then have "client_ok (ConnectOp_handle_Connack b msg i cl)"
    using ConnectOp_handle_Connack_ok [OF ok, of i]
    by (cases "connect_op_at i cl") (simp add: ConnectOp_handle_Connack_def, auto simp: handshake_ok_def dest: stays_ok_ok)
  then show ?thesis by (simp add: Connack_Arrives)
qed (auto intro: stays_ok_ok [OF handle_Publish_ok [OF ok]] step_ok_ok [OF brokerDisconnected_ok(1) [OF ok]]
      stays_ok_ok [OF notifyNetworkDisconnected_ok [OF ok]]
      keeps_ok_ok [OF connectPrepare_ok [OF ok]] stays_ok_ok [OF configure_ok [OF ok]])

lemma link_step_silent:
  assumes "session_kept b cl ev" and "arriving ev = {}"
  shows "silent cl (link_step b cl ev)"
proof (cases ev)
  case (Connection_Lost reason status info)
  then show ?thesis
    using assms brokerDisconnected_keeps_receiving [of cl b] by (simp add: silent_def brokerDisconnected_session)
qed (use assms notifyNetworkDisconnected_silent connectPrepare_silent configure_silent ConnectOp_send_silent Connack_silent in
      \<open>simp_all add: silent_same\<close>)

text \<open>A QoS 2 message: either the client gives up, or what is pending stays and the message may be told.\<close>

lemma publish_told:
  assumes "client_ok cl" and "pm_qos msg = ExactlyOnce" and "2 \<le> MaxQos (b_config b)"
  obtains
    (ended) "reports (handle_Publish b msg cl) = reports cl" "m_disconnecting (m_sessionState (handle_Publish b msg cl))"
      "0 < session_expiry cl \<or> m_disconnecting (m_sessionState cl) \<longrightarrow> pending_ids cl \<subseteq> pending_ids (handle_Publish b msg cl)"
  | (told) info where "reports (handle_Publish b msg cl) = reports cl @ [info]"
      "pending_ids cl \<subseteq> pending_ids (handle_Publish b msg cl)"
      "pm_packetId msg \<in> pending_ids (handle_Publish b msg cl) - pending_ids cl"
  | (kept) "reports (handle_Publish b msg cl) = reports cl" "pending_ids cl \<subseteq> pending_ids (handle_Publish b msg cl)"
proof (cases "m_disconnecting (m_sessionState cl)")
  case True
  then show thesis using kept by (simp add: handle_Publish_def)
next
  case on: False
  show thesis
    using handle_Publish_received [OF assms(1,2) on, of b] assms(3) on that
    unfolding received_def pending_ids_def by (smt (verit) Diff_iff append_self_conv image_mono list.discI)
qed


text \<open>The messages told, and what has become of the identifiers they were told for.\<close>

definition told_once :: "16 word list \<Rightarrow> message_info list \<Rightarrow> 16 word set \<Rightarrow> client \<Rightarrow> client \<Rightarrow> bool" where
  "told_once ps new ids cl cl' \<longleftrightarrow>
     reports cl' = reports cl @ new \<and> length new = length ps \<and> distinct ps \<and> set ps \<subseteq> ids - pending_ids cl"

lemma told_once_silent:
  assumes "reports c = reports cl" and "pending_ids cl \<subseteq> pending_ids c" and "told_once ps new ids c cl'"
    and "ids \<subseteq> ids'"
  shows "told_once ps new ids' cl cl'"
  using assms by (auto simp: told_once_def)

lemma told_once_told:
  assumes "reports c = reports cl @ [info]" and "pending_ids cl \<subseteq> pending_ids c" and "p \<in> pending_ids c - pending_ids cl"
    and "told_once ps new ids c cl'"
  shows "told_once (p # ps) (info # new) (insert p ids) cl cl'"
  using assms by (auto simp: told_once_def)

text \<open>A burst of PUBLISH messages, whether or not the client gives up on the way.\<close>

lemma burst_told_once:
  assumes "client_ok cl" and "2 \<le> MaxQos (b_config b)" and "\<forall>msg\<in>set msgs. pm_qos msg = ExactlyOnce"
  shows "\<exists>new. told_once (told_on b cl (map Publish_Arrives msgs)) new (arrived (map Publish_Arrives msgs)) cl
           (link_run b cl (map Publish_Arrives msgs))"
  using assms
proof (induction msgs arbitrary: cl)
  case Nil
  then show ?case by (auto simp: told_once_def)
next
  case (Cons msg msgs)
  let ?c = "handle_Publish b msg cl" and ?evs = "map Publish_Arrives msgs"
  have "client_ok ?c" by (rule stays_ok_ok [OF handle_Publish_ok [OF Cons.prems(1)]])
  then obtain new where new: "told_once (told_on b ?c ?evs) new (arrived ?evs) ?c (link_run b ?c ?evs)"
    using Cons.IH [of ?c] Cons.prems(2,3) by auto
  have q: "pm_qos msg = ExactlyOnce" using Cons.prems(3) by simp
  have still: "link_run b x (map Publish_Arrives ms) = x \<and> told_on b x (map Publish_Arrives ms) = []"
    if "m_disconnecting (m_sessionState x)" for ms x
  proof -
    have "handle_Publish b m x = x" for m using that by (simp add: handle_Publish_def)
    then show ?thesis by (induction ms) simp_all
  qed
  from Cons.prems(1) q Cons.prems(2) show ?case
  proof (cases rule: publish_told)
    case ended
    then show ?thesis using still [of ?c] by (auto simp: told_once_def)
  next
    case (told info)
    then show ?thesis using told_once_told [OF told new] by auto
  next
    case kept
    have "told_once (told_on b ?c ?evs) new (insert (pm_packetId msg) (arrived ?evs)) cl (link_run b ?c ?evs)"
      by (rule told_once_silent [OF kept new]) blast
    then show ?thesis using kept(1) by auto
  qed
qed

lemma run_told_once:
  assumes "client_ok cl" and "2 \<le> MaxQos (b_config b)" and "kept_through b cl evs"
    and "\<forall>msg\<in>set msgs. pm_qos msg = ExactlyOnce"
  shows "pending_ids cl \<subseteq> pending_ids (link_run b cl evs)"
    and "\<exists>new. told_once (told_on b cl (evs @ map Publish_Arrives msgs)) new (arrived (evs @ map Publish_Arrives msgs)) cl
           (link_run b cl (evs @ map Publish_Arrives msgs))"
  using assms
proof (induction evs arbitrary: cl)
  case Nil
  {
    case 1
    then show ?case by simp
  next
    case 2
    then show ?case using burst_told_once [of cl b msgs] by simp
  }
next
  case (Cons ev evs)
  let ?rest = "evs @ map Publish_Arrives msgs"
  have step: "pending_ids cl \<subseteq> pending_ids (link_step b cl ev) \<and>
      (\<exists>new'. told_once (told_on b cl (ev # ?rest)) new' (arriving ev \<union> ids) cl cl')"
    if ok: "client_ok cl" and m: "2 \<le> MaxQos (b_config b)" and k: "session_kept b cl ev"
      and new: "told_once (told_on b (link_step b cl ev) ?rest) new ids (link_step b cl ev) cl'" for cl new ids cl'
  proof (cases "arriving ev = {}")
    case True
    have s: "pending_ids cl \<subseteq> pending_ids (link_step b cl ev)" "reports (link_step b cl ev) = reports cl"
      using link_step_silent [OF k True] by (auto simp: silent_def pending_ids_def)
    then show ?thesis using told_once_silent [OF s(2,1) new order_refl] by (auto simp: told_on_other True)
  next
    case False
    then obtain msg where ev: "ev = Publish_Arrives msg" by (cases ev) simp_all
    let ?c = "handle_Publish b msg cl"
    have new: "told_once (told_on b ?c ?rest) new ids ?c cl'" using new by (simp add: ev)
    have silent: ?thesis if "reports ?c = reports cl" "pending_ids cl \<subseteq> pending_ids ?c"
    proof -
      have "told_once (told_on b ?c ?rest) new (insert (pm_packetId msg) ids) cl cl'"
        by (rule told_once_silent [OF that new]) blast
      then show ?thesis using that by (auto simp: ev)
    qed
    have "pm_qos msg = ExactlyOnce" using k ev by simp
    from ok this m show ?thesis
    proof (cases rule: publish_told)
      case ended
      then show ?thesis using k ev silent by auto
    next
      case (told info)
      then show ?thesis using told_once_told [OF told new] by (auto simp: ev)
    qed (rule silent)
  qed
  {
    case 1
    have k: "session_kept b cl ev" "kept_through b (link_step b cl ev) evs" using 1(3) by simp_all
    note ih = Cons.IH [OF link_step_ok [OF 1(1)] 1(2) k(2) 1(4)]
    obtain new where "told_once (told_on b (link_step b cl ev) ?rest) new (arrived ?rest) (link_step b cl ev)
        (link_run b (link_step b cl ev) ?rest)" using ih(2) by blast
    from step [OF 1(1,2) k(1) this] ih(1) show ?case by auto
  next
    case 2
    have k: "session_kept b cl ev" "kept_through b (link_step b cl ev) evs" using 2(3) by simp_all
    obtain new where "told_once (told_on b (link_step b cl ev) ?rest) new (arrived ?rest) (link_step b cl ev)
        (link_run b (link_step b cl ev) ?rest)"
      using Cons.IH(2) [OF link_step_ok [OF 2(1)] 2(2) k(2) 2(4)] by blast
    from step [OF 2(1,2) k(1) this] show ?case by simp
  }
qed


text \<open>
  Why a loss must not come before the CONNACK: \<^verbatim>\<open>connect_prepare\<close> resets the session state, and with it
  the expiry interval, so a connection lost at that point ends every operation, the messages being received
  included, although the broker still keeps the session.
\<close>

lemma lost_attempt_forgets:
  assumes "client_ok cl" and "\<not> m_initialized (m_clientState cl)" and "connectPrepare b elapsed cl = (Inr i, cl')"
  shows "session_expiry cl' = 0" and "set (m_ops (brokerDisconnected b reason status info cl')) \<subseteq> {None}"
proof -
  obtain ec c1 where c1: "connect_init b elapsed cl = (ec, c1)" by fastforce
  have x: "m_sessionState (doApiExit c) = m_sessionState c" for c by (simp add: doApiExit_def cleanOps_def emit_def Let_def)
  have ec: "ec = EC_Success" using assms(3) by (auto simp: connectPrepare_def c1 split: if_splits)
  then have s: "m_sessionState c1 = SessionState_init"
    using c1 assms(2) by (auto simp: connect_init_def initInternal_def x Let_def split: if_splits)
  obtain op tm where o: "ConnectOp_construct b c1 = (op, c1\<lparr>m_timerMgr := tm\<rparr>)" using construct_frames(1) by blast
  have "cl' = snd (connectPrepare b elapsed cl)" by (simp add: assms(3))
  then show e: "session_expiry cl' = 0"
    by (simp add: connectPrepare_def c1 o ec prepared_def register_op_def s SessionState_init_def split: option.split)
  have "client_ok cl'" using keeps_ok_ok [OF connectPrepare_ok [OF assms(1)]] assms(3) by (metis snd_conv)
  from brokerDisconnected_ok(2) [OF this, of b reason status info] e
  show "set (m_ops (brokerDisconnected b reason status info cl')) \<subseteq> {None}"
    by (metis insertI1 less_irrefl option.exhaust subsetI)
qed

section \<open>The sample session\<close>

text \<open>A subscribed client whose session outlives the connection by a minute, and how its broker returns.\<close>

definition lasting_client :: client where
  "lasting_client = on_session_state (\<lambda>s. s\<lparr>m_sessionExpiryIntervalMs := 60000\<rparr>) subscribed_client"

definition broker_returns :: "link_event list" where
  "broker_returns =
     [Network_Lost 0,
      Publish_Arrives ((sample_message 7)\<lparr>pm_dup := True\<rparr>), Connect_Prepared 0,
      Connack_Arrives \<lparr>ca_reasonCode = RC_Success, ca_sessionPresent = True, ca_props = []\<rparr> 1]"

lemma brokerDisconnected_ticking:
  "m_cancelNextTickWaitCb (brokerDisconnected b reason status info cl) = m_cancelNextTickWaitCb cl"
proof -
  let ?F = m_cancelNextTickWaitCb
  have o: "?F (opComplete b (t, i) c) = ?F c" if "t \<noteq> Type_Send" "t \<noteq> Type_Recv" for t i c
    using that by (cases t) (simp_all add: opComplete_def opComplete_with_def opComplete_Connect_def
      opComplete_KeepAlive_def opComplete_Disconnect_def opComplete_Subscribe_def opComplete_Unsubscribe_def
      opComplete_Reauth_def destroy_timer_def on_timers_def release_id_def on_client_state_def Let_def split: option.split)
  have t: "?F (terminateOp b status ref c) = ?F c" for status ref c
  proof (cases "is_send_recv ref")
    case True
    then show ?thesis by (rule ticking.frame_terminate)
  next
    case False
    obtain t i where r: "ref = (t, i)" by (cases ref)
    show ?thesis
      using False o unfolding r by (cases t) (simp_all add: terminateOp_def ConnectOp_completeOpInternal_def
        SubscribeOp_completeOpInternal_def UnsubscribeOp_completeOpInternal_def ReauthOp_completeOpInternal_def
        is_send_recv_def emit_def fault_def Let_def split: option.split)
  qed
  have c: "?F (connectivity_at b k c) = ?F c" for k c
    using t [of St_BrokerDisconnected "(Type_Connect, i)" c for i]
    by (simp add: connectivity_at_def connectivityChanged_def SendOp_connectivityChanged_def
        RecvOp_connectivityChanged_def terminateOp_def on_timers_def fault_def split: option.split op_type.split)
  have ts: "?F (terminateOps b st m c) = ?F c" for st m c
    unfolding terminateOps_def by (rule fold_keeps) (simp add: terminate_at_def t split: option.split)
  have fs: "?F (fold (connectivity_at b) ks c) = ?F c" for ks c by (rule fold_keeps) (rule c)
  have w: "?F (on_session_state k c) = ?F c" "?F (on_client_state h c) = ?F c" "?F (on_timers g c) = ?F c"
    "?F (emit ev c) = ?F c" for k h g ev c
    by (simp_all add: on_session_state_def on_client_state_def on_timers_def emit_def)
  show ?thesis by (simp add: brokerDisconnected_def Let_def ts fs w)
qed

lemma network_lost_state:
  assumes "\<not> m_cancelNextTickWaitCb cl"
  shows "m_disconnecting (m_sessionState (notifyNetworkDisconnected b elapsed cl))"
    and "\<not> m_cancelNextTickWaitCb (notifyNetworkDisconnected b elapsed cl)"
proof -
  have x: "m_sessionState (doApiExit c) = m_sessionState c" "m_cancelNextTickWaitCb (doApiExit c) = m_cancelNextTickWaitCb c"
    for c by (simp_all add: doApiExit_def cleanOps_def emit_def Let_def)
  show "m_disconnecting (m_sessionState (notifyNetworkDisconnected b elapsed cl))"
    "\<not> m_cancelNextTickWaitCb (notifyNetworkDisconnected b elapsed cl)"
    using assms by (simp_all add: notifyNetworkDisconnected_def doApiEnter_quiet [OF assms] x brokerDisconnected_session
        brokerDisconnected_ticking Let_def) (simp_all add: on_client_state_def)
qed

lemma lasting_client_idle:
  "client_ok lasting_client" "pending_ids lasting_client = {}" "accepts_publish sample_build (sample_message 7) lasting_client"
  "fst (sendMessage sample_build (Pubrec_Out (pm_packetId (sample_message 7)) None) lasting_client) = EC_Success"
proof -
  show "client_ok lasting_client"
    using same_core_ok [of lasting_client subscribed_client] subscribed_client_idle(1) by (simp add: lasting_client_def)
  show "pending_ids lasting_client = {}"
    using subscribed_client_idle(3) by (simp add: lasting_client_def pending_ids_def)
  show "accepts_publish sample_build (sample_message 7) lasting_client"
    using sample_accepts by (simp add: accepts_publish_def lasting_client_def) (simp add: on_session_state_def)
  show "fst (sendMessage sample_build (Pubrec_Out (pm_packetId (sample_message 7)) None) lasting_client) = EC_Success"
    by (simp add: sendMessage_def lasting_client_def subscribed_client_idle SessionState_init_def)
      (simp add: sample_build_def default_config_def)
qed

lemma sample_qos2:
  "pm_qos (sample_message p) = ExactlyOnce" "pm_packetIdExists (sample_message p)" "pm_packetId (sample_message p) = p"
  "2 \<le> MaxQos (b_config sample_build)"
  by (simp_all add: sample_message_def sample_build_def default_config_def)

lemma lasting_kept:
  "0 < session_expiry (handle_Publish sample_build (sample_message 7) lasting_client)"
  "kept_through sample_build (handle_Publish sample_build (sample_message 7) lasting_client) broker_returns"
proof -
  let ?c = "handle_Publish sample_build (sample_message 7) lasting_client"
  note a = qos2_accepted [OF lasting_client_idle(1) sample_qos2(1,2,4) lasting_client_idle(3) _ lasting_client_idle(4)]
  have s: "m_sessionState ?c = m_sessionState lasting_client" "\<not> m_cancelNextTickWaitCb ?c"
    using a(3,6) lasting_client_idle(2)
    by (simp_all add: lasting_client_def on_session_state_def subscribed_client_def sample_client_def
        connected_client_def with_callbacks_def on_client_state_def ClientImpl_init_def split_beta Let_def)
  show "0 < session_expiry ?c" unfolding s by (simp add: lasting_client_def)
  then show "kept_through sample_build ?c broker_returns"
    using s(2) by (simp add: broker_returns_def network_lost_state handle_Publish_def sample_qos2)
qed


section \<open>Properties\<close>

text \<open>
  C5: A QoS 2 PUBLISH that passes the checks is handed to the application with its topic and payload and
  acknowledged with PUBREC, in this order. It is handed over only once: whatever PUBLISH messages, repetitions of
  this one included, losses of the connection and steps of making it again follow, as long as they leave the session to
  be kept (its expiry interval is not 0 at a loss, a broker that accepts says that it is present, and the
  application has no timer callbacks), its identifier stays pending, the application is told of nothing on the arrival of a message with
  it, and each message told thereafter came with an identifier of its own. When the message is
  repeated at the end, while there is a connection, it is only acknowledged again.
\<close>

theorem qos2_delivered_once:
  assumes "client_ok cl" and "pm_qos msg = ExactlyOnce" and "pm_packetIdExists msg" and "2 \<le> MaxQos (b_config b)"
    and "accepts_publish b msg cl" and "pm_packetId msg \<notin> pending_ids cl"
    and "fst (sendMessage b (Pubrec_Out (pm_packetId msg) None) cl) = EC_Success"
    and "kept_through b (handle_Publish b msg cl) evs"
  shows "let info = message_info_of b msg (handle_props (b_config b) (pm_props msg)) (pm_topic msg);
           ack = Pubrec_Out (pm_packetId msg) None; cl1 = handle_Publish b msg cl; cl2 = link_run b cl1 evs;
           told = told_on b cl1 evs in
         cl_events cl1 = cl_events cl @ [Ev_MessageReceived info, Ev_Output ack] \<and>
         pm_packetId msg \<in> pending_ids cl2 \<and> pm_packetId msg \<notin> set told \<and> distinct told \<and>
         (\<exists>new. reports cl2 = reports cl @ info # new \<and> length new = length told) \<and>
         (\<not> m_disconnecting (m_sessionState cl2) \<and> fst (sendMessage b ack cl2) = EC_Success \<longrightarrow>
           cl_events (handle_Publish b (msg\<lparr>pm_dup := True\<rparr>) cl2) = cl_events cl2 @ [Ev_Output ack])"
proof -
  let ?c = "handle_Publish b msg cl"
  note a = qos2_accepted [OF assms(1-7)]
  have ok: "client_ok ?c" by (rule stays_ok_ok [OF handle_Publish_ok [OF assms(1)]])
  have p: "pm_packetId msg \<in> pending_ids (link_run b ?c evs)"
    using run_told_once(1) [OF ok assms(4,8), of "[]"] a(2) by auto
  obtain new where "told_once (told_on b ?c evs) new (arrived evs) ?c (link_run b ?c evs)"
    using run_told_once(2) [OF ok assms(4,8), of "[]"] by auto
  moreover have "reports ?c = reports cl @ [message_info_of b msg (handle_props (b_config b) (pm_props msg)) (pm_topic msg)]"
    by (simp add: reports_def a(1) List.map_filter_def)
  moreover have "cl_events (handle_Publish b (msg\<lparr>pm_dup := True\<rparr>) x) = cl_events x @ [Ev_Output (Pubrec_Out (pm_packetId msg) None)]"
    if "pm_packetId msg \<in> pending_ids x" "\<not> m_disconnecting (m_sessionState x)"
      "fst (sendMessage b (Pubrec_Out (pm_packetId msg) None) x) = EC_Success" for x
    using qos2_repeated [of "msg\<lparr>pm_dup := True\<rparr>" b x] assms(2,4) that by simp
  ultimately show ?thesis using p a(1,2) by (auto simp: Let_def told_once_def)
qed

text \<open>
  C6: Exactly-once reception: over any course of QoS 2 PUBLISH messages, sent again as often as the
  broker likes, of losses of the connection and of steps that make it again with the session kept (as for the delivery), and then any burst
  of them in which the client may give up the connection, the application is told at most one message
  for each packet identifier that was not already waiting for its PUBREL, and none for those that were.
\<close>

theorem qos2_reported_at_most_once:
  assumes "client_ok cl" and "2 \<le> MaxQos (b_config b)" and "kept_through b cl evs"
    and "\<forall>msg\<in>set msgs. pm_qos msg = ExactlyOnce"
  shows "let course = evs @ map Publish_Arrives msgs; told = told_on b cl course in
         distinct told \<and> set told \<subseteq> arrived course - pending_ids cl \<and>
         (\<exists>new. reports (link_run b cl course) = reports cl @ new \<and> length new = length told)"
  using run_told_once(2) [OF assms] by (auto simp: Let_def told_once_def)

theorem qos2_delivered_once_witness:
  "let cl1 = handle_Publish sample_build (sample_message 7) lasting_client; cl2 = link_run sample_build cl1 broker_returns in
   cl_events cl1 = cl_events lasting_client @
     [Ev_MessageReceived (message_info_of sample_build (sample_message 7) PropsHandler_init ''a''),
      Ev_Output (Pubrec_Out 7 None)] \<and>
   7 \<in> pending_ids cl2 \<and> 7 \<notin> set (told_on sample_build cl1 broker_returns)"
proof -
  have m: "pm_topic (sample_message 7) = ''a''"
    "handle_props (b_config sample_build) (pm_props (sample_message 7)) = PropsHandler_init"
    by (simp_all add: sample_message_def handle_props_def)
  show ?thesis
    using qos2_delivered_once [OF lasting_client_idle(1) sample_qos2(1,2,4) lasting_client_idle(3) _ lasting_client_idle(4)
        lasting_kept(2)] lasting_client_idle(2)
    by (simp add: Let_def m sample_qos2(3))
qed

theorem qos2_reported_at_most_once_witness:
  "let course = Publish_Arrives (sample_message 7) # broker_returns @ [Publish_Arrives (sample_message 8)];
       told = told_on sample_build lasting_client course in
   distinct told \<and> set told \<subseteq> {7, 8}"
proof -
  have k: "kept_through sample_build lasting_client (Publish_Arrives (sample_message 7) # broker_returns)"
    using lasting_kept by (simp add: sample_qos2) (simp add: lasting_client_def)
  have i: "arrived (Publish_Arrives (sample_message 7) # broker_returns @ [Publish_Arrives (sample_message 8)]) = {7, 8}"
    by (auto simp: broker_returns_def arrived_def sample_qos2)
  show ?thesis
    using qos2_reported_at_most_once [OF lasting_client_idle(1) sample_qos2(4) k, of "[sample_message 8]"]
    by (auto simp: Let_def i sample_qos2 simp del: told_on.simps arrived_simps)
qed

end
