(* ===== verification/Spec2Isabelle.thy ===== *)
theory Spec2Isabelle
  imports Client_Facade Publish_Flow Subscriptions App_Client Fuzz_Generator Timer_Ownership Keep_Alive_Flow Connect_Flow Broker_Exchange Alias_Flow Receive_Flow
begin

text \<open>
  The MQTT v5 client library of \<^verbatim>\<open>cc.mqtt5.libs\<close> (\<^verbatim>\<open>client/lib\<close>) and the applications
  built on it (\<^verbatim>\<open>client/app\<close>, \<^verbatim>\<open>client/afl_fuzz\<close>).

  \<^bold>\<open>The program.\<close> \<^verbatim>\<open>ClientImpl\<close> is the client. It owns the operation objects, one per
  activity of the protocol: \<^verbatim>\<open>ConnectOp\<close>, \<^verbatim>\<open>KeepAliveOp\<close>, \<^verbatim>\<open>DisconnectOp\<close>, \<^verbatim>\<open>SubscribeOp\<close>,
  \<^verbatim>\<open>UnsubscribeOp\<close>, \<^verbatim>\<open>RecvOp\<close> (one incoming PUBLISH), \<^verbatim>\<open>SendOp\<close> (one outgoing PUBLISH) and
  \<^verbatim>\<open>ReauthOp\<close>. The application prepares an operation, configures it and sends it; the bytes
  of the broker come in through \<^verbatim>\<open>processData\<close>, become messages and are dispatched to the
  operations; time comes in through \<^verbatim>\<open>tick\<close>, which runs the callbacks of the timers of
  \<^verbatim>\<open>TimerMgr\<close>. An operation ends by \<^verbatim>\<open>opComplete\<close>, which destroys it; the pointers in
  \<^verbatim>\<open>m_ops\<close> are nullified and swept when the outermost API call ends.

  \<^bold>\<open>The theories.\<close>
  \<^item> \<open>Mqtt_Prelude\<close>: vocabulary of the C++ library on lists, sorted vectors, and the
    interfaces \<open>resource_pool\<close>, \<open>ordered_store\<close> and \<open>step_invariant\<close>.
  \<^item> \<open>Mqtt_Config\<close>: enumerations, compile-time and run-time configuration
    (\<^verbatim>\<open>Config.h.templ\<close>, \<^verbatim>\<open>ExtConfig.h\<close>, \<^verbatim>\<open>ConfigState.h\<close>, \<^verbatim>\<open>common.h\<close>).
  \<^item> \<open>Timer_Mgr\<close>: \<^verbatim>\<open>TimerMgr\<close>; \<open>Packet_Ids\<close>: the packet identifiers of
    \<^verbatim>\<open>op/Op.cpp\<close>. Both interpret \<open>resource_pool\<close>.
  \<^item> \<open>Topic_Names\<close>: verification of filters and topics (\<^verbatim>\<open>op/Op.cpp\<close>) and matching
    (\<^verbatim>\<open>op/RecvOp.cpp\<close>), against the levels of MQTT.
  \<^item> \<open>Props_Handler\<close>: the visitor of the properties of a message, and adding properties.
  \<^item> \<open>Client_State\<close>: messages, events, the operation objects and the state of the client.
  \<^item> \<open>Client_Core\<close>: sending, completing an operation, resuming paused publishes.
  \<^item> \<open>Client_Session\<close>: terminating operations, losing and gaining the connection,
    resending.
  \<^item> \<open>Client_Invariant\<close>: the invariant \<open>client_ok\<close> and its preservation by these.
  \<^item> \<open>Keep_Alive_Op\<close>, \<open>Recv_Op\<close>, \<open>Send_Op\<close>, \<open>Subscribe_Op\<close>, \<open>Connect_Op\<close>,
    \<open>Reauth_Op\<close>, \<open>Topic_Alias\<close>: the members of the operations and the topic aliases.
  \<^item> \<open>Client_Dispatch\<close>: incoming messages, timer callbacks, API entry and exit.
  \<^item> \<open>Client_Prepare\<close>: initialisation, the prepare functions and the preparation lock;
    \<open>Client_Send\<close>: sending and cancelling prepared operations, \<^verbatim>\<open>DisconnectOp\<close>;
    \<open>Client_Api\<close>: \<^verbatim>\<open>processData\<close>, the configuration calls and the client as a machine
    \<open>api_step\<close>, which interprets \<open>step_invariant\<close>.
  \<^item> \<open>Client_Facade\<close>: the C interface of \<^verbatim>\<open>templ/client.cpp.templ\<close>: handles, defaults,
    and the calls that prepare, configure and send at once.
  \<^item> \<open>Exactly_Once\<close>, \<open>Client_Disconnect\<close>, \<open>Publish_Flow\<close>, \<open>Subscriptions\<close>: what the
    parts do together: what the application is told of messages, who is told when the connection is lost, the
    acknowledgement of outgoing publishes and the receive maximum, and SUBACK and UNSUBACK
    as updates of the set of subscriptions; \<open>Reconnection\<close>: what is sent again to a broker that
    kept the session; \<open>Connect_Flow\<close>: what a CONNACK does to the attempt and the session;
    \<open>Receive_Flow\<close>: exactly-once reception through losses of the connection and its return;
    \<open>Alias_Flow\<close>: what the topic aliases mean for the broker; \<open>Keep_Alive_Flow\<close>: an idle connection against an
    automaton of the keep alive timers; \<open>Timer_Ownership\<close>: who holds which timer.
  \<^item> \<open>App_Text\<close>, \<open>App_Options\<close>, \<open>App_Session\<close>, \<open>App_Client\<close>: the command line
    applications of \<^verbatim>\<open>client/app\<close>: printing and binary arguments, options, the network
    session, and \<^verbatim>\<open>AppClient\<close> with \<^verbatim>\<open>Pub\<close> and \<^verbatim>\<open>Sub\<close>. The session and the client meet in
    the interface \<open>stream_consumer\<close>, which \<^verbatim>\<open>processData\<close> interprets.
  \<^item> \<open>Fuzz_Generator\<close>: the broker of the fuzzer (\<^verbatim>\<open>client/afl_fuzz/Generator.cpp\<close>), its options
    and its program; \<open>Broker_Exchange\<close>: the client and this broker together, message by message.
  \<^bold>\<open>How the state corresponds.\<close> The record \<open>client\<close> has the members of \<^verbatim>\<open>ClientImpl\<close> under
  their names; an operation object is a record named by a number that is never reused, its
  address, and \<^verbatim>\<open>m_ops\<close> holds these numbers with the type of the object, \<^term>\<open>None\<close> for a
  nullified pointer. Everything the client does to the outside is an event in
  \<open>cl_events\<close>; what C++ leaves undefined (a dead object, a null pointer, an iterator
  invalidated under a loop, an index out of range) sets \<open>cl_fault\<close> and stays visible.
  A message is a record of the fields that the library reads.

  \<^bold>\<open>What the lemmas show.\<close> The pools hand out only what nobody holds; the character
  loops decide exactly the levels of MQTT; the property visitor finds exactly the protocol
  errors; the resumption of paused publishes, nested in the completions it causes, returns;
  every message, timer callback and API call keeps \<open>client_ok\<close>: the pointers in \<^verbatim>\<open>m_ops\<close>
  are exactly the live objects, \<^verbatim>\<open>m_inFlightSends\<close> counts the published ones, a published
  operation is not paused, the packet identifiers stay sorted. The same machine
  keeps a second invariant: the allocated timers are exactly those of the client and its live
  operations, so that the table never outgrows the limit computed from the operation limits.
  What holds of every completion and resumption, however they nest (the session is untouched,
  only publishes are sent or completed), is proved once in the interface \<open>publish_frame\<close>, and with the end of a stored session in
  \<open>session_frame\<close>, which extends it.
  Where the code can fault, the statement names the faults.

  \<^bold>\<open>Fuel.\<close> \<open>resumeSendOpsSince\<close> runs on \<open>resume_fuel\<close>, one more than the product of the numbers of
  paused and of all operations (each plus one): every turn passes an operation or leaves fewer paused
  ones. \<open>resend_until\<close> runs on the number of operations plus one. That both are enough is
  proved (no step ends with \<^term>\<open>Fuel_Exhausted\<close>). \<open>packet_id_loop\<close> is a \<open>partial_function\<close>; that it returns is proved.

  \<^bold>\<open>Parameters.\<close> The generated protocol library \<^verbatim>\<open>cc_mqtt5\<close> and \<^verbatim>\<open>comms\<close> are not in the
  repository: frame lengths, success of serialisation, capacities of lists inside
  messages, the default packet identifier and the parsing of frames are fields of the record \<open>build\<close>, as is the
  application's authentication callback. What is assumed of them is stated where it is used, and only of the parser of
  frames: a message takes at least one byte and no more than there are (\<open>frame_ok\<close>, in the theorems on
  \<^verbatim>\<open>processData\<close> and on the runs of API calls), and for the stream of the applications that encoded
  messages are read back and a proper beginning of one is incomplete (\<open>framed\<close>). The keep alive
  of a constructed CONNECT message is the library's too; it is overwritten by every successful basic configuration and starts as 0 here.

  Of the applications, boost's option parser, sockets, TLS and event loop are parameters; of
  the parser it is assumed, where needed, that the values fit the descriptions of the options.

  \<^bold>\<open>Simplified.\<close> The counters and positions that C++ keeps as \<^verbatim>\<open>unsigned\<close> beside the data of the protocol
  (timer handles and \<^verbatim>\<open>m_allocatedTimers\<close>, positions in a topic, lengths) are natural numbers, which
  differ only beyond 2^32 elements. Assertions are left out, as in a release build; the one that can fail
  (\<^verbatim>\<open>KeepAliveOp.cpp:144\<close>, ping and response timer in the same tick) is a finding. The
  callbacks that the application sets are chosen once, when the client is made, and the destructor is not a call of
  the machine \<open>api_step\<close>.

  \<^bold>\<open>Not modelled.\<close> Callbacks of the application that call back into the client, hence the
  whole run of an application, whose members are modelled one by one; logging; the
  allocation of clients and the getters of the C interface; the harness of the fuzzer, whose
  callbacks do that; the text of its log; the unit tests.
\<close>

end
